(* ===== verification/Prelude.thy ===== *)
theory Prelude
  imports Main "HOL-Library.Word" "HOL-Library.Signed_Division"
begin

text \<open>
  Shared vocabulary of the Nachos development: machine integers, faults as values, the
  sequencing of fallible operations, and generic facts about lists and rounding that several
  components use.

  A C++ operation that can fail an \<open>ASSERT\<close>, read or write outside an object, or stop the
  machine is modelled by a function into \<open>'a result\<close>: \<open>Inl\<close> carries the fault,
  \<open>Inr\<close> the value (and the new state). Every \<open>ASSERT\<close> of the source is such a branch.
\<close>

section \<open>Machine integers\<close>

type_synonym u8 = "8 word"
type_synonym u16 = "16 word"
type_synonym u32 = "32 word"
type_synonym u64 = "64 word"

lemma sint_small:
  fixes w :: u32
  assumes "unat w < 2 ^ 31"
  shows "sint w = int (unat w)"
proof -
  have "uint w = int (unat w)" by simp
  moreover have "int (unat w) < 2 ^ 31" using assms by (metis of_nat_less_iff of_nat_numeral of_nat_power)
  ultimately have "uint w < 2 ^ 31" by linarith
  moreover have "- (2 ^ 31) \<le> uint w"
    by (rule order_trans [of _ 0]) simp_all
  ultimately have "signed_take_bit 31 (uint w) = uint w"
    by (intro signed_take_bit_int_eq_self)
  then show ?thesis by (simp add: sint_uint)
qed

text \<open>Signed 32-bit integers as \<open>int\<close>: the range, and the conversion from a wider integer.\<close>

definition in_int :: "int \<Rightarrow> bool" where
  "in_int v \<longleftrightarrow> - (2 ^ 31) \<le> v \<and> v < 2 ^ 31"

definition to_int32 :: "int \<Rightarrow> int" where
  "to_int32 v = signed_take_bit 31 v"

lemma to_int32_id [simp]: "in_int v \<Longrightarrow> to_int32 v = v"
  by (simp add: to_int32_def in_int_def signed_take_bit_int_eq_self)

lemma sint_word_of_int32: "in_int v \<Longrightarrow> sint (word_of_int v :: u32) = v"
  by (simp add: in_int_def signed_take_bit_int_eq_self sint_sbintrunc')

lemma sint_of_nat32: "n < 2 ^ 31 \<Longrightarrow> sint (of_nat n :: u32) = int n"
  using sint_word_of_int32[of "int n"] by (simp add: in_int_def)

lemma sdiv_nonneg: "0 \<le> a \<Longrightarrow> 0 < b \<Longrightarrow> a sdiv b = a div (b::int)"
  by (cases "a = 0") (simp_all add: signed_divide_int_def)

lemma smod_nonneg: "0 \<le> a \<Longrightarrow> 0 < b \<Longrightarrow> a smod b = a mod (b::int)"
  by (cases "a = 0") (simp_all add: signed_modulo_int_def)

section \<open>Bytes\<close>

unbundle bit_operations_syntax

text \<open>A 32-bit word from its bytes, the least significant first, and back.\<close>

definition le32 :: "u8 \<Rightarrow> u8 \<Rightarrow> u8 \<Rightarrow> u8 \<Rightarrow> u32" where
  "le32 b0 b1 b2 b3 =
     ucast b0 OR push_bit 8 (ucast b1) OR push_bit 16 (ucast b2) OR push_bit 24 (ucast b3)"

lemma le32_bits:
  "n < 32 \<Longrightarrow> bit (le32 a b c d) n =
     (if n < 8 then bit a n else if n < 16 then bit b (n - 8)
      else if n < 24 then bit c (n - 16) else bit d (n - 24))"
  by (auto simp: le32_def bit_simps dest: bit_imp_le_length)

lemma le32_split:
  "le32 (ucast w) (ucast (drop_bit 8 w)) (ucast (drop_bit 16 w)) (ucast (drop_bit 24 w)) = w"
  by (rule bit_word_eqI) (auto simp: le32_bits bit_simps)

definition word_bytes :: "u32 \<Rightarrow> u8 list" where
  "word_bytes w = [ucast w, ucast (drop_bit 8 w), ucast (drop_bit 16 w), ucast (drop_bit 24 w)]"

definition bytes_word :: "u8 list \<Rightarrow> u32" where
  "bytes_word bs = le32 (bs ! 0) (bs ! 1) (bs ! 2) (bs ! 3)"

lemma length_word_bytes [simp]: "length (word_bytes w) = 4"
  by (simp add: word_bytes_def)

lemma bytes_word_bytes [simp]: "bytes_word (word_bytes w) = w"
  by (simp add: bytes_word_def word_bytes_def le32_split)

lemma bytes_word_append [simp]: "bytes_word (word_bytes w @ xs) = w"
  by (simp add: bytes_word_def word_bytes_def le32_split)

lemma length_4_cases: "length bs = 4 \<Longrightarrow> \<exists>a b c d. bs = [a, b, c, d]"
  by (auto simp: numeral_eq_Suc length_Suc_conv)

lemma word_bytes_word: "length bs = 4 \<Longrightarrow> word_bytes (bytes_word bs) = bs"
proof -
  assume "length bs = 4"
  then obtain a b c d where "bs = [a, b, c, d]" using length_4_cases by blast
  moreover have "ucast (le32 a b c d) = a" "ucast (drop_bit 8 (le32 a b c d)) = b"
    "ucast (drop_bit 16 (le32 a b c d)) = c" "ucast (drop_bit 24 (le32 a b c d)) = d"
    by (rule bit_word_eqI; simp add: le32_bits bit_simps)+
  ultimately show ?thesis by (simp add: word_bytes_def bytes_word_def)
qed

section \<open>Chunks\<close>

text \<open>Lists that are made of pieces of one length: sectors, pages, the words of a table.\<close>

lemma length_concat_chunks:
  "(\<And>x. x \<in> set xs \<Longrightarrow> length (f x) = k) \<Longrightarrow> length (concat (map f xs)) = k * length xs"
  by (induction "xs") simp_all

lemma concat_chunks_nth:
  "(\<And>x. x \<in> set xs \<Longrightarrow> length (f x) = k) \<Longrightarrow> i < k * length xs \<Longrightarrow>
   concat (map f xs) ! i = f (xs ! (i div k)) ! (i mod k)"
proof (induction "xs" arbitrary: i)
  case Nil
  then show ?case by simp
next
  case (Cons x ys)
  have k: "0 < k" using Cons.prems(2) by (cases k) simp_all
  show ?case
  proof (cases "i < k")
    case True
    then show ?thesis using Cons.prems(1)[of x] by (simp add: nth_append)
  next
    case False
    then have s: "i div k = Suc ((i - k) div k)" "i mod k = (i - k) mod k"
      using k by (simp_all add: le_div_geq le_mod_geq)
    have "concat (map f ys) ! (i - k) = f (ys ! ((i - k) div k)) ! ((i - k) mod k)"
      using Cons.prems False by (intro Cons.IH) auto
    then show ?thesis using False Cons.prems(1)[of x] s by (simp add: nth_append)
  qed
qed

lemma concat_chunk:
  "(\<And>x. x \<in> set xs \<Longrightarrow> length (f x) = k) \<Longrightarrow> j < length xs \<Longrightarrow>
   take k (drop (k * j) (concat (map f xs))) = f (xs ! j)"
proof (induction "xs" arbitrary: j)
  case Nil
  then show ?case by simp
next
  case (Cons x ys)
  then show ?case by (cases j) simp_all
qed

lemma chunks_concat:
  "length bs = k * n \<Longrightarrow> concat (map (\<lambda>i. take k (drop (k * i) bs)) [0..<n]) = bs"
proof (induction n arbitrary: bs)
  case 0
  then show ?case by simp
next
  case (Suc n)
  have "concat (map (\<lambda>i. take k (drop (k * i) bs)) [0..<n])
      = concat (map (\<lambda>i. take k (drop (k * i) (take (k * n) bs))) [0..<n])"
  proof (rule arg_cong[where f = concat], rule map_cong[OF refl])
    fix i assume "i \<in> set [0..<n]"
    then have "k * i + k \<le> k * n" by (metis Suc_leI atLeastLessThan_iff mult_le_mono2 mult_Suc_right set_upt add.commute)
    then show "take k (drop (k * i) bs) = take k (drop (k * i) (take (k * n) bs))"
      by (simp add: drop_take min_def)
  qed
  also have "\<dots> = take (k * n) bs" using Suc.prems by (intro Suc.IH) simp
  finally show ?case using Suc.prems by simp
qed

lemma take_concat_upt:
  "m \<le> n \<Longrightarrow> (\<And>i. i < n \<Longrightarrow> length (f i) = k) \<Longrightarrow>
   take (k * m) (concat (map f [0..<n])) = concat (map f [0..<m])"
proof -
  assume m: "m \<le> n" and len: "\<And>i. i < n \<Longrightarrow> length (f i) = k"
  have "[0..<n] = [0..<m] @ [m..<n]" using m by (metis le_add_diff_inverse upt_add_eq_append zero_le)
  moreover have "length (concat (map f [0..<m])) = k * length [0..<m]"
    using m len by (intro length_concat_chunks) auto
  ultimately show ?thesis by simp
qed

lemma drop_concat_upt:
  "m \<le> n \<Longrightarrow> (\<And>i. i < n \<Longrightarrow> length (f i) = k) \<Longrightarrow>
   drop (k * m) (concat (map f [0..<n])) = concat (map f [m..<n])"
proof -
  assume m: "m \<le> n" and len: "\<And>i. i < n \<Longrightarrow> length (f i) = k"
  have "[0..<n] = [0..<m] @ [m..<n]" using m by (metis le_add_diff_inverse upt_add_eq_append zero_le)
  moreover have "length (concat (map f [0..<m])) = k * length [0..<m]"
    using m len by (intro length_concat_chunks) auto
  ultimately show ?thesis by simp
qed

text \<open>What \<open>bcopy\<close> and \<open>write\<close> do: \<open>bs\<close> lands at offset \<open>off\<close> of a buffer.\<close>

definition overlay :: "nat \<Rightarrow> 'b list \<Rightarrow> 'b list \<Rightarrow> 'b list" where
  "overlay off bs buf = take off buf @ bs @ drop (off + length bs) buf"

lemma length_overlay [simp]: "off + length bs \<le> length buf \<Longrightarrow> length (overlay off bs buf) = length buf"
  by (simp add: overlay_def)

lemma nth_overlay:
  "off + length bs \<le> length buf \<Longrightarrow> i < length buf \<Longrightarrow>
   overlay off bs buf ! i = (if off \<le> i \<and> i < off + length bs then bs ! (i - off) else buf ! i)"
  by (auto simp: overlay_def nth_append min_def)

lemma take_drop_append: "a + n \<le> length xs \<Longrightarrow> take n (drop a (xs @ ys)) = take n (drop a xs)"
  by simp

lemma take_drop_take: "a + n \<le> m \<Longrightarrow> take n (drop a (take m xs)) = take n (drop a xs)"
  by (simp add: drop_take min_def)

section \<open>Faults\<close>

datatype fault =
    Assertion_failed     \<comment> \<open>\<open>ASSERT(...)\<close> fails: \<open>Abort()\<close>\<close>
  | Undefined_behaviour  \<comment> \<open>an access outside an object, or an arithmetic trap\<close>
  | Machine_halted       \<comment> \<open>\<open>interrupt->Halt()\<close>, which never returns\<close>
  | Uncaught_exception   \<comment> \<open>\<open>vector::at\<close> out of range\<close>
  | Diverges             \<comment> \<open>a loop that does not end\<close>

type_synonym 'a result = "fault + 'a"

definition bindE :: "'e + 'a \<Rightarrow> ('a \<Rightarrow> 'e + 'b) \<Rightarrow> 'e + 'b" where
  "bindE m f = (case m of Inl e \<Rightarrow> Inl e | Inr x \<Rightarrow> f x)"

definition assertE :: "bool \<Rightarrow> unit result" where
  "assertE b = (if b then Inr () else Inl Assertion_failed)"

named_theorems result_simps \<open>evaluation of fallible operations\<close>
named_theorems inv_intros \<open>operations keep their component's invariant\<close>
named_theorems frame_simps \<open>what an operation leaves alone\<close>

lemma bindE_Inl [simp]: "bindE (Inl e) f = Inl e"
  by (simp add: bindE_def)

lemma bindE_Inr [simp]: "bindE (Inr x) f = f x"
  by (simp add: bindE_def)

lemma bindE_eq_Inr: "bindE m f = Inr y \<longleftrightarrow> (\<exists>x. m = Inr x \<and> f x = Inr y)"
  by (cases m) auto

lemma bindE_InrE:
  assumes "bindE m f = Inr y"
  obtains x where "m = Inr x" and "f x = Inr y"
  using assms by (auto simp: bindE_eq_Inr)

lemma bindE_assoc: "bindE (bindE m f) g = bindE m (\<lambda>x. bindE (f x) g)"
  by (cases m) auto

lemma bindE_cong [fundef_cong]:
  "m = m' \<Longrightarrow> (\<And>x. m' = Inr x \<Longrightarrow> f x = g x) \<Longrightarrow> bindE m f = bindE m' g"
  by (cases m') auto

lemma assertE_True [simp]: "b \<Longrightarrow> assertE b = Inr ()"
  by (simp add: assertE_def)

lemma assertE_False [simp]: "\<not> b \<Longrightarrow> assertE b = Inl Assertion_failed"
  by (simp add: assertE_def)

lemma assertE_eq_Inr [simp]: "assertE b = Inr u \<longleftrightarrow> b"
  by (simp add: assertE_def)

section \<open>Files of the host\<close>

text \<open>\<open>Lseek\<close> and \<open>Read\<close>, whose \<open>ASSERT\<close> fails on a short read; \<open>Lseek\<close> and \<open>WriteFile\<close>, which
  fills a gap behind the end of the file with zeros.\<close>

definition unix_read :: "nat \<Rightarrow> nat \<Rightarrow> u8 list \<Rightarrow> u8 list result" where
  "unix_read off n f =
     (if off + n \<le> length f then Inr (take n (drop off f)) else Inl Assertion_failed)"

definition unix_write :: "nat \<Rightarrow> u8 list \<Rightarrow> u8 list \<Rightarrow> u8 list" where
  "unix_write off bs f =
     overlay off bs (f @ replicate (off - length f) 0)"

lemma length_unix_write: "length (unix_write off bs f) = max (length f) (off + length bs)"
  by (auto simp: unix_write_def overlay_def)

lemma unix_write_inside:
  "off + length bs \<le> length f \<Longrightarrow> unix_write off bs f = take off f @ bs @ drop (off + length bs) f"
  by (simp add: unix_write_def overlay_def)

text \<open>\<open>ReadPartial\<close>: the bytes there are, at most \<open>n\<close>.\<close>

definition unix_read_partial :: "nat \<Rightarrow> nat \<Rightarrow> u8 list \<Rightarrow> u8 list" where
  "unix_read_partial off n f = take n (drop off f)"

text \<open>A file of slots of one size: writing a slot changes no other.\<close>

lemma unix_write_slot:
  assumes "length bs = n"
  shows "take n (drop (k * n) (unix_write (k * n) bs f)) = bs"
    and "j \<noteq> k \<Longrightarrow> j * n + n \<le> length f \<Longrightarrow> take n (drop (j * n) (unix_write (k * n) bs f)) = take n (drop (j * n) f)"
proof -
  let ?g = "f @ replicate (k * n - length f) 0"
  have g: "k * n \<le> length ?g" by simp
  show "take n (drop (k * n) (unix_write (k * n) bs f)) = bs"
    using assms g by (simp add: unix_write_def overlay_def)
  assume j: "j \<noteq> k" and l: "j * n + n \<le> length f"
  consider "Suc j \<le> k" | "Suc k \<le> j" using j by linarith
  then show "take n (drop (j * n) (unix_write (k * n) bs f)) = take n (drop (j * n) f)"
  proof cases
    case 1
    then have "Suc j * n \<le> k * n" by (rule mult_le_mono1)
    then have "j * n + n \<le> k * n" by simp
    then show ?thesis using l g by (simp add: unix_write_def overlay_def take_drop_append take_drop_take)
  next
    case 2
    then have "Suc k * n \<le> j * n" by (rule mult_le_mono1)
    then have "k * n + n \<le> j * n" by simp
    moreover have "drop b (unix_write a bs f) = drop b f" if "a + n \<le> b" "b \<le> length f" for a b
      using that assms by (simp add: unix_write_inside)
    ultimately show ?thesis using l by simp
  qed
qed

section \<open>Rounding\<close>

definition divRoundDown :: "nat \<Rightarrow> nat \<Rightarrow> nat" where
  "divRoundDown n s = n div s"

definition divRoundUp :: "nat \<Rightarrow> nat \<Rightarrow> nat" where
  "divRoundUp n s = n div s + (if n mod s > 0 then 1 else 0)"

lemma divRoundUp_covers: "0 < s \<Longrightarrow> n \<le> divRoundUp n s * s"
proof -
  assume s: "0 < s"
  have "n mod s \<le> s" using s by (simp add: less_imp_le)
  moreover have "n div s * s + n mod s = n" by simp
  moreover have "n mod s \<le> (if n mod s > 0 then s else 0)"
    using s by (simp add: less_imp_le)
  ultimately have "n \<le> n div s * s + (if n mod s > 0 then s else 0)"
    by linarith
  then show ?thesis by (simp add: divRoundUp_def add.commute split: if_splits)
qed

lemma divRoundUp_tight:
  assumes s: "0 < s" and n: "0 < n"
  shows "(divRoundUp n s - 1) * s < n"
proof -
  have eq: "n div s * s + n mod s = n" by simp
  show ?thesis
  proof (cases "n mod s = 0")
    case True
    then have "n div s * s = n" using eq by simp
    then obtain k where k: "n div s = Suc k" using n by (cases "n div s") auto
    then have "k * s < Suc k * s" using s by simp
    also have "\<dots> = n" using k \<open>n div s * s = n\<close> by simp
    finally show ?thesis using True k by (simp add: divRoundUp_def)
  next
    case False
    then have "n div s * s < n" using eq by linarith
    then show ?thesis using False by (simp add: divRoundUp_def)
  qed
qed

lemma divRoundUp_le: "0 < s \<Longrightarrow> n \<le> k * s \<Longrightarrow> divRoundUp n s \<le> k"
proof (rule ccontr)
  assume s: "0 < s" and n: "n \<le> k * s" and "\<not> divRoundUp n s \<le> k"
  then have k: "k \<le> divRoundUp n s - 1" by simp
  have p: "0 < n"
    using \<open>\<not> divRoundUp n s \<le> k\<close> by (cases n) (simp_all add: divRoundUp_def)
  have "k * s \<le> (divRoundUp n s - 1) * s" using k by (rule mult_le_mono1)
  then show False using divRoundUp_tight[OF s p] n by linarith
qed

lemma div_less_divRoundUp: "0 < s \<Longrightarrow> i < n \<Longrightarrow> i div s < divRoundUp n s"
proof -
  assume s: "0 < s" and i: "i < n"
  have "i < divRoundUp n s * s" using divRoundUp_covers[OF s, of n] i by linarith
  then show ?thesis using s by (simp add: less_mult_imp_div_less)
qed

section \<open>Slot maps\<close>

text \<open>
  Several components hand out numbered slots with a free map: disk sectors to files, table
  entries to locks and open files, physical and swap pages. The interface they use is a test,
  a clear and a \<open>find\<close> that marks the slot it returns. \<open>take_slots\<close> is the loop that
  calls \<open>find\<close> once for each slot wanted, \<open>give_back\<close> the loop that checks and clears
  each slot of a list.
\<close>

primrec take_slots :: "('b \<Rightarrow> (int \<times> 'b) result) \<Rightarrow> nat \<Rightarrow> 'b \<Rightarrow> (int list \<times> 'b) result" where
  "take_slots fnd 0 b = Inr ([], b)"
| "take_slots fnd (Suc n) b =
     bindE (fnd b) (\<lambda>(i, b1). bindE (take_slots fnd n b1) (\<lambda>(xs, b2). Inr (i # xs, b2)))"

fun give_back :: "('b \<Rightarrow> int \<Rightarrow> bool result) \<Rightarrow> ('b \<Rightarrow> int \<Rightarrow> 'b result) \<Rightarrow> int list \<Rightarrow> 'b \<Rightarrow> 'b result"
where
  "give_back test clear [] b = Inr b"
| "give_back test clear (i # xs) b =
     bindE (test b i) (\<lambda>t. bindE (assertE t) (\<lambda>_. bindE (clear b i) (give_back test clear xs)))"

locale slot_map =
  fixes test :: "'b \<Rightarrow> int \<Rightarrow> bool result"
    and clear :: "'b \<Rightarrow> int \<Rightarrow> 'b result"
    and fnd :: "'b \<Rightarrow> (int \<times> 'b) result"
    and used :: "'b \<Rightarrow> nat set"
    and sz :: "'b \<Rightarrow> nat"
    and wf :: "'b \<Rightarrow> bool"
  assumes used_bounded: "used b \<subseteq> {..<sz b}"
    and test_eq: "i < sz b \<Longrightarrow> test b (int i) = Inr (i \<in> used b)"
    and clear_ex: "wf b \<Longrightarrow> i < sz b \<Longrightarrow>
      \<exists>b'. clear b (int i) = Inr b' \<and> wf b' \<and> sz b' = sz b \<and> used b' = used b - {i}"
    and find_some: "wf b \<Longrightarrow> card (used b) < sz b \<Longrightarrow>
      \<exists>i b'. fnd b = Inr (int i, b') \<and> wf b' \<and> sz b' = sz b \<and> i < sz b
        \<and> i \<notin> used b \<and> used b' = insert i (used b)"
    and find_none: "wf b \<Longrightarrow> card (used b) = sz b \<Longrightarrow> fnd b = Inr (-1, b)"
begin

lemma finite_used: "finite (used b)"
  using used_bounded finite_subset by blast

text \<open>Enough free slots: the loop takes distinct slots that were free and marks just them.\<close>

lemma take_slots_enough:
  "wf b \<Longrightarrow> card (used b) + n \<le> sz b \<Longrightarrow>
   \<exists>xs b'. take_slots fnd n b = Inr (map int xs, b') \<and> wf b' \<and> sz b' = sz b
     \<and> length xs = n \<and> distinct xs \<and> set xs \<inter> used b = {} \<and> set xs \<subseteq> {..<sz b}
     \<and> used b' = used b \<union> set xs"
proof (induction n arbitrary: b)
  case 0
  then show ?case by simp
next
  case (Suc n)
  then obtain i b1 where f: "fnd b = Inr (int i, b1)" "wf b1" "sz b1 = sz b" "i < sz b"
    "i \<notin> used b" "used b1 = insert i (used b)"
    using find_some[of b] by auto
  have "card (used b1) = Suc (card (used b))"
    using f finite_used by simp
  then obtain xs b2 where r: "take_slots fnd n b1 = Inr (map int xs, b2)" "wf b2"
    "sz b2 = sz b1" "length xs = n" "distinct xs" "set xs \<inter> used b1 = {}"
    "set xs \<subseteq> {..<sz b1}" "used b2 = used b1 \<union> set xs"
    using Suc.IH[of b1] Suc.prems f by auto
  show ?case
    using f r by (intro exI[of _ "i # xs"] exI[of _ b2]) auto
qed

text \<open>Giving back marked, distinct slots clears just them, and no check fails.\<close>

lemma give_back_marked:
  "wf b \<Longrightarrow> distinct xs \<Longrightarrow> set xs \<subseteq> used b \<Longrightarrow>
   \<exists>b'. give_back test clear (map int xs) b = Inr b' \<and> wf b' \<and> sz b' = sz b
     \<and> used b' = used b - set xs"
proof (induction "xs" arbitrary: b)
  case Nil
  then show ?case by simp
next
  case (Cons i js)
  then have i: "i \<in> used b" "i < sz b" using used_bounded by auto
  then obtain b1 where c: "clear b (int i) = Inr b1" "wf b1" "sz b1 = sz b"
    "used b1 = used b - {i}"
    using clear_ex Cons.prems(1) by blast
  have "set js \<subseteq> used b1" using Cons.prems c by auto
  then obtain b2 where "give_back test clear (map int js) b1 = Inr b2" "wf b2"
    "sz b2 = sz b1" "used b2 = used b1 - set js"
    using Cons.IH[of b1] Cons.prems c by auto
  then show ?case using c i by (auto simp: test_eq)
qed

text \<open>Taking slots and giving them back restores the set of used slots.\<close>

lemma take_give_back:
  assumes "wf b" and "card (used b) + n \<le> sz b"
  shows "\<exists>xs b1 b2. take_slots fnd n b = Inr (xs, b1) \<and> give_back test clear xs b1 = Inr b2
    \<and> wf b2 \<and> used b2 = used b"
proof -
  from take_slots_enough[OF assms] obtain "xs" b1 where t:
    "take_slots fnd n b = Inr (map int xs, b1)" "wf b1" "distinct xs" "set xs \<inter> used b = {}"
    "used b1 = used b \<union> set xs" by blast
  then obtain b2 where "give_back test clear (map int xs) b1 = Inr b2" "wf b2"
    "used b2 = used b1 - set xs"
    using give_back_marked[of b1 "xs"] by auto
  moreover have "used b1 - set xs = used b" using t by auto
  ultimately show ?thesis using t by auto
qed

end

section \<open>Lists\<close>

lemma nth_list_update_if:
  "i < length xs \<Longrightarrow> xs[j := v] ! i = (if i = j then v else xs ! i)"
  by (auto simp: nth_list_update)

lemma distinct_index_unique:
  "distinct xs \<Longrightarrow> i < length xs \<Longrightarrow> j < length xs \<Longrightarrow> xs ! i = xs ! j \<Longrightarrow> i = j"
  by (simp add: nth_eq_iff_index_eq)

end
