(* ===== verification/BitMap.thy ===== *)
theory BitMap
  imports Prelude
begin

text \<open>
  \<open>userprog/bitmap.cc\<close>: a bitmap of \<open>numBits\<close> bits stored in 32-bit words, with the
  allocation operation \<open>Find\<close>. It is the free-list of the disk, of physical memory, of the
  swap file and of the kernel's tables. The words are kept as words; the abstraction
  \<open>marked\<close> reads them as the set of marked positions.
\<close>

unbundle bit_operations_syntax

section \<open>State and operations\<close>

abbreviation (input) BitsInByte :: nat where "BitsInByte \<equiv> 8"
abbreviation (input) BitsInWord :: nat where "BitsInWord \<equiv> 32"

record bitmap =
  numBits :: nat
  numWords :: nat
  bmap :: "u32 list"

text \<open>The check every access starts with.\<close>

definition which_ok :: "bitmap \<Rightarrow> int \<Rightarrow> bool" where
  "which_ok b which \<longleftrightarrow> which \<ge> 0 \<and> which < int (numBits b)"

definition BitMap_Mark :: "bitmap \<Rightarrow> int \<Rightarrow> bitmap result" where
  "BitMap_Mark b which =
     bindE (assertE (which_ok b which)) (\<lambda>_.
       let w = nat which div BitsInWord in
       Inr (b\<lparr>bmap := (bmap b)[w := (bmap b ! w) OR push_bit (nat which mod BitsInWord) 1]\<rparr>))"

definition BitMap_Clear :: "bitmap \<Rightarrow> int \<Rightarrow> bitmap result" where
  "BitMap_Clear b which =
     bindE (assertE (which_ok b which)) (\<lambda>_.
       let w = nat which div BitsInWord in
       Inr (b\<lparr>bmap := (bmap b)[w := (bmap b ! w) AND NOT (push_bit (nat which mod BitsInWord) 1)]\<rparr>))"

definition BitMap_Test :: "bitmap \<Rightarrow> int \<Rightarrow> bool result" where
  "BitMap_Test b which =
     bindE (assertE (which_ok b which)) (\<lambda>_.
       Inr ((bmap b ! (nat which div BitsInWord)) AND push_bit (nat which mod BitsInWord) 1 \<noteq> 0))"

text \<open>
  The constructor: the words come uninitialised from \<open>new\<close> (\<open>garbage\<close>), and a loop
  clears the bits one at a time.
\<close>

fun clear_all :: "nat list \<Rightarrow> bitmap \<Rightarrow> bitmap result" where
  "clear_all [] b = Inr b"
| "clear_all (i # is) b = bindE (BitMap_Clear b (int i)) (clear_all is)"

definition BitMap_new :: "(nat \<Rightarrow> u32) \<Rightarrow> nat \<Rightarrow> bitmap result" where
  "BitMap_new garbage nitems =
     (let nw = divRoundUp nitems BitsInWord in
      clear_all [0..<nitems] \<lparr>numBits = nitems, numWords = nw, bmap = map garbage [0..<nw]\<rparr>)"

text \<open>\<open>Find\<close>: the first clear bit is marked and returned; -1 when there is none.\<close>

fun find_loop :: "nat list \<Rightarrow> bitmap \<Rightarrow> (int \<times> bitmap) result" where
  "find_loop [] b = Inr (-1, b)"
| "find_loop (i # is) b =
     bindE (BitMap_Test b (int i)) (\<lambda>t.
       if \<not> t then bindE (BitMap_Mark b (int i)) (\<lambda>b'. Inr (int i, b'))
       else find_loop is b)"

definition BitMap_Find :: "bitmap \<Rightarrow> (int \<times> bitmap) result" where
  "BitMap_Find b = find_loop [0..<numBits b] b"

fun numclear_loop :: "nat list \<Rightarrow> bitmap \<Rightarrow> int \<Rightarrow> int result" where
  "numclear_loop [] b count = Inr count"
| "numclear_loop (i # is) b count =
     bindE (BitMap_Test b (int i)) (\<lambda>t. numclear_loop is b (if \<not> t then count + 1 else count))"

definition BitMap_NumClear :: "bitmap \<Rightarrow> int result" where
  "BitMap_NumClear b = numclear_loop [0..<numBits b] b 0"

section \<open>Abstraction and invariant\<close>

definition bit_set :: "bitmap \<Rightarrow> nat \<Rightarrow> bool" where
  "bit_set b i = bit (bmap b ! (i div BitsInWord)) (i mod BitsInWord)"

definition marked :: "bitmap \<Rightarrow> nat set" where
  "marked b = {i. i < numBits b \<and> bit_set b i}"

definition bitmap_wf :: "bitmap \<Rightarrow> bool" where
  "bitmap_wf b \<longleftrightarrow> length (bmap b) = numWords b \<and> numWords b = divRoundUp (numBits b) BitsInWord"

lemma which_ok_int [simp]: "which_ok b (int i) \<longleftrightarrow> i < numBits b"
  by (simp add: which_ok_def)

lemma word_index_ok: "bitmap_wf b \<Longrightarrow> i < numBits b \<Longrightarrow> i div BitsInWord < length (bmap b)"
  by (simp add: bitmap_wf_def div_less_divRoundUp)

lemma marked_less: "i \<in> marked b \<Longrightarrow> i < numBits b"
  by (simp add: marked_def)

lemma finite_marked [simp]: "finite (marked b)"
  by (rule finite_subset[of _ "{..<numBits b}"]) (auto simp: marked_def)

lemma word_bit_eq: "i div 32 = j div 32 \<Longrightarrow> i mod 32 = j mod 32 \<Longrightarrow> i = (j::nat)"
  by (metis div_mult_mod_eq)

section \<open>The operations on the abstraction\<close>

lemma BitMap_Test_eq:
  "i < numBits b \<Longrightarrow> BitMap_Test b (int i) = Inr (i \<in> marked b)"
proof -
  assume i: "i < numBits b"
  have "(w AND push_bit n 1 \<noteq> 0) = bit w n" if "n < 32" for w :: u32 and n
    by (simp only: bit_iff_and_push_bit_not_eq_0)
  then show ?thesis
    using i by (simp add: BitMap_Test_def marked_def bit_set_def)
qed

lemma BitMap_Mark_eq:
  assumes "bitmap_wf b" and "i < numBits b"
  obtains b' where "BitMap_Mark b (int i) = Inr b'" and "bitmap_wf b'"
    and "numBits b' = numBits b" and "marked b' = insert i (marked b)"
proof -
  let ?w = "i div BitsInWord"
  let ?b' = "b\<lparr>bmap := (bmap b)[?w := (bmap b ! ?w) OR push_bit (i mod BitsInWord) 1]\<rparr>"
  have ok: "BitMap_Mark b (int i) = Inr ?b'"
    using assms(2) by (simp add: BitMap_Mark_def Let_def)
  have bits: "bit_set ?b' j = (j = i \<or> bit_set b j)" if "j < numBits b" for j
    using that word_index_ok[OF assms(1) that] word_index_ok[OF assms]
    by (auto simp: bit_set_def nth_list_update bit_simps dest: word_bit_eq)
  have "marked ?b' = insert i (marked b)"
    using bits assms(2) by (auto simp: marked_def)
  then show ?thesis
    using that[OF ok] assms(1) by (simp add: bitmap_wf_def)
qed

lemma BitMap_Clear_eq:
  assumes "bitmap_wf b" and "i < numBits b"
  obtains b' where "BitMap_Clear b (int i) = Inr b'" and "bitmap_wf b'"
    and "numBits b' = numBits b" and "marked b' = marked b - {i}"
proof -
  let ?w = "i div BitsInWord"
  let ?b' = "b\<lparr>bmap := (bmap b)[?w := (bmap b ! ?w) AND NOT (push_bit (i mod BitsInWord) 1)]\<rparr>"
  have ok: "BitMap_Clear b (int i) = Inr ?b'"
    using assms(2) by (simp add: BitMap_Clear_def Let_def)
  have bits: "bit_set ?b' j = (j \<noteq> i \<and> bit_set b j)" if "j < numBits b" for j
    using that word_index_ok[OF assms(1) that] word_index_ok[OF assms]
    by (auto simp: bit_set_def nth_list_update bit_simps dest: word_bit_eq)
  have "marked ?b' = marked b - {i}"
    using bits assms(2) by (auto simp: marked_def)
  then show ?thesis
    using that[OF ok] assms(1) by (simp add: bitmap_wf_def)
qed

lemma find_loop_eq:
  assumes "bitmap_wf b" and "\<forall>i \<in> set is. i < numBits b"
  shows "(\<forall>i \<in> set is. i \<in> marked b) \<Longrightarrow> find_loop is b = Inr (-1, b)"
    and "\<exists>i \<in> set is. i \<notin> marked b \<Longrightarrow>
      \<exists>pre i post b'. is = pre @ i # post \<and> set pre \<subseteq> marked b \<and> i \<notin> marked b
        \<and> find_loop is b = Inr (int i, b') \<and> bitmap_wf b' \<and> numBits b' = numBits b
        \<and> marked b' = insert i (marked b)"
  using assms(2)
proof (induction "is")
  case Nil
  {
    case 1
    show ?case by simp
  next
    case 2
    then show ?case by simp
  }
next
  case (Cons i js)
  {
    case 1
    then show ?case using Cons.IH(1) by (simp add: BitMap_Test_eq)
  next
    case 2
    show ?case
    proof (cases "i \<in> marked b")
      case True
      then obtain pre j post b' where IH: "js = pre @ j # post" "set pre \<subseteq> marked b"
        "j \<notin> marked b" "find_loop js b = Inr (int j, b')" "bitmap_wf b'"
        "numBits b' = numBits b" "marked b' = insert j (marked b)"
        using Cons.IH(2) 2 by auto
      then have "i # js = (i # pre) @ j # post" "set (i # pre) \<subseteq> marked b"
        "find_loop (i # js) b = Inr (int j, b')"
        using True 2 by (simp_all add: BitMap_Test_eq)
      then show ?thesis using IH by blast
    next
      case False
      obtain b' where "BitMap_Mark b (int i) = Inr b'" "bitmap_wf b'"
        "numBits b' = numBits b" "marked b' = insert i (marked b)"
        using BitMap_Mark_eq[OF assms(1), of i] 2 by auto
      then have "find_loop (i # js) b = Inr (int i, b')" "i # js = [] @ i # js"
        using False 2 by (simp_all add: BitMap_Test_eq)
      then show ?thesis
        using False \<open>bitmap_wf b'\<close> \<open>numBits b' = numBits b\<close> \<open>marked b' = insert i (marked b)\<close>
        by (metis empty_iff list.set(1) subsetI)
    qed
  }
qed

lemma BitMap_Find_full:
  assumes "bitmap_wf b" and "marked b = {..<numBits b}"
  shows "BitMap_Find b = Inr (-1, b)"
  using find_loop_eq(1)[OF assms(1), of "[0..<numBits b]"] assms(2)
  by (simp add: BitMap_Find_def)

lemma upt_split_eq:
  assumes "[0..<n] = pre @ i # post" shows "set pre = {..<i}" and "i < n"
proof -
  have len: "length pre < n" using assms by (metis add_Suc_right diff_zero length_Cons
    length_append length_upt less_add_Suc1)
  have "i = [0..<n] ! length pre" using assms by simp
  then have i: "i = length pre" using len by simp
  have "pre = take (length pre) [0..<n]" using assms by simp
  then have "pre = [0..<i]" using i len by (simp add: take_upt)
  then show "set pre = {..<i}" by (simp add: atLeast_upt)
  show "i < n" using i len by simp
qed

lemma BitMap_Find_least:
  assumes "bitmap_wf b" and "marked b \<noteq> {..<numBits b}"
  obtains i b' where "BitMap_Find b = Inr (int i, b')" and "i < numBits b"
    and "i \<notin> marked b" and "\<forall>j < i. j \<in> marked b" and "bitmap_wf b'"
    and "numBits b' = numBits b" and "marked b' = insert i (marked b)"
proof -
  have "\<exists>i \<in> set [0..<numBits b]. i \<notin> marked b"
    using assms(2) by (auto simp: marked_def)
  then obtain pre i post b' where
    "[0..<numBits b] = pre @ i # post" "set pre \<subseteq> marked b" "i \<notin> marked b"
    "BitMap_Find b = Inr (int i, b')" "bitmap_wf b'" "numBits b' = numBits b"
    "marked b' = insert i (marked b)"
    using find_loop_eq(2)[OF assms(1), of "[0..<numBits b]"] by (auto simp: BitMap_Find_def)
  moreover from this have "set pre = {..<i}" "i < numBits b"
    using upt_split_eq by blast+
  ultimately show ?thesis using that[of i b'] by auto
qed

lemma numclear_loop_eq:
  "\<forall>i \<in> set is. i < numBits b \<Longrightarrow>
   numclear_loop is b c = Inr (c + int (length (filter (\<lambda>i. i \<notin> marked b) is)))"
  by (induction "is" arbitrary: c) (auto simp: BitMap_Test_eq)

lemma BitMap_NumClear_eq: "BitMap_NumClear b = Inr (int (numBits b) - int (card (marked b)))"
proof -
  have sub: "marked b \<subseteq> {..<numBits b}" by (auto simp: marked_def)
  have "length (filter (\<lambda>i. i \<notin> marked b) [0..<numBits b]) = card ({..<numBits b} - marked b)"
    by (subst distinct_card[symmetric]) (auto simp: set_diff_eq intro!: arg_cong[where f = card])
  also have "\<dots> = numBits b - card (marked b)"
    using sub by (simp add: card_Diff_subset)
  finally show ?thesis
    using card_mono[OF _ sub] by (simp add: BitMap_NumClear_def numclear_loop_eq of_nat_diff)
qed

lemma clear_all_eq:
  "bitmap_wf b \<Longrightarrow> \<forall>i \<in> set is. i < numBits b \<Longrightarrow>
   \<exists>b'. clear_all is b = Inr b' \<and> bitmap_wf b' \<and> numBits b' = numBits b \<and> marked b' = marked b - set is"
proof (induction "is" arbitrary: b)
  case Nil
  then show ?case by simp
next
  case (Cons i js)
  obtain b1 where c: "BitMap_Clear b (int i) = Inr b1" "bitmap_wf b1" "numBits b1 = numBits b"
    "marked b1 = marked b - {i}"
    using BitMap_Clear_eq[of b i] Cons.prems by auto
  then obtain b2 where "clear_all js b1 = Inr b2" "bitmap_wf b2" "numBits b2 = numBits b1"
    "marked b2 = marked b1 - set js"
    using Cons.IH[of b1] Cons.prems by auto
  then show ?case using c by auto
qed

lemma BitMap_new_ex:
  "\<exists>b. BitMap_new garbage n = Inr b \<and> bitmap_wf b \<and> numBits b = n \<and> marked b = {}"
proof -
  let ?b = "\<lparr>numBits = n, numWords = divRoundUp n BitsInWord,
    bmap = map garbage [0..<divRoundUp n BitsInWord]\<rparr>"
  have "bitmap_wf ?b" by (simp add: bitmap_wf_def)
  then obtain b where "clear_all [0..<n] ?b = Inr b" "bitmap_wf b" "numBits b = n"
    "marked b = marked ?b - set [0..<n]"
    using clear_all_eq[of ?b "[0..<n]"] by auto
  moreover have "marked ?b \<subseteq> set [0..<n]" by (auto simp: marked_def)
  ultimately show ?thesis
    by (intro exI[of _ b]) (simp add: BitMap_new_def Let_def)
qed

section \<open>The bitmap is a slot map\<close>

lemma marked_bounded: "marked b \<subseteq> {..<numBits b}"
  by (auto simp: marked_def)

lemma marked_full_iff: "card (marked b) = numBits b \<longleftrightarrow> marked b = {..<numBits b}"
  using marked_bounded[of b] by (metis card_lessThan card_subset_eq finite_lessThan)

interpretation bm: slot_map BitMap_Test BitMap_Clear BitMap_Find marked numBits bitmap_wf
proof
  fix b :: bitmap and i :: nat
  show "marked b \<subseteq> {..<numBits b}" by (rule marked_bounded)
  show "i < numBits b \<Longrightarrow> BitMap_Test b (int i) = Inr (i \<in> marked b)"
    by (rule BitMap_Test_eq)
  show "bitmap_wf b \<Longrightarrow> i < numBits b \<Longrightarrow> \<exists>b'. BitMap_Clear b (int i) = Inr b'
    \<and> bitmap_wf b' \<and> numBits b' = numBits b \<and> marked b' = marked b - {i}"
    by (metis BitMap_Clear_eq)
  show "\<exists>i b'. BitMap_Find b = Inr (int i, b') \<and> bitmap_wf b' \<and> numBits b' = numBits b
    \<and> i < numBits b \<and> i \<notin> marked b \<and> marked b' = insert i (marked b)"
    if w: "bitmap_wf b" and c: "card (marked b) < numBits b"
  proof -
    have "marked b \<noteq> {..<numBits b}" using c by (metis less_irrefl marked_full_iff)
    then obtain i b' where "BitMap_Find b = Inr (int i, b')" "i < numBits b" "i \<notin> marked b"
      "\<forall>j < i. j \<in> marked b" "bitmap_wf b'" "numBits b' = numBits b" "marked b' = insert i (marked b)"
      using BitMap_Find_least[OF w] by blast
    then show ?thesis by (intro exI[of _ i] exI[of _ b']) simp
  qed
  show "bitmap_wf b \<Longrightarrow> card (marked b) = numBits b \<Longrightarrow> BitMap_Find b = Inr (-1, b)"
    by (simp add: BitMap_Find_full marked_full_iff)
qed

end
