(* ===== verification/MipsIsa.thy ===== *)
theory MipsIsa
  imports Prelude
begin

text \<open>
  \<open>machine/mipssim.h\<close> and \<open>Instruction::Decode\<close> of \<open>machine/mipssim.cc\<close>: the
  opcodes of the simulated MIPS processor, the two decoding tables, the table that prints
  instructions, and the decoder. Tables are lists in the order of the header file, so that an
  index out of their range is visible in the model.
\<close>

unbundle bit_operations_syntax

section \<open>Opcodes and tables\<close>

datatype (plugins only: code) opcode =
    OP_ADD | OP_ADDI | OP_ADDIU | OP_ADDU | OP_AND | OP_ANDI | OP_BEQ | OP_BGEZ | OP_BGEZAL
  | OP_BGTZ | OP_BLEZ | OP_BLTZ | OP_BLTZAL | OP_BNE | OP_DIV | OP_DIVU | OP_J | OP_JAL | OP_JALR
  | OP_JR | OP_LB | OP_LBU | OP_LH | OP_LHU | OP_LUI | OP_LW | OP_LWL | OP_LWR | OP_MFHI | OP_MFLO
  | OP_MTHI | OP_MTLO | OP_MULT | OP_MULTU | OP_NOR | OP_OR | OP_ORI | OP_RFE | OP_SB | OP_SH
  | OP_SLL | OP_SLLV | OP_SLT | OP_SLTI | OP_SLTIU | OP_SLTU | OP_SRA | OP_SRAV | OP_SRL | OP_SRLV
  | OP_SUB | OP_SUBU | OP_SW | OP_SWL | OP_SWR | OP_XOR | OP_XORI | OP_SYSCALL | OP_UNIMP | OP_RES
  | SPECIAL | BCOND

text \<open>The numbers the header gives the opcodes; 15, 30 and 33 are unused.\<close>

primrec op_number :: "opcode \<Rightarrow> nat" where
  "op_number OP_ADD = 1" | "op_number OP_ADDI = 2" | "op_number OP_ADDIU = 3"
| "op_number OP_ADDU = 4" | "op_number OP_AND = 5" | "op_number OP_ANDI = 6"
| "op_number OP_BEQ = 7" | "op_number OP_BGEZ = 8" | "op_number OP_BGEZAL = 9"
| "op_number OP_BGTZ = 10" | "op_number OP_BLEZ = 11" | "op_number OP_BLTZ = 12"
| "op_number OP_BLTZAL = 13" | "op_number OP_BNE = 14" | "op_number OP_DIV = 16"
| "op_number OP_DIVU = 17" | "op_number OP_J = 18" | "op_number OP_JAL = 19"
| "op_number OP_JALR = 20" | "op_number OP_JR = 21" | "op_number OP_LB = 22"
| "op_number OP_LBU = 23" | "op_number OP_LH = 24" | "op_number OP_LHU = 25"
| "op_number OP_LUI = 26" | "op_number OP_LW = 27" | "op_number OP_LWL = 28"
| "op_number OP_LWR = 29" | "op_number OP_MFHI = 31" | "op_number OP_MFLO = 32"
| "op_number OP_MTHI = 34" | "op_number OP_MTLO = 35" | "op_number OP_MULT = 36"
| "op_number OP_MULTU = 37" | "op_number OP_NOR = 38" | "op_number OP_OR = 39"
| "op_number OP_ORI = 40" | "op_number OP_RFE = 41" | "op_number OP_SB = 42"
| "op_number OP_SH = 43" | "op_number OP_SLL = 44" | "op_number OP_SLLV = 45"
| "op_number OP_SLT = 46" | "op_number OP_SLTI = 47" | "op_number OP_SLTIU = 48"
| "op_number OP_SLTU = 49" | "op_number OP_SRA = 50" | "op_number OP_SRAV = 51"
| "op_number OP_SRL = 52" | "op_number OP_SRLV = 53" | "op_number OP_SUB = 54"
| "op_number OP_SUBU = 55" | "op_number OP_SW = 56" | "op_number OP_SWL = 57"
| "op_number OP_SWR = 58" | "op_number OP_XOR = 59" | "op_number OP_XORI = 60"
| "op_number OP_SYSCALL = 61" | "op_number OP_UNIMP = 62" | "op_number OP_RES = 63"
| "op_number SPECIAL = 100" | "op_number BCOND = 101"

abbreviation (input) MaxOpcode :: nat where "MaxOpcode \<equiv> 63"

datatype op_format = IFMT | JFMT | RFMT

text \<open>Bits 31:26 of an instruction select an opcode and a format.\<close>

definition opTable :: "(opcode \<times> op_format) list" where
  "opTable = [
    (SPECIAL, RFMT), (BCOND, IFMT), (OP_J, JFMT), (OP_JAL, JFMT),
    (OP_BEQ, IFMT), (OP_BNE, IFMT), (OP_BLEZ, IFMT), (OP_BGTZ, IFMT),
    (OP_ADDI, IFMT), (OP_ADDIU, IFMT), (OP_SLTI, IFMT), (OP_SLTIU, IFMT),
    (OP_ANDI, IFMT), (OP_ORI, IFMT), (OP_XORI, IFMT), (OP_LUI, IFMT),
    (OP_UNIMP, IFMT), (OP_UNIMP, IFMT), (OP_UNIMP, IFMT), (OP_UNIMP, IFMT),
    (OP_RES, IFMT), (OP_RES, IFMT), (OP_RES, IFMT), (OP_RES, IFMT),
    (OP_RES, IFMT), (OP_RES, IFMT), (OP_RES, IFMT), (OP_RES, IFMT),
    (OP_RES, IFMT), (OP_RES, IFMT), (OP_RES, IFMT), (OP_RES, IFMT),
    (OP_LB, IFMT), (OP_LH, IFMT), (OP_LWL, IFMT), (OP_LW, IFMT),
    (OP_LBU, IFMT), (OP_LHU, IFMT), (OP_LWR, IFMT), (OP_RES, IFMT),
    (OP_SB, IFMT), (OP_SH, IFMT), (OP_SWL, IFMT), (OP_SW, IFMT),
    (OP_RES, IFMT), (OP_RES, IFMT), (OP_SWR, IFMT), (OP_RES, IFMT),
    (OP_UNIMP, IFMT), (OP_UNIMP, IFMT), (OP_UNIMP, IFMT), (OP_UNIMP, IFMT),
    (OP_RES, IFMT), (OP_RES, IFMT), (OP_RES, IFMT), (OP_RES, IFMT),
    (OP_UNIMP, IFMT), (OP_UNIMP, IFMT), (OP_UNIMP, IFMT), (OP_UNIMP, IFMT),
    (OP_RES, IFMT), (OP_RES, IFMT), (OP_RES, IFMT), (OP_RES, IFMT)]"

text \<open>The \<open>funct\<close> field of SPECIAL instructions selects the opcode.\<close>

definition specialTable :: "opcode list" where
  "specialTable = [
    OP_SLL, OP_RES, OP_SRL, OP_SRA, OP_SLLV, OP_RES, OP_SRLV, OP_SRAV,
    OP_JR, OP_JALR, OP_RES, OP_RES, OP_SYSCALL, OP_UNIMP, OP_RES, OP_RES,
    OP_MFHI, OP_MTHI, OP_MFLO, OP_MTLO, OP_RES, OP_RES, OP_RES, OP_RES,
    OP_MULT, OP_MULTU, OP_DIV, OP_DIVU, OP_RES, OP_RES, OP_RES, OP_RES,
    OP_ADD, OP_ADDU, OP_SUB, OP_SUBU, OP_AND, OP_OR, OP_XOR, OP_NOR,
    OP_RES, OP_RES, OP_SLT, OP_SLTU, OP_RES, OP_RES, OP_RES, OP_RES,
    OP_RES, OP_RES, OP_RES, OP_RES, OP_RES, OP_RES, OP_RES, OP_RES,
    OP_RES, OP_RES, OP_RES, OP_RES, OP_RES, OP_RES, OP_RES, OP_RES]"

section \<open>Decoding\<close>

record instruction =
  i_value :: u32
  i_opCode :: opcode
  i_rs :: nat
  i_rt :: nat
  i_rd :: nat
  i_extra :: u32

definition decode_extra :: "op_format \<Rightarrow> u32 \<Rightarrow> u32" where
  "decode_extra fmt v =
     (case fmt of
        IFMT \<Rightarrow> (let e = v AND 0xffff in if e AND 0x8000 \<noteq> 0 then e OR 0xffff0000 else e)
      | RFMT \<Rightarrow> drop_bit 6 v AND 0x1f
      | JFMT \<Rightarrow> v AND 0x3ffffff)"

definition decode_bcond :: "u32 \<Rightarrow> opcode" where
  "decode_bcond v =
     (let i = v AND 0x1f0000 in
      if i = 0 then OP_BLTZ
      else if i = 0x10000 then OP_BGEZ
      else if i = 0x100000 then OP_BLTZAL
      else if i = 0x110000 then OP_BGEZAL
      else OP_UNIMP)"

definition Decode :: "u32 \<Rightarrow> instruction" where
  "Decode v =
     (let (op, fmt) = opTable ! unat (drop_bit 26 v AND 0x3f) in
      \<lparr> i_value = v,
        i_opCode =
          (if op = SPECIAL then specialTable ! unat (v AND 0x3f)
           else if op = BCOND then decode_bcond v
           else op),
        i_rs = unat (drop_bit 21 v AND 0x1f),
        i_rt = unat (drop_bit 16 v AND 0x1f),
        i_rd = unat (drop_bit 11 v AND 0x1f),
        i_extra = decode_extra fmt v \<rparr>)"

section \<open>What decoding promises\<close>

lemma and_mask_less:
  fixes w :: u32
  shows "unat (w AND 0x1f) < 32" and "unat (w AND 0x3f) < 64"
  using and_mask_less' [of 5 w] and_mask_less' [of 6 w]
  by (simp_all add: mask_eq_exp_minus_1 word_less_nat_alt)

lemma Decode_registers:
  "i_rs (Decode v) < 32" "i_rt (Decode v) < 32" "i_rd (Decode v) < 32"
  by (simp_all add: Decode_def and_mask_less split: prod.splits)

lemma opTable_length: "length opTable = 64" and specialTable_length: "length specialTable = 64"
  by (simp_all add: opTable_def specialTable_def)

lemma specialTable_ops: "set specialTable \<inter> {SPECIAL, BCOND, OP_RFE} = {}"
  by (simp add: specialTable_def)

lemma opTable_ops: "OP_RFE \<notin> fst ` set opTable"
  by (simp add: opTable_def)

lemma Decode_opCode: "i_opCode (Decode v) \<notin> {SPECIAL, BCOND, OP_RFE}"
proof -
  have "specialTable ! unat (v AND 0x3f) \<in> set specialTable"
    by (rule nth_mem) (simp add: specialTable_length and_mask_less)
  then have special: "specialTable ! unat (v AND 0x3f) \<notin> {SPECIAL, BCOND, OP_RFE}"
    using specialTable_ops by blast
  have "opTable ! unat (drop_bit 26 v AND 0x3f) \<in> set opTable"
    by (rule nth_mem) (simp add: opTable_length and_mask_less)
  then have "fst (opTable ! unat (drop_bit 26 v AND 0x3f)) \<noteq> OP_RFE"
    using opTable_ops by (metis imageI)
  then show ?thesis
    using special by (auto simp: Decode_def decode_bcond_def Let_def split: prod.splits)
qed

lemma op_number_MaxOpcode: "op \<noteq> SPECIAL \<Longrightarrow> op \<noteq> BCOND \<Longrightarrow> op_number op \<le> MaxOpcode"
  by (cases op) simp_all

lemma decode_extra_I: "decode_extra IFMT v = scast (ucast v :: u16)"
proof -
  have e: "(v AND 0xffff) AND 0x8000 \<noteq> 0 \<longleftrightarrow> bit v 15"
  proof -
    have "(v AND 0xffff) AND 0x8000 = (v AND 0xffff) AND push_bit 15 1" by simp
    moreover have "(v AND 0xffff) AND push_bit 15 1 \<noteq> 0 \<longleftrightarrow> bit (v AND 0xffff) 15"
      by (simp only: bit_iff_and_push_bit_not_eq_0)
    moreover have "(0xffff :: u32) = mask 16" by (simp add: mask_eq_exp_minus_1)
    ultimately show ?thesis by (simp add: bit_simps)
  qed
  have m: "(0xffff :: u32) = mask 16" and h: "(0xffff0000 :: u32) = push_bit 16 (mask 16)"
    by (simp_all add: mask_eq_exp_minus_1)
  have "bit (decode_extra IFMT v) n = bit (scast (ucast v :: u16) :: u32) n" if n: "n < 32" for n
  proof (cases n "15 :: nat" rule: linorder_cases)
    case less
    then show ?thesis unfolding decode_extra_def Let_def op_format.case e
      by (simp add: m h bit_simps)
  next
    case equal
    then show ?thesis unfolding decode_extra_def Let_def op_format.case e
      by (simp add: m h bit_simps)
  next
    case greater
    then show ?thesis using n unfolding decode_extra_def Let_def op_format.case e
      by (auto simp: m h bit_simps)
  qed
  then show ?thesis by (intro bit_word_eqI) simp
qed

text \<open>
  C13: decoding is total and well typed. Whatever the 32 bits fetched, the three register numbers are
  those of general registers, the operation is one that \<open>OneInstruction\<close> has a case for and not a mark
  of the tables, and the extra field is what the format says: a 16-bit constant with its sign, a shift
  amount below 32, or a 26-bit jump target.
\<close>

theorem decode_well_typed:
  "i_rs (Decode v) < 32 \<and> i_rt (Decode v) < 32 \<and> i_rd (Decode v) < 32
   \<and> i_opCode (Decode v) \<notin> {SPECIAL, BCOND, OP_RFE} \<and> op_number (i_opCode (Decode v)) \<le> MaxOpcode
   \<and> (case snd (opTable ! unat (drop_bit 26 v AND 0x3f)) of
        IFMT \<Rightarrow> i_extra (Decode v) = scast (ucast v :: u16)
      | RFMT \<Rightarrow> unat (i_extra (Decode v)) < 32
      | JFMT \<Rightarrow> unat (i_extra (Decode v)) < 2 ^ 26)"
proof -
  have j: "unat (v AND 0x3ffffff) < 2 ^ 26"
    using and_mask_less' [of 26 v] by (simp add: mask_eq_exp_minus_1 word_less_nat_alt)
  have x: "i_extra (Decode v) = decode_extra (snd (opTable ! unat (drop_bit 26 v AND 0x3f))) v"
    by (simp add: Decode_def split: prod.splits)
  have "case f of IFMT \<Rightarrow> decode_extra f v = scast (ucast v :: u16)
      | RFMT \<Rightarrow> unat (decode_extra f v) < 32 | JFMT \<Rightarrow> unat (decode_extra f v) < 2 ^ 26" for f
    using j and_mask_less(1)[of "drop_bit 6 v"] decode_extra_I[of v] by (cases f) (simp_all add: decode_extra_def)
  note k = this[of "snd (opTable ! unat (drop_bit 26 v AND 0x3f))", folded x]
  show ?thesis
    using Decode_registers[of v] Decode_opCode[of v] op_number_MaxOpcode[of "i_opCode (Decode v)"]
    by (intro conjI k) auto
qed

end
