(* ===== verification/MachineMem.thy ===== *)
theory MachineMem
  imports Prelude
begin

text \<open>
  \<open>machine/machine.cc\<close> and \<open>machine/translate.cc\<close>: the state of the simulated machine, its
  registers, address translation through a TLB or a page table, and loads and stores of 1, 2
  and 4 bytes. The kernel's exception handler is an argument: \<open>RaiseException\<close> calls it on
  the machine state, and it may fault or never return.

  The byte order of the host is the argument \<open>big\<close> (the source's \<open>HOST_IS_BIG_ENDIAN\<close>).
  All operations are polymorphic in a record extension, so that a kernel state that extends
  \<open>machine\<close> can be run by them.
\<close>

unbundle bit_operations_syntax

section \<open>Constants and state\<close>

abbreviation (input) SectorSize :: nat where "SectorSize \<equiv> 128"
abbreviation (input) PageSize :: nat where "PageSize \<equiv> 128"
abbreviation (input) NumPhysPages :: nat where "NumPhysPages \<equiv> 1048576"
abbreviation (input) MemorySize :: nat where "MemorySize \<equiv> 134217728"
abbreviation (input) TLBSize :: nat where "TLBSize \<equiv> 4"

lemma MemorySize_eq: "MemorySize = NumPhysPages * PageSize"
  by simp

abbreviation (input) StackReg :: nat where "StackReg \<equiv> 29"
abbreviation (input) RetAddrReg :: nat where "RetAddrReg \<equiv> 31"
abbreviation (input) NumGPRegs :: nat where "NumGPRegs \<equiv> 32"
abbreviation (input) HiReg :: nat where "HiReg \<equiv> 32"
abbreviation (input) LoReg :: nat where "LoReg \<equiv> 33"
abbreviation (input) PCReg :: nat where "PCReg \<equiv> 34"
abbreviation (input) NextPCReg :: nat where "NextPCReg \<equiv> 35"
abbreviation (input) PrevPCReg :: nat where "PrevPCReg \<equiv> 36"
abbreviation (input) LoadReg :: nat where "LoadReg \<equiv> 37"
abbreviation (input) LoadValueReg :: nat where "LoadValueReg \<equiv> 38"
abbreviation (input) BadVAddrReg :: nat where "BadVAddrReg \<equiv> 39"
abbreviation (input) NumTotalRegs :: nat where "NumTotalRegs \<equiv> 40"

datatype ExceptionType =
    NoException | SyscallException | PageFaultException | ReadOnlyException
  | BusErrorException | AddressErrorException | OverflowException | IllegalInstrException
  | NumExceptionTypes

datatype MachineStatus = IdleMode | SystemMode | UserMode

record tentry =
  virtualPage :: u32
  physicalPage :: u32
  valid :: bool
  readOnly :: bool
  use :: bool
  dirty :: bool

record machine =
  registers :: "nat \<Rightarrow> u32"
  mainMemory :: "nat \<Rightarrow> u8"
  tlb :: "tentry list option"
  pageTable :: "tentry list option"
  pageTableSize :: u32
  lastUsed :: "nat \<Rightarrow> int"
  totalTicks :: int
  status :: MachineStatus

type_synonym 'm handler = "ExceptionType \<Rightarrow> 'm \<Rightarrow> 'm result"

abbreviation set_reg :: "'a machine_scheme \<Rightarrow> nat \<Rightarrow> u32 \<Rightarrow> 'a machine_scheme" where
  "set_reg m r v \<equiv> m\<lparr>registers := (registers m)(r := v)\<rparr>"

text \<open>
  The constructor: registers and memory zero, every page's use time the current tick, and,
  with a TLB (\<open>USE_TLB\<close>), \<open>TLBSize\<close> entries that are not valid; their other fields are
  whatever \<open>new\<close> left (\<open>garbage\<close>).
\<close>

definition Machine_new :: "bool \<Rightarrow> (nat \<Rightarrow> tentry) \<Rightarrow> u32 \<Rightarrow> int \<Rightarrow> machine" where
  "Machine_new use_tlb garbage pts ticks =
     \<lparr> registers = (\<lambda>_. 0), mainMemory = (\<lambda>_. 0),
       tlb = (if use_tlb then Some (map (\<lambda>i. (garbage i)\<lparr>valid := False\<rparr>) [0..<TLBSize]) else None),
       pageTable = None, pageTableSize = pts, lastUsed = (\<lambda>_. ticks), totalTicks = ticks,
       status = SystemMode \<rparr>"

definition ReadRegister :: "'a machine_scheme \<Rightarrow> int \<Rightarrow> u32 result" where
  "ReadRegister m num =
     bindE (assertE (num \<ge> 0 \<and> num < int NumTotalRegs)) (\<lambda>_. Inr (registers m (nat num)))"

definition WriteRegister :: "'a machine_scheme \<Rightarrow> int \<Rightarrow> u32 \<Rightarrow> 'a machine_scheme result" where
  "WriteRegister m num value =
     bindE (assertE (num \<ge> 0 \<and> num < int NumTotalRegs)) (\<lambda>_. Inr (set_reg m (nat num) value))"

definition getTimeUsed :: "'a machine_scheme \<Rightarrow> int \<Rightarrow> int" where
  "getTimeUsed m pageNo =
     (if pageNo < 0 \<or> pageNo \<ge> int NumPhysPages then -1 else lastUsed m (nat pageNo))"

text \<open>
  A delayed load: the register that the previous load named gets its value now, the next pair
  is remembered, and register 0 is put back to 0. \<open>registers[registers[LoadReg]]\<close> is an
  array access with whatever number is in \<open>LoadReg\<close>.
\<close>

definition DelayedLoad :: "nat \<Rightarrow> u32 \<Rightarrow> 'a machine_scheme \<Rightarrow> 'a machine_scheme result" where
  "DelayedLoad nextReg nextValue m =
     (let r = unat (registers m LoadReg) in
      if r < NumTotalRegs then
        (let regs1 = (registers m)(r := registers m LoadValueReg);
             regs2 = regs1(LoadReg := of_nat nextReg);
             regs3 = regs2(LoadValueReg := nextValue)
         in Inr (m\<lparr>registers := regs3(0 := 0)\<rparr>))
      else Inl Undefined_behaviour)"

definition RaiseException ::
  "'a machine_scheme handler \<Rightarrow> ExceptionType \<Rightarrow> u32 \<Rightarrow> 'a machine_scheme \<Rightarrow> 'a machine_scheme result"
where
  "RaiseException h which badVAddr m =
     bindE (DelayedLoad 0 0 (set_reg m BadVAddrReg badVAddr)) (\<lambda>m1.
     bindE (h which (m1\<lparr>status := SystemMode\<rparr>)) (\<lambda>m2.
     Inr (m2\<lparr>status := UserMode\<rparr>)))"

section \<open>Byte order\<close>

definition WordToHost :: "bool \<Rightarrow> u32 \<Rightarrow> u32" where
  "WordToHost big w =
     (if big then (drop_bit 24 w AND 0x000000ff) OR (drop_bit 8 w AND 0x0000ff00)
        OR (push_bit 8 w AND 0x00ff0000) OR (push_bit 24 w AND 0xff000000)
      else w)"

definition ShortToHost :: "bool \<Rightarrow> u16 \<Rightarrow> u16" where
  "ShortToHost big w =
     (if big then (push_bit 8 w AND 0xff00) OR (drop_bit 8 w AND 0x00ff) else w)"

definition WordToMachine :: "bool \<Rightarrow> u32 \<Rightarrow> u32" where
  "WordToMachine big w = WordToHost big w"

definition ShortToMachine :: "bool \<Rightarrow> u16 \<Rightarrow> u16" where
  "ShortToMachine big w = ShortToHost big w"

text \<open>
  What \<open>*(unsigned short *) &mem[p]\<close> and \<open>*(unsigned int *) &mem[p]\<close> read and write on the
  host: the bytes from the lowest address up are the most significant first on a big-endian
  host, the least significant first otherwise.
\<close>

definition le16 :: "u8 \<Rightarrow> u8 \<Rightarrow> u16" where
  "le16 b0 b1 = ucast b0 OR push_bit 8 (ucast b1)"

definition host_load16 :: "bool \<Rightarrow> (nat \<Rightarrow> u8) \<Rightarrow> nat \<Rightarrow> u16" where
  "host_load16 big mem p =
     (if big then le16 (mem (p + 1)) (mem p) else le16 (mem p) (mem (p + 1)))"

definition host_load32 :: "bool \<Rightarrow> (nat \<Rightarrow> u8) \<Rightarrow> nat \<Rightarrow> u32" where
  "host_load32 big mem p =
     (if big then le32 (mem (p + 3)) (mem (p + 2)) (mem (p + 1)) (mem p)
      else le32 (mem p) (mem (p + 1)) (mem (p + 2)) (mem (p + 3)))"

definition host_store16 :: "bool \<Rightarrow> (nat \<Rightarrow> u8) \<Rightarrow> nat \<Rightarrow> u16 \<Rightarrow> (nat \<Rightarrow> u8)" where
  "host_store16 big mem p w =
     (let lo = ucast w; hi = ucast (drop_bit 8 w) in
      if big then mem(p := hi, p + 1 := lo) else mem(p := lo, p + 1 := hi))"

definition host_store32 :: "bool \<Rightarrow> (nat \<Rightarrow> u8) \<Rightarrow> nat \<Rightarrow> u32 \<Rightarrow> (nat \<Rightarrow> u8)" where
  "host_store32 big mem p w =
     (let b0 = ucast w; b1 = ucast (drop_bit 8 w); b2 = ucast (drop_bit 16 w); b3 = ucast (drop_bit 24 w) in
      if big then mem(p := b3, p + 1 := b2, p + 2 := b1, p + 3 := b0)
      else mem(p := b0, p + 1 := b1, p + 2 := b2, p + 3 := b3))"

section \<open>Address translation\<close>

fun tlb_find :: "tentry list \<Rightarrow> u32 \<Rightarrow> nat list \<Rightarrow> nat option" where
  "tlb_find t vpn [] = None"
| "tlb_find t vpn (i # is) =
     (if valid (t ! i) \<and> virtualPage (t ! i) = vpn then Some i else tlb_find t vpn is)"

text \<open>
  The entry for a virtual page: \<open>Inl e\<close> for an exception, \<open>Inr (e, put)\<close> for the entry and
  the state with that entry replaced. With a page table the index must be inside the array,
  which the check against \<open>pageTableSize\<close> does not by itself say.
\<close>

definition find_entry ::
  "'a machine_scheme \<Rightarrow> u32 \<Rightarrow> (ExceptionType + tentry \<times> (tentry \<Rightarrow> 'a machine_scheme)) result"
where
  "find_entry m vpn =
     (case tlb m of
        None \<Rightarrow>
          (case pageTable m of
             None \<Rightarrow> Inl Assertion_failed
           | Some pt \<Rightarrow>
               if vpn \<ge> pageTableSize m then Inr (Inl AddressErrorException)
               else if unat vpn \<ge> length pt then Inl Undefined_behaviour
               else if \<not> valid (pt ! unat vpn) then Inr (Inl PageFaultException)
               else Inr (Inr (pt ! unat vpn, \<lambda>e. m\<lparr>pageTable := Some (pt[unat vpn := e])\<rparr>)))
      | Some t \<Rightarrow>
          (case tlb_find t vpn [0..<TLBSize] of
             None \<Rightarrow> Inr (Inl PageFaultException)
           | Some i \<Rightarrow> Inr (Inr (t ! i, \<lambda>e. m\<lparr>tlb := Some (t[i := e])\<rparr>))))"

definition misaligned :: "nat \<Rightarrow> u32 \<Rightarrow> bool" where
  "misaligned sz va \<longleftrightarrow> (sz = 4 \<and> va AND 3 \<noteq> 0) \<or> (sz = 2 \<and> va AND 1 \<noteq> 0)"

definition Translate ::
  "'a machine_scheme \<Rightarrow> u32 \<Rightarrow> nat \<Rightarrow> bool \<Rightarrow> ((ExceptionType + u32) \<times> 'a machine_scheme) result"
where
  "Translate m virtAddr sz writing =
     (if misaligned sz virtAddr then Inr (Inl AddressErrorException, m)
      else
        bindE (assertE (tlb m = None \<or> pageTable m = None)) (\<lambda>_.
        bindE (assertE (tlb m \<noteq> None \<or> pageTable m \<noteq> None)) (\<lambda>_.
        let vpn = virtAddr div of_nat PageSize; offset = virtAddr mod of_nat PageSize in
        bindE (find_entry m vpn) (\<lambda>r. case r of
            Inl e \<Rightarrow> Inr (Inl e, m)
          | Inr (entry, put) \<Rightarrow>
              if readOnly entry \<and> writing then Inr (Inl ReadOnlyException, m)
              else
                (let pageFrame = physicalPage entry in
                 if pageFrame \<ge> of_nat NumPhysPages then Inr (Inl BusErrorException, m)
                 else
                   (let entry1 = entry\<lparr>use := True\<rparr>;
                        entry2 = (if writing then entry1\<lparr>dirty := True\<rparr> else entry1);
                        physAddr = pageFrame * of_nat PageSize + offset
                    in bindE (assertE (0 \<le> sint physAddr \<and> sint physAddr + int sz \<le> int MemorySize))
                         (\<lambda>_. Inr (Inr physAddr, put entry2))))))))"

section \<open>Loads and stores\<close>

text \<open>
  \<open>ReadMem\<close> returns \<open>None\<close> where the source returns FALSE (the handler has been run). A byte
  is read through a \<open>char\<close>, which is signed.
\<close>

definition touch :: "nat \<Rightarrow> 'a machine_scheme \<Rightarrow> 'a machine_scheme" where
  "touch pa m = m\<lparr>lastUsed := (lastUsed m)(pa div PageSize := totalTicks m)\<rparr>"

definition ReadMem ::
  "bool \<Rightarrow> 'a machine_scheme handler \<Rightarrow> u32 \<Rightarrow> nat \<Rightarrow> 'a machine_scheme
   \<Rightarrow> (u32 option \<times> 'a machine_scheme) result"
where
  "ReadMem big h addr sz m =
     bindE (Translate m addr sz False) (\<lambda>(r, m1). case r of
         Inl e \<Rightarrow> bindE (RaiseException h e addr m1) (\<lambda>m2. Inr (None, m2))
       | Inr physAddr \<Rightarrow>
           (let pa = unat physAddr in
            if sz = 1 then Inr (Some (scast (mainMemory m1 pa)), touch pa m1)
            else if sz = 2 then
              Inr (Some (ucast (ShortToHost big (host_load16 big (mainMemory m1) pa))), touch pa m1)
            else if sz = 4 then
              Inr (Some (WordToHost big (host_load32 big (mainMemory m1) pa)), touch pa m1)
            else Inl Assertion_failed))"

definition WriteMem ::
  "bool \<Rightarrow> 'a machine_scheme handler \<Rightarrow> u32 \<Rightarrow> nat \<Rightarrow> u32 \<Rightarrow> 'a machine_scheme
   \<Rightarrow> (bool \<times> 'a machine_scheme) result"
where
  "WriteMem big h addr sz value m =
     bindE (Translate m addr sz True) (\<lambda>(r, m1). case r of
         Inl e \<Rightarrow> bindE (RaiseException h e addr m1) (\<lambda>m2. Inr (False, m2))
       | Inr physAddr \<Rightarrow>
           (let pa = unat physAddr in
            if sz = 1 then
              Inr (True, touch pa (m1\<lparr>mainMemory := (mainMemory m1)(pa := ucast (value AND 0xff))\<rparr>))
            else if sz = 2 then
              Inr (True, touch pa (m1\<lparr>mainMemory :=
                host_store16 big (mainMemory m1) pa (ShortToMachine big (ucast (value AND 0xffff)))\<rparr>))
            else if sz = 4 then
              Inr (True, touch pa (m1\<lparr>mainMemory :=
                host_store32 big (mainMemory m1) pa (WordToMachine big value)\<rparr>))
            else Inl Assertion_failed))"

section \<open>Byte order does not show\<close>

lemma le16_bits: "n < 16 \<Longrightarrow> bit (le16 a b) n = (if n < 8 then bit a n else bit b (n - 8))"
  by (auto simp: le16_def bit_simps dest: bit_imp_le_length)

lemma WordToHost_bits:
  "n < 32 \<Longrightarrow> bit (WordToHost True w) n =
     bit w (if n < 8 then n + 24 else if n < 16 then n + 8 else if n < 24 then n - 8 else n - 24)"
proof -
  assume n: "n < 32"
  have k: "(0x000000ff :: u32) = mask 8" "(0x0000ff00 :: u32) = push_bit 8 (mask 8)"
    "(0x00ff0000 :: u32) = push_bit 16 (mask 8)" "(0xff000000 :: u32) = push_bit 24 (mask 8)"
    by (simp_all add: mask_eq_exp_minus_1)
  show ?thesis
    using n unfolding WordToHost_def k by (auto simp: bit_simps add.commute)
qed

lemma ShortToHost_bits:
  "n < 16 \<Longrightarrow> bit (ShortToHost True w) n = bit w (if n < 8 then n + 8 else n - 8)"
proof -
  assume n: "n < 16"
  have k: "(0x00ff :: u16) = mask 8" "(0xff00 :: u16) = push_bit 8 (mask 8)"
    by (simp_all add: mask_eq_exp_minus_1)
  show ?thesis
    using n unfolding ShortToHost_def k by (auto simp: bit_simps add.commute)
qed

lemma WordToHost_le32: "WordToHost True (le32 a b c d) = le32 d c b a"
  by (rule bit_word_eqI) (auto simp: WordToHost_bits le32_bits)

lemma ShortToHost_le16: "ShortToHost True (le16 a b) = le16 b a"
  by (rule bit_word_eqI) (auto simp: ShortToHost_bits le16_bits)

lemma WordToHost_involution: "WordToHost big (WordToHost big w) = w"
proof (cases big)
  case True
  have "WordToHost True (WordToHost True w) = w"
    by (rule bit_word_eqI) (auto simp: WordToHost_bits)
  with True show ?thesis by simp
qed (simp add: WordToHost_def)

lemma host_load32_eq:
  "WordToHost big (host_load32 big mem p) = le32 (mem p) (mem (p + 1)) (mem (p + 2)) (mem (p + 3))"
proof (cases big)
  case True
  then show ?thesis by (simp add: host_load32_def WordToHost_le32)
qed (simp add: host_load32_def WordToHost_def)

lemma host_load16_eq:
  "ShortToHost big (host_load16 big mem p) = le16 (mem p) (mem (p + 1))"
proof (cases big)
  case True
  then show ?thesis by (simp add: host_load16_def ShortToHost_le16)
qed (simp add: host_load16_def ShortToHost_def)

lemma host_store32_eq:
  "host_store32 big mem p (WordToMachine big w) =
     mem(p := ucast w, p + 1 := ucast (drop_bit 8 w), p + 2 := ucast (drop_bit 16 w),
         p + 3 := ucast (drop_bit 24 w))"
proof (cases big)
  case True
  let ?w = "WordToHost True w"
  have b: "ucast ?w = (ucast (drop_bit 24 w) :: u8)"
    "ucast (drop_bit 8 ?w) = (ucast (drop_bit 16 w) :: u8)"
    "ucast (drop_bit 16 ?w) = (ucast (drop_bit 8 w) :: u8)"
    "ucast (drop_bit 24 ?w) = (ucast w :: u8)"
    by (rule bit_word_eqI; simp add: bit_simps WordToHost_bits add.commute)+
  show ?thesis
    by (rule ext) (simp add: True host_store32_def WordToMachine_def Let_def b)
qed (simp add: host_store32_def WordToMachine_def WordToHost_def Let_def)

lemma host_store16_eq:
  "host_store16 big mem p (ShortToMachine big w) =
     mem(p := ucast w, p + 1 := ucast (drop_bit 8 w))"
proof (cases big)
  case True
  let ?w = "ShortToHost True w"
  have b: "ucast ?w = (ucast (drop_bit 8 w) :: u8)" "ucast (drop_bit 8 ?w) = (ucast w :: u8)"
    by (rule bit_word_eqI; simp add: bit_simps ShortToHost_bits add.commute)+
  show ?thesis
    by (rule ext) (simp add: True host_store16_def ShortToMachine_def Let_def b)
qed (simp add: host_store16_def ShortToMachine_def ShortToHost_def Let_def)

lemma le16_split: "le16 (ucast w) (ucast (drop_bit 8 w)) = w"
  by (rule bit_word_eqI) (auto simp: le16_bits bit_simps)

section \<open>Well-formed address translation\<close>

text \<open>
  The machine has a TLB of \<open>TLBSize\<close> entries or a page table at least as long as
  \<open>pageTableSize\<close>, and not both.
\<close>

definition mmu_wf :: "'a machine_scheme \<Rightarrow> bool" where
  "mmu_wf m \<longleftrightarrow>
     (case tlb m of
        None \<Rightarrow> (case pageTable m of None \<Rightarrow> False | Some pt \<Rightarrow> unat (pageTableSize m) \<le> length pt)
      | Some t \<Rightarrow> length t = TLBSize \<and> pageTable m = None)"

lemma mmu_wf_cong:
  "tlb m1 = tlb m2 \<Longrightarrow> pageTable m1 = pageTable m2 \<Longrightarrow> pageTableSize m1 = pageTableSize m2 \<Longrightarrow>
   mmu_wf m1 = mmu_wf m2"
  by (simp add: mmu_wf_def split: option.splits)

text \<open>What \<open>Translate\<close> may change in the entry it used.\<close>

definition entry_step :: "bool \<Rightarrow> tentry \<Rightarrow> tentry \<Rightarrow> bool" where
  "entry_step writing e e' \<longleftrightarrow> e' = e\<lparr>use := True, dirty := dirty e \<or> writing\<rparr>"

lemma entry_update_eq:
  "(if w then (e\<lparr>use := True\<rparr>)\<lparr>dirty := True\<rparr> else e\<lparr>use := True\<rparr>)
     = e\<lparr>use := True, dirty := dirty e \<or> w\<rparr>"
  by (cases w) simp_all

lemma tlb_find_Some:
  "tlb_find t vpn is = Some i \<Longrightarrow> i \<in> set is \<and> valid (t ! i) \<and> virtualPage (t ! i) = vpn"
  by (induction "is") (auto split: if_splits)

lemma tlb_find_None:
  "tlb_find t vpn is = None \<longleftrightarrow> (\<forall>i \<in> set is. \<not> (valid (t ! i) \<and> virtualPage (t ! i) = vpn))"
  by (induction "is") auto

lemma tlb_find_update:
  "tlb_find t vpn is = Some i \<Longrightarrow> i < length t \<Longrightarrow> valid e = valid (t ! i) \<Longrightarrow>
   virtualPage e = virtualPage (t ! i) \<Longrightarrow> tlb_find (t[i := e]) vpn is = Some i"
  by (induction "is") (auto split: if_splits simp: nth_list_update)

text \<open>The two laws of the entry that was found: it can be put back, and found again.\<close>

lemma find_entry_again:
  assumes "mmu_wf m" and "find_entry m vpn = Inr (Inr (e, put))"
    and "valid e' = valid e" and "virtualPage e' = virtualPage e"
  shows "\<exists>put'. find_entry (put e') vpn = Inr (Inr (e', put')) \<and> (\<forall>x. put' x = put x)
    \<and> mmu_wf (put e')"
proof (cases "tlb m")
  case None
  then show ?thesis using assms
    by (auto simp: find_entry_def mmu_wf_def split: option.splits if_splits)
next
  case (Some t)
  then obtain i where i: "tlb_find t vpn [0..<TLBSize] = Some i" "e = t ! i"
    "put = (\<lambda>e. m\<lparr>tlb := Some (t[i := e])\<rparr>)"
    using assms(2) by (auto simp: find_entry_def split: option.splits)
  have len: "length t = TLBSize" using assms(1) Some by (simp add: mmu_wf_def)
  have "i < length t" using tlb_find_Some[OF i(1)] len by auto
  then show ?thesis
    using assms Some i len by (simp add: find_entry_def mmu_wf_def tlb_find_update del: upt_rec_numeral)
qed

lemma find_entry_total: "mmu_wf m \<Longrightarrow> \<exists>r. find_entry m vpn = Inr r"
proof (cases "tlb m")
  case None
  assume "mmu_wf m"
  with None obtain pt where pt: "pageTable m = Some pt" "unat (pageTableSize m) \<le> length pt"
    by (auto simp: mmu_wf_def split: option.splits)
  have "unat vpn < length pt" if "\<not> pageTableSize m \<le> vpn"
    using that pt(2) by (simp add: not_le word_less_nat_alt)
  then show ?thesis using None pt by (auto simp: find_entry_def not_le[symmetric])
next
  case (Some t)
  then show ?thesis by (auto simp: find_entry_def split: option.splits)
qed

lemma find_entry_mem:
  "find_entry m vpn = Inr (Inr (e, put)) \<Longrightarrow>
   registers (put e') = registers m \<and> mainMemory (put e') = mainMemory m \<and>
   lastUsed (put e') = lastUsed m \<and> totalTicks (put e') = totalTicks m \<and>
   status (put e') = status m \<and> pageTableSize (put e') = pageTableSize m \<and>
   machine.more (put e') = machine.more m"
  by (auto simp: find_entry_def split: option.splits if_splits)

section \<open>Physical addresses\<close>

lemma page_of_word:
  fixes va :: u32
  shows "unat (va div of_nat PageSize) = unat va div PageSize"
    and "unat (va mod of_nat PageSize) = unat va mod PageSize"
  by (simp_all add: unat_div unat_mod)

lemma phys_addr_bounds:
  fixes pf va :: u32
  assumes "pf < of_nat NumPhysPages"
  defines "pa \<equiv> pf * of_nat PageSize + va mod of_nat PageSize"
  shows "unat pa = unat pf * PageSize + unat va mod PageSize" and "unat pa < MemorySize"
    and "sint pa = int (unat pa)"
proof -
  have pf: "unat pf < 1048576" using assms(1) by (simp add: word_less_nat_alt)
  have o: "unat (va mod of_nat PageSize) < 128" by (simp add: unat_mod)
  have m: "unat (pf * of_nat PageSize) = unat pf * 128"
    using pf by (simp add: unat_word_ariths)
  have "unat pa = unat (pf * of_nat PageSize) + unat (va mod of_nat PageSize)"
    unfolding pa_def using pf o m by (subst unat_plus_simple[THEN iffD1]) (simp_all add: word_le_nat_alt unat_word_ariths)
  then show e: "unat pa = unat pf * PageSize + unat va mod PageSize"
    using m page_of_word(2)[of va] by simp
  then show b: "unat pa < MemorySize" using pf by simp
  show "sint pa = int (unat pa)"
    by (rule sint_small) (use b in simp)
qed

section \<open>What translation does\<close>

lemma aligned_mod:
  fixes va :: u32
  shows "va AND 3 = 0 \<longleftrightarrow> unat va mod 4 = 0" and "va AND 1 = 0 \<longleftrightarrow> unat va mod 2 = 0"
proof -
  have "va AND 3 = take_bit 2 va" "va AND 1 = take_bit 1 va"
    by (simp_all add: take_bit_eq_mask mask_eq_exp_minus_1)
  then show "va AND 3 = 0 \<longleftrightarrow> unat va mod 4 = 0" "va AND 1 = 0 \<longleftrightarrow> unat va mod 2 = 0"
    by (simp_all add: unat_eq_zero[symmetric] unsigned_take_bit_eq take_bit_eq_mod unat_mod del: unat_eq_zero)
qed

lemma aligned_in_page:
  assumes "\<not> misaligned sz va" and "sz \<in> {1, 2, 4}"
  shows "unat va mod PageSize + sz \<le> PageSize"
proof -
  consider "sz = 1" | "sz = 2" "unat va mod 2 = 0" | "sz = 4" "unat va mod 4 = 0"
    using assms by (auto simp: misaligned_def aligned_mod)
  then show ?thesis
  proof cases
    case 2
    then have "2 dvd unat va mod 128" by (simp add: mod_eq_0_iff_dvd dvd_mod_iff)
    then obtain k where k: "unat va mod 128 = 2 * k" by (elim dvdE)
    moreover have "unat va mod 128 < 128" by simp
    ultimately have "k < 64" by linarith
    then show ?thesis using 2 k by simp
  next
    case 3
    then have "4 dvd unat va mod 128" by (simp add: mod_eq_0_iff_dvd dvd_mod_iff)
    then obtain k where k: "unat va mod 128 = 4 * k" by (elim dvdE)
    moreover have "unat va mod 128 < 128" by simp
    ultimately have "k < 32" by linarith
    then show ?thesis using 3 k by simp
  qed simp
qed

definition translation :: "'a machine_scheme \<Rightarrow> u32 \<Rightarrow> nat \<Rightarrow> bool \<Rightarrow> (ExceptionType + u32) \<times> 'a machine_scheme"
where
  "translation m va sz writing =
     (if misaligned sz va then (Inl AddressErrorException, m)
      else case find_entry m (va div of_nat PageSize) of
          Inl _ \<Rightarrow> (Inl NoException, m)
        | Inr (Inl e) \<Rightarrow> (Inl e, m)
        | Inr (Inr (en, put)) \<Rightarrow>
            if readOnly en \<and> writing then (Inl ReadOnlyException, m)
            else if physicalPage en \<ge> of_nat NumPhysPages then (Inl BusErrorException, m)
            else (Inr (physicalPage en * of_nat PageSize + va mod of_nat PageSize),
                  put (en\<lparr>use := True, dirty := dirty en \<or> writing\<rparr>)))"

lemma Translate_eq:
  assumes wf: "mmu_wf m" and sz: "sz \<in> {1, 2, 4}"
  shows "Translate m va sz writing = Inr (translation m va sz writing)"
proof (cases "misaligned sz va")
  case True
  then show ?thesis by (simp add: Translate_def translation_def)
next
  case False
  have one: "tlb m = None \<or> pageTable m = None" "tlb m \<noteq> None \<or> pageTable m \<noteq> None"
    using wf by (auto simp: mmu_wf_def split: option.splits)
  obtain r where r: "find_entry m (va div of_nat PageSize) = Inr r"
    using find_entry_total[OF wf] by blast
  show ?thesis
  proof (cases r)
    case (Inl e)
    then show ?thesis using one False r by (simp add: Translate_def translation_def Let_def)
  next
    case (Inr ep)
    obtain en put where ep: "ep = (en, put)" by (cases ep)
    let ?pa = "physicalPage en * of_nat PageSize + va mod of_nat PageSize"
    have b: "0 \<le> sint ?pa \<and> sint ?pa + int sz \<le> int MemorySize"
      if "\<not> physicalPage en \<ge> of_nat NumPhysPages"
    proof -
      have pf: "physicalPage en < of_nat NumPhysPages" using that by (simp add: not_le)
      have "unat (physicalPage en) < NumPhysPages" using pf by (simp add: word_less_nat_alt)
      then have "unat ?pa + sz \<le> MemorySize"
        using phys_addr_bounds(1)[OF pf, of va] aligned_in_page[OF False sz] by simp
      then have "int (unat ?pa) + int sz \<le> int MemorySize"
        by (simp only: of_nat_add[symmetric] of_nat_le_iff)
      then show ?thesis unfolding phys_addr_bounds(3)[OF pf, of va] by (simp only: of_nat_0_le_iff simp_thms)
    qed
    show ?thesis
    proof (cases "(readOnly en \<and> writing) \<or> physicalPage en \<ge> of_nat NumPhysPages")
      case True
      then show ?thesis using one False r Inr ep
        by (auto simp: Translate_def translation_def Let_def)
    next
      case ok: False
      then have "assertE (0 \<le> sint ?pa \<and> sint ?pa + int sz \<le> int MemorySize) = Inr ()"
        using b by (intro assertE_True) blast
      then show ?thesis using one False r Inr ep ok
        by (simp add: Translate_def translation_def Let_def entry_update_eq del: of_nat_numeral)
    qed
  qed
qed


lemma translation_frame:
  assumes "mmu_wf m" and "translation m va sz writing = (r, m')"
  shows "mmu_wf m'" "registers m' = registers m" "mainMemory m' = mainMemory m"
    "lastUsed m' = lastUsed m" "totalTicks m' = totalTicks m" "status m' = status m"
    "machine.more m' = machine.more m"
proof -
  have m': "m' = m \<or> (\<exists>en put. find_entry m (va div of_nat PageSize) = Inr (Inr (en, put))
    \<and> m' = put (en\<lparr>use := True, dirty := dirty en \<or> writing\<rparr>))"
    using assms(2) by (auto simp: translation_def split: if_splits sum.splits prod.splits)
  have "mmu_wf m' \<and> registers m' = registers m \<and> mainMemory m' = mainMemory m
    \<and> lastUsed m' = lastUsed m \<and> totalTicks m' = totalTicks m \<and> status m' = status m
    \<and> machine.more m' = machine.more m"
    using m'
  proof
    assume "m' = m"
    then show ?thesis using assms(1) by simp
  next
    assume "\<exists>en put. find_entry m (va div of_nat PageSize) = Inr (Inr (en, put))
      \<and> m' = put (en\<lparr>use := True, dirty := dirty en \<or> writing\<rparr>)"
    then obtain en put where f: "find_entry m (va div of_nat PageSize) = Inr (Inr (en, put))"
      and e: "m' = put (en\<lparr>use := True, dirty := dirty en \<or> writing\<rparr>)" by blast
    have "mmu_wf m'"
      using find_entry_again[OF assms(1) f, of "en\<lparr>use := True, dirty := dirty en \<or> writing\<rparr>"] e
      by auto
    then show ?thesis
      using find_entry_mem[OF f, of "en\<lparr>use := True, dirty := dirty en \<or> writing\<rparr>"] e by simp
  qed
  then show "mmu_wf m'" "registers m' = registers m" "mainMemory m' = mainMemory m"
    "lastUsed m' = lastUsed m" "totalTicks m' = totalTicks m" "status m' = status m"
    "machine.more m' = machine.more m" by simp_all
qed

lemma translation_Inr:
  assumes "mmu_wf m" and "sz \<in> {1, 2, 4}" and "translation m va sz writing = (Inr pa, m')"
  shows "unat pa + sz \<le> MemorySize" and "unat pa mod PageSize = unat va mod PageSize"
    and "unat pa mod PageSize + sz \<le> PageSize"
    and "\<exists>en put. find_entry m (va div of_nat PageSize) = Inr (Inr (en, put))
      \<and> unat pa div PageSize = unat (physicalPage en) \<and> (readOnly en \<longrightarrow> \<not> writing)
      \<and> m' = put (en\<lparr>use := True, dirty := dirty en \<or> writing\<rparr>)"
proof -
  have al: "\<not> misaligned sz va"
    using assms(3) by (auto simp: translation_def)
  obtain en put where f: "find_entry m (va div of_nat PageSize) = Inr (Inr (en, put))"
    "\<not> (readOnly en \<and> writing)" "\<not> of_nat NumPhysPages \<le> physicalPage en"
    "pa = physicalPage en * of_nat PageSize + va mod of_nat PageSize"
    "m' = put (en\<lparr>use := True, dirty := dirty en \<or> writing\<rparr>)"
    using assms(3) al by (auto simp: translation_def split: if_splits sum.splits prod.splits)
  have pf: "physicalPage en < of_nat NumPhysPages" using f(3) by (simp add: not_le)
  have pfn: "unat (physicalPage en) < NumPhysPages" using pf by (simp add: word_less_nat_alt)
  have pa: "unat pa = unat (physicalPage en) * PageSize + unat va mod PageSize"
    using phys_addr_bounds(1)[OF pf, of va] f(4) by simp
  show m: "unat pa mod PageSize = unat va mod PageSize" using pa by simp
  show "unat pa mod PageSize + sz \<le> PageSize"
    using aligned_in_page[OF al assms(2)] m by simp
  then show "unat pa + sz \<le> MemorySize" using pa pfn by simp
  show "\<exists>en put. find_entry m (va div of_nat PageSize) = Inr (Inr (en, put))
      \<and> unat pa div PageSize = unat (physicalPage en) \<and> (readOnly en \<longrightarrow> \<not> writing)
      \<and> m' = put (en\<lparr>use := True, dirty := dirty en \<or> writing\<rparr>)"
    using f pa by (intro exI[of _ en] exI[of _ put]) auto
qed

text \<open>A translation that succeeded for a write succeeds for a read of the same address.\<close>

lemma translation_again:
  assumes "mmu_wf m" and "sz \<in> {1, 2, 4}" and "translation m va sz writing = (Inr pa, m')"
    and "tlb m1 = tlb m'" and "pageTable m1 = pageTable m'" and "pageTableSize m1 = pageTableSize m'"
  shows "\<exists>m2. translation m1 va sz False = (Inr pa, m2)"
proof -
  have al: "\<not> misaligned sz va"
    using assms(3) by (auto simp: translation_def)
  obtain en put where f: "find_entry m (va div of_nat PageSize) = Inr (Inr (en, put))"
    "\<not> of_nat NumPhysPages \<le> physicalPage en"
    "pa = physicalPage en * of_nat PageSize + va mod of_nat PageSize"
    "m' = put (en\<lparr>use := True, dirty := dirty en \<or> writing\<rparr>)"
    using assms(3) al by (auto simp: translation_def split: if_splits sum.splits prod.splits)
  let ?en = "en\<lparr>use := True, dirty := dirty en \<or> writing\<rparr>"
  obtain put' where g: "find_entry m' (va div of_nat PageSize) = Inr (Inr (?en, put'))"
    using find_entry_again[OF assms(1) f(1), of ?en] f(4) by auto
  have "\<exists>put1. find_entry m1 (va div of_nat PageSize) = Inr (Inr (?en, put1))"
    using g assms(4-6) by (auto simp: find_entry_def split: option.splits if_splits)
  then show ?thesis using al f by (auto simp: translation_def)
qed

definition loaded :: "nat \<Rightarrow> u32 \<Rightarrow> u32" where
  "loaded sz v = (if sz = 1 then scast (ucast v :: u8) else if sz = 2 then ucast (ucast v :: u16) else v)"

lemma ReadMem_Some:
  assumes "mmu_wf m" and "sz \<in> {1, 2, 4}" and "translation m va sz False = (Inr pa, m')"
  shows "ReadMem big h va sz m = Inr (Some (
      if sz = 1 then scast (mainMemory m (unat pa))
      else if sz = 2 then ucast (le16 (mainMemory m (unat pa)) (mainMemory m (unat pa + 1)))
      else le32 (mainMemory m (unat pa)) (mainMemory m (unat pa + 1))
        (mainMemory m (unat pa + 2)) (mainMemory m (unat pa + 3))), touch (unat pa) m')"
  using assms translation_frame[OF assms(1,3)]
  by (auto simp: ReadMem_def Translate_eq Let_def host_load16_eq host_load32_eq)

lemma and_mask_ucast:
  "ucast (v AND 0xff :: u32) = (ucast v :: u8)" "ucast (v AND 0xffff :: u32) = (ucast v :: u16)"
proof -
  have k: "(0xff :: u32) = mask 8" "(0xffff :: u32) = mask 16" by (simp_all add: mask_eq_exp_minus_1)
  show "ucast (v AND 0xff :: u32) = (ucast v :: u8)" "ucast (v AND 0xffff :: u32) = (ucast v :: u16)"
    unfolding k by (rule bit_word_eqI; auto simp: bit_simps)+
qed

definition stored :: "nat \<Rightarrow> u32 \<Rightarrow> nat \<Rightarrow> (nat \<Rightarrow> u8) \<Rightarrow> (nat \<Rightarrow> u8)" where
  "stored sz v pa mem =
     (if sz = 1 then mem(pa := ucast v)
      else if sz = 2 then mem(pa := ucast v, pa + 1 := ucast (drop_bit 8 (ucast v :: u16)))
      else mem(pa := ucast v, pa + 1 := ucast (drop_bit 8 v), pa + 2 := ucast (drop_bit 16 v),
        pa + 3 := ucast (drop_bit 24 v)))"

lemma ucast_u16_u8: "ucast (ucast (v :: u32) :: u16) = (ucast v :: u8)"
  by (rule bit_word_eqI) (auto simp: bit_simps)

lemma WriteMem_True:
  assumes "mmu_wf m" and "sz \<in> {1, 2, 4}" and "translation m va sz True = (Inr pa, m')"
  shows "WriteMem big h va sz v m =
    Inr (True, touch (unat pa) (m'\<lparr>mainMemory := stored sz v (unat pa) (mainMemory m)\<rparr>))"
  using assms translation_frame[OF assms(1,3)]
  by (auto simp: WriteMem_def Translate_eq Let_def host_store16_eq host_store32_eq stored_def
      and_mask_ucast ucast_u16_u8)

lemma translation_step:
  assumes "mmu_wf m" and "sz \<in> {1, 2, 4}" and "WriteMem big h va sz v m = Inr (True, m1)"
  obtains pa m' where "translation m va sz True = (Inr pa, m')"
    and "m1 = touch (unat pa) (m'\<lparr>mainMemory := stored sz v (unat pa) (mainMemory m)\<rparr>)"
proof (cases "translation m va sz True")
  case (Pair r m')
  show ?thesis
  proof (cases r)
    case (Inl e)
    then show ?thesis using assms Pair
      by (auto simp: WriteMem_def Translate_eq elim: bindE_InrE)
  next
    case (Inr pa)
    then show ?thesis using that assms Pair WriteMem_True[OF assms(1,2), of va pa m' big h v] by auto
  qed
qed

lemma stored_loaded:
  assumes "sz \<in> {1, 2, 4}"
  shows "(let mem = stored sz v p mem0 in
      if sz = 1 then scast (mem p) else if sz = 2 then ucast (le16 (mem p) (mem (p + 1)))
      else le32 (mem p) (mem (p + 1)) (mem (p + 2)) (mem (p + 3))) = loaded sz v"
proof -
  have "le16 (ucast v) (ucast (drop_bit 8 (ucast v :: u16))) = (ucast v :: u16)"
    using le16_split[of "ucast v"] by (simp only: ucast_u16_u8)
  then show ?thesis using assms by (auto simp: stored_def loaded_def le32_split Let_def)
qed

lemma stored_other: "sz \<in> {1, 2, 4} \<Longrightarrow> q < p \<or> p + sz \<le> q \<Longrightarrow> stored sz v p mem q = mem q"
  by (auto simp: stored_def)

section \<open>Properties\<close>


text \<open>A load after a store of the same size at the same virtual address reads back what was
  stored (a byte sign-extended, a half word zero-extended, a word as it is), whatever the byte
  order of the host, and no byte of physical memory outside the stored ones changes.\<close>
theorem write_then_read:
  assumes "mmu_wf m" and "sz \<in> {1, 2, 4}" and "WriteMem big h va sz v m = Inr (True, m1)"
  shows "(\<exists>m2. ReadMem big' h' va sz m1 = Inr (Some (loaded sz v), m2))
    \<and> (\<exists>p. p + sz \<le> MemorySize \<and> (\<forall>q. q < p \<or> p + sz \<le> q \<longrightarrow> mainMemory m1 q = mainMemory m q))"
proof -
  obtain pa m' where t: "translation m va sz True = (Inr pa, m')"
    and m1: "m1 = touch (unat pa) (m'\<lparr>mainMemory := stored sz v (unat pa) (mainMemory m)\<rparr>)"
    using translation_step[OF assms] by blast
  have wf1: "mmu_wf m1"
    using translation_frame(1)[OF assms(1) t] mmu_wf_cong[of m1 m'] by (simp add: m1 touch_def)
  obtain m2 where t2: "translation m1 va sz False = (Inr pa, m2)"
    using translation_again[OF assms(1,2) t, of m1] by (auto simp: m1 touch_def)
  have mem: "mainMemory m1 = stored sz v (unat pa) (mainMemory m)"
    by (simp add: m1 touch_def)
  have "ReadMem big' h' va sz m1 = Inr (Some (loaded sz v), touch (unat pa) m2)"
    by (simp only: ReadMem_Some[OF wf1 assms(2) t2] mem stored_loaded[OF assms(2), unfolded Let_def])
  moreover have "\<forall>q. q < unat pa \<or> unat pa + sz \<le> q \<longrightarrow> mainMemory m1 q = mainMemory m q"
    using mem stored_other[OF assms(2)] by simp
  ultimately show ?thesis
    using translation_Inr(1)[OF assms(1,2) t] by blast
qed

text \<open>The byte order of the host does not show: loads and stores, with every effect they have
  on the machine, are the same function on a big-endian and on a little-endian host.\<close>
theorem host_order_invisible:
  "ReadMem True h va sz m = ReadMem False h va sz m
   \<and> WriteMem True h va sz v m = WriteMem False h va sz v m"
proof -
  have "ReadMem True h va sz m = ReadMem False h va sz m"
    unfolding ReadMem_def host_load16_eq host_load32_eq ..
  moreover have "WriteMem True h va sz v m = WriteMem False h va sz v m"
    unfolding WriteMem_def host_store16_eq host_store32_eq ..
  ultimately show ?thesis ..
qed

section \<open>A concrete machine\<close>

text \<open>One TLB entry maps virtual page 2 to frame 5; the kernel's handler faults.\<close>

definition demo_entry :: tentry where
  "demo_entry = \<lparr>virtualPage = 2, physicalPage = 5, valid = True, readOnly = False, use = False, dirty = False\<rparr>"

definition demo_machine :: machine where
  "demo_machine = (Machine_new True (\<lambda>_. demo_entry) 0 7)
     \<lparr>tlb := Some [demo_entry\<lparr>valid := False\<rparr>, demo_entry, demo_entry\<lparr>virtualPage := 3, readOnly := True\<rparr>, demo_entry\<lparr>valid := False\<rparr>]\<rparr>"

definition no_handler :: "'m handler" where
  "no_handler e m = Inl Machine_halted"

lemma demo_wf: "mmu_wf demo_machine"
  by (simp add: mmu_wf_def demo_machine_def Machine_new_def)

lemma demo_write: "\<exists>m1. WriteMem True no_handler 260 4 0xdeadbeef demo_machine = Inr (True, m1)"
proof -
  have "fst (translation demo_machine 260 4 True) = Inr 644"
    by (simp add: translation_def misaligned_def find_entry_def demo_machine_def demo_entry_def
        Machine_new_def upt_rec)
  then obtain m' where "translation demo_machine 260 4 True = (Inr 644, m')"
    by (metis fst_conv surj_pair)
  then show ?thesis using WriteMem_True[OF demo_wf, of 4 260 644 m'] by auto
qed


lemma write_then_read_witness:
  "\<exists>m1 m2. WriteMem True no_handler 260 4 0xdeadbeef demo_machine = Inr (True, m1)
     \<and> ReadMem False no_handler 260 4 m1 = Inr (Some 0xdeadbeef, m2)"
proof -
  obtain m1 where w: "WriteMem True no_handler 260 4 0xdeadbeef demo_machine = Inr (True, m1)"
    using demo_write by blast
  show ?thesis
    using w write_then_read[OF demo_wf _ w, of False no_handler] by (auto simp: loaded_def)
qed

end
