(* ===== verification/MipsMult.thy ===== *)
theory MipsMult
  imports Prelude
begin

text \<open>
  \<open>Mult\<close> of \<open>machine/mipssim.cc\<close>: the double-word product of two registers, computed a bit
  of \<open>a\<close> at a time in unsigned 32-bit words, with the sign put back at the end. The theorem is
  that the pair of words is the 64-bit product, signed or unsigned.
\<close>

unbundle bit_operations_syntax

section \<open>The routine\<close>

text \<open>
  One turn of the loop for each of the \<open>n\<close> bits left; \<open>a\<close> is a signed int, so \<open>a >>= 1\<close>
  keeps its sign.
\<close>

fun mult_loop :: "nat \<Rightarrow> u32 \<Rightarrow> u32 \<Rightarrow> u32 \<Rightarrow> u32 \<Rightarrow> u32 \<Rightarrow> u32 \<times> u32" where
  "mult_loop 0 a bHi bLo hi lo = (hi, lo)"
| "mult_loop (Suc n) a bHi bLo hi lo =
     (let lo1 = (if a AND 1 \<noteq> 0 then lo + bLo else lo);
          hi1 = (if a AND 1 \<noteq> 0 then (if lo1 < bLo then hi + 1 else hi) + bHi else hi)
      in if a AND 1 \<noteq> 0 \<and> a AND 0xfffffffe = 0 then (hi1, lo1)
         else mult_loop n (signed_drop_bit 1 a)
                (if bLo AND 0x80000000 \<noteq> 0 then push_bit 1 bHi OR 1 else push_bit 1 bHi)
                (push_bit 1 bLo) hi1 lo1)"

definition Mult :: "u32 \<Rightarrow> u32 \<Rightarrow> bool \<Rightarrow> u32 \<times> u32" where
  "Mult a b signedArith =
     (if a = 0 \<or> b = 0 then (0, 0)
      else
        (let nega = (signedArith \<and> sint a < 0); negb = (signedArith \<and> sint b < 0);
             a1 = (if nega then - a else a); b1 = (if negb then - b else b);
             negative = (nega \<noteq> negb);
             (hi, lo) = mult_loop 32 a1 0 b1 0 0
         in if negative then
              (let hi2 = NOT hi; lo2 = NOT lo + 1 in (if lo2 = 0 then hi2 + 1 else hi2, lo2))
            else (hi, lo)))"

section \<open>Double words\<close>

definition dword :: "u32 \<times> u32 \<Rightarrow> u64" where
  "dword p = word_of_int (uint (fst p) * 2 ^ 32 + uint (snd p))"

lemma of_int_mult_64: "(word_of_int (x + k * 2 ^ 64) :: u64) = word_of_int x"
  by (simp flip: of_int_add add: of_int_eq_iff word_of_int_eq_iff take_bit_eq_mod)

lemma uint_add_ex: "\<exists>k. uint (x + y :: u32) = uint x + uint y + k * 2 ^ 32"
proof -
  have "uint (x + y) = (uint x + uint y) mod 2 ^ 32" by (simp add: uint_word_ariths)
  also have "\<dots> = uint x + uint y + (- ((uint x + uint y) div 2 ^ 32)) * 2 ^ 32"
    by (simp add: minus_div_mult_eq_mod [symmetric])
  finally show ?thesis by blast
qed

lemma uint_add_cases:
  "uint (x + y :: u32) = (if uint x + uint y < 2 ^ 32 then uint x + uint y else uint x + uint y - 2 ^ 32)"
  by (simp add: uint_plus_if_size word_size)

lemma uint_add_carry:
  "uint (lo + b :: u32) = uint lo + uint b - (if lo + b < b then 2 ^ 32 else 0)"
proof -
  have b: "0 \<le> uint lo" "uint lo < 2 ^ 32" "0 \<le> uint b" "uint b < 2 ^ 32"
    using uint_bounded[of lo] uint_bounded[of b] by simp_all
  have e: "uint (lo + b) = (if uint lo + uint b < 2 ^ 32 then uint lo + uint b else uint lo + uint b - 2 ^ 32)"
    using b by (simp add: uint_plus_if_size word_size)
  show ?thesis using b e by (simp add: word_less_def split: if_splits)
qed

lemma dword_add:
  "dword ((if lo + bLo < bLo then hi + 1 else hi) + bHi, lo + bLo) = dword (hi, lo) + dword (bHi, bLo)"
proof -
  let ?c = "if lo + bLo < bLo then 1 else 0 :: int"
  obtain k1 where k1: "uint (if lo + bLo < bLo then hi + 1 else hi) = uint hi + ?c + k1 * 2 ^ 32"
    using uint_add_ex[of hi 1] by (cases "lo + bLo < bLo") (auto intro: that[of 0] that)
  obtain k2 where k2: "uint ((if lo + bLo < bLo then hi + 1 else hi) + bHi)
      = uint (if lo + bLo < bLo then hi + 1 else hi) + uint bHi + k2 * 2 ^ 32"
    using uint_add_ex by blast
  have lo: "uint (lo + bLo) = uint lo + uint bLo - ?c * 2 ^ 32"
    using uint_add_carry[of lo bLo] by simp
  have "uint ((if lo + bLo < bLo then hi + 1 else hi) + bHi) * 2 ^ 32 + uint (lo + bLo)
      = (uint hi * 2 ^ 32 + uint lo) + (uint bHi * 2 ^ 32 + uint bLo) + (k1 + k2) * 2 ^ 64"
    unfolding k2 k1 lo by (simp add: algebra_simps)
  then show ?thesis
    unfolding dword_def fst_conv snd_conv by (simp only: of_int_mult_64) simp
qed

lemma dword_shift:
  "dword (if bLo AND 0x80000000 \<noteq> 0 then push_bit 1 bHi OR 1 else push_bit 1 bHi, push_bit 1 bLo)
     = 2 * dword (bHi, bLo)"
proof -
  have pb: "push_bit 1 bLo = bLo + bLo" by (simp add: push_bit_eq_mult)
  have m: "bLo AND 0x80000000 \<noteq> 0 \<longleftrightarrow> push_bit 1 bLo < bLo"
  proof -
    have "bLo AND 0x80000000 \<noteq> 0 \<longleftrightarrow> bit bLo 31"
      using bit_iff_and_push_bit_not_eq_0[of bLo 31] by simp
    also have "\<dots> \<longleftrightarrow> 2 ^ 31 \<le> uint bLo"
    proof -
      have "bit bLo 31 = bit (uint bLo) 31" by (simp add: bit_uint_iff)
      then have e: "bit bLo 31 = odd (uint bLo div 2 ^ 31)" by (simp only: bit_iff_odd)
      define u where "u = uint bLo"
      have "0 \<le> u" "u < 2 ^ 32" unfolding u_def using uint_bounded[of bLo] by simp_all
      then have "odd (u div 2 ^ 31) = (2 ^ 31 \<le> u)"
      proof (cases "u < 2 ^ 31")
        case False
        with \<open>u < 2 ^ 32\<close> have "u div 2 ^ 31 = 1"
          by (intro int_div_pos_eq [where r = "u - 2 ^ 31"]) simp_all
        with False show ?thesis by simp
      qed simp
      then show ?thesis using e unfolding u_def by (simp only:)
    qed
    also have "\<dots> \<longleftrightarrow> bLo + bLo < bLo"
    proof -
      define u where "u = uint bLo"
      have u: "0 \<le> u" "u < 2 ^ 32" unfolding u_def using uint_bounded[of bLo] by simp_all
      have "uint (bLo + bLo) = (if u + u < 2 ^ 32 then u + u else u + u - 2 ^ 32)"
        unfolding u_def by (rule uint_add_cases)
      moreover have "(2 ^ 31 \<le> u) = ((if u + u < 2 ^ 32 then u + u else u + u - 2 ^ 32) < u)"
        using u by (cases "u + u < 2 ^ 32") simp_all
      ultimately show ?thesis unfolding word_less_def u_def[symmetric] by (simp only:)
    qed
    finally show ?thesis unfolding pb .
  qed
  have o: "push_bit 1 bHi OR 1 = bHi + 1 + bHi"
  proof -
    have "push_bit 1 bHi OR 1 = push_bit 1 bHi + 1"
    proof (rule disjunctive_add[symmetric])
      fix n :: nat
      show "\<not> bit (push_bit 1 bHi) n \<or> \<not> bit (1 :: u32) n"
        by (simp only: bit_push_bit_iff bit_1_iff) simp
    qed
    then show ?thesis by (simp add: push_bit_eq_mult)
  qed
  have "(if bLo AND 0x80000000 \<noteq> 0 then push_bit 1 bHi OR 1 else push_bit 1 bHi)
      = (if bLo + bLo < bLo then bHi + 1 else bHi) + bHi"
    unfolding m o pb by (simp add: push_bit_eq_mult)
  then show ?thesis by (simp only: pb dword_add) (simp add: algebra_simps)
qed

lemma dword_bits:
  "n < 64 \<Longrightarrow> bit (dword (hi, lo)) n = (if n < 32 then bit lo n else bit hi (n - 32))"
proof -
  assume n: "n < 64"
  have "dword (hi, lo) = push_bit 32 (ucast hi) + ucast lo"
    by (simp add: dword_def push_bit_eq_mult mult.commute)
  also have "\<dots> = push_bit 32 (ucast hi) OR ucast lo"
  proof (rule disjunctive_add)
    fix n :: nat
    show "\<not> bit (push_bit 32 (ucast hi) :: u64) n \<or> \<not> bit (ucast lo :: u64) n"
      using bit_imp_le_length[of lo n] by (cases "n < 32") (simp_all add: bit_simps, blast)
  qed
  finally have e: "dword (hi, lo) = push_bit 32 (ucast hi) OR ucast lo" .
  show ?thesis
  proof (cases "n < 32")
    case True
    then show ?thesis unfolding e by (simp add: bit_simps)
  next
    case False
    then have "\<not> bit lo n" using bit_imp_le_length[of lo n] by auto
    then show ?thesis using False n unfolding e by (auto simp: bit_simps)
  qed
qed

lemma dword_not: "dword (NOT hi, NOT lo) = NOT (dword (hi, lo))"
  by (rule bit_word_eqI) (auto simp: dword_bits bit_not_iff)

lemma dword_neg:
  "dword (if NOT lo + 1 = 0 then NOT hi + 1 else NOT hi, NOT lo + 1) = - dword (hi, lo)"
proof -
  have c: "(NOT lo + 1 = 0) = (NOT lo + 1 < 1)" by (simp add: word_less_1)
  have "dword (if NOT lo + 1 = 0 then NOT hi + 1 else NOT hi, NOT lo + 1)
      = dword (NOT hi, NOT lo) + dword (0, 1)"
    unfolding c using dword_add[of "NOT lo" 1 "NOT hi" 0] by simp
  also have "dword (0, 1) = 1" by (simp add: dword_def)
  finally show ?thesis by (simp only: dword_not minus_eq_not_plus_1)
qed

section \<open>The loop computes the product\<close>

lemma uint_asr_mod:
  fixes a :: u32
  assumes "n < 32"
  shows "uint a mod 2 ^ Suc n = 2 * (uint (signed_drop_bit 1 a) mod 2 ^ n) + uint a mod 2"
proof -
  have h: "uint a div 2 = drop_bit 1 (uint a)" by (simp add: drop_bit_eq_div)
  have "take_bit n (uint (signed_drop_bit 1 a)) = take_bit n (uint a div 2)"
    by (rule bit_eqI) (use assms in \<open>auto simp: bit_simps bit_uint_iff h min_def\<close>)
  then have "uint (signed_drop_bit 1 a) mod 2 ^ n = (uint a div 2) mod 2 ^ n"
    by (simp add: take_bit_eq_mod)
  moreover have "uint a mod 2 ^ Suc n = 2 * ((uint a div 2) mod 2 ^ n) + uint a mod 2"
    using mod_mult2_eq'[of "uint a" 2 "2 ^ n"] by simp
  ultimately show ?thesis by simp
qed

lemma and_1_uint: "(a AND 1 \<noteq> (0 :: u32)) = (uint a mod 2 = 1)"
proof -
  have "a AND 1 = a mod 2" by (simp add: and_one_eq)
  then have "(a AND 1 \<noteq> 0) = (uint (a mod 2) \<noteq> 0)" by (simp add: unsigned_eq_0_iff)
  also have "\<dots> = (uint a mod 2 \<noteq> 0)" by (simp add: uint_mod)
  finally show ?thesis by presburger
qed

lemma only_bit_0:
  assumes "a AND 1 \<noteq> (0 :: u32)" and "a AND 0xfffffffe = 0"
  shows "a = 1"
proof -
  have "(0xfffffffe :: u32) OR 1 = - 1" by simp
  then have "a = a AND (0xfffffffe OR 1)" by (simp only: and.right_neutral)
  also have "\<dots> = a AND 1" using assms(2) by (simp only: bit.conj_disj_distrib or.left_neutral)
  also have "\<dots> = 1" using assms(1) by (simp add: and_one_eq split: if_splits)
  finally show ?thesis .
qed

lemma mult_loop_correct:
  "n \<le> 32 \<Longrightarrow> dword (mult_loop n a bHi bLo hi lo)
     = dword (hi, lo) + dword (bHi, bLo) * word_of_int (uint a mod 2 ^ n)"
proof (induction n arbitrary: a bHi bLo hi lo)
  case 0
  then show ?case by simp
next
  case (Suc n)
  let ?odd = "a AND 1 \<noteq> 0"
  let ?lo1 = "if ?odd then lo + bLo else lo"
  let ?hi1 = "if ?odd then (if ?lo1 < bLo then hi + 1 else hi) + bHi else hi"
  let ?b = "dword (bHi, bLo)"
  have add: "dword (?hi1, ?lo1) = dword (hi, lo) + ?b * word_of_int (uint a mod 2)"
  proof (cases ?odd)
    case True
    then have "uint a mod 2 = 1" by (simp only: and_1_uint)
    then show ?thesis unfolding if_P[OF True] by (simp only: dword_add of_int_1 mult_1_right)
  next
    case False
    then have "uint a mod 2 = 0" using and_1_uint[of a] by presburger
    then show ?thesis using False by simp
  qed
  show ?case
  proof (cases "?odd \<and> a AND 0xfffffffe = 0")
    case True
    then have "a = 1" using only_bit_0 by blast
    moreover have "(1 :: int) mod 2 ^ Suc n = 1"
      by (rule mod_pos_pos_trivial, simp, rule one_less_power) simp_all
    ultimately have "uint a mod 2 ^ Suc n = uint a mod 2" by simp
    then show ?thesis using True add by (simp only: mult_loop.simps Let_def if_True simp_thms)
  next
    case False
    have n: "n < 32" using Suc.prems by simp
    have "word_of_int (uint a mod 2 ^ Suc n)
        = (2 * word_of_int (uint (signed_drop_bit 1 a) mod 2 ^ n) + word_of_int (uint a mod 2) :: u64)"
      unfolding uint_asr_mod[OF n, of a] by simp
    moreover have "dword (mult_loop (Suc n) a bHi bLo hi lo)
        = dword (?hi1, ?lo1) + 2 * ?b * word_of_int (uint (signed_drop_bit 1 a) mod 2 ^ n)"
      unfolding mult_loop.simps Let_def if_not_P[OF False] using Suc.IH n
      by (simp only: less_imp_le dword_shift)
    ultimately show ?thesis unfolding add by (simp only: algebra_simps)
  qed
qed

lemma uint_abs:
  fixes a :: u32
  shows "sint a < 0 \<Longrightarrow> uint (- a) = - sint a" and "\<not> sint a < 0 \<Longrightarrow> uint a = sint a"
proof -
  have b: "- (2 ^ 31) \<le> sint a" "sint a < 2 ^ 31"
    using sint_greater_eq[of a] sint_less[of a] by simp_all
  have m: "uint (word_of_int k :: u32) = k" if "0 \<le> k" "k < 2 ^ 32" for k
    using that by (simp add: unsigned_of_int take_bit_int_eq_self)
  show "uint (- a) = - sint a" if neg: "sint a < 0"
  proof -
    have "0 \<le> - sint a" "- sint a < 2 ^ 32" using b neg by simp_all
    from m[OF this] show ?thesis by simp
  qed
  show "uint a = sint a" if pos: "\<not> sint a < 0"
  proof -
    have "0 \<le> sint a" "sint a < 2 ^ 32" using b pos by simp_all
    from m[OF this] show ?thesis by simp
  qed
qed

lemma mult_loop_product: "dword (mult_loop 32 a 0 b 0 0) = word_of_int (uint a * uint b)"
proof -
  have "uint a mod 2 ^ 32 = uint a" using uint_bounded[of a] by simp
  then show ?thesis
    unfolding mult_loop_correct[OF order_refl] by (simp add: dword_def mult.commute)
qed

lemma dword_zero: "dword (0, 0) = 0"
  by (simp add: dword_def)

text \<open>C30: The simulated multiplier is right. The two words that \<open>Mult\<close> leaves in Hi and Lo are
  the 64-bit two's-complement product of the operands read as signed for MULT, and their
  unsigned product for MULTU, for every pair of operands.\<close>
theorem Mult_correct:
  "dword (Mult a b True) = word_of_int (sint a * sint b)
   \<and> dword (Mult a b False) = word_of_int (uint a * uint b)"
proof (cases "a = 0 \<or> b = 0")
  case True
  then show ?thesis by (auto simp: Mult_def dword_zero)
next
  case False
  let ?a = "if sint a < 0 then - a else a" and ?b = "if sint b < 0 then - b else b"
  obtain hi lo where r: "mult_loop 32 ?a 0 ?b 0 0 = (hi, lo)" by (cases "mult_loop 32 ?a 0 ?b 0 0")
  have p: "dword (hi, lo) = word_of_int (uint ?a * uint ?b)" using mult_loop_product[of ?a ?b] r by simp
  have "dword (Mult a b True) =
      (if (sint a < 0) \<noteq> (sint b < 0) then - dword (hi, lo) else dword (hi, lo))"
    using False r dword_neg[of lo hi] by (simp add: Mult_def Let_def)
  then have "dword (Mult a b True) = word_of_int (sint a * sint b)"
    unfolding p using uint_abs[of a] uint_abs[of b]
    by (cases "sint a < 0"; cases "sint b < 0")
      (simp_all only: if_True if_False simp_thms minus_minus minus_mult_minus mult_minus_left mult_minus_right
        flip: of_int_minus)
  moreover have "dword (Mult a b False) = word_of_int (uint a * uint b)"
    using False mult_loop_product[of a b] by (simp add: Mult_def split: prod.splits)
  ultimately show ?thesis ..
qed

end
