(* ===== verification/MipsSim.thy ===== *)
theory MipsSim
  imports MachineMem MipsIsa MipsMult "HOL-Library.Signed_Division"
begin

text \<open>
  \<open>Machine::OneInstruction\<close> of \<open>machine/mipssim.cc\<close>: fetch, decode, execute one
  instruction of the user program and advance the program counters, with delayed loads, branch
  delay slots and exceptions. The switch on the opcode is five definitions that follow the
  source from the top to the bottom, each handing the opcodes it does not name to the next.
\<close>

unbundle bit_operations_syntax

section \<open>Execution of one decoded instruction\<close>

text \<open>
  A case of the switch either breaks out of it, with the delayed load it asks for and the value
  of \<open>pcAfter\<close>, or returns from \<open>OneInstruction\<close> because an exception has been handled.
\<close>

datatype 'm outcome =
    Advance 'm nat u32 u32   \<comment> \<open>state, \<open>nextLoadReg\<close>, \<open>nextLoadValue\<close>, \<open>pcAfter\<close>\<close>
  | Returned 'm

abbreviation (input) SIGN_BIT :: u32 where "SIGN_BIT \<equiv> 0x80000000"

definition IndexToAddr :: "u32 \<Rightarrow> u32" where
  "IndexToAddr x = push_bit 2 x"

definition trap ::
  "'a machine_scheme handler \<Rightarrow> ExceptionType \<Rightarrow> u32 \<Rightarrow> 'a machine_scheme
   \<Rightarrow> 'a machine_scheme outcome result"
where
  "trap h e bad m = bindE (RaiseException h e bad m) (\<lambda>m1. Inr (Returned m1))"

text \<open>A load that continues with the value read, or returns when the access trapped.\<close>

definition loading ::
  "bool \<Rightarrow> 'a machine_scheme handler \<Rightarrow> u32 \<Rightarrow> nat \<Rightarrow> 'a machine_scheme
   \<Rightarrow> (u32 \<Rightarrow> 'a machine_scheme \<Rightarrow> 'a machine_scheme outcome result)
   \<Rightarrow> 'a machine_scheme outcome result"
where
  "loading big h addr sz m k =
     bindE (ReadMem big h addr sz m) (\<lambda>(r, m1). case r of
         None \<Rightarrow> Inr (Returned m1) | Some v \<Rightarrow> k v m1)"

definition storing ::
  "bool \<Rightarrow> 'a machine_scheme handler \<Rightarrow> u32 \<Rightarrow> nat \<Rightarrow> u32 \<Rightarrow> 'a machine_scheme \<Rightarrow> u32
   \<Rightarrow> 'a machine_scheme outcome result"
where
  "storing big h addr sz v m pcAfter =
     bindE (WriteMem big h addr sz v m) (\<lambda>(done, m1).
       Inr (if done then Advance m1 0 0 pcAfter else Returned m1))"

text \<open>SUB to XORI and the reserved opcodes.\<close>

definition exec_sub_xori ::
  "bool \<Rightarrow> 'a machine_scheme handler \<Rightarrow> instruction \<Rightarrow> u32 \<Rightarrow> 'a machine_scheme
   \<Rightarrow> 'a machine_scheme outcome result"
where
  "exec_sub_xori big h i pcAfter m =
     (let rs = registers m (i_rs i); rt = registers m (i_rt i); extra = i_extra i;
          next = (\<lambda>m. Inr (Advance m 0 0 pcAfter))
      in case i_opCode i of
        OP_SUB \<Rightarrow>
          (let diff = rs - rt in
           if (rs XOR rt) AND SIGN_BIT \<noteq> 0 \<and> (rs XOR diff) AND SIGN_BIT \<noteq> 0
           then trap h OverflowException 0 m
           else next (set_reg m (i_rd i) diff))
      | OP_SUBU \<Rightarrow> next (set_reg m (i_rd i) (rs - rt))
      | OP_SW \<Rightarrow> storing big h (rs + extra) 4 rt m pcAfter
      | OP_SWL \<Rightarrow>
          (let tmp = rs + extra in
           bindE (assertE (tmp AND 0x3 = 0)) (\<lambda>_.
           loading big h (tmp AND NOT 0x3) 4 m (\<lambda>value m1.
           (let value1 =
              (if tmp AND 0x3 = 0 then rt
               else if tmp AND 0x3 = 1 then (value AND 0xff000000) OR (drop_bit 8 rt AND 0xffffff)
               else if tmp AND 0x3 = 2 then (value AND 0xffff0000) OR (drop_bit 16 rt AND 0xffff)
               else (value AND 0xffffff00) OR (drop_bit 24 rt AND 0xff))
            in storing big h (tmp AND NOT 0x3) 4 value1 m1 pcAfter))))
      | OP_SWR \<Rightarrow>
          (let tmp = rs + extra in
           bindE (assertE (tmp AND 0x3 = 0)) (\<lambda>_.
           loading big h (tmp AND NOT 0x3) 4 m (\<lambda>value m1.
           (let value1 =
              (if tmp AND 0x3 = 0 then (value AND 0xffffff) OR push_bit 24 rt
               else if tmp AND 0x3 = 1 then (value AND 0xffff) OR push_bit 16 rt
               else if tmp AND 0x3 = 2 then (value AND 0xff) OR push_bit 8 rt
               else rt)
            in storing big h (tmp AND NOT 0x3) 4 value1 m1 pcAfter))))
      | OP_SYSCALL \<Rightarrow> trap h SyscallException 0 m
      | OP_XOR \<Rightarrow> next (set_reg m (i_rd i) (rs XOR rt))
      | OP_XORI \<Rightarrow> next (set_reg m (i_rt i) (rs XOR (extra AND 0xffff)))
      | OP_RES \<Rightarrow> trap h IllegalInstrException 0 m
      | OP_UNIMP \<Rightarrow> trap h IllegalInstrException 0 m
      | _ \<Rightarrow> Inl Assertion_failed)"

text \<open>
  NOR to SRLV. \<open>OP_OR\<close> reads \<open>rs\<close> twice, and the logical right shifts shift a signed
  \<open>int\<close>, as the source has them.
\<close>

definition exec_nor_srlv ::
  "bool \<Rightarrow> 'a machine_scheme handler \<Rightarrow> instruction \<Rightarrow> u32 \<Rightarrow> 'a machine_scheme
   \<Rightarrow> 'a machine_scheme outcome result"
where
  "exec_nor_srlv big h i pcAfter m =
     (let rs = registers m (i_rs i); rt = registers m (i_rt i); extra = i_extra i;
          next = (\<lambda>m. Inr (Advance m 0 0 pcAfter))
      in case i_opCode i of
        OP_NOR \<Rightarrow> next (set_reg m (i_rd i) (NOT (rs OR rt)))
      | OP_OR \<Rightarrow> next (set_reg m (i_rd i) (rs OR rs))
      | OP_ORI \<Rightarrow> next (set_reg m (i_rt i) (rs OR (extra AND 0xffff)))
      | OP_SB \<Rightarrow> storing big h (rs + extra) 1 rt m pcAfter
      | OP_SH \<Rightarrow> storing big h (rs + extra) 2 rt m pcAfter
      | OP_SLL \<Rightarrow> next (set_reg m (i_rd i) (push_bit (unat extra) rt))
      | OP_SLLV \<Rightarrow> next (set_reg m (i_rd i) (push_bit (unat (rs AND 0x1f)) rt))
      | OP_SLT \<Rightarrow> next (set_reg m (i_rd i) (if sint rs < sint rt then 1 else 0))
      | OP_SLTI \<Rightarrow> next (set_reg m (i_rt i) (if sint rs < sint extra then 1 else 0))
      | OP_SLTIU \<Rightarrow> next (set_reg m (i_rt i) (if rs < extra then 1 else 0))
      | OP_SLTU \<Rightarrow> next (set_reg m (i_rd i) (if rs < rt then 1 else 0))
      | OP_SRA \<Rightarrow> next (set_reg m (i_rd i) (signed_drop_bit (unat extra) rt))
      | OP_SRAV \<Rightarrow> next (set_reg m (i_rd i) (signed_drop_bit (unat (rs AND 0x1f)) rt))
      | OP_SRL \<Rightarrow> next (set_reg m (i_rd i) (signed_drop_bit (unat extra) rt))
      | OP_SRLV \<Rightarrow> next (set_reg m (i_rd i) (signed_drop_bit (unat (rs AND 0x1f)) rt))
      | _ \<Rightarrow> exec_sub_xori big h i pcAfter m)"

text \<open>LUI to MULTU.\<close>

definition exec_lui_multu ::
  "bool \<Rightarrow> 'a machine_scheme handler \<Rightarrow> instruction \<Rightarrow> u32 \<Rightarrow> 'a machine_scheme
   \<Rightarrow> 'a machine_scheme outcome result"
where
  "exec_lui_multu big h i pcAfter m =
     (let rs = registers m (i_rs i); rt = registers m (i_rt i); extra = i_extra i;
          next = (\<lambda>m. Inr (Advance m 0 0 pcAfter));
          merged = (\<lambda>m1. if registers m1 LoadReg = of_nat (i_rt i) then registers m1 LoadValueReg
                           else registers m1 (i_rt i))
      in case i_opCode i of
        OP_LUI \<Rightarrow> next (set_reg m (i_rt i) (push_bit 16 extra))
      | OP_LW \<Rightarrow>
          (let tmp = rs + extra in
           if tmp AND 0x3 \<noteq> 0 then trap h AddressErrorException tmp m
           else loading big h tmp 4 m (\<lambda>value m1. Inr (Advance m1 (i_rt i) value pcAfter)))
      | OP_LWL \<Rightarrow>
          (let tmp = rs + extra in
           bindE (assertE (tmp AND 0x3 = 0)) (\<lambda>_.
           loading big h tmp 4 m (\<lambda>value m1.
           (let old = merged m1;
                nextLoadValue =
                  (if tmp AND 0x3 = 0 then value
                   else if tmp AND 0x3 = 1 then (old AND 0xff) OR push_bit 8 value
                   else if tmp AND 0x3 = 2 then (old AND 0xffff) OR push_bit 16 value
                   else (old AND 0xffffff) OR push_bit 24 value)
            in Inr (Advance m1 (i_rt i) nextLoadValue pcAfter)))))
      | OP_LWR \<Rightarrow>
          (let tmp = rs + extra in
           bindE (assertE (tmp AND 0x3 = 0)) (\<lambda>_.
           loading big h tmp 4 m (\<lambda>value m1.
           (let old = merged m1;
                nextLoadValue =
                  (if tmp AND 0x3 = 0 then (old AND 0xffffff00) OR (drop_bit 24 value AND 0xff)
                   else if tmp AND 0x3 = 1 then (old AND 0xffff0000) OR (drop_bit 16 value AND 0xffff)
                   else if tmp AND 0x3 = 2 then (old AND 0xff000000) OR (drop_bit 8 value AND 0xffffff)
                   else value)
            in Inr (Advance m1 (i_rt i) nextLoadValue pcAfter)))))
      | OP_MFHI \<Rightarrow> next (set_reg m (i_rd i) (registers m HiReg))
      | OP_MFLO \<Rightarrow> next (set_reg m (i_rd i) (registers m LoReg))
      | OP_MTHI \<Rightarrow> next (set_reg m HiReg rs)
      | OP_MTLO \<Rightarrow> next (set_reg m LoReg rs)
      | OP_MULT \<Rightarrow> (let (hi, lo) = Mult rs rt True in next (set_reg (set_reg m HiReg hi) LoReg lo))
      | OP_MULTU \<Rightarrow> (let (hi, lo) = Mult rs rt False in next (set_reg (set_reg m HiReg hi) LoReg lo))
      | _ \<Rightarrow> exec_nor_srlv big h i pcAfter m)"

text \<open>DIV to LHU. Signed division truncates; the most negative number by -1 traps the host.\<close>

definition exec_div_lhu ::
  "bool \<Rightarrow> 'a machine_scheme handler \<Rightarrow> instruction \<Rightarrow> u32 \<Rightarrow> 'a machine_scheme
   \<Rightarrow> 'a machine_scheme outcome result"
where
  "exec_div_lhu big h i pcAfter m =
     (let rs = registers m (i_rs i); rt = registers m (i_rt i); extra = i_extra i;
          next = (\<lambda>m. Inr (Advance m 0 0 pcAfter));
          link = set_reg m RetAddrReg (registers m NextPCReg + 4)
      in case i_opCode i of
        OP_DIV \<Rightarrow>
          (if rt = 0 then next (set_reg (set_reg m LoReg 0) HiReg 0)
           else if rs = SIGN_BIT \<and> rt = - 1 then Inl Undefined_behaviour
           else next (set_reg (set_reg m LoReg (word_of_int (sint rs sdiv sint rt)))
                  HiReg (word_of_int (sint rs smod sint rt))))
      | OP_DIVU \<Rightarrow>
          (if rt = 0 then next (set_reg (set_reg m LoReg 0) HiReg 0)
           else next (set_reg (set_reg m LoReg (rs div rt)) HiReg (rs mod rt)))
      | OP_JAL \<Rightarrow> Inr (Advance link 0 0 ((pcAfter AND 0xf0000000) OR IndexToAddr extra))
      | OP_J \<Rightarrow> Inr (Advance m 0 0 ((pcAfter AND 0xf0000000) OR IndexToAddr extra))
      | OP_JALR \<Rightarrow>
          (let m1 = set_reg m (i_rd i) (registers m NextPCReg + 4)
           in Inr (Advance m1 0 0 (registers m1 (i_rs i))))
      | OP_JR \<Rightarrow> Inr (Advance m 0 0 rs)
      | OP_LB \<Rightarrow>
          loading big h (rs + extra) 1 m (\<lambda>value m1.
            Inr (Advance m1 (i_rt i)
              (if value AND 0x80 \<noteq> 0 then value OR 0xffffff00 else value AND 0xff) pcAfter))
      | OP_LBU \<Rightarrow>
          loading big h (rs + extra) 1 m (\<lambda>value m1.
            Inr (Advance m1 (i_rt i) (value AND 0xff) pcAfter))
      | OP_LH \<Rightarrow>
          (let tmp = rs + extra in
           if tmp AND 0x1 \<noteq> 0 then trap h AddressErrorException tmp m
           else loading big h tmp 2 m (\<lambda>value m1.
             Inr (Advance m1 (i_rt i)
               (if value AND 0x8000 \<noteq> 0 then value OR 0xffff0000 else value AND 0xffff) pcAfter)))
      | OP_LHU \<Rightarrow>
          (let tmp = rs + extra in
           if tmp AND 0x1 \<noteq> 0 then trap h AddressErrorException tmp m
           else loading big h tmp 2 m (\<lambda>value m1.
             Inr (Advance m1 (i_rt i) (value AND 0xffff) pcAfter)))
      | _ \<Rightarrow> exec_lui_multu big h i pcAfter m)"

text \<open>ADD to BNE.\<close>

definition execute ::
  "bool \<Rightarrow> 'a machine_scheme handler \<Rightarrow> instruction \<Rightarrow> u32 \<Rightarrow> 'a machine_scheme
   \<Rightarrow> 'a machine_scheme outcome result"
where
  "execute big h i pcAfter m =
     (let rs = registers m (i_rs i); rt = registers m (i_rt i); extra = i_extra i;
          next = (\<lambda>m. Inr (Advance m 0 0 pcAfter));
          branch = (\<lambda>c m. Inr (Advance m 0 0
            (if c then registers m NextPCReg + IndexToAddr extra else pcAfter)));
          link = set_reg m RetAddrReg (registers m NextPCReg + 4)
      in case i_opCode i of
        OP_ADD \<Rightarrow>
          (let sum = rs + rt in
           if \<not> ((rs XOR rt) AND SIGN_BIT \<noteq> 0) \<and> (rs XOR sum) AND SIGN_BIT \<noteq> 0
           then trap h OverflowException 0 m
           else next (set_reg m (i_rd i) sum))
      | OP_ADDI \<Rightarrow>
          (let sum = rs + extra in
           if \<not> ((rs XOR extra) AND SIGN_BIT \<noteq> 0) \<and> (extra XOR sum) AND SIGN_BIT \<noteq> 0
           then trap h OverflowException 0 m
           else next (set_reg m (i_rt i) sum))
      | OP_ADDIU \<Rightarrow> next (set_reg m (i_rt i) (rs + extra))
      | OP_ADDU \<Rightarrow> next (set_reg m (i_rd i) (rs + rt))
      | OP_AND \<Rightarrow> next (set_reg m (i_rd i) (rs AND rt))
      | OP_ANDI \<Rightarrow> next (set_reg m (i_rt i) (rs AND (extra AND 0xffff)))
      | OP_BEQ \<Rightarrow> branch (rs = rt) m
      | OP_BGEZAL \<Rightarrow> branch (\<not> (registers link (i_rs i) AND SIGN_BIT \<noteq> 0)) link
      | OP_BGEZ \<Rightarrow> branch (\<not> (rs AND SIGN_BIT \<noteq> 0)) m
      | OP_BGTZ \<Rightarrow> branch (sint rs > 0) m
      | OP_BLEZ \<Rightarrow> branch (sint rs \<le> 0) m
      | OP_BLTZAL \<Rightarrow> branch (registers link (i_rs i) AND SIGN_BIT \<noteq> 0) link
      | OP_BLTZ \<Rightarrow> branch (rs AND SIGN_BIT \<noteq> 0) m
      | OP_BNE \<Rightarrow> branch (rs \<noteq> rt) m
      | _ \<Rightarrow> exec_div_lhu big h i pcAfter m)"

section \<open>One instruction\<close>

definition finish_instruction ::
  "nat \<Rightarrow> u32 \<Rightarrow> u32 \<Rightarrow> 'a machine_scheme \<Rightarrow> 'a machine_scheme result"
where
  "finish_instruction nextLoadReg nextLoadValue pcAfter m =
     bindE (DelayedLoad nextLoadReg nextLoadValue m) (\<lambda>m1.
       (let m2 = set_reg m1 PrevPCReg (registers m1 PCReg);
            m3 = set_reg m2 PCReg (registers m2 NextPCReg)
        in Inr (set_reg m3 NextPCReg pcAfter)))"

definition OneInstruction ::
  "bool \<Rightarrow> 'a machine_scheme handler \<Rightarrow> 'a machine_scheme \<Rightarrow> 'a machine_scheme result"
where
  "OneInstruction big h m =
     bindE (ReadMem big h (registers m PCReg) 4 m) (\<lambda>(r, m1). case r of
         None \<Rightarrow> Inr m1
       | Some raw \<Rightarrow>
           bindE (execute big h (Decode raw) (registers m1 NextPCReg + 4) m1) (\<lambda>out. case out of
               Returned m2 \<Rightarrow> Inr m2
             | Advance m2 nextLoadReg nextLoadValue pcAfter \<Rightarrow>
                 finish_instruction nextLoadReg nextLoadValue pcAfter m2))"

text \<open>
  The loop of \<open>Machine::Run\<close>, which never returns: \<open>n\<close> turns of it, with the kernel's
  \<open>OneTick\<close> as an argument.
\<close>

fun Run :: "bool \<Rightarrow> 'a machine_scheme handler \<Rightarrow> ('a machine_scheme \<Rightarrow> 'a machine_scheme result)
  \<Rightarrow> nat \<Rightarrow> 'a machine_scheme \<Rightarrow> 'a machine_scheme result" where
  "Run big h tick 0 m = Inr m"
| "Run big h tick (Suc n) m =
     bindE (OneInstruction big h m) (\<lambda>m1. bindE (tick m1) (Run big h tick n))"

end
