(* ===== verification/MipsSafety.thy ===== *)
theory MipsSafety
  imports MipsSim
begin

text \<open>
  What the instruction simulator promises the kernel: the invariant of the register file, the
  two ways in which a user instruction can stop the host, exact overflow traps, delayed loads
  and branch delay slots, and two instructions that do not compute what their names say.
\<close>

unbundle bit_operations_syntax

section \<open>The machine between two instructions\<close>

definition regs_ok :: "'a machine_scheme \<Rightarrow> bool" where
  "regs_ok m \<longleftrightarrow> registers m 0 = 0 \<and> unat (registers m LoadReg) < NumGPRegs"

definition cpu_wf :: "'a machine_scheme \<Rightarrow> bool" where
  "cpu_wf m \<longleftrightarrow> mmu_wf m \<and> regs_ok m"

text \<open>A kernel whose exception handler always returns, to a machine of the same kind.\<close>

definition handler_ok :: "'a machine_scheme handler \<Rightarrow> bool" where
  "handler_ok h \<longleftrightarrow> (\<forall>e m. cpu_wf m \<longrightarrow> (\<exists>m'. h e m = Inr m' \<and> cpu_wf m'))"

text \<open>The instructions that stop the host: an unaligned LWL, LWR, SWL or SWR fails an
  \<open>ASSERT\<close>, and the most negative number divided by -1 is an arithmetic trap.\<close>

definition host_fault :: "instruction \<Rightarrow> 'a machine_scheme \<Rightarrow> bool" where
  "host_fault i m \<longleftrightarrow>
     (i_opCode i \<in> {OP_LWL, OP_LWR, OP_SWL, OP_SWR}
        \<and> (registers m (i_rs i) + i_extra i) AND 0x3 \<noteq> 0)
     \<or> (i_opCode i = OP_DIV \<and> registers m (i_rs i) = SIGN_BIT \<and> registers m (i_rt i) = - 1)"

fun good :: "'a machine_scheme outcome result \<Rightarrow> bool" where
  "good (Inr (Advance m n v pc)) \<longleftrightarrow>
     mmu_wf m \<and> unat (registers m LoadReg) < NumGPRegs \<and> n < NumGPRegs"
| "good (Inr (Returned m)) \<longleftrightarrow> cpu_wf m"
| "good (Inl e) \<longleftrightarrow> False"

lemma mmu_wf_regs [simp]: "mmu_wf (m\<lparr>registers := r\<rparr>) = mmu_wf m"
  by (rule mmu_wf_cong) simp_all

lemma mmu_wf_status [simp]: "mmu_wf (m\<lparr>status := s\<rparr>) = mmu_wf m"
  by (rule mmu_wf_cong) simp_all

lemma mmu_wf_touch [simp]: "mmu_wf (touch pa m) = mmu_wf m"
  by (rule mmu_wf_cong) (simp_all add: touch_def)

lemma mmu_wf_mem [simp]: "mmu_wf (m\<lparr>mainMemory := x\<rparr>) = mmu_wf m"
  by (rule mmu_wf_cong) simp_all

lemma registers_touch [simp]: "registers (touch pa m) = registers m"
  by (simp add: touch_def)

lemma cpu_wf_status [simp]: "cpu_wf (m\<lparr>status := s\<rparr>) = cpu_wf m"
  by (simp add: cpu_wf_def regs_ok_def)

lemma DelayedLoad_ok:
  assumes "unat (registers m LoadReg) < NumGPRegs"
  shows "DelayedLoad n v m = Inr (m\<lparr>registers :=
    (((registers m)(unat (registers m LoadReg) := registers m LoadValueReg))
       (LoadReg := of_nat n, LoadValueReg := v, 0 := 0))\<rparr>)"
  using assms by (simp add: DelayedLoad_def Let_def)

lemma small_reg: "n < NumGPRegs \<Longrightarrow> unat (of_nat n :: u32) < NumGPRegs"
  by (simp add: unat_of_nat)

lemma DelayedLoad_wf:
  assumes "mmu_wf m" and "unat (registers m LoadReg) < NumGPRegs" and "n < NumGPRegs"
  shows "\<exists>m'. DelayedLoad n v m = Inr m' \<and> cpu_wf m'"
  using assms small_reg[OF assms(3)]
  by (simp add: DelayedLoad_ok cpu_wf_def regs_ok_def)

lemma RaiseException_ok:
  assumes "cpu_wf m" and "handler_ok h"
  shows "\<exists>m'. RaiseException h e bad m = Inr m' \<and> cpu_wf m'"
proof -
  have "mmu_wf (set_reg m BadVAddrReg bad)"
    "unat (registers (set_reg m BadVAddrReg bad) LoadReg) < NumGPRegs"
    using assms(1) by (simp_all add: cpu_wf_def regs_ok_def)
  then obtain m1 where m1: "DelayedLoad 0 0 (set_reg m BadVAddrReg bad) = Inr m1" "cpu_wf m1"
    using DelayedLoad_wf[of "set_reg m BadVAddrReg bad" 0 0] by auto
  then obtain m2 where "h e (m1\<lparr>status := SystemMode\<rparr>) = Inr m2" "cpu_wf m2"
    using assms(2) by (metis handler_ok_def cpu_wf_status)
  then show ?thesis using m1 by (simp add: RaiseException_def)
qed

lemma trap_good: "cpu_wf m \<Longrightarrow> handler_ok h \<Longrightarrow> good (trap h e bad m)"
  using RaiseException_ok[of m h e bad] by (auto simp: trap_def)

text \<open>A load either reads, leaving the registers alone, or has trapped.\<close>

lemma ReadMem_cases:
  assumes "cpu_wf m" and "handler_ok h" and "sz \<in> {1, 2, 4}"
  shows "(\<exists>v m'. ReadMem big h va sz m = Inr (Some v, m') \<and> mmu_wf m' \<and> registers m' = registers m)
    \<or> (\<exists>m'. ReadMem big h va sz m = Inr (None, m') \<and> cpu_wf m')"
proof -
  obtain r m' where t: "translation m va sz False = (r, m')" by (cases "translation m va sz False")
  have wf: "mmu_wf m" using assms(1) by (simp add: cpu_wf_def)
  have f: "mmu_wf m'" "registers m' = registers m" using translation_frame[OF wf t] by simp_all
  show ?thesis
  proof (cases r)
    case (Inr pa)
    then show ?thesis using ReadMem_Some[OF wf assms(3)] t f by auto
  next
    case (Inl e)
    have "cpu_wf m'" using f assms(1) by (simp add: cpu_wf_def regs_ok_def)
    from RaiseException_ok[OF this assms(2), of e va] show ?thesis
      using Inl t Translate_eq[OF wf assms(3), of va False] by (auto simp: ReadMem_def)
  qed
qed

lemma WriteMem_cases:
  assumes "cpu_wf m" and "handler_ok h" and "sz \<in> {1, 2, 4}"
  shows "(\<exists>m'. WriteMem big h va sz v m = Inr (True, m') \<and> mmu_wf m' \<and> registers m' = registers m)
    \<or> (\<exists>m'. WriteMem big h va sz v m = Inr (False, m') \<and> cpu_wf m')"
proof -
  obtain r m' where t: "translation m va sz True = (r, m')" by (cases "translation m va sz True")
  have wf: "mmu_wf m" using assms(1) by (simp add: cpu_wf_def)
  have f: "mmu_wf m'" "registers m' = registers m" using translation_frame[OF wf t] by simp_all
  show ?thesis
  proof (cases r)
    case (Inr pa)
    then show ?thesis using WriteMem_True[OF wf assms(3)] t f by auto
  next
    case (Inl e)
    have "cpu_wf m'" using f assms(1) by (simp add: cpu_wf_def regs_ok_def)
    from RaiseException_ok[OF this assms(2), of e va] show ?thesis
      using Inl t Translate_eq[OF wf assms(3), of va True] by (auto simp: WriteMem_def)
  qed
qed

lemma loading_good:
  assumes "cpu_wf m" and "handler_ok h" and "sz \<in> {1, 2, 4}"
    and "\<And>v m1. cpu_wf m1 \<Longrightarrow> registers m1 = registers m \<Longrightarrow> good (k v m1)"
  shows "good (loading big h va sz m k)"
  using ReadMem_cases[OF assms(1-3), of big va] assms(1,4)
  by (auto simp: loading_def cpu_wf_def regs_ok_def)

lemma storing_good:
  assumes "cpu_wf m" and "handler_ok h" and "sz \<in> {1, 2, 4}"
  shows "good (storing big h va sz v m pc)"
  using WriteMem_cases[OF assms, of big va v] assms(1)
  by (auto simp: storing_def cpu_wf_def regs_ok_def)

lemma set_good:
  "cpu_wf m \<Longrightarrow> R LoadReg = registers m LoadReg \<Longrightarrow> n < NumGPRegs \<Longrightarrow>
     good (Inr (Advance (m\<lparr>registers := R\<rparr>) n v pc))"
  "cpu_wf m \<Longrightarrow> n < NumGPRegs \<Longrightarrow> good (Inr (Advance m n v pc))"
  by (simp_all add: cpu_wf_def regs_ok_def)

lemmas exec_good = trap_good loading_good storing_good set_good

section \<open>Every instruction is good or stops the host\<close>

lemma execute_good:
  assumes "i_opCode i \<notin> {SPECIAL, BCOND, OP_RFE}"
    and "cpu_wf m" and "handler_ok h" and "\<not> host_fault i m" and "i_rd i < 32" and "i_rt i < 32"
  shows "good (execute big h i pc m)"
  using assms
  by (cases "i_opCode i")
    (simp_all add: execute_def exec_div_lhu_def exec_lui_multu_def exec_nor_srlv_def
      exec_sub_xori_def Let_def host_fault_def exec_good split: prod.splits del: good.simps(1,2))

lemma execute_host_fault:
  "host_fault i m \<Longrightarrow> \<exists>e. execute big h i pc m = Inl e"
  unfolding host_fault_def insert_iff empty_iff
  by (elim disjE conjE; simp add: execute_def exec_div_lhu_def exec_lui_multu_def exec_nor_srlv_def
      exec_sub_xori_def Let_def)

lemma finish_instruction_ok:
  assumes "mmu_wf m" and "unat (registers m LoadReg) < NumGPRegs" and "n < NumGPRegs"
  shows "\<exists>m'. finish_instruction n v pc m = Inr m' \<and> cpu_wf m'"
proof -
  obtain m1 where "DelayedLoad n v m = Inr m1" "cpu_wf m1" using DelayedLoad_wf[OF assms] by blast
  then show ?thesis by (simp add: finish_instruction_def Let_def cpu_wf_def regs_ok_def)
qed

text \<open>The instruction that \<open>OneInstruction\<close> is about to execute, if its fetch succeeds.\<close>

definition fetched :: "bool \<Rightarrow> 'a machine_scheme handler \<Rightarrow> 'a machine_scheme \<Rightarrow> instruction option" where
  "fetched big h m = (case ReadMem big h (registers m PCReg) 4 m of
     Inr (Some raw, m1) \<Rightarrow> Some (Decode raw) | _ \<Rightarrow> None)"

section \<open>Properties\<close>


section \<open>Signed overflow\<close>

lemma sign_bit_iff: "(w AND SIGN_BIT \<noteq> 0) = bit (w :: u32) 31"
  using bit_iff_and_push_bit_not_eq_0[of w 31] by simp

lemma bit_31_neg: "bit (w :: u32) 31 \<longleftrightarrow> sint w < 0"
  using bit_last_iff[of w] by simp

lemma sign_xor: "((v XOR w) AND SIGN_BIT \<noteq> 0) = ((sint v < 0) \<noteq> (sint (w :: u32) < 0))"
  unfolding sign_bit_iff bit_31_neg[symmetric] by (simp add: bit_xor_iff)

lemma word_of_sint_bounds: "- 2147483648 \<le> sint (w :: u32) \<and> sint w < 2147483648"
  using sint_greater_eq[of w] sint_less[of w] by simp

lemma sint_wrap:
  assumes "- 4294967296 \<le> s" "s < 4294967296"
  shows "sint (word_of_int s :: u32) =
    (if s < - 2147483648 then s + 4294967296 else if 2147483648 \<le> s then s - 4294967296 else s)"
proof -
  have in_range: "sint (word_of_int r :: u32) = r" if "- 2147483648 \<le> r" "r < 2147483648" for r
  proof -
    have "signed_take_bit 31 r = r" using that by (intro signed_take_bit_int_eq_self) simp_all
    then show ?thesis by (simp add: signed_of_int)
  qed
  have shift: "(word_of_int (s + 4294967296) :: u32) = word_of_int s" "(word_of_int (s - 4294967296) :: u32) = word_of_int s"
    by (simp_all only: word_of_int_eq_iff take_bit_eq_mod) simp_all
  show ?thesis
    using assms in_range[of s] in_range[of "s + 4294967296"] in_range[of "s - 4294967296"]
    unfolding shift by (auto simp del: of_int_add of_int_diff)
qed

lemma add_overflow:
  fixes a b :: u32
  shows "(\<not> ((a XOR b) AND SIGN_BIT \<noteq> 0) \<and> (a XOR (a + b)) AND SIGN_BIT \<noteq> 0)
    \<longleftrightarrow> \<not> (- 2147483648 \<le> sint a + sint b \<and> sint a + sint b < 2147483648)"
proof -
  have "sint (a + b) = sint (word_of_int (sint a + sint b) :: u32)" by simp
  then have e: "sint (a + b) = (if sint a + sint b < - 2147483648 then sint a + sint b + 4294967296
     else if 2147483648 \<le> sint a + sint b then sint a + sint b - 4294967296 else sint a + sint b)"
    using sint_wrap[of "sint a + sint b"] word_of_sint_bounds[of a] word_of_sint_bounds[of b] by simp
  show ?thesis unfolding sign_xor e using word_of_sint_bounds[of a] word_of_sint_bounds[of b] by auto
qed

lemma sub_overflow:
  fixes a b :: u32
  shows "((a XOR b) AND SIGN_BIT \<noteq> 0 \<and> (a XOR (a - b)) AND SIGN_BIT \<noteq> 0)
    \<longleftrightarrow> \<not> (- 2147483648 \<le> sint a - sint b \<and> sint a - sint b < 2147483648)"
proof -
  have "sint (a - b) = sint (word_of_int (sint a - sint b) :: u32)" by simp
  then have e: "sint (a - b) = (if sint a - sint b < - 2147483648 then sint a - sint b + 4294967296
     else if 2147483648 \<le> sint a - sint b then sint a - sint b - 4294967296 else sint a - sint b)"
    using sint_wrap[of "sint a - sint b"] word_of_sint_bounds[of a] word_of_sint_bounds[of b] by simp
  show ?thesis unfolding sign_xor e using word_of_sint_bounds[of a] word_of_sint_bounds[of b] by auto
qed

definition fits_int :: "int \<Rightarrow> bool" where
  "fits_int s \<longleftrightarrow> - 2147483648 \<le> s \<and> s < 2147483648"

lemma addi_overflow:
  fixes a b :: u32
  shows "(\<not> ((a XOR b) AND SIGN_BIT \<noteq> 0) \<and> (b XOR (a + b)) AND SIGN_BIT \<noteq> 0) \<longleftrightarrow>
    \<not> fits_int (sint a + sint b)"
  using add_overflow[of b a] by (simp add: fits_int_def add.commute xor.commute)

text \<open>ADD, ADDI and SUB are exact.  When the sum or difference of the two signed operands
  fits in 32 bits it is what the destination register gets, and otherwise, and only then, the
  instruction traps with an overflow exception and writes no register.\<close>
theorem overflow_trap_exact:
  "execute big h (i\<lparr>i_opCode := OP_ADD\<rparr>) pc m =
     (let s = sint (registers m (i_rs i)) + sint (registers m (i_rt i)) in
      if fits_int s then Inr (Advance (set_reg m (i_rd i) (word_of_int s)) 0 0 pc)
      else trap h OverflowException 0 m)
   \<and> execute big h (i\<lparr>i_opCode := OP_ADDI\<rparr>) pc m =
     (let s = sint (registers m (i_rs i)) + sint (i_extra i) in
      if fits_int s then Inr (Advance (set_reg m (i_rt i) (word_of_int s)) 0 0 pc)
      else trap h OverflowException 0 m)
   \<and> execute big h (i\<lparr>i_opCode := OP_SUB\<rparr>) pc m =
     (let s = sint (registers m (i_rs i)) - sint (registers m (i_rt i)) in
      if fits_int s then Inr (Advance (set_reg m (i_rd i) (word_of_int s)) 0 0 pc)
      else trap h OverflowException 0 m)"
  using add_overflow[of "registers m (i_rs i)" "registers m (i_rt i)"]
    sub_overflow[of "registers m (i_rs i)" "registers m (i_rt i)"]
    addi_overflow[of "registers m (i_rs i)" "i_extra i"]
  by (simp add: execute_def exec_div_lhu_def exec_lui_multu_def exec_nor_srlv_def exec_sub_xori_def
      Let_def fits_int_def)

section \<open>What a completed instruction leaves alone\<close>

definition control_ops :: "opcode set" where
  "control_ops = {OP_BEQ, OP_BGEZ, OP_BGEZAL, OP_BGTZ, OP_BLEZ, OP_BLTZ, OP_BLTZAL, OP_BNE,
     OP_J, OP_JAL, OP_JALR, OP_JR}"

definition load_ops :: "opcode set" where
  "load_ops = {OP_LB, OP_LBU, OP_LH, OP_LHU, OP_LW, OP_LWL, OP_LWR}"

definition store_ops :: "opcode set" where
  "store_ops = {OP_SB, OP_SH, OP_SW, OP_SWL, OP_SWR}"

lemmas op_sets = control_ops_def load_ops_def store_ops_def

definition cpu_regs :: "nat set" where
  "cpu_regs = {PCReg, NextPCReg, PrevPCReg, LoadReg, LoadValueReg}"

fun framed :: "instruction \<Rightarrow> u32 \<Rightarrow> 'a machine_scheme \<Rightarrow> 'a machine_scheme outcome result \<Rightarrow> bool" where
  "framed i pc0 m (Inr (Advance m2 n v pc)) \<longleftrightarrow>
     (\<forall>r \<in> cpu_regs. registers m2 r = registers m r)
     \<and> (i_opCode i \<in> control_ops \<or> pc = pc0)
     \<and> n = (if i_opCode i \<in> load_ops then i_rt i else 0)
     \<and> (i_opCode i \<in> store_ops \<or> mainMemory m2 = mainMemory m)"
| "framed i pc0 m _ \<longleftrightarrow> True"

lemma trap_framed: "framed i pc0 m (trap h e bad m)"
  by (cases "RaiseException h e bad m") (simp_all add: trap_def)

lemma ReadMem_memory:
  assumes "cpu_wf m" and "sz \<in> {1, 2, 4}" and "ReadMem big h va sz m = Inr (Some v, m')"
  shows "mainMemory m' = mainMemory m" and "registers m' = registers m" and "cpu_wf m'"
proof -
  obtain r m1 where t: "translation m va sz False = (r, m1)" by (cases "translation m va sz False")
  have wf: "mmu_wf m" using assms(1) by (simp add: cpu_wf_def)
  have "\<exists>pa. m' = touch pa m1"
  proof (cases r)
    case (Inl e)
    then show ?thesis using assms(3) t Translate_eq[OF wf assms(2), of va False]
      by (auto simp: ReadMem_def bindE_eq_Inr)
  next
    case (Inr pa)
    then show ?thesis using assms(3) t ReadMem_Some[OF wf assms(2), of va pa m1 big h] by auto
  qed
  then show r: "registers m' = registers m" and "mainMemory m' = mainMemory m"
    using translation_frame[OF wf t] by (auto simp: touch_def)
  have "mmu_wf m'" using \<open>\<exists>pa. m' = touch pa m1\<close> translation_frame(1)[OF wf t] by auto
  then show "cpu_wf m'" using r assms(1) by (simp add: cpu_wf_def regs_ok_def)
qed

lemma WriteMem_registers:
  assumes "cpu_wf m" and "sz \<in> {1, 2, 4}" and "WriteMem big h va sz v m = Inr (True, m')"
  shows "registers m' = registers m"
proof -
  have wf: "mmu_wf m" using assms(1) by (simp add: cpu_wf_def)
  obtain pa m1 where "translation m va sz True = (Inr pa, m1)"
    "m' = touch (unat pa) (m1\<lparr>mainMemory := stored sz v (unat pa) (mainMemory m)\<rparr>)"
    using translation_step[OF wf assms(2,3)] by blast
  then show ?thesis using translation_frame(2)[OF wf] by simp
qed

lemma loading_framed:
  assumes "cpu_wf m" and "sz \<in> {1, 2, 4}"
    and "\<And>v m1. registers m1 = registers m \<Longrightarrow> mainMemory m1 = mainMemory m \<Longrightarrow> cpu_wf m1 \<Longrightarrow> framed i pc0 m (k v m1)"
  shows "framed i pc0 m (loading big h va sz m k)"
proof (cases "ReadMem big h va sz m")
  case (Inl e)
  then show ?thesis by (simp add: loading_def)
next
  case (Inr q)
  then obtain o1 m1 where r: "ReadMem big h va sz m = Inr (o1, m1)" by (cases q) simp
  show ?thesis
  proof (cases o1)
    case None
    then show ?thesis using r by (simp add: loading_def)
  next
    case (Some v)
    then show ?thesis using r ReadMem_memory[OF assms(1,2), of big h va v m1] assms(3)[of m1 v]
      by (simp add: loading_def)
  qed
qed

lemma storing_framed:
  assumes "cpu_wf m" and "sz \<in> {1, 2, 4}" and "i_opCode i \<in> store_ops" and "registers m0 = registers m"
  shows "framed i pc0 m0 (storing big h va sz v m pc0)"
proof (cases "WriteMem big h va sz v m")
  case (Inr q)
  then show ?thesis using WriteMem_registers[OF assms(1,2), of big h va v "snd q"] assms(3,4)
    by (cases q) (auto simp: storing_def op_sets)
qed (simp add: storing_def)

lemmas exec_framed = trap_framed loading_framed storing_framed

lemma execute_framed:
  assumes "cpu_wf m" and "i_opCode i \<notin> {SPECIAL, BCOND, OP_RFE}" and "i_rd i < 32" and "i_rt i < 32"
  shows "framed i pc m (execute big h i pc m)"
  using assms
  by (cases "i_opCode i")
    (simp_all add: execute_def exec_div_lhu_def exec_lui_multu_def exec_nor_srlv_def cpu_regs_def
      exec_sub_xori_def Let_def exec_framed op_sets bindE_def assertE_def split: prod.splits)

text \<open>Fetch and execution as far as the end of the switch, when it is reached.\<close>

definition step_outcome ::
  "bool \<Rightarrow> 'a machine_scheme handler \<Rightarrow> 'a machine_scheme
   \<Rightarrow> (instruction \<times> 'a machine_scheme \<times> nat \<times> u32 \<times> u32) option"
where
  "step_outcome big h m =
     (case ReadMem big h (registers m PCReg) 4 m of
        Inr (Some raw, m1) \<Rightarrow>
          (case execute big h (Decode raw) (registers m1 NextPCReg + 4) m1 of
             Inr (Advance m2 n v pc) \<Rightarrow> Some (Decode raw, m2, n, v, pc)
           | _ \<Rightarrow> None)
      | _ \<Rightarrow> None)"

lemma step_outcome_SomeE:
  assumes "step_outcome big h m = Some (i, m2, n, v, pc)"
  obtains raw m1 where "ReadMem big h (registers m PCReg) 4 m = Inr (Some raw, m1)"
    and "i = Decode raw"
    and "execute big h (Decode raw) (registers m1 NextPCReg + 4) m1 = Inr (Advance m2 n v pc)"
  using assms by (auto simp: step_outcome_def split: sum.splits prod.splits option.splits outcome.splits)

text \<open>Completed instructions, branch delay slots and delayed loads. An instruction that
  completes moves NextPC to PC, so that a branch takes effect only after the instruction that
  follows it, and its own target (or, when it is not a branch or jump, NextPC + 4) to NextPC. A
  load only schedules its value; the value that the previous load scheduled is the one that
  reaches the register file now, over whatever this instruction wrote to that register, and
  register 0 stays zero. Only stores change memory.\<close>
theorem completed_instruction:
  assumes "cpu_wf m" and "step_outcome big h m = Some (i, m2, n, v, pc)"
  shows "\<exists>m'. OneInstruction big h m = Inr m'
    \<and> registers m' PCReg = registers m NextPCReg
    \<and> registers m' PrevPCReg = registers m PCReg
    \<and> registers m' NextPCReg = (if i_opCode i \<in> control_ops then pc else registers m NextPCReg + 4)
    \<and> registers m' LoadReg = (if i_opCode i \<in> load_ops then of_nat (i_rt i) else 0)
    \<and> registers m' LoadValueReg = v
    \<and> (\<forall>r < NumGPRegs. registers m' r =
         (if r = 0 then 0 else if r = unat (registers m LoadReg) then registers m LoadValueReg
          else registers m2 r))
    \<and> (i_opCode i \<in> store_ops \<or> mainMemory m' = mainMemory m)"
proof -
  obtain raw m1 where r: "ReadMem big h (registers m PCReg) 4 m = Inr (Some raw, m1)"
    "i = Decode raw"
    "execute big h (Decode raw) (registers m1 NextPCReg + 4) m1 = Inr (Advance m2 n v pc)"
    using step_outcome_SomeE[OF assms(2)] by blast
  have m1: "mainMemory m1 = mainMemory m" "registers m1 = registers m" "cpu_wf m1"
    using ReadMem_memory[OF assms(1) _ r(1)] by simp_all
  have f: "framed i (registers m1 NextPCReg + 4) m1 (Inr (Advance m2 n v pc))"
    using execute_framed[OF m1(3) Decode_opCode Decode_registers(3,2)] r(2,3) by metis
  have l: "unat (registers m2 LoadReg) < 32" "registers m2 LoadReg = registers m LoadReg"
    using f m1 by (simp_all add: cpu_regs_def cpu_wf_def regs_ok_def)
  show ?thesis
    using r f m1 l
    by (auto simp: OneInstruction_def finish_instruction_def DelayedLoad_ok Let_def cpu_regs_def)
qed

section \<open>Two instructions\<close>

lemma signed_shift_eq:
  assumes "n < 32"
  shows "signed_drop_bit n w = drop_bit n (w :: u32) \<longleftrightarrow> n = 0 \<or> 0 \<le> sint w"
proof (cases "n = 0 \<or> 0 \<le> sint w")
  case True
  then have "n = 0 \<or> \<not> bit w 31" using bit_31_neg[of w] by linarith
  then have "signed_drop_bit n w = drop_bit n w"
  proof
    assume b: "\<not> bit w 31"
    show ?thesis
      by (rule bit_word_eqI) (use b in \<open>auto simp: bit_simps min_def dest: bit_imp_le_length\<close>)
  qed simp
  then show ?thesis using True by simp
next
  case False
  then have b: "bit w 31" "0 < n" using bit_31_neg[of w] by auto
  have "bit (signed_drop_bit n w) 31" "\<not> bit (drop_bit n w) 31"
    using b assms by (auto simp: bit_simps min_def dest: bit_imp_le_length)
  then show ?thesis using False by metis
qed

text \<open>Two instructions of the simulator do not compute what they are named for. OR copies
  its first operand and never reads the second. SRL is the same function as SRA: the shift it
  makes is the logical one for exactly the operands that are not negative (and for a shift by
  0).\<close>
theorem or_and_srl_flaws:
  assumes "unat (i_extra i) < 32"
  shows "execute big h (i\<lparr>i_opCode := OP_OR\<rparr>) pc m
      = Inr (Advance (set_reg m (i_rd i) (registers m (i_rs i))) 0 0 pc)
    \<and> execute big h (i\<lparr>i_opCode := OP_SRL\<rparr>) pc m = execute big h (i\<lparr>i_opCode := OP_SRA\<rparr>) pc m
    \<and> (execute big h (i\<lparr>i_opCode := OP_SRL\<rparr>) pc m
        = Inr (Advance (set_reg m (i_rd i) (drop_bit (unat (i_extra i)) (registers m (i_rt i)))) 0 0 pc)
      \<longleftrightarrow> unat (i_extra i) = 0 \<or> 0 \<le> sint (registers m (i_rt i)))"
proof -
  have "(set_reg m r a = set_reg m r b) = (a = b)" for r a b
    by (metis fun_upd_same machine.select_convs(1) machine.surjective machine.update_convs(1))
  then show ?thesis
    using signed_shift_eq[OF assms, of "registers m (i_rt i)"]
    by (simp add: execute_def exec_div_lhu_def exec_lui_multu_def exec_nor_srlv_def Let_def)
qed

section \<open>A concrete run\<close>

text \<open>Virtual address 256 (frame 5, physical 640) holds \<open>ADDIU r3, r0, 7\<close>.\<close>

definition demo_cpu :: machine where
  "demo_cpu = demo_machine\<lparr>registers := (\<lambda>_. 0)(PCReg := 256, NextPCReg := 260),
     mainMemory := (\<lambda>_. 0)(640 := 7, 642 := 3, 643 := 0x24)\<rparr>"

definition skip_handler :: "'m handler" where
  "skip_handler e m = Inr m"

lemma skip_handler_ok: "handler_ok skip_handler"
  by (simp add: handler_ok_def skip_handler_def)

lemma demo_cpu_wf: "cpu_wf demo_cpu"
proof -
  have "mmu_wf demo_cpu" using demo_wf by (simp add: demo_cpu_def)
  then show ?thesis by (simp add: cpu_wf_def regs_ok_def demo_cpu_def)
qed

lemma demo_decode: "Decode 0x24030007
  = \<lparr>i_value = 0x24030007, i_opCode = OP_ADDIU, i_rs = 0, i_rt = 3, i_rd = 0, i_extra = 7\<rparr>"
  by (simp add: Decode_def opTable_def decode_extra_def)

lemma demo_fetch: "\<exists>m1. ReadMem True skip_handler (registers demo_cpu PCReg) 4 demo_cpu = Inr (Some 0x24030007, m1)"
proof -
  have "fst (translation demo_cpu 256 4 False) = Inr 640"
    by (simp add: translation_def misaligned_def find_entry_def demo_cpu_def demo_machine_def
        demo_entry_def Machine_new_def upt_rec)
  then obtain m' where t: "translation demo_cpu 256 4 False = (Inr 640, m')"
    by (metis fst_conv surj_pair)
  have wf: "mmu_wf demo_cpu" using demo_cpu_wf by (simp add: cpu_wf_def)
  have mem: "mainMemory m' = mainMemory demo_cpu" using translation_frame[OF wf t] by simp
  have "le32 7 0 3 0x24 = (0x24030007 :: u32)" by (simp add: le32_def)
  moreover have "registers demo_cpu PCReg = 256" by (simp add: demo_cpu_def)
  ultimately show ?thesis using ReadMem_Some[OF wf _ t, of True skip_handler] mem
    by (simp add: demo_cpu_def)
qed

lemma demo_completes:
  "\<exists>m2. step_outcome True skip_handler demo_cpu = Some (Decode 0x24030007, m2, 0, 0, 264)
    \<and> registers m2 3 = 7"
proof -
  obtain m1 where r: "ReadMem True skip_handler (registers demo_cpu PCReg) 4 demo_cpu = Inr (Some 0x24030007, m1)"
    using demo_fetch by blast
  then have "registers m1 = registers demo_cpu"
    using ReadMem_memory(2)[OF demo_cpu_wf _ r] by simp
  then show ?thesis using r
    by (simp add: step_outcome_def demo_decode execute_def Let_def demo_cpu_def)
qed


lemma completed_instruction_witness:
  "\<exists>m'. OneInstruction True skip_handler demo_cpu = Inr m' \<and> registers m' 3 = 7
    \<and> registers m' PCReg = 260 \<and> registers m' NextPCReg = 264"
proof -
  obtain m2 where s: "step_outcome True skip_handler demo_cpu = Some (Decode 0x24030007, m2, 0, 0, 264)"
    and v: "registers m2 3 = 7" using demo_completes by blast
  have c: "registers demo_cpu NextPCReg = 260" "registers demo_cpu LoadReg = 0"
    by (simp_all add: demo_cpu_def)
  show ?thesis
    using completed_instruction[OF demo_cpu_wf s] v unfolding c
    by (auto simp: demo_decode op_sets)
qed

lemma or_and_srl_flaws_witness:
  "execute True skip_handler ((Decode 0x24030007)\<lparr>i_opCode := OP_SRL\<rparr>) 8 demo_cpu
    = execute True skip_handler ((Decode 0x24030007)\<lparr>i_opCode := OP_SRA\<rparr>) 8 demo_cpu"
  using or_and_srl_flaws[of "Decode 0x24030007" True skip_handler 8 demo_cpu]
  by (simp add: demo_decode)

end
