(* ===== verification/NachosList.thy ===== *)
theory NachosList
  imports Prelude
begin

text \<open>
  \<open>threads/list.cc\<close>: singly linked lists of items with 64-bit sort keys, on an explicit heap of
  list elements. A pointer is a number, 0 is NULL, and reading or writing an element that is not
  allocated is undefined behaviour. The abstract value of a list is the list of its items with
  their keys; every operation of the class refines an operation on such lists.
\<close>

section \<open>Elements and the heap\<close>

record element =
  item :: nat
  key :: int
  nxt :: nat

record heap =
  cells :: "nat \<Rightarrow> element option"
  brk :: nat

record lst =
  l_first :: nat
  l_last :: nat

definition new_element :: "nat \<Rightarrow> int \<Rightarrow> heap \<Rightarrow> nat \<times> heap" where
  "new_element it k h =
     (brk h, \<lparr> cells = (cells h)(brk h \<mapsto> \<lparr>item = it, key = k, nxt = 0\<rparr>), brk = Suc (brk h) \<rparr>)"

definition deref :: "heap \<Rightarrow> nat \<Rightarrow> element result" where
  "deref h p = (case cells h p of None \<Rightarrow> Inl Undefined_behaviour | Some e \<Rightarrow> Inr e)"

definition set_next :: "nat \<Rightarrow> nat \<Rightarrow> heap \<Rightarrow> heap result" where
  "set_next p q h =
     bindE (deref h p) (\<lambda>e. Inr (h\<lparr>cells := (cells h)(p \<mapsto> e\<lparr>nxt := q\<rparr>)\<rparr>))"

section \<open>Operations\<close>

definition List_new :: lst where
  "List_new = \<lparr>l_first = 0, l_last = 0\<rparr>"

definition IsEmpty :: "lst \<Rightarrow> bool" where
  "IsEmpty l \<longleftrightarrow> l_first l = 0"

definition Append :: "nat \<Rightarrow> lst \<Rightarrow> heap \<Rightarrow> (lst \<times> heap) result" where
  "Append it l h =
     (let (e, h1) = new_element it 0 h in
      if IsEmpty l then Inr (\<lparr>l_first = e, l_last = e\<rparr>, h1)
      else bindE (set_next (l_last l) e h1) (\<lambda>h2. Inr (l\<lparr>l_last := e\<rparr>, h2)))"

definition Prepend :: "nat \<Rightarrow> lst \<Rightarrow> heap \<Rightarrow> (lst \<times> heap) result" where
  "Prepend it l h =
     (let (e, h1) = new_element it 0 h in
      if IsEmpty l then Inr (\<lparr>l_first = e, l_last = e\<rparr>, h1)
      else bindE (set_next e (l_first l) h1) (\<lambda>h2. Inr (l\<lparr>l_first := e\<rparr>, h2)))"

text \<open>
  The walk of \<open>SortedInsert\<close>: the element after which to insert, or none when it reaches the
  end. The walk changes nothing, so once it has made more steps than there are elements it is on
  a cycle and never ends; \<open>brk\<close> steps are enough for every list without one.
\<close>

fun sorted_walk :: "nat \<Rightarrow> int \<Rightarrow> nat \<Rightarrow> heap \<Rightarrow> nat option result" where
  "sorted_walk 0 k p h = Inl Diverges"
| "sorted_walk (Suc n) k p h =
     bindE (deref h p) (\<lambda>e.
       if nxt e = 0 then Inr None
       else bindE (deref h (nxt e)) (\<lambda>e2.
         if k < key e2 then Inr (Some p) else sorted_walk n k (nxt e) h))"

definition SortedInsert :: "nat \<Rightarrow> int \<Rightarrow> lst \<Rightarrow> heap \<Rightarrow> (lst \<times> heap) result" where
  "SortedInsert it k l h =
     (let (e, h1) = new_element it k h in
      if IsEmpty l then Inr (\<lparr>l_first = e, l_last = e\<rparr>, h1)
      else
        bindE (deref h1 (l_first l)) (\<lambda>f.
        if k < key f then bindE (set_next e (l_first l) h1) (\<lambda>h2. Inr (l\<lparr>l_first := e\<rparr>, h2))
        else
          bindE (sorted_walk (brk h1) k (l_first l) h1) (\<lambda>r. case r of
              Some p \<Rightarrow>
                bindE (deref h1 p) (\<lambda>ep.
                bindE (set_next e (nxt ep) h1) (\<lambda>h2.
                bindE (set_next p e h2) (\<lambda>h3. Inr (l, h3))))
            | None \<Rightarrow>
                bindE (set_next (l_last l) e h1) (\<lambda>h2. Inr (l\<lparr>l_last := e\<rparr>, h2)))))"

text \<open>The item (NULL for an empty list) and its key, which \<open>SortedRemove\<close> stores through
  \<open>keyPtr\<close>.\<close>

definition SortedRemove :: "lst \<Rightarrow> heap \<Rightarrow> (nat \<times> int option \<times> lst \<times> heap) result" where
  "SortedRemove l h =
     (if IsEmpty l then Inr (0, None, l, h)
      else
        bindE (deref h (l_first l)) (\<lambda>e.
        let l1 = (if l_first l = l_last l then \<lparr>l_first = 0, l_last = 0\<rparr>
                  else l\<lparr>l_first := nxt e\<rparr>)
        in Inr (item e, Some (key e), l1, h\<lparr>cells := (cells h)(l_first l := None)\<rparr>)))"

definition Remove :: "lst \<Rightarrow> heap \<Rightarrow> (nat \<times> lst \<times> heap) result" where
  "Remove l h = bindE (SortedRemove l h) (\<lambda>(it, _, l1, h1). Inr (it, l1, h1))"

text \<open>\<open>Mapcar\<close> calls a function on the items in order: the items it calls it on.\<close>

fun Mapcar_from :: "nat \<Rightarrow> nat \<Rightarrow> heap \<Rightarrow> nat list result" where
  "Mapcar_from 0 p h = (if p = 0 then Inr [] else Inl Diverges)"
| "Mapcar_from (Suc n) p h =
     (if p = 0 then Inr []
      else bindE (deref h p) (\<lambda>e. bindE (Mapcar_from n (nxt e) h) (\<lambda>r. Inr (item e # r))))"

definition Mapcar :: "lst \<Rightarrow> heap \<Rightarrow> nat list result" where
  "Mapcar l h = Mapcar_from (brk h) (l_first l) h"

text \<open>The destructor removes items until one is NULL.\<close>

fun delete_loop :: "nat \<Rightarrow> lst \<Rightarrow> heap \<Rightarrow> (lst \<times> heap) result" where
  "delete_loop 0 l h = Inl Diverges"
| "delete_loop (Suc n) l h =
     bindE (Remove l h) (\<lambda>(it, l1, h1). if it \<noteq> 0 then delete_loop n l1 h1 else Inr (l1, h1))"

definition List_delete :: "lst \<Rightarrow> heap \<Rightarrow> (lst \<times> heap) result" where
  "List_delete l h = delete_loop (Suc (brk h)) l h"

section \<open>The abstract list\<close>

text \<open>Insertion after every element whose key is not larger.\<close>

fun sorted_insert :: "'a \<Rightarrow> int \<Rightarrow> ('a \<times> int) list \<Rightarrow> ('a \<times> int) list" where
  "sorted_insert x k [] = [(x, k)]"
| "sorted_insert x k (y # ys) = (if k < snd y then (x, k) # y # ys else y # sorted_insert x k ys)"

fun chain :: "heap \<Rightarrow> nat \<Rightarrow> nat list \<Rightarrow> bool" where
  "chain h p [] \<longleftrightarrow> p = 0"
| "chain h p (a # as) \<longleftrightarrow> p = a \<and> a \<noteq> 0 \<and> (case cells h a of None \<Rightarrow> False | Some e \<Rightarrow> chain h (nxt e) as)"

definition heap_wf :: "heap \<Rightarrow> bool" where
  "heap_wf h \<longleftrightarrow> 0 < brk h \<and> cells h 0 = None \<and> (\<forall>a \<ge> brk h. cells h a = None)"

definition entry :: "heap \<Rightarrow> nat \<Rightarrow> nat \<times> int" where
  "entry h a = (item (the (cells h a)), key (the (cells h a)))"

definition list_repr :: "heap \<Rightarrow> lst \<Rightarrow> nat list \<Rightarrow> (nat \<times> int) list \<Rightarrow> bool" where
  "list_repr h l as xs \<longleftrightarrow>
     heap_wf h \<and> chain h (l_first l) as \<and> distinct as
     \<and> l_last l = (if as = [] then 0 else last as) \<and> xs = map (entry h) as"

section \<open>Chains\<close>

lemma chain_cong:
  "(\<And>a. a \<in> set as \<Longrightarrow> cells h' a = cells h a) \<Longrightarrow> chain h' p as = chain h p as"
  by (induction "as" arbitrary: p) (auto split: option.splits)

lemma chain_cell: "chain h p as \<Longrightarrow> a \<in> set as \<Longrightarrow> a \<noteq> 0 \<and> (\<exists>e. cells h a = Some e)"
  by (induction "as" arbitrary: p) (auto split: option.splits)

lemma chain_empty: "chain h p as \<Longrightarrow> p = 0 \<longleftrightarrow> as = []"
  by (cases "as") auto

lemma chain_bounds:
  assumes "heap_wf h" and "chain h p as"
  shows "set as \<subseteq> {..<brk h}"
proof
  fix a assume "a \<in> set as"
  then obtain e where "cells h a = Some e" using chain_cell[OF assms(2)] by blast
  then show "a \<in> {..<brk h}" using assms(1) by (cases "a < brk h") (simp_all add: heap_wf_def)
qed

lemma chain_length:
  assumes "heap_wf h" and "chain h p as" and "distinct as"
  shows "length as < brk h"
proof -
  have "set as \<subseteq> {..<brk h} - {0}"
    using chain_bounds[OF assms(1,2)] chain_cell[OF assms(2)] by blast
  then have "card (set as) \<le> card ({..<brk h} - {0})" by (intro card_mono) auto
  moreover have "card ({..<brk h} - {0}) < brk h"
    using assms(1) by (simp add: heap_wf_def card_Diff_singleton_if)
  ultimately show ?thesis using assms(3) by (simp add: distinct_card)
qed

lemma chain_splice:
  "chain h p (as @ z # bs) \<Longrightarrow> distinct (as @ [z]) \<Longrightarrow> cells h z = Some e \<Longrightarrow>
   cells h' = (cells h)(z \<mapsto> e\<lparr>nxt := q\<rparr>) \<Longrightarrow> chain h q cs \<Longrightarrow> z \<notin> set cs \<Longrightarrow>
   chain h' p (as @ z # cs)"
proof (induction "as" arbitrary: p)
  case Nil
  then have "chain h' q cs = chain h q cs" by (intro chain_cong) auto
  then show ?case using Nil by simp
next
  case (Cons a as)
  then show ?case by (auto split: option.splits)
qed

lemma chain_tail: "chain h p (as @ z # bs) \<Longrightarrow> \<exists>e. cells h z = Some e \<and> chain h (nxt e) bs \<and> z \<noteq> 0"
  by (induction "as" arbitrary: p) (auto split: option.splits)

lemma deref_Some: "cells h p = Some e \<Longrightarrow> deref h p = Inr e"
  by (simp add: deref_def)

lemma set_next_Some:
  "cells h p = Some e \<Longrightarrow> set_next p q h = Inr (h\<lparr>cells := (cells h)(p \<mapsto> e\<lparr>nxt := q\<rparr>)\<rparr>)"
  by (simp add: set_next_def deref_def)

text \<open>The element just allocated: fresh, and the rest of the heap as it was.\<close>

lemma new_element_facts:
  assumes "heap_wf h" and "new_element it k h = (e, h1)"
  shows "e = brk h" "e \<noteq> 0" "cells h e = None" "brk h1 = Suc (brk h)" "heap_wf h1"
    "cells h1 = (cells h)(e \<mapsto> \<lparr>item = it, key = k, nxt = 0\<rparr>)"
  using assms by (auto simp: new_element_def heap_wf_def)

lemma new_element_chain:
  assumes "heap_wf h" and "new_element it k h = (e, h1)" and "chain h p as"
  shows "e \<notin> set as" "chain h1 p as" "map (entry h1) as = map (entry h) as" "entry h1 e = (it, k)"
proof -
  note n = new_element_facts[OF assms(1,2)]
  show e: "e \<notin> set as" using chain_cell[OF assms(3)] n(3) by fastforce
  have "\<And>a. a \<in> set as \<Longrightarrow> cells h1 a = cells h a" using e n(6) by (metis fun_upd_other)
  then show "chain h1 p as" using chain_cong[of "as" h1 h p] assms(3) by blast
  show "map (entry h1) as = map (entry h) as" using e n(6) by (auto simp: entry_def)
  show "entry h1 e = (it, k)" using n(6) by (simp add: entry_def)
qed

lemma heap_wf_upd: "heap_wf h \<Longrightarrow> cells h p = Some e \<Longrightarrow> heap_wf (h\<lparr>cells := (cells h)(p \<mapsto> e')\<rparr>)"
proof -
  assume w: "heap_wf h" and c: "cells h p = Some e"
  then have "p \<noteq> 0" "\<not> brk h \<le> p" by (metis heap_wf_def option.distinct(1))+
  then show "heap_wf (h\<lparr>cells := (cells h)(p \<mapsto> e')\<rparr>)" using w by (simp add: heap_wf_def)
qed

lemma entry_upd_next:
  "cells h p = Some e \<Longrightarrow> cells h' = (cells h)(p \<mapsto> e\<lparr>nxt := q\<rparr>) \<Longrightarrow> entry h' = entry h"
  by (rule ext) (auto simp: entry_def)

section \<open>Sorted insertion\<close>

lemma sorted_insert_skip:
  "\<forall>y \<in> set ys. \<not> k < snd y \<Longrightarrow> sorted_insert x k (ys @ zs) = ys @ sorted_insert x k zs"
  by (induction ys) auto

lemma sorted_insert_here: "zs \<noteq> [] \<Longrightarrow> k < snd (hd zs) \<Longrightarrow> sorted_insert x k zs = (x, k) # zs"
  by (cases zs) auto

lemma sorted_walk_finds:
  "chain h a (a # as) \<Longrightarrow> length as < n \<Longrightarrow>
   \<exists>r. sorted_walk n k a h = Inr r \<and>
     (case r of
        None \<Rightarrow> \<forall>b \<in> set as. \<not> k < snd (entry h b)
      | Some z \<Rightarrow> \<exists>us vs. a # as = us @ z # vs \<and> vs \<noteq> [] \<and> k < snd (entry h (hd vs))
          \<and> (\<forall>b \<in> set (tl (us @ [z])). \<not> k < snd (entry h b)))"
proof (induction n arbitrary: a "as")
  case 0
  then show ?case by simp
next
  case (Suc n)
  obtain e where e: "cells h a = Some e" "chain h (nxt e) as" using Suc.prems(1) by (auto split: option.splits)
  show ?case
  proof (cases "as")
    case Nil
    then show ?thesis using e by (simp add: deref_Some)
  next
    case (Cons b bs)
    then obtain e2 where b: "nxt e = b" "b \<noteq> 0" "cells h b = Some e2" "chain h b (b # bs)"
      using e by (auto split: option.splits)
    show ?thesis
    proof (cases "k < key e2")
      case True
      then have "\<exists>us vs. a # as = us @ a # vs \<and> vs \<noteq> [] \<and> k < snd (entry h (hd vs))
          \<and> (\<forall>b \<in> set (tl (us @ [a])). \<not> k < snd (entry h b))"
        using Cons b by (intro exI[of _ "[]"] exI[of _ "as"]) (simp add: entry_def)
      then show ?thesis using True e b by (simp add: deref_Some)
    next
      case False
      obtain r where r: "sorted_walk n k b h = Inr r"
        "case r of None \<Rightarrow> \<forall>c \<in> set bs. \<not> k < snd (entry h c)
         | Some z \<Rightarrow> \<exists>us vs. b # bs = us @ z # vs \<and> vs \<noteq> [] \<and> k < snd (entry h (hd vs))
             \<and> (\<forall>c \<in> set (tl (us @ [z])). \<not> k < snd (entry h c))"
        using Suc.IH[OF b(4)] Suc.prems(2) Cons by auto
      have w: "sorted_walk (Suc n) k a h = Inr r" using False e b r(1) by (simp add: deref_Some)
      have nb: "\<not> k < snd (entry h b)" using False b by (simp add: entry_def)
      show ?thesis
      proof (cases r)
        case None
        then show ?thesis using w r(2) nb Cons by simp
      next
        case (Some z)
        then obtain us vs where u: "b # bs = us @ z # vs" "vs \<noteq> []" "k < snd (entry h (hd vs))"
          "\<forall>c \<in> set (tl (us @ [z])). \<not> k < snd (entry h c)" using r(2) by auto
        have "set (us @ [z]) = insert b (set (tl (us @ [z])))" using u(1) by (cases us) auto
        then have "\<forall>c \<in> set (tl ((a # us) @ [z])). \<not> k < snd (entry h c)" using u(4) nb by auto
        moreover have "a # as = (a # us) @ z # vs" using u(1) Cons by simp
        ultimately show ?thesis unfolding w sum.inject Some using u(2,3)
          by (intro exI[of _ "Some z"] conjI refl) (simp only: option.case, blast)
      qed
    qed
  qed
qed

section \<open>Every operation refines the abstract list\<close>

text \<open>What an operation does outside the list it works on: nothing, but for fresh elements.\<close>

definition others_kept :: "heap \<Rightarrow> nat list \<Rightarrow> heap \<Rightarrow> bool" where
  "others_kept h as h' \<longleftrightarrow> brk h \<le> brk h' \<and> (\<forall>a < brk h. a \<notin> set as \<longrightarrow> cells h' a = cells h a)"

text \<open>The last element of a list may be linked to a fresh one: the step \<open>Append\<close> and
  \<open>SortedInsert\<close> share.\<close>

lemma link_last:
  assumes "list_repr h l as xs" and "as \<noteq> []" and "new_element it k h = (e, h1)"
  shows "\<exists>h2. set_next (l_last l) e h1 = Inr h2
    \<and> list_repr h2 (l\<lparr>l_last := e\<rparr>) (as @ [e]) (xs @ [(it, k)]) \<and> others_kept h as h2"
proof -
  have wf: "heap_wf h" and ch: "chain h (l_first l) as" and d: "distinct as"
    and la: "l_last l = last as" and xs: "xs = map (entry h) as"
    using assms(1,2) by (simp_all add: list_repr_def)
  note f = new_element_facts[OF wf assms(3)] and c = new_element_chain[OF wf assms(3) ch]
  obtain bs z where snoc: "as = bs @ [z]" using assms(2) by (cases "as" rule: rev_cases) auto
  obtain ez where z: "cells h1 z = Some ez" "z \<noteq> 0"
    using chain_tail[of h1 "l_first l" bs z "[]"] c(2) snoc by auto
  define h2 where "h2 = h1\<lparr>cells := (cells h1)(z \<mapsto> ez\<lparr>nxt := e\<rparr>)\<rparr>"
  have "chain h1 e [e]" using f by simp
  then have "chain h2 (l_first l) (bs @ z # [e])"
    using chain_splice[of h1 "l_first l" bs z "[]" ez h2 e "[e]"] c(1,2) d z snoc by (simp add: h2_def)
  moreover have "entry h2 = entry h1" using entry_upd_next[OF z(1)] by (simp add: h2_def)
  ultimately have "list_repr h2 (l\<lparr>l_last := e\<rparr>) (as @ [e]) (xs @ [(it, k)])"
    using heap_wf_upd[OF f(5) z(1)] c d xs snoc by (simp add: list_repr_def h2_def)
  moreover have "set_next (l_last l) e h1 = Inr h2" using set_next_Some[OF z(1)] la snoc by (simp add: h2_def)
  moreover have "others_kept h as h2" using f snoc by (auto simp: others_kept_def h2_def)
  ultimately show ?thesis by blast
qed

lemma Append_refines:
  assumes r: "list_repr h l as xs"
  shows "\<exists>l' h'. Append it l h = Inr (l', h') \<and> list_repr h' l' (as @ [brk h]) (xs @ [(it, 0)])
    \<and> others_kept h as h'"
proof (cases "as = []")
  case True
  then have "IsEmpty l" "xs = []" "heap_wf h" using r by (simp_all add: list_repr_def IsEmpty_def)
  then show ?thesis using True
    by (auto simp: Append_def list_repr_def new_element_def heap_wf_def entry_def others_kept_def)
next
  case False
  obtain e h1 where n: "new_element it 0 h = (e, h1)" by (cases "new_element it 0 h")
  have "\<not> IsEmpty l" "e = brk h"
    using r False chain_empty[of h "l_first l" "as"] n
    by (auto simp: list_repr_def IsEmpty_def new_element_def)
  then show ?thesis using link_last[OF r False n] n by (auto simp: Append_def)
qed

text \<open>Linking a fresh element in front of a chain, and after an element of it.\<close>

lemma link_front:
  assumes "heap_wf h" and "chain h p as" and "distinct as"
    and "new_element it k h = (e, h1)"
  defines "h2 \<equiv> h1\<lparr>cells := (cells h1)(e \<mapsto> \<lparr>item = it, key = k, nxt = p\<rparr>)\<rparr>"
  shows "set_next e p h1 = Inr h2" "chain h2 e (e # as)" "heap_wf h2"
    "map (entry h2) (e # as) = (it, k) # map (entry h) as"
proof -
  note f = new_element_facts[OF assms(1,4)] and c = new_element_chain[OF assms(1,4,2)]
  have e: "cells h1 e = Some \<lparr>item = it, key = k, nxt = 0\<rparr>" using f by simp
  show "set_next e p h1 = Inr h2" using set_next_Some[OF e] by (simp add: h2_def)
  have "entry h2 = entry h1" using entry_upd_next[OF e, of h2 p] by (simp add: h2_def)
  then show "map (entry h2) (e # as) = (it, k) # map (entry h) as" using c by simp
  show "heap_wf h2" using heap_wf_upd[OF f(5) e] by (simp add: h2_def)
  have "\<And>a. a \<in> set as \<Longrightarrow> cells h2 a = cells h1 a" using c(1) by (auto simp: h2_def)
  then have "chain h2 p as" using chain_cong[of "as" h2 h1 p] c(2) by blast
  then show "chain h2 e (e # as)" using f(2) by (simp add: h2_def)
qed

lemma Prepend_refines:
  assumes r: "list_repr h l as xs"
  shows "\<exists>l' h'. Prepend it l h = Inr (l', h') \<and> list_repr h' l' (brk h # as) ((it, 0) # xs)
    \<and> others_kept h as h'"
proof -
  obtain e h1 where n: "new_element it 0 h = (e, h1)" by (cases "new_element it 0 h")
  have wf: "heap_wf h" and ch: "chain h (l_first l) as" and d: "distinct as"
    and la: "l_last l = (if as = [] then 0 else last as)" and xs: "xs = map (entry h) as"
    using r by (simp_all add: list_repr_def)
  note f = new_element_facts[OF wf n] and c = new_element_chain[OF wf n ch]
  note g = link_front[OF wf ch d n]
  show ?thesis
  proof (cases "as")
    case Nil
    then have "IsEmpty l" using ch by (simp add: IsEmpty_def)
    then have "Prepend it l h = Inr (\<lparr>l_first = e, l_last = e\<rparr>, h1)" using n by (simp add: Prepend_def)
    moreover have "list_repr h1 \<lparr>l_first = e, l_last = e\<rparr> [e] [(it, 0)]"
      using f c by (simp add: list_repr_def)
    ultimately show ?thesis using Nil xs f by (auto simp: others_kept_def)
  next
    case (Cons b bs)
    then have "\<not> IsEmpty l" using chain_empty[OF ch] by (simp add: IsEmpty_def)
    then have "Prepend it l h = Inr (l\<lparr>l_first := e\<rparr>,
        h1\<lparr>cells := (cells h1)(e \<mapsto> \<lparr>item = it, key = 0, nxt = l_first l\<rparr>)\<rparr>)"
      using n g(1) by (simp add: Prepend_def)
    then show ?thesis using g f c d la xs Cons by (auto simp: list_repr_def others_kept_def)
  qed
qed

lemma link_after:
  assumes r: "list_repr h l (us @ z # vs) xs" and vs: "vs \<noteq> []" and n: "new_element it k h = (e, h1)"
  shows "\<exists>ez h2 h3. cells h1 z = Some ez \<and> set_next e (nxt ez) h1 = Inr h2 \<and> set_next z e h2 = Inr h3
    \<and> list_repr h3 l (us @ z # e # vs) (map (entry h) (us @ [z]) @ (it, k) # map (entry h) vs)
    \<and> others_kept h (us @ z # vs) h3"
proof -
  have wf: "heap_wf h" and ch: "chain h (l_first l) (us @ z # vs)" and d: "distinct (us @ z # vs)"
    and la: "l_last l = last vs" using r vs by (simp_all add: list_repr_def)
  note f = new_element_facts[OF wf n] and c = new_element_chain[OF wf n ch]
  obtain ez where z: "cells h1 z = Some ez" "chain h1 (nxt ez) vs" "z \<noteq> 0"
    using chain_tail[OF c(2)] by auto
  have ne2: "e \<noteq> z" "e \<notin> set vs" using c(1) by auto
  have ce: "cells h1 e = Some \<lparr>item = it, key = k, nxt = 0\<rparr>" using f by simp
  define h2 where "h2 = h1\<lparr>cells := (cells h1)(e \<mapsto> \<lparr>item = it, key = k, nxt = nxt ez\<rparr>)\<rparr>"
  have s2: "set_next e (nxt ez) h1 = Inr h2" using set_next_Some[OF ce] by (simp add: h2_def)
  have z2: "cells h2 z = Some ez" using z(1) ne2 by (simp add: h2_def)
  define h3 where "h3 = h2\<lparr>cells := (cells h2)(z \<mapsto> ez\<lparr>nxt := e\<rparr>)\<rparr>"
  have s3: "set_next z e h2 = Inr h3" using set_next_Some[OF z2] by (simp add: h3_def)
  have same: "\<And>b. b \<in> set (us @ z # vs) \<Longrightarrow> cells h2 b = cells h1 b" using c(1) by (auto simp: h2_def)
  have ch2: "chain h2 (l_first l) (us @ z # vs)" using chain_cong[OF same] c(2) by blast
  have "chain h2 (nxt ez) vs" using chain_cong[of vs h2 h1] same z(2) by auto
  then have "chain h2 e (e # vs)" using f(2) by (simp add: h2_def)
  then have "chain h3 (l_first l) (us @ z # e # vs)"
    using chain_splice[of h2 "l_first l" us z vs ez h3 e "e # vs"] ch2(1) d z2 ne2 by (simp add: h3_def)
  moreover have "entry h3 = entry h1"
    using entry_upd_next[OF z2, of h3 e] entry_upd_next[OF ce, of h2 "nxt ez"]
    by (simp add: h2_def h3_def)
  moreover have "heap_wf h3" using heap_wf_upd[OF f(5) ce] heap_wf_upd[OF _ z2]
    by (simp add: h2_def h3_def)
  ultimately have "list_repr h3 l (us @ z # e # vs) (map (entry h) (us @ [z]) @ (it, k) # map (entry h) vs)"
    using la d c(1,3,4) vs by (auto simp: list_repr_def)
  moreover have "others_kept h (us @ z # vs) h3" using f by (auto simp: others_kept_def h2_def h3_def)
  ultimately show ?thesis using z(1) s2 s3 by blast
qed

text \<open>Where \<open>sorted_walk\<close> stops is where \<open>sorted_insert\<close> puts the element.\<close>

lemma sorted_walk_inserts:
  assumes "chain h a (a # bs)" and "length bs < n" and "\<not> k < snd (entry h a)"
  shows "\<exists>r. sorted_walk n k a h = Inr r \<and>
    (case r of
       None \<Rightarrow> sorted_insert x k (map (entry h) (a # bs)) = map (entry h) (a # bs) @ [(x, k)]
     | Some z \<Rightarrow> \<exists>us vs. a # bs = us @ z # vs \<and> vs \<noteq> [] \<and>
         sorted_insert x k (map (entry h) (a # bs)) = map (entry h) (us @ [z]) @ (x, k) # map (entry h) vs)"
proof -
  obtain r where w: "sorted_walk n k a h = Inr r"
    "case r of None \<Rightarrow> \<forall>b \<in> set bs. \<not> k < snd (entry h b)
     | Some z \<Rightarrow> \<exists>us vs. a # bs = us @ z # vs \<and> vs \<noteq> [] \<and> k < snd (entry h (hd vs))
         \<and> (\<forall>b \<in> set (tl (us @ [z])). \<not> k < snd (entry h b))"
    using sorted_walk_finds[OF assms(1,2), of k] by blast
  show ?thesis
  proof (cases r)
    case None
    then have "\<forall>y \<in> set (map (entry h) (a # bs)). \<not> k < snd y" using w(2) assms(3) by auto
    then show ?thesis using w(1) None sorted_insert_skip[of "map (entry h) (a # bs)" k x "[]"] by simp
  next
    case (Some z)
    then obtain us vs where u: "a # bs = us @ z # vs" "vs \<noteq> []" "k < snd (entry h (hd vs))"
      "\<forall>b \<in> set (tl (us @ [z])). \<not> k < snd (entry h b)" using w(2) by auto
    have "set (us @ [z]) = insert a (set (tl (us @ [z])))" using u(1) by (cases us) auto
    then have skip: "\<forall>y \<in> set (map (entry h) (us @ [z])). \<not> k < snd y" using u(4) assms(3) by auto
    have "map (entry h) (a # bs) = map (entry h) (us @ [z]) @ map (entry h) vs" using u(1) by simp
    then have "sorted_insert x k (map (entry h) (a # bs)) = map (entry h) (us @ [z]) @ (x, k) # map (entry h) vs"
      using sorted_insert_skip[OF skip, of x "map (entry h) vs"]
        sorted_insert_here[of "map (entry h) vs" k x] u(2,3) by (simp add: hd_map)
    then have "\<exists>us vs. a # bs = us @ z # vs \<and> vs \<noteq> [] \<and>
         sorted_insert x k (map (entry h) (a # bs)) = map (entry h) (us @ [z]) @ (x, k) # map (entry h) vs"
      using u(1,2) by blast
    then show ?thesis using w(1) Some by (intro exI[of _ r]) (simp only: option.case)
  qed
qed

lemma SortedInsert_refines:
  assumes r: "list_repr h l as xs"
  shows "\<exists>l' h' as'. SortedInsert it k l h = Inr (l', h') \<and> list_repr h' l' as' (sorted_insert it k xs)
    \<and> set as' = insert (brk h) (set as) \<and> others_kept h as h'"
proof (cases "as")
  case Nil
  then have "IsEmpty l" "xs = []" using r by (simp_all add: list_repr_def IsEmpty_def)
  then have eq: "SortedInsert it k l h = Inr (\<lparr>l_first = brk h, l_last = brk h\<rparr>, snd (new_element it k h))"
    by (simp add: SortedInsert_def new_element_def)
  have "heap_wf h" using r by (simp add: list_repr_def)
  then have "list_repr (snd (new_element it k h)) \<lparr>l_first = brk h, l_last = brk h\<rparr> [brk h] [(it, k)]"
    by (auto simp: list_repr_def new_element_def heap_wf_def entry_def)
  then show ?thesis using eq Nil \<open>xs = []\<close>
    by (intro exI[of _ "\<lparr>l_first = brk h, l_last = brk h\<rparr>"] exI[of _ "snd (new_element it k h)"]
        exI[of _ "[brk h]"]) (auto simp: others_kept_def new_element_def)
next
  case (Cons a bs)
  obtain e h1 where n: "new_element it k h = (e, h1)" by (cases "new_element it k h")
  have wf: "heap_wf h" and ch: "chain h (l_first l) as" and d: "distinct as"
    and la: "l_last l = last as" and xs: "xs = map (entry h) as"
    using r Cons by (simp_all add: list_repr_def)
  note f = new_element_facts[OF wf n] and c = new_element_chain[OF wf n ch]
  have fa: "l_first l = a" and ne: "\<not> IsEmpty l" using ch Cons by (simp_all add: IsEmpty_def)
  note g = link_front[OF wf ch d n, unfolded fa]
  obtain ea where a: "cells h1 a = Some ea" using c(2) Cons by (auto split: option.splits)
  have ka: "key ea = snd (entry h1 a)" and ex: "map (entry h1) as = xs"
    using a c xs by (simp_all add: entry_def)
  show ?thesis
  proof (cases "k < key ea")
    case True
    define h2 where "h2 = h1\<lparr>cells := (cells h1)(e \<mapsto> \<lparr>item = it, key = k, nxt = a\<rparr>)\<rparr>"
    have eq: "SortedInsert it k l h = Inr (l\<lparr>l_first := e\<rparr>, h2)"
      using ne n fa a True g(1) by (simp add: SortedInsert_def deref_Some h2_def)
    have "sorted_insert it k xs = (it, k) # xs"
      using True ka ex Cons by (intro sorted_insert_here) auto
    then have "list_repr h2 (l\<lparr>l_first := e\<rparr>) (e # as) (sorted_insert it k xs)"
      using g c(1) d la xs Cons by (simp add: list_repr_def h2_def)
    moreover have "others_kept h as h2" using f by (auto simp: others_kept_def h2_def)
    ultimately show ?thesis using eq f(1)
      by (intro exI[of _ "l\<lparr>l_first := e\<rparr>"] exI[of _ h2] exI[of _ "e # as"]) simp
  next
    case False
    have ca: "chain h1 a (a # bs)" "length bs < brk h1"
      using chain_length[OF f(5) c(2) d] c(2) fa Cons by auto
    obtain rr where w: "sorted_walk (brk h1) k a h1 = Inr rr"
      "case rr of None \<Rightarrow> sorted_insert it k xs = xs @ [(it, k)]
       | Some z \<Rightarrow> \<exists>us vs. as = us @ z # vs \<and> vs \<noteq> [] \<and>
           sorted_insert it k xs = map (entry h1) (us @ [z]) @ (it, k) # map (entry h1) vs"
      using sorted_walk_inserts[OF ca, of k it, folded Cons, unfolded ex] False ka by auto
    show ?thesis
    proof (cases rr)
      case None
      obtain h2 where h2: "set_next (l_last l) e h1 = Inr h2"
        "list_repr h2 (l\<lparr>l_last := e\<rparr>) (as @ [e]) (xs @ [(it, k)])" "others_kept h as h2"
        using link_last[OF r _ n] Cons by blast
      have "SortedInsert it k l h = Inr (l\<lparr>l_last := e\<rparr>, h2)"
        using ne n fa a False w(1) None h2(1) by (simp add: SortedInsert_def deref_Some)
      then show ?thesis using h2 w(2) None f(1)
        by (intro exI[of _ "l\<lparr>l_last := e\<rparr>"] exI[of _ h2] exI[of _ "as @ [e]"]) simp
    next
      case (Some z)
      then obtain us vs where u: "as = us @ z # vs" "vs \<noteq> []"
        "sorted_insert it k xs = map (entry h1) (us @ [z]) @ (it, k) # map (entry h1) vs"
        using w(2) by auto
      have same: "map (entry h1) (us @ [z]) = map (entry h) (us @ [z])" "map (entry h1) vs = map (entry h) vs"
        using c(3) u(1) by auto
      obtain ez h2 h3 where t: "cells h1 z = Some ez" "set_next e (nxt ez) h1 = Inr h2"
        "set_next z e h2 = Inr h3" "others_kept h as h3"
        "list_repr h3 l (us @ z # e # vs) (sorted_insert it k xs)"
        using link_after[OF r[unfolded u(1)] u(2) n] unfolding u(3) same u(1)[symmetric] by blast
      have "SortedInsert it k l h = Inr (l, h3)"
        using ne n fa a False w(1) Some t by (simp add: SortedInsert_def deref_Some)
      then show ?thesis using t u(1) f(1)
        by (intro exI[of _ l] exI[of _ h3] exI[of _ "us @ z # e # vs"]) auto
    qed
  qed
qed

lemma SortedRemove_refines:
  assumes r: "list_repr h l as xs"
  shows "case xs of
      [] \<Rightarrow> SortedRemove l h = Inr (0, None, l, h)
    | (x, k) # ys \<Rightarrow> \<exists>l' h'. SortedRemove l h = Inr (x, Some k, l', h')
        \<and> list_repr h' l' (tl as) ys \<and> others_kept h as h'"
proof (cases "as")
  case Nil
  then show ?thesis using r by (simp add: list_repr_def SortedRemove_def IsEmpty_def)
next
  case (Cons a bs)
  have wf: "heap_wf h" and ch: "chain h (l_first l) as" and d: "distinct as"
    and la: "l_last l = last as" and xs: "xs = map (entry h) as"
    using r Cons by (simp_all add: list_repr_def)
  have fa: "l_first l = a" and ne: "\<not> IsEmpty l" using ch Cons by (simp_all add: IsEmpty_def)
  obtain e where e: "cells h a = Some e" "chain h (nxt e) bs" using ch Cons by (auto split: option.splits)
  define h' where "h' = h\<lparr>cells := (cells h)(a := None)\<rparr>"
  define l' where "l' = (if l_first l = l_last l then \<lparr>l_first = 0, l_last = 0\<rparr> else l\<lparr>l_first := nxt e\<rparr>)"
  have keep: "cells h' b = cells h b" if "b \<in> set bs" for b using that d Cons by (auto simp: h'_def)
  have "chain h' (nxt e) bs" using chain_cong[of bs h' h] keep e(2) by blast
  moreover have "a = last as \<longleftrightarrow> bs = []" using d Cons by auto
  ultimately have "list_repr h' l' bs (map (entry h) bs)"
    using fa la wf d Cons keep chain_empty[OF e(2)]
    by (auto simp: list_repr_def l'_def heap_wf_def entry_def h'_def)
  moreover have "SortedRemove l h = Inr (item e, Some (key e), l', h')"
    using ne fa e(1) by (simp add: SortedRemove_def deref_Some l'_def h'_def Let_def)
  moreover have "others_kept h as h'" using Cons by (auto simp: others_kept_def h'_def)
  ultimately show ?thesis using xs Cons e(1) by (auto simp: entry_def)
qed

lemma Remove_refines:
  assumes "list_repr h l as xs"
  shows "case xs of
      [] \<Rightarrow> Remove l h = Inr (0, l, h)
    | (x, k) # ys \<Rightarrow> \<exists>l' h'. Remove l h = Inr (x, l', h')
        \<and> list_repr h' l' (tl as) ys \<and> others_kept h as h'"
  using SortedRemove_refines[OF assms] by (auto simp: Remove_def split: list.splits)

lemma IsEmpty_refines: "list_repr h l as xs \<Longrightarrow> IsEmpty l \<longleftrightarrow> xs = []"
  using chain_empty[of h "l_first l" "as"] by (auto simp: list_repr_def IsEmpty_def)

lemma Mapcar_from_chain:
  "chain h p as \<Longrightarrow> length as \<le> n \<Longrightarrow> Mapcar_from n p h = Inr (map (fst \<circ> entry h) as)"
proof (induction "as" arbitrary: p n)
  case Nil
  then show ?case by (cases n) simp_all
next
  case (Cons a as)
  then obtain e where e: "cells h a = Some e" "chain h (nxt e) as" "p = a" "a \<noteq> 0"
    by (auto split: option.splits)
  then show ?case using Cons.IH[OF e(2)] Cons.prems(2)
    by (cases n) (simp_all add: deref_Some entry_def)
qed

lemma Mapcar_refines: "list_repr h l as xs \<Longrightarrow> Mapcar l h = Inr (map fst xs)"
  using Mapcar_from_chain[of h "l_first l" "as" "brk h"] chain_length[of h "l_first l" "as"]
  by (auto simp: list_repr_def Mapcar_def)

lemma delete_loop_empties:
  "list_repr h l as xs \<Longrightarrow> \<forall>x \<in> set xs. fst x \<noteq> 0 \<Longrightarrow> length xs < n \<Longrightarrow>
   \<exists>l' h'. delete_loop n l h = Inr (l', h') \<and> list_repr h' l' [] []"
proof (induction n arbitrary: h l "as" xs)
  case 0
  then show ?case by simp
next
  case (Suc n)
  show ?case
  proof (cases xs)
    case Nil
    then have "as = []" using Suc.prems(1) by (simp add: list_repr_def)
    then show ?thesis using Remove_refines[OF Suc.prems(1)] Suc.prems(1) Nil by simp
  next
    case (Cons y ys)
    then obtain l1 h1 where r: "Remove l h = Inr (fst y, l1, h1)" "list_repr h1 l1 (tl as) ys"
      using Remove_refines[OF Suc.prems(1)] by (cases y) auto
    then show ?thesis using Suc.IH[OF r(2)] Suc.prems(2,3) Cons by simp
  qed
qed

section \<open>Sorted lists\<close>

lemma set_sorted_insert: "set (sorted_insert x k xs) = insert (x, k) (set xs)"
  by (induction xs) auto

lemma length_sorted_insert: "length (sorted_insert x k xs) = Suc (length xs)"
  by (induction xs) auto

lemma sorted_sorted_insert: "sorted (map snd xs) \<Longrightarrow> sorted (map snd (sorted_insert x k xs))"
  by (induction xs) (auto simp: set_sorted_insert)

lemma filter_sorted_insert:
  "sorted (map snd xs) \<Longrightarrow>
   filter (\<lambda>y. snd y = j) (sorted_insert x k xs)
     = filter (\<lambda>y. snd y = j) xs @ (if j = k then [(x, k)] else [])"
proof (induction xs)
  case (Cons y ys)
  then have "k < snd y \<Longrightarrow> filter (\<lambda>y. snd y = k) ys = []" by (auto simp: filter_empty_conv)
  then show ?case using Cons by auto
qed simp

text \<open>
  What the users of sorted lists rely on: the first element has the least key, insertion keeps
  the list sorted, and elements with equal keys stay in the order of their insertion.
\<close>

locale keyed_queue =
  fixes ins :: "'x \<Rightarrow> int \<Rightarrow> 'q \<Rightarrow> 'q"
    and out :: "'q \<Rightarrow> ('x \<times> int) list"
    and ok :: "'q \<Rightarrow> bool"
  assumes ins_ok: "ok q \<Longrightarrow> ok (ins x k q)"
    and ins_same: "ok q \<Longrightarrow> filter (\<lambda>y. snd y = j) (out (ins x k q))
      = filter (\<lambda>y. snd y = j) (out q) @ (if j = k then [(x, k)] else [])"
    and ok_sorted: "ok q \<Longrightarrow> sorted (map snd (out q))"
begin

definition ins_all :: "('x \<times> int) list \<Rightarrow> 'q \<Rightarrow> 'q" where
  "ins_all xs q = fold (\<lambda>(x, k). ins x k) xs q"

lemma ins_all_ok: "ok q \<Longrightarrow> ok (ins_all xs q)"
  by (induction xs arbitrary: q) (auto simp: ins_all_def ins_ok)

lemma ins_all_stable:
  "ok q \<Longrightarrow> filter (\<lambda>y. snd y = j) (out (ins_all xs q))
     = filter (\<lambda>y. snd y = j) (out q) @ filter (\<lambda>y. snd y = j) xs"
  by (induction xs arbitrary: q) (auto simp: ins_all_def ins_ok ins_same)

lemma out_set: "ok q \<Longrightarrow> set (out (ins x k q)) = insert (x, k) (set (out q))"
proof -
  assume q: "ok q"
  have "y \<in> set (out (ins x k q)) \<longleftrightarrow> y \<in> set (filter (\<lambda>z. snd z = snd y) (out (ins x k q)))" for y
    by simp
  then show ?thesis unfolding ins_same[OF q] by auto
qed

lemma first_least: "ok q \<Longrightarrow> out q = (x, k) # r \<Longrightarrow> (y, j) \<in> set (out q) \<Longrightarrow> k \<le> j"
  using ok_sorted[of q] by auto

end

interpretation sq: keyed_queue sorted_insert "\<lambda>q. q" "\<lambda>q. sorted (map snd q)"
  by unfold_locales (simp_all add: sorted_sorted_insert filter_sorted_insert)

section \<open>Properties\<close>

text \<open>C26: The linked list is a list. On a well-formed heap, each operation of a \<open>List\<close> whose
  elements are \<open>as\<close> and whose value is \<open>xs\<close> returns, dereferences no dangling or NULL
  pointer, and has the effect of the operation on abstract lists: \<open>Append\<close> adds at the end,
  \<open>Prepend\<close> at the front, \<open>SortedInsert\<close> after all keys that are not larger,
  \<open>SortedRemove\<close> takes the first element with its key (NULL from an empty list), and
  \<open>Mapcar\<close> visits the items in order. Elements of other lists are left alone.\<close>
theorem list_refinement:
  assumes "list_repr h l as xs"
  shows "(\<exists>l' h' bs. Append it l h = Inr (l', h') \<and> list_repr h' l' bs (xs @ [(it, 0)]) \<and> others_kept h as h')
    \<and> (\<exists>l' h' bs. Prepend it l h = Inr (l', h') \<and> list_repr h' l' bs ((it, 0) # xs) \<and> others_kept h as h')
    \<and> (\<exists>l' h' bs. SortedInsert it k l h = Inr (l', h') \<and> list_repr h' l' bs (sorted_insert it k xs)
         \<and> others_kept h as h')
    \<and> (\<exists>l' h' bs. SortedRemove l h =
          Inr (case xs of [] \<Rightarrow> 0 | x # _ \<Rightarrow> fst x, case xs of [] \<Rightarrow> None | x # _ \<Rightarrow> Some (snd x), l', h')
         \<and> list_repr h' l' bs (tl xs) \<and> others_kept h as h')
    \<and> Mapcar l h = Inr (map fst xs)
    \<and> (IsEmpty l \<longleftrightarrow> xs = [])"
proof (intro conjI)
  show "\<exists>l' h' bs. SortedRemove l h =
      Inr (case xs of [] \<Rightarrow> 0 | x # _ \<Rightarrow> fst x, case xs of [] \<Rightarrow> None | x # _ \<Rightarrow> Some (snd x), l', h')
    \<and> list_repr h' l' bs (tl xs) \<and> others_kept h as h'"
    using SortedRemove_refines[OF assms] assms
    by (cases xs) (auto simp: others_kept_def)
qed (use Append_refines[OF assms] Prepend_refines[OF assms] SortedInsert_refines[OF assms]
      Mapcar_refines[OF assms] IsEmpty_refines[OF assms] in blast)+

text \<open>Sorted lists are stable priority queues. Inserting any sequence of items with keys
  leaves the list in ascending order of the keys, holding what was there and what was inserted,
  and items with the same key come out in the order in which they went in.\<close>
theorem sorted_insert_stable:
  assumes "sorted (map snd q)"
  shows "let r = fold (\<lambda>(x, k). sorted_insert x k) xs q in
    sorted (map snd r)
    \<and> (\<forall>j. filter (\<lambda>y. snd y = j) r = filter (\<lambda>y. snd y = j) q @ filter (\<lambda>y. snd y = j) xs)"
  using sq.ins_all_ok[OF assms, of xs] sq.ins_all_stable[OF assms]
  unfolding sq.ins_all_def by (simp add: Let_def)

text \<open>The destructor frees every element of a list none of whose items is NULL.\<close>
theorem List_delete_frees:
  assumes "list_repr h l as xs" and "\<forall>x \<in> set xs. fst x \<noteq> 0"
  shows "\<exists>l' h'. List_delete l h = Inr (l', h') \<and> IsEmpty l'"
proof -
  have "length xs < Suc (brk h)"
    using chain_length[of h "l_first l" "as"] assms(1) by (simp add: list_repr_def)
  from delete_loop_empties[OF assms this] show ?thesis
    by (auto simp: List_delete_def dest: IsEmpty_refines)
qed

section \<open>A concrete list\<close>

definition demo_heap :: heap where
  "demo_heap = \<lparr>cells = (\<lambda>_. None)(1 \<mapsto> \<lparr>item = 7, key = 10, nxt = 2\<rparr>, 2 \<mapsto> \<lparr>item = 8, key = 20, nxt = 0\<rparr>), brk = 3\<rparr>"

lemma demo_list: "list_repr demo_heap \<lparr>l_first = 1, l_last = 2\<rparr> [1, 2] [(7, 10), (8, 20)]"
  by (simp add: list_repr_def demo_heap_def heap_wf_def entry_def)

lemma list_refinement_witness:
  "\<exists>l' h' bs. SortedInsert 9 10 \<lparr>l_first = 1, l_last = 2\<rparr> demo_heap = Inr (l', h')
     \<and> list_repr h' l' bs [(7, 10), (9, 10), (8, 20)]"
  using list_refinement[OF demo_list, of 9 10] by auto

lemma sorted_insert_stable_witness:
  "sorted (map snd (fold (\<lambda>(x, k). sorted_insert x k) [(CHR ''a'', 3), (CHR ''b'', 3)] []))"
  using sorted_insert_stable[of "[]" "[(CHR ''a'', 3), (CHR ''b'', 3)]"] by (simp add: Let_def)

lemma List_delete_frees_witness:
  "\<exists>l' h'. List_delete \<lparr>l_first = 1, l_last = 2\<rparr> demo_heap = Inr (l', h') \<and> IsEmpty l'"
  using List_delete_frees[OF demo_list] by simp

end
