(* ===== verification/Interrupt.thy ===== *)
theory Interrupt
  imports MachineMem NachosList
begin

text \<open>
  \<open>machine/interrupt.cc\<close> and \<open>machine/timer.cc\<close>: simulated time, the list of pending
  hardware interrupts, and the loop that fires those that are due. The state extends the machine,
  whose \<open>totalTicks\<close> and \<open>status\<close> it uses; the pending list is the sorted list of
  \<open>NachosList\<close>. The interrupt handlers of the devices are called through the argument
  \<open>call\<close>, and may fault.
\<close>

section \<open>State\<close>

datatype IntStatus = IntOff | IntOn

datatype IntType = TimerInt | DiskInt | ConsoleWriteInt | ConsoleReadInt | NetworkSendInt | NetworkRecvInt

record pending_interrupt =
  p_handler :: nat
  p_arg :: int
  p_when :: int
  p_type :: IntType

record intr = machine +
  level :: IntStatus
  pending :: "(pending_interrupt \<times> int) list"
  inHandler :: bool
  yieldOnReturn :: bool
  idleTicks :: int
  systemTicks :: int
  userTicks :: int

type_synonym 's dispatch = "nat \<Rightarrow> int \<Rightarrow> 's \<Rightarrow> 's result"

abbreviation (input) UserTick :: int where "UserTick \<equiv> 1"
abbreviation (input) SystemTick :: int where "SystemTick \<equiv> 10"
abbreviation (input) TimerTicks :: int where "TimerTicks \<equiv> 100"

definition Interrupt_new :: "machine \<Rightarrow> intr" where
  "Interrupt_new m = machine.extend (m\<lparr>status := SystemMode\<rparr>)
     (intr.fields IntOff [] False False 0 0 0)"

section \<open>Operations\<close>

definition ChangeLevel :: "IntStatus \<Rightarrow> IntStatus \<Rightarrow> 'a intr_scheme \<Rightarrow> 'a intr_scheme" where
  "ChangeLevel old now s = s\<lparr>level := now\<rparr>"

definition Schedule :: "nat \<Rightarrow> int \<Rightarrow> int \<Rightarrow> IntType \<Rightarrow> 'a intr_scheme \<Rightarrow> 'a intr_scheme result" where
  "Schedule handler arg fromNow type s =
     (let when = totalTicks s + fromNow;
          toOccur = \<lparr>p_handler = handler, p_arg = arg, p_when = when, p_type = type\<rparr>
      in bindE (assertE (fromNow > 0)) (\<lambda>_.
         Inr (s\<lparr>pending := sorted_insert toOccur when (pending s)\<rparr>)))"

text \<open>
  \<open>user_program\<close> is the compile-time switch \<open>USER_PROGRAM\<close>: with it, a delayed load of
  the user program is completed before the handler runs.
\<close>

definition CheckIfDue ::
  "bool \<Rightarrow> 'a intr_scheme dispatch \<Rightarrow> bool \<Rightarrow> 'a intr_scheme \<Rightarrow> (bool \<times> 'a intr_scheme) result"
where
  "CheckIfDue user_program call advanceClock s =
     (let old = status s in
      bindE (assertE (level s = IntOff)) (\<lambda>_.
      case pending s of
        [] \<Rightarrow> Inr (False, s)
      | (toOccur, when) # rest \<Rightarrow>
          (let s1 = s\<lparr>pending := rest\<rparr> in
           if \<not> advanceClock \<and> when > totalTicks s then
             Inr (False, s1\<lparr>pending := sorted_insert toOccur when rest\<rparr>)
           else
             (let s2 = (if advanceClock \<and> when > totalTicks s
                        then s1\<lparr>idleTicks := idleTicks s + (when - totalTicks s), totalTicks := when\<rparr>
                        else s1)
              in if status s2 = IdleMode \<and> p_type toOccur = TimerInt \<and> pending s2 = [] then
                   Inr (False, s2\<lparr>pending := sorted_insert toOccur when rest\<rparr>)
                 else
                   bindE (if user_program then DelayedLoad 0 0 s2 else Inr s2) (\<lambda>s3.
                   bindE (call (p_handler toOccur) (p_arg toOccur)
                            (s3\<lparr>inHandler := True, status := SystemMode\<rparr>)) (\<lambda>s4.
                   Inr (True, s4\<lparr>status := old, inHandler := False\<rparr>)))))))"

text \<open>
  \<open>while (CheckIfDue(FALSE)) ;\<close> with a bound on the number of turns. \<open>fire_due_enough\<close>
  shows that one turn more than there are due interrupts is enough.
\<close>

fun fire_due :: "nat \<Rightarrow> bool \<Rightarrow> 'a intr_scheme dispatch \<Rightarrow> 'a intr_scheme \<Rightarrow> 'a intr_scheme result" where
  "fire_due 0 up call s = Inl Diverges"
| "fire_due (Suc n) up call s =
     bindE (CheckIfDue up call False s) (\<lambda>(fired, s1).
       if fired then fire_due n up call s1 else Inr s1)"

definition OneTick ::
  "nat \<Rightarrow> bool \<Rightarrow> 'a intr_scheme dispatch \<Rightarrow> ('a intr_scheme \<Rightarrow> 'a intr_scheme result)
   \<Rightarrow> 'a intr_scheme \<Rightarrow> 'a intr_scheme result"
where
  "OneTick n up call yield s =
     (let old = status s;
          s1 = (if status s = SystemMode
                then s\<lparr>totalTicks := totalTicks s + SystemTick, systemTicks := systemTicks s + SystemTick\<rparr>
                else s\<lparr>totalTicks := totalTicks s + UserTick, userTicks := userTicks s + UserTick\<rparr>)
      in bindE (fire_due n up call (ChangeLevel IntOn IntOff s1)) (\<lambda>s2.
         (let s3 = ChangeLevel IntOff IntOn s2 in
          if yieldOnReturn s3 then
            bindE (yield (s3\<lparr>yieldOnReturn := False, status := SystemMode\<rparr>)) (\<lambda>s4.
            Inr (s4\<lparr>status := old\<rparr>))
          else Inr s3)))"

definition SetLevel ::
  "nat \<Rightarrow> bool \<Rightarrow> 'a intr_scheme dispatch \<Rightarrow> ('a intr_scheme \<Rightarrow> 'a intr_scheme result)
   \<Rightarrow> IntStatus \<Rightarrow> 'a intr_scheme \<Rightarrow> (IntStatus \<times> 'a intr_scheme) result"
where
  "SetLevel n up call yield now s =
     (let old = level s in
      bindE (assertE (now = IntOff \<or> \<not> inHandler s)) (\<lambda>_.
      (let s1 = ChangeLevel old now s in
       if now = IntOn \<and> old = IntOff then bindE (OneTick n up call yield s1) (\<lambda>s2. Inr (old, s2))
       else Inr (old, s1))))"

definition Enable ::
  "nat \<Rightarrow> bool \<Rightarrow> 'a intr_scheme dispatch \<Rightarrow> ('a intr_scheme \<Rightarrow> 'a intr_scheme result)
   \<Rightarrow> 'a intr_scheme \<Rightarrow> 'a intr_scheme result"
where
  "Enable n up call yield s = bindE (SetLevel n up call yield IntOn s) (\<lambda>(_, s1). Inr s1)"

definition YieldOnReturn :: "'a intr_scheme \<Rightarrow> 'a intr_scheme result" where
  "YieldOnReturn s = bindE (assertE (inHandler s)) (\<lambda>_. Inr (s\<lparr>yieldOnReturn := True\<rparr>))"

definition Idle ::
  "nat \<Rightarrow> bool \<Rightarrow> 'a intr_scheme dispatch \<Rightarrow> 'a intr_scheme \<Rightarrow> 'a intr_scheme result"
where
  "Idle n up call s =
     bindE (CheckIfDue up call True (s\<lparr>status := IdleMode\<rparr>)) (\<lambda>(fired, s1).
       if fired then
         bindE (fire_due n up call s1) (\<lambda>s2.
         Inr (s2\<lparr>yieldOnReturn := False, status := SystemMode\<rparr>))
       else Inl Machine_halted)"

text \<open>The timer device: \<open>r\<close> is what \<open>Random\<close> returns, \<open>this\<close> the timer's address.\<close>

definition TimeOfNextInterrupt :: "bool \<Rightarrow> nat \<Rightarrow> int" where
  "TimeOfNextInterrupt randomize r =
     (if randomize then 1 + int r mod (TimerTicks * 2) else TimerTicks)"

definition TimerExpired ::
  "nat \<Rightarrow> int \<Rightarrow> bool \<Rightarrow> nat \<Rightarrow> ('a intr_scheme \<Rightarrow> 'a intr_scheme result)
   \<Rightarrow> 'a intr_scheme \<Rightarrow> 'a intr_scheme result"
where
  "TimerExpired timer_handler this randomize r handler s =
     bindE (Schedule timer_handler this (TimeOfNextInterrupt randomize r) TimerInt s) handler"

text \<open>\<open>TimerInterruptHandler\<close> of \<open>threads/system.cc\<close>.\<close>

definition TimerInterruptHandler :: "'a intr_scheme \<Rightarrow> 'a intr_scheme result" where
  "TimerInterruptHandler s = (if status s \<noteq> IdleMode then YieldOnReturn s else Inr s)"

section \<open>Devices\<close>

definition due :: "'a intr_scheme \<Rightarrow> (pending_interrupt \<times> int) list" where
  "due s = filter (\<lambda>y. snd y \<le> totalTicks s) (pending s)"

text \<open>The state in which handlers run and which they must leave: interrupts off, the pending
  list sorted, and, for user programs, the delayed load naming a general register.\<close>

definition intr_ok :: "bool \<Rightarrow> 'a intr_scheme \<Rightarrow> bool" where
  "intr_ok up s \<longleftrightarrow> level s = IntOff \<and> sorted (map snd (pending s))
     \<and> (up \<longrightarrow> unat (registers s LoadReg) < NumGPRegs)"

text \<open>
  What the interrupt loop needs of the devices: a handler returns, does not move the clock or
  enable interrupts, and schedules interrupts for the future only, taking none away that is due.
\<close>

definition dispatch_ok :: "bool \<Rightarrow> 'a intr_scheme dispatch \<Rightarrow> bool" where
  "dispatch_ok up call \<longleftrightarrow>
     (\<forall>h a s. intr_ok up s \<longrightarrow> inHandler s \<longrightarrow>
        (\<exists>s'. call h a s = Inr s' \<and> intr_ok up s' \<and> totalTicks s' = totalTicks s \<and> due s' = due s))"

lemma intr_ok_simps [simp]:
  "intr_ok up (s\<lparr>status := x\<rparr>) = intr_ok up s"
  "intr_ok up (s\<lparr>inHandler := b\<rparr>) = intr_ok up s"
  "intr_ok up (s\<lparr>idleTicks := t\<rparr>) = intr_ok up s"
  "intr_ok up (s\<lparr>totalTicks := t\<rparr>) = intr_ok up s"
  "due (s\<lparr>status := x\<rparr>) = due s" "due (s\<lparr>inHandler := b\<rparr>) = due s"
  "due (s\<lparr>level := l\<rparr>) = due s"
  by (simp_all add: intr_ok_def due_def)

lemma Schedule_ok:
  assumes "intr_ok up s" and "0 < fromNow"
  shows "\<exists>s'. Schedule h a fromNow t s = Inr s' \<and> intr_ok up s' \<and> due s' = due s
    \<and> s' = s\<lparr>pending := pending s'\<rparr>"
proof -
  let ?when = "totalTicks s + fromNow"
  let ?p = "\<lparr>p_handler = h, p_arg = a, p_when = ?when, p_type = t\<rparr>"
  have srt: "sorted (map snd (pending s))" using assms(1) by (simp add: intr_ok_def)
  have "filter (\<lambda>y. snd y \<le> totalTicks s) (sorted_insert x k q) = filter (\<lambda>y. snd y \<le> totalTicks s) q"
    if "totalTicks s < k" for x :: pending_interrupt and k q
    using that by (induction q) auto
  then have "due (s\<lparr>pending := sorted_insert ?p ?when (pending s)\<rparr>) = due s"
    using assms(2) by (simp add: due_def)
  then show ?thesis using assms sq.ins_ok[OF srt] by (simp add: Schedule_def Let_def intr_ok_def)
qed

lemma DelayedLoad_intr:
  assumes "intr_ok True s"
  shows "\<exists>r. DelayedLoad 0 0 s = Inr (s\<lparr>registers := r\<rparr>) \<and> unat (r LoadReg) < NumGPRegs"
  using assms by (auto simp: DelayedLoad_def intr_ok_def Let_def)

locale devices =
  fixes up :: bool and call :: "'a intr_scheme dispatch"
  assumes ok: "dispatch_ok up call"
begin

text \<open>Firing one interrupt.\<close>

lemma fire_one:
  assumes "intr_ok up s"
  shows "\<exists>s'. bindE (if up then DelayedLoad 0 0 s else Inr s) (\<lambda>s3.
      bindE (call h a (s3\<lparr>inHandler := True, status := SystemMode\<rparr>)) (\<lambda>s4.
      Inr (True, s4\<lparr>status := old, inHandler := False\<rparr>))) = Inr (True, s')
    \<and> intr_ok up s' \<and> totalTicks s' = totalTicks s \<and> due s' = due s \<and> status s' = old"
proof -
  obtain r where r: "(if up then DelayedLoad 0 0 s else Inr s) = Inr (s\<lparr>registers := r\<rparr>)"
    "intr_ok up (s\<lparr>registers := r\<rparr>)"
  proof (cases up)
    case True
    then show ?thesis using that DelayedLoad_intr assms by (auto simp: intr_ok_def)
  next
    case False
    have "s = s\<lparr>registers := registers s\<rparr>" by simp
    then show ?thesis using that[of "registers s"] False assms by (metis (full_types))
  qed
  let ?s = "s\<lparr>registers := r, inHandler := True, status := SystemMode\<rparr>"
  have "intr_ok up ?s" "inHandler ?s" "totalTicks ?s = totalTicks s" "due ?s = due s"
    using r(2) by (simp_all add: due_def)
  then obtain s4 where "call h a ?s = Inr s4" "intr_ok up s4" "totalTicks s4 = totalTicks s" "due s4 = due s"
    using ok unfolding dispatch_ok_def by metis
  then show ?thesis using r(1) by simp
qed

lemma CheckIfDue_now:
  assumes "intr_ok up s"
  shows "\<exists>b s'. CheckIfDue up call False s = Inr (b, s') \<and> intr_ok up s' \<and> totalTicks s' = totalTicks s
    \<and> status s' = status s
    \<and> (if b then due s \<noteq> [] \<and> due s' = tl (due s)
       else due s' = due s \<and> (due s = [] \<or> status s = IdleMode))"
proof (cases "pending s")
  case Nil
  then show ?thesis using assms by (auto simp: CheckIfDue_def intr_ok_def due_def)
next
  case (Cons y rest)
  obtain x k where y: "y = (x, k)" by (cases y)
  have srt: "sorted (map snd rest)" "\<forall>z \<in> set rest. k \<le> snd z"
    using assms Cons y by (auto simp: intr_ok_def)
  have lv: "level s = IntOff" using assms by (simp add: intr_ok_def)
  consider (later) "totalTicks s < k"
    | (idle) "k \<le> totalTicks s" "status s = IdleMode" "p_type x = TimerInt" "rest = []"
    | (fire) "k \<le> totalTicks s" "\<not> (status s = IdleMode \<and> p_type x = TimerInt \<and> rest = [])"
    by fastforce
  then show ?thesis
  proof cases
    case later
    then have n: "due s = []" using srt Cons y by (auto simp: due_def filter_empty_conv)
    have "CheckIfDue up call False s = Inr (False, s\<lparr>pending := sorted_insert x k rest\<rparr>)"
      using later Cons y lv by (simp add: CheckIfDue_def)
    moreover have "due (s\<lparr>pending := sorted_insert x k rest\<rparr>) = []"
      using later srt by (auto simp: due_def filter_empty_conv set_sorted_insert)
    ultimately show ?thesis using n assms sorted_sorted_insert[OF srt(1)] by (auto simp: intr_ok_def)
  next
    case idle
    then have "CheckIfDue up call False s = Inr (False, s\<lparr>pending := pending s\<rparr>)"
      using Cons y lv by (simp add: CheckIfDue_def)
    then show ?thesis using idle assms by auto
  next
    case fire
    let ?s = "s\<lparr>pending := rest\<rparr>"
    have i: "intr_ok up ?s" using assms srt by (simp add: intr_ok_def)
    have d: "due s = (x, k) # due ?s" using fire Cons y by (simp add: due_def)
    obtain s' where f: "bindE (if up then DelayedLoad 0 0 ?s else Inr ?s) (\<lambda>s3.
      bindE (call (p_handler x) (p_arg x) (s3\<lparr>inHandler := True, status := SystemMode\<rparr>)) (\<lambda>s4.
      Inr (True, s4\<lparr>status := status s, inHandler := False\<rparr>))) = Inr (True, s')"
      "intr_ok up s'" "totalTicks s' = totalTicks ?s" "due s' = due ?s" "status s' = status s"
      using fire_one[OF i] by blast
    have "CheckIfDue up call False s = Inr (True, s')"
      using f(1) fire Cons y lv by (auto simp: CheckIfDue_def Let_def)
    then show ?thesis using f(2-5) d by auto
  qed
qed

lemma fire_due_enough:
  "intr_ok up s \<Longrightarrow> length (due s) < n \<Longrightarrow>
   \<exists>s'. fire_due n up call s = Inr s' \<and> intr_ok up s' \<and> totalTicks s' = totalTicks s
     \<and> status s' = status s \<and> (due s' = [] \<or> status s = IdleMode)"
proof (induction n arbitrary: s)
  case 0
  then show ?case by simp
next
  case (Suc n)
  obtain b s1 where c: "CheckIfDue up call False s = Inr (b, s1)" "intr_ok up s1"
    "totalTicks s1 = totalTicks s" "status s1 = status s"
    "if b then due s \<noteq> [] \<and> due s1 = tl (due s) else due s1 = due s \<and> (due s = [] \<or> status s = IdleMode)"
    using CheckIfDue_now[OF Suc.prems(1)] by blast
  show ?case
  proof (cases b)
    case True
    then have "length (due s1) < n" using c(5) Suc.prems(2) by (cases "due s") auto
    then show ?thesis using Suc.IH[OF c(2)] c True by simp
  qed (use c in auto)
qed

text \<open>What one tick does before the context switch it may ask for.\<close>

lemma OneTick_fires:
  assumes "sorted (map snd (pending s))" and "up \<longrightarrow> unat (registers s LoadReg) < NumGPRegs"
    and "status s \<noteq> IdleMode"
  defines "now \<equiv> totalTicks s + (if status s = SystemMode then SystemTick else UserTick)"
  assumes "length (filter (\<lambda>y. snd y \<le> now) (pending s)) < n"
  shows "\<exists>s3. intr_ok up (s3\<lparr>level := IntOff\<rparr>) \<and> totalTicks s3 = now \<and> due s3 = [] \<and> level s3 = IntOn
    \<and> status s3 = status s
    \<and> OneTick n up call yield s =
        (if yieldOnReturn s3 then
           bindE (yield (s3\<lparr>yieldOnReturn := False, status := SystemMode\<rparr>)) (\<lambda>s4.
           Inr (s4\<lparr>status := status s\<rparr>))
         else Inr s3)"
proof -
  define s1 where "s1 = ChangeLevel IntOn IntOff
    (if status s = SystemMode
     then s\<lparr>totalTicks := totalTicks s + SystemTick, systemTicks := systemTicks s + SystemTick\<rparr>
     else s\<lparr>totalTicks := totalTicks s + UserTick, userTicks := userTicks s + UserTick\<rparr>)"
  have "intr_ok up s1" "totalTicks s1 = now" "status s1 = status s"
    "due s1 = filter (\<lambda>y. snd y \<le> now) (pending s)"
    using assms(1,2) by (simp_all add: s1_def ChangeLevel_def intr_ok_def now_def due_def)
  then obtain s2 where f: "fire_due n up call s1 = Inr s2" "intr_ok up s2" "totalTicks s2 = now"
    "status s2 = status s" "due s2 = []"
    using fire_due_enough[of s1 n] assms(3,5) by auto
  let ?s3 = "ChangeLevel IntOff IntOn s2"
  have "intr_ok up (?s3\<lparr>level := IntOff\<rparr>)" using f(2) by (simp add: ChangeLevel_def intr_ok_def)
  moreover have "totalTicks ?s3 = now" "due ?s3 = []" "level ?s3 = IntOn" "status ?s3 = status s"
    using f by (simp_all add: ChangeLevel_def)
  moreover have "OneTick n up call yield s =
      (if yieldOnReturn ?s3 then
         bindE (yield (?s3\<lparr>yieldOnReturn := False, status := SystemMode\<rparr>)) (\<lambda>s4.
         Inr (s4\<lparr>status := status s\<rparr>))
       else Inr ?s3)"
    using f(1) unfolding OneTick_def Let_def s1_def by (simp add: ChangeLevel_def)
  ultimately show ?thesis by blast
qed

text \<open>Idling with an interrupt pending that is not just the timer's last one.\<close>

lemma Idle_advances:
  assumes "intr_ok up s" and "pending s = (x, k) # rest" and "\<not> (p_type x = TimerInt \<and> rest = [])"
    and "length (filter (\<lambda>y. snd y \<le> max (totalTicks s) k) (pending s)) \<le> n"
  shows "\<exists>s'. Idle n up call s = Inr s' \<and> totalTicks s' = max (totalTicks s) k \<and> status s' = SystemMode
    \<and> intr_ok up s'"
proof -
  define s2 where "s2 = (if k > totalTicks s
    then s\<lparr>status := IdleMode, pending := rest, idleTicks := idleTicks s + (k - totalTicks s), totalTicks := k\<rparr>
    else s\<lparr>status := IdleMode, pending := rest\<rparr>)"
  have s2: "intr_ok up s2" "totalTicks s2 = max (totalTicks s) k" "level s = IntOff" "pending s2 = rest"
    using assms(1,2) by (auto simp: s2_def intr_ok_def)
  obtain s' where f: "bindE (if up then DelayedLoad 0 0 s2 else Inr s2) (\<lambda>s3.
      bindE (call (p_handler x) (p_arg x) (s3\<lparr>inHandler := True, status := SystemMode\<rparr>)) (\<lambda>s4.
      Inr (True, s4\<lparr>status := IdleMode, inHandler := False\<rparr>))) = Inr (True, s')"
    "intr_ok up s'" "totalTicks s' = totalTicks s2" "due s' = due s2" "status s' = IdleMode"
    using fire_one[OF s2(1)] by blast
  have c: "CheckIfDue up call True (s\<lparr>status := IdleMode\<rparr>) = Inr (True, s')"
    using f(1) assms(2,3) s2(3) by (auto simp: CheckIfDue_def Let_def s2_def)
  have "length (due s') < n" using f(3,4) s2 assms(2,4) by (simp add: due_def)
  then obtain s3 where "fire_due n up call s' = Inr s3" "intr_ok up s3" "totalTicks s3 = totalTicks s'"
    using fire_due_enough[OF f(2)] by blast
  then show ?thesis using c f(3) s2(2) by (simp add: Idle_def intr_ok_def)
qed

end

section \<open>The timer as the only device\<close>

definition timer_dispatch :: "bool \<Rightarrow> nat \<Rightarrow> 'a intr_scheme dispatch" where
  "timer_dispatch randomize r h a s = TimerExpired h a randomize r TimerInterruptHandler s"

lemma timer_dispatch_ok: "dispatch_ok up (timer_dispatch randomize r)"
  unfolding dispatch_ok_def
proof (intro allI impI)
  fix h a and s :: "'a intr_scheme"
  assume i: "intr_ok up s" "inHandler s"
  have "0 \<le> int r mod (TimerTicks * 2)" by simp
  then have "0 < 1 + int r mod (TimerTicks * 2)" by linarith
  then have "0 < TimeOfNextInterrupt randomize r" by (simp add: TimeOfNextInterrupt_def)
  then obtain s' where s': "Schedule h a (TimeOfNextInterrupt randomize r) TimerInt s = Inr s'"
    "intr_ok up s'" "due s' = due s" "s' = s\<lparr>pending := pending s'\<rparr>"
    using Schedule_ok[OF i(1)] by blast
  have keep: "totalTicks s' = totalTicks s" "inHandler s'"
    using i(2) by (subst s'(4), simp)+
  have "\<exists>s2. TimerInterruptHandler s' = Inr s2 \<and> intr_ok up s2 \<and> totalTicks s2 = totalTicks s' \<and> due s2 = due s'"
    using s'(2) keep(2) by (simp add: TimerInterruptHandler_def YieldOnReturn_def intr_ok_def due_def)
  then show "\<exists>s2. timer_dispatch randomize r h a s = Inr s2 \<and> intr_ok up s2
      \<and> totalTicks s2 = totalTicks s \<and> due s2 = due s"
    using s' keep by (simp add: timer_dispatch_def TimerExpired_def)
qed

interpretation timer: devices up "timer_dispatch randomize r" for up randomize r
  by unfold_locales (rule timer_dispatch_ok)

section \<open>Properties\<close>


text \<open>Idling goes to the next interrupt. When the ready list is empty and an interrupt is
  pending, other than a last one of the timer, \<open>Idle\<close> moves the clock to the time of the
  earliest pending interrupt (never back), fires everything due then, and returns in kernel mode
  with the scheduler free to look again.\<close>
theorem idle_to_next_interrupt:
  assumes "dispatch_ok up call" and "intr_ok up s" and "pending s = (x, k) # rest"
    and "p_type x \<noteq> TimerInt \<or> rest \<noteq> []"
    and "length (filter (\<lambda>y. snd y \<le> max (totalTicks s) k) (pending s)) \<le> n"
  shows "\<exists>s'. Idle n up call s = Inr s' \<and> totalTicks s' = max (totalTicks s) k \<and> status s' = SystemMode
    \<and> sorted (map snd (pending s'))"
  using devices.Idle_advances[OF devices.intro[OF assms(1)] assms(2,3) _ assms(5)] assms(4)
  by (auto simp: intr_ok_def)

text \<open>Idling with nothing but the timer stops the machine. A single pending timer interrupt,
  or none, makes \<open>Idle\<close> halt, whatever the devices do, without calling a handler.\<close>
theorem idle_timer_only_halts:
  "Idle n up call (s\<lparr>level := IntOff, pending := []\<rparr>) = Inl Machine_halted
   \<and> Idle n up call (s\<lparr>level := IntOff, pending := [(\<lparr>p_handler = h, p_arg = a, p_when = w, p_type = TimerInt\<rparr>, k)]\<rparr>)
       = Inl Machine_halted"
  by (simp add: Idle_def CheckIfDue_def Let_def)

text \<open>Interrupts for the same tick do not keep the order in which they were scheduled. A check
  that finds the first pending interrupt not yet due takes it off the list and inserts it again,
  which puts it behind every other interrupt for the same time.\<close>
theorem check_rotates_same_time:
  assumes "level s = IntOff" and "totalTicks s < k"
    and "\<forall>y \<in> set ys. snd y = k" and "\<forall>z \<in> set zs. k < snd z"
  shows "CheckIfDue up call False (s\<lparr>pending := (x, k) # ys @ zs\<rparr>)
    = Inr (False, s\<lparr>pending := ys @ (x, k) # zs\<rparr>)"
proof -
  have "sorted_insert x k (ys @ zs) = ys @ sorted_insert x k zs"
    using assms(3) by (intro sorted_insert_skip) auto
  moreover have "sorted_insert x k zs = (x, k) # zs" using assms(4) by (cases zs) auto
  ultimately show ?thesis using assms(1,2) by (simp add: CheckIfDue_def)
qed

section \<open>A concrete clock\<close>

text \<open>At time 95 in kernel mode, the timer's interrupt is due at 100.\<close>

definition demo_clock :: intr where
  "demo_clock = (Interrupt_new demo_machine)\<lparr>totalTicks := 95,
     pending := [(\<lparr>p_handler = 1, p_arg = 2, p_when = 100, p_type = TimerInt\<rparr>, 100),
                 (\<lparr>p_handler = 3, p_arg = 4, p_when = 250, p_type = DiskInt\<rparr>, 250)]\<rparr>"

lemma demo_clock_facts:
  "pending demo_clock = [(\<lparr>p_handler = 1, p_arg = 2, p_when = 100, p_type = TimerInt\<rparr>, 100),
     (\<lparr>p_handler = 3, p_arg = 4, p_when = 250, p_type = DiskInt\<rparr>, 250)]"
  "totalTicks demo_clock = 95" "status demo_clock = SystemMode" "level demo_clock = IntOff"
  "registers demo_clock LoadReg = 0"
  by (simp_all add: demo_clock_def Interrupt_new_def machine.defs intr.defs demo_machine_def Machine_new_def)


lemma idle_to_next_interrupt_witness:
  "\<exists>s'. Idle 1 True (timer_dispatch False 0) demo_clock = Inr s' \<and> totalTicks s' = 100"
proof -
  have "intr_ok True demo_clock" by (simp add: intr_ok_def demo_clock_facts)
  from idle_to_next_interrupt[OF timer_dispatch_ok this demo_clock_facts(1), of 1 False 0] show ?thesis
    by (auto simp: demo_clock_facts)
qed

lemma check_rotates_same_time_witness:
  "let a = \<lparr>p_handler = 5, p_arg = 0, p_when = 300, p_type = DiskInt\<rparr>;
       b = \<lparr>p_handler = 6, p_arg = 0, p_when = 300, p_type = NetworkSendInt\<rparr>
   in CheckIfDue True (timer_dispatch False 0) False (demo_clock\<lparr>pending := [(a, 300), (b, 300)]\<rparr>)
        = Inr (False, demo_clock\<lparr>pending := [(b, 300), (a, 300)]\<rparr>)"
  using check_rotates_same_time[of demo_clock 300
      "[(\<lparr>p_handler = 6, p_arg = 0, p_when = 300, p_type = NetworkSendInt\<rparr>, 300)]" "[]"]
  by (simp add: demo_clock_facts Let_def)

end
