(* ===== verification/Threads.thy ===== *)
theory Threads
  imports Prelude
begin

text \<open>
  \<open>threads/scheduler.cc\<close>, \<open>threads/thread.cc\<close> and \<open>threads/synch.cc\<close>: kernel threads, the
  ready list, semaphores, locks and condition variables. Every operation of these files runs with
  interrupts disabled, so it is one atomic step up to a \<open>Sleep\<close>, where the thread leaves the
  CPU; \<open>kont\<close> records what it still has to do when \<open>SWITCH\<close> returns to it. Lists of threads
  are the abstract lists of \<open>NachosList\<close>.
\<close>

section \<open>State\<close>

datatype ThreadStatus = JUST_CREATED | RUNNING | READY | BLOCKED

datatype LockState = FREE | BUSY

datatype kont =
    Returned               \<comment> \<open>not inside a blocking operation\<close>
  | After_P nat            \<comment> \<open>the loop of \<open>Semaphore::P\<close> tests the value again\<close>
  | After_Acquire nat      \<comment> \<open>\<open>Lock::Acquire\<close> returns\<close>
  | After_Wait nat nat     \<comment> \<open>\<open>Condition::Wait\<close> acquires its lock again\<close>

record semaphore =
  s_value :: int
  s_queue :: "nat list"

record lock =
  lk_state :: LockState
  lk_owner :: "nat option"
  lk_waiting :: "nat list"

record cond_var =
  cv_lock :: "nat option"
  cv_waiting :: "nat list"

record kern =
  readyList :: "nat list"
  currentThread :: nat
  idle :: bool                        \<comment> \<open>in the loop of \<open>Sleep\<close>, with no thread to run\<close>
  tstatus :: "nat \<Rightarrow> ThreadStatus"
  kont :: "nat \<Rightarrow> kont"
  threadToBeDestroyed :: "nat option"
  sems :: "nat \<Rightarrow> semaphore"
  locks :: "nat \<Rightarrow> lock"
  conds :: "nat \<Rightarrow> cond_var"

definition Semaphore_new :: "int \<Rightarrow> semaphore" where
  "Semaphore_new initialValue = \<lparr>s_value = initialValue, s_queue = []\<rparr>"

definition Lock_new :: lock where
  "Lock_new = \<lparr>lk_state = FREE, lk_owner = None, lk_waiting = []\<rparr>"

definition Condition_new :: cond_var where
  "Condition_new = \<lparr>cv_lock = None, cv_waiting = []\<rparr>"

abbreviation set_status :: "nat \<Rightarrow> ThreadStatus \<Rightarrow> kern \<Rightarrow> kern" where
  "set_status t st k \<equiv> k\<lparr>tstatus := (tstatus k)(t := st)\<rparr>"

abbreviation set_kont :: "nat \<Rightarrow> kont \<Rightarrow> kern \<Rightarrow> kern" where
  "set_kont t c k \<equiv> k\<lparr>kont := (kont k)(t := c)\<rparr>"

abbreviation set_sem :: "nat \<Rightarrow> semaphore \<Rightarrow> kern \<Rightarrow> kern" where
  "set_sem s x k \<equiv> k\<lparr>sems := (sems k)(s := x)\<rparr>"

abbreviation set_lock :: "nat \<Rightarrow> lock \<Rightarrow> kern \<Rightarrow> kern" where
  "set_lock l x k \<equiv> k\<lparr>locks := (locks k)(l := x)\<rparr>"

abbreviation set_cond :: "nat \<Rightarrow> cond_var \<Rightarrow> kern \<Rightarrow> kern" where
  "set_cond c x k \<equiv> k\<lparr>conds := (conds k)(c := x)\<rparr>"

section \<open>The scheduler\<close>

definition ReadyToRun :: "nat \<Rightarrow> kern \<Rightarrow> kern" where
  "ReadyToRun t k = (set_status t READY k)\<lparr>readyList := readyList k @ [t]\<rparr>"

definition FindNextToRun :: "kern \<Rightarrow> nat option \<times> kern" where
  "FindNextToRun k = (case readyList k of [] \<Rightarrow> (None, k) | t # ts \<Rightarrow> (Some t, k\<lparr>readyList := ts\<rparr>))"

text \<open>The thread switched to deletes a finished one, whose destructor asserts that it is not the
  current thread.\<close>

definition Run :: "nat \<Rightarrow> kern \<Rightarrow> kern result" where
  "Run nextThread k =
     (let k1 = (set_status nextThread RUNNING k)\<lparr>currentThread := nextThread, idle := False\<rparr> in
      case threadToBeDestroyed k1 of
        None \<Rightarrow> Inr k1
      | Some d \<Rightarrow> bindE (assertE (d \<noteq> currentThread k1)) (\<lambda>_. Inr (k1\<lparr>threadToBeDestroyed := None\<rparr>)))"

section \<open>Threads\<close>

text \<open>When no thread is ready, the loop of \<open>Sleep\<close> idles until an interrupt makes one so.\<close>

definition look_for_work :: "kern \<Rightarrow> kern result" where
  "look_for_work k = (case FindNextToRun k of
       (None, k1) \<Rightarrow> Inr (k1\<lparr>idle := True\<rparr>)
     | (Some t, k1) \<Rightarrow> Run t k1)"

definition Sleep :: "kern \<Rightarrow> kern result" where
  "Sleep k = look_for_work (set_status (currentThread k) BLOCKED k)"

definition Yield :: "kern \<Rightarrow> kern result" where
  "Yield k = (case FindNextToRun k of
       (None, k1) \<Rightarrow> Inr k1
     | (Some t, k1) \<Rightarrow> Run t (ReadyToRun (currentThread k1) k1))"

definition Finish :: "kern \<Rightarrow> kern result" where
  "Finish k = Sleep (k\<lparr>threadToBeDestroyed := Some (currentThread k)\<rparr>)"

definition Fork :: "nat \<Rightarrow> kern \<Rightarrow> kern result" where
  "Fork t k = Inr (ReadyToRun t k)"

section \<open>Semaphores\<close>

definition P :: "nat \<Rightarrow> kern \<Rightarrow> kern result" where
  "P s k =
     (let x = sems k s; me = currentThread k in
      if s_value x = 0 then
        Sleep (set_kont me (After_P s) (set_sem s (x\<lparr>s_queue := s_queue x @ [me]\<rparr>) k))
      else Inr (set_sem s (x\<lparr>s_value := s_value x - 1\<rparr>) k))"

definition V :: "nat \<Rightarrow> kern \<Rightarrow> kern result" where
  "V s k =
     (let x = sems k s in
      case s_queue x of
        [] \<Rightarrow> Inr (set_sem s (x\<lparr>s_value := s_value x + 1\<rparr>) k)
      | t # ts \<Rightarrow>
          Inr (set_sem s (x\<lparr>s_queue := ts, s_value := s_value x + 1\<rparr>) (ReadyToRun t k)))"

section \<open>Locks\<close>

definition isHeldByCurrentThread :: "nat \<Rightarrow> kern \<Rightarrow> bool" where
  "isHeldByCurrentThread l k \<longleftrightarrow> lk_owner (locks k l) = Some (currentThread k)"

definition Acquire :: "nat \<Rightarrow> kern \<Rightarrow> kern result" where
  "Acquire l k =
     (let x = locks k l; me = currentThread k in
      if isHeldByCurrentThread l k then Inr k
      else if lk_state x = FREE then Inr (set_lock l (x\<lparr>lk_state := BUSY, lk_owner := Some me\<rparr>) k)
      else Sleep (set_kont me (After_Acquire l) (set_lock l (x\<lparr>lk_waiting := lk_waiting x @ [me]\<rparr>) k)))"

definition Release :: "nat \<Rightarrow> kern \<Rightarrow> kern" where
  "Release l k =
     (let x = locks k l in
      if \<not> isHeldByCurrentThread l k then k
      else case lk_waiting x of
        t # ts \<Rightarrow> set_lock l (x\<lparr>lk_waiting := ts, lk_owner := Some t\<rparr>) (ReadyToRun t k)
      | [] \<Rightarrow> set_lock l (x\<lparr>lk_state := FREE, lk_owner := None\<rparr>) k)"

section \<open>Condition variables\<close>

text \<open>The lock argument may be NULL.\<close>

definition Wait :: "nat \<Rightarrow> nat option \<Rightarrow> kern \<Rightarrow> kern result" where
  "Wait c conditionLock k =
     (case conditionLock of
        None \<Rightarrow> Inr k
      | Some l \<Rightarrow>
          (let x = conds k c; me = currentThread k;
               x1 = (if cv_lock x = None then x\<lparr>cv_lock := Some l\<rparr> else x)
           in if cv_lock x1 \<noteq> Some l then Inr (set_cond c x1 k)
              else
                (let k1 = set_cond c (x1\<lparr>cv_waiting := cv_waiting x1 @ [me]\<rparr>) k;
                     k2 = Release l k1
                 in Sleep (set_kont me (After_Wait c l) k2))))"

definition Signal :: "nat \<Rightarrow> nat option \<Rightarrow> kern \<Rightarrow> kern" where
  "Signal c conditionLock k =
     (let x = conds k c in
      case cv_waiting x of
        [] \<Rightarrow> k
      | t # ts \<Rightarrow>
          if cv_lock x \<noteq> conditionLock then k
          else set_cond c (x\<lparr>cv_waiting := ts, cv_lock := (if ts = [] then None else cv_lock x)\<rparr>)
                 (ReadyToRun t k))"

text \<open>
  \<open>while (!waitingThreads->IsEmpty()) Signal(conditionLock)\<close>: a turn that wakes nobody changes
  nothing, so that after as many turns as there were waiters the loop never ends.
\<close>

fun broadcast_loop :: "nat \<Rightarrow> nat \<Rightarrow> nat option \<Rightarrow> kern \<Rightarrow> kern result" where
  "broadcast_loop 0 c l k = (if cv_waiting (conds k c) = [] then Inr k else Inl Diverges)"
| "broadcast_loop (Suc n) c l k =
     (if cv_waiting (conds k c) = [] then Inr k else broadcast_loop n c l (Signal c l k))"

definition Broadcast :: "nat \<Rightarrow> nat option \<Rightarrow> kern \<Rightarrow> kern result" where
  "Broadcast c l k = broadcast_loop (length (cv_waiting (conds k c))) c l k"

section \<open>Steps\<close>

text \<open>What the current thread does after \<open>SWITCH\<close> returned to it inside an operation.\<close>

definition resume :: "kern \<Rightarrow> kern result" where
  "resume k =
     (let me = currentThread k; k1 = set_kont me Returned k in
      case kont k me of
        Returned \<Rightarrow> Inr k
      | After_P s \<Rightarrow> P s k1
      | After_Acquire l \<Rightarrow> Inr k1
      | After_Wait c l \<Rightarrow> Acquire l k1)"

datatype op =
    Op_P nat | Op_V nat | Op_Acquire nat | Op_Release nat | Op_Wait nat "nat option"
  | Op_Signal nat "nat option" | Op_Broadcast nat "nat option" | Op_Yield | Op_Finish | Op_Fork nat

primrec run_op :: "op \<Rightarrow> kern \<Rightarrow> kern result" where
  "run_op (Op_P s) k = P s k"
| "run_op (Op_V s) k = V s k"
| "run_op (Op_Acquire l) k = Acquire l k"
| "run_op (Op_Release l) k = Inr (Release l k)"
| "run_op (Op_Wait c l) k = Wait c l k"
| "run_op (Op_Signal c l) k = Inr (Signal c l k)"
| "run_op (Op_Broadcast c l) k = Broadcast c l k"
| "run_op Op_Yield k = Yield k"
| "run_op Op_Finish k = Finish k"
| "run_op (Op_Fork t) k = Fork t k"

text \<open>
  The running thread starts an operation or goes on with the one it slept in; a device interrupt
  does a \<open>V\<close>, also while the CPU is idle; an idle CPU finds a ready thread. Only a thread just
  created is forked.
\<close>

inductive kstep :: "kern \<Rightarrow> kern \<Rightarrow> bool" where
  op: "\<not> idle k \<Longrightarrow> kont k (currentThread k) = Returned \<Longrightarrow>
       (\<And>t. x = Op_Fork t \<Longrightarrow> tstatus k t = JUST_CREATED) \<Longrightarrow> run_op x k = Inr k' \<Longrightarrow> kstep k k'"
| goes_on: "\<not> idle k \<Longrightarrow> kont k (currentThread k) \<noteq> Returned \<Longrightarrow> resume k = Inr k' \<Longrightarrow> kstep k k'"
| device: "V s k = Inr k' \<Longrightarrow> kstep k k'"
| wakes: "idle k \<Longrightarrow> readyList k \<noteq> [] \<Longrightarrow> look_for_work k = Inr k' \<Longrightarrow> kstep k k'"

inductive_cases kstepE: "kstep k k'"

definition kern_init :: "nat \<Rightarrow> (nat \<Rightarrow> int) \<Rightarrow> kern" where
  "kern_init main vals =
     \<lparr> readyList = [], currentThread = main, idle = False,
       tstatus = (\<lambda>_. JUST_CREATED)(main := RUNNING), kont = (\<lambda>_. Returned), threadToBeDestroyed = None,
       sems = (\<lambda>s. Semaphore_new (vals s)), locks = (\<lambda>_. Lock_new), conds = (\<lambda>_. Condition_new) \<rparr>"

section \<open>The invariant\<close>

definition sched_ok :: "kern \<Rightarrow> bool" where
  "sched_ok k \<longleftrightarrow> distinct (readyList k)
     \<and> (\<forall>t. t \<in> set (readyList k) \<longleftrightarrow> tstatus k t = READY)
     \<and> (\<forall>t. tstatus k t = RUNNING \<longleftrightarrow> t = currentThread k \<and> \<not> idle k)
     \<and> (\<forall>t. tstatus k t = JUST_CREATED \<longrightarrow> kont k t = Returned)
     \<and> (\<forall>d. threadToBeDestroyed k = Some d \<longrightarrow> idle k \<and> tstatus k d = BLOCKED \<and> kont k d = Returned)"

text \<open>The threads that \<open>V\<close> has taken off the queue of a semaphore and that have not yet looked
  at its value again.\<close>

definition woken :: "kern \<Rightarrow> nat \<Rightarrow> nat" where
  "woken k s = length (filter (\<lambda>t. kont k t = After_P s) (readyList k))
     + (if \<not> idle k \<and> kont k (currentThread k) = After_P s then 1 else 0)"

definition sem_ok :: "kern \<Rightarrow> nat \<Rightarrow> bool" where
  "sem_ok k s \<longleftrightarrow> distinct (s_queue (sems k s))
     \<and> (\<forall>t. t \<in> set (s_queue (sems k s)) \<longleftrightarrow> tstatus k t = BLOCKED \<and> kont k t = After_P s)
     \<and> 0 \<le> s_value (sems k s)
     \<and> (s_queue (sems k s) = [] \<or> s_value (sems k s) \<le> int (woken k s))"

definition lock_ok :: "kern \<Rightarrow> nat \<Rightarrow> bool" where
  "lock_ok k l \<longleftrightarrow> distinct (lk_waiting (locks k l))
     \<and> (\<forall>t. t \<in> set (lk_waiting (locks k l)) \<longleftrightarrow> tstatus k t = BLOCKED \<and> kont k t = After_Acquire l)
     \<and> (lk_state (locks k l) = FREE \<longleftrightarrow> lk_owner (locks k l) = None)
     \<and> (lk_owner (locks k l) = None \<longrightarrow> lk_waiting (locks k l) = [])
     \<and> (\<forall>t. kont k t = After_Acquire l \<longrightarrow> (tstatus k t = BLOCKED \<longleftrightarrow> lk_owner (locks k l) \<noteq> Some t))"

definition cond_ok :: "kern \<Rightarrow> nat \<Rightarrow> bool" where
  "cond_ok k c \<longleftrightarrow> distinct (cv_waiting (conds k c))
     \<and> (\<forall>t. t \<in> set (cv_waiting (conds k c)) \<longleftrightarrow> tstatus k t = BLOCKED \<and> (\<exists>l. kont k t = After_Wait c l))
     \<and> (\<forall>t l. kont k t = After_Wait c l \<longrightarrow> tstatus k t = BLOCKED \<longrightarrow> cv_lock (conds k c) = Some l)
     \<and> (cv_lock (conds k c) = None \<longleftrightarrow> cv_waiting (conds k c) = [])"

definition kern_inv :: "kern \<Rightarrow> bool" where
  "kern_inv k \<longleftrightarrow> sched_ok k \<and> (\<forall>s. sem_ok k s) \<and> (\<forall>l. lock_ok k l) \<and> (\<forall>c. cond_ok k c)"

lemmas ok_defs = sched_ok_def sem_ok_def lock_ok_def cond_ok_def woken_def

lemma kern_inv_parts:
  "kern_inv k \<Longrightarrow> sched_ok k" "kern_inv k \<Longrightarrow> sem_ok k s" "kern_inv k \<Longrightarrow> lock_ok k l"
  "kern_inv k \<Longrightarrow> cond_ok k c"
  by (simp_all add: kern_inv_def)

lemma kern_invI:
  "sched_ok k \<Longrightarrow> (\<And>s. sem_ok k s) \<Longrightarrow> (\<And>l. lock_ok k l) \<Longrightarrow> (\<And>c. cond_ok k c) \<Longrightarrow> kern_inv k"
  by (simp add: kern_inv_def)

lemma sched_okD:
  assumes "sched_ok k"
  shows "t \<in> set (readyList k) \<longleftrightarrow> tstatus k t = READY" "distinct (readyList k)"
    "tstatus k t = RUNNING \<longleftrightarrow> t = currentThread k \<and> \<not> idle k"
    "tstatus k t = JUST_CREATED \<Longrightarrow> kont k t = Returned"
    "threadToBeDestroyed k = Some t \<Longrightarrow> idle k \<and> tstatus k t = BLOCKED \<and> kont k t = Returned"
  using assms by (simp_all add: sched_ok_def)

lemma queues_okD:
  "sem_ok k s \<Longrightarrow> t \<in> set (s_queue (sems k s)) \<longleftrightarrow> tstatus k t = BLOCKED \<and> kont k t = After_P s"
  "lock_ok k l \<Longrightarrow> t \<in> set (lk_waiting (locks k l)) \<longleftrightarrow> tstatus k t = BLOCKED \<and> kont k t = After_Acquire l"
  "cond_ok k c \<Longrightarrow> t \<in> set (cv_waiting (conds k c)) \<longleftrightarrow> tstatus k t = BLOCKED \<and> (\<exists>l. kont k t = After_Wait c l)"
  by (simp_all add: sem_ok_def lock_ok_def cond_ok_def)

section \<open>The invariant is kept\<close>

lemma kern_inv_init: "(\<And>s. 0 \<le> vals s) \<Longrightarrow> kern_inv (kern_init main vals)"
  by (simp add: kern_inv_def ok_defs kern_init_def Semaphore_new_def Lock_new_def Condition_new_def)

lemma look_for_work_inv:
  assumes "kern_inv k" and "idle k"
  shows "\<exists>k'. look_for_work k = Inr k' \<and> kern_inv k'"
proof (cases "readyList k")
  case Nil
  have e: "k\<lparr>idle := True\<rparr> = k" using assms(2) by simp
  show ?thesis using Nil assms(1) by (simp add: look_for_work_def FindNextToRun_def e)
next
  case (Cons t ts)
  define k' where "k' = (set_status t RUNNING k)\<lparr>readyList := ts, currentThread := t, idle := False,
    threadToBeDestroyed := None\<rparr>"
  have s: "sched_ok k" by (rule kern_inv_parts(1)[OF assms(1)])
  have t: "tstatus k t = READY" "t \<notin> set ts" "distinct ts" using s Cons by (auto simp: sched_ok_def)
  have "look_for_work k = Inr k'"
  proof (cases "threadToBeDestroyed k")
    case None
    then show ?thesis using Cons by (simp add: look_for_work_def FindNextToRun_def Run_def Let_def k'_def)
  next
    case (Some d)
    then have "d \<noteq> t" using s t(1) by (auto simp: sched_ok_def)
    then show ?thesis using Cons Some
      by (simp add: look_for_work_def FindNextToRun_def Run_def Let_def k'_def)
  qed
  moreover have "kern_inv k'"
  proof (rule kern_invI)
    show "sched_ok k'" using s t Cons assms(2) by (auto simp: sched_ok_def k'_def)
    fix x
    have w: "woken k' x = woken k x" using Cons assms(2) by (simp add: woken_def k'_def)
    show "sem_ok k' x" using kern_inv_parts(2)[OF assms(1), of x] t(1) unfolding sem_ok_def w
      by (auto simp: k'_def)
    show "lock_ok k' x" using kern_inv_parts(3)[OF assms(1), of x] t Cons assms(2)
      by (auto simp: lock_ok_def k'_def)
    show "cond_ok k' x" using kern_inv_parts(4)[OF assms(1), of x] t Cons assms(2)
      by (auto simp: cond_ok_def k'_def)
  qed
  ultimately show ?thesis by blast
qed

lemma Sleep_inv:
  assumes "kern_inv ((set_status (currentThread k) BLOCKED k)\<lparr>idle := True\<rparr>)"
  shows "\<exists>k'. Sleep k = Inr k' \<and> kern_inv k'"
proof -
  have "look_for_work (k1\<lparr>idle := True\<rparr>) = look_for_work k1" for k1
    by (cases "readyList k1")
      (simp_all add: look_for_work_def FindNextToRun_def Run_def Let_def split: option.splits)
  then show ?thesis using look_for_work_inv[OF assms] by (simp add: Sleep_def)
qed

lemma woken_wake:
  "woken (k\<lparr>readyList := readyList k @ [t]\<rparr>) s = woken k s + (if kont k t = After_P s then 1 else 0)"
  by (simp add: woken_def)

text \<open>Taking the first waiter off a queue and making it ready.\<close>

lemma sched_ok_cong [simp]:
  "sched_ok (k\<lparr>sems := x\<rparr>) = sched_ok k" "sched_ok (k\<lparr>locks := y\<rparr>) = sched_ok k"
  "sched_ok (k\<lparr>conds := z\<rparr>) = sched_ok k"
  by (simp_all add: sched_ok_def)

lemma sched_ok_wake:
  assumes "sched_ok k" and "tstatus k t = BLOCKED" and "kont k t \<noteq> Returned"
  shows "sched_ok (ReadyToRun t k)"
proof -
  have "\<not> (t = currentThread k \<and> \<not> idle k)" "t \<notin> set (readyList k)" "threadToBeDestroyed k \<noteq> Some t"
    using sched_okD(1,3,5)[OF assms(1), of t] assms(2,3) by auto
  then show ?thesis using assms by (auto simp: sched_ok_def ReadyToRun_def)
qed

text \<open>The current thread going to sleep in a queue.\<close>

lemma sched_ok_block:
  assumes "sched_ok k" and "\<not> idle k"
  shows "sched_ok ((set_status (currentThread k) BLOCKED (set_kont (currentThread k) c k))\<lparr>idle := True\<rparr>)"
proof -
  have "tstatus k (currentThread k) = RUNNING" using sched_okD(3)[OF assms(1)] assms(2) by simp
  moreover have "threadToBeDestroyed k = None"
    using sched_okD(5)[OF assms(1)] assms(2) by (cases "threadToBeDestroyed k") auto
  moreover have "currentThread k \<notin> set (readyList k)"
    using sched_okD(1)[OF assms(1)] calculation(1) by simp
  ultimately show ?thesis using assms by (auto simp: sched_ok_def)
qed

lemma woken_block:
  assumes "sched_ok k" and "\<not> idle k" and "kont k (currentThread k) = Returned"
  shows "woken ((set_status (currentThread k) BLOCKED (set_kont (currentThread k) c k))\<lparr>idle := True\<rparr>) s = woken k s"
proof -
  have "currentThread k \<notin> set (readyList k)"
    using sched_okD(1,3)[OF assms(1), of "currentThread k"] assms(2) by auto
  then have "filter (\<lambda>t. (if t = currentThread k then c else kont k t) = After_P s) (readyList k)
      = filter (\<lambda>t. kont k t = After_P s) (readyList k)"
    by (intro filter_cong) auto
  then show ?thesis using assms(2,3) by (simp add: woken_def)
qed

lemma V_inv: "kern_inv k \<Longrightarrow> \<exists>k'. V s k = Inr k' \<and> kern_inv k'"
proof (cases "s_queue (sems k s)")
  case Nil
  assume inv: "kern_inv k"
  let ?k = "set_sem s ((sems k s)\<lparr>s_value := s_value (sems k s) + 1\<rparr>) k"
  have "kern_inv ?k"
  proof (rule kern_invI)
    fix x
    show "sched_ok ?k" using kern_inv_parts(1)[OF inv] by (simp add: sched_ok_def)
    show "sem_ok ?k x" using kern_inv_parts(2)[OF inv, of x] Nil by (auto simp: sem_ok_def woken_def)
    show "lock_ok ?k x" using kern_inv_parts(3)[OF inv, of x] by (simp add: lock_ok_def)
    show "cond_ok ?k x" using kern_inv_parts(4)[OF inv, of x] by (simp add: cond_ok_def)
  qed
  then show ?thesis using Nil by (simp add: V_def Let_def)
next
  case (Cons t ts)
  assume inv: "kern_inv k"
  let ?k = "set_sem s ((sems k s)\<lparr>s_queue := ts, s_value := s_value (sems k s) + 1\<rparr>) (ReadyToRun t k)"
  have q: "distinct (s_queue (sems k s))" using kern_inv_parts(2)[OF inv, of s] by (simp add: sem_ok_def)
  have "t \<in> set (s_queue (sems k s))" using Cons by simp
  then have t: "tstatus k t = BLOCKED" "kont k t = After_P s" "t \<notin> set ts" "t \<notin> set (readyList k)"
    using queues_okD(1)[OF kern_inv_parts(2)[OF inv, of s], of t] sched_okD(1)[OF kern_inv_parts(1)[OF inv], of t]
      Cons q by simp_all
  have "kern_inv ?k"
  proof (rule kern_invI)
    fix x
    show "sched_ok ?k" using sched_ok_wake[OF kern_inv_parts(1)[OF inv] t(1)] t(2) by simp
    have w: "woken ?k x = woken k x + (if x = s then 1 else 0)"
      using t by (simp add: woken_def ReadyToRun_def)
    show "sem_ok ?k x" using kern_inv_parts(2)[OF inv, of x] Cons t(1-3) q unfolding sem_ok_def w
      by (cases "x = s") (auto simp: ReadyToRun_def)
    show "lock_ok ?k x" using kern_inv_parts(3)[OF inv, of x] t by (auto simp: lock_ok_def ReadyToRun_def)
    show "cond_ok ?k x" using kern_inv_parts(4)[OF inv, of x] t by (auto simp: cond_ok_def ReadyToRun_def)
  qed
  then show ?thesis using Cons by (simp add: V_def Let_def)
qed

lemma running_facts:
  assumes "kern_inv k" and "\<not> idle k"
  shows "tstatus k (currentThread k) = RUNNING" "threadToBeDestroyed k = None"
    "currentThread k \<notin> set (readyList k)" "currentThread k \<notin> set (s_queue (sems k s))"
    "currentThread k \<notin> set (lk_waiting (locks k l))" "currentThread k \<notin> set (cv_waiting (conds k c))"
proof -
  show r: "tstatus k (currentThread k) = RUNNING"
    using kern_inv_parts(1)[OF assms(1)] assms(2) by (simp add: sched_ok_def)
  show "threadToBeDestroyed k = None"
    using sched_okD(5)[OF kern_inv_parts(1)[OF assms(1)]] assms(2) by (cases "threadToBeDestroyed k") auto
  show "currentThread k \<notin> set (readyList k)"
    using sched_okD(1)[OF kern_inv_parts(1)[OF assms(1)]] r by simp
  show "currentThread k \<notin> set (s_queue (sems k s))"
    using kern_inv_parts(2)[OF assms(1), of s] r by (simp add: sem_ok_def)
  show "currentThread k \<notin> set (lk_waiting (locks k l))"
    using kern_inv_parts(3)[OF assms(1), of l] r by (simp add: lock_ok_def)
  show "currentThread k \<notin> set (cv_waiting (conds k c))"
    using kern_inv_parts(4)[OF assms(1), of c] r by (simp add: cond_ok_def)
qed

text \<open>
  One turn of the loop of \<open>P\<close>. The thread that a \<open>V\<close> has woken is no longer counted in
  \<open>woken\<close> here, so the bound on the value is weaker by one.
\<close>

definition sem_ok_but_one :: "kern \<Rightarrow> nat \<Rightarrow> bool" where
  "sem_ok_but_one k s \<longleftrightarrow> distinct (s_queue (sems k s))
     \<and> (\<forall>t. t \<in> set (s_queue (sems k s)) \<longleftrightarrow> tstatus k t = BLOCKED \<and> kont k t = After_P s)
     \<and> 0 \<le> s_value (sems k s)
     \<and> (s_queue (sems k s) = [] \<or> s_value (sems k s) \<le> int (woken k s) + 1)"

lemma P_turn_inv:
  assumes sched: "sched_ok k" and run: "\<not> idle k" and ret: "kont k (currentThread k) = Returned"
    and s: "sem_ok_but_one k s" and oth: "\<And>x. x \<noteq> s \<Longrightarrow> sem_ok k x"
    and locks: "\<And>l. lock_ok k l" and conds: "\<And>c. cond_ok k c"
  shows "\<exists>k'. P s k = Inr k' \<and> kern_inv k'"
proof (cases "s_value (sems k s) = 0")
  case False
  let ?k = "set_sem s ((sems k s)\<lparr>s_value := s_value (sems k s) - 1\<rparr>) k"
  have "kern_inv ?k"
  proof (rule kern_invI)
    fix x
    show "sched_ok ?k" using sched by simp
    have w: "woken ?k x = woken k x" by (simp add: woken_def)
    show "sem_ok ?k x" using s oth[of x] False unfolding sem_ok_def sem_ok_but_one_def w
      by (cases "x = s") auto
    show "lock_ok ?k x" using locks[of x] by (simp add: lock_ok_def)
    show "cond_ok ?k x" using conds[of x] by (simp add: cond_ok_def)
  qed
  then show ?thesis using False by (simp add: P_def Let_def)
next
  case True
  let ?me = "currentThread k"
  let ?x = "(sems k s)\<lparr>s_queue := s_queue (sems k s) @ [?me]\<rparr>"
  let ?kq = "set_sem s ?x k"
  let ?k = "(set_status ?me BLOCKED (set_kont ?me (After_P s) ?kq))\<lparr>idle := True\<rparr>"
  have st: "tstatus k ?me = RUNNING" using sched_okD(3)[OF sched] run by simp
  have "kern_inv ?k"
  proof (rule kern_invI)
    fix x
    have s0: "sched_ok ?kq" "\<not> idle ?kq" using sched run by simp_all
    show "sched_ok ?k" using sched_ok_block[OF s0, of "After_P s"] by simp
    have w: "woken ?k x = woken k x"
      using woken_block[OF s0, of "After_P s" x] ret by (simp add: woken_def)
    show "sem_ok ?k x" using s oth[of x] st True ret unfolding sem_ok_def sem_ok_but_one_def w
      by (cases "x = s") auto
    show "lock_ok ?k x" using locks[of x] st ret by (auto simp: lock_ok_def)
    show "cond_ok ?k x" using conds[of x] st ret by (auto simp: cond_ok_def)
  qed
  then have "\<exists>k'. Sleep (set_kont ?me (After_P s) (set_sem s ?x k)) = Inr k' \<and> kern_inv k'"
    by (intro Sleep_inv) simp
  then show ?thesis using True by (simp add: P_def Let_def)
qed

lemma P_inv:
  "kern_inv k \<Longrightarrow> \<not> idle k \<Longrightarrow> kont k (currentThread k) = Returned \<Longrightarrow> \<exists>k'. P s k = Inr k' \<and> kern_inv k'"
  by (rule P_turn_inv) (auto simp: kern_inv_def sem_ok_but_one_def sem_ok_def)

lemma Acquire_inv:
  assumes inv: "kern_inv k" and run: "\<not> idle k" and ret: "kont k (currentThread k) = Returned"
  shows "\<exists>k'. Acquire l k = Inr k' \<and> kern_inv k'"
proof -
  let ?me = "currentThread k"
  note sched = kern_inv_parts(1)[OF inv]
  have st: "tstatus k ?me = RUNNING" using sched_okD(3)[OF sched] run by simp
  consider (held) "isHeldByCurrentThread l k" | (free) "\<not> isHeldByCurrentThread l k" "lk_state (locks k l) = FREE"
    | (busy) "\<not> isHeldByCurrentThread l k" "lk_state (locks k l) \<noteq> FREE" by blast
  then show ?thesis
  proof cases
    case held
    then show ?thesis using inv by (simp add: Acquire_def Let_def)
  next
    case free
    let ?k = "set_lock l ((locks k l)\<lparr>lk_state := BUSY, lk_owner := Some ?me\<rparr>) k"
    have "kern_inv ?k"
    proof (rule kern_invI)
      fix x
      show "sched_ok ?k" using sched by simp
      have w: "woken ?k x = woken k x" by (simp add: woken_def)
      show "sem_ok ?k x" using kern_inv_parts(2)[OF inv, of x] unfolding sem_ok_def w by simp
      show "lock_ok ?k x" using kern_inv_parts(3)[OF inv, of x] free st ret
        by (cases "x = l") (auto simp: lock_ok_def)
      show "cond_ok ?k x" using kern_inv_parts(4)[OF inv, of x] by (simp add: cond_ok_def)
    qed
    then show ?thesis using free by (simp add: Acquire_def Let_def)
  next
    case busy
    let ?x = "(locks k l)\<lparr>lk_waiting := lk_waiting (locks k l) @ [?me]\<rparr>"
    let ?kq = "set_lock l ?x k"
    let ?k = "(set_status ?me BLOCKED (set_kont ?me (After_Acquire l) ?kq))\<lparr>idle := True\<rparr>"
    have "kern_inv ?k"
    proof (rule kern_invI)
      fix x
      have s0: "sched_ok ?kq" "\<not> idle ?kq" using sched run by simp_all
    show "sched_ok ?k" using sched_ok_block[OF s0, of "After_Acquire l"] by simp
      have w: "woken ?k x = woken k x"
        using woken_block[OF s0, of "After_Acquire l" x] ret by (simp add: woken_def)
      show "sem_ok ?k x" using kern_inv_parts(2)[OF inv, of x] st ret unfolding sem_ok_def w by auto
      show "lock_ok ?k x" using kern_inv_parts(3)[OF inv, of x] busy st ret
        by (cases "x = l") (auto simp: lock_ok_def isHeldByCurrentThread_def)
      show "cond_ok ?k x" using kern_inv_parts(4)[OF inv, of x] st ret by (auto simp: cond_ok_def)
    qed
    then have "\<exists>k'. Sleep (set_kont ?me (After_Acquire l) (set_lock l ?x k)) = Inr k' \<and> kern_inv k'"
      by (intro Sleep_inv) simp
    then show ?thesis using busy by (simp add: Acquire_def Let_def)
  qed
qed

lemma Release_inv:
  assumes inv: "kern_inv k" and run: "\<not> idle k" and ret: "kont k (currentThread k) = Returned"
  shows "kern_inv (Release l k)"
proof (cases "isHeldByCurrentThread l k")
  case False
  then show ?thesis using inv by (simp add: Release_def)
next
  case True
  note sched = kern_inv_parts(1)[OF inv]
  show ?thesis
  proof (cases "lk_waiting (locks k l)")
    case Nil
    let ?k = "set_lock l ((locks k l)\<lparr>lk_state := FREE, lk_owner := None\<rparr>) k"
    have "kern_inv ?k"
    proof (rule kern_invI)
      fix x
      show "sched_ok ?k" using sched by simp
      have w: "woken ?k x = woken k x" by (simp add: woken_def)
      show "sem_ok ?k x" using kern_inv_parts(2)[OF inv, of x] unfolding sem_ok_def w by simp
      have "kont k t = After_Acquire l \<Longrightarrow> tstatus k t = BLOCKED" for t
        using kern_inv_parts(3)[OF inv, of l] True ret by (auto simp: lock_ok_def isHeldByCurrentThread_def)
      then show "lock_ok ?k x" using kern_inv_parts(3)[OF inv, of x] Nil
        by (cases "x = l") (auto simp: lock_ok_def)
      show "cond_ok ?k x" using kern_inv_parts(4)[OF inv, of x] by (simp add: cond_ok_def)
    qed
    then show ?thesis using True Nil by (simp add: Release_def Let_def)
  next
    case (Cons t ts)
    let ?k = "set_lock l ((locks k l)\<lparr>lk_waiting := ts, lk_owner := Some t\<rparr>) (ReadyToRun t k)"
    have q: "distinct (lk_waiting (locks k l))" using kern_inv_parts(3)[OF inv, of l] by (simp add: lock_ok_def)
    have t: "tstatus k t = BLOCKED" "kont k t = After_Acquire l" "t \<notin> set ts"
      using queues_okD(2)[OF kern_inv_parts(3)[OF inv, of l], of t] Cons q by simp_all
    have "kern_inv ?k"
    proof (rule kern_invI)
      fix x
      show "sched_ok ?k" using sched_ok_wake[OF sched t(1)] t(2) by simp
      have w: "woken ?k x = woken k x" using t by (simp add: woken_def ReadyToRun_def)
      show "sem_ok ?k x" using kern_inv_parts(2)[OF inv, of x] t unfolding sem_ok_def w
        by (auto simp: ReadyToRun_def)
      have "kont k u = After_Acquire l \<Longrightarrow> tstatus k u = BLOCKED" for u
        using kern_inv_parts(3)[OF inv, of l] True ret by (auto simp: lock_ok_def isHeldByCurrentThread_def)
      then show "lock_ok ?k x" using kern_inv_parts(3)[OF inv, of x] Cons t q
        by (cases "x = l") (auto simp: lock_ok_def ReadyToRun_def)
      show "cond_ok ?k x" using kern_inv_parts(4)[OF inv, of x] t by (auto simp: cond_ok_def ReadyToRun_def)
    qed
    then show ?thesis using True Cons by (simp add: Release_def Let_def)
  qed
qed

lemma Release_frame:
  "currentThread (Release l k) = currentThread k" "idle (Release l k) = idle k"
  "kont (Release l k) = kont k" "conds (Release l k) = conds k"
  "Release l (set_cond c y k) = set_cond c y (Release l k)"
  by (simp_all add: Release_def ReadyToRun_def isHeldByCurrentThread_def Let_def split: list.split)

lemma Wait_inv:
  assumes inv: "kern_inv k" and run: "\<not> idle k" and ret: "kont k (currentThread k) = Returned"
  shows "\<exists>k'. Wait c lo k = Inr k' \<and> kern_inv k'"
proof (cases lo)
  case None
  then show ?thesis using inv by (simp add: Wait_def)
next
  case (Some l)
  let ?me = "currentThread k"
  have cc: "cond_ok k c" by (rule kern_inv_parts(4)[OF inv])
  let ?x1 = "if cv_lock (conds k c) = None then (conds k c)\<lparr>cv_lock := Some l\<rparr> else conds k c"
  show ?thesis
  proof (cases "cv_lock ?x1 = Some l")
    case False
    then have "?x1 = conds k c" by (cases "cv_lock (conds k c)") simp_all
    then have "Wait c lo k = Inr k" using False Some by (simp add: Wait_def Let_def)
    then show ?thesis using inv by simp
  next
    case True
    let ?y = "?x1\<lparr>cv_waiting := cv_waiting ?x1 @ [?me]\<rparr>"
    let ?r = "Release l k"
    have ri: "kern_inv ?r" "\<not> idle ?r" "kont ?r ?me = Returned" "currentThread ?r = ?me"
      using Release_inv[OF inv run ret] run ret by (simp_all add: Release_frame)
    note sched = kern_inv_parts(1)[OF ri(1)]
    have st: "tstatus ?r ?me = RUNNING" using sched_okD(3)[OF sched] ri by simp
    let ?kq = "set_cond c ?y ?r"
    let ?k = "(set_status ?me BLOCKED (set_kont ?me (After_Wait c l) ?kq))\<lparr>idle := True\<rparr>"
    have "kern_inv ?k"
    proof (rule kern_invI)
      fix x
      have s0: "sched_ok ?kq" "\<not> idle ?kq" using sched ri(2) by simp_all
      show "sched_ok ?k" using sched_ok_block[OF s0, of "After_Wait c l"] by (simp add: Release_frame)
      have w: "woken ?k x = woken ?r x"
        using woken_block[OF s0, of "After_Wait c l" x] ri(3) by (simp add: woken_def Release_frame)
      show "sem_ok ?k x" using kern_inv_parts(2)[OF ri(1), of x] st ri(3) unfolding sem_ok_def w by auto
      show "lock_ok ?k x" using kern_inv_parts(3)[OF ri(1), of x] st ri(3) by (auto simp: lock_ok_def)
      show "cond_ok ?k x" using kern_inv_parts(4)[OF ri(1), of x] st ri(3) True
        by (cases "x = c") (auto simp: cond_ok_def Release_frame split: if_splits)
    qed
    then have "\<exists>k'. Sleep (set_kont ?me (After_Wait c l) (set_cond c ?y ?r)) = Inr k' \<and> kern_inv k'"
      using ri(4) by (intro Sleep_inv) simp
    then show ?thesis using True Some by (simp add: Wait_def Let_def Release_frame)
  qed
qed

lemma Signal_inv:
  assumes inv: "kern_inv k"
  shows "kern_inv (Signal c lo k)"
proof (cases "cv_waiting (conds k c)")
  case Nil
  then show ?thesis using inv by (simp add: Signal_def Let_def)
next
  case (Cons t ts)
  show ?thesis
  proof (cases "cv_lock (conds k c) = lo")
    case False
    then show ?thesis using inv Cons by (simp add: Signal_def Let_def)
  next
    case True
    let ?k = "set_cond c ((conds k c)\<lparr>cv_waiting := ts, cv_lock := (if ts = [] then None else cv_lock (conds k c))\<rparr>)
      (ReadyToRun t k)"
    have q: "distinct (cv_waiting (conds k c))" using kern_inv_parts(4)[OF inv, of c] by (simp add: cond_ok_def)
    obtain l where t: "tstatus k t = BLOCKED" "kont k t = After_Wait c l" "t \<notin> set ts"
      using queues_okD(3)[OF kern_inv_parts(4)[OF inv, of c], of t] Cons q by auto
    have "kern_inv ?k"
    proof (rule kern_invI)
      fix x
      show "sched_ok ?k" using sched_ok_wake[OF kern_inv_parts(1)[OF inv] t(1)] t(2) by simp
      have w: "woken ?k x = woken k x" using t by (simp add: woken_def ReadyToRun_def)
      show "sem_ok ?k x" using kern_inv_parts(2)[OF inv, of x] t unfolding sem_ok_def w
        by (auto simp: ReadyToRun_def)
      show "lock_ok ?k x" using kern_inv_parts(3)[OF inv, of x] t by (auto simp: lock_ok_def ReadyToRun_def)
      have ts: "ts = [] \<Longrightarrow> tstatus k u = BLOCKED \<Longrightarrow> kont k u = After_Wait c l' \<Longrightarrow> u = t" for u l'
        using queues_okD(3)[OF kern_inv_parts(4)[OF inv, of c], of u] Cons by auto
      show "cond_ok ?k x"
      proof (cases "x = c")
        case True
        have m: "u \<in> set ts \<longleftrightarrow> u \<noteq> t \<and> tstatus k u = BLOCKED \<and> (\<exists>l. kont k u = After_Wait c l)" for u
          using queues_okD(3)[OF kern_inv_parts(4)[OF inv, of c], of u] Cons t(3) by auto
        have cl: "kont k u = After_Wait c l' \<Longrightarrow> tstatus k u = BLOCKED \<Longrightarrow> cv_lock (conds k c) = Some l'" for u l'
          using kern_inv_parts(4)[OF inv, of c] by (simp add: cond_ok_def)
        have ne: "cv_lock (conds k c) \<noteq> None" using cl[OF t(2,1)] by simp
        have "cond_ok ?k c" unfolding cond_ok_def
        proof (intro conjI allI impI)
          fix u
          show "u \<in> set (cv_waiting (conds ?k c)) \<longleftrightarrow> tstatus ?k u = BLOCKED \<and> (\<exists>l. kont ?k u = After_Wait c l)"
            using m[of u] by (simp add: ReadyToRun_def)
          fix l' assume "kont ?k u = After_Wait c l'" "tstatus ?k u = BLOCKED"
          then have u: "kont k u = After_Wait c l'" "tstatus k u = BLOCKED" "u \<noteq> t"
            by (auto simp: ReadyToRun_def split: if_splits)
          then show "cv_lock (conds ?k c) = Some l'" using cl[OF u(1,2)] ts u by auto
        qed (use q Cons ne in \<open>auto simp: ReadyToRun_def\<close>)
        then show ?thesis using True by simp
      next
        case False
        then show ?thesis using kern_inv_parts(4)[OF inv, of x] t by (auto simp: cond_ok_def ReadyToRun_def)
      qed
    qed
    then show ?thesis using True Cons by (simp add: Signal_def Let_def)
  qed
qed

lemma broadcast_loop_inv: "kern_inv k \<Longrightarrow> broadcast_loop n c l k = Inr k' \<Longrightarrow> kern_inv k'"
proof (induction n arbitrary: k)
  case (Suc n)
  then show ?case using Suc.IH[OF Signal_inv[OF Suc.prems(1)]] by (simp split: if_splits)
qed (simp split: if_splits)

lemma Yield_inv:
  assumes inv: "kern_inv k" and run: "\<not> idle k"
  shows "\<exists>k'. Yield k = Inr k' \<and> kern_inv k'"
proof (cases "readyList k")
  case Nil
  then show ?thesis using inv by (simp add: Yield_def FindNextToRun_def)
next
  case (Cons t ts)
  let ?me = "currentThread k"
  have s: "sched_ok k" by (rule kern_inv_parts(1)[OF inv])
  have tme: "tstatus k t = READY" "tstatus k ?me = RUNNING" "t \<notin> set ts" "distinct ts"
    using sched_okD(1)[OF s, of t] sched_okD(3)[OF s, of ?me] sched_okD(2)[OF s] Cons run by simp_all
  have td: "threadToBeDestroyed k = None"
    using sched_okD(5)[OF s] run by (cases "threadToBeDestroyed k") auto
  have me: "?me \<noteq> t" "?me \<notin> set ts" using tme sched_okD(1)[OF s, of ?me] Cons by auto
  define k' where "k' = k\<lparr>readyList := ts @ [?me], tstatus := (tstatus k)(?me := READY, t := RUNNING),
    currentThread := t, idle := False\<rparr>"
  have "Yield k = Inr k'"
    using Cons td run by (simp add: Yield_def FindNextToRun_def Run_def ReadyToRun_def k'_def Let_def)
  moreover have "kern_inv k'"
  proof (rule kern_invI)
    show "sched_ok k'" using s tme me td Cons by (auto simp: sched_ok_def k'_def)
    fix x
    have w: "woken k' x = woken k x" using Cons run by (simp add: woken_def k'_def)
    show "sem_ok k' x" using kern_inv_parts(2)[OF inv, of x] tme me(1) unfolding sem_ok_def w
      by (auto simp: k'_def)
    show "lock_ok k' x" using kern_inv_parts(3)[OF inv, of x] tme me(1) by (auto simp: lock_ok_def k'_def)
    show "cond_ok k' x" using kern_inv_parts(4)[OF inv, of x] tme me(1) by (auto simp: cond_ok_def k'_def)
  qed
  ultimately show ?thesis by blast
qed

text \<open>A finishing thread blocks in no queue.\<close>

lemma Finish_inv:
  assumes inv: "kern_inv k" and run: "\<not> idle k" and ret: "kont k (currentThread k) = Returned"
  shows "\<exists>k'. Finish k = Inr k' \<and> kern_inv k'"
proof -
  let ?me = "currentThread k"
  let ?k = "(set_status ?me BLOCKED (k\<lparr>threadToBeDestroyed := Some ?me\<rparr>))\<lparr>idle := True\<rparr>"
  note s = kern_inv_parts(1)[OF inv]
  have st: "tstatus k ?me = RUNNING" using sched_okD(3)[OF s] run by simp
  have nr: "?me \<notin> set (readyList k)" using sched_okD(1)[OF s] st by simp
  have "kern_inv ?k"
  proof (rule kern_invI)
    show "sched_ok ?k" using s st nr run ret by (auto simp: sched_ok_def)
    fix x
    have w: "woken ?k x = woken k x" using run ret by (simp add: woken_def)
    show "sem_ok ?k x" using kern_inv_parts(2)[OF inv, of x] st ret unfolding sem_ok_def w by auto
    show "lock_ok ?k x" using kern_inv_parts(3)[OF inv, of x] st ret by (auto simp: lock_ok_def)
    show "cond_ok ?k x" using kern_inv_parts(4)[OF inv, of x] st ret by (auto simp: cond_ok_def)
  qed
  then show ?thesis using Sleep_inv[of "k\<lparr>threadToBeDestroyed := Some ?me\<rparr>"] by (simp add: Finish_def)
qed

lemma Fork_inv:
  assumes inv: "kern_inv k" and new: "tstatus k t = JUST_CREATED"
  shows "kern_inv (ReadyToRun t k)"
proof (rule kern_invI)
  note s = kern_inv_parts(1)[OF inv]
  have t: "t \<notin> set (readyList k)" "kont k t = Returned" "\<not> (t = currentThread k \<and> \<not> idle k)"
    "threadToBeDestroyed k \<noteq> Some t"
    using sched_okD(1,3,4,5)[OF s, of t] new by auto
  show "sched_ok (ReadyToRun t k)" using s t new by (auto simp: sched_ok_def ReadyToRun_def)
  fix x
  have w: "woken (ReadyToRun t k) x = woken k x" using t(2) by (simp add: woken_def ReadyToRun_def)
  show "sem_ok (ReadyToRun t k) x" using kern_inv_parts(2)[OF inv, of x] new unfolding sem_ok_def w
    by (auto simp: ReadyToRun_def)
  show "lock_ok (ReadyToRun t k) x" using kern_inv_parts(3)[OF inv, of x] new t(2)
    by (auto simp: lock_ok_def ReadyToRun_def)
  show "cond_ok (ReadyToRun t k) x" using kern_inv_parts(4)[OF inv, of x] new
    by (auto simp: cond_ok_def ReadyToRun_def)
qed

lemma resume_inv:
  assumes inv: "kern_inv k" and run: "\<not> idle k"
  shows "\<exists>k'. resume k = Inr k' \<and> kern_inv k'"
proof -
  let ?me = "currentThread k" and ?k = "set_kont (currentThread k) Returned k"
  note s = kern_inv_parts(1)[OF inv]
  have st: "tstatus k ?me = RUNNING" using sched_okD(3)[OF s] run by simp
  have nr: "?me \<notin> set (readyList k)" using sched_okD(1)[OF s] st by simp
  have so: "sched_ok ?k" using s st by (auto simp: sched_ok_def)
  have f: "filter (\<lambda>t. (if t = ?me then Returned else kont k t) = After_P x) (readyList k)
      = filter (\<lambda>t. kont k t = After_P x) (readyList k)" for x
    using nr by (intro filter_cong) auto
  have w: "woken k x = woken ?k x + (if kont k ?me = After_P x then 1 else 0)" for x
    using run by (simp add: woken_def f)
  have l: "lock_ok ?k x" and c: "cond_ok ?k x" for x
    using kern_inv_parts(3)[OF inv, of x] kern_inv_parts(4)[OF inv, of x] st
    by (auto simp: lock_ok_def cond_ok_def)
  have sem: "sem_ok ?k x" if "kont k ?me \<noteq> After_P x" for x
    using kern_inv_parts(2)[OF inv, of x] st w[of x] that unfolding sem_ok_def by auto
  have mem: "(tstatus k t = BLOCKED \<and> kont ?k t = After_P x) = (tstatus k t = BLOCKED \<and> kont k t = After_P x)"
    for t x using st by auto
  have one: "sem_ok_but_one ?k x" for x
  proof -
    have "int (woken k x) \<le> int (woken ?k x) + 1" using w[of x] by simp
    then have "s_queue (sems k x) = [] \<or> s_value (sems k x) \<le> int (woken ?k x) + 1"
      using kern_inv_parts(2)[OF inv, of x] unfolding sem_ok_def by linarith
    then show ?thesis using kern_inv_parts(2)[OF inv, of x] mem[of _ x]
      unfolding sem_ok_def sem_ok_but_one_def by simp
  qed
  show ?thesis
  proof (cases "kont k ?me")
    case Returned
    then show ?thesis using inv by (simp add: resume_def Let_def)
  next
    case (After_P x)
    have "\<exists>k'. P x ?k = Inr k' \<and> kern_inv k'"
      using so run one l c sem After_P by (intro P_turn_inv) auto
    then show ?thesis using After_P by (simp add: resume_def Let_def)
  next
    case (After_Acquire x)
    then have "kern_inv ?k" using so sem l c by (intro kern_invI) auto
    then show ?thesis using After_Acquire by (simp add: resume_def Let_def)
  next
    case (After_Wait x y)
    then have "kern_inv ?k" using so sem l c by (intro kern_invI) auto
    then have "\<exists>k'. Acquire y ?k = Inr k' \<and> kern_inv k'" using run by (intro Acquire_inv) auto
    then show ?thesis using After_Wait by (simp add: resume_def Let_def)
  qed
qed

lemma kstep_inv: "kstep k k' \<Longrightarrow> kern_inv k \<Longrightarrow> kern_inv k'"
proof (induction rule: kstep.induct)
  case (op k x k')
  note a = op.prems op.hyps(1,2)
  show ?case
  proof (cases x)
    case (Op_P s) then show ?thesis using P_inv[OF a, of s] op.hyps(4) by simp
  next
    case (Op_V s) then show ?thesis using V_inv[OF op.prems, of s] op.hyps(4) by simp
  next
    case (Op_Acquire l) then show ?thesis using Acquire_inv[OF a, of l] op.hyps(4) by simp
  next
    case (Op_Release l) then show ?thesis using Release_inv[OF a, of l] op.hyps(4) by simp
  next
    case (Op_Wait c l) then show ?thesis using Wait_inv[OF a, of c l] op.hyps(4) by simp
  next
    case (Op_Signal c l) then show ?thesis using Signal_inv[OF op.prems, of c l] op.hyps(4) by simp
  next
    case (Op_Broadcast c l)
    then show ?thesis using broadcast_loop_inv[OF op.prems] op.hyps(4) by (simp add: Broadcast_def)
  next
    case Op_Yield then show ?thesis using Yield_inv[OF a(1,2)] op.hyps(4) by simp
  next
    case Op_Finish then show ?thesis using Finish_inv[OF a] op.hyps(4) by simp
  next
    case (Op_Fork t)
    then show ?thesis using Fork_inv[OF op.prems, of t] op.hyps(3,4) by (simp add: Fork_def)
  qed
next
  case (goes_on k k')
  then show ?case using resume_inv[of k] by auto
next
  case (device s k k')
  then show ?case using V_inv[of k s] by auto
next
  case (wakes k k')
  then show ?case using look_for_work_inv[of k] by auto
qed

lemma reachable_inv:
  assumes "kstep\<^sup>*\<^sup>* (kern_init main vals) k" and "\<And>s. 0 \<le> vals s"
  shows "kern_inv k"
  using assms(1)
proof (induction rule: rtranclp_induct)
  case base
  show ?case using kern_inv_init assms(2) by blast
next
  case (step y z)
  then show ?case using kstep_inv by blast
qed

section \<open>Waking everybody\<close>

lemma broadcast_loop_match:
  "cv_lock (conds k c) = Some l \<or> cv_waiting (conds k c) = [] \<Longrightarrow> n = length (cv_waiting (conds k c)) \<Longrightarrow>
   \<exists>k'. broadcast_loop n c (Some l) k = Inr k' \<and> readyList k' = readyList k @ cv_waiting (conds k c)
     \<and> cv_waiting (conds k' c) = [] \<and> (cv_waiting (conds k c) \<noteq> [] \<longrightarrow> cv_lock (conds k' c) = None)"
proof (induction n arbitrary: k)
  case 0
  then show ?case by simp
next
  case (Suc n)
  then obtain t ts where w: "cv_waiting (conds k c) = t # ts" by (cases "cv_waiting (conds k c)") auto
  let ?k = "Signal c (Some l) k"
  have s: "readyList ?k = readyList k @ [t]" "cv_waiting (conds ?k c) = ts"
    "cv_lock (conds ?k c) = (if ts = [] then None else Some l)"
    using w Suc.prems(1) by (simp_all add: Signal_def ReadyToRun_def Let_def)
  have "n = length (cv_waiting (conds ?k c))" "cv_lock (conds ?k c) = Some l \<or> cv_waiting (conds ?k c) = []"
    using s w Suc.prems(2) by simp_all
  then obtain k' where "broadcast_loop n c (Some l) ?k = Inr k'" "readyList k' = readyList ?k @ ts"
    "cv_waiting (conds k' c) = []" "ts \<noteq> [] \<longrightarrow> cv_lock (conds k' c) = None"
    using Suc.IH[of ?k] s(2) by auto
  moreover have "ts = [] \<Longrightarrow> k' = ?k" using calculation(1) s(2) Suc.prems(2) w by (cases n) auto
  ultimately show ?case using w s by auto
qed

lemma broadcast_loop_mismatch:
  "cv_waiting (conds k c) \<noteq> [] \<Longrightarrow> cv_lock (conds k c) \<noteq> l \<Longrightarrow> broadcast_loop n c l k = Inl Diverges"
  by (induction n) (simp_all add: Signal_def Let_def split: list.split)

lemma look_for_work_frame:
  "look_for_work k = Inr k' \<Longrightarrow> locks k' = locks k \<and> sems k' = sems k \<and> conds k' = conds k \<and> kont k' = kont k"
  by (auto simp: look_for_work_def FindNextToRun_def Run_def Let_def bindE_eq_Inr
      split: list.splits option.splits)

section \<open>Properties\<close>

text \<open>C14: The kernel's thread structures are always consistent. In every state reached by any
  interleaving of thread operations, preemptions and device interrupts: a thread is on the ready
  list exactly when its status is READY, and once; exactly the current thread is RUNNING, unless
  the CPU idles; and a BLOCKED thread that is inside P, Acquire or Wait is in exactly the queue of
  the semaphore, lock or condition it waits for, so that no thread is lost or queued twice.\<close>
theorem threads_consistent:
  assumes "kstep\<^sup>*\<^sup>* (kern_init main vals) k" and "\<And>s. 0 \<le> vals s"
  shows "distinct (readyList k) \<and> (\<forall>t. t \<in> set (readyList k) \<longleftrightarrow> tstatus k t = READY)
    \<and> (\<forall>t. tstatus k t = RUNNING \<longleftrightarrow> t = currentThread k \<and> \<not> idle k)
    \<and> (\<forall>t s. t \<in> set (s_queue (sems k s)) \<longleftrightarrow> tstatus k t = BLOCKED \<and> kont k t = After_P s)
    \<and> (\<forall>t l. t \<in> set (lk_waiting (locks k l)) \<longleftrightarrow> tstatus k t = BLOCKED \<and> kont k t = After_Acquire l)
    \<and> (\<forall>t c. t \<in> set (cv_waiting (conds k c)) \<longleftrightarrow>
         tstatus k t = BLOCKED \<and> (\<exists>l. kont k t = After_Wait c l))"
  using reachable_inv[OF assms] queues_okD by (simp add: kern_inv_def sched_ok_def)


text \<open>Semaphores never go negative and lose no wake-up. In every reachable state the value is
  not negative, and when it is positive while threads wait in the queue, some thread that a
  \<open>V\<close> has taken off the queue is on its way to take the value.\<close>
theorem semaphore_no_lost_wakeup:
  assumes "kstep\<^sup>*\<^sup>* (kern_init main vals) k" and "\<And>s. 0 \<le> vals s"
  shows "0 \<le> s_value (sems k s) \<and>
    (s_queue (sems k s) = [] \<or> s_value (sems k s) = 0 \<or>
      (\<exists>t. kont k t = After_P s \<and> tstatus k t \<in> {READY, RUNNING}))"
proof -
  note inv = reachable_inv[OF assms]
  have "\<exists>t. kont k t = After_P s \<and> tstatus k t \<in> {READY, RUNNING}" if "0 < woken k s"
  proof (cases "\<not> idle k \<and> kont k (currentThread k) = After_P s")
    case True
    then show ?thesis using sched_okD(3)[OF kern_inv_parts(1)[OF inv]] by blast
  next
    case False
    then have "filter (\<lambda>t. kont k t = After_P s) (readyList k) \<noteq> []" using that by (auto simp: woken_def)
    then obtain t where "t \<in> set (readyList k)" "kont k t = After_P s" by (auto simp: filter_empty_conv)
    then show ?thesis using sched_okD(1)[OF kern_inv_parts(1)[OF inv]] by blast
  qed
  then show ?thesis using kern_inv_parts(2)[OF inv, of s] unfolding sem_ok_def by fastforce
qed

text \<open>C15: Locks exclude each other and are handed over in order. In a reachable state,
  \<open>Acquire\<close> either leaves the caller the owner and running, which happens only when the lock was
  free or its own, or puts it at the end of the queue; \<open>Release\<close> by the owner gives the lock to
  the first thread of the queue, or frees it when there is none, and \<open>Release\<close> by any other
  thread does nothing; and a thread that comes out of the wait in \<open>Acquire\<close> owns the lock.\<close>
theorem lock_handover:
  assumes "kstep\<^sup>*\<^sup>* (kern_init main vals) k" and "\<And>s. 0 \<le> vals s"
    and "\<not> idle k" and "kont k (currentThread k) = Returned"
  defines "me \<equiv> currentThread k"
  shows "(\<exists>k'. Acquire l k = Inr k' \<and>
      (if lk_owner (locks k l) \<in> {None, Some me}
       then currentThread k' = me \<and> lk_owner (locks k' l) = Some me
         \<and> lk_waiting (locks k' l) = lk_waiting (locks k l)
       else lk_owner (locks k' l) = lk_owner (locks k l)
         \<and> lk_waiting (locks k' l) = lk_waiting (locks k l) @ [me] \<and> kont k' me = After_Acquire l))
    \<and> lk_owner (locks (Release l k) l) =
      (if lk_owner (locks k l) = Some me
       then (case lk_waiting (locks k l) of [] \<Rightarrow> None | t # _ \<Rightarrow> Some t)
       else lk_owner (locks k l))
    \<and> (\<forall>t. kont k t = After_Acquire l \<and> tstatus k t \<noteq> BLOCKED \<longrightarrow> lk_owner (locks k l) = Some t)"
proof (intro conjI)
  note inv = reachable_inv[OF assms(1,2)]
  have lk: "lk_state (locks k l) = FREE \<longleftrightarrow> lk_owner (locks k l) = None"
    using kern_inv_parts(3)[OF inv, of l] by (simp add: lock_ok_def)
  obtain k' where a: "Acquire l k = Inr k'" using Acquire_inv[OF inv assms(3,4)] by blast
  show "\<exists>k'. Acquire l k = Inr k' \<and>
      (if lk_owner (locks k l) \<in> {None, Some me}
       then currentThread k' = me \<and> lk_owner (locks k' l) = Some me
         \<and> lk_waiting (locks k' l) = lk_waiting (locks k l)
       else lk_owner (locks k' l) = lk_owner (locks k l)
         \<and> lk_waiting (locks k' l) = lk_waiting (locks k l) @ [me] \<and> kont k' me = After_Acquire l)"
  proof (cases "lk_owner (locks k l) \<in> {None, Some me}")
    case True
    then show ?thesis using lk
      by (auto simp: Acquire_def isHeldByCurrentThread_def me_def Let_def)
  next
    case False
    then have "Sleep (set_kont me (After_Acquire l) (set_lock l
        ((locks k l)\<lparr>lk_waiting := lk_waiting (locks k l) @ [me]\<rparr>) k)) = Inr k'"
      using a lk by (auto simp: Acquire_def isHeldByCurrentThread_def me_def Let_def)
    from look_for_work_frame[OF this[unfolded Sleep_def]] show ?thesis using False a by auto
  qed
  show "lk_owner (locks (Release l k) l) =
      (if lk_owner (locks k l) = Some me
       then (case lk_waiting (locks k l) of [] \<Rightarrow> None | t # _ \<Rightarrow> Some t)
       else lk_owner (locks k l))"
    by (simp add: Release_def isHeldByCurrentThread_def me_def Let_def split: list.split)
  show "\<forall>t. kont k t = After_Acquire l \<and> tstatus k t \<noteq> BLOCKED \<longrightarrow> lk_owner (locks k l) = Some t"
    using kern_inv_parts(3)[OF inv, of l] by (auto simp: lock_ok_def)
qed

text \<open>Broadcast wakes everybody, or never returns. With the lock that the waiters gave (or no
  waiters), \<open>Broadcast\<close> makes all of them ready, in the order in which they waited, and leaves the
  condition free for another lock; with any other lock its loop never ends.\<close>
theorem broadcast_all_or_diverges:
  "if cv_waiting (conds k c) = [] \<or> cv_lock (conds k c) = Some l
   then \<exists>k'. Broadcast c (Some l) k = Inr k' \<and> readyList k' = readyList k @ cv_waiting (conds k c)
     \<and> cv_waiting (conds k' c) = [] \<and> (cv_waiting (conds k c) \<noteq> [] \<longrightarrow> cv_lock (conds k' c) = None)
   else Broadcast c (Some l) k = Inl Diverges"
  using broadcast_loop_match[of k c l] broadcast_loop_mismatch[of k c "Some l"]
  by (auto simp: Broadcast_def)

section \<open>A concrete kernel\<close>

text \<open>Thread 1 forks thread 2, takes lock 0 and yields; thread 2 then waits for the lock.\<close>

definition demo_kern :: kern where
  "demo_kern = kern_init 1 (\<lambda>_. 0)"

definition demo_contended :: kern where
  "demo_contended =
     \<lparr> readyList = [1], currentThread = 2, idle = False,
       tstatus = (\<lambda>_. JUST_CREATED)(1 := READY, 2 := RUNNING), kont = (\<lambda>_. Returned),
       threadToBeDestroyed = None, sems = (\<lambda>s. Semaphore_new 0),
       locks = (\<lambda>_. Lock_new)(0 := \<lparr>lk_state = BUSY, lk_owner = Some 1, lk_waiting = []\<rparr>),
       conds = (\<lambda>_. Condition_new) \<rparr>"

lemma demo_reaches: "kstep\<^sup>*\<^sup>* demo_kern demo_contended"
proof -
  define k1 where "k1 = ReadyToRun 2 demo_kern"
  define k2 where "k2 = set_lock 0 \<lparr>lk_state = BUSY, lk_owner = Some 1, lk_waiting = []\<rparr> k1"
  note d = k1_def k2_def demo_kern_def kern_init_def ReadyToRun_def Lock_new_def
  have 1: "kstep demo_kern k1"
    by (rule kstep.op[of _ "Op_Fork 2"]) (simp_all add: d Fork_def)
  have 2: "kstep k1 k2"
    by (rule kstep.op[of _ "Op_Acquire 0"]) (simp_all add: d Acquire_def isHeldByCurrentThread_def Let_def)
  have 3: "kstep k2 demo_contended"
    by (rule kstep.op[of _ Op_Yield])
      (auto simp: d Yield_def FindNextToRun_def Run_def Let_def demo_contended_def)
  show ?thesis using 1 2 3 by (meson rtranclp.rtrancl_into_rtrancl rtranclp.rtrancl_refl)
qed

lemmas demo_reachable = demo_reaches[unfolded demo_kern_def]

lemma threads_consistent_witness:
  "\<forall>t. t \<in> set (readyList demo_contended) \<longleftrightarrow> tstatus demo_contended t = READY"
  using threads_consistent[OF demo_reachable] by simp


lemma semaphore_no_lost_wakeup_witness: "0 \<le> s_value (sems demo_contended 5)"
  using semaphore_no_lost_wakeup[OF demo_reachable, of 5] by simp

lemma lock_handover_witness:
  "\<exists>k'. Acquire 0 demo_contended = Inr k' \<and> lk_owner (locks k' 0) = Some 1 \<and> lk_waiting (locks k' 0) = [2]"
  using lock_handover[OF demo_reachable, of 0] by (auto simp: demo_contended_def)

lemma broadcast_all_or_diverges_witness:
  "let k = set_cond 0 \<lparr>cv_lock = Some 0, cv_waiting = [4, 3]\<rparr> demo_kern in
   (\<exists>k'. Broadcast 0 (Some 0) k = Inr k' \<and> readyList k' = [4, 3]) \<and> Broadcast 0 (Some 1) k = Inl Diverges"
  using broadcast_all_or_diverges[of "set_cond 0 \<lparr>cv_lock = Some 0, cv_waiting = [4, 3]\<rparr> demo_kern" 0 0]
    broadcast_all_or_diverges[of "set_cond 0 \<lparr>cv_lock = Some 0, cv_waiting = [4, 3]\<rparr> demo_kern" 0 1]
  by (auto simp: demo_kern_def kern_init_def)

end
