(* ===== verification/CStrings.thy ===== *)
theory CStrings
  imports Prelude "HOL-Library.Char_ord"
begin

text \<open>
  C strings as lists of characters without the terminating NUL, the library functions
  \<open>sprintf("%d")\<close> and \<open>atoi\<close> the network code uses, and the functions \<open>parseValue\<close>,
  \<open>myexp\<close> and \<open>itoa\<close> of \<open>network/netcall.cc\<close>. Reading past the NUL and writing past the end
  of an array are undefined behaviour.
\<close>

section \<open>Decimal numbers\<close>

abbreviation (input) NUL :: char where "NUL \<equiv> CHR 0x00"
abbreviation (input) MaxMailSize :: nat where "MaxMailSize \<equiv> 32"

definition digit_chr :: "nat \<Rightarrow> char" where
  "digit_chr d = char_of (48 + d)"

fun dec_nat :: "nat \<Rightarrow> string" where
  "dec_nat n = (if n < 10 then [digit_chr n] else dec_nat (n div 10) @ [digit_chr (n mod 10)])"

declare dec_nat.simps [simp del]

text \<open>\<open>sprintf("%d", i)\<close>\<close>

definition dec :: "int \<Rightarrow> string" where
  "dec i = (if i < 0 then CHR ''-'' # dec_nat (nat (- i)) else dec_nat (nat i))"

definition is_digit :: "char \<Rightarrow> bool" where
  "is_digit c \<longleftrightarrow> 48 \<le> (of_char c :: nat) \<and> of_char c \<le> (57 :: nat)"

definition is_space :: "char \<Rightarrow> bool" where
  "is_space c \<longleftrightarrow> c = CHR '' '' \<or> (9 \<le> (of_char c :: nat) \<and> of_char c \<le> (13 :: nat))"

definition digits_val :: "string \<Rightarrow> int" where
  "digits_val s = foldl (\<lambda>v c. 10 * v + (of_char c - 48)) 0 s"

text \<open>\<open>atoi\<close>: white space, a sign, and the digits that follow.\<close>

definition atoi :: "string \<Rightarrow> int" where
  "atoi s =
     (case dropWhile is_space s of
        [] \<Rightarrow> 0
      | c # t \<Rightarrow>
          if c = CHR ''-'' then - digits_val (takeWhile is_digit t)
          else if c = CHR ''+'' then digits_val (takeWhile is_digit t)
          else digits_val (takeWhile is_digit (c # t)))"

text \<open>\<open>atoi\<close> of a number outside the range of \<open>int\<close> is undefined.\<close>

definition atoi_int :: "string \<Rightarrow> int result" where
  "atoi_int s = (if in_int (atoi s) then Inr (atoi s) else Inl Undefined_behaviour)"

section \<open>\<open>parseValue\<close>\<close>

text \<open>
  The characters from \<open>startIndex\<close> to the next underscore or the NUL, as a number, and the index
  after it. The token is copied into an array of \<open>MaxMailSize\<close> characters.
\<close>

definition parseValue :: "nat \<Rightarrow> string \<Rightarrow> (int \<times> nat) result" where
  "parseValue startIndex buf =
     (if startIndex > length buf then Inl Undefined_behaviour
      else
        (let tok = takeWhile (\<lambda>c. c \<noteq> CHR ''_'') (drop startIndex buf) in
         if length tok \<ge> MaxMailSize \<or> \<not> in_int (atoi tok) then Inl Undefined_behaviour
         else Inr (atoi tok, startIndex + length tok + 1)))"

section \<open>\<open>itoa\<close>\<close>

primrec myexp :: "nat \<Rightarrow> int" where
  "myexp 0 = 1"
| "myexp (Suc n) = myexp n * 10"

text \<open>
  The loop that looks for \<open>max\<close>: the first \<open>i\<close> from 1 with \<open>val / myexp(i) == 0\<close>. From
  \<open>myexp(10)\<close> on, the power overflows an \<open>int\<close>.
\<close>

definition itoa_max :: "int \<Rightarrow> nat result" where
  "itoa_max val =
     (case find (\<lambda>i. val sdiv myexp i = 0) [1..<10] of
        Some i \<Rightarrow> Inr (i - 1)
      | None \<Rightarrow> Inl Undefined_behaviour)"

text \<open>The digits from position \<open>max\<close> down to 0, with the part of the value already printed.\<close>

primrec itoa_digits :: "nat \<Rightarrow> int \<Rightarrow> int \<Rightarrow> string" where
  "itoa_digits 0 val subval = []"
| "itoa_digits (Suc i) val subval =
     (let dig = 48 + (val - subval) sdiv myexp i
      in char_of (nat (dig mod 256)) # itoa_digits i val (subval + (dig - 48) * myexp i))"

text \<open>The array that \<open>itoa\<close> fills: writing more than \<open>sz\<close> characters is out of bounds.\<close>

definition itoa :: "nat \<Rightarrow> int \<Rightarrow> string result" where
  "itoa sz val =
     bindE (itoa_max val) (\<lambda>max.
       if max + 1 > sz then Inl Undefined_behaviour
       else Inr (itoa_digits (Suc max) val 0 @ replicate (sz - (max + 1)) NUL))"

text \<open>An array read as a C string, by \<open>strlen\<close> or \<open>"%s"\<close>.\<close>

definition c_string :: "string \<Rightarrow> string result" where
  "c_string arr = (if NUL \<in> set arr then Inr (takeWhile (\<lambda>c. c \<noteq> NUL) arr) else Inl Undefined_behaviour)"

section \<open>Printing and reading numbers\<close>

lemma of_char_digit: "d < 10 \<Longrightarrow> of_char (digit_chr d) = (48 + d :: nat)"
  by (simp add: of_char_of digit_chr_def)

lemma of_char_digit_int: "d < 10 \<Longrightarrow> of_char (digit_chr d) = (48 + int d)"
  using of_char_digit[of d] by (metis of_nat_add of_nat_numeral of_nat_of_char)

lemma digit_char: "d < 10 \<Longrightarrow> is_digit (digit_chr d)"
  by (simp add: is_digit_def of_char_digit)

lemma dec_nat_less: "n < 10 \<Longrightarrow> dec_nat n = [digit_chr n]"
  by (subst dec_nat.simps) simp

lemma dec_nat_ge: "\<not> n < 10 \<Longrightarrow> dec_nat n = dec_nat (n div 10) @ [digit_chr (n mod 10)]"
  by (subst dec_nat.simps) simp

lemma dec_nat_digits: "c \<in> set (dec_nat n) \<Longrightarrow> is_digit c"
proof (induction n rule: dec_nat.induct)
  case (1 n)
  show ?case
  proof (cases "n < 10")
    case True
    then show ?thesis using "1.prems" digit_char[of n] by (simp add: dec_nat_less)
  next
    case False
    then show ?thesis using "1.prems" "1.IH" digit_char[of "n mod 10"] by (auto simp: dec_nat_ge[of n])
  qed
qed

lemma dec_nat_nonempty: "dec_nat n \<noteq> []"
  by (subst dec_nat.simps) simp

lemma digits_val_snoc: "digits_val (s @ [c]) = 10 * digits_val s + (of_char c - 48)"
  by (simp add: digits_val_def)

lemma digits_val_dec_nat: "digits_val (dec_nat n) = int n"
proof (induction n rule: dec_nat.induct)
  case (1 n)
  show ?case
  proof (cases "n < 10")
    case True
    then show ?thesis by (simp add: dec_nat_less digits_val_def of_char_digit_int)
  next
    case False
    have "10 * int (n div 10) + int (n mod 10) = int n" by presburger
    then show ?thesis using False "1.IH" of_char_digit_int[of "n mod 10"]
      by (simp add: dec_nat_ge[of n] digits_val_snoc)
  qed
qed

lemma not_digit_special: "\<not> is_digit (CHR ''-'')" "\<not> is_digit (CHR ''+'')" "\<not> is_digit (CHR ''_'')"
  by (simp_all add: is_digit_def)

lemma digit_not_space: "is_digit c \<Longrightarrow> \<not> is_space c"
  by (auto simp: is_digit_def is_space_def)

lemma takeWhile_dec_nat:
  assumes "rest \<noteq> [] \<Longrightarrow> \<not> is_digit (hd rest)"
  shows "takeWhile is_digit (dec_nat n @ rest) = dec_nat n"
proof -
  have "takeWhile is_digit rest = []" using assms by (cases rest) auto
  then show ?thesis using takeWhile_append2[of "dec_nat n" is_digit rest] dec_nat_digits by simp
qed

text \<open>What \<open>sprintf\<close> printed, \<open>atoi\<close> reads, up to the first character that is no digit.\<close>

lemma atoi_dec_append:
  assumes "rest \<noteq> [] \<Longrightarrow> \<not> is_digit (hd rest)"
  shows "atoi (dec n @ rest) = n"
proof (cases "n < 0")
  case True
  then show ?thesis using takeWhile_dec_nat[of rest "nat (- n)"] assms
    by (simp add: atoi_def dec_def is_space_def digits_val_dec_nat)
next
  case False
  obtain c t where ct: "dec_nat (nat n) = c # t" using dec_nat_nonempty[of "nat n"] by (cases "dec_nat (nat n)") auto
  then have "is_digit c" using dec_nat_digits[of c "nat n"] by simp
  then have c: "\<not> is_space c" "c \<noteq> CHR ''-''" "c \<noteq> CHR ''+''"
    using digit_not_space not_digit_special by auto
  have "dropWhile is_space (dec n @ rest) = dec_nat (nat n) @ rest"
    using False ct c by (simp add: dec_def)
  have "atoi (dec n @ rest) = digits_val (takeWhile is_digit (dec_nat (nat n) @ rest))"
    unfolding atoi_def \<open>dropWhile is_space (dec n @ rest) = dec_nat (nat n) @ rest\<close>
    using c by (simp add: ct)
  then show ?thesis using takeWhile_dec_nat[OF assms, of "nat n"] False
    by (simp add: digits_val_dec_nat)
qed

lemma atoi_dec: "atoi (dec n) = n"
  using atoi_dec_append[of "[]" n] by simp

lemma dec_no_underscore: "CHR ''_'' \<notin> set (dec n)"
  using dec_nat_digits[of "CHR ''_''"] not_digit_special(3) by (auto simp: dec_def)

lemma dec_nat_length: "n < 10 ^ k \<Longrightarrow> 0 < k \<Longrightarrow> length (dec_nat n) \<le> k"
proof (induction k arbitrary: n)
  case (Suc k)
  show ?case
  proof (cases "n < 10")
    case False
    then have "k \<noteq> 0" using Suc.prems by (cases k) auto
    moreover have "n div 10 < 10 ^ k" using Suc.prems(1) by (simp add: div_less_iff_less_mult mult.commute)
    ultimately show ?thesis using False Suc.IH[of "n div 10"] by (simp add: dec_nat_ge[of n])
  qed (simp add: dec_nat_less)
qed simp

lemma dec_length: "- (2 ^ 31) \<le> n \<Longrightarrow> n < 2 ^ 31 \<Longrightarrow> length (dec n) \<le> 11"
proof -
  assume n: "- (2 ^ 31) \<le> n" "n < 2 ^ 31"
  have "nat n < 10 ^ 10" "nat (- n) < 10 ^ 10" using n by simp_all
  then have "length (dec_nat (nat n)) \<le> 10" "length (dec_nat (nat (- n))) \<le> 10"
    using dec_nat_length[of _ 10] by simp_all
  then show ?thesis by (simp add: dec_def)
qed

lemma takeWhile_field:
  "CHR ''_'' \<notin> set tok \<Longrightarrow> takeWhile (\<lambda>c. c \<noteq> CHR ''_'') (tok @ CHR ''_'' # rest) = tok"
  by (induction tok) auto

lemma parseValue_field:
  assumes "- (2 ^ 31) \<le> n" and "n < 2 ^ 31"
  shows "parseValue (length pre) (pre @ dec n @ CHR ''_'' # rest) = Inr (n, length pre + length (dec n) + 1)"
  using dec_length[OF assms] takeWhile_field[OF dec_no_underscore, of n rest] assms
  by (simp add: parseValue_def atoi_dec in_int_def)

section \<open>What \<open>itoa\<close> computes\<close>

lemma myexp_eq: "myexp i = 10 ^ i"
  by (induction i) simp_all

text \<open>The last \<open>i\<close> decimal digits of a number.\<close>

fun padded :: "nat \<Rightarrow> nat \<Rightarrow> string" where
  "padded 0 m = []"
| "padded (Suc i) m = digit_chr (m div 10 ^ i) # padded i (m mod 10 ^ i)"

lemma padded_last: "padded (Suc i) m = padded i (m div 10) @ [digit_chr (m mod 10)]" if "m < 10 ^ Suc i"
  using that
proof (induction i arbitrary: m)
  case (Suc i)
  have "m mod 10 ^ Suc i < 10 ^ Suc i" by simp
  from Suc.IH[OF this] have "padded (Suc i) (m mod 10 ^ Suc i)
      = padded i ((m mod 10 ^ Suc i) div 10) @ [digit_chr ((m mod 10 ^ Suc i) mod 10)]" .
  moreover have "(m mod 10 ^ Suc i) div 10 = (m div 10) mod 10 ^ i"
    by (simp add: mod_mult2_eq)
  moreover have "(m mod 10 ^ Suc i) mod 10 = m mod 10" by (simp add: mod_mod_cancel)
  moreover have "m div 10 ^ Suc i = m div 10 div 10 ^ i" by (simp add: div_mult2_eq)
  ultimately show ?case by (simp del: power_Suc)
qed simp

lemma dec_nat_padded: "m < 10 ^ k \<Longrightarrow> 10 ^ (k - 1) \<le> m \<or> k = 1 \<Longrightarrow> 0 < k \<Longrightarrow> dec_nat m = padded k m"
proof (induction k arbitrary: m)
  case (Suc k)
  show ?case
  proof (cases "k = 0")
    case True
    then show ?thesis using Suc.prems by (simp add: dec_nat_less)
  next
    case False
    then obtain j where j: "k = Suc j" by (cases k) auto
    have "10 ^ k \<le> m" using Suc.prems(2) False by simp
    then have ge: "\<not> m < 10" using j by (metis dual_order.strict_trans1 less_le_not_le one_le_numeral power_increasing power_one_right le_add1 plus_1_eq_Suc)
    have lt: "m div 10 < 10 ^ k" using Suc.prems(1) by (simp add: div_less_iff_less_mult mult.commute)
    have "10 ^ (k - 1) \<le> m div 10" using \<open>10 ^ k \<le> m\<close> j by (simp add: less_eq_div_iff_mult_less_eq mult.commute)
    then have "dec_nat (m div 10) = padded k (m div 10)" using Suc.IH[OF lt] False by simp
    then show ?thesis using ge padded_last[OF Suc.prems(1)] by (simp add: dec_nat_ge[of m])
  qed
qed simp

lemma itoa_digits_padded:
  "0 \<le> val - subval \<Longrightarrow> val - subval < 10 ^ i \<Longrightarrow> itoa_digits i val subval = padded i (nat (val - subval))"
proof (induction i arbitrary: subval)
  case (Suc i)
  let ?m = "val - subval"
  have q: "?m sdiv 10 ^ i = ?m div 10 ^ i" using Suc.prems by (simp add: sdiv_nonneg)
  have "?m < 10 * 10 ^ i" using Suc.prems(2) by simp
  moreover have "?m div 10 ^ i * 10 ^ i \<le> ?m" by (simp add: minus_mod_eq_div_mult [symmetric])
  ultimately have "?m div 10 ^ i * 10 ^ i < 10 * 10 ^ i" by linarith
  then have "?m div 10 ^ i < 10" by (rule mult_right_less_imp_less) simp
  moreover have "0 \<le> ?m div 10 ^ i" using Suc.prems(1) by (simp add: pos_imp_zdiv_nonneg_iff)
  ultimately have d: "0 \<le> ?m div 10 ^ i" "?m div 10 ^ i < 10" by blast+
  have r: "val - (subval + ?m div 10 ^ i * 10 ^ i) = ?m mod 10 ^ i"
    by (simp add: minus_div_mult_eq_mod [symmetric])
  have "(48 + ?m div 10 ^ i) mod 256 = 48 + ?m div 10 ^ i" using d by simp
  then have "char_of (nat ((48 + ?m div 10 ^ i) mod 256)) = digit_chr (nat ?m div 10 ^ i)"
    using d Suc.prems by (simp add: digit_chr_def nat_add_distrib nat_div_distrib nat_power_eq)
  moreover have "itoa_digits i val (subval + ?m div 10 ^ i * 10 ^ i) = padded i (nat (?m mod 10 ^ i))"
    using Suc.IH[of "subval + ?m div 10 ^ i * 10 ^ i"] unfolding r by simp
  moreover have "nat (?m mod 10 ^ i) = nat ?m mod 10 ^ i"
    using Suc.prems by (simp add: nat_mod_distrib nat_power_eq)
  ultimately show ?case by (simp add: Let_def q myexp_eq)
qed simp

lemma itoa_max_digits:
  assumes "0 \<le> val" and "val < 10 ^ 9"
  shows "\<exists>max. itoa_max val = Inr max \<and> max < 9 \<and> val < 10 ^ Suc max \<and> (10 ^ max \<le> val \<or> max = 0)"
proof -
  have z: "(val sdiv myexp i = 0) = (val < 10 ^ i)" for i
    using assms(1) by (auto simp: sdiv_nonneg myexp_eq div_eq_0_iff zdiv_eq_0_iff not_less)
  obtain k where k: "find (\<lambda>i. val sdiv myexp i = 0) [1..<10] = Some k" "1 \<le> k" "k < 10" "val < 10 ^ k"
    "\<forall>j. 1 \<le> j \<and> j < k \<longrightarrow> \<not> val < 10 ^ j"
  proof -
    define k where "k = (LEAST i. 1 \<le> i \<and> val < 10 ^ i)"
    have ex: "1 \<le> (9 :: nat) \<and> val < 10 ^ 9" using assms by simp
    have k: "1 \<le> k \<and> val < 10 ^ k" unfolding k_def by (rule LeastI[of _ 9]) (rule ex)
    have min: "\<not> val < 10 ^ j" if "1 \<le> j" "j < k" for j
      using not_less_Least[of j "\<lambda>i. 1 \<le> i \<and> val < 10 ^ i"] that unfolding k_def by simp
    have min': "\<not> val < 10 ^ Suc j" if "j < k - 1" for j using min[of "Suc j"] that by simp
    have le: "k \<le> 9" unfolding k_def by (rule Least_le) (rule ex)
    have "find (\<lambda>i. val sdiv myexp i = 0) [1..<10] = Some k"
      unfolding find_Some_iff z using k min le
      by (intro exI[of _ "k - 1"]) (use min' in \<open>auto simp del: upt_Suc power_Suc simp: less_diff_conv\<close>)
    then show ?thesis using that k min le by auto
  qed
  have "val < 10 ^ Suc (k - 1)" using k by simp
  moreover have "10 ^ (k - 1) \<le> val \<or> k - 1 = 0" using k(5)[rule_format, of "k - 1"] k(2) by (cases "k = 1") (auto simp: not_less)
  ultimately show ?thesis using k by (intro exI[of _ "k - 1"]) (simp add: itoa_max_def)
qed

lemma padded_chars: "m < 10 ^ i \<Longrightarrow> c \<in> set (padded i m) \<Longrightarrow> is_digit c"
proof (induction i arbitrary: m)
  case (Suc i)
  have "m div 10 ^ i < 10" using Suc.prems(1) by (simp add: div_less_iff_less_mult)
  then show ?case using Suc.prems(2) Suc.IH[of "m mod 10 ^ i"] digit_char by auto
qed simp

lemma padded_length [simp]: "length (padded i m) = i"
  by (induction i arbitrary: m) simp_all

lemma takeWhile_no_nul: "NUL \<notin> set s \<Longrightarrow> takeWhile (\<lambda>c. c \<noteq> NUL) (s @ replicate (Suc n) NUL) = s"
  by (subst takeWhile_append2) auto

lemma nul_not_digit: "\<not> is_digit NUL"
  by (simp add: is_digit_def)

lemma itoa_digits_dec:
  assumes "0 \<le> val" and "val < 10 ^ 9"
  shows "itoa sz val = (if length (dec val) > sz then Inl Undefined_behaviour
      else Inr (dec val @ replicate (sz - length (dec val)) NUL))"
    and "NUL \<notin> set (dec val)"
proof -
  obtain m where m: "itoa_max val = Inr m" "m < 9" "val < 10 ^ Suc m" "10 ^ m \<le> val \<or> m = 0"
    using itoa_max_digits[OF assms] by blast
  have lt: "nat val < 10 ^ Suc m" using assms(1) m(3) by (simp add: nat_less_iff)
  have ge: "10 ^ (Suc m - 1) \<le> nat val \<or> Suc m = 1" using assms(1) m(4) by (simp add: le_nat_iff)
  have d: "dec val = padded (Suc m) (nat val)"
    using dec_nat_padded[OF lt ge] assms(1) by (simp add: dec_def)
  then have l: "length (dec val) = Suc m" by (simp del: padded.simps)
  have "itoa_digits (Suc m) val 0 = dec val"
    using itoa_digits_padded[of val 0 "Suc m"] assms(1) m(3) d by simp
  then show "itoa sz val = (if length (dec val) > sz then Inl Undefined_behaviour
      else Inr (dec val @ replicate (sz - length (dec val)) NUL))"
    using m(1) unfolding l by (simp add: itoa_def del: itoa_digits.simps)
  show "NUL \<notin> set (dec val)" using padded_chars[OF lt] nul_not_digit unfolding d by blast
qed

text \<open>
  \<open>itoa\<close> into an array of \<open>sz\<close> characters, read back as a C string, gives the decimal digits
  of a number from 0 to 999999999 when they leave room for the NUL. When the number has exactly
  \<open>sz\<close> digits the array has no NUL and reading it as a string is undefined, and with more digits
  \<open>itoa\<close> itself writes past the array.
\<close>

theorem itoa_exact:
  assumes "0 \<le> val" and "val < 10 ^ 9"
  shows "(length (dec val) < sz \<longrightarrow>
           (\<exists>arr. itoa sz val = Inr arr \<and> length arr = sz \<and> c_string arr = Inr (dec val) \<and> atoi (dec val) = val))
       \<and> (length (dec val) = sz \<longrightarrow>
           (\<exists>arr. itoa sz val = Inr arr \<and> c_string arr = Inl Undefined_behaviour))
       \<and> (sz < length (dec val) \<longrightarrow> itoa sz val = Inl Undefined_behaviour)"
proof (intro conjI impI)
  note i = itoa_digits_dec[OF assms]
  show "\<exists>arr. itoa sz val = Inr arr \<and> length arr = sz \<and> c_string arr = Inr (dec val) \<and> atoi (dec val) = val"
    if lt: "length (dec val) < sz"
  proof -
    obtain n where n: "sz = Suc (length (dec val) + n)" using less_imp_Suc_add[OF lt] by blast
    have "itoa sz val = Inr (dec val @ replicate (Suc n) NUL)"
      unfolding n i(1) by (simp add: Suc_diff_le)
    moreover have "c_string (dec val @ replicate (Suc n) NUL) = Inr (dec val)"
      using takeWhile_no_nul[OF i(2), of n] by (simp add: c_string_def)
    ultimately show ?thesis unfolding n by (auto simp: atoi_dec)
  qed
  show "\<exists>arr. itoa sz val = Inr arr \<and> c_string arr = Inl Undefined_behaviour" if "length (dec val) = sz"
    using i(1)[of sz] i(2) that by (simp add: c_string_def)
  show "itoa sz val = Inl Undefined_behaviour" if "sz < length (dec val)"
    using i(1)[of sz] that by simp
qed

theorem itoa_exact_witness:
  "(\<exists>arr. itoa 5 9999 = Inr arr \<and> c_string arr = Inr (dec 9999))
    \<and> (\<exists>arr. itoa 5 10000 = Inr arr \<and> c_string arr = Inl Undefined_behaviour)"
proof -
  have n9: "(0::int) \<le> 9999" "(9999::int) < 10 ^ 9" and n10: "(0::int) \<le> 10000" "(10000::int) < 10 ^ 9"
    by simp_all
  have "length (dec 9999) = 4" and "length (dec 10000) = 5"
    by (simp_all add: dec_def dec_nat_less dec_nat_ge)
  then have "length (dec 9999) < 5" and "length (dec 10000) = 5" by linarith+
  then show ?thesis
    using itoa_exact[of 9999 5, OF n9, THEN conjunct1] itoa_exact[of 10000 5, OF n10, THEN conjunct2, THEN conjunct1]
    by blast
qed

text \<open>
  what \<open>itoa\<close> makes of a negative number down to -9, such as the error code -6 that
  \<open>sendError\<close> sends, is one character that is not a digit, and \<open>atoi\<close> at the receiver reads 0.
\<close>

theorem itoa_negative_reads_zero:
  assumes "- 9 \<le> val" and "val < 0" and "2 \<le> sz"
  shows "\<exists>c. bindE (itoa sz val) c_string = Inr [c] \<and> \<not> is_digit c \<and> atoi [c] = 0"
proof -
  have v: "val = -9 \<or> val = -8 \<or> val = -7 \<or> val = -6 \<or> val = -5 \<or> val = -4 \<or> val = -3 \<or> val = -2 \<or> val = -1"
    using assms(1,2) by arith
  obtain n where n: "sz = Suc (Suc n)" using assms(3) by (metis add_2_eq_Suc le_Suc_ex)
  have "val sdiv 10 = 0" using v by (elim disjE) (simp_all add: signed_divide_int_def)
  moreover have "[1..<10] = Suc 0 # [2..<10]" by code_simp
  ultimately have "itoa_max val = Inr 0" by (simp add: itoa_max_def)
  then have "bindE (itoa sz val) c_string = c_string (char_of (nat ((48 + val) mod 256)) # NUL # replicate n NUL)"
    unfolding n using v by (elim disjE) (simp_all add: itoa_def signed_divide_int_def)
  then show ?thesis using v
    by (elim disjE) (simp_all add: c_string_def is_digit_def atoi_def is_space_def digits_val_def char_of_def)
qed

theorem itoa_negative_witness: "\<exists>c. bindE (itoa 4 (- 6)) c_string = Inr [c] \<and> \<not> is_digit c \<and> atoi [c] = 0"
  by (rule itoa_negative_reads_zero) simp_all

text \<open>
  a request printed as \<open>"%d_%s"\<close> comes apart again at the receiver: \<open>parseValue\<close> gives the
  request's number and the index at which its data starts, for every \<open>int\<close> number, wherever the
  field stands in the message and whatever follows it.
\<close>

theorem request_round_trip:
  assumes "- (2 ^ 31) \<le> n" and "n < 2 ^ 31"
  shows "\<exists>i. parseValue (length pre) (pre @ dec n @ CHR ''_'' # rest) = Inr (n, i)
    \<and> drop i (pre @ dec n @ CHR ''_'' # rest) = rest"
  using parseValue_field[OF assms, of pre rest] by simp

theorem request_round_trip_witness:
  "\<exists>i. parseValue 0 ([] @ dec 17 @ CHR ''_'' # ''2_3lk'') = Inr (17, i)
    \<and> drop i ([] @ dec 17 @ CHR ''_'' # ''2_3lk'') = ''2_3lk''"
  using request_round_trip[of 17 "[]" "''2_3lk''"] by simp

end
