(* ===== verification/PostOffice.thy ===== *)
theory PostOffice
  imports CStrings
begin

text \<open>
  The post office (\<open>network/post.cc\<close>, \<open>network/post.h\<close>, \<open>network/unackedmessage.h\<close>) with the
  acknowledgement functions \<open>processAck\<close> and \<open>Ack\<close> of \<open>network/netcall.cc\<close>: messages with
  counters and time stamps, resent until they are acknowledged.

  The state \<open>post\<close> is what one kernel thread sees of its machine: the machine's address and
  mailboxes, the list of unacknowledged messages, the thread's own counters, and the packets it
  handed to the network so far. The answers of \<open>gettimeofday\<close> and of the socket are sequences of
  the environment, read in order. A mailbox is the content of its \<open>SynchList\<close>. The data of a
  message is a C string. Each operation is one step: the locks it takes are free when it runs.
\<close>

section \<open>Time stamps\<close>

datatype timeval = Timeval (tv_sec: int) (tv_usec: int)

instantiation timeval :: linorder
begin

definition less_timeval :: "timeval \<Rightarrow> timeval \<Rightarrow> bool" where
  "less_timeval a b \<longleftrightarrow> tv_sec a < tv_sec b \<or> (tv_sec a = tv_sec b \<and> tv_usec a < tv_usec b)"

definition less_eq_timeval :: "timeval \<Rightarrow> timeval \<Rightarrow> bool" where
  "less_eq_timeval a b \<longleftrightarrow> tv_sec a < tv_sec b \<or> (tv_sec a = tv_sec b \<and> tv_usec a \<le> tv_usec b)"

instance
proof
  fix x y z :: timeval
  show "(x < y) = (x \<le> y \<and> \<not> y \<le> x)" by (auto simp: less_timeval_def less_eq_timeval_def)
  show "x \<le> x" by (simp add: less_eq_timeval_def)
  show "x \<le> y \<Longrightarrow> y \<le> z \<Longrightarrow> x \<le> z" by (auto simp: less_eq_timeval_def)
  show "x \<le> y \<Longrightarrow> y \<le> x \<Longrightarrow> x = y" by (auto simp: less_eq_timeval_def intro: timeval.expand)
  show "x \<le> y \<or> y \<le> x" by (auto simp: less_eq_timeval_def)
qed

end

section \<open>Headers and messages\<close>

record PacketHeader =
  pk_to :: int
  pk_from :: int
  pk_length :: nat

record MailHeader =
  mb_to :: int
  mb_from :: int
  mb_length :: nat

abbreviation (input) MaxWireSize :: nat where "MaxWireSize \<equiv> 64"
abbreviation (input) sizeof_PacketHeader :: nat where "sizeof_PacketHeader \<equiv> 12"
abbreviation (input) sizeof_MailHeader :: nat where "sizeof_MailHeader \<equiv> 12"
abbreviation (input) sizeof_timeval :: nat where "sizeof_timeval \<equiv> 8"
abbreviation (input) MaxPacketSize :: nat where "MaxPacketSize \<equiv> MaxWireSize - sizeof_PacketHeader"

lemma MaxMailSize_eq: "MaxMailSize = MaxPacketSize - sizeof_MailHeader - sizeof_timeval"
  by simp

record Mail =
  pktHdr :: PacketHeader
  mailHdr :: MailHeader
  timeStamp :: timeval
  mdata :: string

record UnAckedMessage = Mail +
  lastTimeSent :: timeval

record ThreadCounterEntry =
  machineID :: int
  mailID :: int
  counter :: int

record post =
  netAddr :: int
  numBoxes :: int
  boxes :: "int \<Rightarrow> Mail list"
  unAckedMessages :: "UnAckedMessage list"
  thisMail :: int                          \<comment> \<open>\<open>currentThread->mailID\<close>\<close>
  sendCounters :: "ThreadCounterEntry list"
  receiveCounters :: "ThreadCounterEntry list"
  sent :: "Mail list"                      \<comment> \<open>packets handed to the network\<close>
  clock :: "nat \<Rightarrow> timeval"                \<comment> \<open>answers of \<open>gettimeofday\<close>\<close>
  reads :: nat
  socket_ok :: "nat \<Rightarrow> bool"               \<comment> \<open>answers of \<open>SendToSocket\<close>\<close>

definition gettimeofday :: "'a post_scheme \<Rightarrow> timeval \<times> 'a post_scheme" where
  "gettimeofday s = (clock s (reads s), s\<lparr>reads := reads s + 1\<rparr>)"

text \<open>The comparison that identifies a message: both addresses of both headers and the time.\<close>

definition same_message :: "PacketHeader \<Rightarrow> MailHeader \<Rightarrow> timeval \<Rightarrow> 'a Mail_scheme \<Rightarrow> bool" where
  "same_message p m t u \<longleftrightarrow>
     pk_to (pktHdr u) = pk_to p \<and> pk_from (pktHdr u) = pk_from p \<and>
     mb_to (mailHdr u) = mb_to m \<and> mb_from (mailHdr u) = mb_from m \<and> timeStamp u = t"

definition UnAckedMessage_new :: "timeval \<Rightarrow> timeval \<Rightarrow> PacketHeader \<Rightarrow> MailHeader \<Rightarrow> string \<Rightarrow> UnAckedMessage" where
  "UnAckedMessage_new lastT t p m d =
     \<lparr>pktHdr = p, mailHdr = m, timeStamp = t, mdata = d, lastTimeSent = lastT\<rparr>"

text \<open>The loops that change or remove the first entry of a vector that passes a test.\<close>

fun update_first :: "('a \<Rightarrow> bool) \<Rightarrow> ('a \<Rightarrow> 'a) \<Rightarrow> 'a list \<Rightarrow> 'a list" where
  "update_first P f [] = []"
| "update_first P f (x # xs) = (if P x then f x # xs else x # update_first P f xs)"

fun erase_first :: "('a \<Rightarrow> bool) \<Rightarrow> 'a list \<Rightarrow> 'a list" where
  "erase_first P [] = []"
| "erase_first P (x # xs) = (if P x then xs else x # erase_first P xs)"

definition counts_for :: "int \<Rightarrow> int \<Rightarrow> ThreadCounterEntry \<Rightarrow> bool" where
  "counts_for mach box e \<longleftrightarrow> machineID e = mach \<and> mailID e = box"

definition ThreadCounterEntry_new :: "int \<Rightarrow> int \<Rightarrow> ThreadCounterEntry" where
  "ThreadCounterEntry_new mach box = \<lparr>machineID = mach, mailID = box, counter = 0\<rparr>"

definition count_up :: "ThreadCounterEntry \<Rightarrow> ThreadCounterEntry" where
  "count_up e = e\<lparr>counter := counter e + 1\<rparr>"

section \<open>\<open>PostOffice::Send\<close>\<close>

text \<open>\<open>Network::Send\<close>: the header checks, then the packet goes to the socket or is dropped.\<close>

definition Network_Send :: "Mail \<Rightarrow> 'a post_scheme \<Rightarrow> (bool \<times> 'a post_scheme) result" where
  "Network_Send pkt s =
     bindE (assertE (0 < pk_length (pktHdr pkt) \<and> pk_length (pktHdr pkt) \<le> MaxPacketSize
                     \<and> pk_from (pktHdr pkt) = netAddr s)) (\<lambda>_.
     Inr (socket_ok s (length (sent s)), s\<lparr>sent := sent s @ [pkt]\<rparr>))"

text \<open>\<open>sprintf\<close> into the array \<open>tmp[MaxMailSize]\<close>.\<close>

definition into_tmp :: "string \<Rightarrow> string result" where
  "into_tmp d = (if length d \<ge> MaxMailSize then Inl Undefined_behaviour else Inr d)"

text \<open>The counter a new message carries, and the thread's table afterwards. An Ack carries -1.\<close>

definition next_counter :: "bool \<Rightarrow> int \<Rightarrow> int \<Rightarrow> ThreadCounterEntry list \<Rightarrow> int \<times> ThreadCounterEntry list" where
  "next_counter doAck mach box tbl =
     (if \<not> doAck then (-1, tbl)
      else (case find (counts_for mach box) tbl of
              Some e \<Rightarrow> (counter e + 1, update_first (counts_for mach box) count_up tbl)
            | None \<Rightarrow> (0, tbl @ [ThreadCounterEntry_new mach box])))"

definition finish_send :: "PacketHeader \<Rightarrow> MailHeader \<Rightarrow> timeval \<Rightarrow> string \<Rightarrow> 'a post_scheme \<Rightarrow> (bool \<times> 'a post_scheme) result" where
  "finish_send p m t tmp s =
     Network_Send \<lparr>pktHdr = p\<lparr>pk_length := mb_length m + sizeof_MailHeader + sizeof_timeval\<rparr>,
                   mailHdr = m, timeStamp = t, mdata = tmp\<rparr> s"

definition Send :: "PacketHeader \<Rightarrow> MailHeader \<Rightarrow> timeval \<Rightarrow> string \<Rightarrow> bool \<Rightarrow> 'a post_scheme \<Rightarrow> (bool \<times> 'a post_scheme) result" where
  "Send p0 m t d doAck s =
     bindE (assertE (mb_length m \<le> MaxMailSize)) (\<lambda>_.
     bindE (assertE (0 \<le> mb_to m \<and> mb_to m < numBoxes s)) (\<lambda>_.
     let p = p0\<lparr>pk_from := netAddr s\<rparr> in
     if list_ex (same_message p m t) (unAckedMessages s) then
       (let (now, s1) = gettimeofday s;
            s2 = s1\<lparr>unAckedMessages :=
                   update_first (same_message p m t) (\<lambda>u. u\<lparr>lastTimeSent := now\<rparr>) (unAckedMessages s1)\<rparr>
        in bindE (into_tmp d) (\<lambda>tmp.
           bindE (assertE (length tmp + 1 < MaxMailSize)) (\<lambda>_.
           finish_send p (m\<lparr>mb_length := length tmp + 1\<rparr>) t tmp s2)))
     else
       (let (c, tbl) = next_counter doAck (pk_to p) (mb_to m) (sendCounters s);
            s1 = s\<lparr>sendCounters := tbl\<rparr>
        in bindE (into_tmp (dec c @ CHR ''_'' # d)) (\<lambda>tmp.
           bindE (assertE (length tmp + 1 < MaxMailSize)) (\<lambda>_.
           let m1 = m\<lparr>mb_length := length tmp + 1\<rparr>;
               s2 = (if doAck
                     then s1\<lparr>unAckedMessages := unAckedMessages s1 @ [UnAckedMessage_new t t p m1 tmp]\<rparr>
                     else s1)
           in finish_send p m1 t tmp s2)))))"

text \<open>The variant that stamps the message with the current time.\<close>

definition Send_now :: "PacketHeader \<Rightarrow> MailHeader \<Rightarrow> string \<Rightarrow> bool \<Rightarrow> 'a post_scheme \<Rightarrow> (bool \<times> 'a post_scheme) result" where
  "Send_now p m d doAck s = (let (t, s1) = gettimeofday s in Send p m t d doAck s1)"

text \<open>\<open>if (!postOffice->Send(...)) interrupt->Halt();\<close>\<close>

definition halt_unless_sent :: "(bool \<times> 'a post_scheme) result \<Rightarrow> 'a post_scheme result" where
  "halt_unless_sent r = bindE r (\<lambda>(ok, s). if ok then Inr s else Inl Machine_halted)"

section \<open>Delivery and \<open>PostOffice::Receive\<close>\<close>

text \<open>One round of the postal worker: the packet that the network has buffered goes to its box.\<close>

definition MailBox_Put :: "int \<Rightarrow> Mail \<Rightarrow> 'a post_scheme \<Rightarrow> 'a post_scheme result" where
  "MailBox_Put b pkt s =
     bindE (assertE (mb_length (mailHdr pkt) \<le> MaxMailSize)) (\<lambda>_.
     Inr (s\<lparr>boxes := (boxes s)(b := boxes s b @ [pkt])\<rparr>))"

definition PostalDelivery :: "Mail \<Rightarrow> 'a post_scheme \<Rightarrow> 'a post_scheme result" where
  "PostalDelivery pkt s =
     bindE (assertE (0 \<le> mb_to (mailHdr pkt) \<and> mb_to (mailHdr pkt) < numBoxes s)) (\<lambda>_.
     bindE (assertE (mb_length (mailHdr pkt) \<le> MaxMailSize)) (\<lambda>_.
     MailBox_Put (mb_to (mailHdr pkt)) pkt s))"

text \<open>
  What \<open>Receive\<close> does with one message of the box: its data after the counter, whether it is
  returned to the caller, and the counters. Without an underscore the loop copies bytes behind
  the message.
\<close>

definition accept :: "Mail \<Rightarrow> ThreadCounterEntry list \<Rightarrow> (bool \<times> string \<times> ThreadCounterEntry list) result" where
  "accept pkt tbl =
     bindE (parseValue 0 (mdata pkt)) (\<lambda>(c, index).
     if index > length (mdata pkt) then Inl Undefined_behaviour
     else
       (let peer = counts_for (pk_from (pktHdr pkt)) (mb_from (mailHdr pkt));
            d = drop index (mdata pkt)
        in (case (if c \<ge> 0 then find peer tbl else None) of
              Some e \<Rightarrow> Inr (True, d, if counter e + 1 = c then update_first peer count_up tbl else tbl)
            | None \<Rightarrow>
                if c = 0 then
                  Inr (True, d, tbl @ [ThreadCounterEntry_new (pk_from (pktHdr pkt)) (mb_from (mailHdr pkt))])
                else Inr (c < 0, d, tbl))))"

text \<open>
  The loop: messages that are not accepted are thrown away. \<open>None\<close> means that the box ran empty
  and the thread waits.
\<close>

fun receive_loop :: "Mail list \<Rightarrow> ThreadCounterEntry list \<Rightarrow> ((Mail \<times> string) option \<times> Mail list \<times> ThreadCounterEntry list) result" where
  "receive_loop [] tbl = Inr (None, [], tbl)"
| "receive_loop (pkt # rest) tbl =
     bindE (accept pkt tbl) (\<lambda>(ok, d, tbl1).
     if ok then
       bindE (assertE (mb_length (mailHdr pkt) \<le> MaxMailSize)) (\<lambda>_. Inr (Some (pkt, d), rest, tbl1))
     else receive_loop rest tbl1)"

definition Receive :: "int \<Rightarrow> 'a post_scheme \<Rightarrow> ((Mail \<times> string) option \<times> 'a post_scheme) result" where
  "Receive box s =
     bindE (assertE (0 \<le> box \<and> box < numBoxes s)) (\<lambda>_.
     bindE (receive_loop (boxes s box) (receiveCounters s)) (\<lambda>(got, rest, tbl).
     Inr (got, s\<lparr>boxes := (boxes s)(box := rest), receiveCounters := tbl\<rparr>)))"

section \<open>Acknowledgements\<close>

text \<open>The request types, and the number each has in a message.\<close>

datatype RequestType =
    CREATELOCK | ACQUIRE | RELEASE | DESTROYLOCK | CREATECV | SIGNAL | BROADCAST | WAIT | DESTROYCV
  | CREATEMV | SETMV | GETMV | DESTROYMV | CREATELOCKVERIFY | CREATECVVERIFY | CREATEMVVERIFY
  | CREATELOCKANSWER | CREATECVANSWER | CREATEMVANSWER | SIGNALLOCK | SIGNALRESPONSE
  | BROADCASTLOCK | BROADCASTRESPONSE | WAITCV | WAITRESPONSE | STARTUSERPROGRAM | REGNETTHREAD
  | REGNETTHREADRESPONSE | GROUPINFO | ACK | TIMESTAMP | INVALIDTYPE

primrec req :: "RequestType \<Rightarrow> int" where
  "req CREATELOCK = 0" | "req ACQUIRE = 1" | "req RELEASE = 2" | "req DESTROYLOCK = 3" | "req CREATECV = 4"
| "req SIGNAL = 5" | "req BROADCAST = 6" | "req WAIT = 7" | "req DESTROYCV = 8" | "req CREATEMV = 9"
| "req SETMV = 10" | "req GETMV = 11" | "req DESTROYMV = 12" | "req CREATELOCKVERIFY = 13"
| "req CREATECVVERIFY = 14" | "req CREATEMVVERIFY = 15" | "req CREATELOCKANSWER = 16"
| "req CREATECVANSWER = 17" | "req CREATEMVANSWER = 18" | "req SIGNALLOCK = 19" | "req SIGNALRESPONSE = 20"
| "req BROADCASTLOCK = 21" | "req BROADCASTRESPONSE = 22" | "req WAITCV = 23" | "req WAITRESPONSE = 24"
| "req STARTUSERPROGRAM = 25" | "req REGNETTHREAD = 26" | "req REGNETTHREADRESPONSE = 27"
| "req GROUPINFO = 28" | "req ACK = 29" | "req TIMESTAMP = 30" | "req INVALIDTYPE = 31"

text \<open>\<open>processAck\<close>: the acknowledged message has the addresses of the Ack swapped and its time.\<close>

definition acked_by :: "PacketHeader \<Rightarrow> MailHeader \<Rightarrow> timeval \<Rightarrow> UnAckedMessage \<Rightarrow> bool" where
  "acked_by inP inM t u \<longleftrightarrow>
     pk_from (pktHdr u) = pk_to inP \<and> pk_to (pktHdr u) = pk_from inP \<and>
     mb_from (mailHdr u) = mb_to inM \<and> mb_to (mailHdr u) = mb_from inM \<and> timeStamp u = t"

definition processAck :: "PacketHeader \<Rightarrow> MailHeader \<Rightarrow> timeval \<Rightarrow> 'a post_scheme \<Rightarrow> bool \<times> 'a post_scheme" where
  "processAck inP inM t s =
     (list_ex (acked_by inP inM t) (unAckedMessages s),
      s\<lparr>unAckedMessages := erase_first (acked_by inP inM t) (unAckedMessages s)\<rparr>)"

text \<open>
  \<open>Ack\<close>: a message from this machine's own pair of threads is struck off the list directly, any
  other is answered by an Ack with the time stamp of the message. The fields of the Ack's headers
  that the code leaves unset are the lengths, which \<open>Send\<close> sets.
\<close>

definition Ack :: "PacketHeader \<Rightarrow> MailHeader \<Rightarrow> timeval \<Rightarrow> 'a post_scheme \<Rightarrow> 'a post_scheme result" where
  "Ack inP inM t s =
     (if pk_from inP = netAddr s \<and>
         (mb_from inM = thisMail s \<or> mb_from inM = thisMail s + 1 \<or> mb_from inM = thisMail s - 1)
      then Inr (s\<lparr>unAckedMessages := erase_first (same_message inP inM t) (unAckedMessages s)\<rparr>)
      else
        (let request = dec (req ACK) @ ''_'';
             outP = \<lparr>pk_to = pk_from inP, pk_from = netAddr s, pk_length = 0\<rparr>;
             outM = \<lparr>mb_to = mb_from inM, mb_from = thisMail s, mb_length = length request + 1\<rparr>
         in halt_unless_sent (Send outP outM t request False s)))"

section \<open>The resend thread\<close>

text \<open>
  One round of \<open>MsgResendInterruptHandler\<close> over the vector, index by index: a message that was not
  sent for more than two seconds is sent again. \<open>Send\<close> may append nothing here, because the message
  is in the list; \<open>time(NULL)\<close> is read once.
\<close>

abbreviation (input) ResendTimeout :: int where "ResendTimeout \<equiv> 2"

fun resend_from :: "nat \<Rightarrow> nat \<Rightarrow> int \<Rightarrow> 'a post_scheme \<Rightarrow> 'a post_scheme result" where
  "resend_from 0 i now s = Inr s"
| "resend_from (Suc n) i now s =
     (if i < length (unAckedMessages s) then
        (let u = unAckedMessages s ! i in
         if now - tv_sec (lastTimeSent u) > ResendTimeout then
           bindE (Send (pktHdr u) (mailHdr u) (timeStamp u) (mdata u) True s) (\<lambda>(ok, s1).
           resend_from n (i + 1) now s1)
         else resend_from n (i + 1) now s)
      else Inr s)"

definition resend_round :: "'a post_scheme \<Rightarrow> 'a post_scheme result" where
  "resend_round s =
     (let (now, s1) = gettimeofday s in resend_from (length (unAckedMessages s1)) 0 (tv_sec now) s1)"

section \<open>Updating and erasing one entry\<close>

lemma update_first_key:
  assumes "\<And>x. P x \<Longrightarrow> k (f x) = k x"
  shows "map k (update_first P f xs) = map k xs"
  using assms by (induction xs) auto

lemma update_first_length [simp]: "length (update_first P f xs) = length xs"
  by (induction xs) auto

lemma erase_first_map_distinct:
  "distinct (map k xs) \<Longrightarrow> distinct (map k (erase_first P xs))"
proof (induction xs)
  case (Cons x xs)
  have "set (erase_first P xs) \<subseteq> set xs" by (induction xs) auto
  then show ?case using Cons by auto
qed simp

lemma erase_first_unique:
  assumes "\<And>x y. x \<in> set xs \<Longrightarrow> y \<in> set xs \<Longrightarrow> P x \<Longrightarrow> P y \<Longrightarrow> x = y" and "distinct xs"
  shows "erase_first P xs = filter (\<lambda>x. \<not> P x) xs"
  using assms
proof (induction xs)
  case (Cons x xs)
  show ?case
  proof (cases "P x")
    case True
    have "\<not> P y" if "y \<in> set xs" for y
      using Cons.prems(1)[of x y] Cons.prems(2) that True by auto
    then have "filter (\<lambda>x. \<not> P x) xs = xs" by (simp add: filter_id_conv)
    then show ?thesis using True by simp
  next
    case False
    have "erase_first P xs = filter (\<lambda>x. \<not> P x) xs"
      using Cons.prems by (intro Cons.IH) auto
    then show ?thesis using False by simp
  qed
qed simp

section \<open>Well-formed states\<close>

text \<open>
  What identifies a message, the number the next message of a conversation carries or is expected
  to carry, and the invariant of the post office.
\<close>

definition message_key :: "'a Mail_scheme \<Rightarrow> int \<times> int \<times> int \<times> int \<times> timeval" where
  "message_key u =
     (pk_to (pktHdr u), pk_from (pktHdr u), mb_to (mailHdr u), mb_from (mailHdr u), timeStamp u)"

definition expects :: "ThreadCounterEntry list \<Rightarrow> int \<Rightarrow> int \<Rightarrow> int" where
  "expects tbl mach box = (case find (counts_for mach box) tbl of None \<Rightarrow> 0 | Some e \<Rightarrow> counter e + 1)"

definition counters_ok :: "ThreadCounterEntry list \<Rightarrow> bool" where
  "counters_ok tbl \<longleftrightarrow> distinct (map (\<lambda>e. (machineID e, mailID e)) tbl) \<and> (\<forall>e \<in> set tbl. 0 \<le> counter e)"

definition sendable :: "int \<Rightarrow> int \<Rightarrow> UnAckedMessage \<Rightarrow> bool" where
  "sendable addr n u \<longleftrightarrow> pk_from (pktHdr u) = addr \<and> 0 \<le> mb_to (mailHdr u) \<and> mb_to (mailHdr u) < n
     \<and> mb_length (mailHdr u) = length (mdata u) + 1 \<and> length (mdata u) + 1 < MaxMailSize"

definition post_inv :: "'a post_scheme \<Rightarrow> bool" where
  "post_inv s \<longleftrightarrow>
     distinct (map message_key (unAckedMessages s)) \<and> counters_ok (sendCounters s) \<and> counters_ok (receiveCounters s)
     \<and> (\<forall>u \<in> set (unAckedMessages s). sendable (netAddr s) (numBoxes s) u)"

lemma same_message_key:
  "same_message p m t u \<longleftrightarrow> message_key u = (pk_to p, pk_from p, mb_to m, mb_from m, t)"
  by (auto simp: same_message_def message_key_def)

lemma find_update_first:
  assumes "\<And>x. Q (f x) = Q x"
  shows "find Q (update_first Q f xs) = map_option f (find Q xs)"
  using assms by (induction xs) auto

lemma find_update_first_other:
  assumes "\<And>x. P x \<Longrightarrow> \<not> Q x" and "\<And>x. Q (f x) = Q x"
  shows "find Q (update_first P f xs) = find Q xs"
  using assms by (induction xs) auto

lemma find_append: "find Q (xs @ ys) = (case find Q xs of None \<Rightarrow> find Q ys | Some x \<Rightarrow> Some x)"
  by (induction xs) auto

lemma counts_for_count_up [simp]: "counts_for a b (count_up e) = counts_for a b e"
  by (simp add: counts_for_def count_up_def)

lemma counts_for_new [simp]: "counts_for a b (ThreadCounterEntry_new a' b') \<longleftrightarrow> a = a' \<and> b = b'"
  by (auto simp: counts_for_def ThreadCounterEntry_new_def)

text \<open>One more message on a conversation: its number goes up by one, the others keep theirs.\<close>

definition advance :: "int \<Rightarrow> int \<Rightarrow> ThreadCounterEntry list \<Rightarrow> ThreadCounterEntry list" where
  "advance mach box tbl =
     (case find (counts_for mach box) tbl of
        Some e \<Rightarrow> update_first (counts_for mach box) count_up tbl
      | None \<Rightarrow> tbl @ [ThreadCounterEntry_new mach box])"

lemma expects_advance:
  "expects (advance mach box tbl) mach' box'
     = expects tbl mach' box' + (if mach' = mach \<and> box' = box then 1 else 0)"
proof (cases "mach' = mach \<and> box' = box")
  case True
  then show ?thesis
    by (simp add: expects_def advance_def find_update_first find_append count_up_def
        ThreadCounterEntry_new_def counts_for_def split: option.splits)
next
  case False
  have "find (counts_for mach' box') (update_first (counts_for mach box) count_up tbl)
      = find (counts_for mach' box') tbl"
    using False by (intro find_update_first_other) (auto simp: counts_for_def count_up_def)
  then show ?thesis using False
    by (auto simp: expects_def advance_def find_append split: option.splits)
qed

lemma expects_nonneg: "counters_ok tbl \<Longrightarrow> 0 \<le> expects tbl mach box"
  by (auto simp: expects_def counters_ok_def find_Some_iff split: option.splits)

lemma next_counter_advance:
  "next_counter True mach box tbl = (expects tbl mach box, advance mach box tbl)"
  by (simp add: next_counter_def expects_def advance_def split: option.splits)

lemma update_first_ok: "\<forall>e \<in> set tbl. 0 \<le> counter e \<Longrightarrow> \<forall>e \<in> set (update_first P count_up tbl). 0 \<le> counter e"
  by (induction tbl) (auto simp: count_up_def)

lemma counters_ok_advance: "counters_ok tbl \<Longrightarrow> counters_ok (advance mach box tbl)"
proof -
  assume ok: "counters_ok tbl"
  have "map (\<lambda>e. (machineID e, mailID e)) (update_first (counts_for mach box) count_up tbl)
      = map (\<lambda>e. (machineID e, mailID e)) tbl"
    by (rule update_first_key) (simp add: count_up_def)
  then show ?thesis using ok update_first_ok[of tbl]
    by (auto simp: advance_def counters_ok_def find_None_iff counts_for_def ThreadCounterEntry_new_def
        split: option.splits)
qed

lemma counters_ok_next: "counters_ok tbl \<Longrightarrow> counters_ok (snd (next_counter a mach box tbl))"
  using counters_ok_advance[of tbl] by (cases a) (simp_all add: next_counter_advance next_counter_def[of False])

section \<open>What \<open>Send\<close> puts on the wire\<close>

definition packet :: "PacketHeader \<Rightarrow> MailHeader \<Rightarrow> timeval \<Rightarrow> string \<Rightarrow> int \<Rightarrow> Mail" where
  "packet p m t tmp a =
     \<lparr>pktHdr = p\<lparr>pk_from := a, pk_length := length tmp + 1 + sizeof_MailHeader + sizeof_timeval\<rparr>,
      mailHdr = m\<lparr>mb_length := length tmp + 1\<rparr>, timeStamp = t, mdata = tmp\<rparr>"

lemma finish_send_ok:
  "Suc (length tmp) < MaxMailSize \<Longrightarrow> netAddr s = a \<Longrightarrow>
   finish_send (p\<lparr>pk_from := a\<rparr>) (m\<lparr>mb_length := Suc (length tmp)\<rparr>) t tmp s
     = Inr (socket_ok s (length (sent s)), s\<lparr>sent := sent s @ [packet p m t tmp a]\<rparr>)"
  by (simp add: finish_send_def Network_Send_def packet_def)

lemma into_tmp_Inr [simp]: "into_tmp d = Inr tmp \<longleftrightarrow> tmp = d \<and> length d < MaxMailSize"
  by (auto simp: into_tmp_def)

text \<open>The two ways a \<open>Send\<close> can end: a message of the list goes out again, or a new one.\<close>

lemma Send_resend:
  assumes "mb_length m \<le> MaxMailSize" and "0 \<le> mb_to m" and "mb_to m < numBoxes s"
    and "list_ex (same_message (p\<lparr>pk_from := netAddr s\<rparr>) m t) (unAckedMessages s)"
    and "length d + 1 < MaxMailSize"
  shows "Send p m t d a s = Inr (socket_ok s (length (sent s)),
     s\<lparr>reads := reads s + 1,
       unAckedMessages := update_first (same_message (p\<lparr>pk_from := netAddr s\<rparr>) m t)
         (\<lambda>u. u\<lparr>lastTimeSent := clock s (reads s)\<rparr>) (unAckedMessages s),
       sent := sent s @ [packet p m t d (netAddr s)]\<rparr>)"
  using assms unfolding Send_def Let_def gettimeofday_def by (simp add: into_tmp_def finish_send_ok)

lemma Send_new:
  assumes "mb_length m \<le> MaxMailSize" and "0 \<le> mb_to m" and "mb_to m < numBoxes s"
    and "\<not> list_ex (same_message (p\<lparr>pk_from := netAddr s\<rparr>) m t) (unAckedMessages s)"
    and "next_counter a (pk_to p) (mb_to m) (sendCounters s) = (c, tbl)"
    and "tmp = dec c @ CHR ''_'' # d" and "length tmp + 1 < MaxMailSize"
  shows "Send p m t d a s = Inr (socket_ok s (length (sent s)),
     s\<lparr>sendCounters := tbl,
       unAckedMessages := unAckedMessages s @
         (if a then [UnAckedMessage_new t t (p\<lparr>pk_from := netAddr s\<rparr>) (m\<lparr>mb_length := length tmp + 1\<rparr>) tmp] else []),
       sent := sent s @ [packet p m t tmp (netAddr s)]\<rparr>)"
proof -
  have i: "into_tmp (dec c @ CHR ''_'' # d) = Inr tmp" using assms(6,7) by (simp add: into_tmp_def)
  have l: "Suc (length tmp) < MaxMailSize" "length tmp < 31" using assms(7) by simp_all
  show ?thesis
    using assms(1-5) unfolding Send_def Let_def by (cases a) (simp_all add: i l finish_send_ok)
qed

lemma Send_InrE:
  assumes "Send p m t d a s = Inr (ok, s')"
  obtains (resend) "mb_length m \<le> MaxMailSize" "0 \<le> mb_to m" "mb_to m < numBoxes s"
      "list_ex (same_message (p\<lparr>pk_from := netAddr s\<rparr>) m t) (unAckedMessages s)" "length d + 1 < MaxMailSize"
  | (new) c tbl where "mb_length m \<le> MaxMailSize" "0 \<le> mb_to m" "mb_to m < numBoxes s"
      "\<not> list_ex (same_message (p\<lparr>pk_from := netAddr s\<rparr>) m t) (unAckedMessages s)"
      "next_counter a (pk_to p) (mb_to m) (sendCounters s) = (c, tbl)" "length (dec c @ CHR ''_'' # d) + 1 < MaxMailSize"
proof (cases "list_ex (same_message (p\<lparr>pk_from := netAddr s\<rparr>) m t) (unAckedMessages s)")
  case True
  then show thesis using assms resend
    by (auto simp: Send_def Let_def gettimeofday_def bindE_eq_Inr)
next
  case False
  obtain c tbl where n: "next_counter a (pk_to p) (mb_to m) (sendCounters s) = (c, tbl)"
    by (cases "next_counter a (pk_to p) (mb_to m) (sendCounters s)")
  then show thesis using assms new[OF _ _ _ False n] False
    by (auto simp: Send_def Let_def bindE_eq_Inr)
qed

text \<open>Every successful \<open>Send\<close> hands over one packet and leaves the mailboxes alone.\<close>

lemma Send_effect:
  assumes "Send p m t d a s = Inr (ok, s')"
  shows "(\<exists>tmp. sent s' = sent s @ [packet p m t tmp (netAddr s)] \<and> length tmp + 1 < MaxMailSize
      \<and> 0 \<le> mb_to m \<and> mb_to m < numBoxes s)
    \<and> ok = socket_ok s (length (sent s)) \<and> boxes s' = boxes s \<and> netAddr s' = netAddr s
    \<and> numBoxes s' = numBoxes s \<and> thisMail s' = thisMail s \<and> receiveCounters s' = receiveCounters s
    \<and> socket_ok s' = socket_ok s \<and> clock s' = clock s \<and> post.more s' = post.more s"
  using assms
proof (cases rule: Send_InrE)
  case resend
  then show ?thesis using assms Send_resend[OF resend, of a] by auto
next
  case (new c tbl)
  then show ?thesis using assms Send_new[OF new(1-5) refl new(6)] by auto
qed

lemma Send_one_packet:
  assumes "Send p m t d a s = Inr (ok, s')"
  shows "\<exists>tmp. sent s' = sent s @ [packet p m t tmp (netAddr s)] \<and> length tmp + 1 < MaxMailSize
      \<and> 0 \<le> mb_to m \<and> mb_to m < numBoxes s"
    and "ok = socket_ok s (length (sent s))" and "boxes s' = boxes s" and "netAddr s' = netAddr s"
    and "numBoxes s' = numBoxes s" and "thisMail s' = thisMail s" and "receiveCounters s' = receiveCounters s"
    and "socket_ok s' = socket_ok s" and "clock s' = clock s" and "post.more s' = post.more s"
  using Send_effect[OF assms] by blast+

lemma send_packet_fields:
  assumes "Send p m t d a s = Inr (ok, s')"
  shows "\<exists>pkt. sent s' = sent s @ [pkt] \<and> pk_to (pktHdr pkt) = pk_to p \<and> pk_from (pktHdr pkt) = netAddr s
      \<and> mb_to (mailHdr pkt) = mb_to m \<and> mb_from (mailHdr pkt) = mb_from m \<and> timeStamp pkt = t"
  using Send_one_packet(1)[OF assms] by (auto simp: packet_def)

section \<open>A machine that has just started\<close>

definition post_init :: "int \<Rightarrow> int \<Rightarrow> int \<Rightarrow> post" where
  "post_init addr nBoxes box =
     \<lparr>netAddr = addr, numBoxes = nBoxes, boxes = (\<lambda>_. []), unAckedMessages = [], thisMail = box,
      sendCounters = [], receiveCounters = [], sent = [], clock = (\<lambda>n. Timeval (1000 + int n) 0), reads = 0,
      socket_ok = (\<lambda>_. True)\<rparr>"

definition hello_p :: PacketHeader where "hello_p = \<lparr>pk_to = 1, pk_from = 0, pk_length = 0\<rparr>"
definition hello_m :: MailHeader where "hello_m = \<lparr>mb_to = 7, mb_from = 5, mb_length = 3\<rparr>"

lemma dec_0: "dec 0 = ''0''"
proof -
  have "of_char (CHR ''0'') = (48 :: nat)" by simp
  then have "char_of (48 :: nat) = CHR ''0''" by (metis char_of_char)
  then show ?thesis by (simp add: dec_def dec_nat_less digit_chr_def)
qed

lemma hello_sent:
  "Send hello_p hello_m t ''hi'' True (post_init 0 100 5) = Inr (True, (post_init 0 100 5)
     \<lparr>sendCounters := [ThreadCounterEntry_new 1 7],
      unAckedMessages := [UnAckedMessage_new t t hello_p (hello_m\<lparr>mb_length := length ''0_hi'' + 1\<rparr>) ''0_hi''],
      sent := [packet hello_p hello_m t ''0_hi'' 0]\<rparr>)"
  using Send_new[of hello_m "post_init 0 100 5" hello_p t True 0 "[ThreadCounterEntry_new 1 7]" "''0_hi''" "''hi''"]
  by (simp add: hello_m_def hello_p_def post_init_def next_counter_def dec_0)

section \<open>The wire\<close>

text \<open>
  C32: what \<open>Send\<close> hands to the network always fits: one packet, addressed as asked and from this
  machine, whose lengths agree with its text and stay below the limits of the wire, so that no
  assertion of \<open>Network::Send\<close>, \<open>PostalDelivery\<close> or \<open>MailBox::Put\<close> can fail on it, at any post office
  with as many mailboxes.
\<close>

theorem send_fits_wire:
  assumes "Send p m t d a s = Inr (ok, s')" and "numBoxes r = numBoxes s"
  shows "\<exists>pkt. sent s' = sent s @ [pkt]
      \<and> pk_to (pktHdr pkt) = pk_to p \<and> pk_from (pktHdr pkt) = netAddr s
      \<and> mb_to (mailHdr pkt) = mb_to m \<and> mb_from (mailHdr pkt) = mb_from m \<and> timeStamp pkt = t
      \<and> mb_length (mailHdr pkt) = length (mdata pkt) + 1
      \<and> pk_length (pktHdr pkt) = mb_length (mailHdr pkt) + 20 \<and> pk_length (pktHdr pkt) < MaxPacketSize
      \<and> PostalDelivery pkt r = Inr (r\<lparr>boxes := (boxes r)(mb_to m := boxes r (mb_to m) @ [pkt])\<rparr>)"
  using Send_one_packet(1)[OF assms(1)] assms(2)
  by (auto simp: packet_def PostalDelivery_def MailBox_Put_def)

theorem send_fits_wire_witness:
  "\<exists>pkt. sent (snd (projr (Send hello_p hello_m (Timeval 9 0) ''hi'' True (post_init 0 100 5)))) = [pkt]
     \<and> pk_length (pktHdr pkt) < MaxPacketSize"
  using send_fits_wire[OF hello_sent[of "Timeval 9 0"], of "post_init 1 100 7"]
  unfolding hello_sent by (auto simp: post_init_def)

text \<open>
  how much data fits. A new message goes out exactly when the decimal counter, an underscore
  and the data have at most 30 characters; with 31 the assertion on the length fails, and with more
  \<open>sprintf\<close> runs over \<open>tmp\<close>.
\<close>

theorem send_capacity:
  assumes "mb_length m \<le> MaxMailSize" and "0 \<le> mb_to m" and "mb_to m < numBoxes s"
    and "\<not> list_ex (same_message (p\<lparr>pk_from := netAddr s\<rparr>) m t) (unAckedMessages s)"
    and "k = length (dec (fst (next_counter a (pk_to p) (mb_to m) (sendCounters s)))) + 1 + length d"
  shows "(k \<le> 30 \<longrightarrow> (\<exists>s'. Send p m t d a s = Inr (socket_ok s (length (sent s)), s')))
       \<and> (k = 31 \<longrightarrow> Send p m t d a s = Inl Assertion_failed)
       \<and> (31 < k \<longrightarrow> Send p m t d a s = Inl Undefined_behaviour)"
proof -
  obtain c tbl where n: "next_counter a (pk_to p) (mb_to m) (sendCounters s) = (c, tbl)"
    by (cases "next_counter a (pk_to p) (mb_to m) (sendCounters s)")
  have k: "k = length (dec c @ CHR ''_'' # d)" using assms(5) n by simp
  have "Send p m t d a s = Inl Assertion_failed" if "k = 31"
    using assms(1-4) n k that by (auto simp: Send_def Let_def into_tmp_def assertE_def)
  moreover have "Send p m t d a s = Inl Undefined_behaviour" if "31 < k"
    using assms(1-4) n k that by (auto simp: Send_def Let_def into_tmp_def)
  moreover have "\<exists>s'. Send p m t d a s = Inr (socket_ok s (length (sent s)), s')" if "k \<le> 30"
    using Send_new[OF assms(1-4) n refl] k that by auto
  ultimately show ?thesis by blast
qed

theorem send_capacity_witness:
  "Send hello_p hello_m (Timeval 9 0) (replicate 29 CHR ''x'') True (post_init 0 100 5) = Inl Assertion_failed"
  using send_capacity[of hello_m "post_init 0 100 5" hello_p "Timeval 9 0" 31 True "replicate 29 CHR ''x''"]
  by (simp add: hello_m_def hello_p_def post_init_def next_counter_def dec_0)

section \<open>Receiving\<close>

lemma accept_data:
  assumes "mdata pkt = dec c @ CHR ''_'' # d" and "in_int c"
  shows "accept pkt tbl =
    (let peer = counts_for (pk_from (pktHdr pkt)) (mb_from (mailHdr pkt)) in
      case (if c \<ge> 0 then find peer tbl else None) of
        Some e \<Rightarrow> Inr (True, d, if counter e + 1 = c then update_first peer count_up tbl else tbl)
      | None \<Rightarrow>
          if c = 0 then
            Inr (True, d, tbl @ [ThreadCounterEntry_new (pk_from (pktHdr pkt)) (mb_from (mailHdr pkt))])
          else Inr (c < 0, d, tbl))"
  using parseValue_field[of c "[]" d] assms by (simp add: accept_def in_int_def Let_def)

lemma accept_expected:
  assumes "mdata pkt = dec c @ CHR ''_'' # d" and "in_int c"
    and "expects tbl (pk_from (pktHdr pkt)) (mb_from (mailHdr pkt)) = c" and "counters_ok tbl"
  shows "accept pkt tbl = Inr (True, d, advance (pk_from (pktHdr pkt)) (mb_from (mailHdr pkt)) tbl)"
  using assms(3) expects_nonneg[OF assms(4), of "pk_from (pktHdr pkt)" "mb_from (mailHdr pkt)"]
  by (auto simp: accept_data[OF assms(1,2)] advance_def expects_def Let_def split: option.splits)

text \<open>
  C27: a message sent is the message received. When both ends of a conversation agree on the number
  of the next message, what \<open>Send\<close> puts on the wire is delivered to an empty mailbox and read by
  \<open>Receive\<close> with its headers, its time and exactly the data given to \<open>Send\<close>, and afterwards both
  ends agree again, one message further.
\<close>

theorem send_receive_round_trip:
  assumes "Send p m t d True s = Inr (ok, s')"
    and "\<not> list_ex (same_message (p\<lparr>pk_from := netAddr s\<rparr>) m t) (unAckedMessages s)"
    and "counters_ok (sendCounters s)" and "counters_ok (receiveCounters r)"
    and "expects (sendCounters s) (pk_to p) (mb_to m) = c" and "c < 2 ^ 31"
    and "expects (receiveCounters r) (netAddr s) (mb_from m) = c"
    and "numBoxes r = numBoxes s" and "boxes r (mb_to m) = []"
  shows "\<exists>pkt r1 r2. sent s' = sent s @ [pkt] \<and> PostalDelivery pkt r = Inr r1
      \<and> Receive (mb_to m) r1 = Inr (Some (pkt, d), r2) \<and> boxes r2 = boxes r
      \<and> expects (sendCounters s') (pk_to p) (mb_to m) = c + 1
      \<and> expects (receiveCounters r2) (netAddr s) (mb_from m) = c + 1"
  using assms(1)
proof (cases rule: Send_InrE)
  case resend
  then show ?thesis using assms(2) by simp
next
  case (new c' tbl)
  then have c': "c' = c" and tbl: "tbl = advance (pk_to p) (mb_to m) (sendCounters s)"
    using assms(5) by (simp_all add: next_counter_advance)
  let ?pkt = "packet p m t (dec c @ CHR ''_'' # d) (netAddr s)"
  have s': "s' = s\<lparr>sendCounters := tbl,
       unAckedMessages := unAckedMessages s @ [UnAckedMessage_new t t (p\<lparr>pk_from := netAddr s\<rparr>)
         (m\<lparr>mb_length := length (dec c @ CHR ''_'' # d) + 1\<rparr>) (dec c @ CHR ''_'' # d)],
       sent := sent s @ [?pkt]\<rparr>"
    using Send_new[OF new(1-5) refl new(6)] assms(1) c' by simp
  let ?r1 = "r\<lparr>boxes := (boxes r)(mb_to m := [?pkt])\<rparr>"
  have deliver: "PostalDelivery ?pkt r = Inr ?r1"
    using new(2,3,6) c' assms(8,9) by (simp add: PostalDelivery_def MailBox_Put_def packet_def)
  have c: "in_int c" using expects_nonneg[OF assms(3), of "pk_to p" "mb_to m"] assms(5,6) by (simp add: in_int_def)
  have "accept ?pkt (receiveCounters r)
      = Inr (True, d, advance (netAddr s) (mb_from m) (receiveCounters r))"
    using accept_expected[of ?pkt c d "receiveCounters r"] assms(4,7) c by (simp add: packet_def)
  moreover have "mb_length (mailHdr ?pkt) \<le> MaxMailSize" using new(6) c' by (simp add: packet_def)
  ultimately have "receive_loop [?pkt] (receiveCounters r)
      = Inr (Some (?pkt, d), [], advance (netAddr s) (mb_from m) (receiveCounters r))"
    by simp
  then have "Receive (mb_to m) ?r1 = Inr (Some (?pkt, d),
      r\<lparr>boxes := (boxes r)(mb_to m := []), receiveCounters := advance (netAddr s) (mb_from m) (receiveCounters r)\<rparr>)"
    using new(2,3) assms(8) by (simp add: Receive_def)
  moreover have "(boxes r)(mb_to m := []) = boxes r" using assms(9) by (simp add: fun_upd_idem)
  ultimately show ?thesis using deliver assms(5,7) s' tbl
    by (intro exI[of _ ?pkt] exI[of _ ?r1]
        exI[of _ "r\<lparr>receiveCounters := advance (netAddr s) (mb_from m) (receiveCounters r)\<rparr>"])
      (simp add: expects_advance)
qed

theorem send_receive_round_trip_witness:
  "\<exists>pkt r1 r2. PostalDelivery pkt (post_init 1 100 7) = Inr r1 \<and> Receive 7 r1 = Inr (Some (pkt, ''hi''), r2)"
  using send_receive_round_trip[OF hello_sent[of "Timeval 9 0"], of "post_init 1 100 7" 0]
  by (auto simp: hello_m_def hello_p_def post_init_def counters_ok_def expects_def)

text \<open>
  what the counters of \<open>Receive\<close> do not prevent. A message whose number is not the expected one
  leaves the counters alone. From a sender not heard before it is thrown away and the thread goes on
  to the rest of the box. From a known sender it is returned to the caller all the same, whether its
  number was seen before or lies ahead of a lost message.
\<close>

theorem receive_unexpected_number:
  assumes "mdata pkt = dec c @ CHR ''_'' # d" and "0 \<le> c" and "c < 2 ^ 31"
    and "expects tbl (pk_from (pktHdr pkt)) (mb_from (mailHdr pkt)) \<noteq> c"
    and "mb_length (mailHdr pkt) \<le> MaxMailSize" and "0 \<le> box" and "box < numBoxes r"
    and "boxes r box = pkt # rest" and "receiveCounters r = tbl"
  shows "Receive box r =
      (if \<exists>e \<in> set tbl. counts_for (pk_from (pktHdr pkt)) (mb_from (mailHdr pkt)) e
       then Inr (Some (pkt, d), r\<lparr>boxes := (boxes r)(box := rest)\<rparr>)
       else Receive box (r\<lparr>boxes := (boxes r)(box := rest)\<rparr>))"
proof -
  let ?peer = "counts_for (pk_from (pktHdr pkt)) (mb_from (mailHdr pkt))"
  have c: "in_int c" using assms(2,3) by (simp add: in_int_def)
  have "accept pkt tbl = Inr (find ?peer tbl \<noteq> None, d, tbl)"
    using assms(2,4) by (auto simp: accept_data[OF assms(1) c] expects_def Let_def split: option.splits)
  moreover have "(find ?peer tbl \<noteq> None) = (\<exists>e \<in> set tbl. ?peer e)"
    by (auto simp: find_None_iff)
  ultimately show ?thesis using assms(5-9) by (simp add: Receive_def bindE_assoc)
qed

theorem receive_unexpected_number_witness:
  "let late = packet hello_p hello_m (Timeval 9 0) ''0_hi'' 0;
       r = (post_init 1 100 7)\<lparr>boxes := (\<lambda>_. [])(7 := [late]), receiveCounters := [ThreadCounterEntry_new 0 5]\<rparr>
   in Receive 7 r = Inr (Some (late, ''hi''), r\<lparr>boxes := (boxes r)(7 := [])\<rparr>)"
  using receive_unexpected_number[of "packet hello_p hello_m (Timeval 9 0) ''0_hi'' 0" 0 "''hi''"
      "[ThreadCounterEntry_new 0 5]" 7
      "(post_init 1 100 7)\<lparr>boxes := (\<lambda>_. [])(7 := [packet hello_p hello_m (Timeval 9 0) ''0_hi'' 0]),
         receiveCounters := [ThreadCounterEntry_new 0 5]\<rparr>" "[]"]
  by (simp add: packet_def hello_m_def hello_p_def post_init_def dec_0 expects_def counts_for_def
      ThreadCounterEntry_new_def)

section \<open>Acknowledgements and resending\<close>

text \<open>The invariant: keys stay distinct, counters stay counters, listed messages can be sent again.\<close>

lemma update_first_members:
  "(\<And>x. R x \<Longrightarrow> R (f x)) \<Longrightarrow> \<forall>x \<in> set xs. R x \<Longrightarrow> \<forall>x \<in> set (update_first P f xs). R x"
  by (induction xs) auto

lemma erase_first_subset: "set (erase_first P xs) \<subseteq> set xs"
  by (induction xs) auto

lemma post_inv_new:
  assumes "post_inv s" and "counters_ok tbl" and "(pk_to p, netAddr s, mb_to m, mb_from m, t) \<notin> message_key ` set (unAckedMessages s)"
    and "0 \<le> mb_to m" and "mb_to m < numBoxes s" and "length tmp + 1 < MaxMailSize"
    and s': "s' = s\<lparr>sendCounters := tbl,
       unAckedMessages := unAckedMessages s @
         (if a then [UnAckedMessage_new t t (p\<lparr>pk_from := netAddr s\<rparr>) (m\<lparr>mb_length := length tmp + 1\<rparr>) tmp] else []),
       sent := sent s @ [packet p m t tmp (netAddr s)]\<rparr>"
  shows "post_inv s'"
proof (cases a)
  case True
  let ?u = "UnAckedMessage_new t t (p\<lparr>pk_from := netAddr s\<rparr>) (m\<lparr>mb_length := length tmp + 1\<rparr>) tmp"
  have "message_key ?u = (pk_to p, netAddr s, mb_to m, mb_from m, t)"
    by (simp add: message_key_def UnAckedMessage_new_def)
  then have "distinct (map message_key (unAckedMessages s @ [?u]))"
    using assms(1,3) by (simp add: post_inv_def)
  moreover have "sendable (netAddr s) (numBoxes s) ?u"
    using assms(4-6) by (simp add: sendable_def UnAckedMessage_new_def)
  ultimately show ?thesis using True assms(1,2) unfolding post_inv_def s' by simp
next
  case False
  then show ?thesis using assms(1,2) by (simp add: post_inv_def s')
qed

lemma Send_post_inv:
  assumes "post_inv s" and "Send p m t d a s = Inr (ok, s')"
  shows "post_inv s'"
  using assms(2)
proof (cases rule: Send_InrE)
  case resend
  let ?f = "\<lambda>u :: UnAckedMessage. u\<lparr>lastTimeSent := clock s (reads s)\<rparr>"
  let ?us = "update_first (same_message (p\<lparr>pk_from := netAddr s\<rparr>) m t) ?f (unAckedMessages s)"
  have s': "s' = s\<lparr>reads := reads s + 1, unAckedMessages := ?us, sent := sent s @ [packet p m t d (netAddr s)]\<rparr>"
    using assms(2) Send_resend[OF resend, of a] by simp
  have "map message_key ?us = map message_key (unAckedMessages s)"
    by (rule update_first_key) (simp add: message_key_def)
  moreover have "\<forall>u \<in> set ?us. sendable (netAddr s) (numBoxes s) u"
    using assms(1) by (intro update_first_members) (simp_all add: sendable_def post_inv_def)
  ultimately show ?thesis using assms(1) unfolding post_inv_def s' by simp
next
  case (new c tbl)
  have "counters_ok tbl"
    using assms(1) counters_ok_next[of "sendCounters s" a "pk_to p" "mb_to m"] new(5) by (simp add: post_inv_def)
  moreover have "(pk_to p, netAddr s, mb_to m, mb_from m, t) \<notin> message_key ` set (unAckedMessages s)"
    using new(4) by (auto simp: list_ex_iff same_message_key)
  moreover have "s' = s\<lparr>sendCounters := tbl,
     unAckedMessages := unAckedMessages s @
       (if a then [UnAckedMessage_new t t (p\<lparr>pk_from := netAddr s\<rparr>)
         (m\<lparr>mb_length := length (dec c @ CHR ''_'' # d) + 1\<rparr>) (dec c @ CHR ''_'' # d)] else []),
     sent := sent s @ [packet p m t (dec c @ CHR ''_'' # d) (netAddr s)]\<rparr>"
    using assms(2) Send_new[OF new(1-5) refl new(6)] by simp
  ultimately show ?thesis using post_inv_new[OF assms(1) _ _ new(2,3,6)] by blast
qed

lemma halt_unless_sent_Inr [simp]: "halt_unless_sent r = Inr s' \<longleftrightarrow> r = Inr (True, s')"
  by (auto simp: halt_unless_sent_def bindE_def split: sum.splits)

lemma erase_post_inv: "post_inv s \<Longrightarrow> post_inv (s\<lparr>unAckedMessages := erase_first P (unAckedMessages s)\<rparr>)"
  using erase_first_subset[of P "unAckedMessages s"] erase_first_map_distinct[of message_key "unAckedMessages s" P]
  by (auto simp: post_inv_def)

lemma accept_counters_ok:
  assumes "accept pkt tbl = Inr (ok, d, tbl')" and "counters_ok tbl"
  shows "counters_ok tbl'"
proof -
  obtain c i where p: "parseValue 0 (mdata pkt) = Inr (c, i)" and i: "\<not> i > length (mdata pkt)"
    using assms(1) by (auto simp: accept_def bindE_eq_Inr split: if_splits)
  have "tbl' = tbl \<or> tbl' = advance (pk_from (pktHdr pkt)) (mb_from (mailHdr pkt)) tbl"
    using assms(1) p i by (auto simp: accept_def Let_def advance_def split: option.splits if_splits)
  then show ?thesis using assms(2) counters_ok_advance by auto
qed

lemma receive_loop_counters_ok:
  "receive_loop box tbl = Inr (got, rest, tbl') \<Longrightarrow> counters_ok tbl \<Longrightarrow> counters_ok tbl'"
proof (induction box tbl rule: receive_loop.induct)
  case (2 pkt rest tbl)
  obtain ok d tbl1 where a: "accept pkt tbl = Inr (ok, d, tbl1)"
    using "2.prems"(1) by (auto simp: bindE_eq_Inr)
  show ?case using "2.prems" "2.IH"[OF a refl refl] accept_counters_ok[OF a] a
    by (auto simp: bindE_eq_Inr split: if_splits)
qed simp

lemma resend_from_post_inv: "resend_from n i now s = Inr s' \<Longrightarrow> post_inv s \<Longrightarrow> post_inv s'"
proof (induction n i now s rule: resend_from.induct)
  case (2 n i now s)
  show ?case
  proof (cases "i < length (unAckedMessages s) \<and> now - tv_sec (lastTimeSent (unAckedMessages s ! i)) > ResendTimeout")
    case True
    let ?u = "unAckedMessages s ! i"
    obtain ok s1 where s1: "Send (pktHdr ?u) (mailHdr ?u) (timeStamp ?u) (mdata ?u) True s = Inr (ok, s1)"
        "resend_from n (i + 1) now s1 = Inr s'"
      using "2.prems"(1) True by (auto simp: Let_def bindE_eq_Inr)
    show ?thesis
      using "2.IH"(1)[OF _ refl _ s1(1) refl s1(2) Send_post_inv[OF "2.prems"(2) s1(1)]] True by simp
  next
    case False
    then show ?thesis using "2.prems" "2.IH"(2) by (auto simp: Let_def split: if_splits)
  qed
qed simp



text \<open>
  sending an unacknowledged message again, as the resend thread does, puts the identical packet
  on the wire as the first time, with the same counter in its text, and changes nothing but the time
  at which the message was last sent: neither the counters nor the list's messages.
\<close>

theorem resend_same_packet:
  assumes "Send p m t d True s = Inr (True, s1)"
    and "\<not> list_ex (same_message (p\<lparr>pk_from := netAddr s\<rparr>) m t) (unAckedMessages s)"
    and "u = last (unAckedMessages s1)"
  shows "\<exists>s2. Send (pktHdr u) (mailHdr u) (timeStamp u) (mdata u) True s1 = Inr (socket_ok s (length (sent s1)), s2)
      \<and> sent s2 = sent s1 @ [last (sent s1)] \<and> sendCounters s2 = sendCounters s1
      \<and> map message_key (unAckedMessages s2) = map message_key (unAckedMessages s1)
      \<and> map mdata (unAckedMessages s2) = map mdata (unAckedMessages s1)"
  using assms(1)
proof (cases rule: Send_InrE)
  case resend
  then show ?thesis using assms(2) by simp
next
  case (new c tbl)
  let ?tmp = "dec c @ CHR ''_'' # d"
  let ?m = "m\<lparr>mb_length := length ?tmp + 1\<rparr>"
  let ?p = "p\<lparr>pk_from := netAddr s\<rparr>"
  have s1: "s1 = s\<lparr>sendCounters := tbl,
       unAckedMessages := unAckedMessages s @ [UnAckedMessage_new t t ?p ?m ?tmp],
       sent := sent s @ [packet p m t ?tmp (netAddr s)]\<rparr>"
    using Send_new[OF new(1-5) refl new(6)] assms(1) by simp
  then have u: "pktHdr u = ?p" "mailHdr u = ?m" "timeStamp u = t" "mdata u = ?tmp"
    using assms(3) by (simp_all add: UnAckedMessage_new_def)
  let ?f = "\<lambda>u :: UnAckedMessage. u\<lparr>lastTimeSent := clock s1 (reads s1)\<rparr>"
  have known: "list_ex (same_message (?p\<lparr>pk_from := netAddr s1\<rparr>) ?m t) (unAckedMessages s1)"
    by (simp add: s1 UnAckedMessage_new_def same_message_def)
  have "Send ?p ?m t ?tmp True s1 = Inr (socket_ok s1 (length (sent s1)),
     s1\<lparr>reads := reads s1 + 1,
       unAckedMessages := update_first (same_message (?p\<lparr>pk_from := netAddr s1\<rparr>) ?m t) ?f (unAckedMessages s1),
       sent := sent s1 @ [packet ?p ?m t ?tmp (netAddr s1)]\<rparr>)"
    using new(2,3,6) by (intro Send_resend known) (simp_all add: s1)
  moreover have "packet ?p ?m t ?tmp (netAddr s1) = last (sent s1)" by (simp add: s1 packet_def)
  moreover have "map message_key (update_first P ?f us) = map message_key us"
      "map mdata (update_first P ?f us) = map mdata us" for P us
    by (rule update_first_key; simp add: message_key_def)+
  ultimately show ?thesis by (simp add: u s1)
qed

theorem resend_same_packet_witness:
  "\<exists>s1 u s2. Send hello_p hello_m (Timeval 9 0) ''hi'' True (post_init 0 100 5) = Inr (True, s1)
      \<and> unAckedMessages s1 = [u]
      \<and> Send (pktHdr u) (mailHdr u) (timeStamp u) (mdata u) True s1 = Inr (True, s2)
      \<and> (\<exists>pkt. sent s2 = [pkt, pkt])"
  unfolding hello_sent using resend_same_packet[OF hello_sent[of "Timeval 9 0"] _ refl]
  by (auto simp: post_init_def)

text \<open>
  an acknowledgement clears exactly the message it answers. When the addressee of an
  unacknowledged message, on another machine, answers with \<open>Ack\<close>, the packet it sends makes
  \<open>processAck\<close> at the sender find that message, and the list loses it and nothing else.
\<close>

theorem ack_clears_message:
  assumes "post_inv s" and "u \<in> set (unAckedMessages s)"
    and "netAddr r = pk_to (pktHdr u)" and "thisMail r = mb_to (mailHdr u)" and "netAddr r \<noteq> netAddr s"
    and "Ack (pktHdr u) (mailHdr u) (timeStamp u) r = Inr r'"
  shows "\<exists>a. sent r' = sent r @ [a] \<and>
      processAck (pktHdr a) (mailHdr a) (timeStamp a) s
        = (True, s\<lparr>unAckedMessages := filter (\<lambda>v. v \<noteq> u) (unAckedMessages s)\<rparr>)"
proof -
  have from_s: "pk_from (pktHdr u) = netAddr s" using assms(1,2) by (auto simp: post_inv_def sendable_def)
  let ?outP = "\<lparr>pk_to = netAddr s, pk_from = netAddr r, pk_length = 0\<rparr>"
  let ?outM = "\<lparr>mb_to = mb_from (mailHdr u), mb_from = thisMail r, mb_length = length (dec (req ACK) @ ''_'') + 1\<rparr>"
  have "Send ?outP ?outM (timeStamp u) (dec (req ACK) @ ''_'') False r = Inr (True, r')"
    using assms(5,6) from_s by (simp add: Ack_def Let_def)
  then obtain a where a: "sent r' = sent r @ [a]" "pk_to (pktHdr a) = netAddr s" "pk_from (pktHdr a) = netAddr r"
      "mb_to (mailHdr a) = mb_from (mailHdr u)" "mb_from (mailHdr a) = thisMail r" "timeStamp a = timeStamp u"
    using send_packet_fields by fastforce
  have acked: "acked_by (pktHdr a) (mailHdr a) (timeStamp a) v \<longleftrightarrow> message_key v = message_key u" for v
    using a assms(3,4) from_s by (auto simp: acked_by_def message_key_def)
  then have acked': "acked_by (pktHdr a) (mailHdr a) (timeStamp a) = (\<lambda>v. message_key v = message_key u)"
    by (rule ext)
  have d: "distinct (map message_key (unAckedMessages s))" using assms(1) by (simp add: post_inv_def)
  have eq: "message_key v = message_key u \<longleftrightarrow> v = u" if "v \<in> set (unAckedMessages s)" for v
    using d assms(2) that by (auto simp: distinct_map inj_on_def)
  have "erase_first (\<lambda>v. message_key v = message_key u) (unAckedMessages s)
      = filter (\<lambda>v. \<not> message_key v = message_key u) (unAckedMessages s)"
    using d eq by (intro erase_first_unique) (auto simp: distinct_map)
  also have "\<dots> = filter (\<lambda>v. v \<noteq> u) (unAckedMessages s)"
    using eq by (auto intro: filter_cong)
  finally have "processAck (pktHdr a) (mailHdr a) (timeStamp a) s
        = (True, s\<lparr>unAckedMessages := filter (\<lambda>v. v \<noteq> u) (unAckedMessages s)\<rparr>)"
    using assms(2) unfolding processAck_def acked' by (auto simp: list_ex_iff)
  then show ?thesis using a(1) by blast
qed

theorem ack_clears_message_witness:
  "let u = UnAckedMessage_new (Timeval 9 0) (Timeval 9 0) hello_p (hello_m\<lparr>mb_length := length ''0_hi'' + 1\<rparr>) ''0_hi'';
       s = (post_init 0 100 5)\<lparr>unAckedMessages := [u]\<rparr>
   in \<exists>a :: Mail. processAck (pktHdr a) (mailHdr a) (timeStamp a) s = (True, post_init 0 100 5)"
proof -
  let ?u = "UnAckedMessage_new (Timeval 9 0) (Timeval 9 0) hello_p (hello_m\<lparr>mb_length := length ''0_hi'' + 1\<rparr>) ''0_hi''"
  let ?s = "(post_init 0 100 5)\<lparr>unAckedMessages := [?u]\<rparr>"
  have inv: "post_inv ?s"
    by (simp add: post_inv_def sendable_def post_init_def counters_ok_def UnAckedMessage_new_def hello_p_def hello_m_def)
  have "length (dec (req ACK) @ ''_'') = 3" "length (dec (-1) @ CHR ''_'' # dec (req ACK) @ ''_'') = 6"
    by (simp_all add: dec_def dec_nat_less dec_nat_ge)
  then have "\<exists>r'. Ack (pktHdr ?u) (mailHdr ?u) (timeStamp ?u) (post_init 1 100 7) = Inr r'"
    by (simp add: Ack_def Let_def UnAckedMessage_new_def hello_p_def hello_m_def post_init_def
        Send_new[where c = "-1" and tbl = "[]"] next_counter_def)
  then obtain r' where "Ack (pktHdr ?u) (mailHdr ?u) (timeStamp ?u) (post_init 1 100 7) = Inr r'" ..
  from ack_clears_message[OF inv _ _ _ _ this]
  obtain a :: Mail where "processAck (pktHdr a) (mailHdr a) (timeStamp a) ?s = (True, post_init 0 100 5)"
    by (auto simp: UnAckedMessage_new_def hello_p_def hello_m_def post_init_def)
  then show ?thesis unfolding Let_def by blast
qed

end
