(* ===== verification/TotalOrder.thy ===== *)
theory TotalOrder
  imports PostOffice
begin

text \<open>
  The network threads of \<open>threads/system.cc\<close>: the registration server \<open>RegServer\<close>, the
  registration of a network thread with it, and the main loop of \<open>NetworkThread\<close>, which delivers
  the messages of a group in the order of their time stamps.

  The loops that wait for messages are state machines: one call of \<open>RegServer_receive\<close> or of
  \<open>NetworkThread_receive\<close> is what the thread does from the return of \<open>PostOffice::Receive\<close> to its
  next call of it. \<open>processMessage\<close>, which handles the messages delivered, is an argument.
\<close>

section \<open>State\<close>

record NetThreadInfoEntry =
  nt_machine :: int
  nt_mail :: int
  nt_time :: timeval

text \<open>The constructor does not set the time stamp, so its first value is an argument.\<close>

definition NetThreadInfoEntry_new :: "timeval \<Rightarrow> int \<Rightarrow> int \<Rightarrow> NetThreadInfoEntry" where
  "NetThreadInfoEntry_new t0 mach box = \<lparr>nt_machine = mach, nt_mail = box, nt_time = t0\<rparr>"

datatype reg_phase =
    Collecting     \<comment> \<open>waiting for \<open>REGNETTHREAD\<close> messages\<close>
  | Draining       \<comment> \<open>\<open>GROUPINFO\<close> sent, waiting for all Acks\<close>
  | Complete       \<comment> \<open>answering what is resent\<close>

record regserver = post +
  rs_phase :: reg_phase
  serverNetThreadInfo :: "NetThreadInfoEntry list"
  rs_received :: "UnAckedMessage list"
  totalNumNetworkThreads :: nat
  rs_junk :: timeval

datatype net_phase =
    WaitStart      \<comment> \<open>for \<open>STARTUSERPROGRAM\<close> from the user program\<close>
  | WaitResponse   \<comment> \<open>for \<open>REGNETTHREADRESPONSE\<close>\<close>
  | WaitGroup int  \<comment> \<open>for that many more \<open>GROUPINFO\<close> messages\<close>
  | Running

record netthread = post +
  phase :: net_phase
  localNetThreadInfo :: "NetThreadInfoEntry list"
  receivedMessages :: "UnAckedMessage list"
  msgQueue :: "UnAckedMessage list"
  serverCount :: int
  junk_time :: timeval

abbreviation (input) RegistrationServerMachineID :: int where "RegistrationServerMachineID \<equiv> 0"
abbreviation (input) RegistrationServerMailID :: int where "RegistrationServerMailID \<equiv> 0"
abbreviation (input) ThreadsPerMessage :: nat where "ThreadsPerMessage \<equiv> 8"

section \<open>Redundant messages\<close>

definition messageIsRedundant :: "UnAckedMessage list \<Rightarrow> PacketHeader \<Rightarrow> MailHeader \<Rightarrow> timeval \<Rightarrow> bool" where
  "messageIsRedundant received p m t = list_ex (same_message p m t) received"

definition threadHasRegistered :: "NetThreadInfoEntry list \<Rightarrow> int \<Rightarrow> int \<Rightarrow> bool" where
  "threadHasRegistered info mach box = list_ex (\<lambda>e. nt_machine e = mach \<and> nt_mail e = box) info"

text \<open>
  What the registration loops do with every message: an Ack is processed, any other message is
  acknowledged, and remembered unless it was received before.
\<close>

definition acknowledge :: "Mail \<Rightarrow> string \<Rightarrow> int \<Rightarrow> UnAckedMessage list \<Rightarrow> 'a post_scheme \<Rightarrow> (UnAckedMessage list \<times> 'a post_scheme) result" where
  "acknowledge pkt d requestType received s =
     (if requestType = req ACK then Inr (received, snd (processAck (pktHdr pkt) (mailHdr pkt) (timeStamp pkt) s))
      else
        bindE (Ack (pktHdr pkt) (mailHdr pkt) (timeStamp pkt) s) (\<lambda>s1.
        Inr (if messageIsRedundant received (pktHdr pkt) (mailHdr pkt) (timeStamp pkt) then received
             else received @ [UnAckedMessage_new (timeStamp pkt) (timeStamp pkt) (pktHdr pkt) (mailHdr pkt) d],
             s1)))"

text \<open>A message of this thread, to a thread of another machine or of this one.\<close>

definition send_request :: "int \<Rightarrow> int \<Rightarrow> string \<Rightarrow> 'a post_scheme \<Rightarrow> 'a post_scheme result" where
  "send_request mach box request s =
     bindE (into_tmp request) (\<lambda>request.
     halt_unless_sent (Send_now \<lparr>pk_to = mach, pk_from = netAddr s, pk_length = 0\<rparr>
       \<lparr>mb_to = box, mb_from = thisMail s, mb_length = length request + 1\<rparr> request True s))"

section \<open>\<open>GROUPINFO\<close>\<close>

text \<open>\<open>sprintf("%1d%02d", machineID, mailID)\<close>, and what \<open>RegisterNetworkThread\<close> makes of it: three
  characters for each thread. A rest of one or two characters makes it read behind the NUL.\<close>

definition dec02 :: "int \<Rightarrow> string" where
  "dec02 n = (if 0 \<le> n \<and> n < 10 then CHR ''0'' # dec n else dec n)"

definition group_entry :: "NetThreadInfoEntry \<Rightarrow> string" where
  "group_entry e = dec (nt_machine e) @ dec02 (nt_mail e)"

definition group_message :: "NetThreadInfoEntry list \<Rightarrow> string" where
  "group_message es = dec (req GROUPINFO) @ CHR ''_'' # concat (map group_entry es)"

fun parse_group :: "timeval \<Rightarrow> string \<Rightarrow> NetThreadInfoEntry list result" where
  "parse_group t0 [] = Inr []"
| "parse_group t0 (a # b # c # rest) =
     bindE (parse_group t0 rest) (\<lambda>es. Inr (NetThreadInfoEntry_new t0 (atoi [a]) (atoi [b, c]) # es))"
| "parse_group t0 _ = Inl Undefined_behaviour"

text \<open>The messages of at most eight entries, each sent to all registered threads.\<close>

fun chunks :: "nat \<Rightarrow> 'b list \<Rightarrow> 'b list list" where
  "chunks 0 xs = []"
| "chunks (Suc n) [] = []"
| "chunks (Suc n) xs = take ThreadsPerMessage xs # chunks n (drop ThreadsPerMessage xs)"

fun send_to_all :: "string \<Rightarrow> NetThreadInfoEntry list \<Rightarrow> 'a post_scheme \<Rightarrow> 'a post_scheme result" where
  "send_to_all request [] s = Inr s"
| "send_to_all request (e # es) s =
     bindE (send_request (nt_machine e) (nt_mail e) request s) (send_to_all request es)"

fun send_groups :: "NetThreadInfoEntry list list \<Rightarrow> NetThreadInfoEntry list \<Rightarrow> 'a post_scheme \<Rightarrow> 'a post_scheme result" where
  "send_groups [] all s = Inr s"
| "send_groups (g # gs) all s = bindE (send_to_all (group_message g) all s) (send_groups gs all)"

section \<open>\<open>RegServer\<close>\<close>

definition RegServer_start :: "timeval \<Rightarrow> nat \<Rightarrow> post \<Rightarrow> regserver result" where
  "RegServer_start t0 num s =
     bindE (assertE (netAddr s = RegistrationServerMachineID)) (\<lambda>_.
     bindE (assertE (thisMail s = RegistrationServerMailID)) (\<lambda>_.
     bindE (assertE (0 < num \<and> num < 100)) (\<lambda>_.
     Inr (post.extend s (regserver.fields Collecting [] [] num t0)))))"

text \<open>When all have registered, they are told about each other.\<close>

definition tell_group :: "'a regserver_scheme \<Rightarrow> 'a regserver_scheme result" where
  "tell_group s =
     (let info = serverNetThreadInfo s in
      bindE (send_groups (chunks (length info) info) info s) (\<lambda>s1.
      Inr (s1\<lparr>rs_phase := (if unAckedMessages s1 = [] then Complete else Draining)\<rparr>)))"

text \<open>A \<open>REGNETTHREAD\<close> message with its machine and mailbox number.\<close>

definition register_thread :: "Mail \<Rightarrow> string \<Rightarrow> nat \<Rightarrow> 'a regserver_scheme \<Rightarrow> 'a regserver_scheme result" where
  "register_thread pkt d i s =
     bindE (parseValue i d) (\<lambda>(mach, i1).
     bindE (parseValue i1 d) (\<lambda>(box, i2).
     let info = serverNetThreadInfo s;
         s1 = (if threadHasRegistered info mach box then s
               else s\<lparr>serverNetThreadInfo := info @ [NetThreadInfoEntry_new (rs_junk s) mach box]\<rparr>)
     in bindE (send_request (pk_from (pktHdr pkt)) (mb_from (mailHdr pkt))
          (dec (req REGNETTHREADRESPONSE) @ CHR ''_'' # dec (int (divRoundUp (totalNumNetworkThreads s) ThreadsPerMessage))) s1)
        (\<lambda>s2. if length (serverNetThreadInfo s2) < totalNumNetworkThreads s2 then Inr s2 else tell_group s2)))"

definition RegServer_receive :: "Mail \<Rightarrow> string \<Rightarrow> 'a regserver_scheme \<Rightarrow> 'a regserver_scheme result" where
  "RegServer_receive pkt d s =
     bindE (parseValue 0 d) (\<lambda>(requestType, i).
     bindE (acknowledge pkt d requestType (rs_received s) s) (\<lambda>(received, s1).
     let s2 = s1\<lparr>rs_received := received\<rparr> in
     case rs_phase s2 of
       Collecting \<Rightarrow> if requestType = req REGNETTHREAD then register_thread pkt d i s2 else Inr s2
     | Draining \<Rightarrow>
         Inr (if requestType = req ACK \<and> unAckedMessages s2 = [] then s2\<lparr>rs_phase := Complete\<rparr> else s2)
     | Complete \<Rightarrow> Inr s2))"

section \<open>\<open>RegisterNetworkThread\<close>\<close>

text \<open>After the last \<open>GROUPINFO\<close> message the user thread may go on.\<close>

definition finish_registration :: "'a netthread_scheme \<Rightarrow> 'a netthread_scheme result" where
  "finish_registration s =
     (let s1 = s\<lparr>serverCount := int (length (localNetThreadInfo s)), phase := Running\<rparr> in
      send_request (netAddr s1) (thisMail s1 + 1) (dec (req STARTUSERPROGRAM) @ ''_'') s1)"

definition RegisterNetworkThread_receive :: "Mail \<Rightarrow> string \<Rightarrow> 'a netthread_scheme \<Rightarrow> 'a netthread_scheme result" where
  "RegisterNetworkThread_receive pkt d s =
     bindE (parseValue 0 d) (\<lambda>(requestType, i).
     bindE (acknowledge pkt d requestType (receivedMessages s) s) (\<lambda>(received, s1).
     let s2 = s1\<lparr>receivedMessages := received\<rparr> in
     case phase s2 of
       WaitStart \<Rightarrow>
         if requestType = req STARTUSERPROGRAM then
           bindE (send_request RegistrationServerMachineID RegistrationServerMailID
             (dec (req REGNETTHREAD) @ CHR ''_'' # dec (netAddr s2) @ CHR ''_'' # dec (thisMail s2)) s2)
           (\<lambda>s3. Inr (s3\<lparr>phase := WaitResponse\<rparr>))
         else Inr s2
     | WaitResponse \<Rightarrow>
         if requestType = req REGNETTHREADRESPONSE then
           (if i > length d then Inl Undefined_behaviour
            else
              bindE (atoi_int (drop i d)) (\<lambda>numMessages.
              if numMessages > 0 then Inr (s2\<lparr>phase := WaitGroup numMessages\<rparr>) else finish_registration s2))
         else Inr s2
     | WaitGroup n \<Rightarrow>
         if requestType = req GROUPINFO then
           (if i > length d then Inl Undefined_behaviour
            else
              bindE (parse_group (junk_time s2) (drop i d)) (\<lambda>es.
              let s3 = s2\<lparr>localNetThreadInfo := localNetThreadInfo s2 @ es\<rparr> in
              if n > 1 then Inr (s3\<lparr>phase := WaitGroup (n - 1)\<rparr>) else finish_registration s3))
         else Inr s2
     | Running \<Rightarrow> Inr s2))"

section \<open>Total ordering\<close>

text \<open>Step 2: the time stamp of the member that the message is from.\<close>

definition update_time :: "int \<Rightarrow> int \<Rightarrow> timeval \<Rightarrow> NetThreadInfoEntry list \<Rightarrow> NetThreadInfoEntry list" where
  "update_time mach box t info =
     update_first (\<lambda>e. mach = nt_machine e \<and> box = nt_mail e) (\<lambda>e. e\<lparr>nt_time := t\<rparr>) info"

text \<open>Step 3: into the queue, before the first message with a later time.\<close>

fun insert_message :: "UnAckedMessage \<Rightarrow> UnAckedMessage list \<Rightarrow> UnAckedMessage list" where
  "insert_message u [] = [u]"
| "insert_message u (v # vs) = (if timeStamp v > timeStamp u then u # v # vs else v # insert_message u vs)"

text \<open>Step 4: the earliest time of the table. A time of 0 seconds is not valid yet, except in the
  first entry, with which the search begins.\<close>

fun earlier :: "timeval \<Rightarrow> NetThreadInfoEntry list \<Rightarrow> timeval" where
  "earlier t [] = t"
| "earlier t (e # es) = earlier (if tv_sec (nt_time e) > 0 \<and> nt_time e < t then nt_time e else t) es"

definition earliest :: "NetThreadInfoEntry list \<Rightarrow> timeval result" where
  "earliest info = (case info of [] \<Rightarrow> Inl Uncaught_exception | e # es \<Rightarrow> Inr (earlier (nt_time e) es))"

text \<open>Step 5: the messages up to that time are processed and taken off the queue. The loop's index
  counts the messages kept, and is used for the table of members as well.\<close>

type_synonym 's processor = "PacketHeader \<Rightarrow> MailHeader \<Rightarrow> timeval \<Rightarrow> string \<Rightarrow> 's \<Rightarrow> (bool \<times> 's) result"

fun deliver :: "'s processor \<Rightarrow> NetThreadInfoEntry list \<Rightarrow> timeval \<Rightarrow> nat \<Rightarrow> UnAckedMessage list \<Rightarrow> 's \<Rightarrow> (UnAckedMessage list \<times> 's) result" where
  "deliver pm info te i [] s = Inr ([], s)"
| "deliver pm info te i (u # us) s =
     (if i \<ge> length info then Inl Uncaught_exception
      else if tv_sec (nt_time (info ! i)) > 0 \<and> timeStamp u \<le> te then
        bindE (pm (pktHdr u) (mailHdr u) (timeStamp u) (mdata u) s) (\<lambda>(_, s1). deliver pm info te i us s1)
      else
        bindE (deliver pm info te (Suc i) us s) (\<lambda>(kept, s1). Inr (u # kept, s1)))"

text \<open>Steps 2 to 5. Processing a message does not touch the queue, which is local to the loop.\<close>

definition total_order :: "'a netthread_scheme processor \<Rightarrow> Mail \<Rightarrow> string \<Rightarrow> int \<Rightarrow> 'a netthread_scheme \<Rightarrow> 'a netthread_scheme result" where
  "total_order pm pkt d requestType s =
     (let info = update_time (pk_from (pktHdr pkt)) (mb_from (mailHdr pkt)) (timeStamp pkt) (localNetThreadInfo s);
          new = UnAckedMessage_new (timeStamp pkt) (timeStamp pkt) (pktHdr pkt) (mailHdr pkt) d;
          queue = (if requestType \<noteq> req TIMESTAMP then insert_message new (msgQueue s) else msgQueue s)
      in bindE (earliest info) (\<lambda>te.
         bindE (deliver pm info te 0 queue (s\<lparr>localNetThreadInfo := info, msgQueue := queue\<rparr>)) (\<lambda>(kept, s1).
         Inr (s1\<lparr>msgQueue := kept\<rparr>))))"

section \<open>\<open>NetworkThread\<close>\<close>

definition sendTimeStampMessage :: "'a netthread_scheme \<Rightarrow> 'a netthread_scheme result" where
  "sendTimeStampMessage s = send_to_all (dec (req TIMESTAMP) @ ''_'') (localNetThreadInfo s) s"

definition NetworkThread_receive :: "'a netthread_scheme processor \<Rightarrow> Mail \<Rightarrow> string \<Rightarrow> 'a netthread_scheme \<Rightarrow> 'a netthread_scheme result" where
  "NetworkThread_receive pm pkt d s =
     bindE (parseValue 0 d) (\<lambda>(requestType, i).
     let p = pktHdr pkt; m = mailHdr pkt; t = timeStamp pkt in
     if requestType = req ACK then Inr (snd (processAck p m t s))
     else
       bindE (Ack p m t s) (\<lambda>s1.
       if messageIsRedundant (receivedMessages s1) p m t then Inr s1
       else
         bindE (if requestType \<noteq> req TIMESTAMP then sendTimeStampMessage s1 else Inr s1) (\<lambda>s2.
         let s3 = s2\<lparr>receivedMessages := receivedMessages s2 @ [UnAckedMessage_new t t p m d]\<rparr> in
         if pk_from p = netAddr s3 \<and> mb_from m = thisMail s3 + 1
         then bindE (pm p m t d s3) (\<lambda>(_, s4). Inr s4)
         else total_order pm pkt d requestType s3)))"

section \<open>The group's table on the wire\<close>

lemma dec_digit: "0 \<le> n \<Longrightarrow> n < 10 \<Longrightarrow> dec n = [digit_chr (nat n)]"
  by (simp add: dec_def dec_nat_less nat_less_iff)

lemma dec02_two:
  assumes "0 \<le> n" and "n < 100"
  shows "\<exists>b c. dec02 n = [b, c] \<and> atoi [b, c] = n"
proof (cases "n < 10")
  case True
  have d: "dec n = [digit_chr (nat n)]" using assms(1) True by (rule dec_digit)
  have z: "digit_chr 0 = CHR ''0''" using dec_0 dec_digit[of 0] by simp
  have "is_digit (CHR ''0'')" "is_digit (digit_chr (nat n))"
    using digit_char[of 0] digit_char[of "nat n"] True z by (simp_all add: nat_less_iff)
  moreover have "of_char (digit_chr (nat n)) = 48 + n"
    using of_char_digit_int[of "nat n"] assms(1) True by (simp add: nat_less_iff)
  ultimately have "atoi [CHR ''0'', digit_chr (nat n)] = n"
    by (simp add: atoi_def is_space_def digits_val_def)
  then show ?thesis using d assms(1) True by (simp add: dec02_def)
next
  case False
  have "nat n div 10 < 10" "\<not> nat n < 10" using False assms(2) by (simp_all add: div_less_iff_less_mult nat_less_iff)
  then have "dec n = [digit_chr (nat n div 10), digit_chr (nat n mod 10)]"
    using assms(1) by (simp add: dec_def dec_nat_ge dec_nat_less)
  then show ?thesis using False atoi_dec[of n] by (simp add: dec02_def)
qed

lemma parse_group_entries:
  assumes "\<forall>e \<in> set es. 0 \<le> nt_machine e \<and> nt_machine e < 10 \<and> 0 \<le> nt_mail e \<and> nt_mail e < 100"
  shows "parse_group t0 (concat (map group_entry es))
    = Inr (map (\<lambda>e. NetThreadInfoEntry_new t0 (nt_machine e) (nt_mail e)) es)"
  using assms
proof (induction es)
  case (Cons e es)
  obtain b c where bc: "dec02 (nt_mail e) = [b, c]" "atoi [b, c] = nt_mail e"
    using dec02_two[of "nt_mail e"] Cons.prems by auto
  have a: "dec (nt_machine e) = [digit_chr (nat (nt_machine e))]"
    using dec_digit[of "nt_machine e"] Cons.prems by simp
  then have "atoi [digit_chr (nat (nt_machine e))] = nt_machine e" using atoi_dec[of "nt_machine e"] by simp
  then show ?case using Cons a bc by (simp add: group_entry_def)
qed simp

text \<open>
  the registration server's table arrives whole. With machine numbers of one digit and mailbox
  numbers of at most two, what \<open>RegServer\<close> prints into a \<open>GROUPINFO\<close> message for any list of threads
  is parsed by \<open>RegisterNetworkThread\<close> into the same machines and mailboxes in the same order.
\<close>

theorem group_round_trip:
  assumes "\<forall>e \<in> set es. 0 \<le> nt_machine e \<and> nt_machine e < 10 \<and> 0 \<le> nt_mail e \<and> nt_mail e < 100"
  shows "\<exists>i. parseValue 0 (group_message es) = Inr (req GROUPINFO, i)
    \<and> parse_group t0 (drop i (group_message es))
        = Inr (map (\<lambda>e. NetThreadInfoEntry_new t0 (nt_machine e) (nt_mail e)) es)"
  using parseValue_field[of "req GROUPINFO" "[]" "concat (map group_entry es)"] parse_group_entries[OF assms]
  by (simp add: group_message_def)

theorem group_round_trip_witness:
  "\<exists>i. parse_group (Timeval 0 0) (drop i (group_message [NetThreadInfoEntry_new (Timeval 5 0) 3 17]))
        = Inr [NetThreadInfoEntry_new (Timeval 0 0) 3 17]"
  using group_round_trip[of "[NetThreadInfoEntry_new (Timeval 5 0) 3 17]" "Timeval 0 0"]
  by (auto simp: NetThreadInfoEntry_new_def)

section \<open>What one delivery round processes\<close>

fun select :: "NetThreadInfoEntry list \<Rightarrow> timeval \<Rightarrow> nat \<Rightarrow> UnAckedMessage list \<Rightarrow> (UnAckedMessage list \<times> UnAckedMessage list) result" where
  "select info te i [] = Inr ([], [])"
| "select info te i (u # us) =
     (if i \<ge> length info then Inl Uncaught_exception
      else if tv_sec (nt_time (info ! i)) > 0 \<and> timeStamp u \<le> te then
        bindE (select info te i us) (\<lambda>(chosen, kept). Inr (u # chosen, kept))
      else
        bindE (select info te (Suc i) us) (\<lambda>(chosen, kept). Inr (chosen, u # kept)))"

fun process_all :: "'s processor \<Rightarrow> UnAckedMessage list \<Rightarrow> 's \<Rightarrow> 's result" where
  "process_all pm [] s = Inr s"
| "process_all pm (u # us) s =
     bindE (pm (pktHdr u) (mailHdr u) (timeStamp u) (mdata u) s) (\<lambda>(_, s1). process_all pm us s1)"

text \<open>The loop returns exactly when it can choose and the processing of every chosen message returns.\<close>

lemma deliver_select:
  "deliver pm info te i q s = Inr (kept, s') \<longleftrightarrow>
     (\<exists>chosen. select info te i q = Inr (chosen, kept) \<and> process_all pm chosen s = Inr s')"
proof (induction q arbitrary: i s kept)
  case (Cons u us)
  show ?case
  proof (cases "i < length info")
    case True
    then show ?thesis using Cons.IH by (auto simp: bindE_eq_Inr)
  qed simp
qed auto

lemma select_chosen:
  assumes "i < length info" and "tv_sec (nt_time (info ! i)) > 0" and "\<forall>u \<in> set c. timeStamp u \<le> te"
  shows "select info te i (c @ k) = bindE (select info te i k) (\<lambda>(chosen, kept). Inr (c @ chosen, kept))"
  using assms(3)
proof (induction c)
  case Nil
  then show ?case by (cases "select info te i k") auto
next
  case (Cons u us)
  then show ?case using assms(1,2) by (cases "select info te i k") auto
qed

lemma select_kept:
  assumes "\<forall>u \<in> set k. te < timeStamp u"
  shows "select info te i k = (if k = [] \<or> i + length k \<le> length info then Inr ([], k) else Inl Uncaught_exception)"
  using assms
proof (induction k arbitrary: i)
  case (Cons u us)
  then have "\<not> timeStamp u \<le> te" by auto
  then show ?case using Cons.IH[of "Suc i"] Cons.prems by (cases us) auto
qed simp

lemma sorted_split:
  assumes "sorted (map timeStamp q)"
  shows "q = filter (\<lambda>u. timeStamp u \<le> te) q @ filter (\<lambda>u. te < timeStamp u) q"
  using assms
proof (induction q)
  case (Cons u us)
  show ?case
  proof (cases "timeStamp u \<le> te")
    case False
    have "\<not> timeStamp v \<le> te" if "v \<in> set us" for v
    proof -
      have "timeStamp u \<le> timeStamp v" using Cons.prems that by simp
      then show ?thesis using False by (metis order_trans)
    qed
    then have "filter (\<lambda>u. timeStamp u \<le> te) us = []" "filter (\<lambda>u. te < timeStamp u) us = us"
      by (simp_all add: filter_empty_conv filter_id_conv not_le)
    then show ?thesis using False by simp
  next
    case True
    then have "\<not> te < timeStamp u" by (simp add: leD)
    then show ?thesis using Cons True by simp
  qed
qed simp

lemma select_sorted:
  assumes "sorted (map timeStamp q)" and "info \<noteq> []" and "\<forall>e \<in> set info. tv_sec (nt_time e) > 0"
  shows "select info te 0 q =
    (if length (filter (\<lambda>u. te < timeStamp u) q) \<le> length info
     then Inr (filter (\<lambda>u. timeStamp u \<le> te) q, filter (\<lambda>u. te < timeStamp u) q)
     else Inl Uncaught_exception)"
proof -
  let ?c = "filter (\<lambda>u. timeStamp u \<le> te) q" and ?k = "filter (\<lambda>u. te < timeStamp u) q"
  have "select info te 0 q = select info te 0 (?c @ ?k)" using sorted_split[OF assms(1), of te] by simp
  also have "\<dots> = bindE (select info te 0 ?k) (\<lambda>(chosen, kept). Inr (?c @ chosen, kept))"
    using assms(2,3) by (intro select_chosen) auto
  finally show ?thesis using select_kept[of ?k te info 0] by auto
qed

lemma deliver_chosen:
  assumes "i < length info" and "tv_sec (nt_time (info ! i)) > 0" and "\<forall>u \<in> set c. timeStamp u \<le> te"
  shows "deliver pm info te i (c @ k) s = bindE (process_all pm c s) (deliver pm info te i k)"
  using assms(3)
proof (induction c arbitrary: s)
  case (Cons u us)
  then show ?case using assms(1,2) by (auto simp: bindE_assoc case_prod_beta intro: bindE_cong)
qed simp

lemma deliver_kept:
  assumes "\<forall>u \<in> set k. te < timeStamp u"
  shows "deliver pm info te i k s = (if k = [] \<or> i + length k \<le> length info then Inr (k, s) else Inl Uncaught_exception)"
  using assms
proof (induction k arbitrary: i)
  case (Cons u us)
  then have "\<not> timeStamp u \<le> te" by auto
  then show ?case using Cons.IH[of "Suc i"] Cons.prems by (cases us) auto
qed simp

text \<open>
  what a round of total ordering processes. With valid time stamps for all members and a queue
  in time order, \<open>NetworkThread\<close> processes exactly the messages up to the earliest time of the table,
  in time order, and keeps the others in order; but when more messages are to be kept than there are
  members, \<open>vector::at\<close> throws, because the loop looks up the table with the queue's index.
\<close>

theorem delivery_exact:
  assumes "sorted (map timeStamp q)" and "info \<noteq> []" and "\<forall>e \<in> set info. tv_sec (nt_time e) > 0"
    and "later = filter (\<lambda>u. te < timeStamp u) q"
  shows "deliver pm info te 0 q s =
    bindE (process_all pm (filter (\<lambda>u. timeStamp u \<le> te) q) s)
      (\<lambda>s1. if length later \<le> length info then Inr (later, s1) else Inl Uncaught_exception)"
proof -
  have "deliver pm info te 0 q s = deliver pm info te 0 (filter (\<lambda>u. timeStamp u \<le> te) q @ later) s"
    using sorted_split[OF assms(1), of te] assms(4) by simp
  also have "\<dots> = bindE (process_all pm (filter (\<lambda>u. timeStamp u \<le> te) q) s) (deliver pm info te 0 later)"
    using assms(2,3) by (intro deliver_chosen) auto
  also have "deliver pm info te 0 later
      = (\<lambda>s1. if length later \<le> length info then Inr (later, s1) else Inl Uncaught_exception)"
    using assms(4) by (auto simp: fun_eq_iff deliver_kept)
  finally show ?thesis .
qed

definition demo_message :: "int \<Rightarrow> int \<Rightarrow> UnAckedMessage" where
  "demo_message mach sec = UnAckedMessage_new (Timeval sec 0) (Timeval sec 0)
     \<lparr>pk_to = 0, pk_from = mach, pk_length = 0\<rparr> \<lparr>mb_to = 0, mb_from = 0, mb_length = 3\<rparr> ''0_''"

lemma demo_message_simps [simp]:
  "timeStamp (demo_message mach sec) = Timeval sec 0" "pk_from (pktHdr (demo_message mach sec)) = mach"
  "mb_from (mailHdr (demo_message mach sec)) = 0"
  by (simp_all add: demo_message_def UnAckedMessage_new_def)

theorem delivery_exact_witness:
  "deliver (\<lambda>p m t d (s :: nat). Inr (True, s + 1)) [NetThreadInfoEntry_new (Timeval 5 0) 0 0] (Timeval 5 0) 0
     [demo_message 0 3, demo_message 0 9] 0 = Inr ([demo_message 0 9], 1)
   \<and> deliver (\<lambda>p m t d (s :: nat). Inr (True, s + 1)) [NetThreadInfoEntry_new (Timeval 5 0) 0 0] (Timeval 5 0) 0
     [demo_message 0 7, demo_message 0 9] 0 = Inl Uncaught_exception"
  using delivery_exact[of "[demo_message 0 3, demo_message 0 9]" "[NetThreadInfoEntry_new (Timeval 5 0) 0 0]" _ "Timeval 5 0"
      "\<lambda>p m t d (s :: nat). Inr (True, s + 1)" 0, OF _ _ _ refl]
    delivery_exact[of "[demo_message 0 7, demo_message 0 9]" "[NetThreadInfoEntry_new (Timeval 5 0) 0 0]" _ "Timeval 5 0"
      "\<lambda>p m t d (s :: nat). Inr (True, s + 1)" 0, OF _ _ _ refl]
  by (simp add: NetThreadInfoEntry_new_def less_eq_timeval_def less_timeval_def)

section \<open>The order of deliveries\<close>

text \<open>
  The data of the loop as a step relation: the table, the queue and the messages processed so far.
  A step is a message of a member of the table whose own messages come in time order.
\<close>

inductive order_step ::
  "NetThreadInfoEntry list \<times> UnAckedMessage list \<times> UnAckedMessage list
   \<Rightarrow> NetThreadInfoEntry list \<times> UnAckedMessage list \<times> UnAckedMessage list \<Rightarrow> bool" where
  receive: "\<lbrakk>find (\<lambda>e. mach = nt_machine e \<and> box = nt_mail e) info = Some e; nt_time e \<le> timeStamp u;
     info' = update_time mach box (timeStamp u) info;
     q' = (if requestType \<noteq> req TIMESTAMP then insert_message u q else q);
     earliest info' = Inr te; select info' te 0 q' = Inr (chosen, kept)\<rbrakk>
   \<Longrightarrow> order_step (info, q, log) (info', kept, log @ chosen)"

inductive_cases order_stepE: "order_step (info, q, log) x"

text \<open>
  What the loop relies on in the processing of a message: it keeps an invariant of the thread's
  state, which sending keeps too, and leaves the data of the ordering alone.
\<close>

locale message_processor =
  fixes pm :: "'a netthread_scheme processor"
    and inv :: "'a netthread_scheme \<Rightarrow> bool"
  assumes handles: "inv s \<Longrightarrow> pm p m t x s = Inr (b, s') \<Longrightarrow>
      inv s' \<and> localNetThreadInfo s' = localNetThreadInfo s \<and> msgQueue s' = msgQueue s \<and> phase s' = phase s"
    and sends: "inv s \<Longrightarrow> Send p m t x a s = Inr (b, s') \<Longrightarrow> inv s'"
    and erases: "inv s \<Longrightarrow> inv (s\<lparr>unAckedMessages := erase_first P (unAckedMessages s)\<rparr>)"
    and ignores: "inv (s\<lparr>localNetThreadInfo := i\<rparr>) = inv s" "inv (s\<lparr>msgQueue := q\<rparr>) = inv s"
      "inv (s\<lparr>receivedMessages := r\<rparr>) = inv s" "inv (s\<lparr>reads := n\<rparr>) = inv s"
begin

definition same_order :: "'a netthread_scheme \<Rightarrow> 'a netthread_scheme \<Rightarrow> bool" where
  "same_order s s' \<longleftrightarrow> inv s' \<and> localNetThreadInfo s' = localNetThreadInfo s \<and> msgQueue s' = msgQueue s \<and> phase s' = phase s"

lemma same_order_trans: "same_order s s' \<Longrightarrow> same_order s' s'' \<Longrightarrow> same_order s s''"
  by (simp add: same_order_def)

lemma sent_same:
  assumes "inv s" and "Send p m t x a s = Inr (b, s')"
  shows "same_order s s'"
proof -
  have more: "post.more s' = post.more s" using Send_effect[OF assms(2)] by blast
  then have "localNetThreadInfo s' = localNetThreadInfo s" "msgQueue s' = msgQueue s" "phase s' = phase s"
    by (cases s; cases s'; simp)+
  then show ?thesis using sends[OF assms] by (simp add: same_order_def)
qed

lemma sent_now_same:
  assumes "inv s" and "Send_now p m x a s = Inr (b, s')"
  shows "same_order s s'"
  using assms sent_same[of "s\<lparr>reads := reads s + 1\<rparr>"]
  by (simp add: Send_now_def gettimeofday_def ignores same_order_def)

lemma Ack_same: "inv s \<Longrightarrow> Ack p m t s = Inr s' \<Longrightarrow> same_order s s'"
  using sent_same erases by (auto simp: Ack_def Let_def same_order_def split: if_splits)

lemma send_to_all_same: "inv s \<Longrightarrow> send_to_all r es s = Inr s' \<Longrightarrow> same_order s s'"
proof (induction r es s rule: send_to_all.induct)
  case (2 r e es s)
  then obtain s1 where "send_request (nt_machine e) (nt_mail e) r s = Inr s1" "send_to_all r es s1 = Inr s'"
    by (auto simp: bindE_eq_Inr)
  moreover have "same_order s s1"
    using calculation(1) sent_now_same[OF "2.prems"(1)] by (auto simp: send_request_def bindE_eq_Inr)
  ultimately show ?case using "2.IH" same_order_trans by (auto simp: same_order_def)
qed (simp add: same_order_def)

lemma process_all_same: "inv s \<Longrightarrow> process_all pm us s = Inr s' \<Longrightarrow> same_order s s'"
proof (induction us arbitrary: s)
  case (Cons u us)
  then obtain b s1 where s1: "pm (pktHdr u) (mailHdr u) (timeStamp u) (mdata u) s = Inr (b, s1)" "process_all pm us s1 = Inr s'"
    by (auto simp: bindE_eq_Inr)
  have "same_order s s1" using handles[OF Cons.prems(1) s1(1)] by (simp add: same_order_def)
  then show ?case using Cons.IH[OF _ s1(2)] same_order_trans by (auto simp: same_order_def)
qed (simp add: same_order_def)

text \<open>A round of the total ordering is a step of the relation.\<close>

lemma total_order_is_step:
  assumes "inv s" and "total_order pm pkt d requestType s = Inr s'"
    and "find (\<lambda>e. pk_from (pktHdr pkt) = nt_machine e \<and> mb_from (mailHdr pkt) = nt_mail e) (localNetThreadInfo s) = Some e"
    and "nt_time e \<le> timeStamp pkt"
  shows "inv s' \<and> phase s' = phase s
    \<and> (\<exists>chosen. order_step (localNetThreadInfo s, msgQueue s, log) (localNetThreadInfo s', msgQueue s', log @ chosen))"
proof -
  let ?info = "update_time (pk_from (pktHdr pkt)) (mb_from (mailHdr pkt)) (timeStamp pkt) (localNetThreadInfo s)"
  let ?u = "UnAckedMessage_new (timeStamp pkt) (timeStamp pkt) (pktHdr pkt) (mailHdr pkt) d"
  let ?q = "if requestType \<noteq> req TIMESTAMP then insert_message ?u (msgQueue s) else msgQueue s"
  let ?s = "s\<lparr>localNetThreadInfo := ?info, msgQueue := ?q\<rparr>"
  obtain te kept s1 where te: "earliest ?info = Inr te" and del: "deliver pm ?info te 0 ?q ?s = Inr (kept, s1)"
    and s': "s' = s1\<lparr>msgQueue := kept\<rparr>"
    using assms(2) by (auto simp: total_order_def Let_def bindE_eq_Inr)
  obtain chosen where sel: "select ?info te 0 ?q = Inr (chosen, kept)" and "process_all pm chosen ?s = Inr s1"
    using del unfolding deliver_select by blast
  then have "same_order ?s s1" using process_all_same[of ?s] assms(1) by (simp add: ignores)
  then have "localNetThreadInfo s' = ?info" "msgQueue s' = kept" "inv s'" "phase s' = phase s"
    using s' by (simp_all add: same_order_def ignores)
  moreover have t: "timeStamp ?u = timeStamp pkt" by (simp add: UnAckedMessage_new_def)
  ultimately show ?thesis
    using order_step.receive[OF assms(3), of ?u, unfolded t, OF assms(4) refl refl te sel] by metis
qed

text \<open>A message received either leaves the data of the ordering alone or is such a step.\<close>

lemma receive_step:
  assumes "inv s" and "NetworkThread_receive pm pkt d s = Inr s'"
    and "find (\<lambda>e. pk_from (pktHdr pkt) = nt_machine e \<and> mb_from (mailHdr pkt) = nt_mail e) (localNetThreadInfo s) = Some e"
    and "nt_time e \<le> timeStamp pkt"
  shows "same_order s s' \<or> inv s' \<and> phase s' = phase s
    \<and> (\<exists>chosen. order_step (localNetThreadInfo s, msgQueue s, log) (localNetThreadInfo s', msgQueue s', log @ chosen))"
proof -
  let ?p = "pktHdr pkt" and ?m = "mailHdr pkt" and ?t = "timeStamp pkt"
  obtain r i where r: "parseValue 0 d = Inr (r, i)"
    using assms(2) by (auto simp: NetworkThread_receive_def bindE_eq_Inr)
  show ?thesis
  proof (cases "r = req ACK")
    case True
    then show ?thesis using assms(1,2) r erases by (auto simp: NetworkThread_receive_def Let_def processAck_def same_order_def)
  next
    case False
    obtain s1 where s1: "Ack ?p ?m ?t s = Inr s1"
      using assms(2) r False by (auto simp: NetworkThread_receive_def Let_def bindE_eq_Inr)
    have a: "same_order s s1" by (rule Ack_same[OF assms(1) s1])
    show ?thesis
    proof (cases "messageIsRedundant (receivedMessages s1) ?p ?m ?t")
      case True
      then show ?thesis using assms(2) r False s1 a by (auto simp: NetworkThread_receive_def Let_def)
    next
      case new: False
      obtain s2 where s2: "(if r \<noteq> req TIMESTAMP then sendTimeStampMessage s1 else Inr s1) = Inr s2"
        using assms(2) r False s1 new by (auto simp: NetworkThread_receive_def Let_def bindE_eq_Inr split: if_splits)
      let ?s3 = "s2\<lparr>receivedMessages := receivedMessages s2 @ [UnAckedMessage_new ?t ?t ?p ?m d]\<rparr>"
      have "same_order s1 s2"
        using s2 a send_to_all_same by (auto simp: sendTimeStampMessage_def same_order_def split: if_splits)
      then have s3: "same_order s ?s3" using a by (auto simp: same_order_def ignores)
      have rest: "(if pk_from ?p = netAddr ?s3 \<and> mb_from ?m = thisMail ?s3 + 1
          then bindE (pm ?p ?m ?t d ?s3) (\<lambda>(_, s4). Inr s4) else total_order pm pkt d r ?s3) = Inr s'"
        using assms(2) r False s1 new s2 by (simp add: NetworkThread_receive_def Let_def)
      show ?thesis
      proof (cases "pk_from ?p = netAddr ?s3 \<and> mb_from ?m = thisMail ?s3 + 1")
        case True
        then obtain b where "pm ?p ?m ?t d ?s3 = Inr (b, s')" using rest by (auto simp: bindE_eq_Inr)
        then have "same_order ?s3 s'" using handles s3 by (auto simp: same_order_def)
        then show ?thesis using s3 same_order_trans by blast
      next
        case other: False
        have info: "localNetThreadInfo ?s3 = localNetThreadInfo s" "msgQueue ?s3 = msgQueue s" "phase ?s3 = phase s" "inv ?s3"
          using s3 by (simp_all add: same_order_def)
        have "total_order pm pkt d r ?s3 = Inr s'" using rest other by (simp only: if_False)
        from total_order_is_step[OF info(4) this, of e log] show ?thesis
          unfolding info using assms(3,4) by blast
      qed
    qed
  qed
qed

end

text \<open>The earliest time is the minimum of a table of valid times.\<close>

lemma earlier_valid:
  assumes "\<forall>e \<in> set es. tv_sec (nt_time e) > 0"
  shows "earlier t es \<le> t \<and> (\<forall>e \<in> set es. earlier t es \<le> nt_time e)
    \<and> (earlier t es = t \<or> (\<exists>e \<in> set es. earlier t es = nt_time e))"
  using assms
proof (induction es arbitrary: t)
  case (Cons e es)
  let ?t = "if tv_sec (nt_time e) > 0 \<and> nt_time e < t then nt_time e else t"
  have "?t \<le> t" "?t \<le> nt_time e" "?t = t \<or> ?t = nt_time e" using Cons.prems by auto
  then show ?case using Cons.IH[of ?t] Cons.prems by (auto intro: order_trans)
qed simp

lemma earliest_valid:
  assumes "\<forall>e \<in> set info. tv_sec (nt_time e) > 0" and "earliest info = Inr te"
  shows "\<forall>e \<in> set info. te \<le> nt_time e" and "\<exists>e \<in> set info. te = nt_time e"
proof -
  obtain e es where i: "info = e # es" "te = earlier (nt_time e) es"
    using assms(2) by (cases info) (auto simp: earliest_def)
  show "\<forall>e \<in> set info. te \<le> nt_time e" and "\<exists>e \<in> set info. te = nt_time e"
    using earlier_valid[of es "nt_time e"] assms(1) i by auto
qed

text \<open>A later time for one member: the table stays valid and no time of it goes back.\<close>

lemma update_time_later:
  assumes "find (\<lambda>e. mach = nt_machine e \<and> box = nt_mail e) info = Some e0" and "nt_time e0 \<le> t"
    and "\<forall>e \<in> set info. tv_sec (nt_time e) > 0"
  shows "\<forall>e' \<in> set (update_time mach box t info). tv_sec (nt_time e') > 0 \<and> (\<exists>e \<in> set info. nt_time e \<le> nt_time e')"
    and "length (update_time mach box t info) = length info"
proof -
  show "length (update_time mach box t info) = length info" by (simp add: update_time_def)
  have sec: "tv_sec t > 0" if "tv_sec a > 0" "a \<le> t" for a
    using that by (auto simp: less_eq_timeval_def)
  show "\<forall>e' \<in> set (update_time mach box t info). tv_sec (nt_time e') > 0 \<and> (\<exists>e \<in> set info. nt_time e \<le> nt_time e')"
    using assms
  proof (induction info)
    case (Cons x xs)
    show ?case
    proof (cases "mach = nt_machine x \<and> box = nt_mail x")
      case True
      then have "e0 = x" using Cons.prems(1) by simp
      then show ?thesis using True Cons.prems(2,3) sec[of "nt_time x"] by (auto simp: update_time_def)
    next
      case False
      then have "find (\<lambda>e. mach = nt_machine e \<and> box = nt_mail e) xs = Some e0" using Cons.prems(1) by auto
      then show ?thesis using Cons.IH Cons.prems(2,3) False by (auto simp: update_time_def)
    qed
  qed (simp add: update_time_def)
qed

lemma set_insert_message: "set (insert_message u q) = insert u (set q)"
  by (induction q) auto

lemma sorted_insert_message: "sorted (map timeStamp q) \<Longrightarrow> sorted (map timeStamp (insert_message u q))"
proof (induction q)
  case (Cons v vs)
  show ?case
  proof (cases "timeStamp v > timeStamp u")
    case True
    then show ?thesis using Cons.prems by (auto dest: less_imp_le intro: order_trans)
  next
    case False
    then have "timeStamp v \<le> timeStamp u" by simp
    then show ?thesis using Cons False by (auto simp: set_insert_message)
  qed
qed simp

definition order_inv :: "NetThreadInfoEntry list \<times> UnAckedMessage list \<times> UnAckedMessage list \<Rightarrow> bool" where
  "order_inv x = (case x of (info, q, log) \<Rightarrow>
     (\<forall>e \<in> set info. tv_sec (nt_time e) > 0) \<and> sorted (map timeStamp q) \<and> sorted (map timeStamp log)
     \<and> (\<forall>e \<in> set info. \<forall>u \<in> set log. timeStamp u \<le> nt_time e)
     \<and> (\<forall>u \<in> set log. \<forall>v \<in> set q. timeStamp u \<le> timeStamp v))"

lemma order_step_inv:
  assumes "order_step x y" and "order_inv x"
  shows "order_inv y"
  using assms(1)
proof (cases rule: order_step.cases)
  case (receive mach box info e u info' q' requestType q te chosen kept log)
  have valid: "\<forall>e \<in> set info. tv_sec (nt_time e) > 0" and sq: "sorted (map timeStamp q)"
    and slog: "sorted (map timeStamp log)" and old: "\<forall>e \<in> set info. \<forall>u \<in> set log. timeStamp u \<le> nt_time e"
    and before: "\<forall>u \<in> set log. \<forall>v \<in> set q. timeStamp u \<le> timeStamp v"
    using assms(2) receive(1) by (auto simp: order_inv_def)
  note upd = update_time_later[OF receive(3,4) valid, folded receive(5)]
  have valid': "\<forall>e \<in> set info'. tv_sec (nt_time e) > 0" using upd(1) by blast
  have ne: "info' \<noteq> []" using receive(7) by (auto simp: earliest_def)
  have e: "e \<in> set info" using receive(3) by (auto simp: find_Some_iff)
  have sq': "sorted (map timeStamp q')"
    using receive(6) sq sorted_insert_message[OF sq, of u] by simp
  have q': "\<forall>u \<in> set log. \<forall>v \<in> set q'. timeStamp u \<le> timeStamp v"
  proof -
    have "timeStamp w \<le> timeStamp u" if "w \<in> set log" for w
      using old e that receive(4) by (meson order_trans)
    then show ?thesis using receive(6) before by (auto simp: set_insert_message)
  qed
  have sel: "chosen = filter (\<lambda>u. timeStamp u \<le> te) q'" "kept = filter (\<lambda>u. te < timeStamp u) q'"
    using receive(8) unfolding select_sorted[OF sq' ne valid'] by (auto split: if_splits)
  have old': "\<forall>e \<in> set info'. \<forall>u \<in> set log. timeStamp u \<le> nt_time e"
    using upd(1) old by (meson order_trans)
  have te: "\<forall>e \<in> set info'. te \<le> nt_time e" using earliest_valid(1)[OF valid' receive(7)] .
  have "sorted (map timeStamp kept)" "sorted (map timeStamp chosen)"
    using sq' unfolding sel by (simp_all add: sorted_filter)
  moreover have "sorted (map timeStamp (log @ chosen))"
    using slog \<open>sorted (map timeStamp chosen)\<close> q' sel(1) by (auto simp: sorted_append)
  moreover have "\<forall>u \<in> set (log @ chosen). \<forall>v \<in> set kept. timeStamp u \<le> timeStamp v"
    using q' unfolding sel by (auto intro: order_trans less_imp_le)
  moreover have "\<forall>e \<in> set info'. \<forall>u \<in> set (log @ chosen). timeStamp u \<le> nt_time e"
    using old' te unfolding sel by (auto intro: order_trans)
  ultimately show ?thesis using valid' receive(2) unfolding order_inv_def by auto
qed

lemma reachable_sorted:
  assumes "order_step\<^sup>*\<^sup>* (info, [], []) (info', q, log)" and "\<forall>e \<in> set info. tv_sec (nt_time e) > 0"
  shows "sorted (map timeStamp (log @ q))"
proof -
  have "order_inv (info', q, log)"
    using assms(1)
  proof (induction rule: rtranclp_induct)
    case base
    then show ?case using assms(2) by (simp add: order_inv_def)
  qed (rule order_step_inv)
  then show ?thesis by (auto simp: order_inv_def sorted_append)
qed

text \<open>
  deliveries are totally ordered. Starting with a table of valid times, however the messages of
  the members arrive, as long as each member's own messages come in time order: the messages
  processed so far are in time order and none of them is later than a message still queued.
\<close>

theorem deliveries_in_time_order:
  assumes "order_step\<^sup>*\<^sup>* (info, [], []) (info', q, log)" and "\<forall>e \<in> set info. tv_sec (nt_time e) > 0"
  shows "sorted (map timeStamp (log @ q))"
  by (rule reachable_sorted[OF assms])

definition demo_table :: "int \<Rightarrow> int \<Rightarrow> NetThreadInfoEntry list" where
  "demo_table a b = [NetThreadInfoEntry_new (Timeval a 0) 0 0, NetThreadInfoEntry_new (Timeval b 0) 1 0]"

text \<open>Two messages at two members, in both orders of arrival.\<close>

lemma demo_run:
  "order_step\<^sup>*\<^sup>* (demo_table 1 1, [], []) (demo_table 3 4, [demo_message 1 4], [demo_message 0 3])"
  "order_step\<^sup>*\<^sup>* (demo_table 1 2, [], []) (demo_table 3 4, [demo_message 1 4], [demo_message 0 3])"
proof -
  note d = demo_table_def NetThreadInfoEntry_new_def update_time_def earliest_def less_timeval_def less_eq_timeval_def
  have "order_step (demo_table 1 1, [], []) (demo_table 3 1, [demo_message 0 3], [] @ [])"
    by (rule order_step.receive[where mach = 0 and box = 0 and u = "demo_message 0 3" and requestType = 0 and e = "NetThreadInfoEntry_new (Timeval 1 0) 0 0" and te = "Timeval 1 0"])
      (simp_all add: d)+
  moreover have "order_step (demo_table 3 1, [demo_message 0 3], []) (demo_table 3 4, [demo_message 1 4], [] @ [demo_message 0 3])"
    by (rule order_step.receive[where mach = 1 and box = 0 and u = "demo_message 1 4" and requestType = 0 and e = "NetThreadInfoEntry_new (Timeval 1 0) 1 0" and te = "Timeval 3 0"])
      (simp_all add: d)+
  ultimately show "order_step\<^sup>*\<^sup>* (demo_table 1 1, [], []) (demo_table 3 4, [demo_message 1 4], [demo_message 0 3])"
    by simp
  have "order_step (demo_table 1 2, [], []) (demo_table 1 4, [demo_message 1 4], [] @ [])"
    by (rule order_step.receive[where mach = 1 and box = 0 and u = "demo_message 1 4" and requestType = 0 and e = "NetThreadInfoEntry_new (Timeval 2 0) 1 0" and te = "Timeval 1 0"])
      (simp_all add: d)+
  moreover have "order_step (demo_table 1 4, [demo_message 1 4], []) (demo_table 3 4, [demo_message 1 4], [] @ [demo_message 0 3])"
    by (rule order_step.receive[where mach = 0 and box = 0 and u = "demo_message 0 3" and requestType = 0 and e = "NetThreadInfoEntry_new (Timeval 1 0) 0 0" and te = "Timeval 3 0"])
      (simp_all add: d)+
  ultimately show "order_step\<^sup>*\<^sup>* (demo_table 1 2, [], []) (demo_table 3 4, [demo_message 1 4], [demo_message 0 3])"
    by simp
qed

theorem deliveries_in_time_order_witness:
  "sorted (map timeStamp ([demo_message 0 3] @ [demo_message 1 4]))"
  using deliveries_in_time_order[OF demo_run(1)] by (simp add: demo_table_def NetThreadInfoEntry_new_def)

text \<open>What all receivers see of a message: its time, its sender and its data.\<close>

definition payload :: "UnAckedMessage \<Rightarrow> timeval \<times> int \<times> int \<times> string" where
  "payload u = (timeStamp u, pk_from (pktHdr u), mb_from (mailHdr u), mdata u)"

lemma sorted_same_messages:
  assumes "sorted (map timeStamp log1)" and "sorted (map timeStamp log2)"
    and "distinct (map timeStamp log1)" and "distinct (map timeStamp log2)"
    and "payload ` set log1 = payload ` set log2"
  shows "map payload log1 = map payload log2"
proof (rule map_sorted_distinct_set_unique[of fst])
  have m: "map fst (map payload l) = map timeStamp l" for l
    by (simp add: payload_def)
  show "set (map payload log1) = set (map payload log2)" using assms(5) by simp
  show "sorted (map fst (map payload log1))" "sorted (map fst (map payload log2))"
    "distinct (map fst (map payload log1))" "distinct (map fst (map payload log2))"
    using assms(1-4) unfolding m .
  have "inj_on fst (set (map payload log1))"
    using assms(3) unfolding m[symmetric] by (simp only: distinct_map)
  then show "inj_on fst (set (map payload log1) \<union> set (map payload log2))"
    using assms(5) by simp
qed



end
