(* ===== verification/NetServer.thy ===== *)
theory NetServer
  imports TotalOrder
begin

text \<open>
  The distributed locks, condition variables and monitor variables of \<open>network/netcall.cc\<close>: the
  objects of a server, and the functions that acquire, release and destroy locks, set, get and
  destroy variables, and wait on, signal and broadcast conditions. Each of them sends its replies
  through the post office. \<open>NetCreate\<close> and \<open>NetDispatch\<close> hold the requests that call them.

  The state extends that of a network thread by the global variables of the file. An object is
  named by its global id: the server's \<open>uniqueGlobalID\<close> times the size of its table plus the
  index. Local variables that the code reads before it sets them have the values given by the
  argument \<open>J\<close>. A lookup outside an array and the dereferencing of NULL are undefined.
\<close>

section \<open>State\<close>

abbreviation (input) MAX_CLIENTS :: int where "MAX_CLIENTS \<equiv> 1000"
abbreviation (input) MAX_DLOCK :: int where "MAX_DLOCK \<equiv> 100"
abbreviation (input) MAX_DMV :: int where "MAX_DMV \<equiv> 500"
abbreviation (input) MAX_DCV :: int where "MAX_DCV \<equiv> 100"
abbreviation (input) MAX_NUM_GLOBAL_IDS :: int where "MAX_NUM_GLOBAL_IDS \<equiv> 1000"

record message =
  ms_pkt :: PacketHeader
  ms_mail :: MailHeader
  ms_data :: string

record dlock =
  dl_name :: string
  dl_free :: bool
  dl_owner :: "int \<times> int"
  dl_queue :: "message list"
  dl_gid :: int

record dmv =
  mv_name :: string
  mv_value :: int
  mv_gid :: int

record dcv =
  cv_name :: string
  cv_firstLock :: int
  cv_owner :: "int \<times> int"
  cv_queue :: "message list"
  cv_gid :: int

record server = netthread +
  dlocks :: "dlock option list"
  cvs :: "dcv option list"
  mvs :: "dmv option list"
  createDLockIndex :: int
  createDCVIndex :: int
  createDMVIndex :: int
  verifyBuffer :: "nat \<Rightarrow> char"               \<comment> \<open>\<open>char [MAX_CLIENTS][4][5]\<close>, row after row\<close>
  lockName :: "int \<Rightarrow> string"
  verifyResponses :: "int \<Rightarrow> int"
  localLockIndex :: "int \<Rightarrow> int"
  lockCreationStates :: "int \<Rightarrow> int"
  cvCreationStates :: "int \<Rightarrow> int"
  mvCreationStates :: "int \<Rightarrow> int"
  lockCreationTimeStamps :: "int \<Rightarrow> timeval"
  cvCreationTimeStamps :: "int \<Rightarrow> timeval"
  mvCreationTimeStamps :: "int \<Rightarrow> timeval"
  waitingForSignalCvs :: "int \<Rightarrow> int"
  waitingForBroadcastCvs :: "int \<Rightarrow> int"
  waitingForWaitLocks :: "int \<Rightarrow> int"
  errorOutPktHdr :: PacketHeader
  errorInPktHdr :: PacketHeader
  errorOutMailHdr :: MailHeader
  errorInMailHdr :: MailHeader

text \<open>The globals of a network thread that has just started: static storage is zero.\<close>

definition server_start :: "netthread \<Rightarrow> server" where
  "server_start s = netthread.extend s
     \<lparr>dlocks = replicate (nat MAX_DLOCK) None, cvs = replicate (nat MAX_DCV) None, mvs = replicate (nat MAX_DMV) None,
      createDLockIndex = 0, createDCVIndex = 0, createDMVIndex = 0,
      verifyBuffer = (\<lambda>_. NUL), lockName = (\<lambda>_. []), verifyResponses = (\<lambda>_. 0), localLockIndex = (\<lambda>_. 0),
      lockCreationStates = (\<lambda>_. 0), cvCreationStates = (\<lambda>_. 0), mvCreationStates = (\<lambda>_. 0),
      lockCreationTimeStamps = (\<lambda>_. Timeval 0 0), cvCreationTimeStamps = (\<lambda>_. Timeval 0 0),
      mvCreationTimeStamps = (\<lambda>_. Timeval 0 0), waitingForSignalCvs = (\<lambda>_. 0), waitingForBroadcastCvs = (\<lambda>_. 0),
      waitingForWaitLocks = (\<lambda>_. 0),
      errorOutPktHdr = \<lparr>pk_to = 0, pk_from = 0, pk_length = 0\<rparr>, errorInPktHdr = \<lparr>pk_to = 0, pk_from = 0, pk_length = 0\<rparr>,
      errorOutMailHdr = \<lparr>mb_to = 0, mb_from = 0, mb_length = 0\<rparr>, errorInMailHdr = \<lparr>mb_to = 0, mb_from = 0, mb_length = 0\<rparr>\<rparr>"

text \<open>What uninitialised local variables hold.\<close>

record junk =
  j_pkt :: PacketHeader     \<comment> \<open>\<open>outPktHdr\<close>\<close>
  j_mail :: MailHeader      \<comment> \<open>\<open>outMailHdr\<close>\<close>
  j_a :: int                \<comment> \<open>the index \<open>a\<close>\<close>
  j_client :: string        \<comment> \<open>the bytes of \<open>client\<close>, up to the first NUL behind it\<close>
  j_value :: int            \<comment> \<open>the value of a new monitor variable\<close>
  j_success :: bool         \<comment> \<open>\<open>success\<close> in \<open>Wait\<close>\<close>
  j_ptr :: int              \<comment> \<open>the address of \<open>client\<close>, printed as a number\<close>

section \<open>Objects and tables\<close>

definition Message_new :: "PacketHeader \<Rightarrow> MailHeader \<Rightarrow> string \<Rightarrow> message" where
  "Message_new p m d = \<lparr>ms_pkt = p, ms_mail = m, ms_data = d\<rparr>"

definition DistributedLock_new :: "string \<Rightarrow> dlock" where
  "DistributedLock_new nm = \<lparr>dl_name = nm, dl_free = True, dl_owner = (-1, -1), dl_queue = [], dl_gid = -1\<rparr>"

definition DistributedMV_new :: "int \<Rightarrow> string \<Rightarrow> dmv" where
  "DistributedMV_new v nm = \<lparr>mv_name = nm, mv_value = v, mv_gid = -1\<rparr>"

definition DistributedCV_new :: "string \<Rightarrow> dcv" where
  "DistributedCV_new nm = \<lparr>cv_name = nm, cv_firstLock = 0, cv_owner = (-1, -1), cv_queue = [], cv_gid = -1\<rparr>"

definition QueueReply :: "message \<Rightarrow> dlock \<Rightarrow> dlock" where
  "QueueReply r l = l\<lparr>dl_queue := dl_queue l @ [r]\<rparr>"

definition CV_QueueReply :: "message \<Rightarrow> dcv \<Rightarrow> dcv" where
  "CV_QueueReply r c = c\<lparr>cv_queue := cv_queue c @ [r]\<rparr>"

definition aget :: "'b list \<Rightarrow> int \<Rightarrow> 'b result" where
  "aget xs i = (if 0 \<le> i \<and> i < int (length xs) then Inr (xs ! nat i) else Inl Undefined_behaviour)"

definition aset :: "'b list \<Rightarrow> int \<Rightarrow> 'b \<Rightarrow> 'b list result" where
  "aset xs i v = (if 0 \<le> i \<and> i < int (length xs) then Inr (xs[nat i := v]) else Inl Undefined_behaviour)"

text \<open>The object behind a pointer of a table.\<close>

definition aderef :: "'b option list \<Rightarrow> int \<Rightarrow> 'b result" where
  "aderef xs i = bindE (aget xs i) (\<lambda>x. case x of None \<Rightarrow> Inl Undefined_behaviour | Some v \<Rightarrow> Inr v)"

text \<open>The tables with a row for each client.\<close>

definition client_ok :: "int \<Rightarrow> unit result" where
  "client_ok c = (if 0 \<le> c \<and> c < MAX_CLIENTS then Inr () else Inl Undefined_behaviour)"

definition put_lock :: "int \<Rightarrow> dlock \<Rightarrow> 'a server_scheme \<Rightarrow> 'a server_scheme" where
  "put_lock i l s = s\<lparr>dlocks := (dlocks s)[nat i := Some l]\<rparr>"

definition put_cv :: "int \<Rightarrow> dcv \<Rightarrow> 'a server_scheme \<Rightarrow> 'a server_scheme" where
  "put_cv i c s = s\<lparr>cvs := (cvs s)[nat i := Some c]\<rparr>"

definition put_mv :: "int \<Rightarrow> dmv \<Rightarrow> 'a server_scheme \<Rightarrow> 'a server_scheme" where
  "put_mv i v s = s\<lparr>mvs := (mvs s)[nat i := Some v]\<rparr>"

definition uniqueGlobalID :: "'a server_scheme \<Rightarrow> int" where
  "uniqueGlobalID s = netAddr s * 100 + thisMail s"

section \<open>Replies\<close>

text \<open>\<open>outMailHdr.length = strlen(d) + 1; success = postOffice->Send(outPktHdr, outMailHdr, d)\<close>\<close>

definition post_send :: "PacketHeader \<Rightarrow> MailHeader \<Rightarrow> string \<Rightarrow> 'a server_scheme \<Rightarrow> (bool \<times> 'a server_scheme) result" where
  "post_send p m d s = Send_now p (m\<lparr>mb_length := length d + 1\<rparr>) d True s"

text \<open>... followed by \<open>if (!success) interrupt->Halt();\<close>\<close>

definition reply_or_halt :: "PacketHeader \<Rightarrow> MailHeader \<Rightarrow> string \<Rightarrow> 'a server_scheme \<Rightarrow> (bool \<times> 'a server_scheme) result" where
  "reply_or_halt p m d s = bindE (halt_unless_sent (post_send p m d s)) (\<lambda>s1. Inr (True, s1))"

text \<open>
  The two ways to address a client: its user thread, from this thread's mailbox, or the mailbox
  numbered like the client, from the mailbox numbered like the machine.
\<close>

definition user_pkt :: "junk \<Rightarrow> int \<Rightarrow> 'a server_scheme \<Rightarrow> PacketHeader" where
  "user_pkt J clientNum s = (j_pkt J)\<lparr>pk_to := clientNum sdiv 100, pk_from := netAddr s\<rparr>"

definition user_mail :: "junk \<Rightarrow> int \<Rightarrow> 'a server_scheme \<Rightarrow> MailHeader" where
  "user_mail J clientNum s = (j_mail J)\<lparr>mb_to := (clientNum + 100) smod 100 + 1, mb_from := thisMail s\<rparr>"

definition client_pkt :: "PacketHeader \<Rightarrow> int \<Rightarrow> PacketHeader" where
  "client_pkt p clientNum = p\<lparr>pk_to := clientNum sdiv 100\<rparr>"

definition client_mail :: "MailHeader \<Rightarrow> int \<Rightarrow> 'a server_scheme \<Rightarrow> MailHeader" where
  "client_mail m clientNum s = m\<lparr>mb_to := (clientNum + 100) smod 100, mb_from := netAddr s\<rparr>"

text \<open>The error headers, and \<open>return false\<close>.\<close>

definition set_errors :: "PacketHeader \<Rightarrow> PacketHeader \<Rightarrow> MailHeader \<Rightarrow> MailHeader \<Rightarrow> 'a server_scheme \<Rightarrow> 'a server_scheme" where
  "set_errors outP inP outM inM s =
     s\<lparr>errorOutPktHdr := outP, errorInPktHdr := inP, errorOutMailHdr := outM, errorInMailHdr := inM\<rparr>"

definition refuse :: "PacketHeader \<Rightarrow> PacketHeader \<Rightarrow> MailHeader \<Rightarrow> MailHeader \<Rightarrow> int \<Rightarrow> 'a server_scheme \<Rightarrow> (bool \<times> 'a server_scheme) result" where
  "refuse outP inP outM inM clientNum s =
     Inr (False, set_errors (outP\<lparr>pk_to := clientNum sdiv 100\<rparr>) inP
            (outM\<lparr>mb_to := (clientNum + 100) smod 100\<rparr>) inM s)"

text \<open>\<open>char ack[sz]; itoa(ack, sz, v)\<close>, read back as a string.\<close>

definition itoa_string :: "nat \<Rightarrow> int \<Rightarrow> string result" where
  "itoa_string sz v = bindE (itoa sz v) c_string"

definition SendReply :: "PacketHeader \<Rightarrow> PacketHeader \<Rightarrow> MailHeader \<Rightarrow> MailHeader \<Rightarrow> string \<Rightarrow> 'a server_scheme \<Rightarrow> (bool \<times> 'a server_scheme) result" where
  "SendReply outP inP outM inM d s =
     reply_or_halt (outP\<lparr>pk_to := pk_from inP\<rparr>) (outM\<lparr>mb_to := mb_from inM, mb_from := netAddr s\<rparr>) d s"

definition sendError :: "'a server_scheme \<Rightarrow> 'a server_scheme result" where
  "sendError s =
     bindE (itoa_string 4 (-6)) (\<lambda>d.
     let outP = (errorOutPktHdr s)\<lparr>pk_to := pk_from (errorInPktHdr s)\<rparr>;
         outM = (errorOutMailHdr s)\<lparr>mb_to := mb_from (errorInMailHdr s), mb_from := netAddr s, mb_length := length d + 1\<rparr>;
         s1 = s\<lparr>errorOutPktHdr := outP, errorOutMailHdr := outM\<rparr>
     in halt_unless_sent (post_send outP outM d s1))"

text \<open>A request goes on to another server, with the client's number in front.\<close>

definition forward_text :: "RequestType \<Rightarrow> int \<Rightarrow> string \<Rightarrow> string" where
  "forward_text r clientNum args = dec (req r) @ ''__'' @ dec clientNum @ CHR ''_'' # args"

definition forward :: "RequestType \<Rightarrow> int \<Rightarrow> string \<Rightarrow> PacketHeader \<Rightarrow> MailHeader \<Rightarrow> 'a server_scheme \<Rightarrow> (bool \<times> 'a server_scheme) result" where
  "forward r clientNum args p m s = bindE (into_tmp (forward_text r clientNum args)) (\<lambda>b. post_send p m b s)"

section \<open>Locks\<close>

definition Acquire_srv :: "junk \<Rightarrow> int \<Rightarrow> PacketHeader \<Rightarrow> PacketHeader \<Rightarrow> MailHeader \<Rightarrow> MailHeader \<Rightarrow> int \<Rightarrow> 'a server_scheme \<Rightarrow> (bool \<times> 'a server_scheme) result" where
  "Acquire_srv J lockIndex outP inP outM inM client0 s =
     (let clientNum = (if client0 = -2 then 100 * pk_from inP + mb_from inM - 1 else client0) in
      if lockIndex < 0 \<or> lockIndex > MAX_NUM_GLOBAL_IDS * MAX_DLOCK - 1 then refuse outP inP outM inM clientNum s
      else if lockIndex sdiv MAX_DLOCK = uniqueGlobalID s then
        (let i = lockIndex smod MAX_DLOCK in
         bindE (aget (dlocks s) i) (\<lambda>slot. case slot of
           None \<Rightarrow> Inr (False, s)
         | Some l \<Rightarrow>
             bindE (itoa_string 5 (dl_gid l)) (\<lambda>ack.
             if \<not> dl_free l then
               Inr (True, put_lock i (QueueReply (Message_new (client_pkt outP clientNum)
                 ((client_mail outM clientNum s)\<lparr>mb_length := length ack + 1\<rparr>) ack) l) s)
             else
               reply_or_halt (outP\<lparr>pk_to := clientNum sdiv 100, pk_from := netAddr s\<rparr>)
                 (outM\<lparr>mb_to := (clientNum + 100) smod 100 + 1, mb_from := thisMail s\<rparr>) ack
                 (put_lock i (l\<lparr>dl_owner := (clientNum sdiv 100, (clientNum + 100) smod 100), dl_free := False\<rparr>) s))))
      else
        forward ACQUIRE clientNum (dec lockIndex)
          (outP\<lparr>pk_to := lockIndex sdiv MAX_DLOCK\<rparr>)
          (outM\<lparr>mb_to := lockIndex sdiv MAX_DLOCK, mb_from := mb_from inM\<rparr>) s)"

text \<open>
  Giving the lock to the first client of its queue: the reply that waits there is sent. The same
  code stands in \<open>Release\<close>, \<open>Wait\<close> and the handler of \<open>WAITRESPONSE\<close>.
\<close>

definition hand_over :: "int \<Rightarrow> dlock \<Rightarrow> 'a server_scheme \<Rightarrow> (bool \<times> 'a server_scheme) result" where
  "hand_over i l s =
     (case dl_queue l of
        [] \<Rightarrow> Inr (True, put_lock i l s)
      | r # rest \<Rightarrow>
          bindE (halt_unless_sent (Send_now (ms_pkt r) (ms_mail r) (ms_data r) True
            (put_lock i (l\<lparr>dl_queue := rest, dl_owner := (pk_to (ms_pkt r), mb_to (ms_mail r)), dl_free := False\<rparr>) s)))
          (\<lambda>s1. Inr (True, s1)))"

definition Release_srv :: "junk \<Rightarrow> int \<Rightarrow> PacketHeader \<Rightarrow> PacketHeader \<Rightarrow> MailHeader \<Rightarrow> MailHeader \<Rightarrow> int \<Rightarrow> 'a server_scheme \<Rightarrow> (bool \<times> 'a server_scheme) result" where
  "Release_srv J lockIndex outP inP outM inM clientNum s =
     (if lockIndex < 0 \<or> lockIndex > MAX_NUM_GLOBAL_IDS * MAX_DLOCK - 1 then refuse outP inP outM inM clientNum s
      else if lockIndex sdiv MAX_DLOCK = uniqueGlobalID s then
        (let i = lockIndex smod MAX_DLOCK in
         bindE (aget (dlocks s) i) (\<lambda>slot. case slot of
           None \<Rightarrow> refuse outP inP outM inM clientNum s
         | Some l \<Rightarrow>
             bindE (itoa_string 5 (dl_gid l)) (\<lambda>ack.
             let l1 = l\<lparr>dl_owner := (-1, -1), dl_free := True\<rparr> in
             bindE (reply_or_halt (outP\<lparr>pk_to := clientNum sdiv 100, pk_from := netAddr s\<rparr>)
               (outM\<lparr>mb_to := (clientNum + 100) smod 100 + 1, mb_from := thisMail s\<rparr>) ack (put_lock i l1 s))
             (\<lambda>(_, s1). hand_over i l1 s1))))
      else Inr (False, s))"

definition DestroyLock_srv :: "junk \<Rightarrow> int \<Rightarrow> PacketHeader \<Rightarrow> PacketHeader \<Rightarrow> MailHeader \<Rightarrow> MailHeader \<Rightarrow> int \<Rightarrow> 'a server_scheme \<Rightarrow> (bool \<times> 'a server_scheme) result" where
  "DestroyLock_srv J lockIndex outP inP outM inM clientNum s =
     (if lockIndex < 0 \<or> lockIndex > MAX_NUM_GLOBAL_IDS * MAX_DLOCK - 1 then refuse outP inP outM inM clientNum s
      else if lockIndex sdiv MAX_DLOCK = uniqueGlobalID s then
        (let i = lockIndex smod MAX_DLOCK in
         bindE (aget (dlocks s) i) (\<lambda>slot. case slot of
           None \<Rightarrow> refuse outP inP outM inM clientNum s
         | Some l \<Rightarrow>
             bindE (itoa_string 5 (dl_gid l)) (\<lambda>ack.
             reply_or_halt (outP\<lparr>pk_to := clientNum sdiv 100, pk_from := netAddr s\<rparr>)
               (outM\<lparr>mb_to := (clientNum + 100) smod 100 + 1, mb_from := thisMail s\<rparr>) ack
               (s\<lparr>dlocks := (dlocks s)[nat i := None], createDLockIndex := createDLockIndex s - 1\<rparr>))))
      else Inr (False, s))"

section \<open>Monitor variables\<close>

definition SetMV_srv :: "junk \<Rightarrow> int \<Rightarrow> int \<Rightarrow> PacketHeader \<Rightarrow> PacketHeader \<Rightarrow> MailHeader \<Rightarrow> MailHeader \<Rightarrow> int \<Rightarrow> 'a server_scheme \<Rightarrow> (bool \<times> 'a server_scheme) result" where
  "SetMV_srv J mvIndex val outP inP outM inM clientNum s =
     (if mvIndex < 0 \<or> mvIndex > MAX_NUM_GLOBAL_IDS * MAX_DMV - 1 then refuse outP inP outM inM clientNum s
      else if mvIndex sdiv MAX_DMV = uniqueGlobalID s then
        (let i = mvIndex smod MAX_DMV in
         bindE (aget (mvs s) i) (\<lambda>slot. case slot of
           None \<Rightarrow> refuse outP inP outM inM clientNum s
         | Some v \<Rightarrow>
             (let ack = ''SetMV['' @ dec (mv_gid v) @ ''] = '' @ dec val in
              if length ack \<ge> 24 then Inl Undefined_behaviour
              else
                reply_or_halt (outP\<lparr>pk_to := clientNum sdiv 100\<rparr>)
                  (outM\<lparr>mb_to := (clientNum + 100) smod 100 + 1, mb_from := netAddr s\<rparr>) ack
                  (put_mv i (v\<lparr>mv_value := val\<rparr>) s))))
      else Inr (False, s))"

text \<open>
  In \<open>GetMV\<close> the header's length is first taken from an array that holds nothing yet; \<open>SendReply\<close>
  sets it again.
\<close>

definition GetMV_srv :: "junk \<Rightarrow> int \<Rightarrow> PacketHeader \<Rightarrow> PacketHeader \<Rightarrow> MailHeader \<Rightarrow> MailHeader \<Rightarrow> int \<Rightarrow> 'a server_scheme \<Rightarrow> (bool \<times> 'a server_scheme) result" where
  "GetMV_srv J mvIndex outP inP outM inM clientNum s =
     (if mvIndex < 0 \<or> mvIndex > MAX_NUM_GLOBAL_IDS * MAX_DMV - 1 then
        bindE (itoa_string 4 999) (\<lambda>ack. SendReply outP inP outM inM ack s)
      else if mvIndex sdiv MAX_DMV = uniqueGlobalID s then
        bindE (aget (mvs s) (mvIndex smod MAX_DMV)) (\<lambda>slot.
        bindE (itoa_string 4 (case slot of None \<Rightarrow> 999 | Some v \<Rightarrow> mv_value v)) (\<lambda>ack.
        SendReply (client_pkt outP clientNum) inP (client_mail outM clientNum s) inM ack s))
      else Inr (False, s))"

definition DestroyMV_srv :: "junk \<Rightarrow> int \<Rightarrow> PacketHeader \<Rightarrow> PacketHeader \<Rightarrow> MailHeader \<Rightarrow> MailHeader \<Rightarrow> int \<Rightarrow> 'a server_scheme \<Rightarrow> (bool \<times> 'a server_scheme) result" where
  "DestroyMV_srv J mvIndex outP inP outM inM clientNum s =
     (if mvIndex < 0 \<or> mvIndex > MAX_NUM_GLOBAL_IDS * MAX_DMV - 1 then refuse outP inP outM inM clientNum s
      else if mvIndex sdiv MAX_DMV = uniqueGlobalID s then
        (let i = mvIndex smod MAX_DMV in
         bindE (aget (mvs s) i) (\<lambda>slot. case slot of
           None \<Rightarrow> refuse outP inP outM inM clientNum s
         | Some v \<Rightarrow>
             bindE (itoa_string 5 (mv_gid v)) (\<lambda>ack.
             reply_or_halt (client_pkt outP clientNum) (client_mail outM clientNum s) ack
               (s\<lparr>mvs := (mvs s)[nat i := None], createDMVIndex := createDMVIndex s - 1\<rparr>))))
      else Inr (False, s))"

section \<open>Condition variables\<close>

text \<open>Asking the server of the lock or condition: \<open>"%d_%d_..."\<close> with the client's number.\<close>

definition ask_text :: "RequestType \<Rightarrow> int \<Rightarrow> int list \<Rightarrow> string" where
  "ask_text r clientNum args = dec (req r) @ CHR ''_'' # dec clientNum @ concat (map (\<lambda>x. CHR ''_'' # dec x) args)"

definition ask_server :: "RequestType \<Rightarrow> int \<Rightarrow> int list \<Rightarrow> int \<Rightarrow> PacketHeader \<Rightarrow> MailHeader \<Rightarrow> MailHeader \<Rightarrow> 'a server_scheme \<Rightarrow> (bool \<times> 'a server_scheme) result" where
  "ask_server r clientNum args dest outP outM inM s =
     bindE (into_tmp (ask_text r clientNum args)) (\<lambda>request.
     post_send (outP\<lparr>pk_to := dest\<rparr>) (outM\<lparr>mb_to := dest, mb_from := mb_from inM\<rparr>) request s)"

definition Wait_srv :: "junk \<Rightarrow> int \<Rightarrow> int \<Rightarrow> PacketHeader \<Rightarrow> PacketHeader \<Rightarrow> MailHeader \<Rightarrow> MailHeader \<Rightarrow> int \<Rightarrow> 'a server_scheme \<Rightarrow> (bool \<times> 'a server_scheme) result" where
  "Wait_srv J cvIndex lockIndex outP inP outM inM clientNum s =
     (let uid = uniqueGlobalID s in
      if lockIndex < 0 \<or> lockIndex > MAX_NUM_GLOBAL_IDS * (MAX_DLOCK - 1) then refuse outP inP outM inM clientNum s
      else if cvIndex < 0 \<or> cvIndex > MAX_NUM_GLOBAL_IDS * (MAX_DCV - 1) then refuse outP inP outM inM clientNum s
      else if lockIndex sdiv MAX_DLOCK = uid \<and> cvIndex sdiv MAX_DCV = uid then
        (let li = lockIndex smod MAX_DLOCK; ci = cvIndex smod MAX_DCV in
         bindE (aget (dlocks s) li) (\<lambda>slot. case slot of
           None \<Rightarrow> refuse outP inP outM inM clientNum s
         | Some l \<Rightarrow>
             if snd (dl_owner l) = -1 then refuse outP inP outM inM clientNum s
             else
               bindE (aget (cvs s) ci) (\<lambda>slot. case slot of
                 None \<Rightarrow> refuse outP inP outM inM clientNum s
               | Some c \<Rightarrow>
                   (let l1 = l\<lparr>dl_owner := (-1, -1), dl_free := True\<rparr>;
                        c1 = (if cv_queue c = [] then c\<lparr>cv_firstLock := li + uid * MAX_DLOCK\<rparr> else c)
                    in bindE (hand_over li l1 (put_cv ci c1 s)) (\<lambda>(_, s1).
                       bindE (itoa_string 5 (ci + uid * MAX_DCV)) (\<lambda>ack.
                       Inr (True, put_cv ci (CV_QueueReply (Message_new (client_pkt outP clientNum)
                         ((client_mail outM clientNum s1)\<lparr>mb_length := length ack + 1\<rparr>) ack) c1) s1)))))))
      else if lockIndex sdiv MAX_DLOCK = uid \<and> cvIndex sdiv MAX_DCV \<noteq> uid then
        (let li = lockIndex smod MAX_DLOCK; ci = cvIndex smod MAX_DCV in
         bindE (aget (dlocks s) li) (\<lambda>slot. case slot of
           None \<Rightarrow> refuse outP inP outM inM clientNum s
         | Some l \<Rightarrow>
             if snd (dl_owner l) = -1 then refuse outP inP outM inM clientNum s
             else
               bindE (client_ok clientNum) (\<lambda>_.
               ask_server WAITCV clientNum [ci + uid * MAX_DLOCK, li + uid * MAX_DLOCK] (ci sdiv MAX_DCV) outP outM inM
                 (s\<lparr>waitingForWaitLocks := (waitingForWaitLocks s)(clientNum := li)\<rparr>))))
      else Inr (j_success J, s))"

text \<open>
  A waiter taken off the queue of a condition acquires the lock again: its reply's addressee becomes
  the sender of an \<open>ACQUIRE\<close>. \<open>gl\<close> is the global id of the lock.
\<close>

definition reacquire :: "junk \<Rightarrow> int \<Rightarrow> message \<Rightarrow> PacketHeader \<Rightarrow> MailHeader \<Rightarrow> 'a server_scheme \<Rightarrow> 'a server_scheme result" where
  "reacquire J gl r outP outM s =
     halt_unless_sent (Acquire_srv J gl outP ((ms_pkt r)\<lparr>pk_from := pk_to (ms_pkt r)\<rparr>)
       outM ((ms_mail r)\<lparr>mb_from := mb_to (ms_mail r)\<rparr>) (-2) s)"

fun wake_all :: "junk \<Rightarrow> int \<Rightarrow> int \<Rightarrow> PacketHeader \<Rightarrow> MailHeader \<Rightarrow> message list \<Rightarrow> dcv \<Rightarrow> 'a server_scheme \<Rightarrow> 'a server_scheme result" where
  "wake_all J gl ci outP outM [] c s = Inr (put_cv ci (c\<lparr>cv_queue := []\<rparr>) s)"
| "wake_all J gl ci outP outM (r # rest) c s =
     bindE (reacquire J gl r outP outM (put_cv ci (c\<lparr>cv_queue := rest\<rparr>) s)) (wake_all J gl ci outP outM rest c)"

definition forget_lock :: "int \<Rightarrow> dcv \<Rightarrow> 'a server_scheme \<Rightarrow> 'a server_scheme" where
  "forget_lock ci c s = (if cv_queue c = [] then put_cv ci (c\<lparr>cv_firstLock := -1\<rparr>) s else s)"

definition Signal_srv :: "junk \<Rightarrow> int \<Rightarrow> int \<Rightarrow> PacketHeader \<Rightarrow> PacketHeader \<Rightarrow> MailHeader \<Rightarrow> MailHeader \<Rightarrow> int \<Rightarrow> 'a server_scheme \<Rightarrow> (bool \<times> 'a server_scheme) result" where
  "Signal_srv J cvIndex lockIndex outP inP outM inM clientNum s =
     (let uid = uniqueGlobalID s in
      if lockIndex < 0 \<or> lockIndex > MAX_NUM_GLOBAL_IDS * MAX_DLOCK - 1 then refuse outP inP outM inM clientNum s
      else if cvIndex < 0 \<or> cvIndex > MAX_NUM_GLOBAL_IDS * MAX_DCV - 1 then refuse outP inP outM inM clientNum s
      else if lockIndex sdiv MAX_DLOCK = uid \<and> cvIndex sdiv MAX_DCV = uid then
        (let li = lockIndex smod MAX_DLOCK; ci = cvIndex smod MAX_DCV in
         bindE (aget (dlocks s) li) (\<lambda>slot. case slot of
           None \<Rightarrow> refuse outP inP outM inM clientNum s
         | Some l \<Rightarrow>
             if snd (dl_owner l) = -1 then refuse outP inP outM inM clientNum s
             else
               bindE (aget (cvs s) ci) (\<lambda>slot. case slot of
                 None \<Rightarrow> refuse outP inP outM inM clientNum s
               | Some c \<Rightarrow>
                   bindE (itoa_string 5 ci) (\<lambda>ack.
                   let p = client_pkt outP clientNum;
                       m = (client_mail outM clientNum s)\<lparr>mb_length := length ack + 1\<rparr>
                   in bindE (reply_or_halt p m ack s) (\<lambda>(_, s1).
                     case cv_queue c of
                       [] \<Rightarrow> Inr (True, forget_lock ci c s1)
                     | r # rest \<Rightarrow>
                         if cv_firstLock c \<noteq> li + uid * MAX_DLOCK then refuse p inP m inM clientNum s1
                         else
                           (let c1 = c\<lparr>cv_queue := rest\<rparr> in
                            bindE (reacquire J (li + uid * MAX_DLOCK) r p m (put_cv ci c1 s1)) (\<lambda>s2.
                            Inr (True, forget_lock ci c1 s2))))))))
      else if lockIndex sdiv MAX_DLOCK \<noteq> uid \<and> cvIndex sdiv MAX_DCV = uid then
        bindE (client_ok clientNum) (\<lambda>_.
        ask_server SIGNALLOCK clientNum [lockIndex + uid * MAX_DLOCK] (lockIndex sdiv MAX_DLOCK) outP outM inM
          (s\<lparr>waitingForSignalCvs := (waitingForSignalCvs s)(clientNum := cvIndex)\<rparr>))
      else Inr (False, s))"

definition Broadcast_srv :: "junk \<Rightarrow> int \<Rightarrow> int \<Rightarrow> PacketHeader \<Rightarrow> PacketHeader \<Rightarrow> MailHeader \<Rightarrow> MailHeader \<Rightarrow> int \<Rightarrow> 'a server_scheme \<Rightarrow> (bool \<times> 'a server_scheme) result" where
  "Broadcast_srv J cvIndex lockIndex outP inP outM inM clientNum s =
     (let uid = uniqueGlobalID s in
      if lockIndex < 0 \<or> lockIndex > MAX_DLOCK - 1 then refuse outP inP outM inM clientNum s
      else if cvIndex < 0 \<or> cvIndex > MAX_DCV - 1 then refuse outP inP outM inM clientNum s
      else if lockIndex sdiv MAX_DLOCK = uid \<and> cvIndex sdiv MAX_DCV = uid then
        (let li = lockIndex smod MAX_DLOCK; ci = cvIndex smod MAX_DCV in
         bindE (aget (dlocks s) li) (\<lambda>slot. case slot of
           None \<Rightarrow> refuse outP inP outM inM clientNum s
         | Some l \<Rightarrow>
             if snd (dl_owner l) = -1 then refuse outP inP outM inM clientNum s
             else
               bindE (aget (cvs s) ci) (\<lambda>slot. case slot of
                 None \<Rightarrow> refuse outP inP outM inM clientNum s
               | Some c \<Rightarrow>
                   bindE (itoa_string 5 ci) (\<lambda>ack.
                   let p = outP\<lparr>pk_to := pk_from inP\<rparr>;
                       m = outM\<lparr>mb_to := mb_from inM, mb_from := netAddr s, mb_length := length ack + 1\<rparr>
                   in bindE (reply_or_halt p m ack s) (\<lambda>(_, s1).
                     if cv_queue c \<noteq> [] \<and> cv_firstLock c \<noteq> li + uid * MAX_DLOCK
                     then Inr (False, set_errors p inP m inM s1)
                     else
                       bindE (wake_all J (li + uid * MAX_DLOCK) ci p m (cv_queue c) c s1) (\<lambda>s2.
                       Inr (True, forget_lock ci (c\<lparr>cv_queue := []\<rparr>) s2)))))))
      else
        bindE (client_ok clientNum) (\<lambda>_.
        ask_server BROADCASTLOCK clientNum [lockIndex + uid * MAX_DLOCK] (lockIndex sdiv MAX_DLOCK) outP outM inM
          (s\<lparr>waitingForBroadcastCvs := (waitingForBroadcastCvs s)(clientNum := cvIndex)\<rparr>)))"

end
