(* ===== verification/NetCreate.thy ===== *)
theory NetCreate
  imports NetServer
begin

text \<open>
  \<open>processMessage\<close> of \<open>network/netcall.cc\<close>, first part: taking a request apart, and the requests that
  create locks, condition variables and monitor variables, in a group of servers that ask each
  other (\<open>VERIFY\<close>, \<open>ANSWER\<close>) whether one of them has the name already.

  A handler gets the headers of the message and its text after the request number. It ends by
  \<open>break\<close>, with the values that \<open>success\<close>, \<open>outPktHdr\<close> and \<open>outMailHdr\<close> then have, or by
  \<open>return false\<close>.
\<close>

section \<open>Taking a request apart\<close>

datatype 's handled =
    Break bool PacketHeader MailHeader 's
  | Return_false 's

text \<open>Characters up to the next underscore, which the code assumes to be there, into an array.\<close>

definition next_field :: "nat \<Rightarrow> string \<Rightarrow> (string \<times> string) result" where
  "next_field sz rest =
     (let tok = takeWhile (\<lambda>c. c \<noteq> CHR ''_'') rest in
      if CHR ''_'' \<notin> set rest \<or> length tok \<ge> sz then Inl Undefined_behaviour
      else Inr (tok, drop (length tok + 1) rest))"

text \<open>
  All characters up to the NUL. The loop does not run, and leaves the array unset, when the character
  read before it is the NUL already.
\<close>

definition last_field :: "bool \<Rightarrow> string \<Rightarrow> string result" where
  "last_field after_underscore rest =
     (if rest = [] \<and> \<not> after_underscore \<or> length rest \<ge> MaxMailSize then Inl Undefined_behaviour else Inr rest)"

text \<open>
  \<open>"_<client>_"\<close> in front of the arguments names the client of a request that was forwarded; without
  it, \<open>dflt\<close> is the client. The second component tells whether it was there.
\<close>

definition client_prefix :: "int \<Rightarrow> string \<Rightarrow> (int \<times> bool \<times> string) result" where
  "client_prefix dflt rest =
     (if rest \<noteq> [] \<and> hd rest = CHR ''_'' then
        bindE (next_field 5 (tl rest)) (\<lambda>(client, rest1).
        bindE (atoi_int client) (\<lambda>clientNum. Inr (clientNum, True, rest1)))
      else Inr (dflt, False, rest))"

text \<open>The client that a request comes from directly.\<close>

definition sender_client :: "PacketHeader \<Rightarrow> MailHeader \<Rightarrow> int" where
  "sender_client inP inM = 100 * pk_from inP + mb_from inM - 1"

text \<open>The name to create, copied into \<open>lockName[clientNum]\<close>.\<close>

definition store_name :: "int \<Rightarrow> string \<Rightarrow> 'a server_scheme \<Rightarrow> 'a server_scheme result" where
  "store_name c nm s =
     bindE (client_ok c) (\<lambda>_.
     if length nm \<ge> 32 then Inl Undefined_behaviour else Inr (s\<lparr>lockName := (lockName s)(c := nm)\<rparr>))"

text \<open>The copy loop from \<open>lockName\<close> to a new array writes no NUL when the name is empty.\<close>

definition stored_name :: "int \<Rightarrow> 'a server_scheme \<Rightarrow> string result" where
  "stored_name c s = (if lockName s c = [] then Inl Undefined_behaviour else Inr (lockName s c))"

text \<open>
  The search for a name among the first objects of a table, whose pointers are followed: up to the
  first match with \<open>break\<close>, else to the last.
\<close>

fun search :: "bool \<Rightarrow> string \<Rightarrow> string option list \<Rightarrow> int \<Rightarrow> int \<Rightarrow> int result" where
  "search brk nm [] k found = Inr found"
| "search brk nm (None # xs) k found = Inl Undefined_behaviour"
| "search brk nm (Some x # xs) k found =
     (if x = nm then (if brk then Inr k else search brk nm xs (k + 1) k) else search brk nm xs (k + 1) found)"

definition search_table :: "bool \<Rightarrow> string \<Rightarrow> ('b \<Rightarrow> string) \<Rightarrow> 'b option list \<Rightarrow> int \<Rightarrow> int result" where
  "search_table brk nm name tbl n =
     (if n > int (length tbl) then Inl Undefined_behaviour
      else search brk nm (map (map_option name) (take (nat n) tbl)) 0 (-1))"

section \<open>\<open>CreateVerify\<close>\<close>

fun verify_loop :: "nat \<Rightarrow> string \<Rightarrow> NetThreadInfoEntry list \<Rightarrow> 'a server_scheme \<Rightarrow> 'a server_scheme result" where
  "verify_loop 0 request info s = Inr s"
| "verify_loop (Suc n) request [] s = Inl Uncaught_exception"
| "verify_loop (Suc n) request (e # es) s =
     (if nt_machine e \<noteq> netAddr s \<or> nt_mail e \<noteq> thisMail s then
        bindE (halt_unless_sent (post_send \<lparr>pk_to = nt_machine e, pk_from = netAddr s, pk_length = 0\<rparr>
          \<lparr>mb_to = nt_mail e, mb_from = thisMail s, mb_length = 0\<rparr> request s))
        (verify_loop n request es)
      else verify_loop n request es s)"

definition CreateVerify :: "string \<Rightarrow> RequestType \<Rightarrow> int \<Rightarrow> 'a server_scheme \<Rightarrow> 'a server_scheme result" where
  "CreateVerify d r client s =
     bindE (into_tmp (dec (req r) @ CHR ''_'' # dec client @ CHR ''_'' # d)) (\<lambda>request.
     bindE (verify_loop (nat (serverCount s)) request (localNetThreadInfo s) s) (\<lambda>s1.
     bindE (client_ok client) (\<lambda>_.
     Inr (s1\<lparr>verifyResponses := (verifyResponses s1)(client := 0)\<rparr>))))"

section \<open>The buffer of answers\<close>

text \<open>
  \<open>verifyBuffer[c][r]\<close> begins at \<open>20 c + 5 r\<close>. Reading and writing go on into the next rows, as the
  layout has it; only the end of the whole array is a bound.
\<close>

abbreviation (input) verify_size :: int where "verify_size \<equiv> 20000"

definition row :: "int \<Rightarrow> int \<Rightarrow> int" where
  "row c r = 20 * c + 5 * r"

fun write_mem :: "string \<Rightarrow> int \<Rightarrow> (nat \<Rightarrow> char) \<Rightarrow> (nat \<Rightarrow> char) result" where
  "write_mem [] pos vb = Inr vb"
| "write_mem (c # cs) pos vb =
     (if 0 \<le> pos \<and> pos < verify_size then write_mem cs (pos + 1) (vb(nat pos := c)) else Inl Undefined_behaviour)"

text \<open>A token of at most \<open>n\<close> characters that ends with a NUL or, for \<open>parseValue\<close>, an underscore.\<close>

fun read_mem :: "nat \<Rightarrow> bool \<Rightarrow> int \<Rightarrow> (nat \<Rightarrow> char) \<Rightarrow> string result" where
  "read_mem 0 us pos vb = Inl Undefined_behaviour"
| "read_mem (Suc n) us pos vb =
     (if 0 \<le> pos \<and> pos < verify_size then
        (if vb (nat pos) = NUL \<or> us \<and> vb (nat pos) = CHR ''_'' then Inr []
         else bindE (read_mem n us (pos + 1) vb) (\<lambda>t. Inr (vb (nat pos) # t)))
      else Inl Undefined_behaviour)"

text \<open>\<open>parseValue\<close> on the buffer, whose token has an array of \<open>MaxMailSize\<close> characters.\<close>

definition parse_mem :: "int \<Rightarrow> (nat \<Rightarrow> char) \<Rightarrow> (int \<times> int) result" where
  "parse_mem pos vb =
     bindE (read_mem MaxMailSize True pos vb) (\<lambda>tok.
     bindE (atoi_int tok) (\<lambda>v. Inr (v, pos + int (length tok) + 1)))"

text \<open>Storing an answer, with its NUL, behind the offset \<open>a\<close> in a row.\<close>

definition store_answer :: "int \<Rightarrow> int \<Rightarrow> int \<Rightarrow> string \<Rightarrow> 'a server_scheme \<Rightarrow> 'a server_scheme result" where
  "store_answer c r a text s =
     bindE (write_mem (text @ [NUL]) (row c r + a) (verifyBuffer s)) (\<lambda>vb. Inr (s\<lparr>verifyBuffer := vb\<rparr>))"

abbreviation (input) NO :: int where "NO \<equiv> 0"
abbreviation (input) MAYBE :: int where "MAYBE \<equiv> 1"
abbreviation (input) YES :: int where "YES \<equiv> 2"

section \<open>\<open>CREATELOCK\<close>\<close>

text \<open>A new object in the next slot, and its global id. (\<open>new\<close> never gives NULL.)\<close>

definition create_lock :: "string \<Rightarrow> int \<Rightarrow> 'a server_scheme \<Rightarrow> 'a server_scheme result" where
  "create_lock nm gid s =
     bindE (aset (dlocks s) (createDLockIndex s) (Some ((DistributedLock_new nm)\<lparr>dl_gid := gid\<rparr>))) (\<lambda>tbl.
     Inr (s\<lparr>dlocks := tbl\<rparr>))"

definition create_cv :: "string \<Rightarrow> int \<Rightarrow> 'a server_scheme \<Rightarrow> 'a server_scheme result" where
  "create_cv nm gid s =
     bindE (aset (cvs s) (createDCVIndex s) (Some ((DistributedCV_new nm)\<lparr>cv_gid := gid\<rparr>))) (\<lambda>tbl.
     Inr (s\<lparr>cvs := tbl\<rparr>))"

definition create_mv :: "junk \<Rightarrow> string \<Rightarrow> int \<Rightarrow> 'a server_scheme \<Rightarrow> 'a server_scheme result" where
  "create_mv J nm gid s =
     bindE (aset (mvs s) (createDMVIndex s) (Some ((DistributedMV_new (j_value J) nm)\<lparr>mv_gid := gid\<rparr>))) (\<lambda>tbl.
     Inr (s\<lparr>mvs := tbl\<rparr>))"

text \<open>The reply with an object's id, and the reset of the client's entries.\<close>

definition answer_client :: "PacketHeader \<Rightarrow> MailHeader \<Rightarrow> int \<Rightarrow> int \<Rightarrow> 'a server_scheme \<Rightarrow> 'a server_scheme handled result" where
  "answer_client p m clientNum gid s =
     (let ack = dec gid; m1 = m\<lparr>mb_length := length ack + 1\<rparr> in
      bindE (reply_or_halt p m1 ack s) (\<lambda>(_, s1).
      Inr (Break True p m1 (s1\<lparr>verifyResponses := (verifyResponses s1)(clientNum := 0),
                               localLockIndex := (localLockIndex s1)(clientNum := -1)\<rparr>))))"

definition handle_CREATELOCK :: "junk \<Rightarrow> PacketHeader \<Rightarrow> MailHeader \<Rightarrow> string \<Rightarrow> 'a server_scheme \<Rightarrow> 'a server_scheme handled result" where
  "handle_CREATELOCK J inP inM rest s =
     (let clientNum = sender_client inP inM in
      if 0 \<le> createDLockIndex s \<and> createDLockIndex s < MAX_DLOCK - 1 then
        bindE (store_name clientNum rest s) (\<lambda>s1.
        bindE (search_table False rest dl_name (dlocks s1) (createDLockIndex s1)) (\<lambda>lockIndex.
        let s2 = s1\<lparr>localLockIndex := (localLockIndex s1)(clientNum := lockIndex)\<rparr>;
            reply = (\<lambda>gid s. answer_client (user_pkt J clientNum s) (user_mail J clientNum s) clientNum gid s)
        in
        if lockIndex \<noteq> -1 then bindE (aderef (dlocks s2) lockIndex) (\<lambda>l. reply (dl_gid l) s2)
        else if serverCount s2 > 1 then
          (let (now, s3) = gettimeofday s2;
               s4 = s3\<lparr>lockCreationTimeStamps := (lockCreationTimeStamps s3)(clientNum := now),
                       verifyResponses := (verifyResponses s3)(clientNum := 0),
                       lockCreationStates := (lockCreationStates s3)(clientNum := MAYBE)\<rparr>
           in bindE (CreateVerify rest CREATELOCKVERIFY clientNum s4) (\<lambda>s5.
              Inr (Break False (j_pkt J) (j_mail J) s5)))
        else
          bindE (stored_name clientNum s2) (\<lambda>nm.
          let gid = uniqueGlobalID s2 * MAX_DLOCK + createDLockIndex s2 in
          bindE (create_lock nm gid s2) (\<lambda>s3.
          reply gid (s3\<lparr>createDLockIndex := createDLockIndex s3 + 1\<rparr>)))))
      else Inr (Return_false (set_errors (j_pkt J) inP (j_mail J) inM s)))"

text \<open>
  An answer of another server: the client, then \<open>YES\<close> with the id of the lock, or \<open>NO\<close> or \<open>MAYBE\<close>
  with the time at which the other server began. The answer is stored in a row that is numbered by
  the answers to this thread's own client, and read from the one of the client it names.
\<close>

definition user_thread_pkt :: "junk \<Rightarrow> 'a server_scheme \<Rightarrow> PacketHeader" where
  "user_thread_pkt J s = (j_pkt J)\<lparr>pk_to := netAddr s, pk_from := netAddr s\<rparr>"

definition user_thread_mail :: "junk \<Rightarrow> 'a server_scheme \<Rightarrow> MailHeader" where
  "user_thread_mail J s = (j_mail J)\<lparr>mb_to := thisMail s + 1, mb_from := thisMail s\<rparr>"

definition lock_answer_yes :: "junk \<Rightarrow> int \<Rightarrow> int \<Rightarrow> 'a server_scheme \<Rightarrow> 'a server_scheme handled result" where
  "lock_answer_yes J clientNum index s =
     bindE (parse_mem index (verifyBuffer s)) (\<lambda>(lockIndex, _).
     bindE (stored_name clientNum s) (\<lambda>nm.
     bindE (create_lock nm lockIndex (s\<lparr>lockCreationStates := (lockCreationStates s)(clientNum := YES)\<rparr>)) (\<lambda>s1.
     let ack = dec lockIndex; p = user_thread_pkt J s1; m = (user_thread_mail J s1)\<lparr>mb_length := length ack + 1\<rparr> in
     bindE (reply_or_halt p m ack s1) (\<lambda>(_, s2).
     Inr (Break True p m (s2\<lparr>verifyResponses := (verifyResponses s2)(clientNum := verifyResponses s2 clientNum + 1)\<rparr>))))))"

definition lock_answer_no :: "junk \<Rightarrow> int \<Rightarrow> int \<Rightarrow> 'a server_scheme \<Rightarrow> 'a server_scheme handled result" where
  "lock_answer_no J clientNum index s =
     bindE (parse_mem index (verifyBuffer s)) (\<lambda>(sec, index1).
     bindE (parse_mem index1 (verifyBuffer s)) (\<lambda>(usec, _).
     if lockCreationTimeStamps s clientNum < Timeval sec usec then
       (let s1 = s\<lparr>verifyResponses := (verifyResponses s)(clientNum := verifyResponses s clientNum + 1)\<rparr> in
        if verifyResponses s1 clientNum = serverCount s1 - 1 then
          bindE (stored_name clientNum s1) (\<lambda>nm.
          let gid = uniqueGlobalID s1 * MAX_DLOCK + createDLockIndex s1 in
          bindE (create_lock nm gid (s1\<lparr>lockCreationStates := (lockCreationStates s1)(clientNum := YES)\<rparr>)) (\<lambda>s2.
          bindE (into_tmp (dec YES @ CHR ''_'' # dec gid @ ''_'')) (\<lambda>tmp.
          bindE (CreateVerify tmp CREATELOCKANSWER clientNum (s2\<lparr>createDLockIndex := createDLockIndex s2 + 1\<rparr>)) (\<lambda>s3.
          let ack = dec gid; p = user_thread_pkt J s3; m = (user_thread_mail J s3)\<lparr>mb_length := length ack + 1\<rparr> in
          bindE (reply_or_halt p m ack s3) (\<lambda>(_, s4).
          Inr (Break True p m (s4\<lparr>localLockIndex := (localLockIndex s4)(clientNum := -1)\<rparr>)))))))
        else Inr (Break False (j_pkt J) (j_mail J) s1))
     else Inr (Break False (j_pkt J) (j_mail J) s)))"

definition handle_CREATELOCKANSWER :: "junk \<Rightarrow> PacketHeader \<Rightarrow> MailHeader \<Rightarrow> string \<Rightarrow> 'a server_scheme \<Rightarrow> 'a server_scheme handled result" where
  "handle_CREATELOCKANSWER J inP inM rest s =
     bindE (next_field 5 rest) (\<lambda>(client, text).
     bindE (atoi_int client) (\<lambda>clientNum.
     bindE (client_ok (uniqueGlobalID s)) (\<lambda>_.
     bindE (store_answer clientNum (verifyResponses s (uniqueGlobalID s)) 0 text s) (\<lambda>s1.
     bindE (client_ok clientNum) (\<lambda>_.
     if localLockIndex s1 clientNum = -1 then
       bindE (parse_mem (row clientNum (verifyResponses s1 clientNum)) (verifyBuffer s1)) (\<lambda>(verifyResponse, index).
       if verifyResponse = YES then lock_answer_yes J clientNum index s1
       else if verifyResponse = NO \<or> verifyResponse = MAYBE then lock_answer_no J clientNum index s1
       else Inr (Break False (j_pkt J) (j_mail J) s1))
     else Inr (Break False (j_pkt J) (j_mail J) s1))))))"

text \<open>
  The question of another server. The result of \<open>Send\<close> is not tested; it becomes \<open>success\<close>. When the
  client is creating a lock here, the times sent are those of this thread's own client.
\<close>

definition answer_server :: "junk \<Rightarrow> PacketHeader \<Rightarrow> MailHeader \<Rightarrow> string \<Rightarrow> 'a server_scheme \<Rightarrow> 'a server_scheme handled result" where
  "answer_server J p m request s =
     bindE (into_tmp request) (\<lambda>r.
     let m1 = m\<lparr>mb_length := length r + 1\<rparr> in
     bindE (post_send p m1 r s) (\<lambda>(ok, s1). Inr (Break ok p m1 s1)))"

definition handle_CREATELOCKVERIFY :: "junk \<Rightarrow> PacketHeader \<Rightarrow> MailHeader \<Rightarrow> string \<Rightarrow> 'a server_scheme \<Rightarrow> 'a server_scheme handled result" where
  "handle_CREATELOCKVERIFY J inP inM rest s =
     bindE (next_field 5 rest) (\<lambda>(client, nm).
     bindE (atoi_int client) (\<lambda>clientNum.
     if length nm \<ge> 32 then Inl Undefined_behaviour
     else
       bindE (search_table True nm dl_name (dlocks s) (createDLockIndex s)) (\<lambda>lockIndex.
       bindE (client_ok clientNum) (\<lambda>_.
       let p = (j_pkt J)\<lparr>pk_to := pk_from inP, pk_from := netAddr s\<rparr>;
           m = (j_mail J)\<lparr>mb_to := mb_from inM, mb_from := thisMail s\<rparr>
       in
       if lockCreationStates s clientNum = MAYBE then
         bindE (client_ok (uniqueGlobalID s)) (\<lambda>_.
         let t = lockCreationTimeStamps s (uniqueGlobalID s) in
         answer_server J p m (ask_text CREATELOCKANSWER clientNum [MAYBE, tv_sec t, tv_usec t]) s)
       else if lockIndex = -1 then answer_server J p m (ask_text CREATELOCKANSWER clientNum [NO]) s
       else
         bindE (aderef (dlocks s) lockIndex) (\<lambda>l.
         answer_server J p m (ask_text CREATELOCKANSWER clientNum [YES, dl_gid l]) s)))))"

section \<open>\<open>CREATECV\<close>\<close>

definition handle_CREATECV :: "junk \<Rightarrow> PacketHeader \<Rightarrow> MailHeader \<Rightarrow> string \<Rightarrow> 'a server_scheme \<Rightarrow> 'a server_scheme handled result" where
  "handle_CREATECV J inP inM rest s =
     (let clientNum = sender_client inP inM in
      if 0 \<le> createDCVIndex s \<and> createDCVIndex s < MAX_DCV - 1 then
        bindE (store_name clientNum rest s) (\<lambda>s1.
        bindE (search_table False rest cv_name (cvs s1) (createDCVIndex s1)) (\<lambda>cvIndex.
        let s2 = s1\<lparr>localLockIndex := (localLockIndex s1)(clientNum := cvIndex)\<rparr>;
            reply = (\<lambda>gid s. answer_client (client_pkt (j_pkt J) clientNum) (client_mail (j_mail J) clientNum s) clientNum gid s)
        in
        if cvIndex \<noteq> -1 then bindE (aderef (cvs s2) cvIndex) (\<lambda>c. reply (cv_gid c) s2)
        else if serverCount s2 > 1 then
          (let (now, s3) = gettimeofday s2;
               s4 = s3\<lparr>cvCreationTimeStamps := (cvCreationTimeStamps s3)(clientNum := now),
                       cvCreationStates := (cvCreationStates s3)(clientNum := MAYBE)\<rparr>
           in bindE (CreateVerify rest CREATECVVERIFY clientNum s4) (\<lambda>s5.
              Inr (Break False (j_pkt J) (j_mail J) s5)))
        else
          bindE (stored_name clientNum s2) (\<lambda>nm.
          let gid = uniqueGlobalID s2 * MAX_DCV + createDCVIndex s2 in
          bindE (create_cv nm gid s2) (\<lambda>s3.
          reply gid (s3\<lparr>createDCVIndex := createDCVIndex s3 + 1\<rparr>)))))
      else Inr (Return_false (set_errors (j_pkt J) inP (j_mail J) inM s)))"

text \<open>
  Answers about conditions and variables hold an id or -1. When all servers have answered, the first
  answer that does not begin with \<open>-1\<close> is taken.
\<close>

fun first_answer :: "nat \<Rightarrow> int \<Rightarrow> int \<Rightarrow> (nat \<Rightarrow> char) \<Rightarrow> int result" where
  "first_answer 0 c i vb = Inr (-1)"
| "first_answer (Suc n) c i vb =
     (if 0 \<le> row c i \<and> row c i + 1 < verify_size then
        (if vb (nat (row c i)) = CHR ''-'' \<and> vb (nat (row c i + 1)) = CHR ''1'' then first_answer n c (i + 1) vb
         else bindE (read_mem (nat verify_size) False (row c i) vb) atoi_int)
      else Inl Undefined_behaviour)"

definition collect_answer :: "junk \<Rightarrow> string \<Rightarrow> 'a server_scheme \<Rightarrow> (int \<times> int option \<times> 'a server_scheme) result" where
  "collect_answer J rest s =
     bindE (next_field 5 rest) (\<lambda>(client, text).
     bindE (atoi_int client) (\<lambda>clientNum.
     bindE (client_ok clientNum) (\<lambda>_.
     bindE (store_answer clientNum (verifyResponses s clientNum) (j_a J) text s) (\<lambda>s1.
     let s2 = s1\<lparr>verifyResponses := (verifyResponses s1)(clientNum := verifyResponses s1 clientNum + 1)\<rparr> in
     if verifyResponses s2 clientNum = serverCount s2 - 1 then
       bindE (first_answer (nat (serverCount s2 - 1)) clientNum 0 (verifyBuffer s2)) (\<lambda>other.
       Inr (clientNum, Some other, s2))
     else Inr (clientNum, None, s2)))))"

definition handle_CREATECVANSWER :: "junk \<Rightarrow> PacketHeader \<Rightarrow> MailHeader \<Rightarrow> string \<Rightarrow> 'a server_scheme \<Rightarrow> 'a server_scheme handled result" where
  "handle_CREATECVANSWER J inP inM rest s =
     bindE (collect_answer J rest s) (\<lambda>(clientNum, answer, s1).
     case answer of
       None \<Rightarrow> Inr (Break False (j_pkt J) (j_mail J) s1)
     | Some other \<Rightarrow>
         bindE (if localLockIndex s1 clientNum = -1 \<and> other = -1 then
                  bindE (stored_name clientNum s1) (\<lambda>nm.
                  let gid = uniqueGlobalID s1 * MAX_DCV + createDCVIndex s1 in
                  bindE (create_cv nm gid s1) (\<lambda>s2. Inr (gid, s2\<lparr>createDCVIndex := createDCVIndex s2 + 1\<rparr>)))
                else if localLockIndex s1 clientNum = -1 then Inr (other, s1)
                else if other = -1 then
                  bindE (aderef (cvs s1) (localLockIndex s1 clientNum)) (\<lambda>c. Inr (cv_gid c, s1))
                else Inr (-1, s1))
           (\<lambda>(cvIndex, s2). answer_client (user_thread_pkt J s2) (user_thread_mail J s2) clientNum cvIndex s2))"

text \<open>
  In the questions about conditions and variables the index \<open>a\<close> is not set: unless it happens to be
  0, the name that is looked up begins with bytes that were never written.
\<close>

definition handle_CREATECVVERIFY :: "junk \<Rightarrow> PacketHeader \<Rightarrow> MailHeader \<Rightarrow> string \<Rightarrow> 'a server_scheme \<Rightarrow> 'a server_scheme handled result" where
  "handle_CREATECVVERIFY J inP inM rest s =
     bindE (next_field 5 rest) (\<lambda>(client, nm).
     bindE (atoi_int client) (\<lambda>clientNum.
     if j_a J \<noteq> 0 \<or> length nm \<ge> 32 then Inl Undefined_behaviour
     else
       bindE (search_table False nm cv_name (cvs s) (createDCVIndex s)) (\<lambda>cvIndex.
       let p = (j_pkt J)\<lparr>pk_to := pk_from inP\<rparr>;
           m = (j_mail J)\<lparr>mb_to := mb_from inM, mb_from := netAddr s\<rparr>
       in
       if cvIndex = -1 then answer_server J p m (ask_text CREATECVANSWER clientNum [-1]) s
       else
         bindE (aderef (cvs s) cvIndex) (\<lambda>c.
         answer_server J p m (ask_text CREATECVANSWER clientNum [cv_gid c]) s))))"

section \<open>\<open>CREATEMV\<close>\<close>

definition handle_CREATEMV :: "junk \<Rightarrow> PacketHeader \<Rightarrow> MailHeader \<Rightarrow> string \<Rightarrow> 'a server_scheme \<Rightarrow> 'a server_scheme handled result" where
  "handle_CREATEMV J inP inM rest s =
     (let clientNum = sender_client inP inM in
      if 0 \<le> createDMVIndex s \<and> createDMVIndex s < MAX_DMV - 1 then
        bindE (store_name clientNum rest s) (\<lambda>s1.
        bindE (search_table True rest mv_name (mvs s1) (createDMVIndex s1)) (\<lambda>mvIndex.
        let s2 = s1\<lparr>localLockIndex := (localLockIndex s1)(clientNum := mvIndex)\<rparr>;
            reply = (\<lambda>gid s. answer_client (user_thread_pkt J s) (user_thread_mail J s) clientNum gid s)
        in
        if mvIndex \<noteq> -1 then bindE (aderef (mvs s2) mvIndex) (\<lambda>v. reply (mv_gid v) s2)
        else if serverCount s2 > 1 then
          (let (now, s3) = gettimeofday s2;
               s4 = s3\<lparr>mvCreationTimeStamps := (mvCreationTimeStamps s3)(clientNum := now),
                       mvCreationStates := (mvCreationStates s3)(clientNum := MAYBE)\<rparr>
           in bindE (CreateVerify rest CREATEMVVERIFY clientNum s4) (\<lambda>s5.
              Inr (Break False (j_pkt J) (j_mail J) s5)))
        else
          bindE (stored_name clientNum s2) (\<lambda>nm.
          let gid = uniqueGlobalID s2 * MAX_DMV + createDMVIndex s2 in
          bindE (create_mv J nm gid s2) (\<lambda>s3.
          reply gid (s3\<lparr>createDMVIndex := createDMVIndex s3 + 1\<rparr>)))))
      else Inr (Return_false (set_errors (j_pkt J) inP (j_mail J) inM s)))"

definition handle_CREATEMVANSWER :: "junk \<Rightarrow> PacketHeader \<Rightarrow> MailHeader \<Rightarrow> string \<Rightarrow> 'a server_scheme \<Rightarrow> 'a server_scheme handled result" where
  "handle_CREATEMVANSWER J inP inM rest s =
     bindE (collect_answer J rest s) (\<lambda>(clientNum, answer, s1).
     case answer of
       None \<Rightarrow> Inr (Break False (j_pkt J) (j_mail J) s1)
     | Some other \<Rightarrow>
         bindE (if localLockIndex s1 clientNum = -1 \<and> other = -1 then
                  bindE (stored_name clientNum s1) (\<lambda>nm.
                  let gid = uniqueGlobalID s1 * MAX_DMV + createDMVIndex s1 in
                  bindE (create_mv J nm gid s1) (\<lambda>s2. Inr (gid, s2\<lparr>createDMVIndex := createDMVIndex s2 + 1\<rparr>)))
                else if localLockIndex s1 clientNum = -1 then Inr (other, s1)
                else if other = -1 then
                  bindE (aderef (mvs s1) (localLockIndex s1 clientNum)) (\<lambda>v. Inr (mv_gid v, s1))
                else Inr (-1, s1))
           (\<lambda>(mvIndex, s2). answer_client (user_thread_pkt J s2) (user_thread_mail J s2) clientNum mvIndex s2))"

definition handle_CREATEMVVERIFY :: "junk \<Rightarrow> PacketHeader \<Rightarrow> MailHeader \<Rightarrow> string \<Rightarrow> 'a server_scheme \<Rightarrow> 'a server_scheme handled result" where
  "handle_CREATEMVVERIFY J inP inM rest s =
     bindE (next_field 5 rest) (\<lambda>(client, nm).
     bindE (atoi_int client) (\<lambda>clientNum.
     if j_a J \<noteq> 0 \<or> length nm \<ge> 32 then Inl Undefined_behaviour
     else
       bindE (search_table True nm mv_name (mvs s) (createDMVIndex s)) (\<lambda>mvIndex.
       let p = (j_pkt J)\<lparr>pk_to := pk_from inP\<rparr>;
           m = (j_mail J)\<lparr>mb_to := mb_from inM, mb_from := netAddr s\<rparr>
       in
       if mvIndex = -1 then answer_server J p m (ask_text CREATEMVANSWER clientNum [-1]) s
       else
         bindE (aderef (mvs s) mvIndex) (\<lambda>v.
         answer_server J p m (ask_text CREATEMVANSWER clientNum [mv_gid v]) s))))"

end
