(* ===== verification/NetDispatch.thy ===== *)
theory NetDispatch
  imports NetCreate
begin

text \<open>
  \<open>processMessage\<close> of \<open>network/netcall.cc\<close>, second part: the requests on existing locks, variables
  and conditions, which are served here or forwarded to the server that the object's id names, the
  answers of other servers to \<open>Wait\<close>, \<open>Signal\<close> and \<open>Broadcast\<close>, and the dispatch on the request type.
  \<open>NetworkThread\<close> is the loop of \<open>TotalOrder\<close> with this \<open>processMessage\<close>.
\<close>

section \<open>Serving and forwarding\<close>

definition served :: "junk \<Rightarrow> (bool \<times> 'a server_scheme) result \<Rightarrow> 'a server_scheme handled result" where
  "served J r = bindE r (\<lambda>(ok, s). Inr (Break ok (j_pkt J) (j_mail J) s))"

definition forwarded :: "RequestType \<Rightarrow> int \<Rightarrow> string \<Rightarrow> PacketHeader \<Rightarrow> MailHeader \<Rightarrow> 'a server_scheme \<Rightarrow> 'a server_scheme handled result" where
  "forwarded r clientNum args p m s =
     bindE (into_tmp (forward_text r clientNum args)) (\<lambda>b.
     let m1 = m\<lparr>mb_length := length b + 1\<rparr> in
     bindE (post_send p m1 b s) (\<lambda>(ok, s1). Inr (Break ok p m1 s1)))"

section \<open>Locks\<close>

definition handle_ACQUIRE :: "junk \<Rightarrow> PacketHeader \<Rightarrow> MailHeader \<Rightarrow> string \<Rightarrow> 'a server_scheme \<Rightarrow> 'a server_scheme handled result" where
  "handle_ACQUIRE J inP inM rest s =
     bindE (client_prefix (sender_client inP inM) rest) (\<lambda>(clientNum, pre, rest1).
     bindE (last_field pre rest1) (\<lambda>lockIndexBuf.
     bindE (atoi_int lockIndexBuf) (\<lambda>lockIndex.
     if lockIndex sdiv MAX_DLOCK \<noteq> uniqueGlobalID s then
       forwarded ACQUIRE clientNum lockIndexBuf ((j_pkt J)\<lparr>pk_to := lockIndex sdiv MAX_DLOCK\<rparr>)
         ((j_mail J)\<lparr>mb_to := mb_to inM + 1, mb_from := mb_from inM\<rparr>) s
     else served J (Acquire_srv J lockIndex (j_pkt J) inP (j_mail J) inM clientNum s))))"

definition handle_RELEASE :: "junk \<Rightarrow> PacketHeader \<Rightarrow> MailHeader \<Rightarrow> string \<Rightarrow> 'a server_scheme \<Rightarrow> 'a server_scheme handled result" where
  "handle_RELEASE J inP inM rest s =
     bindE (client_prefix (sender_client inP inM) rest) (\<lambda>(clientNum, pre, rest1).
     bindE (last_field pre rest1) (\<lambda>lockIndexBuf.
     bindE (atoi_int lockIndexBuf) (\<lambda>lockIndex.
     if lockIndex sdiv MAX_DLOCK \<noteq> uniqueGlobalID s then
       forwarded RELEASE clientNum lockIndexBuf ((j_pkt J)\<lparr>pk_to := lockIndex sdiv MAX_DLOCK\<rparr>)
         ((j_mail J)\<lparr>mb_to := mb_to (j_mail J) + 1, mb_from := mb_from inM\<rparr>) s
     else served J (Release_srv J lockIndex (j_pkt J) inP (j_mail J) inM clientNum s))))"

definition handle_DESTROYLOCK :: "junk \<Rightarrow> PacketHeader \<Rightarrow> MailHeader \<Rightarrow> string \<Rightarrow> 'a server_scheme \<Rightarrow> 'a server_scheme handled result" where
  "handle_DESTROYLOCK J inP inM rest s =
     bindE (client_prefix (sender_client inP inM) rest) (\<lambda>(clientNum, pre, rest1).
     bindE (last_field pre rest1) (\<lambda>lockIndexBuf.
     bindE (atoi_int lockIndexBuf) (\<lambda>lockIndex.
     if lockIndex sdiv MAX_DLOCK \<noteq> uniqueGlobalID s then
       forwarded DESTROYLOCK clientNum lockIndexBuf ((j_pkt J)\<lparr>pk_to := lockIndex sdiv MAX_DLOCK\<rparr>)
         ((j_mail J)\<lparr>mb_to := lockIndex sdiv MAX_DLOCK, mb_from := mb_from inM\<rparr>) s
     else served J (DestroyLock_srv J lockIndex (j_pkt J) inP (j_mail J) inM clientNum s))))"

section \<open>Monitor variables\<close>

text \<open>The one place where no NUL is put behind the client's number before \<open>atoi\<close> reads it.\<close>

definition set_prefix :: "junk \<Rightarrow> int \<Rightarrow> string \<Rightarrow> (int \<times> string) result" where
  "set_prefix J dflt rest =
     (if rest \<noteq> [] \<and> hd rest = CHR ''_'' then
        bindE (next_field 6 (tl rest)) (\<lambda>(client, rest1).
        bindE (atoi_int (client @ drop (length client) (j_client J))) (\<lambda>clientNum. Inr (clientNum, rest1)))
      else Inr (dflt, rest))"

definition handle_SETMV :: "junk \<Rightarrow> PacketHeader \<Rightarrow> MailHeader \<Rightarrow> string \<Rightarrow> 'a server_scheme \<Rightarrow> 'a server_scheme handled result" where
  "handle_SETMV J inP inM rest s =
     bindE (set_prefix J (sender_client inP inM) rest) (\<lambda>(clientNum, rest1).
     bindE (next_field MaxMailSize rest1) (\<lambda>(mvIndexBuf, rest2).
     bindE (atoi_int mvIndexBuf) (\<lambda>mvIndex.
     bindE (last_field True rest2) (\<lambda>mvValBuf.
     bindE (atoi_int mvValBuf) (\<lambda>mvValue.
     if mvIndex sdiv MAX_DMV \<noteq> uniqueGlobalID s then
       forwarded SETMV clientNum (mvIndexBuf @ CHR ''_'' # mvValBuf) ((j_pkt J)\<lparr>pk_to := mvIndex sdiv MAX_DMV\<rparr>)
         ((j_mail J)\<lparr>mb_to := mb_to (j_mail J) + 1, mb_from := mb_from inM\<rparr>) s
     else served J (SetMV_srv J mvIndex mvValue (j_pkt J) inP (j_mail J) inM clientNum s))))))"

definition handle_GETMV :: "junk \<Rightarrow> PacketHeader \<Rightarrow> MailHeader \<Rightarrow> string \<Rightarrow> 'a server_scheme \<Rightarrow> 'a server_scheme handled result" where
  "handle_GETMV J inP inM rest s =
     bindE (client_prefix (sender_client inP inM) rest) (\<lambda>(clientNum, pre, rest1).
     bindE (last_field pre rest1) (\<lambda>mvIndexBuf.
     bindE (atoi_int mvIndexBuf) (\<lambda>mvIndex.
     if mvIndex sdiv MAX_DMV \<noteq> uniqueGlobalID s then
       forwarded GETMV clientNum mvIndexBuf ((j_pkt J)\<lparr>pk_to := mvIndex sdiv MAX_DMV\<rparr>)
         ((j_mail J)\<lparr>mb_to := mb_to (j_mail J) + 1, mb_from := mb_from inM\<rparr>) s
     else served J (GetMV_srv J mvIndex (j_pkt J) inP (j_mail J) inM clientNum s))))"

definition handle_DESTROYMV :: "junk \<Rightarrow> PacketHeader \<Rightarrow> MailHeader \<Rightarrow> string \<Rightarrow> 'a server_scheme \<Rightarrow> 'a server_scheme handled result" where
  "handle_DESTROYMV J inP inM rest s =
     bindE (client_prefix (sender_client inP inM) rest) (\<lambda>(clientNum, pre, rest1).
     bindE (last_field pre rest1) (\<lambda>mvIndexBuf.
     bindE (atoi_int mvIndexBuf) (\<lambda>mvIndex.
     if mvIndex sdiv MAX_DMV \<noteq> uniqueGlobalID s then
       forwarded DESTROYMV clientNum mvIndexBuf ((j_pkt J)\<lparr>pk_to := mvIndex sdiv MAX_DMV\<rparr>)
         ((j_mail J)\<lparr>mb_to := mb_to (j_mail J) + 1, mb_from := mb_from inM\<rparr>) s
     else served J (DestroyMV_srv J mvIndex (j_pkt J) inP (j_mail J) inM clientNum s))))"

section \<open>Condition variables\<close>

text \<open>Two numbers: the condition up to an underscore, then the lock.\<close>

definition cv_and_lock :: "string \<Rightarrow> (string \<times> int \<times> string \<times> int) result" where
  "cv_and_lock rest =
     bindE (next_field MaxMailSize rest) (\<lambda>(cvNum, rest1).
     bindE (atoi_int cvNum) (\<lambda>cvIndex.
     bindE (last_field True rest1) (\<lambda>lockNum.
     bindE (atoi_int lockNum) (\<lambda>lockIndex. Inr (cvNum, cvIndex, lockNum, lockIndex)))))"

text \<open>A \<open>WAIT\<close> for a lock of another server is forwarded with the number of \<open>SIGNAL\<close>.\<close>

definition handle_WAIT :: "junk \<Rightarrow> PacketHeader \<Rightarrow> MailHeader \<Rightarrow> string \<Rightarrow> 'a server_scheme \<Rightarrow> 'a server_scheme handled result" where
  "handle_WAIT J inP inM rest s =
     bindE (client_prefix (sender_client inP inM) rest) (\<lambda>(clientNum, pre, rest1).
     bindE (cv_and_lock rest1) (\<lambda>(cvNum, cvIndex, lockNum, lockIndex).
     if lockIndex sdiv MAX_DLOCK \<noteq> uniqueGlobalID s then
       forwarded SIGNAL clientNum (cvNum @ CHR ''_'' # lockNum) ((j_pkt J)\<lparr>pk_to := lockIndex sdiv MAX_DLOCK\<rparr>)
         ((j_mail J)\<lparr>mb_to := lockIndex sdiv MAX_DLOCK, mb_from := mb_from inM\<rparr>) s
     else served J (Wait_srv J cvIndex lockIndex (j_pkt J) inP (j_mail J) inM clientNum s)))"

text \<open>The answer \<open>"%d_%d_%d"\<close> to another server; the code prints the address of \<open>client\<close>.\<close>

definition respond :: "junk \<Rightarrow> RequestType \<Rightarrow> int \<Rightarrow> int \<Rightarrow> 'a server_scheme \<Rightarrow> 'a server_scheme handled result" where
  "respond J r clientNum result s =
     bindE (into_tmp (ask_text r (j_ptr J) [result])) (\<lambda>b.
     let p = client_pkt (j_pkt J) clientNum; m = (client_mail (j_mail J) clientNum s)\<lparr>mb_length := length b + 1\<rparr> in
     bindE (post_send p m b s) (\<lambda>(ok, s1). Inr (Break ok p m s1)))"

definition handle_WAITCV :: "junk \<Rightarrow> PacketHeader \<Rightarrow> MailHeader \<Rightarrow> string \<Rightarrow> 'a server_scheme \<Rightarrow> 'a server_scheme handled result" where
  "handle_WAITCV J inP inM rest s =
     bindE (client_prefix (sender_client inP inM) rest) (\<lambda>(clientNum, pre, rest1).
     bindE (cv_and_lock rest1) (\<lambda>(cvNum, cvIndex, lockNum, lockIndex).
     bindE (aget (cvs s) (cvIndex smod MAX_DCV)) (\<lambda>slot. case slot of
       None \<Rightarrow> respond J WAITRESPONSE clientNum (-1) s
     | Some c \<Rightarrow>
         (let c1 = (if cv_queue c = [] then c\<lparr>cv_firstLock := lockIndex\<rparr> else c) in
          bindE (itoa_string 5 cvIndex) (\<lambda>ack.
          respond J WAITRESPONSE clientNum cvIndex
            (put_cv (cvIndex smod MAX_DCV) (CV_QueueReply (Message_new (client_pkt (j_pkt J) clientNum)
              ((client_mail (j_mail J) clientNum s)\<lparr>mb_length := length ack + 1\<rparr>) ack) c1) s))))))"

text \<open>The answers that must name their client, or an assertion fails.\<close>

definition required_prefix :: "string \<Rightarrow> (int \<times> string) result" where
  "required_prefix rest =
     bindE (client_prefix (-1) rest) (\<lambda>(clientNum, pre, rest1).
     bindE (assertE pre) (\<lambda>_. Inr (clientNum, rest1)))"

text \<open>The error headers before a \<open>break\<close> with \<open>success\<close> false, which sets them once more.\<close>

definition failed :: "junk \<Rightarrow> PacketHeader \<Rightarrow> MailHeader \<Rightarrow> int \<Rightarrow> 'a server_scheme \<Rightarrow> 'a server_scheme handled result" where
  "failed J inP inM clientNum s = served J (refuse (j_pkt J) inP (j_mail J) inM clientNum s)"

definition handle_WAITRESPONSE :: "junk \<Rightarrow> PacketHeader \<Rightarrow> MailHeader \<Rightarrow> string \<Rightarrow> 'a server_scheme \<Rightarrow> 'a server_scheme handled result" where
  "handle_WAITRESPONSE J inP inM rest s =
     bindE (required_prefix rest) (\<lambda>(clientNum, rest1).
     bindE (last_field True rest1) (\<lambda>cvNum.
     bindE (atoi_int cvNum) (\<lambda>cvIndex.
     if cvIndex = -1 then failed J inP inM clientNum s
     else
       bindE (client_ok clientNum) (\<lambda>_.
       let i = waitingForWaitLocks s clientNum in
       bindE (aderef (dlocks s) i) (\<lambda>l.
       bindE (hand_over i (l\<lparr>dl_owner := (-1, -1), dl_free := True\<rparr>) s) (\<lambda>(_, s1).
       Inr (Break (dl_queue l \<noteq> []) (j_pkt J) (j_mail J) s1)))))))"

definition handle_SIGNAL :: "junk \<Rightarrow> PacketHeader \<Rightarrow> MailHeader \<Rightarrow> string \<Rightarrow> 'a server_scheme \<Rightarrow> 'a server_scheme handled result" where
  "handle_SIGNAL J inP inM rest s =
     bindE (required_prefix rest) (\<lambda>(clientNum, rest1).
     bindE (cv_and_lock rest1) (\<lambda>(cvNum, cvIndex, lockNum, lockIndex).
     if cvIndex sdiv MAX_DCV \<noteq> uniqueGlobalID s then
       forwarded SIGNAL clientNum (cvNum @ CHR ''_'' # lockNum) ((j_pkt J)\<lparr>pk_to := cvIndex sdiv MAX_DCV\<rparr>)
         ((j_mail J)\<lparr>mb_to := mb_to (j_mail J) + 1, mb_from := mb_from inM\<rparr>) s
     else served J (Signal_srv J cvIndex lockIndex (j_pkt J) inP (j_mail J) inM clientNum s)))"

definition handle_SIGNALLOCK :: "junk \<Rightarrow> PacketHeader \<Rightarrow> MailHeader \<Rightarrow> string \<Rightarrow> 'a server_scheme \<Rightarrow> 'a server_scheme handled result" where
  "handle_SIGNALLOCK J inP inM rest s =
     bindE (client_prefix (sender_client inP inM) rest) (\<lambda>(clientNum, pre, rest1).
     bindE (last_field pre rest1) (\<lambda>lockIndexBuf.
     bindE (atoi_int lockIndexBuf) (\<lambda>lockIndex.
     bindE (aget (dlocks s) (lockIndex smod MAX_DLOCK)) (\<lambda>slot.
     respond J SIGNALRESPONSE clientNum (case slot of None \<Rightarrow> -1 | Some _ \<Rightarrow> lockIndex) s))))"

definition handle_SIGNALRESPONSE :: "junk \<Rightarrow> PacketHeader \<Rightarrow> MailHeader \<Rightarrow> string \<Rightarrow> 'a server_scheme \<Rightarrow> 'a server_scheme handled result" where
  "handle_SIGNALRESPONSE J inP inM rest s =
     bindE (client_prefix (sender_client inP inM) rest) (\<lambda>(clientNum, pre, rest1).
     bindE (last_field pre rest1) (\<lambda>lockIndexBuf.
     bindE (atoi_int lockIndexBuf) (\<lambda>lockIndex.
     if lockIndex = -1 then failed J inP inM clientNum s
     else
       bindE (client_ok clientNum) (\<lambda>_.
       let cvIndex = waitingForSignalCvs s clientNum in
       bindE (itoa_string 5 cvIndex) (\<lambda>ack.
       let p = client_pkt (j_pkt J) clientNum;
           m = (client_mail (j_mail J) clientNum s)\<lparr>mb_length := length ack + 1\<rparr>
       in bindE (reply_or_halt p m ack s) (\<lambda>(_, s1).
          bindE (aderef (cvs s1) cvIndex) (\<lambda>c.
          case cv_queue c of
            [] \<Rightarrow> Inr (Break True p m (forget_lock cvIndex c s1))
          | r # waiting \<Rightarrow>
              if cv_firstLock c \<noteq> lockIndex then
                bindE (refuse p inP m inM clientNum s1) (\<lambda>(_, s2). Inr (Return_false s2))
              else
                (let c1 = c\<lparr>cv_queue := waiting\<rparr> in
                 bindE (reacquire J lockIndex r p m (put_cv cvIndex c1 s1)) (\<lambda>s2.
                 Inr (Break True p m (forget_lock cvIndex c1 s2)))))))))))"

definition handle_BROADCAST :: "junk \<Rightarrow> PacketHeader \<Rightarrow> MailHeader \<Rightarrow> string \<Rightarrow> 'a server_scheme \<Rightarrow> 'a server_scheme handled result" where
  "handle_BROADCAST J inP inM rest s =
     bindE (client_prefix (sender_client inP inM) rest) (\<lambda>(clientNum, pre, rest1).
     bindE (cv_and_lock rest1) (\<lambda>(cvNum, cvIndex, lockNum, lockIndex).
     if cvIndex sdiv MAX_DCV \<noteq> uniqueGlobalID s then
       forwarded BROADCAST clientNum (cvNum @ CHR ''_'' # lockNum) ((j_pkt J)\<lparr>pk_to := cvIndex sdiv MAX_DCV\<rparr>)
         ((j_mail J)\<lparr>mb_to := cvIndex sdiv MAX_DCV, mb_from := mb_from inM\<rparr>) s
     else served J (Broadcast_srv J cvIndex lockIndex (j_pkt J) inP (j_mail J) inM clientNum s)))"

text \<open>The lock's slot is tested by its index, its owner looked up by its id.\<close>

definition handle_BROADCASTLOCK :: "junk \<Rightarrow> PacketHeader \<Rightarrow> MailHeader \<Rightarrow> string \<Rightarrow> 'a server_scheme \<Rightarrow> 'a server_scheme handled result" where
  "handle_BROADCASTLOCK J inP inM rest s =
     bindE (client_prefix (sender_client inP inM) rest) (\<lambda>(clientNum, pre, rest1).
     bindE (last_field pre rest1) (\<lambda>lockIndexBuf.
     bindE (atoi_int lockIndexBuf) (\<lambda>lockIndex.
     bindE (aget (dlocks s) (lockIndex smod MAX_DLOCK)) (\<lambda>slot. case slot of
       None \<Rightarrow> respond J BROADCASTRESPONSE clientNum (-1) s
     | Some _ \<Rightarrow>
         bindE (aderef (dlocks s) lockIndex) (\<lambda>l.
         respond J BROADCASTRESPONSE clientNum (if snd (dl_owner l) = -1 then -1 else lockIndex) s)))))"

definition handle_BROADCASTRESPONSE :: "junk \<Rightarrow> PacketHeader \<Rightarrow> MailHeader \<Rightarrow> string \<Rightarrow> 'a server_scheme \<Rightarrow> 'a server_scheme handled result" where
  "handle_BROADCASTRESPONSE J inP inM rest s =
     bindE (client_prefix (sender_client inP inM) rest) (\<lambda>(clientNum, pre, rest1).
     bindE (last_field pre rest1) (\<lambda>lockIndexBuf.
     bindE (atoi_int lockIndexBuf) (\<lambda>lockId.
     if lockId = -1 then failed J inP inM clientNum s
     else
       bindE (client_ok clientNum) (\<lambda>_.
       let cvIndex = waitingForBroadcastCvs s clientNum; lockIndex = lockId smod MAX_DLOCK in
       bindE (itoa_string 5 cvIndex) (\<lambda>ack.
       let p = client_pkt (j_pkt J) clientNum;
           m = (client_mail (j_mail J) clientNum s)\<lparr>mb_length := length ack + 1\<rparr>
       in bindE (reply_or_halt p m ack s) (\<lambda>(_, s1).
          bindE (aderef (cvs s1) cvIndex) (\<lambda>c.
          if cv_queue c \<noteq> [] \<and> cv_firstLock c \<noteq> lockIndex then
            bindE (refuse p inP m inM clientNum s1) (\<lambda>(_, s2). Inr (Return_false s2))
          else
            bindE (wake_all J lockIndex cvIndex p m (cv_queue c) c s1) (\<lambda>s2.
            Inr (Break True p m (forget_lock cvIndex (c\<lparr>cv_queue := []\<rparr>) s2))))))))))"

definition handle_DESTROYCV :: "junk \<Rightarrow> PacketHeader \<Rightarrow> MailHeader \<Rightarrow> string \<Rightarrow> 'a server_scheme \<Rightarrow> 'a server_scheme handled result" where
  "handle_DESTROYCV J inP inM rest s =
     bindE (client_prefix (sender_client inP inM) rest) (\<lambda>(clientNum, pre, rest1).
     bindE (last_field pre rest1) (\<lambda>cvNum.
     bindE (atoi_int cvNum) (\<lambda>cvIndex.
     if cvIndex sdiv MAX_DCV \<noteq> uniqueGlobalID s then
       forwarded DESTROYCV clientNum cvNum ((j_pkt J)\<lparr>pk_to := cvIndex sdiv MAX_DCV\<rparr>)
         ((j_mail J)\<lparr>mb_to := cvIndex sdiv MAX_DCV, mb_from := mb_from inM\<rparr>) s
     else
       (let give_up = bindE (refuse (j_pkt J) inP (j_mail J) inM clientNum s) (\<lambda>(_, s1). Inr (Return_false s1)) in
        if cvIndex < 0 \<or> cvIndex > MAX_NUM_GLOBAL_IDS * MAX_DCV - 1 then give_up
        else
          (let i = cvIndex smod MAX_DCV in
           bindE (aget (cvs s) i) (\<lambda>slot. case slot of
             None \<Rightarrow> give_up
           | Some c \<Rightarrow>
               bindE (itoa_string 4 i) (\<lambda>ack.
               let p = client_pkt (j_pkt J) clientNum;
                   m = (client_mail (j_mail J) clientNum s)\<lparr>mb_length := length ack + 1\<rparr>
               in bindE (reply_or_halt p m ack
                    (s\<lparr>cvs := (cvs s)[nat i := None], createDCVIndex := createDCVIndex s - 1\<rparr>))
                  (\<lambda>(_, s1). Inr (Break True p m s1)))))))))"

section \<open>Dispatch\<close>

definition request_type :: "int \<Rightarrow> RequestType option" where
  "request_type n = find (\<lambda>r. req r = n)
     [CREATELOCK, ACQUIRE, RELEASE, DESTROYLOCK, CREATECV, SIGNAL, BROADCAST, WAIT, DESTROYCV, CREATEMV,
      SETMV, GETMV, DESTROYMV, CREATELOCKVERIFY, CREATECVVERIFY, CREATEMVVERIFY, CREATELOCKANSWER,
      CREATECVANSWER, CREATEMVANSWER, SIGNALLOCK, SIGNALRESPONSE, BROADCASTLOCK, BROADCASTRESPONSE, WAITCV,
      WAITRESPONSE, STARTUSERPROGRAM, REGNETTHREAD, REGNETTHREADRESPONSE, GROUPINFO, ACK, TIMESTAMP, INVALIDTYPE]"

definition handle :: "junk \<Rightarrow> RequestType \<Rightarrow> PacketHeader \<Rightarrow> MailHeader \<Rightarrow> string \<Rightarrow> 'a server_scheme \<Rightarrow> 'a server_scheme handled result" where
  "handle J r inP inM rest s =
     (case r of
        CREATELOCK \<Rightarrow> handle_CREATELOCK J inP inM rest s
      | CREATELOCKANSWER \<Rightarrow> handle_CREATELOCKANSWER J inP inM rest s
      | CREATELOCKVERIFY \<Rightarrow> handle_CREATELOCKVERIFY J inP inM rest s
      | CREATECV \<Rightarrow> handle_CREATECV J inP inM rest s
      | CREATECVANSWER \<Rightarrow> handle_CREATECVANSWER J inP inM rest s
      | CREATECVVERIFY \<Rightarrow> handle_CREATECVVERIFY J inP inM rest s
      | CREATEMV \<Rightarrow> handle_CREATEMV J inP inM rest s
      | CREATEMVANSWER \<Rightarrow> handle_CREATEMVANSWER J inP inM rest s
      | CREATEMVVERIFY \<Rightarrow> handle_CREATEMVVERIFY J inP inM rest s
      | ACQUIRE \<Rightarrow> handle_ACQUIRE J inP inM rest s
      | RELEASE \<Rightarrow> handle_RELEASE J inP inM rest s
      | DESTROYLOCK \<Rightarrow> handle_DESTROYLOCK J inP inM rest s
      | SETMV \<Rightarrow> handle_SETMV J inP inM rest s
      | GETMV \<Rightarrow> handle_GETMV J inP inM rest s
      | DESTROYMV \<Rightarrow> handle_DESTROYMV J inP inM rest s
      | WAIT \<Rightarrow> handle_WAIT J inP inM rest s
      | WAITCV \<Rightarrow> handle_WAITCV J inP inM rest s
      | WAITRESPONSE \<Rightarrow> handle_WAITRESPONSE J inP inM rest s
      | SIGNAL \<Rightarrow> handle_SIGNAL J inP inM rest s
      | SIGNALLOCK \<Rightarrow> handle_SIGNALLOCK J inP inM rest s
      | SIGNALRESPONSE \<Rightarrow> handle_SIGNALRESPONSE J inP inM rest s
      | BROADCAST \<Rightarrow> handle_BROADCAST J inP inM rest s
      | BROADCASTLOCK \<Rightarrow> handle_BROADCASTLOCK J inP inM rest s
      | BROADCASTRESPONSE \<Rightarrow> handle_BROADCASTRESPONSE J inP inM rest s
      | DESTROYCV \<Rightarrow> handle_DESTROYCV J inP inM rest s
      | TIMESTAMP \<Rightarrow> Inr (Break False (j_pkt J) (j_mail J) s)
      | _ \<Rightarrow> Inl Assertion_failed)"

definition processMessage :: "junk \<Rightarrow> PacketHeader \<Rightarrow> MailHeader \<Rightarrow> timeval \<Rightarrow> string \<Rightarrow> 'a server_scheme \<Rightarrow> (bool \<times> 'a server_scheme) result" where
  "processMessage J inP inM t msgData s =
     bindE (assertE (serverCount s = int (length (localNetThreadInfo s)))) (\<lambda>_.
     bindE (parseValue 0 msgData) (\<lambda>(requestType, i).
     if i > length msgData then Inl Undefined_behaviour
     else
       bindE (case request_type requestType of
                Some r \<Rightarrow> handle J r inP inM (drop i msgData) s
              | None \<Rightarrow> Inr (Break False (j_pkt J) (j_mail J) s))
         (\<lambda>h. case h of
            Break ok p m s1 \<Rightarrow> Inr (ok, if ok then s1 else set_errors p inP m inM s1)
          | Return_false s1 \<Rightarrow> Inr (False, s1))))"

definition NetworkThread :: "junk \<Rightarrow> Mail \<Rightarrow> string \<Rightarrow> 'a server_scheme \<Rightarrow> 'a server_scheme result" where
  "NetworkThread J pkt d s =
     (if phase s = Running then NetworkThread_receive (processMessage J) pkt d s
      else RegisterNetworkThread_receive pkt d s)"

end
