(* ===== verification/NetInvariant.thy ===== *)
theory NetInvariant
  imports NetDispatch
begin

text \<open>
  What every request leaves alone and what it keeps: no handler of \<open>processMessage\<close> touches the
  data of the total ordering or takes a packet back that was sent, and each keeps the invariant of
  the server's objects. The law goes through all handlers once, by rules for the predicate \<open>ok\<close>;
  \<open>NetworkThread\<close> gets it through the locale \<open>message_processor\<close>.
\<close>

section \<open>The invariant\<close>

text \<open>A free lock has no owner and nobody waits for it.\<close>

definition lock_ok :: "dlock \<Rightarrow> bool" where
  "lock_ok l \<longleftrightarrow> (dl_free l \<longrightarrow> dl_queue l = [] \<and> dl_owner l = (-1, -1))"

definition server_inv :: "'a server_scheme \<Rightarrow> bool" where
  "server_inv s \<longleftrightarrow> post_inv s \<and> length (dlocks s) = nat MAX_DLOCK \<and> length (cvs s) = nat MAX_DCV
     \<and> length (mvs s) = nat MAX_DMV \<and> (\<forall>l. Some l \<in> set (dlocks s) \<longrightarrow> lock_ok l)"

text \<open>What belongs to the thread, the network and the total ordering.\<close>

definition thread_frame :: "'a netthread_scheme \<Rightarrow> 'b netthread_scheme \<Rightarrow> bool" where
  "thread_frame s t \<longleftrightarrow> netAddr t = netAddr s \<and> thisMail t = thisMail s \<and> numBoxes t = numBoxes s
     \<and> boxes t = boxes s \<and> receiveCounters t = receiveCounters s
     \<and> phase t = phase s \<and> localNetThreadInfo t = localNetThreadInfo s \<and> receivedMessages t = receivedMessages s
     \<and> msgQueue t = msgQueue s \<and> serverCount t = serverCount s \<and> (\<exists>ps. sent t = sent s @ ps)"

definition keeps :: "'a server_scheme \<Rightarrow> 'a server_scheme \<Rightarrow> bool" where
  "keeps s t \<longleftrightarrow> thread_frame s t \<and> server_inv t"

definition ok :: "('r \<Rightarrow> 'a server_scheme) \<Rightarrow> 'a server_scheme \<Rightarrow> 'r result \<Rightarrow> bool" where
  "ok f s m \<longleftrightarrow> (\<forall>x. m = Inr x \<longrightarrow> keeps s (f x))"

abbreviation (input) same_state :: "'a server_scheme \<Rightarrow> 'a server_scheme" where "same_state s \<equiv> s"

definition handled_state :: "'s handled \<Rightarrow> 's" where
  "handled_state h = (case h of Break b p m s \<Rightarrow> s | Return_false s \<Rightarrow> s)"

lemma handled_state_simps [simp]:
  "handled_state (Break b p m s) = s" "handled_state (Return_false s) = s"
  by (simp_all add: handled_state_def)

lemma thread_frame_refl: "thread_frame s s"
  by (simp add: thread_frame_def)

lemma thread_frame_trans: "thread_frame s t \<Longrightarrow> thread_frame t u \<Longrightarrow> thread_frame s u"
  by (auto simp: thread_frame_def)

lemma keeps_refl: "server_inv s \<Longrightarrow> keeps s s"
  by (simp add: keeps_def thread_frame_refl)

section \<open>Updates of the state\<close>

named_theorems srv_rules \<open>rules for the predicate ok\<close>

lemma keeps_globals [simp]:
  "keeps s (t\<lparr>lockName := a\<rparr>) = keeps s t"
  "keeps s (t\<lparr>verifyBuffer := b\<rparr>) = keeps s t"
  "keeps s (t\<lparr>verifyResponses := c\<rparr>) = keeps s t"
  "keeps s (t\<lparr>localLockIndex := c\<rparr>) = keeps s t"
  "keeps s (t\<lparr>lockCreationStates := c\<rparr>) = keeps s t"
  "keeps s (t\<lparr>cvCreationStates := c\<rparr>) = keeps s t"
  "keeps s (t\<lparr>mvCreationStates := c\<rparr>) = keeps s t"
  "keeps s (t\<lparr>lockCreationTimeStamps := d\<rparr>) = keeps s t"
  "keeps s (t\<lparr>cvCreationTimeStamps := d\<rparr>) = keeps s t"
  "keeps s (t\<lparr>mvCreationTimeStamps := d\<rparr>) = keeps s t"
  "keeps s (t\<lparr>waitingForSignalCvs := c\<rparr>) = keeps s t"
  "keeps s (t\<lparr>waitingForBroadcastCvs := c\<rparr>) = keeps s t"
  "keeps s (t\<lparr>waitingForWaitLocks := c\<rparr>) = keeps s t"
  "keeps s (t\<lparr>createDLockIndex := e\<rparr>) = keeps s t"
  "keeps s (t\<lparr>createDCVIndex := e\<rparr>) = keeps s t"
  "keeps s (t\<lparr>createDMVIndex := e\<rparr>) = keeps s t"
  "keeps s (t\<lparr>errorOutPktHdr := p\<rparr>) = keeps s t"
  "keeps s (t\<lparr>errorOutMailHdr := m\<rparr>) = keeps s t"
  "keeps s (t\<lparr>reads := n\<rparr>) = keeps s t"
  "keeps s (set_errors p p' m m' t) = keeps s t"
  by (simp_all add: keeps_def thread_frame_def server_inv_def post_inv_def set_errors_def)

lemma frame_tables [simp]:
  "thread_frame s (t\<lparr>dlocks := x\<rparr>) = thread_frame s t" "post_inv (t\<lparr>dlocks := x\<rparr>) = post_inv t"
  "thread_frame s (t\<lparr>cvs := y\<rparr>) = thread_frame s t" "post_inv (t\<lparr>cvs := y\<rparr>) = post_inv t"
  "thread_frame s (t\<lparr>mvs := z\<rparr>) = thread_frame s t" "post_inv (t\<lparr>mvs := z\<rparr>) = post_inv t"
  by (simp_all add: thread_frame_def post_inv_def)

lemma keeps_set_lock:
  "keeps s t \<Longrightarrow> (\<And>l. x = Some l \<Longrightarrow> lock_ok l) \<Longrightarrow> keeps s (t\<lparr>dlocks := (dlocks t)[i := x]\<rparr>)"
  using set_update_subset_insert[of "dlocks t" i x] by (auto simp: keeps_def server_inv_def)

lemma keeps_put_lock [srv_rules]: "keeps s t \<Longrightarrow> lock_ok l \<Longrightarrow> keeps s (put_lock i l t)"
  unfolding put_lock_def by (rule keeps_set_lock) auto

lemma keeps_drop_lock [srv_rules]: "keeps s t \<Longrightarrow> keeps s (t\<lparr>dlocks := (dlocks t)[i := None]\<rparr>)"
  by (rule keeps_set_lock) auto

lemma keeps_set_cv [srv_rules]: "keeps s t \<Longrightarrow> keeps s (t\<lparr>cvs := (cvs t)[i := x]\<rparr>)"
  by (simp add: keeps_def server_inv_def)

lemma keeps_set_mv [srv_rules]: "keeps s t \<Longrightarrow> keeps s (t\<lparr>mvs := (mvs t)[i := x]\<rparr>)"
  by (simp add: keeps_def server_inv_def)

lemma keeps_put_cv [srv_rules]: "keeps s t \<Longrightarrow> keeps s (put_cv i c t)"
  by (simp add: put_cv_def keeps_set_cv)

lemma keeps_put_mv [srv_rules]: "keeps s t \<Longrightarrow> keeps s (put_mv i v t)"
  by (simp add: put_mv_def keeps_set_mv)

lemma aget_lock_ok: "keeps s t \<Longrightarrow> aget (dlocks t) i = Inr (Some l) \<Longrightarrow> lock_ok l"
  by (auto simp: keeps_def server_inv_def aget_def split: if_splits dest!: sym[of "_ ! _"] intro: nth_mem)

lemma aderef_lock_ok: "keeps s t \<Longrightarrow> aderef (dlocks t) i = Inr l \<Longrightarrow> lock_ok l"
  using aget_lock_ok[of s t i l] by (auto simp: aderef_def bindE_eq_Inr split: option.splits)

section \<open>Rules\<close>

lemma ok_Inr: "ok f s (Inr x) = keeps s (f x)"
  by (simp add: ok_def)

lemma ok_Inl [simp]: "ok f s (Inl e)"
  by (simp add: ok_def)

lemma ok_pure: "(\<And>x. m = Inr x \<Longrightarrow> ok f s (g x)) \<Longrightarrow> ok f s (bindE m g)"
  by (auto simp: ok_def bindE_eq_Inr)

lemma ok_bind: "ok h s m \<Longrightarrow> (\<And>x. keeps s (h x) \<Longrightarrow> ok f s (g x)) \<Longrightarrow> ok f s (bindE m g)"
  by (auto simp: ok_def bindE_eq_Inr)

lemma ok_if: "(b \<Longrightarrow> ok f s x) \<Longrightarrow> (\<not> b \<Longrightarrow> ok f s y) \<Longrightarrow> ok f s (if b then x else y)"
  by simp

lemma ok_prod: "(\<And>a b. x = (a, b) \<Longrightarrow> ok f s (g a b)) \<Longrightarrow> ok f s (case x of (a, b) \<Rightarrow> g a b)"
  by (cases x) simp

lemma ok_option:
  "(x = None \<Longrightarrow> ok f s a) \<Longrightarrow> (\<And>y. x = Some y \<Longrightarrow> ok f s (g y)) \<Longrightarrow> ok f s (case x of None \<Rightarrow> a | Some y \<Rightarrow> g y)"
  by (cases x) simp_all

lemma ok_list:
  "(x = [] \<Longrightarrow> ok f s a) \<Longrightarrow> (\<And>y ys. x = y # ys \<Longrightarrow> ok f s (g y ys)) \<Longrightarrow> ok f s (case x of [] \<Rightarrow> a | y # ys \<Rightarrow> g y ys)"
  by (cases x) simp_all

section \<open>Sending\<close>

lemma keeps_sent:
  assumes "keeps s t" and "Send p m ts d a t = Inr (b, t')"
  shows "keeps s t'"
proof -
  note e = Send_effect[OF assms(2)]
  have more: "post.more t' = post.more t" using e by blast
  have fields: "phase t' = phase t" "localNetThreadInfo t' = localNetThreadInfo t" "receivedMessages t' = receivedMessages t"
    "msgQueue t' = msgQueue t" "serverCount t' = serverCount t" "dlocks t' = dlocks t" "cvs t' = cvs t" "mvs t' = mvs t"
    using more by (cases t; cases t'; simp)+
  show ?thesis
    using assms(1) e fields Send_post_inv[OF _ assms(2)]
    by (auto simp: keeps_def thread_frame_def server_inv_def)
qed

lemma ok_Send_now [srv_rules]: "keeps s t \<Longrightarrow> ok snd s (Send_now p m d a t)"
  unfolding ok_def Send_now_def gettimeofday_def
  by (auto intro: keeps_sent[of s "t\<lparr>reads := reads t + 1\<rparr>"])

lemma ok_post_send [srv_rules]: "keeps s t \<Longrightarrow> ok snd s (post_send p m d t)"
  by (simp add: post_send_def ok_Send_now)

lemma ok_halt_unless_sent [srv_rules]: "ok snd s r \<Longrightarrow> ok (\<lambda>x. x) s (halt_unless_sent r)"
  by (auto simp: ok_def)

lemma ok_reply_or_halt [srv_rules]: "keeps s t \<Longrightarrow> ok snd s (reply_or_halt p m d t)"
  unfolding reply_or_halt_def by (rule ok_bind[where h = "\<lambda>x. x"]) (auto simp: ok_Inr intro: srv_rules)

text \<open>Sending does not look at the locks, so an update of a lock may as well come after it.\<close>

lemma Send_dlocks:
  assumes "Send p m ts d a (t\<lparr>dlocks := x\<rparr>) = Inr (b, u)"
  shows "Send p m ts d a t = Inr (b, u\<lparr>dlocks := dlocks t\<rparr>)" and "dlocks u = x"
proof -
  have "Send p m ts d a t = Inr (b, u\<lparr>dlocks := dlocks t\<rparr>) \<and> dlocks u = x"
    using assms
  proof (cases rule: Send_InrE)
    case resend
    then show ?thesis using assms Send_resend[OF resend, of a] Send_resend[of m t p ts d a] by (cases t) auto
  next
    case (new c tbl)
    have "next_counter a (pk_to p) (mb_to m) (sendCounters t) = (c, tbl)" using new(5) by simp
    then show ?thesis using assms Send_new[OF new(1-5) refl new(6)] Send_new[of m t p ts a c tbl _ d] new by (cases t) auto
  qed
  then show "Send p m ts d a t = Inr (b, u\<lparr>dlocks := dlocks t\<rparr>)" and "dlocks u = x" by simp_all
qed

lemma reply_or_halt_put_lock:
  assumes "reply_or_halt p m d (put_lock i l t) = Inr (b, u)"
  shows "reply_or_halt p m d t = Inr (b, u\<lparr>dlocks := dlocks t\<rparr>)" and "dlocks u = (dlocks t)[nat i := Some l]"
proof -
  let ?t = "t\<lparr>reads := reads t + 1\<rparr>" and ?x = "(dlocks t)[nat i := Some l]"
  have swap: "t\<lparr>dlocks := ?x, reads := n\<rparr> = t\<lparr>reads := n, dlocks := ?x\<rparr>" for n by simp
  have "Send p (m\<lparr>mb_length := length d + 1\<rparr>) (clock t (reads t)) d True (?t\<lparr>dlocks := ?x\<rparr>) = Inr (True, u)" and b
    using assms swap by (auto simp: reply_or_halt_def post_send_def Send_now_def gettimeofday_def put_lock_def bindE_eq_Inr)
  from Send_dlocks[OF this(1)] this(2)
  show "reply_or_halt p m d t = Inr (b, u\<lparr>dlocks := dlocks t\<rparr>)" and "dlocks u = ?x"
    by (auto simp: reply_or_halt_def post_send_def Send_now_def gettimeofday_def bindE_eq_Inr)
qed

lemma hand_over_overwrites:
  assumes "dlocks u = d[nat i := x]"
  shows "hand_over i l u = hand_over i l (u\<lparr>dlocks := d\<rparr>)"
proof -
  have "put_lock i k u = put_lock i k (u\<lparr>dlocks := d\<rparr>)" for k
    using assms by (cases u) (simp add: put_lock_def)
  then show ?thesis unfolding hand_over_def by (simp split: list.split)
qed

section \<open>The functions on objects\<close>

lemma ok_InrI: "keeps s (f x) \<Longrightarrow> ok f s (Inr x)"
  by (simp add: ok_Inr)

lemma ok_bind_snd:
  fixes m :: "('b \<times> 'a server_scheme) result"
  shows "ok snd s m \<Longrightarrow> (\<And>b t. keeps s t \<Longrightarrow> ok f s (g (b, t))) \<Longrightarrow> ok f s (bindE m g)"
  by (auto intro: ok_bind)

lemma ok_bind_state:
  fixes m :: "'a server_scheme result"
  shows "ok (\<lambda>x. x) s m \<Longrightarrow> (\<And>t. keeps s t \<Longrightarrow> ok f s (g t)) \<Longrightarrow> ok f s (bindE m g)"
  by (auto intro: ok_bind)

lemmas ok_intros = ok_bind_snd ok_bind_state ok_pure ok_if ok_prod ok_option ok_list ok_InrI

lemma lock_ok_simps [simp]:
  "lock_ok (l\<lparr>dl_owner := w, dl_free := False\<rparr>)" "lock_ok (l\<lparr>dl_queue := q, dl_owner := w, dl_free := False\<rparr>)"
  "lock_ok ((DistributedLock_new nm)\<lparr>dl_gid := g\<rparr>)" "\<not> dl_free l \<Longrightarrow> lock_ok (QueueReply r l)"
  "dl_queue l = [] \<Longrightarrow> lock_ok (l\<lparr>dl_owner := (-1, -1), dl_free := True\<rparr>)"
  by (simp_all add: lock_ok_def DistributedLock_new_def QueueReply_def)

lemma ok_Acquire [srv_rules]: "keeps s t \<Longrightarrow> ok snd s (Acquire_srv J i p p' m m' c t)"
  unfolding Acquire_srv_def refuse_def forward_def Let_def
  by (intro ok_intros srv_rules; simp add: srv_rules)

lemma ok_hand_over [srv_rules]:
  "keeps s t \<Longrightarrow> ok snd s (hand_over i (l\<lparr>dl_owner := (-1, -1), dl_free := True\<rparr>) t)"
  unfolding hand_over_def by (intro ok_intros srv_rules; simp add: srv_rules)

lemma ok_DestroyLock [srv_rules]: "keeps s t \<Longrightarrow> ok snd s (DestroyLock_srv J i p p' m m' c t)"
  unfolding DestroyLock_srv_def refuse_def Let_def
  by (intro ok_intros srv_rules; simp add: srv_rules)

lemma ok_MV [srv_rules]:
  assumes "keeps s t"
  shows "ok snd s (SetMV_srv J i v p p' m m' c t)" and "ok snd s (GetMV_srv J i p p' m m' c t)"
    and "ok snd s (DestroyMV_srv J i p p' m m' c t)"
  using assms unfolding SetMV_srv_def GetMV_srv_def DestroyMV_srv_def SendReply_def refuse_def Let_def
  by (intro ok_intros srv_rules; simp add: srv_rules)+

lemma ok_Release [srv_rules]:
  assumes "keeps s t"
  shows "ok snd s (Release_srv J i p p' m m' c t)"
proof -
  let ?i = "i smod MAX_DLOCK"
  let ?free = "\<lambda>l. l\<lparr>dl_owner := (-1, -1), dl_free := True\<rparr>"
  have release: "ok snd s (bindE (reply_or_halt q n ack (put_lock ?i (?free l) t)) (\<lambda>(_, s1). hand_over ?i (?free l) s1))"
    for q n ack l
  proof (rule ok_pure, clarify)
    fix b u
    assume "reply_or_halt q n ack (put_lock ?i (?free l) t) = Inr (b, u)"
    note u = reply_or_halt_put_lock[OF this]
    have "keeps s (u\<lparr>dlocks := dlocks t\<rparr>)"
      using ok_reply_or_halt[OF assms, of q n ack] u(1) by (simp add: ok_def)
    then show "ok snd s (hand_over ?i (?free l) u)"
      unfolding hand_over_overwrites[OF u(2)] by (rule ok_hand_over)
  qed
  show ?thesis
    using assms unfolding Release_srv_def refuse_def Let_def
    by (intro ok_if ok_option release ok_pure ok_InrI; simp)
qed

lemma ok_Wait [srv_rules]: "keeps s t \<Longrightarrow> ok snd s (Wait_srv J i k p p' m m' c t)"
  unfolding Wait_srv_def refuse_def ask_server_def Let_def
  by (intro ok_intros srv_rules; (simp only: prod.case)?; (intro ok_intros srv_rules)?; simp add: srv_rules)

lemma ok_reacquire [srv_rules]: "keeps s t \<Longrightarrow> ok (\<lambda>x. x) s (reacquire J i r p m t)"
  unfolding reacquire_def by (intro srv_rules)

lemma ok_wake_all [srv_rules]: "keeps s t \<Longrightarrow> ok (\<lambda>x. x) s (wake_all J i ci p m rs c t)"
proof (induction rs arbitrary: t c)
  case Nil
  then show ?case by (simp add: ok_Inr srv_rules)
next
  case (Cons r rs)
  show ?case unfolding wake_all.simps
    by (rule ok_bind_state) (intro srv_rules Cons)+
qed

lemma keeps_forget_lock [srv_rules]: "keeps s t \<Longrightarrow> keeps s (forget_lock i c t)"
  by (simp add: forget_lock_def srv_rules)

lemma ok_Signal [srv_rules]: "keeps s t \<Longrightarrow> ok snd s (Signal_srv J i k p p' m m' c t)"
  unfolding Signal_srv_def refuse_def ask_server_def Let_def
  by (intro ok_intros srv_rules; (simp only: prod.case)?; (intro ok_intros srv_rules)?; simp add: srv_rules)

lemma ok_Broadcast [srv_rules]: "keeps s t \<Longrightarrow> ok snd s (Broadcast_srv J i k p p' m m' c t)"
  unfolding Broadcast_srv_def refuse_def ask_server_def Let_def
  by (intro ok_intros srv_rules; (simp only: prod.case)?; (intro ok_intros srv_rules)?; simp add: srv_rules)

section \<open>Creating objects\<close>

lemma ok_create [srv_rules]:
  assumes "keeps s t"
  shows "ok (\<lambda>x. x) s (create_lock nm g t)" and "ok (\<lambda>x. x) s (create_cv nm g t)"
    and "ok (\<lambda>x. x) s (create_mv J nm g t)"
  using assms unfolding create_lock_def create_cv_def create_mv_def aset_def
  by (auto intro!: ok_pure ok_InrI keeps_set_lock keeps_set_cv keeps_set_mv split: if_splits)

lemma ok_verify_loop [srv_rules]: "keeps s t \<Longrightarrow> ok (\<lambda>x. x) s (verify_loop n r info t)"
proof (induction n arbitrary: info t)
  case (Suc n)
  show ?case
  proof (cases info)
    case (Cons e es)
    show ?thesis unfolding Cons verify_loop.simps
      by (intro ok_if ok_bind_state srv_rules Suc)
  qed simp
qed (simp add: ok_Inr)

lemma ok_CreateVerify [srv_rules]: "keeps s t \<Longrightarrow> ok (\<lambda>x. x) s (CreateVerify d r c t)"
  unfolding CreateVerify_def by (intro ok_intros srv_rules; simp)

lemma ok_store [srv_rules]:
  assumes "keeps s t"
  shows "ok (\<lambda>x. x) s (store_name c nm t)" and "ok (\<lambda>x. x) s (store_answer c r a d t)"
  using assms unfolding store_name_def store_answer_def by (intro ok_if ok_pure ok_InrI; simp)+

lemma ok_answer_client [srv_rules]: "keeps s t \<Longrightarrow> ok handled_state s (answer_client p m c g t)"
  unfolding answer_client_def Let_def
  by (intro ok_intros srv_rules; (simp only: prod.case)?; (intro ok_intros)?; simp)

lemma ok_answer_server [srv_rules]: "keeps s t \<Longrightarrow> ok handled_state s (answer_server J p m r t)"
  unfolding answer_server_def Let_def
  by (intro ok_intros srv_rules; (simp only: prod.case)?; (intro ok_intros)?; simp)

lemma ok_lock_answer_yes [srv_rules]: "keeps s t \<Longrightarrow> ok handled_state s (lock_answer_yes J c i t)"
  unfolding lock_answer_yes_def Let_def
  by (intro ok_intros srv_rules; (simp only: prod.case)?; (intro ok_intros)?; simp)

lemma ok_lock_answer_no [srv_rules]: "keeps s t \<Longrightarrow> ok handled_state s (lock_answer_no J c i t)"
  unfolding lock_answer_no_def Let_def
  by (intro ok_intros srv_rules; (simp only: prod.case)?; (intro ok_intros)?; simp)

section \<open>The handlers\<close>

lemma ok_served [srv_rules]: "ok snd s r \<Longrightarrow> ok handled_state s (served J r)"
  by (auto simp: served_def ok_def bindE_eq_Inr)

lemma ok_forwarded [srv_rules]: "keeps s t \<Longrightarrow> ok handled_state s (forwarded r c a p m t)"
  unfolding forwarded_def Let_def
  by (intro ok_intros srv_rules; (simp only: prod.case)?; (intro ok_intros)?; simp)

lemma ok_respond [srv_rules]: "keeps s t \<Longrightarrow> ok handled_state s (respond J r c v t)"
  unfolding respond_def Let_def
  by (intro ok_intros srv_rules; (simp only: prod.case)?; (intro ok_intros)?; simp)

lemma ok_failed [srv_rules]: "keeps s t \<Longrightarrow> ok handled_state s (failed J p m c t)"
  unfolding failed_def refuse_def by (intro ok_intros srv_rules) simp

lemma ok_collect_answer:
  "keeps s t \<Longrightarrow> ok (\<lambda>(c, a, u). u) s (collect_answer J d t)"
  unfolding collect_answer_def Let_def
  by (intro ok_intros srv_rules; (simp only: prod.case)?; (intro ok_intros srv_rules)?; simp)

lemma ok_CREATE [srv_rules]:
  assumes "keeps s t"
  shows "ok handled_state s (handle_CREATELOCK J p m d t)" and "ok handled_state s (handle_CREATECV J p m d t)"
    and "ok handled_state s (handle_CREATEMV J p m d t)"
  using assms unfolding handle_CREATELOCK_def handle_CREATECV_def handle_CREATEMV_def Let_def gettimeofday_def
  by (intro ok_intros srv_rules; (simp only: prod.case)?; (intro ok_intros srv_rules)?; simp)+

lemma ok_VERIFY [srv_rules]:
  assumes "keeps s t"
  shows "ok handled_state s (handle_CREATELOCKVERIFY J p m d t)" and "ok handled_state s (handle_CREATECVVERIFY J p m d t)"
    and "ok handled_state s (handle_CREATEMVVERIFY J p m d t)"
  using assms unfolding handle_CREATELOCKVERIFY_def handle_CREATECVVERIFY_def handle_CREATEMVVERIFY_def Let_def
  by (intro ok_intros srv_rules; (simp only: prod.case)?; (intro ok_intros srv_rules)?; simp)+

lemma ok_CREATELOCKANSWER [srv_rules]: "keeps s t \<Longrightarrow> ok handled_state s (handle_CREATELOCKANSWER J p m d t)"
  unfolding handle_CREATELOCKANSWER_def Let_def
  by (intro ok_intros srv_rules; (simp only: prod.case)?; (intro ok_intros srv_rules)?; simp)

lemma ok_ANSWER [srv_rules]:
  assumes "keeps s t"
  shows "ok handled_state s (handle_CREATECVANSWER J p m d t)" and "ok handled_state s (handle_CREATEMVANSWER J p m d t)"
  using assms unfolding handle_CREATECVANSWER_def handle_CREATEMVANSWER_def Let_def
  by (intro ok_bind[OF ok_collect_answer] ok_intros srv_rules; (simp only: prod.case)?; (intro ok_intros srv_rules)?; simp)+

lemma ok_locks [srv_rules]:
  assumes "keeps s t"
  shows "ok handled_state s (handle_ACQUIRE J p m d t)" and "ok handled_state s (handle_RELEASE J p m d t)"
    and "ok handled_state s (handle_DESTROYLOCK J p m d t)"
  using assms unfolding handle_ACQUIRE_def handle_RELEASE_def handle_DESTROYLOCK_def
  by (intro ok_intros srv_rules; simp)+

lemma ok_variables [srv_rules]:
  assumes "keeps s t"
  shows "ok handled_state s (handle_SETMV J p m d t)" and "ok handled_state s (handle_GETMV J p m d t)"
    and "ok handled_state s (handle_DESTROYMV J p m d t)"
  using assms unfolding handle_SETMV_def handle_GETMV_def handle_DESTROYMV_def
  by (intro ok_intros srv_rules; simp)+

lemma ok_conditions [srv_rules]:
  assumes "keeps s t"
  shows "ok handled_state s (handle_WAIT J p m d t)" and "ok handled_state s (handle_SIGNAL J p m d t)"
    and "ok handled_state s (handle_BROADCAST J p m d t)"
    and "ok handled_state s (handle_WAITCV J p m d t)" and "ok handled_state s (handle_SIGNALLOCK J p m d t)"
    and "ok handled_state s (handle_BROADCASTLOCK J p m d t)"
  using assms unfolding handle_WAIT_def handle_SIGNAL_def handle_BROADCAST_def handle_WAITCV_def handle_SIGNALLOCK_def
    handle_BROADCASTLOCK_def Let_def
  by (intro ok_intros srv_rules; simp)+

lemma ok_RESPONSE [srv_rules]:
  assumes "keeps s t"
  shows "ok handled_state s (handle_WAITRESPONSE J p m d t)" and "ok handled_state s (handle_SIGNALRESPONSE J p m d t)"
    and "ok handled_state s (handle_BROADCASTRESPONSE J p m d t)"
  using assms unfolding handle_WAITRESPONSE_def handle_SIGNALRESPONSE_def handle_BROADCASTRESPONSE_def Let_def refuse_def
  by (intro ok_intros srv_rules; (simp only: prod.case)?; (intro ok_intros srv_rules)?; simp add: srv_rules)+

lemma ok_DESTROYCV [srv_rules]: "keeps s t \<Longrightarrow> ok handled_state s (handle_DESTROYCV J p m d t)"
  unfolding handle_DESTROYCV_def refuse_def Let_def
  by (intro ok_intros srv_rules; (simp only: prod.case)?; (intro ok_intros srv_rules)?; simp add: srv_rules)

lemma ok_handle [srv_rules]: "keeps s t \<Longrightarrow> ok handled_state s (handle J r p m d t)"
  by (cases r; simp add: handle_def ok_Inr srv_rules)

lemma ok_processMessage: "keeps s t \<Longrightarrow> ok snd s (processMessage J p m ts d t)"
proof -
  assume t: "keeps s t"
  have "ok handled_state s (case request_type r of Some k \<Rightarrow> handle J k p m e t | None \<Rightarrow> Inr (Break False (j_pkt J) (j_mail J) t))" for r e
    using t by (auto simp: ok_Inr intro: ok_handle split: option.split)
  then have dispatch: "ok snd s (bindE (case request_type r of Some k \<Rightarrow> handle J k p m e t | None \<Rightarrow> Inr (Break False (j_pkt J) (j_mail J) t))
      (\<lambda>h. case h of Break b q n u \<Rightarrow> Inr (b, if b then u else set_errors q p n m u) | Return_false u \<Rightarrow> Inr (False, u)))" for r e
    by (rule ok_bind) (auto simp: ok_Inr split: handled.split)
  then show ?thesis
    unfolding processMessage_def by (intro dispatch ok_pure ok_prod ok_if) auto
qed

text \<open>
  C33: no request breaks the server. Whatever message \<open>processMessage\<close> handles, whatever the
  uninitialised variables hold: when it returns, the tables have their sizes, no free lock has an
  owner or a client in its queue, the post office keeps its invariant, the packets sent before are
  still sent, and neither the members' table and time stamps, the queue of the total ordering, the
  messages received nor the mailboxes have changed.
\<close>

theorem process_message_invariant:
  assumes "server_inv s" and "processMessage J p m ts d s = Inr (b, t)"
  shows "server_inv t \<and> thread_frame s t"
  using ok_processMessage[OF keeps_refl[OF assms(1)], of J p m ts d] assms(2) by (simp add: ok_def keeps_def)

section \<open>A server to try it on\<close>

text \<open>A group of servers, in which this one is machine 0 with mailbox 0.\<close>

definition demo_thread :: "NetThreadInfoEntry list \<Rightarrow> netthread" where
  "demo_thread info = post.extend (post_init 0 10 0)
     \<lparr>phase = Running, localNetThreadInfo = info, receivedMessages = [], msgQueue = [],
      serverCount = int (length info), junk_time = Timeval 0 0\<rparr>"

definition demo_server :: "NetThreadInfoEntry list \<Rightarrow> server" where
  "demo_server info = server_start (demo_thread info)"

definition demo_junk :: junk where
  "demo_junk = \<lparr>j_pkt = \<lparr>pk_to = 0, pk_from = 0, pk_length = 0\<rparr>, j_mail = \<lparr>mb_to = 0, mb_from = 0, mb_length = 0\<rparr>,
     j_a = 0, j_client = [], j_value = 0, j_success = False, j_ptr = 0\<rparr>"

definition from_box :: "int \<Rightarrow> int \<Rightarrow> PacketHeader \<times> MailHeader" where
  "from_box mach box = (\<lparr>pk_to = 0, pk_from = mach, pk_length = 0\<rparr>, \<lparr>mb_to = 0, mb_from = box, mb_length = 3\<rparr>)"

lemma demo_server_inv: "server_inv (demo_server info)"
  by (simp add: server_inv_def demo_server_def demo_thread_def server_start_def post.defs netthread.defs post_inv_def
      counters_ok_def post_init_def)

definition alone :: "NetThreadInfoEntry list" where
  "alone = [NetThreadInfoEntry_new (Timeval 1 0) 0 0]"

theorem process_message_invariant_witness:
  "\<exists>b t. processMessage demo_junk (fst (from_box 0 1)) (snd (from_box 0 1)) (Timeval 2 0) ''0_l'' (demo_server alone) = Inr (b, t)
    \<and> server_inv t \<and> thread_frame (demo_server alone) t"
proof -
  have "\<not> isl (processMessage demo_junk (fst (from_box 0 1)) (snd (from_box 0 1)) (Timeval 2 0) ''0_l'' (demo_server alone))"
    by code_simp
  then obtain b t where
    "processMessage demo_junk (fst (from_box 0 1)) (snd (from_box 0 1)) (Timeval 2 0) ''0_l'' (demo_server alone) = Inr (b, t)"
    by (metis isl_def old.prod.exhaust sum.exhaust)
  then show ?thesis using process_message_invariant[OF demo_server_inv] by blast
qed

section \<open>The network thread\<close>

interpretation srv: message_processor "processMessage J" server_inv for J :: junk
proof
  fix s s' :: "'a server_scheme" and p m t x b
  assume "server_inv s" and "processMessage J p m t x s = Inr (b, s')"
  then have "keeps s s'" using ok_processMessage[OF keeps_refl[of s], of J p m t x] by (simp add: ok_def)
  then show "server_inv s' \<and> localNetThreadInfo s' = localNetThreadInfo s \<and> msgQueue s' = msgQueue s \<and> phase s' = phase s"
    by (simp add: keeps_def thread_frame_def)
next
  fix s s' :: "'a server_scheme" and p m t x a b
  assume "server_inv s" and "Send p m t x a s = Inr (b, s')"
  from keeps_sent[OF keeps_refl[OF this(1)] this(2)] show "server_inv s'" by (simp add: keeps_def)
next
  fix s :: "'a server_scheme" and P
  assume "server_inv s"
  then show "server_inv (s\<lparr>unAckedMessages := erase_first P (unAckedMessages s)\<rparr>)"
    using erase_post_inv[of s P] by (simp add: server_inv_def)
qed (simp_all add: server_inv_def post_inv_def)


definition demo_stamp :: Mail where
  "demo_stamp = \<lparr>pktHdr = fst (from_box 0 0), mailHdr = snd (from_box 0 0), timeStamp = Timeval 5 0, mdata = ''30_''\<rparr>"


end
