(* ===== verification/NetService.thy ===== *)
theory NetService
  imports NetInvariant
begin

text \<open>
  What the clients of the distributed objects get: the locks are queues in the order of the
  requests, a variable is read back as it was set, creating a lock twice gives the same lock; and
  what goes wrong, as theorems: the creation of a lock in a group of servers never ends when the
  others answer that they do not have it, and a signalled client's lock is given to another client.
\<close>

section \<open>Sending on a network that is up\<close>

text \<open>
  Sockets take every packet, the clock does not stand still or go back, and the counters are far
  from the end of \<open>int\<close>, so that the next \<open>k\<close> messages go out.
\<close>

definition network_up :: "nat \<Rightarrow> 'a post_scheme \<Rightarrow> bool" where
  "network_up k s \<longleftrightarrow> (\<forall>n. socket_ok s n) \<and> strict_mono (clock s)
     \<and> (\<forall>u \<in> set (unAckedMessages s). timeStamp u < clock s (reads s))
     \<and> (\<forall>e \<in> set (sendCounters s). 0 \<le> counter e \<and> counter e + int k < 10 ^ 9) \<and> int k < 10 ^ 9"

definition carries :: "string \<Rightarrow> Mail \<Rightarrow> bool" where
  "carries d pkt \<longleftrightarrow> (\<exists>c \<ge> 0. mdata pkt = dec c @ CHR ''_'' # d)"

definition addressed :: "int \<Rightarrow> int \<Rightarrow> Mail \<Rightarrow> bool" where
  "addressed mach box pkt \<longleftrightarrow> pk_to (pktHdr pkt) = mach \<and> mb_to (mailHdr pkt) = box"

lemma counters_advance:
  assumes "\<forall>e \<in> set tbl. 0 \<le> counter e \<and> counter e + int (Suc k) < N" and "int k < N"
  shows "\<forall>e \<in> set (advance mach box tbl). 0 \<le> counter e \<and> counter e + int k < N"
proof -
  have "\<forall>e \<in> set (update_first (counts_for mach box) count_up tbl). 0 \<le> counter e \<and> counter e + int k < N"
    using assms(1) by (induction tbl) (auto simp: count_up_def)
  then show ?thesis using assms by (auto simp: advance_def ThreadCounterEntry_new_def split: option.split)
qed

lemma expects_bound:
  assumes "\<forall>e \<in> set tbl. 0 \<le> counter e \<and> counter e + int (Suc k) < N" and "int (Suc k) < N"
  shows "0 \<le> expects tbl mach box \<and> expects tbl mach box < N"
  using assms by (auto simp: expects_def find_Some_iff split: option.split dest!: nth_mem bspec)

lemma Send_now_up:
  assumes up: "network_up (Suc k) s" and "0 \<le> mb_to m" and "mb_to m < numBoxes s" and "mb_length m \<le> MaxMailSize"
    and "length d \<le> 20"
  obtains pkt r tbl us where
    "Send_now p m d True s = Inr (True, s\<lparr>reads := r, sendCounters := tbl, unAckedMessages := us, sent := sent s @ [pkt]\<rparr>)"
    and "addressed (pk_to p) (mb_to m) pkt" and "carries d pkt"
    and "network_up k (s\<lparr>reads := r, sendCounters := tbl, unAckedMessages := us, sent := sent s @ [pkt]\<rparr>)"
proof -
  let ?t = "clock s (reads s)" and ?s = "s\<lparr>reads := reads s + 1\<rparr>" and ?c = "expects (sendCounters s) (pk_to p) (mb_to m)"
  let ?tmp = "dec ?c @ CHR ''_'' # d" and ?tbl = "advance (pk_to p) (mb_to m) (sendCounters s)"
  have c: "0 \<le> ?c" "?c < 10 ^ 9" using up expects_bound[of "sendCounters s" k "10 ^ 9"] by (auto simp: network_up_def)
  have "length (dec ?c) \<le> 9" using dec_nat_length[of "nat ?c" 9] c by (simp add: dec_def)
  then have len: "length ?tmp + 1 < MaxMailSize" using assms(5) by simp
  have "\<not> list_ex (same_message (p\<lparr>pk_from := netAddr s\<rparr>) m ?t) (unAckedMessages ?s)"
    using up by (auto simp: list_ex_iff same_message_def network_up_def)
  from Send_new[where p = p and m = m and t = ?t and s = ?s and d = d and a = True, OF assms(4) _ _ _ _ refl len] this assms(2,3) up
  have S: "Send_now p m d True s = Inr (True, s\<lparr>reads := reads s + 1, sendCounters := ?tbl,
      unAckedMessages := unAckedMessages s @ [UnAckedMessage_new ?t ?t (p\<lparr>pk_from := netAddr s\<rparr>) (m\<lparr>mb_length := length ?tmp + 1\<rparr>) ?tmp],
      sent := sent s @ [packet p m ?t ?tmp (netAddr s)]\<rparr>)"
    by (simp add: Send_now_def gettimeofday_def next_counter_advance network_up_def)
  have "?t < clock s (Suc (reads s))" using up by (simp add: network_up_def strict_mono_def)
  moreover have "\<forall>u \<in> set (unAckedMessages s). timeStamp u < clock s (Suc (reads s))"
    using up calculation by (auto simp: network_up_def intro: less_trans)
  moreover have "\<forall>e \<in> set ?tbl. 0 \<le> counter e \<and> counter e + int k < 10 ^ 9"
    using up by (intro counters_advance) (auto simp: network_up_def)
  ultimately show thesis
    using up c(1) by (intro that[OF S])
      (auto simp: addressed_def carries_def packet_def network_up_def UnAckedMessage_new_def)
qed

lemma itoa_string_dec:
  assumes "0 \<le> v" and "v < 10 ^ 9" and "length (dec v) < sz"
  shows "itoa_string sz v = Inr (dec v)"
proof -
  note i = itoa_digits_dec[OF assms(1,2)]
  have "sz - length (dec v) = Suc (sz - length (dec v) - 1)" using assms(3) by simp
  then show ?thesis using i(1)[of sz] takeWhile_no_nul[OF i(2)] assms(3)
    by (metis (no_types, lifting) bindE_Inr c_string_def in_set_conv_decomp itoa_string_def less_or_eq_imp_le not_le replicate_Suc)
qed

section \<open>Locks\<close>

text \<open>A lock as its clients see it: who holds it and who waits, each by machine and mailbox.\<close>

type_synonym abs_lock = "(int \<times> int) option \<times> (int \<times> int) list"

definition abs_lock :: "dlock \<Rightarrow> abs_lock" where
  "abs_lock l = (if dl_free l then None else Some (dl_owner l),
     map (\<lambda>r. (pk_to (ms_pkt r), mb_to (ms_mail r))) (dl_queue l))"

fun fifo_acquire :: "int \<times> int \<Rightarrow> abs_lock \<Rightarrow> abs_lock" where
  "fifo_acquire c (None, q) = (Some c, q)"
| "fifo_acquire c (Some w, q) = (Some w, q @ [c])"

fun fifo_release :: "abs_lock \<Rightarrow> abs_lock" where
  "fifo_release (w, []) = (None, [])"
| "fifo_release (w, c # q) = (Some c, q)"

definition serves :: "'a server_scheme \<Rightarrow> int \<Rightarrow> int \<Rightarrow> dlock \<Rightarrow> bool" where
  "serves s g i l \<longleftrightarrow> g = uniqueGlobalID s * MAX_DLOCK + i \<and> 0 \<le> uniqueGlobalID s \<and> uniqueGlobalID s < MAX_NUM_GLOBAL_IDS
     \<and> 0 \<le> i \<and> i < MAX_DLOCK \<and> nat i < length (dlocks s) \<and> dlocks s ! nat i = Some l \<and> 0 \<le> dl_gid l \<and> dl_gid l < 10000"

definition client_addr :: "int \<Rightarrow> int \<times> int" where
  "client_addr c = (c div 100, c mod 100)"

definition can_reply :: "'a post_scheme \<Rightarrow> message \<Rightarrow> bool" where
  "can_reply s r \<longleftrightarrow> 0 \<le> mb_to (ms_mail r) \<and> mb_to (ms_mail r) < numBoxes s \<and> mb_length (ms_mail r) \<le> MaxMailSize
     \<and> length (ms_data r) \<le> 20"

lemma id_split:
  assumes "0 \<le> u" and "0 \<le> i" and "i < n"
  shows "(u * n + i) sdiv n = u" and "(u * n + i) smod n = (i :: int)"
  using assms by (simp_all add: sdiv_nonneg smod_nonneg)

lemma client_addr_code:
  fixes c :: int
  assumes "0 \<le> c"
  shows "c sdiv 100 = c div 100" and "(c + 100) smod 100 = c mod 100"
  using assms by (simp_all add: sdiv_nonneg smod_nonneg)

lemma gid_dec:
  assumes "0 \<le> g" and "g < 10000"
  shows "itoa_string 5 g = Inr (dec g)" and "length (dec g) \<le> 4"
proof -
  show l: "length (dec g) \<le> 4" using assms dec_nat_length[of "nat g" 4] by (simp add: dec_def)
  show "itoa_string 5 g = Inr (dec g)" using assms l by (intro itoa_string_dec) auto
qed

lemma network_up_put_lock [simp]: "network_up k (put_lock i l s) = network_up k s"
  by (simp add: network_up_def put_lock_def)

lemma put_lock_simps [simp]:
  "dlocks (put_lock i l s) = (dlocks s)[nat i := Some l]" "sent (put_lock i l s) = sent s" "numBoxes (put_lock i l s) = numBoxes s"
  by (simp_all add: put_lock_def)

lemma network_up_less: "network_up (Suc k) s \<Longrightarrow> network_up k s"
  by (auto simp: network_up_def)

text \<open>A reply on a network that is up.\<close>

lemma reply_up:
  assumes "network_up (Suc k) s" and "0 \<le> mb_to m" and "mb_to m < numBoxes s" and "length d \<le> 20"
  obtains pkt t where "reply_or_halt p m d s = Inr (True, t)" and "addressed (pk_to p) (mb_to m) pkt" and "carries d pkt"
    and "network_up k t" and "sent t = sent s @ [pkt]" and "dlocks t = dlocks s" and "mvs t = mvs s" and "cvs t = cvs s"
    and "numBoxes t = numBoxes s" and "netAddr t = netAddr s" and "thisMail t = thisMail s"
proof -
  have len: "mb_length (m\<lparr>mb_length := length d + 1\<rparr>) \<le> MaxMailSize" using assms(4) by simp
  obtain pkt r tbl us where
    "Send_now p (m\<lparr>mb_length := length d + 1\<rparr>) d True s
       = Inr (True, s\<lparr>reads := r, sendCounters := tbl, unAckedMessages := us, sent := sent s @ [pkt]\<rparr>)"
    "addressed (pk_to p) (mb_to m) pkt" "carries d pkt"
    "network_up k (s\<lparr>reads := r, sendCounters := tbl, unAckedMessages := us, sent := sent s @ [pkt]\<rparr>)"
    by (rule Send_now_up[OF assms(1) _ _ len assms(4), of p]) (use assms(2,3) in auto)
  then show thesis
    by (intro that[of "s\<lparr>reads := r, sendCounters := tbl, unAckedMessages := us, sent := sent s @ [pkt]\<rparr>" pkt])
      (auto simp: reply_or_halt_def post_send_def halt_unless_sent_def)
qed

lemma hand_over_up:
  assumes "network_up (Suc k) u" and "dl_owner l = (-1, -1)" and "dl_free l" and "\<forall>r \<in> set (dl_queue l). can_reply u r"
    and "dlocks u = (dlocks s)[nat i := Some l]"
  obtains t pkts l' where "hand_over i l u = Inr (True, t)" and "dlocks t = (dlocks s)[nat i := Some l']"
    and "abs_lock l' = fifo_release (abs_lock l)" and "sent t = sent u @ pkts"
    and "case dl_queue l of [] \<Rightarrow> pkts = []
      | r # _ \<Rightarrow> \<exists>k'. pkts = [k'] \<and> addressed (pk_to (ms_pkt r)) (mb_to (ms_mail r)) k' \<and> carries (ms_data r) k'"
proof (cases "dl_queue l")
  case Nil
  then show thesis using assms(3,5) by (intro that[of "put_lock i l u" l "[]"]) (simp_all add: hand_over_def abs_lock_def)
next
  case (Cons r rest)
  let ?l = "l\<lparr>dl_queue := rest, dl_owner := (pk_to (ms_pkt r), mb_to (ms_mail r)), dl_free := False\<rparr>"
  have up: "network_up (Suc k) (put_lock i ?l u)" using assms(1) by simp
  obtain pkt n tbl us where s: "Send_now (ms_pkt r) (ms_mail r) (ms_data r) True (put_lock i ?l u)
       = Inr (True, (put_lock i ?l u)\<lparr>reads := n, sendCounters := tbl, unAckedMessages := us, sent := sent (put_lock i ?l u) @ [pkt]\<rparr>)"
    "addressed (pk_to (ms_pkt r)) (mb_to (ms_mail r)) pkt" "carries (ms_data r) pkt"
    by (rule Send_now_up[OF up, of "ms_mail r" "ms_data r" "ms_pkt r"]) (use assms(4) Cons in \<open>auto simp: can_reply_def\<close>)
  show thesis
    by (rule that[of "(put_lock i ?l u)\<lparr>reads := n, sendCounters := tbl, unAckedMessages := us, sent := sent (put_lock i ?l u) @ [pkt]\<rparr>" ?l "[pkt]"])
      (use s Cons assms(5) in \<open>auto simp: hand_over_def halt_unless_sent_def abs_lock_def\<close>)
qed

lemma Acquire_fifo:
  assumes "network_up 1 s" and "serves s g i l" and "0 \<le> c" and "c mod 100 + 1 < numBoxes s"
  shows "\<exists>t pkts l'. Acquire_srv J g p p' m m' c s = Inr (True, t) \<and> dlocks t = (dlocks s)[nat i := Some l']
    \<and> abs_lock l' = fifo_acquire (client_addr c) (abs_lock l) \<and> sent t = sent s @ pkts
    \<and> (if dl_free l then \<exists>k. pkts = [k] \<and> addressed (c div 100) (c mod 100 + 1) k \<and> carries (dec (dl_gid l)) k
       else pkts = [])"
proof -
  have g: "g sdiv MAX_DLOCK = uniqueGlobalID s" "g smod MAX_DLOCK = i" "\<not> (g < 0 \<or> g > MAX_NUM_GLOBAL_IDS * MAX_DLOCK - 1)"
    "aget (dlocks s) i = Inr (Some l)"
    using assms(2) id_split[of "uniqueGlobalID s" i MAX_DLOCK] by (auto simp: serves_def aget_def)
  note a = client_addr_code[OF assms(3)] gid_dec[of "dl_gid l"]
  have gid: "itoa_string 5 (dl_gid l) = Inr (dec (dl_gid l))" "length (dec (dl_gid l)) \<le> 4" using a assms(2) by (auto simp: serves_def)
  let ?free = "l\<lparr>dl_owner := (c sdiv 100, (c + 100) smod 100), dl_free := False\<rparr>"
  let ?p = "p\<lparr>pk_to := c sdiv 100, pk_from := netAddr s\<rparr>" and ?m = "m\<lparr>mb_to := (c + 100) smod 100 + 1, mb_from := thisMail s\<rparr>"
  have c: "c \<noteq> -2" using assms(3) by simp
  show ?thesis
  proof (cases "dl_free l")
    case True
    have up: "network_up (Suc 0) (put_lock i ?free s)" using assms(1) by simp
    obtain k t where "reply_or_halt ?p ?m (dec (dl_gid l)) (put_lock i ?free s) = Inr (True, t)"
      "addressed (c div 100) (c mod 100 + 1) k" "carries (dec (dl_gid l)) k" "sent t = sent s @ [k]" "dlocks t = (dlocks s)[nat i := Some ?free]"
      by (rule reply_up[OF up, of ?m "dec (dl_gid l)" ?p]) (use a gid assms(3,4) in auto)
    then show ?thesis
      using True g gid c a(1,2)
      by (intro exI[of _ t] exI[of _ "[k]"] exI[of _ ?free]) (auto simp: Acquire_srv_def Let_def abs_lock_def client_addr_def)
  next
    case False
    let ?r = "Message_new (client_pkt p c) ((client_mail m c s)\<lparr>mb_length := length (dec (dl_gid l)) + 1\<rparr>) (dec (dl_gid l))"
    show ?thesis
      using False g gid c a(1,2)
      by (intro exI[of _ "put_lock i (QueueReply ?r l) s"] exI[of _ "[]"] exI[of _ "QueueReply ?r l"])
        (auto simp: Acquire_srv_def Let_def abs_lock_def client_addr_def QueueReply_def Message_new_def client_pkt_def client_mail_def)
  qed
qed

lemma Release_fifo:
  assumes "network_up 2 s" and "serves s g i l" and "0 \<le> c" and "c mod 100 + 1 < numBoxes s" and "\<forall>r \<in> set (dl_queue l). can_reply s r"
  shows "\<exists>t k pkts l'. Release_srv J g p p' m m' c s = Inr (True, t) \<and> dlocks t = (dlocks s)[nat i := Some l']
    \<and> abs_lock l' = fifo_release (abs_lock l) \<and> sent t = sent s @ k # pkts
    \<and> addressed (c div 100) (c mod 100 + 1) k \<and> carries (dec (dl_gid l)) k
    \<and> (case dl_queue l of [] \<Rightarrow> pkts = []
       | r # _ \<Rightarrow> \<exists>k'. pkts = [k'] \<and> addressed (pk_to (ms_pkt r)) (mb_to (ms_mail r)) k' \<and> carries (ms_data r) k')"
proof -
  have g: "g sdiv MAX_DLOCK = uniqueGlobalID s" "g smod MAX_DLOCK = i" "\<not> (g < 0 \<or> g > MAX_NUM_GLOBAL_IDS * MAX_DLOCK - 1)"
    "aget (dlocks s) i = Inr (Some l)"
    using assms(2) id_split[of "uniqueGlobalID s" i MAX_DLOCK] by (auto simp: serves_def aget_def)
  note a = client_addr_code[OF assms(3)]
  have gid: "itoa_string 5 (dl_gid l) = Inr (dec (dl_gid l))" "length (dec (dl_gid l)) \<le> 4"
    using gid_dec[of "dl_gid l"] assms(2) by (auto simp: serves_def)
  let ?l = "l\<lparr>dl_owner := (-1, -1), dl_free := True\<rparr>"
  let ?p = "p\<lparr>pk_to := c sdiv 100, pk_from := netAddr s\<rparr>" and ?m = "m\<lparr>mb_to := (c + 100) smod 100 + 1, mb_from := thisMail s\<rparr>"
  have up: "network_up (Suc (Suc 0)) (put_lock i ?l s)" using assms(1) by (simp add: numeral_2_eq_2)
  obtain k u where u: "reply_or_halt ?p ?m (dec (dl_gid l)) (put_lock i ?l s) = Inr (True, u)"
    "addressed (c div 100) (c mod 100 + 1) k" "carries (dec (dl_gid l)) k" "network_up (Suc 0) u" "sent u = sent s @ [k]"
    "dlocks u = (dlocks s)[nat i := Some ?l]" "numBoxes u = numBoxes s"
    by (rule reply_up[OF up, of ?m "dec (dl_gid l)" ?p]) (use a gid assms(3,4) in auto)
  obtain t pkts l' where "hand_over i ?l u = Inr (True, t)" "dlocks t = (dlocks s)[nat i := Some l']"
    "abs_lock l' = fifo_release (abs_lock ?l)" "sent t = sent u @ pkts"
    "case dl_queue l of [] \<Rightarrow> pkts = []
      | r # _ \<Rightarrow> \<exists>k'. pkts = [k'] \<and> addressed (pk_to (ms_pkt r)) (mb_to (ms_mail r)) k' \<and> carries (ms_data r) k'"
    by (rule hand_over_up[OF u(4), of ?l s i]) (use assms(5) u(6,7) in \<open>auto simp: can_reply_def\<close>)
  moreover have "fifo_release (abs_lock ?l) = fifo_release (abs_lock l)"
    by (cases "dl_queue l") (auto simp: abs_lock_def)
  ultimately show ?thesis
    using g gid u
    by (intro exI[of _ t] exI[of _ k] exI[of _ pkts] exI[of _ l']) (auto simp: Release_srv_def Let_def)
qed

text \<open>
  C34: the distributed locks are queues in the order of the requests. On a network that is up,
  \<open>Acquire\<close> of a lock that is free gives it to the client and answers its user thread; of a busy lock
  it puts the client at the end of the queue and sends nothing. \<open>Release\<close> answers the client that
  calls it, whoever holds the lock, and gives the lock to the first of the queue, whose stored reply is
  sent. That reply goes to the mailbox \<open>c mod 100\<close> in which the client waits in the queue, while a
  client that did not have to wait is answered at \<open>c mod 100 + 1\<close>.
\<close>

theorem lock_service_fifo:
  assumes "network_up 2 s" and "serves s g i l" and "0 \<le> c" and "c mod 100 + 1 < numBoxes s" and "\<forall>r \<in> set (dl_queue l). can_reply s r"
  shows "(\<exists>t pkts l'. Acquire_srv J g p p' m m' c s = Inr (True, t) \<and> dlocks t = (dlocks s)[nat i := Some l']
      \<and> abs_lock l' = fifo_acquire (c div 100, c mod 100) (abs_lock l) \<and> sent t = sent s @ pkts
      \<and> (if dl_free l then \<exists>k. pkts = [k] \<and> addressed (c div 100) (c mod 100 + 1) k \<and> carries (dec (dl_gid l)) k
         else pkts = []))
    \<and> (\<exists>t k pkts l'. Release_srv J g p p' m m' c s = Inr (True, t) \<and> dlocks t = (dlocks s)[nat i := Some l']
      \<and> abs_lock l' = fifo_release (abs_lock l) \<and> sent t = sent s @ k # pkts
      \<and> addressed (c div 100) (c mod 100 + 1) k \<and> carries (dec (dl_gid l)) k
      \<and> (case dl_queue l of [] \<Rightarrow> pkts = []
         | r # _ \<Rightarrow> \<exists>k'. pkts = [k'] \<and> addressed (pk_to (ms_pkt r)) (mb_to (ms_mail r)) k' \<and> carries (ms_data r) k'))"
proof -
  have "network_up 1 s" using assms(1) network_up_less[of 1 s] by (simp add: numeral_2_eq_2)
  from Acquire_fifo[OF this assms(2-4)] Release_fifo[OF assms] show ?thesis
    by (simp add: client_addr_def)
qed

definition demo_lock :: dlock where
  "demo_lock = \<lparr>dl_name = ''l'', dl_free = False, dl_owner = (0, 0),
     dl_queue = [Message_new (fst (from_box 0 0)) (snd (from_box 0 0)) ''0''], dl_gid = 0\<rparr>"

lemma demo_network_up: "network_up 2 (demo_server info)"
  by (auto simp: network_up_def demo_server_def demo_thread_def server_start_def post.defs netthread.defs post_init_def
      strict_mono_def less_timeval_def)

theorem lock_service_fifo_witness:
  "\<exists>t k pkts l'. Release_srv demo_junk 0 (fst (from_box 0 0)) (fst (from_box 0 0)) (snd (from_box 0 0)) (snd (from_box 0 0)) 0
       (put_lock 0 demo_lock (demo_server alone)) = Inr (True, t) \<and> abs_lock l' = (Some (0, 0), []) \<and> sent t = k # pkts \<and> length pkts = 1"
proof -
  let ?s = "put_lock 0 demo_lock (demo_server alone)"
  have u: "uniqueGlobalID ?s = 0" "length (dlocks ?s) = 100" "sent ?s = []" "numBoxes ?s = 10"
    by (simp_all add: uniqueGlobalID_def put_lock_def demo_server_def demo_thread_def server_start_def post.defs netthread.defs post_init_def)
  have "serves ?s 0 0 demo_lock"
    using u by (simp add: serves_def demo_lock_def)
  moreover have "\<forall>r \<in> set (dl_queue demo_lock). can_reply ?s r"
    using u(4) by (simp add: demo_lock_def can_reply_def Message_new_def from_box_def)
  moreover have "network_up 2 ?s" using demo_network_up by simp
  ultimately obtain t k pkts l' where
    "Release_srv demo_junk 0 (fst (from_box 0 0)) (fst (from_box 0 0)) (snd (from_box 0 0)) (snd (from_box 0 0)) 0 ?s = Inr (True, t)"
    "abs_lock l' = fifo_release (abs_lock demo_lock)" "sent t = sent ?s @ k # pkts"
    "case dl_queue demo_lock of [] \<Rightarrow> pkts = []
       | r # _ \<Rightarrow> \<exists>k'. pkts = [k'] \<and> addressed (pk_to (ms_pkt r)) (mb_to (ms_mail r)) k' \<and> carries (ms_data r) k'"
    using lock_service_fifo[of ?s 0 0 demo_lock 0 demo_junk "fst (from_box 0 0)" "fst (from_box 0 0)" "snd (from_box 0 0)" "snd (from_box 0 0)"] u(4)
    by simp blast
  moreover have "fifo_release (abs_lock demo_lock) = (Some (0, 0), [])"
    by (simp add: abs_lock_def demo_lock_def Message_new_def from_box_def)
  ultimately show ?thesis
    using u(3) by (intro exI[of _ t] exI[of _ k] exI[of _ pkts] exI[of _ l']) (auto simp: demo_lock_def)
qed

section \<open>Monitor variables\<close>

lemma itoa_string_long:
  assumes "0 \<le> v" and "v < 10 ^ 9" and "sz \<le> length (dec v)"
  shows "itoa_string sz v = Inl Undefined_behaviour"
  using itoa_digits_dec[OF assms(1,2)] assms(3) by (simp add: itoa_string_def c_string_def)

lemma dec_long: "1000 \<le> v \<Longrightarrow> 4 \<le> length (dec v)"
  by (simp add: dec_def dec_nat_ge le_nat_iff Suc_le_eq dec_nat_nonempty)

text \<open>
  C36: a monitor variable is read back as it was set. On a network that is up, \<open>SetMV\<close> of a value from
  0 to 999 is answered, and a \<open>GetMV\<close> after it sends exactly that number in decimal to the sender of the
  request. From 1000 on the reply array of four characters has no room for the NUL, and \<open>GetMV\<close> reads
  or writes outside it.
\<close>

theorem mv_round_trip:
  assumes "network_up 2 s" and "g = uniqueGlobalID s * MAX_DMV + i" and "0 \<le> uniqueGlobalID s" and "uniqueGlobalID s < MAX_NUM_GLOBAL_IDS"
    and "0 \<le> i" and "i < MAX_DMV" and "nat i < length (mvs s)" and "mvs s ! nat i = Some v" and "0 \<le> mv_gid v" and "mv_gid v < 10 ^ 6"
    and "0 \<le> c" and "c mod 100 + 1 < numBoxes s" and "0 \<le> mb_from m2" and "mb_from m2 < numBoxes s" and "0 \<le> val"
  shows "(val \<le> 999 \<longrightarrow>
      (\<exists>t k u k'. SetMV_srv J g val p p1 m m1 c s = Inr (True, t) \<and> sent t = sent s @ [k] \<and> addressed (c div 100) (c mod 100 + 1) k
        \<and> GetMV_srv J g p p2 m m2 c t = Inr (True, u) \<and> sent u = sent t @ [k']
        \<and> addressed (pk_from p2) (mb_from m2) k' \<and> carries (dec val) k'))
    \<and> (1000 \<le> val \<and> val < 10 ^ 9 \<and> mv_value v = val \<longrightarrow> GetMV_srv J g p p2 m m2 c s = Inl Undefined_behaviour)"
proof (intro conjI impI)
  have g: "g sdiv MAX_DMV = uniqueGlobalID s" "g smod MAX_DMV = i" "\<not> (g < 0 \<or> g > MAX_NUM_GLOBAL_IDS * MAX_DMV - 1)"
    "aget (mvs s) i = Inr (Some v)"
    using assms(2-8) id_split[of "uniqueGlobalID s" i MAX_DMV] by (auto simp: aget_def)
  note a = client_addr_code[OF assms(11)]
  assume val: "val \<le> 999"
  let ?ack = "''SetMV['' @ dec (mv_gid v) @ ''] = '' @ dec val" and ?s = "put_mv i (v\<lparr>mv_value := val\<rparr>) s"
  let ?p = "p\<lparr>pk_to := c sdiv 100\<rparr>" and ?m = "m\<lparr>mb_to := (c + 100) smod 100 + 1, mb_from := netAddr s\<rparr>"
  have dv: "length (dec val) \<le> 3" using assms(15) val dec_nat_length[of "nat val" 3] by (simp add: dec_def)
  moreover have "length (dec (mv_gid v)) \<le> 6" using assms(9,10) dec_nat_length[of "nat (mv_gid v)" 6] by (simp add: dec_def)
  ultimately have len: "length ?ack \<le> 20" by simp
  have up: "network_up (Suc (Suc 0)) ?s" using assms(1) by (simp add: network_up_def put_mv_def numeral_2_eq_2)
  obtain k t where t: "reply_or_halt ?p ?m ?ack ?s = Inr (True, t)" "addressed (c div 100) (c mod 100 + 1) k" "network_up (Suc 0) t"
    "sent t = sent s @ [k]" "mvs t = (mvs s)[nat i := Some (v\<lparr>mv_value := val\<rparr>)]" "numBoxes t = numBoxes s" "netAddr t = netAddr s"
    "thisMail t = thisMail s"
    by (rule reply_up[OF up, of ?m ?ack ?p]) (use a len assms(11,12) in \<open>auto simp: put_mv_def\<close>)
  have set: "SetMV_srv J g val p p1 m m1 c s = Inr (True, t)"
    using g t(1) len by (simp add: SetMV_srv_def Let_def)
  let ?p' = "(client_pkt p c)\<lparr>pk_to := pk_from p2\<rparr>" and ?m' = "(client_mail m c t)\<lparr>mb_to := mb_from m2, mb_from := netAddr t\<rparr>"
  obtain k' u where u: "reply_or_halt ?p' ?m' (dec val) t = Inr (True, u)" "addressed (pk_from p2) (mb_from m2) k'"
    "carries (dec val) k'" "sent u = sent t @ [k']"
    by (rule reply_up[OF t(3), of ?m' "dec val" ?p']) (use t(6) dv assms(13,14) in auto)
  have "uniqueGlobalID t = uniqueGlobalID s" using t(7,8) by (simp add: uniqueGlobalID_def)
  moreover have "aget (mvs t) i = Inr (Some (v\<lparr>mv_value := val\<rparr>))" using t(5) assms(5,7) by (auto simp: aget_def)
  moreover have "itoa_string 4 val = Inr (dec val)" using assms(15) val dv by (intro itoa_string_dec) auto
  ultimately have "GetMV_srv J g p p2 m m2 c t = Inr (True, u)"
    using g u(1) by (simp add: GetMV_srv_def SendReply_def Let_def)
  then show "\<exists>t k u k'. SetMV_srv J g val p p1 m m1 c s = Inr (True, t) \<and> sent t = sent s @ [k] \<and> addressed (c div 100) (c mod 100 + 1) k
        \<and> GetMV_srv J g p p2 m m2 c t = Inr (True, u) \<and> sent u = sent t @ [k']
        \<and> addressed (pk_from p2) (mb_from m2) k' \<and> carries (dec val) k'"
    using set t u by blast
next
  assume val: "1000 \<le> val \<and> val < 10 ^ 9 \<and> mv_value v = val"
  have "itoa_string 4 val = Inl Undefined_behaviour" using val dec_long[of val] by (intro itoa_string_long) auto
  moreover have "g sdiv MAX_DMV = uniqueGlobalID s" "g smod MAX_DMV = i" "\<not> (g < 0 \<or> g > MAX_NUM_GLOBAL_IDS * MAX_DMV - 1)"
    "aget (mvs s) i = Inr (Some v)"
    using assms(2-8) id_split[of "uniqueGlobalID s" i MAX_DMV] by (auto simp: aget_def)
  ultimately show "GetMV_srv J g p p2 m m2 c s = Inl Undefined_behaviour"
    using val by (simp add: GetMV_srv_def)
qed

theorem mv_round_trip_witness:
  "\<exists>t u k k'. SetMV_srv demo_junk 0 42 (fst (from_box 0 0)) (fst (from_box 0 1)) (snd (from_box 0 0)) (snd (from_box 0 1)) 0
        (put_mv 0 \<lparr>mv_name = ''x'', mv_value = 7, mv_gid = 0\<rparr> (demo_server alone)) = Inr (True, t)
     \<and> GetMV_srv demo_junk 0 (fst (from_box 0 0)) (fst (from_box 0 1)) (snd (from_box 0 0)) (snd (from_box 0 1)) 0 t = Inr (True, u)
     \<and> sent u = [k, k'] \<and> carries (dec 42) k'"
proof -
  let ?s = "put_mv 0 \<lparr>mv_name = ''x'', mv_value = 7, mv_gid = 0\<rparr> (demo_server alone)"
  have u: "uniqueGlobalID ?s = 0" "length (mvs ?s) = 500" "sent ?s = []" "numBoxes ?s = 10" "mvs ?s ! 0 = Some \<lparr>mv_name = ''x'', mv_value = 7, mv_gid = 0\<rparr>"
    by (simp_all add: uniqueGlobalID_def put_mv_def demo_server_def demo_thread_def server_start_def post.defs netthread.defs post_init_def)
  have "network_up 2 ?s" using demo_network_up[of alone] by (simp add: network_up_def put_mv_def)
  from mv_round_trip[OF this, of 0 0 _ 0 "snd (from_box 0 1)" 42 demo_junk "fst (from_box 0 0)" "fst (from_box 0 1)" "snd (from_box 0 0)" "snd (from_box 0 1)" "fst (from_box 0 1)"] u
  show ?thesis by (auto simp: from_box_def)
qed

section \<open>Creating a lock in a group\<close>

text \<open>
  A lock that the user thread of this server has asked for, while the server waits for the others:
  the answers so far count 0, and the client's row of the buffer is empty from its third byte on.
\<close>

definition creating :: "int \<Rightarrow> 'a server_scheme \<Rightarrow> bool" where
  "creating c s \<longleftrightarrow> 0 \<le> c \<and> c < MAX_CLIENTS \<and> c = uniqueGlobalID s \<and> serverCount s = int (length (localNetThreadInfo s))
     \<and> localLockIndex s c = -1 \<and> verifyResponses s c = 0 \<and> Timeval 0 0 \<le> lockCreationTimeStamps s c
     \<and> verifyBuffer s (nat (row c 0 + 2)) = NUL \<and> verifyBuffer s (nat (row c 0 + 3)) = NUL"

lemma read_mem_step:
  "0 < n \<Longrightarrow> 0 \<le> pos \<Longrightarrow> pos < verify_size \<Longrightarrow> read_mem n us pos vb =
    (if vb (nat pos) = NUL \<or> us \<and> vb (nat pos) = CHR ''_'' then Inr []
     else bindE (read_mem (n - 1) us (pos + 1) vb) (\<lambda>t. Inr (vb (nat pos) # t)))"
  by (cases n) auto

lemma parse_mem_NUL:
  assumes "0 \<le> pos" and "pos < verify_size" and "vb (nat pos) = NUL"
  shows "parse_mem pos vb = Inr (0, pos + 1)"
proof -
  have "read_mem 32 True pos vb = Inr []" using assms by (simp add: read_mem_step)
  then show ?thesis by (simp add: parse_mem_def atoi_int_def atoi_def in_int_def)
qed

lemma parse_mem_0:
  assumes "0 \<le> pos" and "pos + 1 < verify_size" and "vb (nat pos) = CHR ''0''" and "vb (nat (pos + 1)) = NUL"
  shows "parse_mem pos vb = Inr (0, pos + 2)"
proof -
  have "read_mem 31 True (pos + 1) vb = Inr []" using assms by (simp add: read_mem_step)
  then have "read_mem 32 True pos vb = Inr ''0''" using assms read_mem_step[of 32 pos True vb] by simp
  then show ?thesis using atoi_dec[of 0] by (simp add: parse_mem_def atoi_int_def in_int_def dec_0)
qed

lemma client_field:
  assumes "0 \<le> c" and "c < MAX_CLIENTS"
  shows "next_field 5 (dec c @ CHR ''_'' # rest) = Inr (dec c, rest)" and "atoi_int (dec c) = Inr c"
proof -
  have "length (dec c) \<le> 3" using assms dec_nat_length[of "nat c" 3] by (simp add: dec_def)
  then show "next_field 5 (dec c @ CHR ''_'' # rest) = Inr (dec c, rest)"
    using takeWhile_field[OF dec_no_underscore, of c rest] by (simp add: next_field_def)
  show "atoi_int (dec c) = Inr c" using assms by (simp add: atoi_int_def atoi_dec in_int_def)
qed

lemma no_answer_ignored:
  assumes "creating c s"
  shows "\<exists>vb. handle_CREATELOCKANSWER J p m (dec c @ CHR ''_'' # dec NO) s = Inr (Break False (j_pkt J) (j_mail J) (s\<lparr>verifyBuffer := vb\<rparr>))
    \<and> creating c (s\<lparr>verifyBuffer := vb\<rparr>)"
proof -
  let ?r = "row c 0"
  let ?vb = "(verifyBuffer s)(nat ?r := CHR ''0'', nat (?r + 1) := NUL)"
  have c: "0 \<le> c" "c < MAX_CLIENTS" and u: "uniqueGlobalID s = c" and v: "verifyResponses s c = 0" "localLockIndex s c = -1"
    and t: "Timeval 0 0 \<le> lockCreationTimeStamps s c"
    and vb: "verifyBuffer s (nat (?r + 2)) = NUL" "verifyBuffer s (nat (?r + 3)) = NUL"
    using assms unfolding creating_def by blast+
  have r: "0 \<le> ?r" "?r + 3 < verify_size" using c by (simp_all add: row_def)
  have ne: "nat (?r + 2) \<noteq> nat ?r" "nat (?r + 2) \<noteq> nat (?r + 1)" "nat (?r + 3) \<noteq> nat ?r" "nat (?r + 3) \<noteq> nat (?r + 1)" "nat ?r \<noteq> nat (?r + 1)"
    using r by simp_all
  have store: "store_answer c 0 0 ''0'' s = Inr (s\<lparr>verifyBuffer := ?vb\<rparr>)"
    using r by (simp add: store_answer_def)
  have p1: "parse_mem ?r ?vb = Inr (0, ?r + 2)" using r ne by (intro parse_mem_0) auto
  have p2: "parse_mem (?r + 2) ?vb = Inr (0, ?r + 2 + 1)" using r ne vb by (intro parse_mem_NUL) auto
  have "parse_mem (?r + 3) ?vb = Inr (0, ?r + 3 + 1)" using r ne vb by (intro parse_mem_NUL) auto
  moreover have "?r + 3 = 3 + ?r" "?r + 3 + 1 = 4 + ?r" by simp_all
  ultimately have p3: "parse_mem (3 + ?r) ?vb = Inr (0, 4 + ?r)" by (simp only:)
  have "\<not> lockCreationTimeStamps s c < Timeval 0 0" using t by (simp add: not_less)
  then have no: "lock_answer_no J c (?r + 2) (s\<lparr>verifyBuffer := ?vb\<rparr>) = Inr (Break False (j_pkt J) (j_mail J) (s\<lparr>verifyBuffer := ?vb\<rparr>))"
    using p2 p3 by (simp add: lock_answer_no_def)
  have "handle_CREATELOCKANSWER J p m (dec c @ CHR ''_'' # dec NO) s = Inr (Break False (j_pkt J) (j_mail J) (s\<lparr>verifyBuffer := ?vb\<rparr>))"
    using client_field(1)[OF c, of "dec NO"] client_field(2)[OF c] u v store p1 no c
    by (simp add: handle_CREATELOCKANSWER_def dec_0 client_ok_def uniqueGlobalID_def)
  moreover have "creating c (s\<lparr>verifyBuffer := ?vb\<rparr>)"
    using assms ne vb unfolding creating_def by (auto simp: uniqueGlobalID_def)
  ultimately show ?thesis by blast
qed

text \<open>Sending the question to the others changes nothing of the server but its post office.\<close>

lemma verify_loop_more:
  "verify_loop n r info s = Inr t \<Longrightarrow> post.more t = post.more s \<and> netAddr t = netAddr s \<and> thisMail t = thisMail s"
proof (induction n arbitrary: info s)
  case (Suc n)
  then obtain e es where info: "info = e # es" by (cases info) auto
  have "post.more u = post.more s \<and> netAddr u = netAddr s \<and> thisMail u = thisMail s"
    if "post_send p m r s = Inr (True, u)" for p m u
    using that Send_effect[of p "m\<lparr>mb_length := length r + 1\<rparr>" "clock s (reads s)" r True "s\<lparr>reads := reads s + 1\<rparr>" True u]
    by (simp add: post_send_def Send_now_def gettimeofday_def)
  then show ?case using Suc info by (auto simp: bindE_eq_Inr split: if_splits)
qed simp

lemma server_more:
  assumes "post.more t = post.more (s :: 'a server_scheme)"
  shows "localNetThreadInfo t = localNetThreadInfo s" and "serverCount t = serverCount s" and "dlocks t = dlocks s"
    and "verifyBuffer t = verifyBuffer s" and "verifyResponses t = verifyResponses s" and "localLockIndex t = localLockIndex s"
    and "lockCreationTimeStamps t = lockCreationTimeStamps s" and "lockCreationStates t = lockCreationStates s"
    and "createDLockIndex t = createDLockIndex s"
  using assms by (cases s; cases t; simp)+

lemma CREATELOCK_asks:
  assumes "handle_CREATELOCK J p m nm s = Inr h" and "sender_client p m = c" and "c = uniqueGlobalID s" and "serverCount s > 1"
    and "serverCount s = int (length (localNetThreadInfo s))" and "0 \<le> createDLockIndex s" and "createDLockIndex s < MAX_DLOCK - 1"
    and "search_table False nm dl_name (dlocks s) (createDLockIndex s) = Inr (-1)" and "Timeval 0 0 \<le> clock s (reads s)"
    and "verifyBuffer s (nat (row c 0 + 2)) = NUL" and "verifyBuffer s (nat (row c 0 + 3)) = NUL"
  shows "creating c (handled_state h) \<and> dlocks (handled_state h) = dlocks s \<and> lockCreationStates (handled_state h) c = MAYBE"
proof -
  let ?s = "s\<lparr>lockName := (lockName s)(c := nm), localLockIndex := (localLockIndex s)(c := -1), reads := reads s + 1,
    lockCreationTimeStamps := (lockCreationTimeStamps s)(c := clock s (reads s)), verifyResponses := (verifyResponses s)(c := 0),
    lockCreationStates := (lockCreationStates s)(c := MAYBE)\<rparr>"
  obtain req t where c: "client_ok c = Inr ()" and "verify_loop (nat (serverCount s)) req (localNetThreadInfo s) ?s = Inr t"
    and h: "h = Break False (j_pkt J) (j_mail J) (t\<lparr>verifyResponses := (verifyResponses t)(c := 0)\<rparr>)"
    using assms(1-8)
    by (auto simp: handle_CREATELOCK_def Let_def bindE_eq_Inr store_name_def client_ok_def gettimeofday_def CreateVerify_def split: if_splits)
  from verify_loop_more[OF this(2)] have m: "post.more t = post.more ?s" "netAddr t = netAddr s" "thisMail t = thisMail s"
    by simp_all
  show ?thesis
    using server_more[OF m(1)] m(2,3) c assms(3,5,9-11) unfolding h
    by (auto simp: creating_def client_ok_def uniqueGlobalID_def split: if_splits)
qed

text \<open>The other servers answer that they do not have the lock, as their handler prints it.\<close>

fun all_answer_no :: "junk \<Rightarrow> int \<Rightarrow> (PacketHeader \<times> MailHeader \<times> timeval) list \<Rightarrow> 'a server_scheme \<Rightarrow> 'a server_scheme result" where
  "all_answer_no J c [] s = Inr s"
| "all_answer_no J c ((p, m, ts) # xs) s =
     bindE (processMessage J p m ts (ask_text CREATELOCKANSWER c [NO]) s) (\<lambda>(_, t). all_answer_no J c xs t)"

lemma no_answer_step:
  assumes "creating c s"
  shows "\<exists>t. processMessage J p m ts (ask_text CREATELOCKANSWER c [NO]) s = Inr (False, t) \<and> creating c t
    \<and> dlocks t = dlocks s \<and> sent t = sent s \<and> lockCreationStates t = lockCreationStates s"
proof -
  obtain vb where vb: "handle_CREATELOCKANSWER J p m (dec c @ CHR ''_'' # dec NO) s = Inr (Break False (j_pkt J) (j_mail J) (s\<lparr>verifyBuffer := vb\<rparr>))"
    "creating c (s\<lparr>verifyBuffer := vb\<rparr>)"
    using no_answer_ignored[OF assms] by blast
  have "request_type 16 = Some CREATELOCKANSWER" by (simp add: request_type_def)
  then have "processMessage J p m ts (ask_text CREATELOCKANSWER c [NO]) s
      = Inr (False, set_errors (j_pkt J) p (j_mail J) m (s\<lparr>verifyBuffer := vb\<rparr>))"
    using vb(1) assms parseValue_field[of 16 "[]" "dec c @ CHR ''_'' # dec NO"]
    by (simp add: processMessage_def ask_text_def handle_def creating_def)
  moreover have "creating c (set_errors (j_pkt J) p (j_mail J) m (s\<lparr>verifyBuffer := vb\<rparr>))"
    using vb(2) unfolding creating_def by (auto simp: set_errors_def uniqueGlobalID_def)
  ultimately show ?thesis by (auto simp: set_errors_def)
qed

lemma no_answers:
  assumes "creating c s"
  shows "\<exists>t. all_answer_no J c xs s = Inr t \<and> dlocks t = dlocks s \<and> sent t = sent s \<and> lockCreationStates t = lockCreationStates s"
  using assms
proof (induction xs arbitrary: s)
  case (Cons x xs)
  obtain p m ts where x: "x = (p, m, ts)" by (cases x)
  from no_answer_step[OF Cons.prems, of J p m ts] obtain t where
    t: "processMessage J p m ts (ask_text CREATELOCKANSWER c [NO]) s = Inr (False, t)" "creating c t"
    "dlocks t = dlocks s" "sent t = sent s" "lockCreationStates t = lockCreationStates s" by blast
  then show ?case using Cons.IH[OF t(2)] x by auto
qed simp

text \<open>
  C39: in a group of servers no lock is ever created on the word of the others. When the user thread
  of a server asks for a lock with a new name, the server asks the group; and however many times
  the others answer that they do not have it, each answer is processed without an error, nothing is
  sent, no lock appears, the creation stays undecided and the user thread waits for ever. An answer \<open>NO\<close>
  carries no time, the handler reads the zeros behind it as a time stamp, and does not count it.
\<close>

theorem lock_creation_stalls:
  assumes "handle_CREATELOCK J p m nm s = Inr h" and "sender_client p m = c" and "c = uniqueGlobalID s" and "serverCount s > 1"
    and "serverCount s = int (length (localNetThreadInfo s))" and "0 \<le> createDLockIndex s" and "createDLockIndex s < MAX_DLOCK - 1"
    and "search_table False nm dl_name (dlocks s) (createDLockIndex s) = Inr (-1)" and "Timeval 0 0 \<le> clock s (reads s)"
    and "verifyBuffer s (nat (row c 0 + 2)) = NUL" and "verifyBuffer s (nat (row c 0 + 3)) = NUL"
  shows "\<exists>t. all_answer_no J c answers (handled_state h) = Inr t
    \<and> dlocks t = dlocks s \<and> sent t = sent (handled_state h) \<and> lockCreationStates t c = MAYBE"
  using CREATELOCK_asks[OF assms] no_answers[of c "handled_state h" J answers] by auto

definition two_servers :: "NetThreadInfoEntry list" where
  "two_servers = [NetThreadInfoEntry_new (Timeval 1 0) 0 0, NetThreadInfoEntry_new (Timeval 1 0) 1 0]"

theorem lock_creation_stalls_witness:
  "\<exists>h t. handle_CREATELOCK demo_junk (fst (from_box 0 1)) (snd (from_box 0 1)) ''l'' (demo_server two_servers) = Inr h
    \<and> all_answer_no demo_junk 0 [(fst (from_box 1 0), snd (from_box 1 0), Timeval 5 0)] (handled_state h) = Inr t
    \<and> dlocks t = replicate 100 None \<and> sent t = sent (handled_state h)"
proof -
  have "\<not> isl (handle_CREATELOCK demo_junk (fst (from_box 0 1)) (snd (from_box 0 1)) ''l'' (demo_server two_servers))" by code_simp
  then obtain h where h: "handle_CREATELOCK demo_junk (fst (from_box 0 1)) (snd (from_box 0 1)) ''l'' (demo_server two_servers) = Inr h"
    by (metis isl_def sum.exhaust)
  have "sender_client (fst (from_box 0 1)) (snd (from_box 0 1)) = 0" "0 = uniqueGlobalID (demo_server two_servers)"
    "serverCount (demo_server two_servers) > 1" "serverCount (demo_server two_servers) = int (length (localNetThreadInfo (demo_server two_servers)))"
    "0 \<le> createDLockIndex (demo_server two_servers)" "createDLockIndex (demo_server two_servers) < MAX_DLOCK - 1"
    "search_table False ''l'' dl_name (dlocks (demo_server two_servers)) (createDLockIndex (demo_server two_servers)) = Inr (-1)"
    "Timeval 0 0 \<le> clock (demo_server two_servers) (reads (demo_server two_servers))"
    "verifyBuffer (demo_server two_servers) (nat (row 0 0 + 2)) = NUL" "verifyBuffer (demo_server two_servers) (nat (row 0 0 + 3)) = NUL"
    by (simp_all add: sender_client_def from_box_def demo_server_def demo_thread_def server_start_def post.defs netthread.defs post_init_def
        uniqueGlobalID_def two_servers_def search_table_def less_eq_timeval_def)
  from lock_creation_stalls[OF h this, of "[(fst (from_box 1 0), snd (from_box 1 0), Timeval 5 0)]"] h show ?thesis
    by (auto simp: demo_server_def server_start_def netthread.defs)
qed

section \<open>Signals\<close>

text \<open>
  a signalled client's lock goes to another client. The reply that \<open>Wait\<close> queues for client \<open>c\<close>
  is addressed to machine \<open>c div 100\<close>, mailbox \<open>c mod 100\<close>; \<open>Signal\<close> turns it into an \<open>ACQUIRE\<close> of the
  thread with that mailbox, whose client number is \<open>c - 1\<close>, and so a free lock is then held by client
  \<open>c - 1\<close>, to whose user thread the answer goes.
\<close>

theorem signal_wakes_wrong_client:
  assumes "network_up 1 s" and "serves s g i l" and "dl_free l" and "1 \<le> c" and "(c - 1) mod 100 + 1 < numBoxes s"
    and "r = Message_new (client_pkt q c) ((client_mail n c s0)\<lparr>mb_length := k\<rparr>) ack"
  shows "\<exists>t l' pkt. reacquire J g r p m s = Inr t \<and> dlocks t = (dlocks s)[nat i := Some l']
    \<and> abs_lock l' = (Some ((c - 1) div 100, (c - 1) mod 100), map (\<lambda>r. (pk_to (ms_pkt r), mb_to (ms_mail r))) (dl_queue l))
    \<and> sent t = sent s @ [pkt] \<and> addressed ((c - 1) div 100) ((c - 1) mod 100 + 1) pkt \<and> carries (dec (dl_gid l)) pkt"
proof -
  let ?p = "(ms_pkt r)\<lparr>pk_from := pk_to (ms_pkt r)\<rparr>" and ?m = "(ms_mail r)\<lparr>mb_from := mb_to (ms_mail r)\<rparr>"
  have c: "0 \<le> c" "0 \<le> c - 1" using assms(4) by simp_all
  have "100 * pk_from ?p + mb_from ?m - 1 = c - 1"
    using client_addr_code[OF c(1)] unfolding assms(6) by (simp add: Message_new_def client_pkt_def client_mail_def)
  then have "Acquire_srv J g p ?p m ?m (-2) s = Acquire_srv J g p ?p m ?m (c - 1) s"
    using assms(4) by (simp add: Acquire_srv_def)
  moreover obtain t l' pkt where "Acquire_srv J g p ?p m ?m (c - 1) s = Inr (True, t)" "dlocks t = (dlocks s)[nat i := Some l']"
    "abs_lock l' = fifo_acquire (client_addr (c - 1)) (abs_lock l)" "sent t = sent s @ [pkt]"
    "addressed ((c - 1) div 100) ((c - 1) mod 100 + 1) pkt" "carries (dec (dl_gid l)) pkt"
    using Acquire_fifo[OF assms(1,2) c(2) assms(5), of J p ?p m ?m] assms(3) by auto
  moreover have "fifo_acquire (client_addr (c - 1)) (abs_lock l)
      = (Some ((c - 1) div 100, (c - 1) mod 100), map (\<lambda>r. (pk_to (ms_pkt r), mb_to (ms_mail r))) (dl_queue l))"
    using assms(3) by (simp add: abs_lock_def client_addr_def)
  ultimately show ?thesis
    by (intro exI[of _ t] exI[of _ l'] exI[of _ pkt]) (simp add: reacquire_def halt_unless_sent_def)
qed

definition free_lock :: dlock where
  "free_lock = (DistributedLock_new ''l'')\<lparr>dl_gid := 0\<rparr>"

theorem signal_wakes_wrong_client_witness:
  "\<exists>t l' pkt. reacquire demo_junk 0 (Message_new (client_pkt (fst (from_box 0 0)) 3)
        ((client_mail (snd (from_box 0 0)) 3 (demo_server alone))\<lparr>mb_length := 2\<rparr>) ''0'')
        (fst (from_box 0 0)) (snd (from_box 0 0)) (put_lock 0 free_lock (demo_server alone)) = Inr t
      \<and> abs_lock l' = (Some (0, 2), []) \<and> addressed 0 3 pkt \<and> sent t = [pkt]"
proof -
  let ?s = "put_lock 0 free_lock (demo_server alone)"
  have u: "uniqueGlobalID ?s = 0" "length (dlocks ?s) = 100" "sent ?s = []" "numBoxes ?s = 10"
    by (simp_all add: uniqueGlobalID_def put_lock_def demo_server_def demo_thread_def server_start_def post.defs netthread.defs post_init_def)
  have "serves ?s 0 0 free_lock"
    using u by (simp add: serves_def free_lock_def)
  moreover have "network_up 1 ?s" using network_up_less[of 1 ?s] demo_network_up[of alone] by (simp add: numeral_2_eq_2)
  moreover have "dl_free free_lock" "dl_queue free_lock = []" by (simp_all add: free_lock_def DistributedLock_new_def)
  ultimately show ?thesis
    using signal_wakes_wrong_client[where s = ?s and g = 0 and i = 0 and l = free_lock and c = 3 and q = "fst (from_box 0 0)"
        and n = "snd (from_box 0 0)" and ?s0.0 = "demo_server alone" and k = 2 and ack = "''0''" and J = demo_junk
        and p = "fst (from_box 0 0)" and m = "snd (from_box 0 0)", OF _ _ _ _ _ refl] u by auto
qed

end
