(* ===== verification/Disk.thy ===== *)
theory Disk
  imports Prelude
begin

text \<open>
  \<open>machine/disk.cc\<close> and \<open>filesys/synchdisk.cc\<close>: the simulated disk, a UNIX file behind a magic
  number, with the time a request takes; and the synchronous disk, which starts a request and
  waits for its interrupt. Offsets, sectors and times are the source's \<open>int\<close>s; the simulated time
  \<open>stats->totalTicks\<close>, 64 bits wide, does not wrap in the model, and is cut to 32 bits where the
  source stores it in an \<open>int\<close>; the difference of two such \<open>int\<close>s wraps around, as it does in
  the compiled code.

  The file system has one thread at a time (\<open>filesys.cc\<close> says so), so a request is followed by
  the interrupt that ends it: \<open>ReadSector\<close> and \<open>WriteSector\<close> are functions. A thread that would
  wait for ever diverges. \<open>sector_device\<close> states what the layers above rely on.
\<close>

section \<open>State\<close>

abbreviation (input) SectorSize :: nat where "SectorSize \<equiv> 128"
abbreviation (input) SectorsPerTrack :: nat where "SectorsPerTrack \<equiv> 32"
abbreviation (input) NumSectors :: nat where "NumSectors \<equiv> 1024"
abbreviation (input) MagicSize :: nat where "MagicSize \<equiv> 4"
abbreviation (input) DiskSize :: nat where "DiskSize \<equiv> 131076"
abbreviation (input) RotationTime :: int where "RotationTime \<equiv> 500"
abbreviation (input) SeekTime :: int where "SeekTime \<equiv> 500"

record disk =
  unix_file :: "u8 list"
  d_active :: bool
  lastSector :: int
  bufferInit :: int
  d_now :: int                  \<comment> \<open>\<open>stats->totalTicks\<close>\<close>
  d_due :: "int option"         \<comment> \<open>when the pending disk interrupt occurs\<close>
  numDiskReads :: nat
  numDiskWrites :: nat

text \<open>\<open>MagicNumber\<close> as the bytes of a little-endian \<open>int\<close>\<close>

definition magic_bytes :: "u8 list" where
  "magic_bytes = [0xab, 0x89, 0x67, 0x45]"

text \<open>The constructor: \<open>contents\<close> is the UNIX file, if there is one of that name.\<close>

definition Disk_new :: "u8 list option \<Rightarrow> int \<Rightarrow> disk result" where
  "Disk_new contents now =
     (let d = (\<lambda>f. \<lparr>unix_file = f, d_active = False, lastSector = 0, bufferInit = 0, d_now = now,
                     d_due = None, numDiskReads = 0, numDiskWrites = 0\<rparr>) in
      case contents of
        Some f \<Rightarrow> bindE (unix_read 0 MagicSize f) (\<lambda>m. bindE (assertE (m = magic_bytes)) (\<lambda>_. Inr (d f)))
      | None \<Rightarrow> Inr (d (unix_write (DiskSize - 4) [0, 0, 0, 0] (unix_write 0 magic_bytes []))))"

section \<open>Latency\<close>

definition TimeToSeek :: "'a disk_scheme \<Rightarrow> int \<Rightarrow> int \<times> int" where
  "TimeToSeek d newSector =
     (let newTrack = newSector sdiv int SectorsPerTrack;
          oldTrack = lastSector d sdiv int SectorsPerTrack;
          seek = to_int32 (\<bar>newTrack - oldTrack\<bar> * SeekTime);
          over = (d_now d + seek) smod RotationTime
      in (seek, if over > 0 then RotationTime - over else 0))"

definition ModuloDiff :: "int \<Rightarrow> int \<Rightarrow> int" where
  "ModuloDiff t f =
     ((t smod int SectorsPerTrack - f smod int SectorsPerTrack) + int SectorsPerTrack) smod int SectorsPerTrack"

definition ComputeLatency :: "'a disk_scheme \<Rightarrow> int \<Rightarrow> bool \<Rightarrow> int" where
  "ComputeLatency d newSector writing =
     (case TimeToSeek d newSector of (seek, rotation) \<Rightarrow>
      let timeAfter = to_int32 (d_now d + seek + rotation);
          full = seek + (rotation + ModuloDiff newSector (timeAfter sdiv RotationTime) * RotationTime) + RotationTime
      in if \<not> writing \<and> seek = 0 then
           if to_int32 (timeAfter - bufferInit d) sdiv RotationTime
                > ModuloDiff newSector (bufferInit d sdiv RotationTime)
           then RotationTime
           else full
         else full)"

definition UpdateLast :: "int \<Rightarrow> 'a disk_scheme \<Rightarrow> 'a disk_scheme" where
  "UpdateLast newSector d =
     (case TimeToSeek d newSector of (seek, rot) \<Rightarrow>
      (if seek \<noteq> 0 then d\<lparr>bufferInit := to_int32 (d_now d + seek + rot)\<rparr> else d)\<lparr>lastSector := newSector\<rparr>)"

section \<open>Requests\<close>

definition valid_sector :: "int \<Rightarrow> bool" where
  "valid_sector s \<longleftrightarrow> s \<ge> 0 \<and> s < int NumSectors"

definition sector_offset :: "int \<Rightarrow> nat" where
  "sector_offset s = SectorSize * nat s + MagicSize"

text \<open>\<open>interrupt->Schedule(DiskDone, this, ticks, DiskInt)\<close>\<close>

definition schedule_done :: "int \<Rightarrow> 'a disk_scheme \<Rightarrow> 'a disk_scheme result" where
  "schedule_done ticks d = bindE (assertE (ticks > 0)) (\<lambda>_. Inr (d\<lparr>d_due := Some (d_now d + ticks)\<rparr>))"

definition ReadRequest :: "'a disk_scheme \<Rightarrow> int \<Rightarrow> (u8 list \<times> 'a disk_scheme) result" where
  "ReadRequest d s =
     (let ticks = ComputeLatency d s False in
     bindE (assertE (\<not> d_active d)) (\<lambda>_.
     bindE (assertE (valid_sector s)) (\<lambda>_.
     bindE (unix_read (sector_offset s) SectorSize (unix_file d)) (\<lambda>bs.
     let d1 = UpdateLast s (d\<lparr>d_active := True\<rparr>);
         d2 = d1\<lparr>numDiskReads := numDiskReads d1 + 1\<rparr> in
     bindE (schedule_done ticks d2) (\<lambda>d3. Inr (bs, d3))))))"

definition WriteRequest :: "'a disk_scheme \<Rightarrow> int \<Rightarrow> u8 list \<Rightarrow> 'a disk_scheme result" where
  "WriteRequest d s bs =
     (let ticks = ComputeLatency d s True in
     bindE (assertE (\<not> d_active d)) (\<lambda>_.
     bindE (assertE (valid_sector s)) (\<lambda>_.
     let d0 = d\<lparr>unix_file := unix_write (sector_offset s) (take SectorSize bs) (unix_file d), d_active := True\<rparr>;
         d1 = UpdateLast s d0;
         d2 = d1\<lparr>numDiskWrites := numDiskWrites d1 + 1\<rparr> in
     schedule_done ticks d2)))"

section \<open>The synchronous disk\<close>

record synchdisk = disk +
  sd_semaphore :: int
  sd_locked :: bool

definition SynchDisk_new :: "disk \<Rightarrow> synchdisk" where
  "SynchDisk_new d = disk.extend d \<lparr>sd_semaphore = 0, sd_locked = False\<rparr>"

definition RequestDone :: "synchdisk \<Rightarrow> synchdisk" where
  "RequestDone d = d\<lparr>sd_semaphore := sd_semaphore d + 1\<rparr>"

definition HandleInterrupt :: "synchdisk \<Rightarrow> synchdisk" where
  "HandleInterrupt d = RequestDone (d\<lparr>d_active := False\<rparr>)"

text \<open>The interrupt comes when it is due.\<close>

definition disk_interrupt :: "synchdisk \<Rightarrow> synchdisk option" where
  "disk_interrupt d =
     (case d_due d of
        None \<Rightarrow> None
      | Some t \<Rightarrow> Some (HandleInterrupt (d\<lparr>d_due := None, d_now := max (d_now d) t\<rparr>)))"

text \<open>\<open>semaphore->P()\<close> of the only thread: it sleeps until the interrupt has done its \<open>V\<close>.\<close>

definition wait_done :: "synchdisk \<Rightarrow> synchdisk result" where
  "wait_done d =
     (if sd_semaphore d > 0 then Inr (d\<lparr>sd_semaphore := sd_semaphore d - 1\<rparr>)
      else case disk_interrupt d of
             None \<Rightarrow> Inl Diverges
           | Some d1 \<Rightarrow> Inr (d1\<lparr>sd_semaphore := sd_semaphore d1 - 1\<rparr>))"

definition sd_acquire :: "synchdisk \<Rightarrow> synchdisk result" where
  "sd_acquire d = (if sd_locked d then Inl Diverges else Inr (d\<lparr>sd_locked := True\<rparr>))"

definition ReadSector :: "synchdisk \<Rightarrow> int \<Rightarrow> (u8 list \<times> synchdisk) result" where
  "ReadSector d s =
     bindE (sd_acquire d) (\<lambda>d1.
     bindE (ReadRequest d1 s) (\<lambda>(bs, d2).
     bindE (wait_done d2) (\<lambda>d3.
     Inr (bs, d3\<lparr>sd_locked := False\<rparr>))))"

definition WriteSector :: "synchdisk \<Rightarrow> int \<Rightarrow> u8 list \<Rightarrow> synchdisk result" where
  "WriteSector d s bs =
     bindE (sd_acquire d) (\<lambda>d1.
     bindE (WriteRequest d1 s bs) (\<lambda>d2.
     bindE (wait_done d2) (\<lambda>d3.
     Inr (d3\<lparr>sd_locked := False\<rparr>))))"

section \<open>Sectors\<close>

definition sector :: "'a disk_scheme \<Rightarrow> nat \<Rightarrow> u8 list" where
  "sector d s = take SectorSize (drop (SectorSize * s + MagicSize) (unix_file d))"

definition synchdisk_ok :: "synchdisk \<Rightarrow> bool" where
  "synchdisk_ok d \<longleftrightarrow> length (unix_file d) = DiskSize \<and> \<not> d_active d \<and> valid_sector (lastSector d)
     \<and> d_due d = None \<and> sd_semaphore d = 0 \<and> \<not> sd_locked d"

lemma sector_fits: "s < NumSectors \<Longrightarrow> SectorSize * s + MagicSize + SectorSize \<le> DiskSize"
  by simp

lemma length_sector: "length (unix_file d) = DiskSize \<Longrightarrow> s < NumSectors \<Longrightarrow> length (sector d s) = SectorSize"
  by (simp add: sector_def)

lemma sector_write:
  assumes f: "length (unix_file d) = DiskSize" and s: "s < NumSectors" and r: "r < NumSectors"
    and b: "length bs = SectorSize"
  shows "sector (d\<lparr>unix_file := unix_write (sector_offset (int s)) bs (unix_file d)\<rparr>) r =
    (if r = s then bs else sector d r)"
proof -
  let ?o = "SectorSize * s + MagicSize"
  have w: "unix_write (sector_offset (int s)) bs (unix_file d) =
    take ?o (unix_file d) @ bs @ drop (?o + SectorSize) (unix_file d)"
    using f s b by (simp add: unix_write_inside sector_offset_def)
  have l: "length (take ?o (unix_file d)) = ?o" using f s by simp
  consider "r = s" | "r < s" | "s < r" by linarith
  then show ?thesis
  proof cases
    case 1
    then show ?thesis using l b by (simp add: sector_def w)
  next
    case 2
    have "SectorSize * r + MagicSize + SectorSize \<le> ?o" using 2 by simp
    then show ?thesis using 2 l by (simp add: sector_def w take_drop_append take_drop_take)
  next
    case 3
    then have "?o + SectorSize \<le> SectorSize * r + MagicSize" by simp
    then show ?thesis using 3 l b by (simp add: sector_def w add.commute)
  qed
qed

subsection \<open>Requests of a disk in order\<close>

lemma ModuloDiff_nonneg: "0 \<le> t \<Longrightarrow> 0 \<le> ModuloDiff t f"
proof -
  assume t: "0 \<le> t"
  have "f smod 32 < 32"
    using smod_int_compares(1)[of f 32] smod_int_compares(4)[of f 32] by linarith
  moreover have "0 \<le> t smod 32" using t by (simp add: smod_nonneg)
  ultimately have "0 \<le> t smod 32 - f smod 32 + 32" by linarith
  then show ?thesis by (simp add: ModuloDiff_def smod_nonneg)
qed

lemma round_up_mod: "(a + (k - a mod k)) mod k = (0::int)"
proof -
  have "a + (k - a mod k) = k * (a div k + 1)"
    using minus_mod_eq_mult_div[of a k] by (simp add: algebra_simps)
  then show ?thesis by (metis mod_mult_self1_is_0)
qed

lemma TimeToSeek_valid:
  assumes "valid_sector s" and "valid_sector (lastSector d)"
  obtains rot where "TimeToSeek d s = (\<bar>s div 32 - lastSector d div 32\<bar> * SeekTime, rot)"
    and "\<bar>s div 32 - lastSector d div 32\<bar> \<le> 31" and "0 \<le> rot"
    and "0 \<le> d_now d \<Longrightarrow> rot < RotationTime \<and> (d_now d + \<bar>s div 32 - lastSector d div 32\<bar> * SeekTime + rot) mod RotationTime = 0"
proof -
  let ?t = "\<bar>s div 32 - lastSector d div 32\<bar>"
  have b: "0 \<le> s div 32" "s div 32 < 32" "0 \<le> lastSector d div 32" "lastSector d div 32 < 32"
    using assms unfolding valid_sector_def by presburger+
  then have t: "?t \<le> 31" by linarith
  have "in_int (n * SeekTime)" if "0 \<le> n" "n \<le> 31" for n :: int
    using that by (simp add: in_int_def)
  then have "in_int (?t * SeekTime)" using t by (metis abs_ge_zero)
  then have eq: "TimeToSeek d s = (?t * SeekTime,
      let over = (d_now d + ?t * SeekTime) smod 500 in if over > 0 then 500 - over else 0)"
    using assms by (simp add: TimeToSeek_def valid_sector_def sdiv_nonneg Let_def)
  have now: "\<exists>over. (d_now d + ?t * SeekTime) smod 500 = over \<and> over < 500 \<and>
      (0 \<le> d_now d \<longrightarrow> over = (d_now d + ?t * SeekTime) mod 500 \<and> 0 \<le> over)"
    using smod_int_compares(1)[of "d_now d + ?t * SeekTime" 500] smod_int_compares(4)[of "d_now d + ?t * SeekTime" 500]
      smod_nonneg[of "d_now d + ?t * SeekTime" 500] by (cases "0 \<le> d_now d + ?t * SeekTime") auto
  then obtain over where o: "(d_now d + ?t * SeekTime) smod 500 = over" "over < 500"
    "0 \<le> d_now d \<Longrightarrow> over = (d_now d + ?t * SeekTime) mod 500 \<and> 0 \<le> over" by blast
  let ?rot = "if over > 0 then 500 - over else (0::int)"
  have "?rot < RotationTime \<and> (d_now d + ?t * SeekTime + ?rot) mod RotationTime = 0" if "0 \<le> d_now d"
    using o(2) o(3)[OF that] round_up_mod[of "d_now d + ?t * SeekTime" 500] by auto
  then show ?thesis
    using that[of ?rot] eq t o by (simp add: Let_def)
qed

lemma ComputeLatency_pos:
  assumes "valid_sector s" and "valid_sector (lastSector d)"
  shows "0 < ComputeLatency d s w"
proof -
  obtain rot where r: "TimeToSeek d s = (\<bar>s div 32 - lastSector d div 32\<bar> * SeekTime, rot)" "0 \<le> rot"
    using TimeToSeek_valid[OF assms] by metis
  have "0 \<le> ModuloDiff s f" for f using assms(1) by (simp add: ModuloDiff_nonneg valid_sector_def)
  then have "0 < \<bar>s div 32 - lastSector d div 32\<bar> * SeekTime + (rot + ModuloDiff s f * RotationTime) + RotationTime" for f
    using r(2) by (smt (verit) mult_nonneg_nonneg)
  moreover have "0 < rot + ModuloDiff s f * RotationTime + RotationTime" for f
    using r(2) \<open>\<And>f. 0 \<le> ModuloDiff s f\<close> by (smt (verit) mult_nonneg_nonneg)
  ultimately show ?thesis by (simp add: ComputeLatency_def r(1) Let_def)
qed

text \<open>What a request leaves: the sector head, the counters and the pending interrupt.\<close>

lemma UpdateLast_frame [simp]:
  "unix_file (UpdateLast s d) = unix_file d" "d_active (UpdateLast s d) = d_active d"
  "lastSector (UpdateLast s d) = s" "d_now (UpdateLast s d) = d_now d" "d_due (UpdateLast s d) = d_due d"
  by (simp_all add: UpdateLast_def Let_def split: prod.split)

lemma UpdateLast_more [simp]: "disk.more (UpdateLast s d) = disk.more d"
  by (simp add: UpdateLast_def Let_def split: prod.split)

lemma UpdateLast_sd [simp]:
  "sd_semaphore (UpdateLast s d) = sd_semaphore d" "sd_locked (UpdateLast s d) = sd_locked d"
  by (simp_all add: UpdateLast_def Let_def split: prod.split)

lemma ReadSector_ok:
  assumes ok: "synchdisk_ok d" and s: "s < NumSectors"
  shows "\<exists>d'. ReadSector d (int s) = Inr (sector d s, d') \<and> synchdisk_ok d' \<and> unix_file d' = unix_file d
    \<and> lastSector d' = int s"
proof -
  have v: "valid_sector (int s)" using s by (simp add: valid_sector_def)
  have t: "0 < ComputeLatency (d\<lparr>sd_locked := True\<rparr>) (int s) False"
    using ok v by (intro ComputeLatency_pos) (simp_all add: synchdisk_ok_def)
  have r: "unix_read (sector_offset (int s)) SectorSize (unix_file d) = Inr (sector d s)"
    using ok s sector_fits[OF s] by (simp add: unix_read_def sector_offset_def sector_def synchdisk_ok_def)
  show ?thesis
    using ok v t r
    by (simp add: ReadSector_def sd_acquire_def ReadRequest_def schedule_done_def wait_done_def Let_def
        disk_interrupt_def HandleInterrupt_def RequestDone_def synchdisk_ok_def)
qed

lemma WriteSector_ok:
  assumes ok: "synchdisk_ok d" and s: "s < NumSectors" and b: "length bs = SectorSize"
  shows "\<exists>d'. WriteSector d (int s) bs = Inr d' \<and> synchdisk_ok d' \<and> lastSector d' = int s
    \<and> (\<forall>r < NumSectors. sector d' r = (if r = s then bs else sector d r))"
proof -
  have v: "valid_sector (int s)" using s by (simp add: valid_sector_def)
  have t: "0 < ComputeLatency (d\<lparr>sd_locked := True\<rparr>) (int s) True"
    using ok v by (intro ComputeLatency_pos) (simp_all add: synchdisk_ok_def)
  let ?f = "unix_write (sector_offset (int s)) bs (unix_file d)"
  have l: "length ?f = DiskSize"
    using ok s b sector_fits[OF s] by (simp add: length_unix_write sector_offset_def synchdisk_ok_def)
  have w: "sector (d\<lparr>unix_file := ?f\<rparr>) r = (if r = s then bs else sector d r)" if "r < NumSectors" for r
    using ok s b that by (intro sector_write) (simp_all add: synchdisk_ok_def)
  obtain d' where "WriteSector d (int s) bs = Inr d'" "synchdisk_ok d'" "lastSector d' = int s" "unix_file d' = ?f"
    using ok v t b l
    by (simp add: WriteSector_def sd_acquire_def WriteRequest_def schedule_done_def wait_done_def Let_def
        disk_interrupt_def HandleInterrupt_def RequestDone_def synchdisk_ok_def)
  then show ?thesis using w by (auto simp: sector_def)
qed

section \<open>Devices of sectors\<close>

text \<open>
  The loops of the layers above: read the sectors \<open>f i\<close> one after the other into a buffer, and
  write a buffer to them. The sector of an index may be undefined.
\<close>

fun read_run :: "('d \<Rightarrow> int \<Rightarrow> (u8 list \<times> 'd) result) \<Rightarrow> ('i \<Rightarrow> int result) \<Rightarrow> 'i list \<Rightarrow> 'd
  \<Rightarrow> (u8 list \<times> 'd) result" where
  "read_run rd f [] d = Inr ([], d)"
| "read_run rd f (i # is) d =
     bindE (f i) (\<lambda>s. bindE (rd d s) (\<lambda>(x, d1). bindE (read_run rd f is d1) (\<lambda>(y, d2). Inr (x @ y, d2))))"

fun write_run :: "('d \<Rightarrow> int \<Rightarrow> u8 list \<Rightarrow> 'd result) \<Rightarrow> ('i \<Rightarrow> int result) \<Rightarrow> 'i list \<Rightarrow> u8 list \<Rightarrow> 'd
  \<Rightarrow> 'd result" where
  "write_run wr f [] b d = Inr d"
| "write_run wr f (i # is) b d =
     bindE (f i) (\<lambda>s. bindE (wr d s (take SectorSize b)) (\<lambda>d1. write_run wr f is (drop SectorSize b) d1))"

locale sector_device =
  fixes rd :: "'d \<Rightarrow> int \<Rightarrow> (u8 list \<times> 'd) result"
    and wr :: "'d \<Rightarrow> int \<Rightarrow> u8 list \<Rightarrow> 'd result"
    and get :: "'d \<Rightarrow> nat \<Rightarrow> u8 list"
    and N :: nat
    and dev_ok :: "'d \<Rightarrow> bool"
  assumes get_length: "dev_ok d \<Longrightarrow> s < N \<Longrightarrow> length (get d s) = SectorSize"
    and rd_ok: "dev_ok d \<Longrightarrow> s < N \<Longrightarrow>
      \<exists>d'. rd d (int s) = Inr (get d s, d') \<and> dev_ok d' \<and> (\<forall>r < N. get d' r = get d r)"
    and wr_ok: "dev_ok d \<Longrightarrow> s < N \<Longrightarrow> length bs = SectorSize \<Longrightarrow>
      \<exists>d'. wr d (int s) bs = Inr d' \<and> dev_ok d' \<and> (\<forall>r < N. get d' r = (if r = s then bs else get d r))"
begin

lemma read_run_ok:
  "dev_ok d \<Longrightarrow> (\<And>i. i \<in> set is \<Longrightarrow> f i = Inr (int (g i)) \<and> g i < N) \<Longrightarrow>
   \<exists>d'. read_run rd f is d = Inr (concat (map (\<lambda>i. get d (g i)) is), d') \<and> dev_ok d'
     \<and> (\<forall>r < N. get d' r = get d r)"
proof (induction "is" arbitrary: d)
  case Nil
  then show ?case by simp
next
  case (Cons i js)
  then obtain d1 where r: "rd d (int (g i)) = Inr (get d (g i), d1)" "dev_ok d1" "\<forall>r < N. get d1 r = get d r"
    using rd_ok[of d "g i"] by auto
  then obtain d2 where "read_run rd f js d1 = Inr (concat (map (\<lambda>i. get d1 (g i)) js), d2)" "dev_ok d2"
    "\<forall>r < N. get d2 r = get d1 r"
    using Cons.IH[of d1] Cons.prems by auto
  moreover have "concat (map (\<lambda>i. get d1 (g i)) js) = concat (map (\<lambda>i. get d (g i)) js)"
    using Cons.prems(2) r(3) by (intro arg_cong[where f = concat] map_cong) auto
  ultimately show ?case using Cons.prems(2)[of i] r by simp
qed

lemma write_run_ok:
  "dev_ok d \<Longrightarrow> (\<And>i. i \<in> set is \<Longrightarrow> f i = Inr (int (g i)) \<and> g i < N) \<Longrightarrow> distinct (map g is) \<Longrightarrow>
   length b = SectorSize * length is \<Longrightarrow>
   \<exists>d'. write_run wr f is b d = Inr d' \<and> dev_ok d' \<and> (\<forall>r < N. r \<notin> g ` set is \<longrightarrow> get d' r = get d r)
     \<and> (\<forall>j < length is. get d' (g (is ! j)) = take SectorSize (drop (SectorSize * j) b))"
proof (induction "is" arbitrary: d b)
  case Nil
  then show ?case by simp
next
  case (Cons i js)
  have b: "length (take SectorSize b) = SectorSize" "length (drop SectorSize b) = SectorSize * length js"
    using Cons.prems(4) by simp_all
  obtain d1 where w: "wr d (int (g i)) (take SectorSize b) = Inr d1" "dev_ok d1"
    "\<forall>r < N. get d1 r = (if r = g i then take SectorSize b else get d r)"
    using wr_ok[of d "g i" "take SectorSize b"] Cons.prems b by auto
  obtain d2 where IH: "write_run wr f js (drop SectorSize b) d1 = Inr d2" "dev_ok d2"
    "\<forall>r < N. r \<notin> g ` set js \<longrightarrow> get d2 r = get d1 r"
    "\<forall>j < length js. get d2 (g (js ! j)) = take SectorSize (drop (SectorSize * j) (drop SectorSize b))"
    using Cons.IH[of d1 "drop SectorSize b"] Cons.prems w(2) b by auto
  have gi: "g i < N" "g i \<notin> g ` set js" using Cons.prems by auto
  have "get d2 (g ((i # js) ! j)) = take SectorSize (drop (SectorSize * j) b)" if "j < length (i # js)" for j
    using that IH(3,4) w(3) gi by (cases j) (simp_all add: add.commute)
  then show ?case using IH(1-3) w Cons.prems(2)[of i] gi by auto
qed

end

interpretation sd: sector_device ReadSector WriteSector sector NumSectors synchdisk_ok
proof
  fix d :: synchdisk and s :: nat and bs :: "u8 list"
  show "synchdisk_ok d \<Longrightarrow> s < NumSectors \<Longrightarrow> length (sector d s) = SectorSize"
    by (simp add: length_sector synchdisk_ok_def)
  show "synchdisk_ok d \<Longrightarrow> s < NumSectors \<Longrightarrow> \<exists>d'. ReadSector d (int s) = Inr (sector d s, d')
    \<and> synchdisk_ok d' \<and> (\<forall>r < NumSectors. sector d' r = sector d r)"
    using ReadSector_ok[of d s] by (auto simp: sector_def)
  show "synchdisk_ok d \<Longrightarrow> s < NumSectors \<Longrightarrow> length bs = SectorSize \<Longrightarrow> \<exists>d'. WriteSector d (int s) bs = Inr d'
    \<and> synchdisk_ok d' \<and> (\<forall>r < NumSectors. sector d' r = (if r = s then bs else sector d r))"
    using WriteSector_ok[of d s bs] by auto
qed

section \<open>The time of a request\<close>

text \<open>The sector at offset \<open>s mod 32\<close> of its track is under the head in the slots
  \<open>[500 * k, 500 * (k + 1))\<close> with \<open>k mod 32 = s mod 32\<close>.\<close>

definition slot_of :: "int \<Rightarrow> int \<Rightarrow> bool" where
  "slot_of s k \<longleftrightarrow> k mod int SectorsPerTrack = s mod int SectorsPerTrack"

lemma ModuloDiff_eq:
  assumes "0 \<le> t" and "0 \<le> f"
  shows "ModuloDiff t f = (t - f) mod 32"
proof -
  have "0 \<le> t mod 32 - f mod 32 + 32" by (smt (verit) pos_mod_bound pos_mod_sign)
  then have "ModuloDiff t f = (t mod 32 - f mod 32 + 32) mod 32"
    using assms by (simp add: ModuloDiff_def smod_nonneg)
  also have "\<dots> = (t - f) mod 32" by (simp add: mod_simps)
  finally show ?thesis .
qed

lemma slot_of_ModuloDiff: "0 \<le> s \<Longrightarrow> 0 \<le> f \<Longrightarrow> slot_of s (f + ModuloDiff s f)"
  by (simp add: slot_of_def ModuloDiff_eq mod_simps)

lemma div_mult_500: "(a::int) mod 500 = 0 \<Longrightarrow> a div 500 * 500 = a"
  by (metis add.right_neutral div_mult_mod_eq)

text \<open>
  a request ends when the sector has passed under the head once, completely. Either this is
  after the seek and the request ends with the slot of the sector; or it is a read on the same
  track, the sector has gone by since the track buffer started to fill, and only the transfer is
  paid for. The seek takes 500 ticks for each track.
\<close>

theorem disk_request_latency:
  assumes "valid_sector s" and "valid_sector (lastSector d)"
    and "0 \<le> d_now d" and "d_now d + 16000 < 2 ^ 31"
    and "0 \<le> bufferInit d" and "bufferInit d mod RotationTime = 0" and "bufferInit d < 2 ^ 31"
  shows "\<exists>k. slot_of s k \<and> RotationTime * (k + 1) \<le> d_now d + ComputeLatency d s w
    \<and> (\<not> w \<and> s div 32 = lastSector d div 32 \<and> bufferInit d \<le> RotationTime * k
          \<and> ComputeLatency d s w = RotationTime
       \<or> d_now d + \<bar>s div 32 - lastSector d div 32\<bar> * SeekTime \<le> RotationTime * k
          \<and> d_now d + ComputeLatency d s w = RotationTime * (k + 1))"
proof -
  let ?seek = "\<bar>s div 32 - lastSector d div 32\<bar> * SeekTime"
  obtain rot where r: "TimeToSeek d s = (?seek, rot)" "\<bar>s div 32 - lastSector d div 32\<bar> \<le> 31" "0 \<le> rot"
    "rot < 500" "(d_now d + ?seek + rot) mod 500 = 0"
    using TimeToSeek_valid[OF assms(1,2)] assms(3) by metis
  let ?T = "d_now d + ?seek + rot"
  have s0: "0 \<le> s" using assms(1) by (simp add: valid_sector_def)
  have "0 \<le> n + t * 500 + q \<and> in_int (n + t * 500 + q)"
    if "0 \<le> n" "n + 16000 < 2 ^ 31" "0 \<le> t" "t \<le> 31" "0 \<le> q" "q < 500" for n t q :: int
    using that by (simp add: in_int_def)
  then have T: "0 \<le> ?T" "in_int ?T" using r(2-4) assms(3,4) abs_ge_zero by blast+
  have T5: "?T div 500 * 500 = ?T" using r(5) by (rule div_mult_500)
  have B5: "bufferInit d div 500 * 500 = bufferInit d" using assms(6) by (simp add: div_mult_500)
  have "in_int (a - b)" if "0 \<le> a" "in_int a" "0 \<le> b" "b < 2 ^ 31" for a b :: int
    using that by (simp add: in_int_def)
  then have TB: "in_int (?T - bufferInit d)" using T assms(5,7) by blast
  have arith: "n + k \<le> 500 * (q + m) \<and> n + (k + (r' + m * 500) + 500) = 500 * (q + m + 1)"
    if "q * 500 = n + k + r'" "0 \<le> r'" "0 \<le> m" for n k q m r' :: int
    using that by (simp add: algebra_simps)
  have full: ?thesis if l: "ComputeLatency d s w = ?seek + (rot + ModuloDiff s (?T div 500) * 500) + 500"
  proof -
    let ?k = "?T div 500 + ModuloDiff s (?T div 500)"
    have "0 \<le> ModuloDiff s (?T div 500)" using s0 by (rule ModuloDiff_nonneg)
    then have "d_now d + ?seek \<le> 500 * ?k \<and> d_now d + ComputeLatency d s w = 500 * (?k + 1)"
      unfolding l using T5 r(3) arith by blast
    moreover have "slot_of s ?k" using s0 T(1) by (intro slot_of_ModuloDiff) simp_all
    ultimately show ?thesis by (intro exI[of _ ?k]) simp
  qed
  show ?thesis
  proof (cases "\<not> w \<and> ?seek = 0 \<and> (?T - bufferInit d) sdiv 500 > ModuloDiff s (bufferInit d div 500)")
    case True
    let ?m = "ModuloDiff s (bufferInit d div 500)"
    have m: "0 \<le> ?m" using s0 by (rule ModuloDiff_nonneg)
    have eq: "s div 32 = lastSector d div 32" and w: "\<not> w" using True by simp_all
    have less: "?m < (?T - bufferInit d) sdiv 500" using True by blast
    then have lat: "ComputeLatency d s w = 500"
      using w eq r(1) T(2) TB assms(5) by (simp add: ComputeLatency_def Let_def sdiv_nonneg)
    have "0 \<le> ?T - bufferInit d"
    proof (rule ccontr)
      assume "\<not> 0 \<le> ?T - bufferInit d"
      then have "(?T - bufferInit d) sdiv 500 \<le> 0" by (simp add: signed_divide_int_def sgn_if)
      then show False using m less by linarith
    qed
    moreover note less
    ultimately have "?m + 1 \<le> (?T - bufferInit d) div 500" by (simp add: sdiv_nonneg)
    moreover have "b + a * 500 \<le> t" if "a \<le> (t - b) div 500" for a b t :: int
      using that by linarith
    ultimately have "bufferInit d + (?m + 1) * 500 \<le> ?T" by blast
    moreover have "slot_of s (bufferInit d div 500 + ?m)"
      using s0 assms(5) by (intro slot_of_ModuloDiff) simp_all
    moreover have "bufferInit d \<le> 500 * (bufferInit d div 500 + ?m)"
      and "500 * (bufferInit d div 500 + ?m + 1) = bufferInit d + (?m + 1) * 500"
      using B5 m by (simp_all add: algebra_simps)
    ultimately show ?thesis
      using lat w eq r(4) by (intro exI[of _ "bufferInit d div 500 + ?m"]) simp
  next
    case False
    then show ?thesis
      using r(1) T TB assms(5) by (intro full) (auto simp: ComputeLatency_def Let_def sdiv_nonneg)
  qed
qed

theorem disk_request_latency_witness:
  "\<exists>k. slot_of 5 k \<and> 500 * (k + 1) \<le> 0 + ComputeLatency
     \<lparr>unix_file = [], d_active = False, lastSector = 0, bufferInit = 0, d_now = 0, d_due = None,
      numDiskReads = 0, numDiskWrites = 0\<rparr> 5 False"
  using disk_request_latency[of 5 "\<lparr>unix_file = [], d_active = False, lastSector = 0, bufferInit = 0,
      d_now = 0, d_due = None, numDiskReads = 0, numDiskWrites = 0\<rparr>" False]
  by (auto simp: valid_sector_def)

section \<open>A new disk\<close>

lemma Disk_new_None:
  "\<exists>d. Disk_new None now = Inr d \<and> synchdisk_ok (SynchDisk_new d) \<and> d_now d = now"
  by (simp add: Disk_new_def SynchDisk_new_def synchdisk_ok_def length_unix_write magic_bytes_def
      valid_sector_def Let_def disk.defs)

lemma Disk_new_Some:
  "length f = DiskSize \<Longrightarrow> take 4 f = magic_bytes \<Longrightarrow>
   \<exists>d. Disk_new (Some f) now = Inr d \<and> synchdisk_ok (SynchDisk_new d) \<and> unix_file d = f"
  by (simp add: Disk_new_def unix_read_def SynchDisk_new_def synchdisk_ok_def valid_sector_def Let_def disk.defs)

lemma Disk_new_wrong_magic:
  "4 \<le> length f \<Longrightarrow> take 4 f \<noteq> magic_bytes \<Longrightarrow> Disk_new (Some f) now = Inl Assertion_failed"
  by (simp add: Disk_new_def unix_read_def Let_def)

text \<open>A request for a sector the disk does not have stops the system.\<close>

lemma ReadSector_bad: "synchdisk_ok d \<Longrightarrow> \<not> valid_sector s \<Longrightarrow> ReadSector d s = Inl Assertion_failed"
  by (simp add: ReadSector_def sd_acquire_def ReadRequest_def Let_def synchdisk_ok_def)

lemma WriteSector_bad: "synchdisk_ok d \<Longrightarrow> \<not> valid_sector s \<Longrightarrow> WriteSector d s b = Inl Assertion_failed"
  by (simp add: WriteSector_def sd_acquire_def WriteRequest_def Let_def synchdisk_ok_def)

text \<open>
  what \<open>WriteSector\<close> stores, \<open>ReadSector\<close> returns, and no other sector changes; each request waits for its interrupt, and the disk is
  idle and unlocked when it returns.
\<close>

theorem sector_read_back:
  assumes "synchdisk_ok d" and "s < NumSectors" and "r < NumSectors" and "length bs = SectorSize"
  shows "\<exists>d1 d2. WriteSector d (int s) bs = Inr d1 \<and> synchdisk_ok d1
    \<and> ReadSector d1 (int r) = Inr (if r = s then bs else sector d r, d2) \<and> synchdisk_ok d2"
proof -
  obtain d1 where w: "WriteSector d (int s) bs = Inr d1" "synchdisk_ok d1"
    "\<forall>r < NumSectors. sector d1 r = (if r = s then bs else sector d r)"
    using sd.wr_ok[OF assms(1,2,4)] by blast
  then obtain d2 where "ReadSector d1 (int r) = Inr (sector d1 r, d2)" "synchdisk_ok d2"
    using sd.rd_ok assms(3) by blast
  then show ?thesis using w assms(3) by auto
qed

theorem sector_read_back_witness:
  "\<exists>d d0 d1 d2. Disk_new None 0 = Inr d \<and> d0 = SynchDisk_new d
     \<and> WriteSector d0 3 (replicate 128 7) = Inr d1 \<and> ReadSector d1 3 = Inr (replicate 128 7, d2)"
proof -
  obtain d where d: "Disk_new None 0 = Inr d" "synchdisk_ok (SynchDisk_new d)"
    using Disk_new_None by blast
  then show ?thesis using sector_read_back[OF d(2), of 3 3 "replicate 128 7"] by auto
qed

end
