(* ===== verification/FileHdr.thy ===== *)
theory FileHdr
  imports BitMap Disk
begin

text \<open>
  \<open>filesys/filehdr.cc\<close>: the header of a file, which says in which sectors its bytes are. A header
  is one sector on the disk and the same bytes in memory, so an \<open>int\<close> of it is a 32-bit word, and
  a header that was only allocated keeps the garbage of the memory behind its last sector number.
\<close>

section \<open>State and operations\<close>

abbreviation (input) NumDirect :: nat where "NumDirect \<equiv> 30"

record filehdr =
  fh_bytes :: u32
  fh_sectors :: u32
  fh_data :: "u32 list"

text \<open>\<open>divRoundUp\<close> of two \<open>int\<close>s\<close>

definition int_divRoundUp :: "int \<Rightarrow> int \<Rightarrow> int" where
  "int_divRoundUp n s = n sdiv s + (if n smod s > 0 then 1 else 0)"

text \<open>A number of a sector that does not fit the array is written behind it.\<close>

fun allocate_loop :: "nat list \<Rightarrow> bitmap \<Rightarrow> filehdr \<Rightarrow> (filehdr \<times> bitmap) result" where
  "allocate_loop [] b h = Inr (h, b)"
| "allocate_loop (i # is) b h =
     bindE (BitMap_Find b) (\<lambda>(s, b1).
     if i < NumDirect then allocate_loop is b1 (h\<lparr>fh_data := (fh_data h)[i := word_of_int s]\<rparr>)
     else Inl Undefined_behaviour)"

definition Allocate :: "filehdr \<Rightarrow> bitmap \<Rightarrow> int \<Rightarrow> (bool \<times> filehdr \<times> bitmap) result" where
  "Allocate h freeMap fileSize =
     (let n = int_divRoundUp fileSize (int SectorSize);
          h1 = h\<lparr>fh_bytes := word_of_int fileSize, fh_sectors := word_of_int n\<rparr> in
      bindE (BitMap_NumClear freeMap) (\<lambda>c.
      if c < n then Inr (False, h1, freeMap)
      else bindE (allocate_loop [0..<nat n] freeMap h1) (\<lambda>(h2, b2). Inr (True, h2, b2))))"

fun deallocate_loop :: "nat list \<Rightarrow> filehdr \<Rightarrow> bitmap \<Rightarrow> bitmap result" where
  "deallocate_loop [] h b = Inr b"
| "deallocate_loop (i # is) h b =
     (if i < NumDirect then
        bindE (BitMap_Test b (sint (fh_data h ! i))) (\<lambda>t.
        bindE (assertE t) (\<lambda>_.
        bindE (BitMap_Clear b (sint (fh_data h ! i))) (deallocate_loop is h)))
      else Inl Undefined_behaviour)"

definition Deallocate :: "filehdr \<Rightarrow> bitmap \<Rightarrow> bitmap result" where
  "Deallocate h freeMap = deallocate_loop [0..<nat (sint (fh_sectors h))] h freeMap"

definition ByteToSector :: "filehdr \<Rightarrow> int \<Rightarrow> int result" where
  "ByteToSector h offset =
     (let i = offset sdiv int SectorSize in
      if 0 \<le> i \<and> i < int NumDirect then Inr (sint (fh_data h ! nat i)) else Inl Undefined_behaviour)"

definition FileLength :: "filehdr \<Rightarrow> int" where
  "FileLength h = sint (fh_bytes h)"

text \<open>The bytes of a header, and the header made of the bytes of a sector.\<close>

definition header_bytes :: "filehdr \<Rightarrow> u8 list" where
  "header_bytes h = concat (map word_bytes (fh_bytes h # fh_sectors h # fh_data h))"

definition header_of :: "u8 list \<Rightarrow> filehdr" where
  "header_of bs = \<lparr>fh_bytes = bytes_word (take 4 bs), fh_sectors = bytes_word (take 4 (drop 4 bs)),
     fh_data = map (\<lambda>i. bytes_word (take 4 (drop (4 * (i + 2)) bs))) [0..<NumDirect]\<rparr>"

definition FileHeader_FetchFrom :: "synchdisk \<Rightarrow> int \<Rightarrow> (filehdr \<times> synchdisk) result" where
  "FileHeader_FetchFrom d s = bindE (ReadSector d s) (\<lambda>(bs, d1). Inr (header_of bs, d1))"

definition FileHeader_WriteBack :: "filehdr \<Rightarrow> synchdisk \<Rightarrow> int \<Rightarrow> synchdisk result" where
  "FileHeader_WriteBack h d s = WriteSector d s (header_bytes h)"

section \<open>Headers on the disk\<close>

lemma length_header_bytes: "length (fh_data h) = NumDirect \<Longrightarrow> length (header_bytes h) = SectorSize"
  unfolding header_bytes_def by (subst length_concat_chunks[where k = 4]) simp_all

lemma header_of_bytes:
  assumes "length (fh_data h) = NumDirect" shows "header_of (header_bytes h) = h"
proof -
  let ?ws = "fh_bytes h # fh_sectors h # fh_data h"
  have c: "take 4 (drop (4 * j) (header_bytes h)) = word_bytes (?ws ! j)" if "j < 32" for j
    unfolding header_bytes_def using that assms by (intro concat_chunk) simp_all
  have "map (\<lambda>i. bytes_word (take 4 (drop (4 * (i + 2)) (header_bytes h)))) [0..<NumDirect]
      = map (\<lambda>i. fh_data h ! i) [0..<NumDirect]"
  proof (rule map_cong[OF refl])
    fix i assume "i \<in> set [0..<NumDirect]"
    then show "bytes_word (take 4 (drop (4 * (i + 2)) (header_bytes h))) = fh_data h ! i"
      using c[of "i + 2"] by simp
  qed
  also have "\<dots> = fh_data h" using assms by (metis map_nth)
  finally show ?thesis using c[of 0] c[of 1] by (simp add: header_of_def)
qed

lemma length_header_of [simp]: "length (fh_data (header_of bs)) = NumDirect"
  by (simp add: header_of_def)

section \<open>The sectors of a file\<close>

definition hdr_sectors :: "filehdr \<Rightarrow> nat list" where
  "hdr_sectors h = map (\<lambda>i. nat (sint (fh_data h ! i))) [0..<nat (sint (fh_sectors h))]"

definition hdr_ok :: "filehdr \<Rightarrow> bool" where
  "hdr_ok h \<longleftrightarrow> length (fh_data h) = NumDirect \<and> 0 \<le> FileLength h
     \<and> sint (fh_sectors h) = int (divRoundUp (nat (FileLength h)) SectorSize) \<and> sint (fh_sectors h) \<le> int NumDirect
     \<and> (\<forall>i < nat (sint (fh_sectors h)). 0 \<le> sint (fh_data h ! i) \<and> sint (fh_data h ! i) < int NumSectors)
     \<and> distinct (hdr_sectors h)"

lemma length_hdr_sectors: "length (hdr_sectors h) = nat (sint (fh_sectors h))"
  by (simp add: hdr_sectors_def)

lemma hdr_ok_length: "hdr_ok h \<Longrightarrow> length (hdr_sectors h) = divRoundUp (nat (FileLength h)) SectorSize"
  by (simp add: hdr_ok_def length_hdr_sectors)

lemma hdr_ok_bounds:
  "hdr_ok h \<Longrightarrow> length (hdr_sectors h) \<le> NumDirect"
  "hdr_ok h \<Longrightarrow> i < length (hdr_sectors h) \<Longrightarrow> sint (fh_data h ! i) = int (hdr_sectors h ! i)"
  "hdr_ok h \<Longrightarrow> i < length (hdr_sectors h) \<Longrightarrow> hdr_sectors h ! i < NumSectors"
  "hdr_ok h \<Longrightarrow> distinct (hdr_sectors h)"
  "hdr_ok h \<Longrightarrow> 0 \<le> FileLength h"
  by (auto simp: hdr_ok_def hdr_sectors_def)

lemma hdr_sectors_less: "hdr_ok h \<Longrightarrow> s \<in> set (hdr_sectors h) \<Longrightarrow> s < NumSectors"
  by (metis hdr_ok_bounds(3) in_set_conv_nth)

lemma FileLength_covered: "hdr_ok h \<Longrightarrow> nat (FileLength h) \<le> SectorSize * length (hdr_sectors h)"
  using divRoundUp_covers[of SectorSize "nat (FileLength h)"] by (simp add: hdr_ok_length mult.commute)

lemma ByteToSector_ok:
  "hdr_ok h \<Longrightarrow> i < length (hdr_sectors h) \<Longrightarrow> ByteToSector h (int i * int SectorSize) = Inr (int (hdr_sectors h ! i))"
proof -
  assume h: "hdr_ok h" and i: "i < length (hdr_sectors h)"
  have "int i * 128 sdiv 128 = int i" by (simp add: sdiv_nonneg)
  moreover have "i < NumDirect" using hdr_ok_bounds(1)[OF h] i by linarith
  ultimately show ?thesis using hdr_ok_bounds(2)[OF h i] by (simp add: ByteToSector_def)
qed

lemma int_divRoundUp_nat: "0 < s \<Longrightarrow> int_divRoundUp (int n) (int s) = int (divRoundUp n s)"
  by (simp add: int_divRoundUp_def divRoundUp_def sdiv_nonneg smod_nonneg flip: zdiv_int zmod_int)

section \<open>Allocation\<close>

text \<open>The loop is the taking of slots of the free map.\<close>

lemma allocate_loop_eq:
  "k + n \<le> NumDirect \<Longrightarrow> length (fh_data h) = NumDirect \<Longrightarrow>
   allocate_loop [k..<k + n] b h =
     bindE (take_slots BitMap_Find n b) (\<lambda>(ss, b1).
       Inr (h\<lparr>fh_data := overlay k (map word_of_int ss) (fh_data h)\<rparr>, b1))"
proof (induction n arbitrary: k b h)
  case 0
  then show ?case by (simp add: overlay_def)
next
  case (Suc n)
  have e: "[k..<k + Suc n] = k # [Suc k..<Suc k + n]" by (simp add: upt_conv_Cons del: upt_Suc)
  have over: "overlay (Suc k) xs ((fh_data h)[k := x]) = overlay k (x # xs) (fh_data h)" for x :: u32 and "xs"
    using Suc.prems by (simp add: overlay_def take_Suc_conv_app_nth take_update_cancel[of k k] upd_conv_take_nth_drop add.commute)
  show ?case
  proof (cases "BitMap_Find b")
    case (Inl e)
    then show ?thesis unfolding e by simp
  next
    case (Inr r)
    then obtain s b1 where f: "BitMap_Find b = Inr (s, b1)" by (cases r) auto
    have "allocate_loop [Suc k..<Suc k + n] b1 (h\<lparr>fh_data := (fh_data h)[k := word_of_int s]\<rparr>) =
      bindE (take_slots BitMap_Find n b1) (\<lambda>(ss, b2).
        Inr (h\<lparr>fh_data := overlay k (word_of_int s # map word_of_int ss) (fh_data h)\<rparr>, b2))"
      using Suc.prems by (subst Suc.IH) (simp_all add: over)
    then show ?thesis
      unfolding e using f Suc.prems by (cases "take_slots BitMap_Find n b1") auto
  qed
qed

lemma Allocate_ok:
  assumes wf: "bitmap_wf b" and nb: "numBits b = NumSectors" and h: "length (fh_data h) = NumDirect"
    and fs: "fileSize \<le> NumDirect * SectorSize"
    and free: "divRoundUp fileSize SectorSize \<le> NumSectors - card (marked b)"
  shows "\<exists>h1 b1. Allocate h b (int fileSize) = Inr (True, h1, b1) \<and> hdr_ok h1 \<and> FileLength h1 = int fileSize
    \<and> bitmap_wf b1 \<and> numBits b1 = numBits b \<and> set (hdr_sectors h1) \<inter> marked b = {}
    \<and> marked b1 = marked b \<union> set (hdr_sectors h1)"
proof -
  let ?n = "divRoundUp fileSize SectorSize"
  have card: "card (marked b) \<le> NumSectors" using card_mono[OF _ marked_bounded[of b]] nb by simp
  have n: "?n \<le> NumDirect" using fs by (simp add: divRoundUp_le)
  have "card (marked b) + ?n \<le> numBits b" using free card nb by linarith
  then obtain ss b1 where t: "take_slots BitMap_Find ?n b = Inr (map int ss, b1)" "bitmap_wf b1" "numBits b1 = numBits b"
    "length ss = ?n" "distinct ss" "set ss \<inter> marked b = {}" "set ss \<subseteq> {..<numBits b}" "marked b1 = marked b \<union> set ss"
    using bm.take_slots_enough[OF wf] by blast
  let ?h0 = "h\<lparr>fh_bytes := word_of_int (int fileSize), fh_sectors := word_of_int (int ?n)\<rparr>"
  let ?h1 = "?h0\<lparr>fh_data := overlay 0 (map word_of_int (map int ss)) (fh_data h)\<rparr>"
  have loop: "allocate_loop [0..<?n] b ?h0 = Inr (?h1, b1)"
    using allocate_loop_eq[of 0 ?n ?h0 b] n h t(1) by simp
  have sn: "sint (of_nat ?n :: u32) = int ?n" using n by (simp add: sint_of_nat32)
  have sf: "sint (of_nat fileSize :: u32) = int fileSize" using fs by (simp add: sint_of_nat32)
  have small: "ss ! i < NumSectors" if "i < ?n" for i
    using that t(4,7) nb by (metis lessThan_iff nth_mem subsetD)
  have data: "sint (fh_data ?h1 ! i) = int (ss ! i)" if "i < ?n" for i
  proof -
    have "ss ! i < NumSectors" using that by (rule small)
    then show ?thesis using that n h t(4) by (simp add: nth_overlay sint_of_nat32)
  qed
  have secs: "hdr_sectors ?h1 = ss"
    using data t(4) by (intro nth_equalityI) (simp_all add: hdr_sectors_def sn)
  have "hdr_ok ?h1"
    unfolding hdr_ok_def secs using data sn sf n h t(4,5) small
    by (auto simp: FileLength_def)
  moreover have "Allocate h b (int fileSize) = Inr (True, ?h1, b1)"
    using loop free card nb by (simp add: Allocate_def int_divRoundUp_nat[of SectorSize, simplified] BitMap_NumClear_eq Let_def)
  ultimately show ?thesis
    using t secs by (intro exI[of _ ?h1] exI[of _ b1]) (auto simp: FileLength_def sf)
qed

text \<open>Without enough free sectors the free map stays as it is.\<close>

lemma Allocate_full:
  assumes "numBits b = NumSectors" and "NumSectors - card (marked b) < divRoundUp fileSize SectorSize"
  shows "\<exists>h1. Allocate h b (int fileSize) = Inr (False, h1, b)"
proof -
  have "card (marked b) \<le> NumSectors" using card_mono[OF _ marked_bounded[of b]] assms(1) by simp
  then have "int NumSectors - int (card (marked b)) < int (divRoundUp fileSize SectorSize)"
    using assms(2) by linarith
  then show ?thesis
    using assms(1) by (simp add: Allocate_def int_divRoundUp_nat[of SectorSize, simplified] BitMap_NumClear_eq Let_def)
qed

lemma allocate_loop_overflow:
  "bitmap_wf b \<Longrightarrow> card (marked b) + n \<le> numBits b \<Longrightarrow> k \<le> NumDirect \<Longrightarrow> NumDirect < k + n \<Longrightarrow>
   allocate_loop [k..<k + n] b h = Inl Undefined_behaviour"
proof (induction n arbitrary: k b h)
  case 0
  then show ?case by simp
next
  case (Suc n)
  have e: "[k..<k + Suc n] = k # [Suc k..<Suc k + n]" by (simp add: upt_conv_Cons del: upt_Suc)
  obtain s b1 where f: "BitMap_Find b = Inr (int s, b1)" "bitmap_wf b1" "numBits b1 = numBits b"
    "s \<notin> marked b" "marked b1 = insert s (marked b)"
    using bm.find_some[of b] Suc.prems by auto
  show ?case
  proof (cases "k = NumDirect")
    case True
    then show ?thesis unfolding e using f by simp
  next
    case False
    have "card (marked b1) = Suc (card (marked b))" using f by simp
    then have "allocate_loop [Suc k..<Suc k + n] b1 h' = Inl Undefined_behaviour" for h'
      using Suc.prems f False by (intro Suc.IH) auto
    then show ?thesis unfolding e using f False Suc.prems by simp
  qed
qed

text \<open>
  a file of more than 30 sectors is not refused: when the disk has room for it, \<open>Allocate\<close>
  writes sector numbers behind the end of its array. Nothing on the way from \<open>Create\<close> compares
  the size with \<open>MaxFileSize\<close>.
\<close>

theorem Allocate_overruns_header:
  assumes "bitmap_wf b" and "numBits b = NumSectors"
    and "NumDirect * SectorSize < fileSize" and "divRoundUp fileSize SectorSize \<le> NumSectors - card (marked b)"
  shows "Allocate h b (int fileSize) = Inl Undefined_behaviour"
proof -
  have card: "card (marked b) \<le> NumSectors" using card_mono[OF _ marked_bounded[of b]] assms(2) by simp
  have "NumDirect < divRoundUp fileSize SectorSize"
    using divRoundUp_covers[of SectorSize fileSize] assms(3) by simp
  then have "allocate_loop [0..<0 + divRoundUp fileSize SectorSize] b h' = Inl Undefined_behaviour" for h'
    using assms card by (intro allocate_loop_overflow) simp_all
  then show ?thesis
    using assms card by (simp add: Allocate_def int_divRoundUp_nat[of SectorSize, simplified] BitMap_NumClear_eq Let_def)
qed

section \<open>Deallocation\<close>

lemma deallocate_loop_eq:
  "(\<And>i. i \<in> set is \<Longrightarrow> i < NumDirect) \<Longrightarrow>
   deallocate_loop is h b = give_back BitMap_Test BitMap_Clear (map (\<lambda>i. sint (fh_data h ! i)) is) b"
  by (induction "is" arbitrary: b) (auto intro!: bindE_cong)

lemma Deallocate_ok:
  assumes "hdr_ok h" and "bitmap_wf b" and "set (hdr_sectors h) \<subseteq> marked b"
  shows "\<exists>b1. Deallocate h b = Inr b1 \<and> bitmap_wf b1 \<and> numBits b1 = numBits b
    \<and> marked b1 = marked b - set (hdr_sectors h)"
proof -
  let ?is = "[0..<nat (sint (fh_sectors h))]"
  have "map (\<lambda>i. sint (fh_data h ! i)) ?is = map int (hdr_sectors h)"
    using hdr_ok_bounds(2)[OF assms(1)] by (intro nth_equalityI) (simp_all add: length_hdr_sectors)
  moreover have "i < NumDirect" if "i \<in> set ?is" for i
    using that hdr_ok_bounds(1)[OF assms(1)] by (simp add: length_hdr_sectors)
  ultimately have "Deallocate h b = give_back BitMap_Test BitMap_Clear (map int (hdr_sectors h)) b"
    unfolding Deallocate_def by (subst deallocate_loop_eq) auto
  then show ?thesis
    using bm.give_back_marked[OF assms(2) hdr_ok_bounds(4)[OF assms(1)] assms(3)] by simp
qed

text \<open>
  \<open>Deallocate\<close> undoes \<open>Allocate\<close>: for a file of at most 30 sectors that fits on the disk,
  allocation takes sectors that were free, all different and inside the disk, as many as the size
  needs, and giving them back passes every \<open>ASSERT\<close> and leaves the free map as it was.
\<close>

theorem Allocate_Deallocate:
  assumes "bitmap_wf b" and "numBits b = NumSectors" and "length (fh_data h) = NumDirect"
    and "fileSize \<le> NumDirect * SectorSize" and "divRoundUp fileSize SectorSize \<le> NumSectors - card (marked b)"
  shows "\<exists>h1 b1 b2. Allocate h b (int fileSize) = Inr (True, h1, b1) \<and> hdr_ok h1 \<and> FileLength h1 = int fileSize
    \<and> set (hdr_sectors h1) \<inter> marked b = {} \<and> marked b1 = marked b \<union> set (hdr_sectors h1)
    \<and> Deallocate h1 b1 = Inr b2 \<and> bitmap_wf b2 \<and> marked b2 = marked b"
proof -
  obtain h1 b1 where a: "Allocate h b (int fileSize) = Inr (True, h1, b1)" "hdr_ok h1" "FileLength h1 = int fileSize"
    "bitmap_wf b1" "set (hdr_sectors h1) \<inter> marked b = {}" "marked b1 = marked b \<union> set (hdr_sectors h1)"
    using Allocate_ok[OF assms] by blast
  then obtain b2 where "Deallocate h1 b1 = Inr b2" "bitmap_wf b2" "marked b2 = marked b1 - set (hdr_sectors h1)"
    using Deallocate_ok[of h1 b1] by auto
  moreover have "marked b1 - set (hdr_sectors h1) = marked b" using a by auto
  ultimately show ?thesis using a by metis
qed

definition blank_header :: filehdr where
  "blank_header = \<lparr>fh_bytes = 0, fh_sectors = 0, fh_data = replicate NumDirect 0\<rparr>"

theorem Allocate_Deallocate_witness:
  "\<exists>b h1 b1 b2. BitMap_new (\<lambda>_. 7) NumSectors = Inr b
     \<and> Allocate blank_header b 200 = Inr (True, h1, b1) \<and> Deallocate h1 b1 = Inr b2 \<and> marked b2 = {}"
proof -
  obtain b where b: "BitMap_new (\<lambda>_. 7) NumSectors = Inr b" "bitmap_wf b" "numBits b = NumSectors" "marked b = {}"
    using BitMap_new_ex by blast
  have "length (fh_data blank_header) = NumDirect" by (simp add: blank_header_def)
  then show ?thesis
    using Allocate_Deallocate[OF b(2,3), of blank_header 200] b by (auto simp: divRoundUp_def)
qed

theorem Allocate_overruns_header_witness:
  "\<exists>b. BitMap_new (\<lambda>_. 7) NumSectors = Inr b \<and> Allocate blank_header b 4000 = Inl Undefined_behaviour"
proof -
  obtain b where b: "BitMap_new (\<lambda>_. 7) NumSectors = Inr b" "bitmap_wf b" "numBits b = NumSectors" "marked b = {}"
    using BitMap_new_ex by blast
  then show ?thesis
    using Allocate_overruns_header[OF b(2,3), of 4000 blank_header] by (simp add: divRoundUp_def)
qed

end
