(* ===== verification/OpenFile.thy ===== *)
theory OpenFile
  imports FileHdr
begin

text \<open>
  \<open>filesys/openfile.cc\<close>: reading and writing bytes at any offset of a file whose header is in
  memory, and the functions of \<open>userprog/bitmap.cc\<close> that keep a bitmap in a file. A buffer fresh
  from \<open>new\<close> has the contents \<open>junk\<close>. Reading behind the caller's data is undefined, and so is an
  offset below 0, which \<open>ReadAt\<close> and \<open>WriteAt\<close> do not test.
\<close>

section \<open>Operations\<close>

record openfile =
  of_hdr :: filehdr
  seekPosition :: int

definition OpenFile_new :: "int \<Rightarrow> synchdisk \<Rightarrow> (openfile \<times> synchdisk) result" where
  "OpenFile_new sec d =
     bindE (FileHeader_FetchFrom d sec) (\<lambda>(h, d1). Inr (\<lparr>of_hdr = h, seekPosition = 0\<rparr>, d1))"

definition Seek :: "int \<Rightarrow> openfile \<Rightarrow> openfile" where
  "Seek position f = f\<lparr>seekPosition := position\<rparr>"

text \<open>The bytes \<open>ReadAt\<close> puts into the caller's buffer; their number is its result.\<close>

definition ReadAt :: "openfile \<Rightarrow> int \<Rightarrow> int \<Rightarrow> synchdisk \<Rightarrow> (u8 list \<times> synchdisk) result" where
  "ReadAt f numBytes position d =
     (let fileLength = FileLength (of_hdr f) in
      if numBytes \<le> 0 \<or> position \<ge> fileLength then Inr ([], d)
      else if position < 0 \<or> \<not> in_int (position + numBytes) then Inl Undefined_behaviour
      else
        let n = nat (if position + numBytes > fileLength then fileLength - position else numBytes);
            p = nat position;
            firstSector = divRoundDown p SectorSize;
            lastSec = divRoundDown (p + n - 1) SectorSize in
        bindE (read_run ReadSector (\<lambda>i. ByteToSector (of_hdr f) (int i * int SectorSize)) [firstSector..<Suc lastSec] d)
          (\<lambda>(buf, d1). Inr (take n (drop (p - firstSector * SectorSize) buf), d1)))"

text \<open>The first and the last sector are read into the buffer if they are to be partly modified.\<close>

definition read_edges :: "openfile \<Rightarrow> nat \<Rightarrow> nat \<Rightarrow> u8 list \<Rightarrow> synchdisk \<Rightarrow> (u8 list \<times> synchdisk) result" where
  "read_edges f p n buf d =
     (let firstSector = divRoundDown p SectorSize;
          lastSec = divRoundDown (p + n - 1) SectorSize;
          firstAligned = (p = firstSector * SectorSize);
          lastAligned = (p + n = (lastSec + 1) * SectorSize) in
      bindE (if \<not> firstAligned
             then bindE (ReadAt f (int SectorSize) (int (firstSector * SectorSize)) d) (\<lambda>(bs, d1). Inr (overlay 0 bs buf, d1))
             else Inr (buf, d)) (\<lambda>(buf1, d1).
      if \<not> lastAligned \<and> (firstSector \<noteq> lastSec \<or> firstAligned)
      then bindE (ReadAt f (int SectorSize) (int (lastSec * SectorSize)) d1) (\<lambda>(bs, d2).
        Inr (overlay ((lastSec - firstSector) * SectorSize) bs buf1, d2))
      else Inr (buf1, d1)))"

definition WriteAt :: "(nat \<Rightarrow> u8) \<Rightarrow> openfile \<Rightarrow> u8 list \<Rightarrow> int \<Rightarrow> int \<Rightarrow> synchdisk \<Rightarrow> (int \<times> synchdisk) result" where
  "WriteAt junk f src numBytes position d =
     (let fileLength = FileLength (of_hdr f) in
      if numBytes \<le> 0 \<or> position \<ge> fileLength then Inr (0, d)
      else if position < 0 \<or> \<not> in_int (position + numBytes) then Inl Undefined_behaviour
      else
        let n = nat (if position + numBytes > fileLength then fileLength - position else numBytes);
            p = nat position;
            firstSector = divRoundDown p SectorSize;
            lastSec = divRoundDown (p + n - 1) SectorSize;
            numSecs = 1 + lastSec - firstSector in
        bindE (read_edges f p n (map junk [0..<numSecs * SectorSize]) d) (\<lambda>(buf, d1).
        if length src < n then Inl Undefined_behaviour
        else
          bindE (write_run WriteSector (\<lambda>i. ByteToSector (of_hdr f) (int i * int SectorSize)) [firstSector..<Suc lastSec]
                   (overlay (p - firstSector * SectorSize) (take n src) buf) d1)
            (\<lambda>d2. Inr (int n, d2))))"

definition Read :: "openfile \<Rightarrow> int \<Rightarrow> synchdisk \<Rightarrow> (u8 list \<times> openfile \<times> synchdisk) result" where
  "Read f numBytes d =
     bindE (ReadAt f numBytes (seekPosition f) d) (\<lambda>(bs, d1).
       Inr (bs, f\<lparr>seekPosition := seekPosition f + int (length bs)\<rparr>, d1))"

definition Write :: "(nat \<Rightarrow> u8) \<Rightarrow> openfile \<Rightarrow> u8 list \<Rightarrow> int \<Rightarrow> synchdisk \<Rightarrow> (int \<times> openfile \<times> synchdisk) result" where
  "Write junk f src numBytes d =
     bindE (WriteAt junk f src numBytes (seekPosition f) d) (\<lambda>(n, d1).
       Inr (n, f\<lparr>seekPosition := seekPosition f + n\<rparr>, d1))"

definition Length :: "openfile \<Rightarrow> int" where
  "Length f = FileLength (of_hdr f)"

text \<open>\<open>BitMap::FetchFrom\<close> and \<open>BitMap::WriteBack\<close>: the words of the map are the bytes of a file.\<close>

definition words_bytes :: "u32 list \<Rightarrow> u8 list" where
  "words_bytes ws = concat (map word_bytes ws)"

definition bytes_words :: "u8 list \<Rightarrow> u32 list" where
  "bytes_words bs = map (\<lambda>i. bytes_word (take 4 (drop (4 * i) bs))) [0..<length bs div 4]"

definition BitMap_FetchFrom :: "bitmap \<Rightarrow> openfile \<Rightarrow> synchdisk \<Rightarrow> (bitmap \<times> synchdisk) result" where
  "BitMap_FetchFrom b f d =
     bindE (ReadAt f (int (numWords b * 4)) 0 d) (\<lambda>(bs, d1).
       Inr (b\<lparr>bmap := bytes_words (overlay 0 bs (words_bytes (bmap b)))\<rparr>, d1))"

definition BitMap_WriteBack :: "(nat \<Rightarrow> u8) \<Rightarrow> bitmap \<Rightarrow> openfile \<Rightarrow> synchdisk \<Rightarrow> synchdisk result" where
  "BitMap_WriteBack junk b f d =
     bindE (WriteAt junk f (words_bytes (bmap b)) (int (numWords b * 4)) 0 d) (\<lambda>(_, d1). Inr d1)"

section \<open>The bytes of a file\<close>

definition file_bytes :: "synchdisk \<Rightarrow> filehdr \<Rightarrow> u8 list" where
  "file_bytes d h = take (nat (FileLength h)) (concat (map (sector d) (hdr_sectors h)))"

text \<open>The whole sectors of the file.\<close>

definition file_sectors :: "synchdisk \<Rightarrow> filehdr \<Rightarrow> u8 list" where
  "file_sectors d h = concat (map (sector d) (hdr_sectors h))"

lemma file_bytes_eq: "file_bytes d h = take (nat (FileLength h)) (file_sectors d h)"
  by (simp add: file_bytes_def file_sectors_def)

lemma sector_len: "synchdisk_ok d \<Longrightarrow> hdr_ok h \<Longrightarrow> s \<in> set (hdr_sectors h) \<Longrightarrow> length (sector d s) = SectorSize"
  by (intro sd.get_length) (simp_all add: hdr_sectors_less)

lemma length_file_sectors:
  "synchdisk_ok d \<Longrightarrow> hdr_ok h \<Longrightarrow> length (file_sectors d h) = SectorSize * length (hdr_sectors h)"
  unfolding file_sectors_def by (rule length_concat_chunks) (rule sector_len)

lemma length_file_bytes: "synchdisk_ok d \<Longrightarrow> hdr_ok h \<Longrightarrow> length (file_bytes d h) = nat (FileLength h)"
  using FileLength_covered by (simp add: file_bytes_eq length_file_sectors)

lemma file_bytes_nth:
  assumes "synchdisk_ok d" and "hdr_ok h" and "j < nat (FileLength h)"
  shows "file_bytes d h ! j = sector d (hdr_sectors h ! (j div SectorSize)) ! (j mod SectorSize)"
    and "j div SectorSize < length (hdr_sectors h)"
proof -
  have "j < SectorSize * length (hdr_sectors h)" using assms(3) FileLength_covered[OF assms(2)] by linarith
  then show "file_bytes d h ! j = sector d (hdr_sectors h ! (j div SectorSize)) ! (j mod SectorSize)"
    using assms concat_chunks_nth[of "hdr_sectors h" "sector d" SectorSize j]
    by (simp add: file_bytes_def sector_len)
  show "j div SectorSize < length (hdr_sectors h)"
    using \<open>j < SectorSize * length (hdr_sectors h)\<close> by (simp add: less_mult_imp_div_less mult.commute)
qed

lemma file_bytes_cong:
  "(\<And>s. s \<in> set (hdr_sectors h) \<Longrightarrow> sector d' s = sector d s) \<Longrightarrow> file_bytes d' h = file_bytes d h"
  unfolding file_bytes_def by (intro arg_cong[where f = "take _"] arg_cong[where f = concat] map_cong) simp_all

section \<open>Reading\<close>

abbreviation same_sectors :: "synchdisk \<Rightarrow> synchdisk \<Rightarrow> bool" where
  "same_sectors d d' \<equiv> \<forall>r < NumSectors. sector d' r = sector d r"

lemma file_bytes_same: "hdr_ok h \<Longrightarrow> same_sectors d d' \<Longrightarrow> file_bytes d' h = file_bytes d h"
  by (rule file_bytes_cong) (simp add: hdr_sectors_less)

lemma file_sectors_upt: "file_sectors d h = concat (map (\<lambda>i. sector d (hdr_sectors h ! i)) [0..<length (hdr_sectors h)])"
proof -
  have "map (\<lambda>i. sector d (hdr_sectors h ! i)) [0..<length (hdr_sectors h)] = map (sector d) (hdr_sectors h)"
    by (intro nth_equalityI) simp_all
  then show ?thesis by (simp add: file_sectors_def)
qed

lemma file_sectors_range:
  assumes "synchdisk_ok d" and "hdr_ok h" and "a \<le> b" and "b \<le> length (hdr_sectors h)"
  shows "concat (map (\<lambda>i. sector d (hdr_sectors h ! i)) [a..<b]) = drop (SectorSize * a) (take (SectorSize * b) (file_sectors d h))"
proof -
  have l: "length (sector d (hdr_sectors h ! i)) = SectorSize" if "i < length (hdr_sectors h)" for i
    using assms(1,2) that by (simp add: sector_len)
  have "take (SectorSize * b) (file_sectors d h) = concat (map (\<lambda>i. sector d (hdr_sectors h ! i)) [0..<b])"
    unfolding file_sectors_upt using assms(4) l by (rule take_concat_upt)
  moreover have "drop (SectorSize * a) (concat (map (\<lambda>i. sector d (hdr_sectors h ! i)) [0..<b])) =
    concat (map (\<lambda>i. sector d (hdr_sectors h ! i)) [a..<b])"
    using assms(3,4) l by (intro drop_concat_upt) simp_all
  ultimately show ?thesis by simp
qed

lemma read_sectors_ok:
  assumes "synchdisk_ok d" and "hdr_ok h" and "a \<le> b" and "b \<le> length (hdr_sectors h)"
  shows "\<exists>d'. read_run ReadSector (\<lambda>i. ByteToSector h (int i * int SectorSize)) [a..<b] d
      = Inr (drop (SectorSize * a) (take (SectorSize * b) (file_sectors d h)), d')
    \<and> synchdisk_ok d' \<and> same_sectors d d'"
proof -
  have "\<exists>d'. read_run ReadSector (\<lambda>i. ByteToSector h (int i * int SectorSize)) [a..<b] d
      = Inr (concat (map (\<lambda>i. sector d (hdr_sectors h ! i)) [a..<b]), d') \<and> synchdisk_ok d' \<and> same_sectors d d'"
    using assms(1)
  proof (rule sd.read_run_ok[where g = "\<lambda>i. hdr_sectors h ! i"])
    fix i assume "i \<in> set [a..<b]"
    then have "i < length (hdr_sectors h)" using assms(4) by simp
    then show "ByteToSector h (int i * int SectorSize) = Inr (int (hdr_sectors h ! i)) \<and> hdr_sectors h ! i < NumSectors"
      using ByteToSector_ok[OF assms(2)] hdr_ok_bounds(3)[OF assms(2)] by simp
  qed
  then show ?thesis using file_sectors_range[OF assms] by simp
qed

text \<open>The sectors that hold the bytes \<open>p\<close> to \<open>p + n - 1\<close>.\<close>

lemma sector_range:
  assumes "0 < n" and "p + n \<le> SectorSize * k"
  shows "divRoundDown p SectorSize * SectorSize \<le> p"
    and "p < (divRoundDown p SectorSize + 1) * SectorSize"
    and "p + n \<le> SectorSize * Suc (divRoundDown (p + n - 1) SectorSize)"
    and "SectorSize * divRoundDown (p + n - 1) SectorSize < p + n"
    and "divRoundDown p SectorSize \<le> divRoundDown (p + n - 1) SectorSize"
    and "divRoundDown (p + n - 1) SectorSize < k"
proof -
  show "divRoundDown p SectorSize * SectorSize \<le> p" by (simp add: divRoundDown_def)
  show "p < (divRoundDown p SectorSize + 1) * SectorSize"
    using dividend_less_div_times[of 128 p] by (simp add: divRoundDown_def)
  show "p + n \<le> SectorSize * Suc (divRoundDown (p + n - 1) SectorSize)"
    using dividend_less_div_times[of 128 "p + n - 1"] assms(1) unfolding divRoundDown_def by simp
  show "SectorSize * divRoundDown (p + n - 1) SectorSize < p + n"
    using div_mult_mod_eq[of "p + n - 1" 128] assms(1) unfolding divRoundDown_def by linarith
  show "divRoundDown p SectorSize \<le> divRoundDown (p + n - 1) SectorSize"
    using assms(1) by (simp add: divRoundDown_def div_le_mono)
  show "divRoundDown (p + n - 1) SectorSize < k"
    using assms by (simp add: divRoundDown_def less_mult_imp_div_less mult.commute)
qed

text \<open>The number of bytes a request is cut to.\<close>

definition clip :: "nat \<Rightarrow> nat \<Rightarrow> nat \<Rightarrow> nat" where
  "clip len p m = (if p + m > len then len - p else m)"

lemma clip_nat:
  "p < len \<Longrightarrow> nat (if int p + int m > int len then int len - int p else int m) = clip len p m"
  by (auto simp: clip_def)

lemma clip_bounds: "0 < m \<Longrightarrow> p < len \<Longrightarrow> 0 < clip len p m \<and> p + clip len p m \<le> len \<and> clip len p m \<le> m"
  by (auto simp: clip_def)

lemma take_clip: "p < len \<Longrightarrow> take (clip len p m) (drop p xs) = take m (drop p (take len xs))"
  by (auto simp: clip_def drop_take min_def)

lemma ReadAt_eq:
  assumes "FileLength (of_hdr f) = int len" and "0 < m" and "p < len" and "in_int (int p + int m)"
  shows "ReadAt f (int m) (int p) d =
    bindE (read_run ReadSector (\<lambda>i. ByteToSector (of_hdr f) (int i * int SectorSize))
        [divRoundDown p SectorSize..<Suc (divRoundDown (p + clip len p m - 1) SectorSize)] d)
      (\<lambda>(buf, d1). Inr (take (clip len p m) (drop (p - divRoundDown p SectorSize * SectorSize) buf), d1))"
  using assms by (simp add: ReadAt_def Let_def clip_nat del: upt_Suc)

lemma ReadAt_ok:
  assumes ok: "synchdisk_ok d" and h: "hdr_ok (of_hdr f)" and i: "in_int (int p + int m)"
  shows "\<exists>d'. ReadAt f (int m) (int p) d = Inr (take m (drop p (file_bytes d (of_hdr f))), d')
    \<and> synchdisk_ok d' \<and> same_sectors d d'"
proof -
  let ?h = "of_hdr f"
  obtain len where len: "FileLength ?h = int len" using hdr_ok_bounds(5)[OF h] nonneg_int_cases by blast
  show ?thesis
  proof (cases "m = 0 \<or> len \<le> p")
    case True
    then show ?thesis using ok len length_file_bytes[OF ok h] by (auto simp: ReadAt_def)
  next
    case False
    define n where "n = clip len p m"
    have n: "0 < n" "p + n \<le> len" using False clip_bounds by (simp_all add: n_def)
    have cover: "len \<le> SectorSize * length (hdr_sectors ?h)" using FileLength_covered[OF h] len by simp
    define a where "a = divRoundDown p SectorSize"
    define b where "b = Suc (divRoundDown (p + n - 1) SectorSize)"
    have r: "a * SectorSize \<le> p" "p + n \<le> SectorSize * b" "a \<le> b" "b \<le> length (hdr_sectors ?h)"
      unfolding a_def b_def using sector_range[OF n(1) order_trans[OF n(2) cover]] by simp_all
    obtain d' where d': "read_run ReadSector (\<lambda>i. ByteToSector ?h (int i * int SectorSize)) [a..<b] d
        = Inr (drop (SectorSize * a) (take (SectorSize * b) (file_sectors d ?h)), d')"
      "synchdisk_ok d'" "same_sectors d d'"
      using read_sectors_ok[OF ok h r(3,4)] by blast
    have "take n (drop (p - a * SectorSize) (drop (SectorSize * a) (take (SectorSize * b) (file_sectors d ?h))))
        = take n (drop p (file_sectors d ?h))"
      using r(1,2) by (simp add: take_drop_take mult.commute)
    also have "\<dots> = take m (drop p (file_bytes d ?h))"
      using False by (simp add: file_bytes_eq len n_def take_clip)
    finally have "ReadAt f (int m) (int p) d = Inr (take m (drop p (file_bytes d ?h)), d')"
      using False i d'(1) ReadAt_eq[OF len _ _ i] by (simp add: a_def b_def n_def del: upt_Suc)
    then show ?thesis using d' by blast
  qed
qed

section \<open>Writing\<close>

lemma WriteAt_eq:
  assumes "FileLength (of_hdr f) = int len" and "0 < m" and "p < len" and "in_int (int p + int m)"
    and "clip len p m \<le> length src"
  shows "WriteAt junk f src (int m) (int p) d =
    (let a = divRoundDown p SectorSize; e = divRoundDown (p + clip len p m - 1) SectorSize in
     bindE (read_edges f p (clip len p m) (map junk [0..<(1 + e - a) * SectorSize]) d) (\<lambda>(buf, d1).
     bindE (write_run WriteSector (\<lambda>i. ByteToSector (of_hdr f) (int i * int SectorSize)) [a..<Suc e]
        (overlay (p - a * SectorSize) (take (clip len p m) src) buf) d1) (\<lambda>d2. Inr (int (clip len p m), d2))))"
  using assms by (simp add: WriteAt_def Let_def clip_nat del: upt_Suc)

text \<open>A sector of the file read at the start of a piece of the buffer.\<close>

lemma read_edge_ok:
  assumes ok: "synchdisk_ok d" and h: "hdr_ok (of_hdr f)" and i: "i < length (hdr_sectors (of_hdr f))"
  shows "\<exists>bs d'. ReadAt f (int SectorSize) (int (i * SectorSize)) d = Inr (bs, d') \<and> synchdisk_ok d' \<and> same_sectors d d'
    \<and> length bs \<le> SectorSize
    \<and> (\<forall>j. i * SectorSize \<le> j \<and> j < (i + 1) * SectorSize \<and> j < nat (FileLength (of_hdr f)) \<longrightarrow>
        j - i * SectorSize < length bs \<and> bs ! (j - i * SectorSize) = file_bytes d (of_hdr f) ! j)"
proof -
  have "i * SectorSize < NumDirect * SectorSize" using i hdr_ok_bounds(1)[OF h] by linarith
  then have "in_int (int (i * SectorSize) + int SectorSize)" by (simp add: in_int_def)
  then obtain d' where d': "ReadAt f (int SectorSize) (int (i * SectorSize)) d
      = Inr (take SectorSize (drop (i * SectorSize) (file_bytes d (of_hdr f))), d')" "synchdisk_ok d'" "same_sectors d d'"
    using ReadAt_ok[OF ok h, of "i * SectorSize" SectorSize] by blast
  then show ?thesis
    by (intro exI[of _ "take SectorSize (drop (i * SectorSize) (file_bytes d (of_hdr f)))"] exI[of _ d'])
      (auto simp: length_file_bytes[OF ok h])
qed

lemma read_edges_ok:
  assumes ok: "synchdisk_ok d" and h: "hdr_ok (of_hdr f)" and len: "FileLength (of_hdr f) = int len"
    and n: "0 < n" "p + n \<le> len"
    and a: "a = divRoundDown p SectorSize" and e: "e = divRoundDown (p + n - 1) SectorSize"
    and buf: "length buf = (1 + e - a) * SectorSize"
  shows "\<exists>buf1 d1. read_edges f p n buf d = Inr (buf1, d1) \<and> synchdisk_ok d1 \<and> same_sectors d d1 \<and> length buf1 = length buf
    \<and> (\<forall>j < len. a * SectorSize \<le> j \<and> j < (e + 1) * SectorSize \<and> (j < p \<or> p + n \<le> j) \<longrightarrow>
        buf1 ! (j - a * SectorSize) = file_bytes d (of_hdr f) ! j)"
proof -
  let ?h = "of_hdr f" and ?K = SectorSize
  have cover: "len \<le> SectorSize * length (hdr_sectors ?h)" using FileLength_covered[OF h] len by simp
  have r: "a * ?K \<le> p" "p < (a + 1) * ?K" "p + n \<le> ?K * Suc e" "?K * e < p + n" "a \<le> e" "e < length (hdr_sectors ?h)"
    unfolding a e using sector_range[OF n(1) order_trans[OF n(2) cover]] by simp_all
  text \<open>The first sector.\<close>
  obtain bufa da where A: "(if p \<noteq> a * ?K
      then bindE (ReadAt f (int ?K) (int (a * ?K)) d) (\<lambda>(bs, d1). Inr (overlay 0 bs buf, d1)) else Inr (buf, d)) = Inr (bufa, da)"
    "synchdisk_ok da" "same_sectors d da" "length bufa = length buf"
    "p \<noteq> a * ?K \<Longrightarrow> a * ?K \<le> j \<Longrightarrow> j < (a + 1) * ?K \<Longrightarrow> j < len \<Longrightarrow> bufa ! (j - a * ?K) = file_bytes d ?h ! j" for j
  proof (cases "p = a * ?K")
    case True
    then show ?thesis using that[of buf d] ok by simp
  next
    case False
    obtain bs d' where R: "ReadAt f (int ?K) (int (a * ?K)) d = Inr (bs, d')" "synchdisk_ok d'" "same_sectors d d'" "length bs \<le> ?K"
      "\<forall>j. a * ?K \<le> j \<and> j < (a + 1) * ?K \<and> j < len \<longrightarrow> j - a * ?K < length bs \<and> bs ! (j - a * ?K) = file_bytes d ?h ! j"
      using read_edge_ok[OF ok h, of a] r(5,6) len by auto
    have fit: "0 + length bs \<le> length buf" using R(4) buf r(5) by simp
    have "overlay 0 bs buf ! (j - a * ?K) = file_bytes d ?h ! j" if "a * ?K \<le> j" "j < (a + 1) * ?K" "j < len" for j
      using R(5) that fit by (subst nth_overlay) auto
    then show ?thesis using that[of "overlay 0 bs buf" d'] False R fit by simp
  qed
  text \<open>The last sector.\<close>
  have fa: "file_bytes da ?h = file_bytes d ?h" using h A(3) by (rule file_bytes_same)
  have "read_edges f p n buf d = (if p + n \<noteq> (e + 1) * ?K \<and> (a \<noteq> e \<or> p = a * ?K)
      then bindE (ReadAt f (int ?K) (int (e * ?K)) da) (\<lambda>(bs, d2). Inr (overlay ((e - a) * ?K) bs bufa, d2)) else Inr (bufa, da))"
    unfolding read_edges_def Let_def a[symmetric] e[symmetric] by (subst A(1)) simp
  moreover obtain bs d' where R: "ReadAt f (int ?K) (int (e * ?K)) da = Inr (bs, d')" "synchdisk_ok d'" "same_sectors da d'"
      "length bs \<le> ?K"
      "\<forall>j. e * ?K \<le> j \<and> j < (e + 1) * ?K \<and> j < len \<longrightarrow> j - e * ?K < length bs \<and> bs ! (j - e * ?K) = file_bytes d ?h ! j"
    using read_edge_ok[OF A(2) h r(6)] len fa by auto
  moreover have fit: "(e - a) * ?K + length bs \<le> length bufa" using R(4) A(4) buf r(5) by (simp add: algebra_simps)
  text \<open>A byte in front of the range is in the first sector, a byte behind it in the last.\<close>
  moreover have edge: "j < p \<Longrightarrow> a * ?K \<le> j \<Longrightarrow> p \<noteq> a * ?K \<and> j < (a + 1) * ?K"
    "p + n \<le> j \<Longrightarrow> j < (e + 1) * ?K \<Longrightarrow> p + n \<noteq> (e + 1) * ?K \<and> e * ?K \<le> j" for j
    using r by linarith+
  moreover have "overlay ((e - a) * ?K) bs bufa ! (j - a * ?K) = file_bytes d ?h ! j"
    if "a * ?K \<le> j" "j < (e + 1) * ?K" "j < p \<or> p + n \<le> j" "j < len" for j
  proof -
    have i: "j - a * ?K < length bufa" using that(1,2) A(4) buf r(5) by (simp add: algebra_simps)
    have s: "(e - a) * ?K \<le> j - a * ?K \<longleftrightarrow> e * ?K \<le> j" "j - a * ?K - (e - a) * ?K = j - e * ?K"
      using that(1) r(5) by (auto simp: diff_mult_distrib)
    show ?thesis
    proof (cases "e * ?K \<le> j")
      case True
      then show ?thesis using R(5) that i s fit by (subst nth_overlay) auto
    next
      case False
      then have "j < p" using that(2,3) edge(2) by blast
      then show ?thesis using False A(5) edge(1) that i s fit by (subst nth_overlay) auto
    qed
  qed
  moreover have "bufa ! (j - a * ?K) = file_bytes d ?h ! j"
    if "a * ?K \<le> j" "j < (e + 1) * ?K" "j < p \<or> p + n \<le> j" "j < len" "p + n = (e + 1) * ?K \<or> a = e \<and> p \<noteq> a * ?K" for j
    using that A(5) edge by (metis not_less)
  ultimately show ?thesis
    using A(2-4) by (cases "p + n \<noteq> (e + 1) * ?K \<and> (a \<noteq> e \<or> p = a * ?K)") auto
qed

lemma overlay_Nil [simp]: "overlay p [] xs = xs"
  by (simp add: overlay_def)

lemma clip_min: "p < len \<Longrightarrow> clip len p m = min m (len - p)"
  by (auto simp: clip_def min_def)

lemma write_sectors_ok:
  assumes "synchdisk_ok d" and h: "hdr_ok h" and b: "b \<le> length (hdr_sectors h)"
    and buf: "length buf = SectorSize * (b - a)"
  shows "\<exists>d'. write_run WriteSector (\<lambda>i. ByteToSector h (int i * int SectorSize)) [a..<b] buf d = Inr d'
    \<and> synchdisk_ok d' \<and> (\<forall>r < NumSectors. r \<notin> (!) (hdr_sectors h) ` {a..<b} \<longrightarrow> sector d' r = sector d r)
    \<and> (\<forall>i. a \<le> i \<and> i < b \<longrightarrow> sector d' (hdr_sectors h ! i) = take SectorSize (drop (SectorSize * (i - a)) buf))"
proof -
  have dist: "distinct (map ((!) (hdr_sectors h)) [a..<b])"
    using hdr_ok_bounds(4)[OF h] b by (auto simp: distinct_map inj_on_def distinct_index_unique)
  have ix: "ByteToSector h (int i * int SectorSize) = Inr (int (hdr_sectors h ! i)) \<and> hdr_sectors h ! i < NumSectors"
    if "i \<in> set [a..<b]" for i
    using that b ByteToSector_ok[OF h] hdr_ok_bounds(3)[OF h] by simp
  obtain d' where w: "write_run WriteSector (\<lambda>i. ByteToSector h (int i * int SectorSize)) [a..<b] buf d = Inr d'"
    "synchdisk_ok d'" "\<forall>r < NumSectors. r \<notin> (!) (hdr_sectors h) ` set [a..<b] \<longrightarrow> sector d' r = sector d r"
    "\<forall>j < length [a..<b]. sector d' (hdr_sectors h ! ([a..<b] ! j)) = take SectorSize (drop (SectorSize * j) buf)"
    using sd.write_run_ok[OF assms(1) ix dist, of buf] buf by (metis length_upt)
  have "sector d' (hdr_sectors h ! i) = take SectorSize (drop (SectorSize * (i - a)) buf)" if "a \<le> i" "i < b" for i
    using w(4)[rule_format, of "i - a"] that by simp
  then show ?thesis using w(1-3) by auto
qed

lemma WriteAt_ok:
  assumes ok: "synchdisk_ok d" and h: "hdr_ok (of_hdr f)" and i: "in_int (int p + int m)" and src: "m \<le> length src"
  shows "\<exists>d'. WriteAt junk f src (int m) (int p) d = Inr (int (min m (nat (FileLength (of_hdr f)) - p)), d')
    \<and> synchdisk_ok d'
    \<and> file_bytes d' (of_hdr f) = overlay p (take (min m (nat (FileLength (of_hdr f)) - p)) src) (file_bytes d (of_hdr f))
    \<and> (\<forall>r < NumSectors. r \<notin> set (hdr_sectors (of_hdr f)) \<longrightarrow> sector d' r = sector d r)"
proof -
  let ?h = "of_hdr f" and ?K = SectorSize
  obtain len where len: "FileLength ?h = int len" using hdr_ok_bounds(5)[OF h] nonneg_int_cases by blast
  show ?thesis
  proof (cases "m = 0 \<or> len \<le> p")
    case True
    then show ?thesis using ok len by (auto simp: WriteAt_def)
  next
    case False
    define n where "n = clip len p m"
    have n: "0 < n" "p + n \<le> len" "n \<le> length src" "n = min m (len - p)"
      using False clip_bounds[of m p len] clip_min[of p len m] src by (auto simp: n_def)
    have cover: "len \<le> ?K * length (hdr_sectors ?h)" using FileLength_covered[OF h] len by simp
    define a where "a = divRoundDown p ?K"
    define e where "e = divRoundDown (p + n - 1) ?K"
    have r: "a * ?K \<le> p" "p + n \<le> ?K * Suc e" "a \<le> e" "e < length (hdr_sectors ?h)"
      unfolding a_def e_def using sector_range[OF n(1) order_trans[OF n(2) cover]] by simp_all
    let ?buf0 = "map junk [0..<(1 + e - a) * ?K]"
    obtain buf1 d1 where E: "read_edges f p n ?buf0 d = Inr (buf1, d1)" "synchdisk_ok d1" "same_sectors d d1"
      "length buf1 = (1 + e - a) * ?K"
      "\<forall>j < len. a * ?K \<le> j \<and> j < (e + 1) * ?K \<and> (j < p \<or> p + n \<le> j) \<longrightarrow> buf1 ! (j - a * ?K) = file_bytes d ?h ! j"
      using read_edges_ok[OF ok h len n(1,2) a_def e_def, of ?buf0] by auto
    let ?buf2 = "overlay (p - a * ?K) (take n src) buf1"
    have fit: "p - a * ?K + length (take n src) \<le> length buf1"
      using r n(3) E(4) by (simp add: diff_mult_distrib add.commute)
    have len2: "length ?buf2 = ?K * (Suc e - a)" using fit E(4) r(3) by (simp add: mult.commute)
    obtain d2 where W: "write_run WriteSector (\<lambda>i. ByteToSector ?h (int i * int ?K)) [a..<Suc e] ?buf2 d1 = Inr d2"
      "synchdisk_ok d2" "\<forall>q < NumSectors. q \<notin> (!) (hdr_sectors ?h) ` {a..<Suc e} \<longrightarrow> sector d2 q = sector d1 q"
      "\<forall>i. a \<le> i \<and> i < Suc e \<longrightarrow> sector d2 (hdr_sectors ?h ! i) = take ?K (drop (?K * (i - a)) ?buf2)"
      using write_sectors_ok[OF E(2) h, of "Suc e" ?buf2 a] r(4) len2 by auto
    have run: "WriteAt junk f src (int m) (int p) d = Inr (int n, d2)"
      using WriteAt_eq[OF len _ _ i n(3)[unfolded n_def], folded n_def, folded a_def e_def, of junk d] False
      by (simp only: Let_def E(1) W(1) bindE_Inr prod.case) simp
    have bytes: "file_bytes d2 ?h ! j = overlay p (take n src) (file_bytes d ?h) ! j" if j: "j < len" for j
    proof -
      have "length (file_bytes d ?h) = len" using length_file_bytes[OF ok h] len by simp
      then have "overlay p (take n src) (file_bytes d ?h) ! j
          = (if p \<le> j \<and> j < p + n then take n src ! (j - p) else file_bytes d ?h ! j)"
        using j n(2,3) by (subst nth_overlay) (auto simp: min_def)
      then have new: "overlay p (take n src) (file_bytes d ?h) ! j
          = (if p \<le> j \<and> j < p + n then src ! (j - p) else file_bytes d ?h ! j)"
        by (cases "p \<le> j \<and> j < p + n") auto
      have at: "file_bytes d2 ?h ! j = sector d2 (hdr_sectors ?h ! (j div ?K)) ! (j mod ?K)"
        "file_bytes d ?h ! j = sector d (hdr_sectors ?h ! (j div ?K)) ! (j mod ?K)" "j div ?K < length (hdr_sectors ?h)"
        using file_bytes_nth[OF W(2) h, of j] file_bytes_nth[OF ok h, of j] j len by simp_all
      have jm: "j div ?K * ?K + j mod ?K = j" by simp
      show ?thesis
      proof (cases "a \<le> j div ?K \<and> j div ?K \<le> e")
        case True
        then have off: "?K * (j div ?K - a) + j mod ?K = j - a * ?K" "a * ?K \<le> j" "j < (e + 1) * ?K"
          using jm mult_le_mono1[of a "j div ?K" ?K] mult_le_mono1[of "j div ?K" e ?K] mod_less_divisor[of ?K j]
          by (simp_all add: diff_mult_distrib2) linarith+
        have "file_bytes d2 ?h ! j = ?buf2 ! (j - a * ?K)"
          using True at(1) W(4) off len2 by simp
        also have "\<dots> = (if p \<le> j \<and> j < p + n then src ! (j - p) else buf1 ! (j - a * ?K))"
        proof -
          have "p - a * ?K \<le> j - a * ?K \<longleftrightarrow> p \<le> j" "j - a * ?K - (p - a * ?K) = j - p"
            "j - a * ?K < p - a * ?K + length (take n src) \<longleftrightarrow> j < p + n"
            using r(1) n(3) off(2) by auto
          moreover have "j - a * ?K < length buf1" using off(3) E(4) r(3) by (simp add: diff_mult_distrib)
          ultimately have "?buf2 ! (j - a * ?K) = (if p \<le> j \<and> j < p + n then take n src ! (j - p) else buf1 ! (j - a * ?K))"
            using fit by (simp only: nth_overlay)
          then show ?thesis by (cases "p \<le> j \<and> j < p + n") auto
        qed
        also have "\<dots> = overlay p (take n src) (file_bytes d ?h) ! j"
          using E(5) j off(2,3) new by auto
        finally show ?thesis .
      next
        case False
        then consider "j div ?K + 1 \<le> a" | "Suc e \<le> j div ?K" by linarith
        then have out: "j < p \<or> p + n \<le> j"
        proof cases
          case 1
          then have "(j div ?K + 1) * ?K \<le> a * ?K" by (rule mult_le_mono1)
          then show ?thesis using dividend_less_div_times[of ?K j] r(1) by simp
        next
          case 2
          then have "Suc e * ?K \<le> j div ?K * ?K" by (rule mult_le_mono1)
          then show ?thesis using jm r(2) by (simp only: mult.commute) linarith
        qed
        have "hdr_sectors ?h ! (j div ?K) \<notin> (!) (hdr_sectors ?h) ` {a..<Suc e}"
        proof
          assume "hdr_sectors ?h ! (j div ?K) \<in> (!) (hdr_sectors ?h) ` {a..<Suc e}"
          then obtain i' where i': "i' \<in> {a..<Suc e}" "hdr_sectors ?h ! (j div ?K) = hdr_sectors ?h ! i'" by blast
          then have "j div ?K = i'"
            using distinct_index_unique[OF hdr_ok_bounds(4)[OF h] at(3)] r(4) by simp
          then show False using False i'(1) by simp
        qed
        then have "sector d2 (hdr_sectors ?h ! (j div ?K)) = sector d (hdr_sectors ?h ! (j div ?K))"
          using W(3) E(3) hdr_ok_bounds(3)[OF h at(3)] by simp
        then show ?thesis using at(1,2) new out by auto
      qed
    qed
    have "file_bytes d2 ?h = overlay p (take n src) (file_bytes d ?h)"
      using bytes n length_file_bytes[OF ok h] length_file_bytes[OF W(2) h] len by (intro nth_equalityI) simp_all
    moreover have "sector d2 q = sector d q" if "q < NumSectors" "q \<notin> set (hdr_sectors ?h)" for q
      using that W(3) E(3) r(4) by (auto simp: image_iff)
    ultimately show ?thesis using run W(2) n(4) len by auto
  qed
qed

text \<open>
  an open file is an array of bytes. \<open>WriteAt\<close> stores as many bytes as fit between the
  offset and the end of the file and says how many; it reads the sectors it changes only in part
  first, so no other byte of the file changes, and no byte of a file with other sectors does.
  \<open>ReadAt\<close> returns the bytes of the array, cut at its end.
\<close>

theorem file_write_then_read:
  assumes "synchdisk_ok d" and "hdr_ok (of_hdr f)" and "hdr_ok (of_hdr g)"
    and "set (hdr_sectors (of_hdr f)) \<inter> set (hdr_sectors (of_hdr g)) = {}"
    and "in_int (int p + int m)" and "in_int (int q + int r)" and "m \<le> length src"
  shows "\<exists>k d1 d2 d3. k = min m (nat (FileLength (of_hdr f)) - p)
    \<and> WriteAt junk f src (int m) (int p) d = Inr (int k, d1) \<and> synchdisk_ok d1
    \<and> ReadAt f (int r) (int q) d1 = Inr (take r (drop q (overlay p (take k src) (file_bytes d (of_hdr f)))), d2)
    \<and> ReadAt g (int r) (int q) d1 = Inr (take r (drop q (file_bytes d (of_hdr g))), d3)"
proof -
  obtain d1 where w: "WriteAt junk f src (int m) (int p) d = Inr (int (min m (nat (FileLength (of_hdr f)) - p)), d1)"
    "synchdisk_ok d1"
    "file_bytes d1 (of_hdr f) = overlay p (take (min m (nat (FileLength (of_hdr f)) - p)) src) (file_bytes d (of_hdr f))"
    "\<forall>s < NumSectors. s \<notin> set (hdr_sectors (of_hdr f)) \<longrightarrow> sector d1 s = sector d s"
    using WriteAt_ok[OF assms(1,2,5,7)] by blast
  have "file_bytes d1 (of_hdr g) = file_bytes d (of_hdr g)"
    using assms(4) w(4) hdr_sectors_less[OF assms(3)] by (intro file_bytes_cong) blast
  then show ?thesis
    using w ReadAt_ok[OF w(2) assms(2,6)] ReadAt_ok[OF w(2) assms(3,6)] by metis
qed

theorem file_write_then_read_witness:
  "\<exists>f g d d1 d2 d3. FileLength (of_hdr f) = 300 \<and> FileLength (of_hdr g) = 10
    \<and> WriteAt (\<lambda>_. 9) f [1, 2, 3] 3 127 d = Inr (3, d1)
    \<and> ReadAt f 2 128 d1 = Inr ([2, 3], d2) \<and> ReadAt g 2 128 d1 = Inr ([], d3)"
proof -
  obtain b where b: "bitmap_wf b" "numBits b = NumSectors" "marked b = {}" using BitMap_new_ex[of "\<lambda>_. 0" NumSectors] by blast
  have bl: "length (fh_data blank_header) = NumDirect" by (simp add: blank_header_def)
  obtain h b1 where h: "hdr_ok h" "FileLength h = int 300" "bitmap_wf b1" "numBits b1 = numBits b"
    "marked b1 = marked b \<union> set (hdr_sectors h)" "set (hdr_sectors h) \<inter> marked b = {}"
    using Allocate_ok[OF b(1,2) bl, of 300] b(3) by (auto simp: divRoundUp_def)
  have "card (marked b1) \<le> 30"
    using h(5) b(3) card_length[of "hdr_sectors h"] hdr_ok_bounds(1)[OF h(1)] by simp
  then have "divRoundUp 10 SectorSize \<le> NumSectors - card (marked b1)" by (simp add: divRoundUp_def)
  then obtain h' where g: "hdr_ok h'" "FileLength h' = int 10" "set (hdr_sectors h') \<inter> marked b1 = {}"
    using Allocate_ok[OF h(3) _ bl, of 10] h(4) b(2) by auto
  obtain d0 where d: "synchdisk_ok (SynchDisk_new d0)" using Disk_new_None by blast
  let ?d = "SynchDisk_new d0" and ?f = "\<lparr>of_hdr = h, seekPosition = 0\<rparr>" and ?g = "\<lparr>of_hdr = h', seekPosition = 0\<rparr>"
  have disj: "set (hdr_sectors (of_hdr ?f)) \<inter> set (hdr_sectors (of_hdr ?g)) = {}" using g(3) h(5) by auto
  obtain d1 d2 d3 where r: "WriteAt (\<lambda>_. 9) ?f [1, 2, 3] (int 3) (int 127) ?d = Inr (int 3, d1)"
    "ReadAt ?f (int 2) (int 128) d1 = Inr (take 2 (drop 128 (overlay 127 [1, 2, 3] (file_bytes ?d h))), d2)"
    "ReadAt ?g (int 2) (int 128) d1 = Inr (take 2 (drop 128 (file_bytes ?d h')), d3)"
    using file_write_then_read[OF d _ _ disj, of 127 3 128 2 "[1, 2, 3]" "\<lambda>_. 9"] h(1,2) g(1)
    by (auto simp: in_int_def)
  have "length (file_bytes ?d h) = 300" "length (file_bytes ?d h') = 10"
    using length_file_bytes[OF d h(1)] length_file_bytes[OF d g(1)] h(2) g(2) by simp_all
  then show ?thesis
    using r h(2) g(2) by (intro exI[of _ ?f] exI[of _ ?g] exI[of _ ?d] exI[of _ d1] exI[of _ d2] exI[of _ d3] conjI)
      (simp_all add: overlay_def)
qed

section \<open>Bitmaps in files\<close>

lemma length_words_bytes [simp]: "length (words_bytes ws) = 4 * length ws"
  unfolding words_bytes_def by (rule length_concat_chunks) simp

lemma bytes_words_bytes [simp]: "bytes_words (words_bytes ws) = ws"
proof (rule nth_equalityI)
  show "length (bytes_words (words_bytes ws)) = length ws" by (simp add: bytes_words_def)
  fix i assume "i < length (bytes_words (words_bytes ws))"
  then have i: "i < length ws" by (simp add: bytes_words_def)
  then have "take 4 (drop (4 * i) (words_bytes ws)) = word_bytes (ws ! i)"
    unfolding words_bytes_def by (intro concat_chunk) simp_all
  then show "bytes_words (words_bytes ws) ! i = ws ! i" using i by (simp add: bytes_words_def)
qed

lemma words_bytes_words: "4 dvd length bs \<Longrightarrow> words_bytes (bytes_words bs) = bs"
proof -
  assume "4 dvd length bs"
  then obtain n where n: "length bs = 4 * n" by (rule dvdE)
  have "words_bytes (bytes_words bs) = concat (map (\<lambda>i. take 4 (drop (4 * i) bs)) [0..<n])"
    unfolding words_bytes_def bytes_words_def map_map o_def n
    by (intro arg_cong[where f = concat] map_cong) (simp_all add: word_bytes_word n)
  then show ?thesis using chunks_concat[OF n] by simp
qed

text \<open>A bitmap written to a file that is long enough, and read from it.\<close>

lemma WriteBack_ok:
  assumes "synchdisk_ok d" and "hdr_ok (of_hdr f)" and "bitmap_wf b" and "4 * numWords b \<le> nat (FileLength (of_hdr f))"
  shows "\<exists>d'. BitMap_WriteBack junk b f d = Inr d' \<and> synchdisk_ok d'
    \<and> file_bytes d' (of_hdr f) = overlay 0 (words_bytes (bmap b)) (file_bytes d (of_hdr f))
    \<and> (\<forall>r < NumSectors. r \<notin> set (hdr_sectors (of_hdr f)) \<longrightarrow> sector d' r = sector d r)"
proof -
  have l: "length (words_bytes (bmap b)) = numWords b * 4" using assms(3) by (simp add: bitmap_wf_def)
  have "numWords b * 4 \<le> SectorSize * NumDirect"
    using FileLength_covered[OF assms(2)] hdr_ok_bounds(1)[OF assms(2)] assms(4) by linarith
  then have i: "in_int (int 0 + int (numWords b * 4))" by (simp add: in_int_def)
  show ?thesis
    using WriteAt_ok[OF assms(1,2) i, of "words_bytes (bmap b)" junk] assms(4) l
    by (auto simp: BitMap_WriteBack_def min_def mult.commute)
qed

lemma FetchFrom_ok:
  assumes "synchdisk_ok d" and "hdr_ok (of_hdr f)" and "bitmap_wf b" and "4 * numWords b \<le> nat (FileLength (of_hdr f))"
  shows "\<exists>d'. BitMap_FetchFrom b f d
      = Inr (b\<lparr>bmap := bytes_words (take (4 * numWords b) (file_bytes d (of_hdr f)))\<rparr>, d')
    \<and> synchdisk_ok d' \<and> same_sectors d d'"
proof -
  have l: "length (words_bytes (bmap b)) = numWords b * 4" using assms(3) by (simp add: bitmap_wf_def)
  have "numWords b * 4 \<le> SectorSize * NumDirect"
    using FileLength_covered[OF assms(2)] hdr_ok_bounds(1)[OF assms(2)] assms(4) by linarith
  then have i: "in_int (int 0 + int (numWords b * 4))" by (simp add: in_int_def)
  have "overlay 0 (take (numWords b * 4) (file_bytes d (of_hdr f))) (words_bytes (bmap b))
      = take (numWords b * 4) (file_bytes d (of_hdr f))"
    using l length_file_bytes[OF assms(1,2)] assms(4) by (simp add: overlay_def mult.commute)
  then show ?thesis
    using ReadAt_ok[OF assms(1,2) i] by (auto simp: BitMap_FetchFrom_def mult.commute)
qed

end
