(* ===== verification/FileDirectory.thy ===== *)
theory FileDirectory
  imports OpenFile
begin

text \<open>
  \<open>filesys/directory.cc\<close>: the directory, a table of entries with a name and the sector of a file
  header, kept in a file. An entry is 20 bytes of memory: the flag, three bytes of padding, the
  sector, ten bytes of name and two of padding. A file name is the list of its characters in front
  of the NUL. Only its first nine characters count: \<open>strncmp\<close> and \<open>strncpy\<close> stop there.
  \<open>name_table\<close> states what the file system relies on.
\<close>

section \<open>Entries\<close>

abbreviation (input) FileNameMaxLen :: nat where "FileNameMaxLen \<equiv> 9"
abbreviation (input) EntrySize :: nat where "EntrySize \<equiv> 20"

record direntry =
  de_inUse :: u8
  de_pad :: "u8 list"
  de_sector :: u32
  de_name :: "u8 list"
  de_pad2 :: "u8 list"

definition entry_bytes :: "direntry \<Rightarrow> u8 list" where
  "entry_bytes e = [de_inUse e] @ de_pad e @ word_bytes (de_sector e) @ de_name e @ de_pad2 e"

definition entry_of :: "u8 list \<Rightarrow> direntry" where
  "entry_of bs = \<lparr>de_inUse = bs ! 0, de_pad = take 3 (drop 1 bs), de_sector = bytes_word (take 4 (drop 4 bs)),
     de_name = take 10 (drop 8 bs), de_pad2 = take 2 (drop 18 bs)\<rparr>"

definition entry_wf :: "direntry \<Rightarrow> bool" where
  "entry_wf e \<longleftrightarrow> length (de_pad e) = 3 \<and> length (de_name e) = FileNameMaxLen + 1 \<and> length (de_pad2 e) = 2"

section \<open>Operations\<close>

text \<open>\<open>strncmp(a, b, n) == 0\<close> for arrays with a NUL among them or of at least \<open>n\<close> characters\<close>

fun strncmp0 :: "nat \<Rightarrow> u8 list \<Rightarrow> u8 list \<Rightarrow> bool" where
  "strncmp0 0 a b = True"
| "strncmp0 (Suc n) (x # a) (y # b) = (x = y \<and> (x = 0 \<or> strncmp0 n a b))"
| "strncmp0 (Suc n) a b = False"

text \<open>\<open>strncpy\<close>: the characters of the string, then NULs, \<open>n\<close> in all\<close>

definition strncpy :: "u8 list \<Rightarrow> u8 list \<Rightarrow> nat \<Rightarrow> u8 list" where
  "strncpy dst src n = overlay 0 (take n (src @ replicate n 0)) dst"

definition Directory_new :: "(nat \<Rightarrow> direntry) \<Rightarrow> nat \<Rightarrow> direntry list" where
  "Directory_new junk n = map (\<lambda>i. (junk i)\<lparr>de_inUse := 0\<rparr>) [0..<n]"

definition table_bytes :: "direntry list \<Rightarrow> u8 list" where
  "table_bytes t = concat (map entry_bytes t)"

definition table_of :: "nat \<Rightarrow> u8 list \<Rightarrow> direntry list" where
  "table_of n bs = map (\<lambda>i. entry_of (take EntrySize (drop (EntrySize * i) bs))) [0..<n]"

definition Directory_FetchFrom :: "direntry list \<Rightarrow> openfile \<Rightarrow> synchdisk \<Rightarrow> (direntry list \<times> synchdisk) result" where
  "Directory_FetchFrom t f d =
     bindE (ReadAt f (int (length t * EntrySize)) 0 d) (\<lambda>(bs, d1).
       Inr (table_of (length t) (overlay 0 bs (table_bytes t)), d1))"

definition Directory_WriteBack :: "(nat \<Rightarrow> u8) \<Rightarrow> direntry list \<Rightarrow> openfile \<Rightarrow> synchdisk \<Rightarrow> synchdisk result" where
  "Directory_WriteBack junk t f d =
     bindE (WriteAt junk f (table_bytes t) (int (length t * EntrySize)) 0 d) (\<lambda>(_, d1). Inr d1)"

fun find_index :: "nat list \<Rightarrow> direntry list \<Rightarrow> u8 list \<Rightarrow> int" where
  "find_index [] t name = -1"
| "find_index (i # is) t name =
     (if de_inUse (t ! i) \<noteq> 0 \<and> strncmp0 FileNameMaxLen (de_name (t ! i)) (name @ [0]) then int i
      else find_index is t name)"

definition FindIndex :: "direntry list \<Rightarrow> u8 list \<Rightarrow> int" where
  "FindIndex t name = find_index [0..<length t] t name"

definition Directory_Find :: "direntry list \<Rightarrow> u8 list \<Rightarrow> int" where
  "Directory_Find t name =
     (let i = FindIndex t name in if i \<noteq> -1 then sint (de_sector (t ! nat i)) else -1)"

fun add_loop :: "nat list \<Rightarrow> direntry list \<Rightarrow> u8 list \<Rightarrow> int \<Rightarrow> bool \<times> direntry list" where
  "add_loop [] t name newSector = (False, t)"
| "add_loop (i # is) t name newSector =
     (if de_inUse (t ! i) = 0
      then (True, t[i := (t ! i)\<lparr>de_inUse := 1, de_name := strncpy (de_name (t ! i)) name FileNameMaxLen,
                                 de_sector := word_of_int newSector\<rparr>])
      else add_loop is t name newSector)"

definition Directory_Add :: "direntry list \<Rightarrow> u8 list \<Rightarrow> int \<Rightarrow> bool \<times> direntry list" where
  "Directory_Add t name newSector =
     (if FindIndex t name \<noteq> -1 then (False, t) else add_loop [0..<length t] t name newSector)"

definition Directory_Remove :: "direntry list \<Rightarrow> u8 list \<Rightarrow> bool \<times> direntry list" where
  "Directory_Remove t name =
     (let i = FindIndex t name in
      if i = -1 then (False, t) else (True, t[nat i := (t ! nat i)\<lparr>de_inUse := 0\<rparr>]))"

section \<open>Tables in files\<close>

lemma length_entry_bytes [simp]: "entry_wf e \<Longrightarrow> length (entry_bytes e) = EntrySize"
  by (simp add: entry_bytes_def entry_wf_def)

lemma entry_of_bytes: "entry_wf e \<Longrightarrow> entry_of (entry_bytes e) = e"
  by (simp add: entry_bytes_def entry_of_def entry_wf_def)

lemma entry_of_wf: "length bs = EntrySize \<Longrightarrow> entry_wf (entry_of bs)"
  by (simp add: entry_of_def entry_wf_def)

definition table_wf :: "direntry list \<Rightarrow> bool" where
  "table_wf t \<longleftrightarrow> (\<forall>e \<in> set t. entry_wf e)"

lemma length_table_bytes: "table_wf t \<Longrightarrow> length (table_bytes t) = EntrySize * length t"
  unfolding table_bytes_def table_wf_def by (rule length_concat_chunks) simp

lemma table_of_bytes:
  assumes "table_wf t" shows "table_of (length t) (table_bytes t @ bs) = t"
proof (rule nth_equalityI)
  show "length (table_of (length t) (table_bytes t @ bs)) = length t" by (simp add: table_of_def)
  fix i assume "i < length (table_of (length t) (table_bytes t @ bs))"
  then have i: "i < length t" by (simp add: table_of_def)
  have "EntrySize * i + EntrySize \<le> length (table_bytes t)"
    using i by (simp add: length_table_bytes[OF assms])
  then have "take EntrySize (drop (EntrySize * i) (table_bytes t @ bs)) = take EntrySize (drop (EntrySize * i) (table_bytes t))"
    by (rule take_drop_append)
  also have "\<dots> = entry_bytes (t ! i)"
    unfolding table_bytes_def using i assms by (intro concat_chunk) (simp_all add: table_wf_def)
  finally show "table_of (length t) (table_bytes t @ bs) ! i = t ! i"
    using i assms by (simp add: table_of_def entry_of_bytes table_wf_def)
qed

lemma table_of_wf: "EntrySize * n \<le> length bs \<Longrightarrow> table_wf (table_of n bs)"
  by (auto simp: table_wf_def table_of_def intro!: entry_of_wf)

lemma length_table_of [simp]: "length (table_of n bs) = n"
  by (simp add: table_of_def)

section \<open>Tables of names\<close>

text \<open>
  The operations of a table that maps the part of a name that counts to a number, with a limited
  number of entries: what a client may rely on.
\<close>

locale name_table =
  fixes find_in :: "'t \<Rightarrow> 'n \<Rightarrow> int"
    and add_to :: "'t \<Rightarrow> 'n \<Rightarrow> int \<Rightarrow> bool \<times> 't"
    and remove_from :: "'t \<Rightarrow> 'n \<Rightarrow> bool \<times> 't"
    and lookup :: "'t \<Rightarrow> 'k \<Rightarrow> int option"
    and key :: "'n \<Rightarrow> 'k"
    and room :: "'t \<Rightarrow> bool"
    and ok :: "'t \<Rightarrow> bool"
    and name_ok :: "'n \<Rightarrow> bool"
    and value_ok :: "int \<Rightarrow> bool"
  assumes find_eq: "ok t \<Longrightarrow> name_ok n \<Longrightarrow> find_in t n = (case lookup t (key n) of None \<Rightarrow> -1 | Some s \<Rightarrow> s)"
    and add_dup: "ok t \<Longrightarrow> name_ok n \<Longrightarrow> lookup t (key n) \<noteq> None \<Longrightarrow> add_to t n s = (False, t)"
    and add_full: "ok t \<Longrightarrow> name_ok n \<Longrightarrow> \<not> room t \<Longrightarrow> add_to t n s = (False, t)"
    and add_new: "ok t \<Longrightarrow> name_ok n \<Longrightarrow> lookup t (key n) = None \<Longrightarrow> room t \<Longrightarrow> value_ok s \<Longrightarrow>
      \<exists>t'. add_to t n s = (True, t') \<and> ok t' \<and> lookup t' = (lookup t)(key n \<mapsto> s)"
    and remove_none: "ok t \<Longrightarrow> name_ok n \<Longrightarrow> lookup t (key n) = None \<Longrightarrow> remove_from t n = (False, t)"
    and remove_some: "ok t \<Longrightarrow> name_ok n \<Longrightarrow> lookup t (key n) \<noteq> None \<Longrightarrow>
      \<exists>t'. remove_from t n = (True, t') \<and> ok t' \<and> room t' \<and> lookup t' = (lookup t)(key n := None)"
begin

text \<open>A name that was added is found with its number, all other names are found as before; and
  removing it again leaves the same names as before.\<close>

lemma add_then_find:
  assumes "ok t" and "name_ok n" and "name_ok n'" and "lookup t (key n) = None" and "room t" and "value_ok s"
  shows "\<exists>t'. add_to t n s = (True, t') \<and> find_in t' n' = (if key n' = key n then s else find_in t n')"
proof -
  obtain t' where "add_to t n s = (True, t')" "ok t'" "lookup t' = (lookup t)(key n \<mapsto> s)"
    using add_new[OF assms(1,2,4-6)] by blast
  then show ?thesis using assms by (auto simp: find_eq)
qed

lemma add_then_remove:
  assumes "ok t" and "name_ok n" and "lookup t (key n) = None" and "room t" and "value_ok s"
  shows "\<exists>t1 t2. add_to t n s = (True, t1) \<and> remove_from t1 n = (True, t2) \<and> ok t2 \<and> lookup t2 = lookup t"
proof -
  obtain t1 where t1: "add_to t n s = (True, t1)" "ok t1" "lookup t1 = (lookup t)(key n \<mapsto> s)"
    using add_new[OF assms] by blast
  then obtain t2 where "remove_from t1 n = (True, t2)" "ok t2" "lookup t2 = (lookup t1)(key n := None)"
    using remove_some[OF t1(2) assms(2)] by auto
  moreover have "(lookup t1)(key n := None) = lookup t" using t1(3) assms(3) by auto
  ultimately show ?thesis using t1(1) by auto
qed

end

section \<open>The directory is a table of names\<close>

definition entry_key :: "direntry \<Rightarrow> u8 list" where
  "entry_key e = takeWhile (\<lambda>c. c \<noteq> 0) (take FileNameMaxLen (de_name e))"

definition short_name :: "u8 list \<Rightarrow> u8 list" where
  "short_name name = take FileNameMaxLen name"

definition c_name :: "u8 list \<Rightarrow> bool" where
  "c_name name \<longleftrightarrow> 0 \<notin> set name"

definition in_use :: "direntry \<Rightarrow> bool" where
  "in_use e \<longleftrightarrow> de_inUse e \<noteq> 0"

definition dir_lookup :: "direntry list \<Rightarrow> u8 list \<Rightarrow> int option" where
  "dir_lookup t k = map_option (\<lambda>e. sint (de_sector e)) (find (\<lambda>e. in_use e \<and> entry_key e = k) t)"

definition dir_room :: "direntry list \<Rightarrow> bool" where
  "dir_room t \<longleftrightarrow> (\<exists>e \<in> set t. \<not> in_use e)"

definition dir_ok :: "direntry list \<Rightarrow> bool" where
  "dir_ok t \<longleftrightarrow> table_wf t \<and>
     (\<forall>i < length t. \<forall>j < length t. in_use (t ! i) \<and> in_use (t ! j) \<and> entry_key (t ! i) = entry_key (t ! j) \<longrightarrow> i = j)"

lemma strncmp0_key:
  "n \<le> length a \<Longrightarrow> 0 \<notin> set name \<Longrightarrow>
   strncmp0 n a (name @ [0]) \<longleftrightarrow> takeWhile (\<lambda>c. c \<noteq> 0) (take n a) = take n name"
proof (induction n arbitrary: a name)
  case 0
  then show ?case by simp
next
  case (Suc n)
  then obtain x a' where a: "a = x # a'" by (cases a) auto
  show ?case
    using Suc a by (cases name) auto
qed

lemma strncmp0_entry:
  "entry_wf e \<Longrightarrow> c_name name \<Longrightarrow> strncmp0 FileNameMaxLen (de_name e) (name @ [0]) \<longleftrightarrow> entry_key e = short_name name"
  unfolding entry_key_def short_name_def by (rule strncmp0_key) (simp_all add: entry_wf_def c_name_def)

lemma find_index_eq:
  assumes "table_wf t" and "c_name name"
  shows "(\<forall>i \<in> set is. i < length t) \<Longrightarrow>
    find_index is t name = (case find (\<lambda>i. in_use (t ! i) \<and> entry_key (t ! i) = short_name name) is of
      None \<Rightarrow> -1 | Some i \<Rightarrow> int i)"
proof (induction "is")
  case Nil
  then show ?case by simp
next
  case (Cons i js)
  have "entry_wf (t ! i)" using Cons.prems assms(1) by (simp add: table_wf_def)
  then show ?case using Cons strncmp0_entry[OF _ assms(2)] by (simp add: in_use_def)
qed

lemma dir_lookup_index:
  assumes "dir_ok t" and "i < length t" and "in_use (t ! i)" and "entry_key (t ! i) = k"
  shows "dir_lookup t k = Some (sint (de_sector (t ! i)))"
proof -
  obtain e where e: "find (\<lambda>e. in_use e \<and> entry_key e = k) t = Some e"
    using assms(2-4) nth_mem[OF assms(2)] by (metis (mono_tags, lifting) find_None_iff not_None_eq)
  then obtain j where "j < length t" "in_use (t ! j)" "entry_key (t ! j) = k" "t ! j = e"
    by (auto simp: find_Some_iff)
  then have "j = i" using assms unfolding dir_ok_def by blast
  then show ?thesis using e \<open>t ! j = e\<close> by (simp add: dir_lookup_def)
qed

lemma dir_lookup_Some:
  "dir_ok t \<Longrightarrow> dir_lookup t k = Some s \<longleftrightarrow>
    (\<exists>i < length t. in_use (t ! i) \<and> entry_key (t ! i) = k \<and> sint (de_sector (t ! i)) = s)"
proof
  assume "dir_lookup t k = Some s"
  then show "\<exists>i < length t. in_use (t ! i) \<and> entry_key (t ! i) = k \<and> sint (de_sector (t ! i)) = s"
    by (auto simp: dir_lookup_def find_Some_iff)
next
  assume "dir_ok t" and "\<exists>i < length t. in_use (t ! i) \<and> entry_key (t ! i) = k \<and> sint (de_sector (t ! i)) = s"
  then show "dir_lookup t k = Some s" using dir_lookup_index by blast
qed

lemma dir_lookup_None:
  "dir_lookup t k = None \<longleftrightarrow> (\<forall>i < length t. in_use (t ! i) \<longrightarrow> entry_key (t ! i) \<noteq> k)"
  by (auto simp: dir_lookup_def find_None_iff in_set_conv_nth)

lemma FindIndex_cases:
  assumes "dir_ok t" and "c_name name"
  shows "dir_lookup t (short_name name) = None \<Longrightarrow> FindIndex t name = -1"
    and "dir_lookup t (short_name name) \<noteq> None \<Longrightarrow>
      \<exists>i < length t. FindIndex t name = int i \<and> in_use (t ! i) \<and> entry_key (t ! i) = short_name name"
proof -
  have wf: "table_wf t" using assms(1) by (simp add: dir_ok_def)
  have eq: "FindIndex t name = (case find (\<lambda>i. in_use (t ! i) \<and> entry_key (t ! i) = short_name name) [0..<length t] of
      None \<Rightarrow> -1 | Some i \<Rightarrow> int i)"
    unfolding FindIndex_def using find_index_eq[OF wf assms(2), of "[0..<length t]"] by simp
  show "FindIndex t name = -1" if "dir_lookup t (short_name name) = None"
  proof -
    have "find (\<lambda>i. in_use (t ! i) \<and> entry_key (t ! i) = short_name name) [0..<length t] = None"
      using that by (auto simp: dir_lookup_None find_None_iff)
    then show ?thesis using eq by simp
  qed
  show "\<exists>i < length t. FindIndex t name = int i \<and> in_use (t ! i) \<and> entry_key (t ! i) = short_name name"
    if "dir_lookup t (short_name name) \<noteq> None"
  proof (cases "find (\<lambda>i. in_use (t ! i) \<and> entry_key (t ! i) = short_name name) [0..<length t]")
    case None
    then show ?thesis using that by (auto simp: dir_lookup_None find_None_iff)
  next
    case (Some i)
    then have "FindIndex t name = int i" using eq by simp
    then show ?thesis using Some by (auto simp: find_Some_iff)
  qed
qed

lemma add_loop_cases:
  "(\<forall>i \<in> set is. in_use (t ! i)) \<Longrightarrow> add_loop is t name s = (False, t)"
  "\<exists>i \<in> set is. \<not> in_use (t ! i) \<Longrightarrow> \<exists>i \<in> set is. \<not> in_use (t ! i) \<and>
     add_loop is t name s = (True, t[i := (t ! i)\<lparr>de_inUse := 1, de_name := strncpy (de_name (t ! i)) name FileNameMaxLen,
       de_sector := word_of_int s\<rparr>])"
  by (induction "is") (auto simp: in_use_def)

lemma new_entry_key:
  assumes "entry_wf e" and "c_name name"
  shows "entry_key (e\<lparr>de_inUse := 1, de_name := strncpy (de_name e) name FileNameMaxLen, de_sector := w\<rparr>) = short_name name"
    and "entry_wf (e\<lparr>de_inUse := 1, de_name := strncpy (de_name e) name FileNameMaxLen, de_sector := w\<rparr>)"
proof -
  have z: "takeWhile (\<lambda>c. c \<noteq> 0) (take n name @ replicate m 0) = take n name" for n m
    using assms(2) in_set_takeD[of 0 n name] by (induction m) (auto simp: c_name_def takeWhile_append)
  show "entry_key (e\<lparr>de_inUse := 1, de_name := strncpy (de_name e) name FileNameMaxLen, de_sector := w\<rparr>) = short_name name"
    using assms(1) z by (simp add: entry_key_def strncpy_def overlay_def short_name_def entry_wf_def)
  show "entry_wf (e\<lparr>de_inUse := 1, de_name := strncpy (de_name e) name FileNameMaxLen, de_sector := w\<rparr>)"
    using assms(1) by (simp add: entry_wf_def strncpy_def)
qed

text \<open>An entry that was free is taken for a new name, and an entry in use is given up.\<close>

lemma table_wf_update: "table_wf t \<Longrightarrow> entry_wf e \<Longrightarrow> table_wf (t[i := e])"
  using set_update_subset_insert[of t i e] by (auto simp: table_wf_def)

lemma dir_update_add:
  assumes "dir_ok t" and "i < length t" and "\<not> in_use (t ! i)" and "dir_lookup t (entry_key e) = None"
    and "entry_wf e" and "in_use e"
  shows "dir_ok (t[i := e])" and "dir_lookup (t[i := e]) = (dir_lookup t)(entry_key e \<mapsto> sint (de_sector e))"
proof -
  have none: "in_use (t ! j) \<Longrightarrow> entry_key (t ! j) \<noteq> entry_key e" if "j < length t" for j
    using assms(4) that by (auto simp: dir_lookup_None)
  show ok: "dir_ok (t[i := e])"
    using assms none none[symmetric] table_wf_update by (auto simp: dir_ok_def nth_list_update)
  have "(\<exists>j < length t. in_use (t[i := e] ! j) \<and> entry_key (t[i := e] ! j) = k \<and> sint (de_sector (t[i := e] ! j)) = s)
      \<longleftrightarrow> (if k = entry_key e then s = sint (de_sector e)
         else \<exists>j < length t. in_use (t ! j) \<and> entry_key (t ! j) = k \<and> sint (de_sector (t ! j)) = s)"
    (is "?L \<longleftrightarrow> ?R") for k s
  proof
    assume ?L
    then obtain j where j: "j < length t" "in_use (t[i := e] ! j)" "entry_key (t[i := e] ! j) = k"
      "sint (de_sector (t[i := e] ! j)) = s" by blast
    then show ?R using none by (cases "j = i") auto
  next
    assume R: ?R
    show ?L
    proof (cases "k = entry_key e")
      case True
      then show ?thesis using R assms(2,6) by (intro exI[of _ i]) simp
    next
      case False
      then obtain j where j: "j < length t" "in_use (t ! j)" "entry_key (t ! j) = k" "sint (de_sector (t ! j)) = s"
        using R by auto
      then have "j \<noteq> i" using assms(3) by auto
      then show ?thesis using j by (intro exI[of _ j]) simp
    qed
  qed
  then have "dir_lookup (t[i := e]) k = Some s \<longleftrightarrow> ((dir_lookup t)(entry_key e \<mapsto> sint (de_sector e))) k = Some s" for k s
    unfolding dir_lookup_Some[OF ok] by (auto simp: dir_lookup_Some[OF assms(1)])
  then show "dir_lookup (t[i := e]) = (dir_lookup t)(entry_key e \<mapsto> sint (de_sector e))"
    by (intro ext) (metis not_None_eq)
qed

lemma dir_update_remove:
  assumes "dir_ok t" and "i < length t" and "in_use (t ! i)" and "entry_key (t ! i) = k"
  shows "dir_ok (t[i := (t ! i)\<lparr>de_inUse := 0\<rparr>])" and "dir_room (t[i := (t ! i)\<lparr>de_inUse := 0\<rparr>])"
    and "dir_lookup (t[i := (t ! i)\<lparr>de_inUse := 0\<rparr>]) = (dir_lookup t)(k := None)"
proof -
  let ?e = "(t ! i)\<lparr>de_inUse := 0\<rparr>"
  have e: "\<not> in_use ?e" "entry_wf ?e"
    using assms(1,2) by (auto simp: in_use_def dir_ok_def table_wf_def entry_wf_def)
  show ok: "dir_ok (t[i := ?e])"
    using assms e table_wf_update by (auto simp: dir_ok_def nth_list_update)
  show "dir_room (t[i := ?e])"
    unfolding dir_room_def using assms(2) e(1) by (metis set_update_memI)
  have uniq: "j = i" if "j < length t" "in_use (t ! j)" "entry_key (t ! j) = k" for j
    using that assms unfolding dir_ok_def by blast
  have "(\<exists>j < length t. in_use (t[i := ?e] ! j) \<and> entry_key (t[i := ?e] ! j) = k' \<and> sint (de_sector (t[i := ?e] ! j)) = s)
      \<longleftrightarrow> k' \<noteq> k \<and> (\<exists>j < length t. in_use (t ! j) \<and> entry_key (t ! j) = k' \<and> sint (de_sector (t ! j)) = s)"
    (is "?L \<longleftrightarrow> ?R") for k' s
  proof
    assume ?L
    then obtain j where j: "j < length t" "in_use (t[i := ?e] ! j)" "entry_key (t[i := ?e] ! j) = k'"
      "sint (de_sector (t[i := ?e] ! j)) = s" by blast
    then have "j \<noteq> i" using e(1) assms(2) by auto
    then show ?R using j uniq by auto
  next
    assume ?R
    then obtain j where j: "k' \<noteq> k" "j < length t" "in_use (t ! j)" "entry_key (t ! j) = k'" "sint (de_sector (t ! j)) = s"
      by blast
    then have "j \<noteq> i" using assms(4) by auto
    then show ?L using j by auto
  qed
  then have "dir_lookup (t[i := ?e]) k' = Some s \<longleftrightarrow> ((dir_lookup t)(k := None)) k' = Some s" for k' s
    unfolding dir_lookup_Some[OF ok] by (simp add: dir_lookup_Some[OF assms(1)])
  then show "dir_lookup (t[i := ?e]) = (dir_lookup t)(k := None)"
    by (intro ext) (metis not_None_eq)
qed

interpretation dir: name_table Directory_Find Directory_Add Directory_Remove dir_lookup short_name dir_room
  "\<lambda>t. dir_ok t \<and> length t = n" c_name in_int for n
proof (unfold_locales)
  fix t name and s :: int
  assume ok: "dir_ok t \<and> length t = n" and name: "c_name name"
  note F = FindIndex_cases[OF conjunct1[OF ok] name]
  have wf: "table_wf t" using ok by (simp add: dir_ok_def)
  show "Directory_Find t name = (case dir_lookup t (short_name name) of None \<Rightarrow> -1 | Some s \<Rightarrow> s)"
  proof (cases "dir_lookup t (short_name name)")
    case None
    then show ?thesis using F(1) by (simp add: Directory_Find_def)
  next
    case (Some s)
    then obtain i where "i < length t" "FindIndex t name = int i" "in_use (t ! i)" "entry_key (t ! i) = short_name name"
      using F(2) by auto
    then show ?thesis using ok dir_lookup_index[of t i] by (simp add: Directory_Find_def)
  qed
  show "dir_lookup t (short_name name) \<noteq> None \<Longrightarrow> Directory_Add t name s = (False, t)"
    using F(2) by (auto simp: Directory_Add_def)
  show "\<not> dir_room t \<Longrightarrow> Directory_Add t name s = (False, t)"
    using add_loop_cases(1)[of "[0..<length t]" t] by (simp add: Directory_Add_def dir_room_def)
  show "dir_lookup t (short_name name) = None \<Longrightarrow> Directory_Remove t name = (False, t)"
    using F(1) by (simp add: Directory_Remove_def)
  show "\<exists>t'. Directory_Add t name s = (True, t') \<and> (dir_ok t' \<and> length t' = n)
      \<and> dir_lookup t' = (dir_lookup t)(short_name name \<mapsto> s)"
    if none: "dir_lookup t (short_name name) = None" and room: "dir_room t" and s: "in_int s"
  proof -
    obtain i where i: "i < length t" "\<not> in_use (t ! i)"
      "add_loop [0..<length t] t name s = (True, t[i := (t ! i)\<lparr>de_inUse := 1,
        de_name := strncpy (de_name (t ! i)) name FileNameMaxLen, de_sector := word_of_int s\<rparr>])"
      using add_loop_cases(2)[of "[0..<length t]" t name s] room by (force simp: dir_room_def in_set_conv_nth)
    let ?e = "(t ! i)\<lparr>de_inUse := 1, de_name := strncpy (de_name (t ! i)) name FileNameMaxLen, de_sector := word_of_int s\<rparr>"
    have e: "entry_key ?e = short_name name" "entry_wf ?e" "in_use ?e" "sint (de_sector ?e) = s"
      using new_entry_key[OF _ name, of "t ! i"] wf i(1) s by (auto simp: table_wf_def in_use_def sint_word_of_int32)
    then show ?thesis
      using dir_update_add[of t i ?e] ok i none F(1) by (simp add: Directory_Add_def)
  qed
  show "\<exists>t'. Directory_Remove t name = (True, t') \<and> (dir_ok t' \<and> length t' = n) \<and> dir_room t'
      \<and> dir_lookup t' = (dir_lookup t)(short_name name := None)"
    if some: "dir_lookup t (short_name name) \<noteq> None"
  proof -
    obtain i where "i < length t" "FindIndex t name = int i" "in_use (t ! i)" "entry_key (t ! i) = short_name name"
      using F(2)[OF some] by blast
    then show ?thesis using dir_update_remove[of t i "short_name name"] ok by (simp add: Directory_Remove_def)
  qed
qed

section \<open>The directory in its file\<close>

lemma Directory_new_wf:
  "(\<And>i. entry_wf (junk i)) \<Longrightarrow> table_wf (Directory_new junk n)" "length (Directory_new junk n) = n"
  "dir_lookup (Directory_new junk n) = Map.empty" "(\<And>i. entry_wf (junk i)) \<Longrightarrow> dir_ok (Directory_new junk n)"
proof -
  show wf: "table_wf (Directory_new junk n)" if "\<And>i. entry_wf (junk i)"
    using that by (auto simp: Directory_new_def table_wf_def entry_wf_def)
  show "length (Directory_new junk n) = n" by (simp add: Directory_new_def)
  show "dir_lookup (Directory_new junk n) = Map.empty"
    by (rule ext) (simp add: dir_lookup_None Directory_new_def in_use_def)
  show "dir_ok (Directory_new junk n)" if "\<And>i. entry_wf (junk i)"
    using wf[OF that] by (simp add: dir_ok_def) (simp add: Directory_new_def in_use_def)
qed

lemma Directory_FetchFrom_ok:
  assumes "synchdisk_ok d" and "hdr_ok (of_hdr f)" and "table_wf t" and "EntrySize * length t \<le> nat (FileLength (of_hdr f))"
  shows "\<exists>d'. Directory_FetchFrom t f d = Inr (table_of (length t) (file_bytes d (of_hdr f)), d')
    \<and> synchdisk_ok d' \<and> same_sectors d d'"
proof -
  let ?n = "length t * EntrySize"
  have "?n \<le> SectorSize * NumDirect"
    using FileLength_covered[OF assms(2)] hdr_ok_bounds(1)[OF assms(2)] assms(4) by linarith
  then have i: "in_int (int 0 + int ?n)" by (simp add: in_int_def)
  have l: "length (take ?n (file_bytes d (of_hdr f))) = ?n"
    using length_file_bytes[OF assms(1,2)] assms(4) by simp
  have "overlay 0 (take ?n (file_bytes d (of_hdr f))) (table_bytes t) = take ?n (file_bytes d (of_hdr f))"
    using l length_table_bytes[OF assms(3)] by (simp add: overlay_def)
  moreover have "table_of (length t) (take ?n (file_bytes d (of_hdr f))) = table_of (length t) (file_bytes d (of_hdr f))"
    unfolding table_of_def by (rule map_cong[OF refl]) (simp add: take_drop_take mult.commute)
  ultimately show ?thesis
    using ReadAt_ok[OF assms(1,2) i] by (auto simp: Directory_FetchFrom_def)
qed

lemma Directory_WriteBack_ok:
  assumes "synchdisk_ok d" and "hdr_ok (of_hdr f)" and "table_wf t" and "EntrySize * length t \<le> nat (FileLength (of_hdr f))"
  shows "\<exists>d'. Directory_WriteBack junk t f d = Inr d' \<and> synchdisk_ok d'
    \<and> file_bytes d' (of_hdr f) = overlay 0 (table_bytes t) (file_bytes d (of_hdr f))
    \<and> (\<forall>r < NumSectors. r \<notin> set (hdr_sectors (of_hdr f)) \<longrightarrow> sector d' r = sector d r)"
proof -
  let ?n = "length t * EntrySize"
  have "?n \<le> SectorSize * NumDirect"
    using FileLength_covered[OF assms(2)] hdr_ok_bounds(1)[OF assms(2)] assms(4) by linarith
  then have i: "in_int (int 0 + int ?n)" by (simp add: in_int_def)
  have l: "length (table_bytes t) = ?n" using length_table_bytes[OF assms(3)] by simp
  show ?thesis
    using WriteAt_ok[OF assms(1,2) i, of "table_bytes t" junk] assms(4) l
    by (auto simp: Directory_WriteBack_def min_def)
qed

text \<open>
  the directory round trip: a table written to its file and read back into another table of
  the same size is the table that was written, padding and free entries included.
\<close>

theorem directory_round_trip:
  assumes "synchdisk_ok d" and "hdr_ok (of_hdr f)" and "table_wf t" and "EntrySize * length t \<le> nat (FileLength (of_hdr f))"
    and "table_wf t0" and "length t0 = length t"
  shows "\<exists>d1 d2. Directory_WriteBack junk t f d = Inr d1 \<and> Directory_FetchFrom t0 f d1 = Inr (t, d2) \<and> synchdisk_ok d2"
proof -
  obtain d1 where w: "Directory_WriteBack junk t f d = Inr d1" "synchdisk_ok d1"
    "file_bytes d1 (of_hdr f) = overlay 0 (table_bytes t) (file_bytes d (of_hdr f))"
    using Directory_WriteBack_ok[OF assms(1-4)] by blast
  have "table_of (length t) (file_bytes d1 (of_hdr f)) = t"
    using table_of_bytes[OF assms(3)] by (simp add: w(3) overlay_def)
  then show ?thesis using Directory_FetchFrom_ok[OF w(2) assms(2,5)] assms(4,6) w(1) by auto
qed

definition blank_entry :: direntry where
  "blank_entry = \<lparr>de_inUse = 0, de_pad = [1, 2, 3], de_sector = 0, de_name = replicate 10 7, de_pad2 = [4, 5]\<rparr>"

lemma blank_entry_wf [simp]: "entry_wf blank_entry"
  by (simp add: entry_wf_def blank_entry_def)

theorem directory_round_trip_witness:
  "\<exists>f d d1 d2. Directory_WriteBack (\<lambda>_. 9) (Directory_new (\<lambda>_. blank_entry) 2) f d = Inr d1
     \<and> Directory_FetchFrom [blank_entry, blank_entry] f d1 = Inr (Directory_new (\<lambda>_. blank_entry) 2, d2)"
proof -
  obtain b where b: "bitmap_wf b" "numBits b = NumSectors" "marked b = {}" using BitMap_new_ex[of "\<lambda>_. 0" NumSectors] by blast
  have bl: "length (fh_data blank_header) = NumDirect" by (simp add: blank_header_def)
  obtain h where h: "hdr_ok h" "FileLength h = int 40"
    using Allocate_ok[OF b(1,2) bl, of 40] b(3) by (auto simp: divRoundUp_def)
  obtain d where d: "synchdisk_ok (SynchDisk_new d)" using Disk_new_None by blast
  show ?thesis
    using directory_round_trip[OF d, of "\<lparr>of_hdr = h, seekPosition = 0\<rparr>" "Directory_new (\<lambda>_. blank_entry) 2"
        "[blank_entry, blank_entry]" "\<lambda>_. 9"] h
    by (fastforce simp: Directory_new_wf table_wf_def[of "[blank_entry, blank_entry]"])
qed

end
