(* ===== verification/FileSys.thy ===== *)
theory FileSys
  imports FileDirectory
begin

text \<open>
  \<open>filesys/filesys.cc\<close>: the file system, which keeps its free map and its directory in two files
  and the header of every file in a sector of its own. The disk is the global \<open>synchDisk\<close>. The
  contents of objects fresh from \<open>new\<close> are the argument \<open>J\<close>.

  The invariant \<open>fs_ok\<close> says that the sectors marked in the free map are exactly those that are in
  use, and that no two uses overlap. The abstract file system \<open>fs_view\<close> maps a name to the bytes
  of its file; \<open>Create\<close>, \<open>Remove\<close>, \<open>Open\<close>, reading and writing refine its operations.
\<close>

section \<open>Operations\<close>

abbreviation (input) FreeMapSector :: int where "FreeMapSector \<equiv> 0"
abbreviation (input) DirectorySector :: int where "DirectorySector \<equiv> 1"
abbreviation (input) FreeMapFileSize :: int where "FreeMapFileSize \<equiv> 128"
abbreviation (input) NumDirEntries :: nat where "NumDirEntries \<equiv> 10"
abbreviation (input) DirectoryFileSize :: int where "DirectoryFileSize \<equiv> 200"

record filesystem =
  freeMapFile :: openfile
  directoryFile :: openfile

record garbage =
  g_map :: "nat \<Rightarrow> u32"
  g_entries :: "nat \<Rightarrow> direntry"
  g_hdr :: filehdr
  g_hdr2 :: filehdr
  g_buf :: "nat \<Rightarrow> u8"
  g_buf2 :: "nat \<Rightarrow> u8"

definition FileSystem_new :: "garbage \<Rightarrow> bool \<Rightarrow> synchdisk \<Rightarrow> (filesystem \<times> synchdisk) result" where
  "FileSystem_new J format d =
     (if format then
        bindE (BitMap_new (g_map J) NumSectors) (\<lambda>b.
        let dir = Directory_new (g_entries J) NumDirEntries in
        bindE (BitMap_Mark b FreeMapSector) (\<lambda>b.
        bindE (BitMap_Mark b DirectorySector) (\<lambda>b.
        bindE (Allocate (g_hdr J) b FreeMapFileSize) (\<lambda>(a, mapHdr, b).
        bindE (assertE a) (\<lambda>_.
        bindE (Allocate (g_hdr2 J) b DirectoryFileSize) (\<lambda>(a, dirHdr, b).
        bindE (assertE a) (\<lambda>_.
        bindE (FileHeader_WriteBack mapHdr d FreeMapSector) (\<lambda>d.
        bindE (FileHeader_WriteBack dirHdr d DirectorySector) (\<lambda>d.
        bindE (OpenFile_new FreeMapSector d) (\<lambda>(mf, d).
        bindE (OpenFile_new DirectorySector d) (\<lambda>(df, d).
        bindE (BitMap_WriteBack (g_buf J) b mf d) (\<lambda>d.
        bindE (Directory_WriteBack (g_buf2 J) dir df d) (\<lambda>d.
        Inr (\<lparr>freeMapFile = mf, directoryFile = df\<rparr>, d))))))))))))))
      else
        bindE (OpenFile_new FreeMapSector d) (\<lambda>(mf, d).
        bindE (OpenFile_new DirectorySector d) (\<lambda>(df, d).
        Inr (\<lparr>freeMapFile = mf, directoryFile = df\<rparr>, d))))"

definition FileSystem_Create :: "garbage \<Rightarrow> filesystem \<Rightarrow> u8 list \<Rightarrow> int \<Rightarrow> synchdisk \<Rightarrow> (bool \<times> synchdisk) result" where
  "FileSystem_Create J fs name initialSize d =
     bindE (Directory_FetchFrom (Directory_new (g_entries J) NumDirEntries) (directoryFile fs) d) (\<lambda>(dir, d).
     if Directory_Find dir name \<noteq> -1 then Inr (False, d)
     else
       bindE (BitMap_new (g_map J) NumSectors) (\<lambda>b.
       bindE (BitMap_FetchFrom b (freeMapFile fs) d) (\<lambda>(b, d).
       bindE (BitMap_Find b) (\<lambda>(sec, b).
       if sec = -1 then Inr (False, d)
       else case Directory_Add dir name sec of (added, dir) \<Rightarrow>
         if \<not> added then Inr (False, d)
         else
           bindE (Allocate (g_hdr J) b initialSize) (\<lambda>(a, h, b).
           if \<not> a then Inr (False, d)
           else
             bindE (FileHeader_WriteBack h d sec) (\<lambda>d.
             bindE (Directory_WriteBack (g_buf2 J) dir (directoryFile fs) d) (\<lambda>d.
             bindE (BitMap_WriteBack (g_buf J) b (freeMapFile fs) d) (\<lambda>d.
             Inr (True, d)))))))))"

definition FileSystem_Open :: "garbage \<Rightarrow> filesystem \<Rightarrow> u8 list \<Rightarrow> synchdisk \<Rightarrow> (openfile option \<times> synchdisk) result" where
  "FileSystem_Open J fs name d =
     bindE (Directory_FetchFrom (Directory_new (g_entries J) NumDirEntries) (directoryFile fs) d) (\<lambda>(dir, d).
     let sec = Directory_Find dir name in
     if sec \<ge> 0 then bindE (OpenFile_new sec d) (\<lambda>(f, d). Inr (Some f, d)) else Inr (None, d))"

definition FileSystem_Remove :: "garbage \<Rightarrow> filesystem \<Rightarrow> u8 list \<Rightarrow> synchdisk \<Rightarrow> (bool \<times> synchdisk) result" where
  "FileSystem_Remove J fs name d =
     bindE (Directory_FetchFrom (Directory_new (g_entries J) NumDirEntries) (directoryFile fs) d) (\<lambda>(dir, d).
     let sec = Directory_Find dir name in
     if sec = -1 then Inr (False, d)
     else
       bindE (FileHeader_FetchFrom d sec) (\<lambda>(h, d).
       bindE (BitMap_new (g_map J) NumSectors) (\<lambda>b.
       bindE (BitMap_FetchFrom b (freeMapFile fs) d) (\<lambda>(b, d).
       bindE (Deallocate h b) (\<lambda>b.
       bindE (BitMap_Clear b sec) (\<lambda>b.
       let dir = snd (Directory_Remove dir name) in
       bindE (BitMap_WriteBack (g_buf J) b (freeMapFile fs) d) (\<lambda>d.
       bindE (Directory_WriteBack (g_buf2 J) dir (directoryFile fs) d) (\<lambda>d.
       Inr (True, d)))))))))"

section \<open>The sectors of files\<close>

definition file_hdr :: "synchdisk \<Rightarrow> int \<Rightarrow> filehdr" where
  "file_hdr d s = header_of (sector d (nat s))"

definition file_blocks :: "synchdisk \<Rightarrow> int \<Rightarrow> nat set" where
  "file_blocks d s = insert (nat s) (set (hdr_sectors (file_hdr d s)))"

definition file_ok :: "synchdisk \<Rightarrow> int \<Rightarrow> bool" where
  "file_ok d s \<longleftrightarrow> valid_sector s \<and> hdr_ok (file_hdr d s) \<and> nat s \<notin> set (hdr_sectors (file_hdr d s))"

definition content :: "synchdisk \<Rightarrow> int \<Rightarrow> u8 list" where
  "content d s = file_bytes d (file_hdr d s)"

text \<open>The files \<open>L\<close> of a disk do not overlap, and with the sectors \<open>sys\<close> they use just \<open>M\<close>.\<close>

definition files_ok :: "('k \<Rightarrow> int option) \<Rightarrow> synchdisk \<Rightarrow> nat set \<Rightarrow> nat set \<Rightarrow> bool" where
  "files_ok L d sys M \<longleftrightarrow>
     (\<forall>k s. L k = Some s \<longrightarrow> file_ok d s \<and> file_blocks d s \<inter> sys = {}) \<and>
     (\<forall>k k' s s'. L k = Some s \<and> L k' = Some s' \<and> k \<noteq> k' \<longrightarrow> file_blocks d s \<inter> file_blocks d s' = {}) \<and>
     M = sys \<union> (\<Union>s \<in> ran L. file_blocks d s)"

lemma files_ok_file: "files_ok L d sys M \<Longrightarrow> L k = Some s \<Longrightarrow> file_ok d s"
  by (simp add: files_ok_def)

lemma files_ok_sys: "files_ok L d sys M \<Longrightarrow> L k = Some s \<Longrightarrow> file_blocks d s \<inter> sys = {}"
  by (simp add: files_ok_def)

lemma files_ok_disjoint: "files_ok L d sys M \<Longrightarrow> L k = Some s \<Longrightarrow> L k' = Some s' \<Longrightarrow> k \<noteq> k' \<Longrightarrow>
   file_blocks d s \<inter> file_blocks d s' = {}"
  unfolding files_ok_def by blast

lemma files_ok_marked: "files_ok L d sys M \<Longrightarrow> M = sys \<union> (\<Union>s \<in> ran L. file_blocks d s)"
  by (simp add: files_ok_def)

lemma file_blocks_less: "file_ok d s \<Longrightarrow> r \<in> file_blocks d s \<Longrightarrow> r < NumSectors"
  by (auto simp: file_blocks_def file_ok_def valid_sector_def hdr_sectors_less)

text \<open>A file whose sectors stay stays the same file.\<close>

lemma file_same:
  assumes "\<And>r. r \<in> file_blocks d s \<Longrightarrow> sector d' r = sector d r"
  shows "file_hdr d' s = file_hdr d s" and "file_blocks d' s = file_blocks d s"
    and "file_ok d' s \<longleftrightarrow> file_ok d s" and "content d' s = content d s"
proof -
  show h: "file_hdr d' s = file_hdr d s" using assms by (simp add: file_hdr_def file_blocks_def)
  show "file_blocks d' s = file_blocks d s" by (simp add: file_blocks_def h)
  show "file_ok d' s \<longleftrightarrow> file_ok d s" by (simp add: file_ok_def h)
  show "content d' s = content d s"
    unfolding content_def h by (rule file_bytes_cong) (simp add: assms file_blocks_def)
qed

text \<open>The files are the same as long as their headers are.\<close>

lemma files_ok_headers:
  assumes ok: "files_ok L d sys M" and same: "\<And>k s. L k = Some s \<Longrightarrow> file_hdr d' s = file_hdr d s"
  shows "files_ok L d' sys M"
proof -
  have s: "file_blocks d' s = file_blocks d s" "file_ok d' s \<longleftrightarrow> file_ok d s" if "L k = Some s" for k s
    using same[OF that] by (simp_all add: file_blocks_def file_ok_def)
  have "(\<Union>s \<in> ran L. file_blocks d' s) = (\<Union>s \<in> ran L. file_blocks d s)"
    using s(1) by (intro SUP_cong) (auto simp: ran_def)
  then show ?thesis
    using s files_ok_file[OF ok] files_ok_sys[OF ok] files_ok_disjoint[OF ok] files_ok_marked[OF ok]
    unfolding files_ok_def by (intro conjI allI impI) metis+
qed

lemma files_ok_frame:
  assumes ok: "files_ok L d sys M" and same: "\<And>s r. s \<in> ran L \<Longrightarrow> r \<in> file_blocks d s \<Longrightarrow> sector d' r = sector d r"
  shows "files_ok L d' sys M" and "\<And>k s. L k = Some s \<Longrightarrow> content d' s = content d s"
proof -
  have s: "file_hdr d' s = file_hdr d s" "content d' s = content d s" if "L k = Some s" for k s
    using file_same[of d s d'] same that by (auto intro: ranI)
  show "files_ok L d' sys M" using files_ok_headers[OF ok s(1)] .
  show "\<And>k s. L k = Some s \<Longrightarrow> content d' s = content d s" using s(2) .
qed

lemma files_ok_add:
  assumes ok: "files_ok L d sys M" and k: "L k = None" and s: "file_ok d s" and new: "file_blocks d s \<inter> M = {}"
  shows "files_ok (L(k \<mapsto> s)) d sys (M \<union> file_blocks d s)"
proof -
  have M: "M = sys \<union> (\<Union>s \<in> ran L. file_blocks d s)" using ok by (rule files_ok_marked)
  have n: "file_blocks d s \<inter> sys = {}" "\<And>k' s'. L k' = Some s' \<Longrightarrow> file_blocks d s \<inter> file_blocks d s' = {}"
    using new M by (auto simp: ran_def)
  have "\<Union> (file_blocks d ` ran (L(k \<mapsto> s))) = file_blocks d s \<union> (\<Union>s \<in> ran L. file_blocks d s)"
    using k by (simp add: ran_map_upd)
  then show ?thesis
    using ok s n M unfolding files_ok_def by (auto simp: Int_commute split: if_splits)
qed

lemma files_ok_remove:
  assumes ok: "files_ok L d sys M" and k: "L k = Some s"
  shows "files_ok (L(k := None)) d sys (M - file_blocks d s)"
proof -
  have M: "M = sys \<union> (\<Union>s \<in> ran L. file_blocks d s)" using ok by (rule files_ok_marked)
  have "ran L = insert s (ran (L(k := None)))" using k by (auto simp: ran_def) (metis option.inject)
  then have "M = sys \<union> (file_blocks d s \<union> (\<Union>s \<in> ran (L(k := None)). file_blocks d s))" using M by simp
  moreover have "file_blocks d s \<inter> (\<Union>s \<in> ran (L(k := None)). file_blocks d s) = {}"
    using files_ok_disjoint[OF ok k] by (auto simp: ran_def split: if_splits)
  ultimately have "M - file_blocks d s = sys \<union> (\<Union>s \<in> ran (L(k := None)). file_blocks d s)"
    using files_ok_sys[OF ok k] by blast
  then show ?thesis
    using ok unfolding files_ok_def by (auto split: if_splits)
qed

section \<open>The invariant\<close>

abbreviation map_hdr :: "filesystem \<Rightarrow> filehdr" where "map_hdr fs \<equiv> of_hdr (freeMapFile fs)"
abbreviation dir_hdr :: "filesystem \<Rightarrow> filehdr" where "dir_hdr fs \<equiv> of_hdr (directoryFile fs)"

definition sys_blocks :: "filesystem \<Rightarrow> nat set" where
  "sys_blocks fs = {0, 1} \<union> set (hdr_sectors (map_hdr fs)) \<union> set (hdr_sectors (dir_hdr fs))"

text \<open>The free map and the directory as they are on the disk.\<close>

definition disk_map :: "filesystem \<Rightarrow> synchdisk \<Rightarrow> bitmap" where
  "disk_map fs d = \<lparr>numBits = NumSectors, numWords = 32, bmap = bytes_words (file_bytes d (map_hdr fs))\<rparr>"

definition disk_dir :: "filesystem \<Rightarrow> synchdisk \<Rightarrow> direntry list" where
  "disk_dir fs d = table_of NumDirEntries (file_bytes d (dir_hdr fs))"

definition sys_ok :: "filesystem \<Rightarrow> synchdisk \<Rightarrow> bool" where
  "sys_ok fs d \<longleftrightarrow> hdr_ok (map_hdr fs) \<and> FileLength (map_hdr fs) = FreeMapFileSize
     \<and> hdr_ok (dir_hdr fs) \<and> FileLength (dir_hdr fs) = DirectoryFileSize
     \<and> distinct ([0, 1] @ hdr_sectors (map_hdr fs) @ hdr_sectors (dir_hdr fs))
     \<and> file_hdr d FreeMapSector = map_hdr fs \<and> file_hdr d DirectorySector = dir_hdr fs"

definition fs_ok :: "filesystem \<Rightarrow> synchdisk \<Rightarrow> bool" where
  "fs_ok fs d \<longleftrightarrow> synchdisk_ok d \<and> sys_ok fs d \<and> dir_ok (disk_dir fs d)
     \<and> files_ok (dir_lookup (disk_dir fs d)) d (sys_blocks fs) (marked (disk_map fs d))"

definition fs_view :: "filesystem \<Rightarrow> synchdisk \<Rightarrow> u8 list \<Rightarrow> u8 list option" where
  "fs_view fs d k = map_option (content d) (dir_lookup (disk_dir fs d) k)"

text \<open>What garbage has to be: objects of their types.\<close>

definition garbage_ok :: "garbage \<Rightarrow> bool" where
  "garbage_ok J \<longleftrightarrow> (\<forall>i. entry_wf (g_entries J i)) \<and> length (fh_data (g_hdr J)) = NumDirect
     \<and> length (fh_data (g_hdr2 J)) = NumDirect"

lemma fs_okD:
  assumes "fs_ok fs d"
  shows "synchdisk_ok d" "hdr_ok (map_hdr fs)" "hdr_ok (dir_hdr fs)" "FileLength (map_hdr fs) = 128"
    "FileLength (dir_hdr fs) = 200" "dir_ok (disk_dir fs d)" "sys_ok fs d"
    "files_ok (dir_lookup (disk_dir fs d)) d (sys_blocks fs) (marked (disk_map fs d))"
    "set (hdr_sectors (map_hdr fs)) \<inter> set (hdr_sectors (dir_hdr fs)) = {}"
    "0 \<notin> set (hdr_sectors (map_hdr fs))" "Suc 0 \<notin> set (hdr_sectors (map_hdr fs))"
    "0 \<notin> set (hdr_sectors (dir_hdr fs))" "Suc 0 \<notin> set (hdr_sectors (dir_hdr fs))"
  using assms by (auto simp: fs_ok_def sys_ok_def)

lemma disk_map_wf: "fs_ok fs d \<Longrightarrow> bitmap_wf (disk_map fs d)"
  using length_file_bytes[of d "map_hdr fs"] fs_okD[of fs d]
  by (simp add: disk_map_def bitmap_wf_def bytes_words_def divRoundUp_def)

lemma numBits_disk_map [simp]: "numBits (disk_map fs d) = NumSectors"
  by (simp add: disk_map_def)

lemma length_disk_dir [simp]: "length (disk_dir fs d) = NumDirEntries"
  by (simp add: disk_dir_def)

lemma disk_dir_wf: "fs_ok fs d \<Longrightarrow> table_wf (disk_dir fs d)"
  using fs_okD(6)[of fs d] by (simp add: dir_ok_def)

text \<open>Nothing of this depends on more than the sectors of the disk.\<close>

lemma fs_same_sectors:
  assumes ok: "fs_ok fs d" and d': "synchdisk_ok d'" "same_sectors d d'"
  shows "fs_ok fs d'" and "fs_view fs d' = fs_view fs d" and "disk_map fs d' = disk_map fs d" and "disk_dir fs d' = disk_dir fs d"
proof -
  note D = fs_okD[OF ok]
  show m: "disk_map fs d' = disk_map fs d" using file_bytes_same[OF D(2) d'(2)] by (simp add: disk_map_def)
  show r: "disk_dir fs d' = disk_dir fs d" using file_bytes_same[OF D(3) d'(2)] by (simp add: disk_dir_def)
  have same: "sector d' q = sector d q" if "s \<in> ran (dir_lookup (disk_dir fs d))" "q \<in> file_blocks d s" for s q
    using that d'(2) file_blocks_less[OF files_ok_file[OF D(8)]] by (auto simp: ran_def)
  have "sys_ok fs d'" using D(7) d'(2) by (simp add: sys_ok_def file_hdr_def)
  then show "fs_ok fs d'"
    using files_ok_frame(1)[OF D(8) same] d'(1) D(6) by (simp add: fs_ok_def m r)
  show "fs_view fs d' = fs_view fs d"
    using files_ok_frame(2)[OF D(8) same] by (intro ext) (auto simp: fs_view_def r map_option_case split: option.split)
qed

text \<open>The directory and the free map are fetched from the disk.\<close>

lemma fetch_dir:
  assumes ok: "fs_ok fs d" and J: "garbage_ok J"
  obtains d1 where "Directory_FetchFrom (Directory_new (g_entries J) NumDirEntries) (directoryFile fs) d = Inr (disk_dir fs d, d1)"
    and "fs_ok fs d1" and "fs_view fs d1 = fs_view fs d" and "disk_map fs d1 = disk_map fs d" and "disk_dir fs d1 = disk_dir fs d"
    and "same_sectors d d1"
proof -
  note D = fs_okD[OF ok]
  have "table_wf (Directory_new (g_entries J) NumDirEntries)" "length (Directory_new (g_entries J) NumDirEntries) = NumDirEntries"
    using J Directory_new_wf(1,2) by (simp_all add: garbage_ok_def)
  then show ?thesis
    using Directory_FetchFrom_ok[OF D(1,3), of "Directory_new (g_entries J) NumDirEntries"] D(5) that fs_same_sectors[OF ok]
    by (auto simp: disk_dir_def)
qed

lemma fetch_map:
  assumes ok: "fs_ok fs d"
  obtains b d1 where "BitMap_new junk NumSectors = Inr b" and "BitMap_FetchFrom b (freeMapFile fs) d = Inr (disk_map fs d, d1)"
    and "fs_ok fs d1" and "fs_view fs d1 = fs_view fs d" and "disk_map fs d1 = disk_map fs d" and "disk_dir fs d1 = disk_dir fs d"
    and "same_sectors d d1"
proof -
  note D = fs_okD[OF ok]
  obtain b where b: "BitMap_new junk NumSectors = Inr b" "bitmap_wf b" "numBits b = NumSectors" using BitMap_new_ex by blast
  then have nw: "numWords b = 32" by (simp add: bitmap_wf_def divRoundUp_def)
  have "take 128 (file_bytes d (map_hdr fs)) = file_bytes d (map_hdr fs)"
    using length_file_bytes[OF D(1,2)] D(4) by simp
  moreover have "b\<lparr>bmap := bytes_words (file_bytes d (map_hdr fs))\<rparr> = disk_map fs d"
    using b(3) nw by (cases b) (simp add: disk_map_def)
  ultimately obtain d1 where "BitMap_FetchFrom b (freeMapFile fs) d = Inr (disk_map fs d, d1)" "synchdisk_ok d1" "same_sectors d d1"
    using FetchFrom_ok[OF D(1,2) b(2)] nw D(4) by auto
  then show ?thesis using that b(1) fs_same_sectors[OF ok] by blast
qed

text \<open>They are stored in their sectors.\<close>

lemma store_map:
  assumes "synchdisk_ok d" and "hdr_ok (map_hdr fs)" and "FileLength (map_hdr fs) = 128" and "bitmap_wf b" and "numBits b = NumSectors"
  obtains d1 where "BitMap_WriteBack junk b (freeMapFile fs) d = Inr d1" and "synchdisk_ok d1" and "disk_map fs d1 = b"
    and "\<And>r. r < NumSectors \<Longrightarrow> r \<notin> set (hdr_sectors (map_hdr fs)) \<Longrightarrow> sector d1 r = sector d r"
proof -
  have nw: "numWords b = 32" "length (bmap b) = 32" using assms(4,5) by (simp_all add: bitmap_wf_def divRoundUp_def)
  obtain d1 where d1: "BitMap_WriteBack junk b (freeMapFile fs) d = Inr d1" "synchdisk_ok d1"
    "file_bytes d1 (map_hdr fs) = overlay 0 (words_bytes (bmap b)) (file_bytes d (map_hdr fs))"
    "\<forall>r < NumSectors. r \<notin> set (hdr_sectors (map_hdr fs)) \<longrightarrow> sector d1 r = sector d r"
    using WriteBack_ok[OF assms(1,2,4), of junk] nw(1) assms(3) by auto
  have "file_bytes d1 (map_hdr fs) = words_bytes (bmap b)"
    using d1(3) length_file_bytes[OF assms(1,2)] assms(3) nw(2) by (simp add: overlay_def)
  then have "disk_map fs d1 = b" using nw(1) assms(5) by (simp add: disk_map_def)
  then show ?thesis using that d1 by blast
qed

lemma store_dir:
  assumes "synchdisk_ok d" and "hdr_ok (dir_hdr fs)" and "FileLength (dir_hdr fs) = 200" and "table_wf t" and "length t = NumDirEntries"
  obtains d1 where "Directory_WriteBack junk t (directoryFile fs) d = Inr d1" and "synchdisk_ok d1" and "disk_dir fs d1 = t"
    and "\<And>r. r < NumSectors \<Longrightarrow> r \<notin> set (hdr_sectors (dir_hdr fs)) \<Longrightarrow> sector d1 r = sector d r"
proof -
  obtain d1 where d1: "Directory_WriteBack junk t (directoryFile fs) d = Inr d1" "synchdisk_ok d1"
    "file_bytes d1 (dir_hdr fs) = overlay 0 (table_bytes t) (file_bytes d (dir_hdr fs))"
    "\<forall>r < NumSectors. r \<notin> set (hdr_sectors (dir_hdr fs)) \<longrightarrow> sector d1 r = sector d r"
    using Directory_WriteBack_ok[OF assms(1,2,4), of junk] assms(3,5) by auto
  have "disk_dir fs d1 = t"
    using table_of_bytes[OF assms(4)] assms(5) by (simp add: disk_dir_def d1(3) overlay_def)
  then show ?thesis using that d1 by blast
qed

lemma disk_map_cong:
  "hdr_ok (map_hdr fs) \<Longrightarrow> (\<And>r. r \<in> set (hdr_sectors (map_hdr fs)) \<Longrightarrow> sector d' r = sector d r) \<Longrightarrow> disk_map fs d' = disk_map fs d"
  by (simp add: disk_map_def file_bytes_cong[of "map_hdr fs" d' d])

lemma disk_dir_cong:
  "hdr_ok (dir_hdr fs) \<Longrightarrow> (\<And>r. r \<in> set (hdr_sectors (dir_hdr fs)) \<Longrightarrow> sector d' r = sector d r) \<Longrightarrow> disk_dir fs d' = disk_dir fs d"
  by (simp add: disk_dir_def file_bytes_cong[of "dir_hdr fs" d' d])

text \<open>Operations change the sectors of the free map and of the directory, and free sectors.\<close>

lemma fs_ok_change:
  assumes ok: "fs_ok fs d" and d': "synchdisk_ok d'" and dir: "dir_ok (disk_dir fs d')"
    and same: "\<forall>r \<in> marked (disk_map fs d) - set (hdr_sectors (map_hdr fs)) - set (hdr_sectors (dir_hdr fs)). sector d' r = sector d r"
  shows "files_ok (dir_lookup (disk_dir fs d)) d' (sys_blocks fs) (marked (disk_map fs d))"
    and "\<And>k s. dir_lookup (disk_dir fs d) k = Some s \<Longrightarrow> content d' s = content d s"
    and "\<And>k s. dir_lookup (disk_dir fs d) k = Some s \<Longrightarrow> file_blocks d' s = file_blocks d s"
    and "files_ok (dir_lookup (disk_dir fs d')) d' (sys_blocks fs) (marked (disk_map fs d')) \<Longrightarrow> fs_ok fs d'"
proof -
  note D = fs_okD[OF ok]
  have sys: "sys_blocks fs \<subseteq> marked (disk_map fs d)" using files_ok_marked[OF D(8)] by blast
  have eq: "sector d' r = sector d r" if s: "s \<in> ran (dir_lookup (disk_dir fs d))" and r: "r \<in> file_blocks d s" for s r
  proof (rule bspec[OF same], intro DiffI)
    obtain k where k: "dir_lookup (disk_dir fs d) k = Some s" using s unfolding ran_def by blast
    show "r \<in> marked (disk_map fs d)" using files_ok_marked[OF D(8)] s r by blast
    show "r \<notin> set (hdr_sectors (map_hdr fs))" "r \<notin> set (hdr_sectors (dir_hdr fs))"
      using files_ok_sys[OF D(8) k] r by (auto simp: sys_blocks_def)
  qed
  show "files_ok (dir_lookup (disk_dir fs d)) d' (sys_blocks fs) (marked (disk_map fs d))"
    using files_ok_frame(1)[OF D(8) eq] .
  show "\<And>k s. dir_lookup (disk_dir fs d) k = Some s \<Longrightarrow> content d' s = content d s"
    using files_ok_frame(2)[OF D(8) eq] .
  show "file_blocks d' s = file_blocks d s" if "dir_lookup (disk_dir fs d) k = Some s" for k s
    using eq that by (intro file_same(2)) (auto intro: ranI)
  have "sector d' 0 = sector d 0" "sector d' (Suc 0) = sector d (Suc 0)"
    using same sys D(10-13) by (simp_all add: sys_blocks_def)
  then have "sys_ok fs d'" using D(7) by (simp add: sys_ok_def file_hdr_def)
  then show "fs_ok fs d'" if "files_ok (dir_lookup (disk_dir fs d')) d' (sys_blocks fs) (marked (disk_map fs d'))"
    using that d' dir by (simp add: fs_ok_def)
qed

section \<open>Create\<close>

text \<open>The branches that change nothing.\<close>

definition fs_keeps :: "filesystem \<Rightarrow> synchdisk \<Rightarrow> synchdisk \<Rightarrow> bool" where
  "fs_keeps fs d d' \<longleftrightarrow> fs_ok fs d' \<and> fs_view fs d' = fs_view fs d \<and> disk_map fs d' = disk_map fs d
     \<and> disk_dir fs d' = disk_dir fs d"

text \<open>What \<open>Create\<close> needs: no file of that name, a free entry, and sectors for header and data.\<close>

definition can_create :: "filesystem \<Rightarrow> synchdisk \<Rightarrow> u8 list \<Rightarrow> nat \<Rightarrow> bool" where
  "can_create fs d name sz \<longleftrightarrow> fs_view fs d (short_name name) = None \<and> dir_room (disk_dir fs d)
     \<and> card (marked (disk_map fs d)) + 1 + divRoundUp sz SectorSize \<le> NumSectors"

lemma store_new_file:
  assumes ok: "fs_ok fs d" and i: "i < NumSectors" "i \<notin> marked (disk_map fs d)"
    and h: "hdr_ok h" "set (hdr_sectors h) \<inter> insert i (marked (disk_map fs d)) = {}"
    and b: "bitmap_wf b" "numBits b = NumSectors" "marked b = insert i (marked (disk_map fs d)) \<union> set (hdr_sectors h)"
    and t: "dir_ok t" "length t = NumDirEntries" "dir_lookup t = (dir_lookup (disk_dir fs d))(k \<mapsto> int i)"
      "dir_lookup (disk_dir fs d) k = None"
  shows "\<exists>d1 d2 d3. FileHeader_WriteBack h d (int i) = Inr d1 \<and> Directory_WriteBack j1 t (directoryFile fs) d1 = Inr d2
    \<and> BitMap_WriteBack j2 b (freeMapFile fs) d2 = Inr d3 \<and> fs_ok fs d3
    \<and> (\<exists>c. fs_view fs d3 = (fs_view fs d)(k \<mapsto> c) \<and> length c = nat (FileLength h))"
proof -
  note D = fs_okD[OF ok]
  have sys: "sys_blocks fs \<subseteq> marked (disk_map fs d)" using files_ok_marked[OF D(8)] by blast
  then have isys: "i \<notin> set (hdr_sectors (map_hdr fs))" "i \<notin> set (hdr_sectors (dir_hdr fs))"
    using i(2) by (auto simp: sys_blocks_def)
  have hl: "length (fh_data h) = NumDirect" using h(1) by (simp add: hdr_ok_def)
  obtain d1 where d1: "WriteSector d (int i) (header_bytes h) = Inr d1" "synchdisk_ok d1"
    "\<forall>r < NumSectors. sector d1 r = (if r = i then header_bytes h else sector d r)"
    using WriteSector_ok[OF D(1) i(1) length_header_bytes[OF hl]] by blast
  have tw: "table_wf t" using t(1) by (simp add: dir_ok_def)
  obtain d2 where d2: "Directory_WriteBack j1 t (directoryFile fs) d1 = Inr d2" "synchdisk_ok d2" "disk_dir fs d2 = t"
    "\<And>r. r < NumSectors \<Longrightarrow> r \<notin> set (hdr_sectors (dir_hdr fs)) \<Longrightarrow> sector d2 r = sector d1 r"
    using store_dir[OF d1(2) D(3,5) tw t(2)] by blast
  obtain d3 where d3: "BitMap_WriteBack j2 b (freeMapFile fs) d2 = Inr d3" "synchdisk_ok d3" "disk_map fs d3 = b"
    "\<And>r. r < NumSectors \<Longrightarrow> r \<notin> set (hdr_sectors (map_hdr fs)) \<Longrightarrow> sector d3 r = sector d2 r"
    using store_map[OF d2(2) D(2,4) b(1,2)] by blast
  have dir3: "disk_dir fs d3 = t"
    using disk_dir_cong[OF D(3), of d3 d2] d3(4) hdr_sectors_less[OF D(3)] D(9) d2(3) by blast
  have s3: "sector d3 r = (if r = i then header_bytes h else sector d r)"
    if "r < NumSectors" "r \<notin> set (hdr_sectors (map_hdr fs))" "r \<notin> set (hdr_sectors (dir_hdr fs))" for r
    using that d1(3) d2(4) d3(4) by simp
  have same: "\<forall>r \<in> marked (disk_map fs d) - set (hdr_sectors (map_hdr fs)) - set (hdr_sectors (dir_hdr fs)). sector d3 r = sector d r"
  proof
    fix r assume r: "r \<in> marked (disk_map fs d) - set (hdr_sectors (map_hdr fs)) - set (hdr_sectors (dir_hdr fs))"
    then have "r < NumSectors" using marked_less[of r "disk_map fs d"] by simp
    then show "sector d3 r = sector d r" using s3 r i(2) by auto
  qed
  have dok3: "dir_ok (disk_dir fs d3)" using t(1) dir3 by simp
  note C = fs_ok_change[OF ok d3(2) dok3 same]
  have fh: "file_hdr d3 (int i) = h"
    using s3[OF i(1) isys] header_of_bytes[OF hl] by (simp add: file_hdr_def)
  have fb: "file_blocks d3 (int i) = insert i (set (hdr_sectors h))" by (simp add: file_blocks_def fh)
  have "file_ok d3 (int i)" using i(1) h by (simp add: file_ok_def fh valid_sector_def)
  moreover have "file_blocks d3 (int i) \<inter> marked (disk_map fs d) = {}" using i(2) h(2) fb by auto
  ultimately have "files_ok ((dir_lookup (disk_dir fs d))(k \<mapsto> int i)) d3 (sys_blocks fs) (marked (disk_map fs d) \<union> file_blocks d3 (int i))"
    using files_ok_add[OF C(1) t(4)] by blast
  moreover have "marked (disk_map fs d) \<union> file_blocks d3 (int i) = marked (disk_map fs d3)" using b(3) d3(3) fb by auto
  ultimately have ok3: "fs_ok fs d3" using C(4) t(3) dir3 by simp
  have "fs_view fs d3 = (fs_view fs d)(k \<mapsto> content d3 (int i))"
    using C(2) t(3) dir3 by (intro ext) (auto simp: fs_view_def map_option_case split: option.split)
  moreover have "length (content d3 (int i)) = nat (FileLength h)"
    unfolding content_def fh using length_file_bytes[OF d3(2) h(1)] .
  ultimately show ?thesis
    using d1(1) d2(1) d3(1) ok3 by (auto simp: FileHeader_WriteBack_def)
qed

lemma fs_view_lookup: "fs_view fs d k = None \<longleftrightarrow> dir_lookup (disk_dir fs d) k = None"
  by (simp add: fs_view_def)

lemma fs_keeps_trans: "fs_keeps fs d d1 \<Longrightarrow> fs_keeps fs d1 d2 \<Longrightarrow> fs_keeps fs d d2"
  by (simp add: fs_keeps_def)

lemma lookup_found:
  assumes "fs_ok fs d" and "dir_lookup (disk_dir fs d) k = Some s"
  shows "0 \<le> s" and "s \<noteq> -1" and "valid_sector s"
  using files_ok_file[OF fs_okD(8)[OF assms(1)] assms(2)] by (auto simp: file_ok_def valid_sector_def)

lemma Create_fails:
  assumes ok: "fs_ok fs d" and J: "garbage_ok J" and name: "c_name name" and no: "\<not> can_create fs d name sz"
  shows "\<exists>d'. FileSystem_Create J fs name (int sz) d = Inr (False, d') \<and> fs_keeps fs d d'"
proof -
  let ?k = "short_name name"
  obtain d1 where d1: "Directory_FetchFrom (Directory_new (g_entries J) NumDirEntries) (directoryFile fs) d = Inr (disk_dir fs d, d1)"
    "fs_ok fs d1" "fs_view fs d1 = fs_view fs d" "disk_map fs d1 = disk_map fs d" "disk_dir fs d1 = disk_dir fs d"
    using fetch_dir[OF ok J] by metis
  obtain b0 d2 where d2: "BitMap_new (g_map J) NumSectors = Inr b0" "BitMap_FetchFrom b0 (freeMapFile fs) d1 = Inr (disk_map fs d, d2)"
    "fs_ok fs d2" "fs_view fs d2 = fs_view fs d1" "disk_map fs d2 = disk_map fs d1" "disk_dir fs d2 = disk_dir fs d1"
    using fetch_map[OF d1(2)] d1(4) by metis
  have k1: "fs_keeps fs d d1" using d1 by (simp add: fs_keeps_def)
  then have k2: "fs_keeps fs d d2" using d2(3-6) by (simp add: fs_keeps_def)
  have dok: "dir_ok (disk_dir fs d) \<and> length (disk_dir fs d) = NumDirEntries" using fs_okD(6)[OF ok] by simp
  note find = dir.find_eq[OF dok name]
  have wf: "bitmap_wf (disk_map fs d)" using ok by (rule disk_map_wf)
  consider (dup) s where "dir_lookup (disk_dir fs d) ?k = Some s"
    | (full) "dir_lookup (disk_dir fs d) ?k = None" "card (marked (disk_map fs d)) = NumSectors"
    | (free) "dir_lookup (disk_dir fs d) ?k = None" "card (marked (disk_map fs d)) < NumSectors"
    using card_mono[OF _ marked_bounded[of "disk_map fs d"]] by (cases "dir_lookup (disk_dir fs d) ?k") force+
  then show ?thesis
  proof cases
    case dup
    then show ?thesis using d1(1) k1 find lookup_found(2)[OF ok dup] by (simp add: FileSystem_Create_def)
  next
    case full
    then have "BitMap_Find (disk_map fs d) = Inr (-1, disk_map fs d)"
      using bm.find_none[OF wf] by simp
    then show ?thesis using full d1(1) d2(1,2) k2 find by (simp add: FileSystem_Create_def)
  next
    case free
    obtain i b1 where f: "BitMap_Find (disk_map fs d) = Inr (int i, b1)" "bitmap_wf b1" "numBits b1 = NumSectors" "i < NumSectors"
      "i \<notin> marked (disk_map fs d)" "marked b1 = insert i (marked (disk_map fs d))"
      using bm.find_some[OF wf] free(2) by auto
    show ?thesis
    proof (cases "dir_room (disk_dir fs d)")
      case False
      then show ?thesis
        using dir.add_full[OF dok name False] free d1(1) d2(1,2) k2 find f(1) by (simp add: FileSystem_Create_def)
    next
      case True
      have i: "in_int (int i)" using f(4) by (simp add: in_int_def)
      obtain t where t: "Directory_Add (disk_dir fs d) name (int i) = (True, t)"
        using dir.add_new[OF dok name free(1) True i] by blast
      have "NumSectors - card (marked b1) < divRoundUp sz SectorSize"
        using no free True f(5,6) by (auto simp: can_create_def fs_view_lookup)
      then obtain h where "Allocate (g_hdr J) b1 (int sz) = Inr (False, h, b1)"
        using Allocate_full[OF f(3)] by blast
      then show ?thesis using t free d1(1) d2(1,2) k2 find f(1) by (simp add: FileSystem_Create_def)
    qed
  qed
qed

lemma Create_succeeds:
  assumes ok: "fs_ok fs d" and J: "garbage_ok J" and name: "c_name name" and yes: "can_create fs d name sz"
    and size_ok: "sz \<le> NumDirect * SectorSize"
  shows "\<exists>d' c. FileSystem_Create J fs name (int sz) d = Inr (True, d') \<and> fs_ok fs d'
    \<and> fs_view fs d' = (fs_view fs d)(short_name name \<mapsto> c) \<and> length c = sz"
proof -
  let ?k = "short_name name"
  obtain d1 where d1: "Directory_FetchFrom (Directory_new (g_entries J) NumDirEntries) (directoryFile fs) d = Inr (disk_dir fs d, d1)"
    "fs_ok fs d1" "fs_view fs d1 = fs_view fs d" "disk_map fs d1 = disk_map fs d" "disk_dir fs d1 = disk_dir fs d"
    using fetch_dir[OF ok J] by metis
  obtain b0 d2 where d2: "BitMap_new (g_map J) NumSectors = Inr b0" "BitMap_FetchFrom b0 (freeMapFile fs) d1 = Inr (disk_map fs d, d2)"
    "fs_ok fs d2" "fs_view fs d2 = fs_view fs d" "disk_map fs d2 = disk_map fs d" "disk_dir fs d2 = disk_dir fs d"
    using fetch_map[OF d1(2)] d1(3-5) by metis
  have dok: "dir_ok (disk_dir fs d) \<and> length (disk_dir fs d) = NumDirEntries" using fs_okD(6)[OF ok] by simp
  have none: "dir_lookup (disk_dir fs d) ?k = None" and room: "dir_room (disk_dir fs d)"
    and space: "card (marked (disk_map fs d)) + 1 + divRoundUp sz SectorSize \<le> NumSectors"
    using yes by (simp_all add: can_create_def fs_view_lookup)
  have found: "Directory_Find (disk_dir fs d) name = -1" using dir.find_eq[OF dok name] none by simp
  obtain i b1 where f: "BitMap_Find (disk_map fs d) = Inr (int i, b1)" "bitmap_wf b1" "numBits b1 = NumSectors" "i < NumSectors"
    "i \<notin> marked (disk_map fs d)" "marked b1 = insert i (marked (disk_map fs d))"
    using bm.find_some[OF disk_map_wf[OF ok]] space by auto
  have i: "in_int (int i)" using f(4) by (simp add: in_int_def)
  obtain t where t: "Directory_Add (disk_dir fs d) name (int i) = (True, t)" "dir_ok t" "length t = NumDirEntries"
    "dir_lookup t = (dir_lookup (disk_dir fs d))(?k \<mapsto> int i)"
    using dir.add_new[OF dok name none room i] by blast
  have "divRoundUp sz SectorSize \<le> NumSectors - card (marked b1)" using space f(5,6) by simp
  then obtain h b2 where a: "Allocate (g_hdr J) b1 (int sz) = Inr (True, h, b2)" "hdr_ok h" "FileLength h = int sz"
    "bitmap_wf b2" "numBits b2 = NumSectors" "set (hdr_sectors h) \<inter> marked b1 = {}" "marked b2 = marked b1 \<union> set (hdr_sectors h)"
    using Allocate_ok[OF f(2,3) _ size_ok, of "g_hdr J"] J f(3) by (auto simp: garbage_ok_def)
  obtain d3 d4 d5 c where w: "FileHeader_WriteBack h d2 (int i) = Inr d3" "Directory_WriteBack (g_buf2 J) t (directoryFile fs) d3 = Inr d4"
    "BitMap_WriteBack (g_buf J) b2 (freeMapFile fs) d4 = Inr d5" "fs_ok fs d5"
    "fs_view fs d5 = (fs_view fs d2)(?k \<mapsto> c)" "length c = nat (FileLength h)"
    using store_new_file[OF d2(3), of i h b2 t ?k "g_buf2 J" "g_buf J"] f a t none d2(5,6) by auto
  then have "FileSystem_Create J fs name (int sz) d = Inr (True, d5)"
    using d1(1) d2(1,2) found f(1) t(1) a(1) by (simp add: FileSystem_Create_def)
  then show ?thesis using w(4-6) d2(4) a(3) by (intro exI[of _ d5] exI[of _ c]) simp
qed


section \<open>Remove\<close>

lemma Remove_missing:
  assumes ok: "fs_ok fs d" and J: "garbage_ok J" and name: "c_name name" and no: "fs_view fs d (short_name name) = None"
  shows "\<exists>d'. FileSystem_Remove J fs name d = Inr (False, d') \<and> fs_keeps fs d d'"
proof -
  obtain d1 where d1: "Directory_FetchFrom (Directory_new (g_entries J) NumDirEntries) (directoryFile fs) d = Inr (disk_dir fs d, d1)"
    "fs_ok fs d1" "fs_view fs d1 = fs_view fs d" "disk_map fs d1 = disk_map fs d" "disk_dir fs d1 = disk_dir fs d"
    using fetch_dir[OF ok J] by metis
  have dok: "dir_ok (disk_dir fs d) \<and> length (disk_dir fs d) = NumDirEntries" using fs_okD(6)[OF ok] by simp
  have "Directory_Find (disk_dir fs d) name = -1" using dir.find_eq[OF dok name] no by (simp add: fs_view_lookup)
  then show ?thesis using d1 by (simp add: FileSystem_Remove_def fs_keeps_def)
qed

lemma Remove_found:
  assumes ok: "fs_ok fs d" and J: "garbage_ok J" and name: "c_name name" and yes: "fs_view fs d (short_name name) \<noteq> None"
  shows "\<exists>d'. FileSystem_Remove J fs name d = Inr (True, d') \<and> fs_ok fs d' \<and> fs_view fs d' = (fs_view fs d)(short_name name := None)"
proof -
  let ?k = "short_name name"
  obtain d1 where d1: "Directory_FetchFrom (Directory_new (g_entries J) NumDirEntries) (directoryFile fs) d = Inr (disk_dir fs d, d1)"
    "fs_ok fs d1" "fs_view fs d1 = fs_view fs d" "disk_map fs d1 = disk_map fs d" "disk_dir fs d1 = disk_dir fs d"
    using fetch_dir[OF ok J] by metis
  have dok: "dir_ok (disk_dir fs d) \<and> length (disk_dir fs d) = NumDirEntries" using fs_okD(6)[OF ok] by simp
  obtain s where s: "dir_lookup (disk_dir fs d) ?k = Some s" using yes by (auto simp: fs_view_lookup)
  obtain n where n: "s = int n" "n < NumSectors"
    using lookup_found(3)[OF ok s] unfolding valid_sector_def by (metis nonneg_int_cases of_nat_less_iff)
  have found: "Directory_Find (disk_dir fs d) name = int n" using dir.find_eq[OF dok name] s n by simp
  note D1 = fs_okD[OF d1(2)]
  obtain d2 where d2: "ReadSector d1 (int n) = Inr (sector d1 n, d2)" "synchdisk_ok d2" "same_sectors d1 d2"
    using sd.rd_ok[OF D1(1) n(2)] by blast
  note S2 = fs_same_sectors[OF d1(2) d2(2,3)]
  have m2: "disk_map fs d2 = disk_map fs d" and r2: "disk_dir fs d2 = disk_dir fs d" and v2: "fs_view fs d2 = fs_view fs d"
    using S2 d1(3-5) by simp_all
  define h where "h = file_hdr d2 s"
  have hdr: "FileHeader_FetchFrom d1 (int n) = Inr (h, d2)"
    using d2 n by (simp add: FileHeader_FetchFrom_def h_def file_hdr_def)
  obtain b0 d3 where d3: "BitMap_new (g_map J) NumSectors = Inr b0" "BitMap_FetchFrom b0 (freeMapFile fs) d2 = Inr (disk_map fs d2, d3)"
    "fs_ok fs d3" "fs_view fs d3 = fs_view fs d2" "disk_map fs d3 = disk_map fs d2" "disk_dir fs d3 = disk_dir fs d2"
    "same_sectors d2 d3"
    using fetch_map[OF S2(1)] by blast
  note D3 = fs_okD[OF d3(3)]
  have fh3: "file_hdr d3 s = h" using d3(7) n by (simp add: h_def file_hdr_def)
  have s3: "dir_lookup (disk_dir fs d3) ?k = Some s" using s d3(6) r2 by simp
  have fok: "file_ok d3 s" by (rule files_ok_file[OF D3(8) s3])
  have hok: "hdr_ok h" "n \<notin> set (hdr_sectors h)" using fok fh3 n(1) by (simp_all add: file_ok_def)
  have blocks: "file_blocks d3 s = insert n (set (hdr_sectors h))" unfolding file_blocks_def fh3 by (simp add: n(1))
  have M: "file_blocks d3 s \<subseteq> marked (disk_map fs d3)" using files_ok_marked[OF D3(8)] s3 by (auto simp: ran_def)
  have "set (hdr_sectors h) \<subseteq> marked (disk_map fs d)" using M blocks d3(5) m2 by auto
  then obtain b1 where b1: "Deallocate h (disk_map fs d) = Inr b1" "bitmap_wf b1" "numBits b1 = NumSectors"
    "marked b1 = marked (disk_map fs d) - set (hdr_sectors h)"
    using Deallocate_ok[OF hok(1) disk_map_wf[OF ok]] by auto
  obtain b2 where b2: "BitMap_Clear b1 (int n) = Inr b2" "bitmap_wf b2" "numBits b2 = NumSectors" "marked b2 = marked b1 - {n}"
    using bm.clear_ex[OF b1(2), of n] n(2) b1(3) by auto
  obtain t where t: "Directory_Remove (disk_dir fs d) name = (True, t)" "dir_ok t" "length t = NumDirEntries"
    "dir_lookup t = (dir_lookup (disk_dir fs d))(?k := None)"
    using dir.remove_some[OF dok name] s by auto
  have tw: "table_wf t" using t(2) by (simp add: dir_ok_def)
  obtain d4 where d4: "BitMap_WriteBack (g_buf J) b2 (freeMapFile fs) d3 = Inr d4" "synchdisk_ok d4" "disk_map fs d4 = b2"
    "\<And>r. r < NumSectors \<Longrightarrow> r \<notin> set (hdr_sectors (map_hdr fs)) \<Longrightarrow> sector d4 r = sector d3 r"
    using store_map[OF D3(1,2,4) b2(2,3)] by blast
  obtain d5 where d5: "Directory_WriteBack (g_buf2 J) t (directoryFile fs) d4 = Inr d5" "synchdisk_ok d5" "disk_dir fs d5 = t"
    "\<And>r. r < NumSectors \<Longrightarrow> r \<notin> set (hdr_sectors (dir_hdr fs)) \<Longrightarrow> sector d5 r = sector d4 r"
    using store_dir[OF d4(2) D3(3,5) tw t(3)] by blast
  have map5: "disk_map fs d5 = b2"
    using disk_map_cong[OF D3(2), of d5 d4] d5(4) hdr_sectors_less[OF D3(2)] D3(9) d4(3) by blast
  have same: "\<forall>r \<in> marked (disk_map fs d3) - set (hdr_sectors (map_hdr fs)) - set (hdr_sectors (dir_hdr fs)). sector d5 r = sector d3 r"
  proof
    fix r assume r: "r \<in> marked (disk_map fs d3) - set (hdr_sectors (map_hdr fs)) - set (hdr_sectors (dir_hdr fs))"
    then have "r < NumSectors" using marked_less[of r "disk_map fs d3"] by simp
    then show "sector d5 r = sector d3 r" using d4(4) d5(4) r by simp
  qed
  have dok5: "dir_ok (disk_dir fs d5)" using t(2) d5(3) by simp
  note C = fs_ok_change[OF d3(3) d5(2) dok5 same]
  have "files_ok ((dir_lookup (disk_dir fs d3))(?k := None)) d5 (sys_blocks fs) (marked (disk_map fs d3) - file_blocks d5 s)"
    by (rule files_ok_remove[OF C(1) s3])
  moreover have "marked (disk_map fs d3) - file_blocks d5 s = marked (disk_map fs d5)"
    using C(3)[OF s3] blocks b1(4) b2(4) map5 d3(5) m2 by auto
  ultimately have ok5: "fs_ok fs d5" using C(4) t(4) d5(3) d3(6) r2 by simp
  have "fs_view fs d5 = (fs_view fs d3)(?k := None)"
    using C(2) t(4) d5(3) d3(6) r2 by (intro ext) (auto simp: fs_view_def map_option_case split: option.split)
  moreover have "FileSystem_Remove J fs name d = Inr (True, d5)"
    using d1(1) found hdr d3(1,2) m2 b1(1) b2(1) t(1) d4(1) d5(1) by (simp add: FileSystem_Remove_def)
  ultimately show ?thesis using ok5 d3(4) v2 by (intro exI[of _ d5]) simp
qed

text \<open>
  C23: \<open>Remove\<close> finds a file by the part of its name that counts, gives back its header and its
  sectors, every one of which is marked, and removes the name; all other files are as they were.
  A name that is not there changes nothing.
\<close>

theorem RemoveFile_refines:
  assumes "fs_ok fs d" and "garbage_ok J" and "c_name name"
  shows "\<exists>d'. FileSystem_Remove J fs name d = Inr (fs_view fs d (short_name name) \<noteq> None, d') \<and> fs_ok fs d'
    \<and> fs_view fs d' = (fs_view fs d)(short_name name := None)"
proof (cases "fs_view fs d (short_name name) = None")
  case True
  then have "(fs_view fs d)(short_name name := None) = fs_view fs d" by auto
  then show ?thesis using Remove_missing[OF assms True] True by (auto simp: fs_keeps_def)
next
  case False
  then show ?thesis using Remove_found[OF assms False] by auto
qed

section \<open>Open files\<close>

text \<open>An open file that belongs to a name.\<close>

definition opens :: "filesystem \<Rightarrow> synchdisk \<Rightarrow> u8 list \<Rightarrow> openfile \<Rightarrow> bool" where
  "opens fs d k f \<longleftrightarrow> (\<exists>s. dir_lookup (disk_dir fs d) k = Some s \<and> of_hdr f = file_hdr d s)"

lemma Open_ok:
  assumes ok: "fs_ok fs d" and J: "garbage_ok J" and name: "c_name name"
  shows "\<exists>f d'. FileSystem_Open J fs name d = Inr (f, d') \<and> fs_ok fs d' \<and> fs_view fs d' = fs_view fs d
    \<and> (case f of None \<Rightarrow> fs_view fs d (short_name name) = None | Some g \<Rightarrow> opens fs d' (short_name name) g \<and> seekPosition g = 0)"
proof -
  let ?k = "short_name name"
  obtain d1 where d1: "Directory_FetchFrom (Directory_new (g_entries J) NumDirEntries) (directoryFile fs) d = Inr (disk_dir fs d, d1)"
    "fs_ok fs d1" "fs_view fs d1 = fs_view fs d" "disk_dir fs d1 = disk_dir fs d"
    using fetch_dir[OF ok J] by metis
  have dok: "dir_ok (disk_dir fs d) \<and> length (disk_dir fs d) = NumDirEntries" using fs_okD(6)[OF ok] by simp
  show ?thesis
  proof (cases "dir_lookup (disk_dir fs d) ?k")
    case None
    then show ?thesis using dir.find_eq[OF dok name] d1 by (simp add: FileSystem_Open_def fs_view_lookup)
  next
    case (Some s)
    obtain n where n: "s = int n" "n < NumSectors"
      using lookup_found(3)[OF ok Some] unfolding valid_sector_def by (metis nonneg_int_cases of_nat_less_iff)
    obtain d2 where d2: "ReadSector d1 (int n) = Inr (sector d1 n, d2)" "synchdisk_ok d2" "same_sectors d1 d2"
      using sd.rd_ok[OF fs_okD(1)[OF d1(2)] n(2)] by blast
    note S2 = fs_same_sectors[OF d1(2) d2(2,3)]
    have "file_hdr d2 s = header_of (sector d1 n)" using d2(3) n by (simp add: file_hdr_def)
    moreover have "FileSystem_Open J fs name d = Inr (Some \<lparr>of_hdr = header_of (sector d1 n), seekPosition = 0\<rparr>, d2)"
      using d1(1) d2(1) dir.find_eq[OF dok name] Some n
      by (simp add: FileSystem_Open_def OpenFile_new_def FileHeader_FetchFrom_def)
    ultimately show ?thesis
      using Some S2 d1(3,4) by (simp add: opens_def)
  qed
qed

lemma opens_file:
  assumes "fs_ok fs d" and "opens fs d k f"
  shows "hdr_ok (of_hdr f)" and "fs_view fs d k = Some (file_bytes d (of_hdr f))"
    and "set (hdr_sectors (of_hdr f)) \<inter> sys_blocks fs = {}"
proof -
  obtain s where s: "dir_lookup (disk_dir fs d) k = Some s" "of_hdr f = file_hdr d s"
    using assms(2) by (auto simp: opens_def)
  show "hdr_ok (of_hdr f)" using files_ok_file[OF fs_okD(8)[OF assms(1)] s(1)] s(2) by (simp add: file_ok_def)
  show "fs_view fs d k = Some (file_bytes d (of_hdr f))" using s by (simp add: fs_view_def content_def)
  show "set (hdr_sectors (of_hdr f)) \<inter> sys_blocks fs = {}"
    using files_ok_sys[OF fs_okD(8)[OF assms(1)] s(1)] s(2) by (auto simp: file_blocks_def)
qed

lemma write_open:
  assumes ok: "fs_ok fs d" and f: "opens fs d k f" and i: "in_int (int p + int m)" and src: "m \<le> length src"
  shows "\<exists>d' n c. WriteAt junk f src (int m) (int p) d = Inr (int n, d') \<and> fs_view fs d k = Some c \<and> n = min m (length c - p)
    \<and> fs_ok fs d' \<and> opens fs d' k f \<and> fs_view fs d' = (fs_view fs d)(k \<mapsto> overlay p (take n src) c)"
proof -
  note D = fs_okD[OF ok] and F = opens_file[OF ok f]
  obtain s where s: "dir_lookup (disk_dir fs d) k = Some s" "of_hdr f = file_hdr d s" using f by (auto simp: opens_def)
  let ?h = "of_hdr f"
  let ?n = "min m (nat (FileLength ?h) - p)"
  obtain d' where d': "WriteAt junk f src (int m) (int p) d = Inr (int ?n, d')" "synchdisk_ok d'"
    "file_bytes d' ?h = overlay p (take ?n src) (file_bytes d ?h)"
    "\<forall>r < NumSectors. r \<notin> set (hdr_sectors ?h) \<longrightarrow> sector d' r = sector d r"
    using WriteAt_ok[OF D(1) F(1) i src] by blast
  have sys: "sector d' r = sector d r" if "r \<in> sys_blocks fs" for r
  proof -
    have "r < NumSectors"
      using that hdr_sectors_less[OF D(2)] hdr_sectors_less[OF D(3)] by (auto simp: sys_blocks_def)
    then show ?thesis using that d'(4) F(3) by blast
  qed
  have m: "disk_map fs d' = disk_map fs d" by (rule disk_map_cong[OF D(2)]) (simp add: sys sys_blocks_def)
  have r: "disk_dir fs d' = disk_dir fs d" by (rule disk_dir_cong[OF D(3)]) (simp add: sys sys_blocks_def)
  have so: "sys_ok fs d'" using D(7) sys by (simp add: sys_ok_def file_hdr_def sys_blocks_def)
  have other: "sector d' r = sector d r" if "dir_lookup (disk_dir fs d) k' = Some s'" "k' \<noteq> k" "r \<in> file_blocks d s'" for k' s' r
  proof -
    have "r \<notin> set (hdr_sectors ?h)"
      using files_ok_disjoint[OF D(8) that(1) s(1) that(2)] that(3) s(2) by (auto simp: file_blocks_def)
    then show ?thesis using d'(4) file_blocks_less[OF files_ok_file[OF D(8) that(1)] that(3)] by simp
  qed
  have own: "file_hdr d' s = file_hdr d s"
  proof -
    have "nat s \<notin> set (hdr_sectors ?h)" "nat s < NumSectors"
      using files_ok_file[OF D(8) s(1)] s(2) by (auto simp: file_ok_def valid_sector_def)
    then show ?thesis using d'(4) by (simp add: file_hdr_def)
  qed
  have hdrs: "file_hdr d' s' = file_hdr d s'" if "dir_lookup (disk_dir fs d) k' = Some s'" for k' s'
    using that own s(1) file_same(1)[of d s' d'] other by (cases "k' = k") auto
  have ok': "fs_ok fs d'"
    using d'(2) so D(6) files_ok_headers[OF D(8) hdrs] by (simp add: fs_ok_def m r)
  have "content d' s' = content d s'" if "dir_lookup (disk_dir fs d) k' = Some s'" "k' \<noteq> k" for k' s'
    using file_same(4)[of d s' d'] other[OF that] by blast
  moreover have "content d' s = overlay p (take ?n src) (file_bytes d ?h)"
    using d'(3) s(2) own by (simp add: content_def)
  ultimately have v: "fs_view fs d' = (fs_view fs d)(k \<mapsto> overlay p (take ?n src) (file_bytes d ?h))"
    using s(1) by (intro ext) (auto simp: fs_view_def r map_option_case split: option.split)
  have "opens fs d' k f" using s own by (auto simp: opens_def r)
  then show ?thesis
    using d'(1) F(2) ok' v length_file_bytes[OF D(1) F(1)]
    by (intro exI[of _ d'] exI[of _ ?n] exI[of _ "file_bytes d ?h"]) simp
qed

lemma read_open:
  assumes ok: "fs_ok fs d" and f: "opens fs d k f" and i: "in_int (int p + int m)"
  shows "\<exists>d' c. ReadAt f (int m) (int p) d = Inr (take m (drop p c), d') \<and> fs_view fs d k = Some c
    \<and> fs_ok fs d' \<and> opens fs d' k f \<and> fs_view fs d' = fs_view fs d"
proof -
  note D = fs_okD[OF ok] and F = opens_file[OF ok f]
  obtain d' where d': "ReadAt f (int m) (int p) d = Inr (take m (drop p (file_bytes d (of_hdr f))), d')" "synchdisk_ok d'" "same_sectors d d'"
    using ReadAt_ok[OF D(1) F(1) i] by blast
  note S = fs_same_sectors[OF ok d'(2,3)]
  obtain s where s: "dir_lookup (disk_dir fs d) k = Some s" "of_hdr f = file_hdr d s" using f by (auto simp: opens_def)
  then have "nat s < NumSectors" using lookup_found(3)[OF ok s(1)] by (auto simp: valid_sector_def)
  then have "file_hdr d' s = file_hdr d s" using d'(3) by (simp add: file_hdr_def)
  then have "opens fs d' k f" using s S(4) by (auto simp: opens_def)
  then show ?thesis using d'(1) F(2) S by blast
qed

text \<open>
  C24: an open file of the file system. Writing through it replaces the bytes of its file from the
  offset on, as far as the file goes, and no other file and neither the directory nor the free map
  change; what is read back through it afterwards is what the file now holds.
\<close>

theorem open_file_refines:
  assumes "fs_ok fs d" and "opens fs d k f" and "in_int (int p + int m)" and "m \<le> length src" and "in_int (int q + int r)"
  shows "\<exists>c n d1 d2. fs_view fs d k = Some c \<and> n = min m (length c - p)
    \<and> WriteAt junk f src (int m) (int p) d = Inr (int n, d1) \<and> fs_ok fs d1
    \<and> fs_view fs d1 = (fs_view fs d)(k \<mapsto> overlay p (take n src) c)
    \<and> ReadAt f (int r) (int q) d1 = Inr (take r (drop q (overlay p (take n src) c)), d2) \<and> fs_view fs d2 = fs_view fs d1"
proof -
  obtain d1 n c where w: "WriteAt junk f src (int m) (int p) d = Inr (int n, d1)" "fs_view fs d k = Some c" "n = min m (length c - p)"
    "fs_ok fs d1" "opens fs d1 k f" "fs_view fs d1 = (fs_view fs d)(k \<mapsto> overlay p (take n src) c)"
    using write_open[OF assms(1-4)] by blast
  obtain d2 c' where r: "ReadAt f (int r) (int q) d1 = Inr (take r (drop q c'), d2)" "fs_view fs d1 k = Some c'"
    "fs_view fs d2 = fs_view fs d1"
    using read_open[OF w(4,5) assms(5)] by blast
  then have "c' = overlay p (take n src) c" using w(6) by simp
  then show ?thesis using w(1-4,6) r(1,3) by blast
qed

section \<open>Formatting and mounting\<close>

lemma OpenFile_new_ok:
  assumes "synchdisk_ok d" and "s < NumSectors"
  shows "\<exists>d'. OpenFile_new (int s) d = Inr (\<lparr>of_hdr = file_hdr d (int s), seekPosition = 0\<rparr>, d') \<and> synchdisk_ok d' \<and> same_sectors d d'"
  using sd.rd_ok[OF assms] by (auto simp: OpenFile_new_def FileHeader_FetchFrom_def file_hdr_def)

lemma Format_ok:
  assumes d: "synchdisk_ok d" and J: "garbage_ok J"
  shows "\<exists>fs d'. FileSystem_new J True d = Inr (fs, d') \<and> fs_ok fs d' \<and> fs_view fs d' = Map.empty
    \<and> dir_room (disk_dir fs d') \<and> card (marked (disk_map fs d')) \<le> 62"
proof -
  obtain b0 where b0: "BitMap_new (g_map J) NumSectors = Inr b0" "bitmap_wf b0" "numBits b0 = NumSectors" "marked b0 = {}"
    using BitMap_new_ex by blast
  obtain b1 where b1: "BitMap_Mark b0 0 = Inr b1" "bitmap_wf b1" "numBits b1 = NumSectors" "marked b1 = {0}"
    using BitMap_Mark_eq[OF b0(2), of 0] b0(3,4) by auto
  obtain b2 where b2: "BitMap_Mark b1 1 = Inr b2" "bitmap_wf b2" "numBits b2 = NumSectors" "marked b2 = {0, 1}"
    using BitMap_Mark_eq[OF b1(2), of 1] b1(3,4) by (auto simp: insert_commute)
  have g: "length (fh_data (g_hdr J)) = NumDirect" "length (fh_data (g_hdr2 J)) = NumDirect" "\<And>i. entry_wf (g_entries J i)"
    using J by (simp_all add: garbage_ok_def)
  obtain mh b3 where m: "Allocate (g_hdr J) b2 128 = Inr (True, mh, b3)" "hdr_ok mh" "FileLength mh = 128" "bitmap_wf b3"
    "numBits b3 = NumSectors" "set (hdr_sectors mh) \<inter> marked b2 = {}" "marked b3 = marked b2 \<union> set (hdr_sectors mh)"
    using Allocate_ok[OF b2(2,3) g(1), of 128] b2(3,4) by (auto simp: divRoundUp_def)
  have "card (marked b3) \<le> 32"
    using m(7) b2(4) card_Un_le[of "marked b2" "set (hdr_sectors mh)"] card_length[of "hdr_sectors mh"] hdr_ok_bounds(1)[OF m(2)]
    by (simp add: card_insert_if)
  then have "divRoundUp 200 SectorSize \<le> NumSectors - card (marked b3)" by (simp add: divRoundUp_def)
  then obtain dh b4 where h: "Allocate (g_hdr2 J) b3 200 = Inr (True, dh, b4)" "hdr_ok dh" "FileLength dh = 200" "bitmap_wf b4"
    "numBits b4 = NumSectors" "set (hdr_sectors dh) \<inter> marked b3 = {}" "marked b4 = marked b3 \<union> set (hdr_sectors dh)"
    using Allocate_ok[OF m(4,5) g(2), of 200] m(5) by auto
  have ml: "length (fh_data mh) = NumDirect" "length (fh_data dh) = NumDirect" using m(2) h(2) by (simp_all add: hdr_ok_def)
  obtain d1 where d1: "WriteSector d 0 (header_bytes mh) = Inr d1" "synchdisk_ok d1"
    "\<forall>r < NumSectors. sector d1 r = (if r = 0 then header_bytes mh else sector d r)"
    using WriteSector_ok[OF d _ length_header_bytes[OF ml(1)], of 0] by auto
  obtain d2 where d2: "WriteSector d1 1 (header_bytes dh) = Inr d2" "synchdisk_ok d2"
    "\<forall>r < NumSectors. sector d2 r = (if r = 1 then header_bytes dh else sector d1 r)"
    using WriteSector_ok[OF d1(2) _ length_header_bytes[OF ml(2)], of 1] by auto
  have hdrs: "file_hdr d2 0 = mh" "file_hdr d2 1 = dh" using d1(3) d2(3) header_of_bytes ml by (simp_all add: file_hdr_def)
  obtain d3 where d3: "OpenFile_new 0 d2 = Inr (\<lparr>of_hdr = mh, seekPosition = 0\<rparr>, d3)" "synchdisk_ok d3" "same_sectors d2 d3"
    using OpenFile_new_ok[OF d2(2), of 0] hdrs by auto
  have "file_hdr d3 1 = dh" using hdrs d3(3) by (simp add: file_hdr_def)
  then obtain d4 where d4: "OpenFile_new 1 d3 = Inr (\<lparr>of_hdr = dh, seekPosition = 0\<rparr>, d4)" "synchdisk_ok d4" "same_sectors d3 d4"
    using OpenFile_new_ok[OF d3(2), of 1] by auto
  let ?fs = "\<lparr>freeMapFile = \<lparr>of_hdr = mh, seekPosition = 0\<rparr>, directoryFile = \<lparr>of_hdr = dh, seekPosition = 0\<rparr>\<rparr>"
  obtain d5 where d5: "BitMap_WriteBack (g_buf J) b4 (freeMapFile ?fs) d4 = Inr d5" "synchdisk_ok d5" "disk_map ?fs d5 = b4"
    "\<And>r. r < NumSectors \<Longrightarrow> r \<notin> set (hdr_sectors mh) \<Longrightarrow> sector d5 r = sector d4 r"
    using store_map[OF d4(2), of ?fs b4] m(2,3) h(4,5) by auto
  let ?t = "Directory_new (g_entries J) NumDirEntries"
  obtain d6 where d6: "Directory_WriteBack (g_buf2 J) ?t (directoryFile ?fs) d5 = Inr d6" "synchdisk_ok d6" "disk_dir ?fs d6 = ?t"
    "\<And>r. r < NumSectors \<Longrightarrow> r \<notin> set (hdr_sectors dh) \<Longrightarrow> sector d6 r = sector d5 r"
    using store_dir[OF d5(2), of ?fs ?t] h(2,3) Directory_new_wf(1,2)[of "g_entries J"] g(3) by auto
  have disj: "set (hdr_sectors mh) \<inter> set (hdr_sectors dh) = {}" "0 \<notin> set (hdr_sectors mh)" "1 \<notin> set (hdr_sectors mh)"
    "0 \<notin> set (hdr_sectors dh)" "1 \<notin> set (hdr_sectors dh)"
    using m(6,7) h(6) b2(4) by auto
  have map6: "disk_map ?fs d6 = b4"
    using disk_map_cong[of ?fs d6 d5] m(2) d6(4) hdr_sectors_less[OF m(2)] disj(1) d5(3) by auto
  have "file_hdr d6 0 = mh" "file_hdr d6 1 = dh"
    using hdrs d3(3) d4(3) d5(4) d6(4) disj by (simp_all add: file_hdr_def)
  then have sys: "sys_ok ?fs d6"
    using m(2,3) h(2,3) hdr_ok_bounds(4) disj by (auto simp: sys_ok_def)
  have "files_ok (dir_lookup (disk_dir ?fs d6)) d6 (sys_blocks ?fs) (marked (disk_map ?fs d6))"
    using Directory_new_wf(3) h(7) m(7) b2(4) by (simp add: files_ok_def d6(3) map6 sys_blocks_def)
  then have "fs_ok ?fs d6"
    using d6(2,3) sys Directory_new_wf(4)[of "g_entries J"] g(3) by (simp add: fs_ok_def)
  moreover have "fs_view ?fs d6 = Map.empty"
    by (rule ext) (simp add: fs_view_def d6(3) Directory_new_wf(3))
  moreover have "card (marked (disk_map ?fs d6)) \<le> 62"
    using \<open>card (marked b3) \<le> 32\<close> h(7) map6 card_Un_le[of "marked b3" "set (hdr_sectors dh)"]
      card_length[of "hdr_sectors dh"] hdr_ok_bounds(1)[OF h(2)] by simp
  moreover have "dir_room (disk_dir ?fs d6)"
    by (auto simp: d6(3) dir_room_def Directory_new_def in_use_def intro!: exI[of _ 0])
  moreover have "FileSystem_new J True d = Inr (?fs, d6)"
    using b0(1) b1(1) b2(1) m(1) h(1) d1(1) d2(1) d3(1) d4(1) d5(1) d6(1)
    by (simp add: FileSystem_new_def FileHeader_WriteBack_def)
  ultimately show ?thesis by blast
qed

lemma Mount_ok:
  assumes "fs_ok fs d"
  shows "\<exists>fs' d'. FileSystem_new J False d = Inr (fs', d') \<and> fs_ok fs' d' \<and> fs_view fs' d' = fs_view fs d"
proof -
  note D = fs_okD[OF assms]
  have hdrs: "file_hdr d 0 = map_hdr fs" "file_hdr d 1 = dir_hdr fs" using D(7) by (simp_all add: sys_ok_def)
  obtain d1 where d1: "OpenFile_new 0 d = Inr (\<lparr>of_hdr = map_hdr fs, seekPosition = 0\<rparr>, d1)" "synchdisk_ok d1" "same_sectors d d1"
    using OpenFile_new_ok[OF D(1), of 0] hdrs by auto
  have "file_hdr d1 1 = dir_hdr fs" using hdrs d1(3) by (simp add: file_hdr_def)
  then obtain d2 where d2: "OpenFile_new 1 d1 = Inr (\<lparr>of_hdr = dir_hdr fs, seekPosition = 0\<rparr>, d2)" "synchdisk_ok d2" "same_sectors d1 d2"
    using OpenFile_new_ok[OF d1(2), of 1] by auto
  let ?fs = "\<lparr>freeMapFile = \<lparr>of_hdr = map_hdr fs, seekPosition = 0\<rparr>, directoryFile = \<lparr>of_hdr = dir_hdr fs, seekPosition = 0\<rparr>\<rparr>"
  have "fs_ok fs d2 \<and> fs_view fs d2 = fs_view fs d" using fs_same_sectors(1,2)[OF assms d2(2)] d1(3) d2(3) by simp
  moreover have "fs_ok ?fs d2 = fs_ok fs d2" "fs_view ?fs d2 = fs_view fs d2"
    by (auto simp: fs_ok_def sys_ok_def disk_map_def disk_dir_def sys_blocks_def fs_view_def fun_eq_iff)
  ultimately show ?thesis using d1(1) d2(1) by (simp add: FileSystem_new_def)
qed


section \<open>A demonstration\<close>

definition demo_garbage :: garbage where
  "demo_garbage = \<lparr>g_map = (\<lambda>_. 7), g_entries = (\<lambda>_. blank_entry), g_hdr = blank_header, g_hdr2 = blank_header,
     g_buf = (\<lambda>_. 1), g_buf2 = (\<lambda>_. 2)\<rparr>"

lemma demo_garbage_ok: "garbage_ok demo_garbage"
  by (simp add: garbage_ok_def demo_garbage_def blank_header_def)

lemma demo_disk:
  obtains fs d where "fs_ok fs d" and "fs_view fs d = Map.empty" and "can_create fs d name 200"
proof -
  obtain d0 where "synchdisk_ok (SynchDisk_new d0)" using Disk_new_None by blast
  then obtain fs d where "fs_ok fs d" "fs_view fs d = Map.empty" "dir_room (disk_dir fs d)" "card (marked (disk_map fs d)) \<le> 62"
    using Format_ok[OF _ demo_garbage_ok] by blast
  then show ?thesis using that[of fs d] by (simp add: can_create_def divRoundUp_def)
qed

text \<open>A disk with one file of 200 bytes, and the file open.\<close>

lemma demo_file:
  obtains fs d f c where "fs_ok fs d" and "opens fs d [97] f" and "fs_view fs d = [[97] \<mapsto> c]" and "length c = 200"
proof -
  have nm: "c_name [97]" and sn: "short_name [97] = [97]" by (simp_all add: c_name_def short_name_def)
  obtain fs d where d: "fs_ok fs d" "fs_view fs d = Map.empty" "can_create fs d [97] 200" using demo_disk by blast
  obtain d1 c where d1: "fs_ok fs d1" "fs_view fs d1 = [[97] \<mapsto> c]" "length c = 200"
    using Create_succeeds[OF d(1) demo_garbage_ok nm d(3)] d(2) sn by auto
  obtain f d2 where d2: "fs_ok fs d2" "fs_view fs d2 = fs_view fs d1"
    "case f of None \<Rightarrow> fs_view fs d1 [97] = None | Some g \<Rightarrow> opens fs d2 [97] g \<and> seekPosition g = 0"
    using Open_ok[OF d1(1) demo_garbage_ok nm, unfolded sn] by blast
  then obtain g where "opens fs d2 [97] g" using d1(2) by (auto split: option.splits)
  then show ?thesis using that d1 d2 by simp
qed



theorem RemoveFile_refines_witness:
  "\<exists>fs d d'. FileSystem_Remove demo_garbage fs [97] d = Inr (True, d') \<and> fs_view fs d \<noteq> Map.empty \<and> fs_view fs d' = Map.empty"
proof -
  have nm: "c_name [97]" and sn: "short_name [97] = [97]" by (simp_all add: c_name_def short_name_def)
  obtain fs d f c where d: "fs_ok fs d" "fs_view fs d = [[97] \<mapsto> c]" using demo_file by metis
  then obtain d' where "FileSystem_Remove demo_garbage fs [97] d = Inr (True, d')" "fs_view fs d' = Map.empty"
    using RemoveFile_refines[OF d(1) demo_garbage_ok nm] sn by auto
  moreover have "fs_view fs d \<noteq> Map.empty" using d(2) map_upd_nonempty by simp
  ultimately show ?thesis by blast
qed

theorem open_file_refines_witness:
  "\<exists>fs d f c d1 d2. fs_view fs d [97] = Some c \<and> WriteAt (\<lambda>_. 3) f [1, 2, 3] 3 126 d = Inr (3, d1)
     \<and> ReadAt f 2 127 d1 = Inr ([2, 3], d2)"
proof -
  obtain fs d f c where d: "fs_ok fs d" "opens fs d [97] f" "fs_view fs d = [[97] \<mapsto> c]" "length c = 200" using demo_file by metis
  have i: "in_int (int 126 + int 3)" "3 \<le> length [1, 2, 3 :: u8]" "in_int (int 127 + int 2)" by (simp_all add: in_int_def)
  obtain d1 d2 where r: "WriteAt (\<lambda>_. 3) f [1, 2, 3] (int 3) (int 126) d = Inr (int 3, d1)"
    "ReadAt f (int 2) (int 127) d1 = Inr (take 2 (drop 127 (overlay 126 [1, 2, 3] c)), d2)"
    using open_file_refines[OF d(1,2) i, of "\<lambda>_. 3"] d(3,4) by auto
  moreover have "take 2 (drop 127 (overlay 126 [1, 2, 3] c)) = [2, 3]"
    using d(4) by (simp add: overlay_def)
  ultimately show ?thesis using d(3) by (intro exI[of _ fs] exI[of _ d] exI[of _ f] exI[of _ c] exI[of _ d1] exI[of _ d2]) simp
qed

end
