(* ===== verification/SwapFile.thy ===== *)
theory SwapFile
  imports MachineMem BitMap
begin

text \<open>
  \<open>userprog/swapfile.cc\<close> and the tables of the virtual memory (\<open>userprog/pagetableentry.h\<close>,
  \<open>userprog/IPT.h\<close>): the swap file of 16000 pages with its map, the page tables of the address
  spaces, and the inverted page table with one entry for each frame of physical memory. The files
  are those of the host (\<open>FILESYS_STUB\<close>). The number of frames is the length of the inverted page
  table, at most the \<open>NumPhysPages\<close> of the machine.

  The locks around these operations exclude each other; an operation is one step.
\<close>

section \<open>State\<close>

abbreviation (input) MAX_SWAP_PAGES :: nat where "MAX_SWAP_PAGES \<equiv> 16000"

datatype Location = IN_EXECUTABLE | IN_SWAP_FILE | NEITHER

record ptentry =
  pt_virtualPage :: int
  pt_physicalPage :: int
  pt_valid :: bool
  pt_readOnly :: bool
  pt_use :: bool
  pt_dirty :: bool
  pt_location :: Location
  pt_executable :: "nat option"     \<comment> \<open>the open file, by its number in \<open>files\<close>\<close>
  pt_byteOffset :: int
  pt_swapPageIndex :: int

record iptentry =
  ip_virtualPage :: int
  ip_physicalPage :: int
  ip_valid :: bool
  ip_readOnly :: bool
  ip_use :: bool
  ip_dirty :: bool
  ip_process :: "nat option"        \<comment> \<open>the address space, NULL at first\<close>

record vm = machine +
  ipt :: "iptentry list"
  ppnInUse :: bitmap
  ppnQueue :: "int list"
  useRandom :: bool
  curTLB :: nat
  page_tables :: "nat \<Rightarrow> ptentry list"
  cur_space :: nat
  swap_map :: bitmap
  swap_file :: "u8 list"
  files :: "nat \<Rightarrow> u8 list"

section \<open>Memory pages\<close>

text \<open>\<open>machine->mainMemory[ppn * PageSize]\<close> and the bytes behind it.\<close>

definition frame :: "'a machine_scheme \<Rightarrow> nat \<Rightarrow> u8 list" where
  "frame s p = map (mainMemory s) [p * PageSize..<p * PageSize + PageSize]"

definition put_bytes :: "nat \<Rightarrow> u8 list \<Rightarrow> 'a machine_scheme \<Rightarrow> 'a machine_scheme" where
  "put_bytes off bs s =
     s\<lparr>mainMemory := (\<lambda>a. if off \<le> a \<and> a < off + length bs then bs ! (a - off) else mainMemory s a)\<rparr>"

definition frame_ok :: "'a vm_scheme \<Rightarrow> int \<Rightarrow> unit result" where
  "frame_ok s ppn = (if 0 \<le> ppn \<and> ppn < int (length (ipt s)) then Inr () else Inl Undefined_behaviour)"

section \<open>The swap file\<close>

text \<open>The constructor: \<open>Create("swap", ...)\<close> and \<open>Open("swap")\<close> of the host succeed.\<close>

definition SwapFile_new :: "(nat \<Rightarrow> u32) \<Rightarrow> (bitmap \<times> u8 list) result" where
  "SwapFile_new junk = bindE (BitMap_new junk MAX_SWAP_PAGES) (\<lambda>m. Inr (m, []))"

definition GetSwapPageIndex :: "'a vm_scheme \<Rightarrow> (int \<times> 'a vm_scheme) result" where
  "GetSwapPageIndex s =
     bindE (BitMap_Find (swap_map s)) (\<lambda>(i, m).
     if i = -1 then Inl Machine_halted else Inr (i, s\<lparr>swap_map := m\<rparr>))"

definition isValidIndex :: "'a vm_scheme \<Rightarrow> int \<Rightarrow> bool result" where
  "isValidIndex s index =
     (if index < 0 \<or> index \<ge> int MAX_SWAP_PAGES then Inr False else BitMap_Test (swap_map s) index)"

text \<open>\<open>Load\<close> and \<open>Store\<close> print an error for an index that is not valid, and go on with it. An
  offset that does not fit an \<open>int\<close> is undefined; one below 0 fails the \<open>ASSERT\<close> of \<open>Lseek\<close>.\<close>

definition seek_ok :: "int \<Rightarrow> unit result" where
  "seek_ok off = (if in_int off then assertE (off \<ge> 0) else Inl Undefined_behaviour)"

definition Load :: "int \<Rightarrow> int \<Rightarrow> 'a vm_scheme \<Rightarrow> (int \<times> 'a vm_scheme) result" where
  "Load index ppn s =
     bindE (isValidIndex s index) (\<lambda>_.
     bindE (frame_ok s ppn) (\<lambda>_.
     bindE (seek_ok (index * int PageSize)) (\<lambda>_.
     let bs = unix_read_partial (nat (index * int PageSize)) PageSize (swap_file s) in
     Inr (int (length bs), put_bytes (nat ppn * PageSize) bs s))))"

definition Store :: "int \<Rightarrow> int \<Rightarrow> 'a vm_scheme \<Rightarrow> (int \<times> 'a vm_scheme) result" where
  "Store index ppn s =
     bindE (isValidIndex s index) (\<lambda>_.
     bindE (frame_ok s ppn) (\<lambda>_.
     bindE (seek_ok (index * int PageSize)) (\<lambda>_.
     Inr (int PageSize, s\<lparr>swap_file := unix_write (nat (index * int PageSize)) (frame s (nat ppn)) (swap_file s)\<rparr>))))"

definition Evict :: "int \<Rightarrow> 'a vm_scheme \<Rightarrow> (int \<times> 'a vm_scheme) result" where
  "Evict index s =
     bindE (isValidIndex s index) (\<lambda>v.
     if \<not> v then Inr (0, s)
     else bindE (BitMap_Clear (swap_map s) index) (\<lambda>m. Inr (1, s\<lparr>swap_map := m\<rparr>)))"

definition EvictAll :: "'a vm_scheme \<Rightarrow> 'a vm_scheme result" where
  "EvictAll s = bindE (clear_all [0..<MAX_SWAP_PAGES] (swap_map s)) (\<lambda>m. Inr (s\<lparr>swap_map := m\<rparr>))"

section \<open>Frames and slots\<close>

lemma length_frame [simp]: "length (frame s p) = PageSize"
  by (simp add: frame_def)

lemma frame_put_bytes:
  assumes "length bs = PageSize"
  shows "frame (put_bytes (p * PageSize) bs s) q = (if q = p then bs else frame s q)"
proof (cases "q = p")
  case True
  then show ?thesis using assms by (intro nth_equalityI) (simp_all add: frame_def put_bytes_def)
next
  case False
  then consider "Suc q \<le> p" | "Suc p \<le> q" by linarith
  then have out: "\<not> (p * PageSize \<le> a \<and> a < p * PageSize + PageSize)" if "q * PageSize \<le> a" "a < q * PageSize + PageSize" for a
    using that by cases auto
  then show ?thesis using assms False by (auto simp: frame_def put_bytes_def)
qed

lemma frame_cong: "mainMemory s' = mainMemory s \<Longrightarrow> frame s' p = frame s p"
  by (simp add: frame_def)

definition swap_slot :: "'a vm_scheme \<Rightarrow> nat \<Rightarrow> u8 list" where
  "swap_slot s i = take PageSize (drop (i * PageSize) (swap_file s))"

definition slot_stored :: "'a vm_scheme \<Rightarrow> nat \<Rightarrow> bool" where
  "slot_stored s i \<longleftrightarrow> i < MAX_SWAP_PAGES \<and> i * PageSize + PageSize \<le> length (swap_file s)"

definition swap_wf :: "'a vm_scheme \<Rightarrow> bool" where
  "swap_wf s \<longleftrightarrow> bitmap_wf (swap_map s) \<and> numBits (swap_map s) = MAX_SWAP_PAGES"

lemma isValidIndex_total: "swap_wf s \<Longrightarrow> isValidIndex s i = Inr (0 \<le> i \<and> nat i \<in> marked (swap_map s))"
proof (cases "0 \<le> i \<and> i < int MAX_SWAP_PAGES")
  case True
  assume w: "swap_wf s"
  obtain n where n: "i = int n" "n < MAX_SWAP_PAGES" using True by (metis nonneg_int_cases of_nat_less_iff)
  then have "BitMap_Test (swap_map s) i = Inr (n \<in> marked (swap_map s))"
    using w by (simp add: BitMap_Test_eq swap_wf_def)
  then show ?thesis using n by (simp add: isValidIndex_def)
next
  case False
  assume w: "swap_wf s"
  have "nat i \<notin> marked (swap_map s) \<or> i < 0" using False w marked_less[of "nat i" "swap_map s"] by (auto simp: swap_wf_def)
  then show ?thesis using False by (auto simp: isValidIndex_def)
qed

lemma GetSwapPageIndex_cases:
  assumes "swap_wf s"
  shows "card (marked (swap_map s)) = MAX_SWAP_PAGES \<Longrightarrow> GetSwapPageIndex s = Inl Machine_halted"
    and "card (marked (swap_map s)) < MAX_SWAP_PAGES \<Longrightarrow> \<exists>i m. GetSwapPageIndex s = Inr (int i, s\<lparr>swap_map := m\<rparr>)
      \<and> i < MAX_SWAP_PAGES \<and> i \<notin> marked (swap_map s) \<and> bitmap_wf m \<and> numBits m = MAX_SWAP_PAGES
      \<and> marked m = insert i (marked (swap_map s))"
  using assms bm.find_none[of "swap_map s"] bm.find_some[of "swap_map s"]
  by (auto simp: GetSwapPageIndex_def swap_wf_def)

lemma seek_ok_slot: "i < MAX_SWAP_PAGES \<Longrightarrow> seek_ok (int i * int PageSize) = Inr ()"
  by (simp add: seek_ok_def in_int_def)

lemma Store_ok:
  assumes "swap_wf s" and "i < MAX_SWAP_PAGES" and "p < length (ipt s)"
  shows "Store (int i) (int p) s = Inr (int PageSize, s\<lparr>swap_file := unix_write (i * PageSize) (frame s p) (swap_file s)\<rparr>)"
  using assms by (simp add: Store_def isValidIndex_total frame_ok_def seek_ok_slot[simplified] nat_mult_distrib)

lemma Load_ok:
  assumes "swap_wf s" and "i < MAX_SWAP_PAGES" and "p < length (ipt s)"
  shows "Load (int i) (int p) s = Inr (int (length (swap_slot s i)), put_bytes (p * PageSize) (swap_slot s i) s)"
  using assms by (simp add: Load_def isValidIndex_total frame_ok_def seek_ok_slot[simplified] nat_mult_distrib swap_slot_def unix_read_partial_def)

lemma length_swap_slot: "slot_stored s i \<Longrightarrow> length (swap_slot s i) = PageSize"
  by (auto simp: slot_stored_def swap_slot_def min_def)

text \<open>
  a page stored in the swap file is loaded back as it was, into any frame, and neither the
  other slots nor the other frames change.
\<close>

theorem swap_round_trip:
  assumes "swap_wf s" and "i < MAX_SWAP_PAGES" and "p < length (ipt s)" and "q < length (ipt s)"
  shows "\<exists>s1 s2. Store (int i) (int p) s = Inr (int PageSize, s1) \<and> Load (int i) (int q) s1 = Inr (int PageSize, s2)
    \<and> frame s2 q = frame s p \<and> (\<forall>r. r \<noteq> q \<longrightarrow> frame s2 r = frame s r)
    \<and> (\<forall>j. j \<noteq> i \<and> slot_stored s j \<longrightarrow> swap_slot s2 j = swap_slot s j)"
proof -
  let ?s1 = "s\<lparr>swap_file := unix_write (i * PageSize) (frame s p) (swap_file s)\<rparr>"
  have slot: "swap_slot ?s1 i = frame s p" by (simp add: swap_slot_def unix_write_slot(1))
  have other: "swap_slot ?s1 j = swap_slot s j" if "j \<noteq> i" "slot_stored s j" for j
    using that by (simp add: swap_slot_def slot_stored_def unix_write_slot(2))
  have "Load (int i) (int q) ?s1 = Inr (int PageSize, put_bytes (q * PageSize) (frame s p) ?s1)"
    using Load_ok[of ?s1 i q] assms slot by (simp add: swap_wf_def)
  moreover have "frame (put_bytes (q * PageSize) (frame s p) ?s1) r = (if r = q then frame s p else frame s r)" for r
    using frame_put_bytes[of "frame s p" q ?s1 r] by (simp add: frame_cong[of ?s1 s])
  moreover have "swap_slot (put_bytes (q * PageSize) (frame s p) ?s1) j = swap_slot ?s1 j" for j
    by (simp add: swap_slot_def put_bytes_def)
  ultimately show ?thesis using Store_ok[OF assms(1,2,3)] other by auto
qed

end
