(* ===== verification/VirtualMem.thy ===== *)
theory VirtualMem
  imports SwapFile
begin

text \<open>
  Demand paging (\<open>userprog/exception.cc\<close> and \<open>Scheduler::Run\<close> of \<open>threads/scheduler.cc\<close>): the
  software-filled TLB, the inverted page table behind it, eviction to the swap file, and the flush
  of the TLB at a context switch. \<open>page\<close> is what an address space finds in one of its pages, wherever
  the page is; the lemmas say which operations keep it.
\<close>

section \<open>Page tables\<close>

definition pte_at :: "nat \<Rightarrow> int \<Rightarrow> 'a vm_scheme \<Rightarrow> ptentry result" where
  "pte_at a vpn s =
     (if 0 \<le> vpn \<and> vpn < int (length (page_tables s a)) then Inr (page_tables s a ! nat vpn)
      else Inl Undefined_behaviour)"

definition set_pte :: "nat \<Rightarrow> int \<Rightarrow> ptentry \<Rightarrow> 'a vm_scheme \<Rightarrow> 'a vm_scheme" where
  "set_pte a vpn e s = s\<lparr>page_tables := (page_tables s)(a := (page_tables s a)[nat vpn := e])\<rparr>"

definition findIPTIndex :: "int \<Rightarrow> 'a vm_scheme \<Rightarrow> int" where
  "findIPTIndex vpn s =
     (case List.find (\<lambda>i. ip_valid (ipt s ! i) \<and> ip_virtualPage (ipt s ! i) = vpn
                        \<and> ip_process (ipt s ! i) = Some (cur_space s)) [0..<length (ipt s)] of
        None \<Rightarrow> -1 | Some i \<Rightarrow> int i)"

section \<open>Eviction\<close>

fun inval_first :: "u32 \<Rightarrow> tentry list \<Rightarrow> tentry list" where
  "inval_first w [] = []"
| "inval_first w (e # es) =
     (if valid e \<and> physicalPage e = w then e\<lparr>valid := False\<rparr> # es else e # inval_first w es)"

text \<open>The victim: a random frame, or the head of the queue. \<open>SynchList::Remove\<close> waits on an empty
  list, and nobody else appends.\<close>

definition victim :: "nat \<Rightarrow> 'a vm_scheme \<Rightarrow> (int \<times> 'a vm_scheme) result" where
  "victim rnd s =
     (if useRandom s
      then if ipt s = [] then Inl Undefined_behaviour else Inr (int (rnd mod length (ipt s)), s)
      else case ppnQueue s of [] \<Rightarrow> Inl Diverges | q # qs \<Rightarrow> Inr (q, s\<lparr>ppnQueue := qs\<rparr>))"

definition inval_tlb :: "int \<Rightarrow> 'a vm_scheme \<Rightarrow> 'a vm_scheme result" where
  "inval_tlb ppn s =
     (if ip_process (ipt s ! nat ppn) = Some (cur_space s)
      then case tlb s of None \<Rightarrow> Inl Undefined_behaviour
           | Some t \<Rightarrow> Inr (s\<lparr>tlb := Some (inval_first (word_of_int ppn) t)\<rparr>)
      else Inr s)"

definition write_back :: "int \<Rightarrow> 'a vm_scheme \<Rightarrow> 'a vm_scheme result" where
  "write_back ppn s =
     (let e = ipt s ! nat ppn; vpn = ip_virtualPage e in
      if \<not> ip_dirty e then Inr s
      else case ip_process e of None \<Rightarrow> Inl Undefined_behaviour
      | Some a \<Rightarrow>
          bindE (pte_at a vpn s) (\<lambda>pte.
          bindE (if pt_swapPageIndex pte < 0 then GetSwapPageIndex s else Inr (pt_swapPageIndex pte, s)) (\<lambda>(i, s1).
          let s2 = set_pte a vpn (pte\<lparr>pt_swapPageIndex := i\<rparr>) s1 in
          bindE (Store i ppn s2) (\<lambda>(_, s3).
          Inr (set_pte a vpn (pte\<lparr>pt_swapPageIndex := i, pt_location := IN_SWAP_FILE\<rparr>) s3)))))"

definition evictAPage :: "nat \<Rightarrow> 'a vm_scheme \<Rightarrow> (int \<times> 'a vm_scheme) result" where
  "evictAPage rnd s =
     bindE (victim rnd s) (\<lambda>(ppn, s1).
     bindE (frame_ok s1 ppn) (\<lambda>_.
     bindE (inval_tlb ppn s1) (\<lambda>s2.
     bindE (write_back ppn s2) (\<lambda>s3. Inr (ppn, s3)))))"

section \<open>Loading a page\<close>

text \<open>\<open>machine->mainMemory[ppn * PageSize]\<close> filled from the executable (as many bytes as the file
  has), the swap file, or with zeros.\<close>

definition load_frame :: "int \<Rightarrow> int \<Rightarrow> 'a vm_scheme \<Rightarrow> 'a vm_scheme result" where
  "load_frame vpn ppn s =
     bindE (pte_at (cur_space s) vpn s) (\<lambda>pte.
     case pt_location pte of
       IN_EXECUTABLE \<Rightarrow>
         (case pt_executable pte of None \<Rightarrow> Inl Undefined_behaviour
          | Some f \<Rightarrow>
              bindE (seek_ok (pt_byteOffset pte)) (\<lambda>_.
              Inr (put_bytes (nat ppn * PageSize)
                     (unix_read_partial (nat (pt_byteOffset pte)) PageSize (files s f)) s)))
     | IN_SWAP_FILE \<Rightarrow>
         bindE (assertE (pt_swapPageIndex pte \<ge> 0)) (\<lambda>_.
         bindE (Load (pt_swapPageIndex pte) ppn s) (\<lambda>(_, s1). Inr s1))
     | NEITHER \<Rightarrow> Inr (put_bytes (nat ppn * PageSize) (replicate PageSize 0) s))"

definition fill_ipt :: "int \<Rightarrow> int \<Rightarrow> 'a vm_scheme \<Rightarrow> 'a vm_scheme" where
  "fill_ipt vpn ppn s =
     s\<lparr>ipt := (ipt s)[nat ppn :=
         \<lparr>ip_virtualPage = vpn, ip_physicalPage = ppn, ip_valid = True, ip_readOnly = False,
          ip_use = False, ip_dirty = False, ip_process = Some (cur_space s)\<rparr>]\<rparr>"

definition get_frame :: "nat \<Rightarrow> 'a vm_scheme \<Rightarrow> (int \<times> 'a vm_scheme) result" where
  "get_frame rnd s =
     bindE (BitMap_Find (ppnInUse s)) (\<lambda>(ppn, m).
     bindE (if ppn < 0 then evictAPage rnd (s\<lparr>ppnInUse := m\<rparr>) else Inr (ppn, s\<lparr>ppnInUse := m\<rparr>)) (\<lambda>(ppn, s1).
     Inr (ppn, if useRandom s1 then s1 else s1\<lparr>ppnQueue := ppnQueue s1 @ [ppn]\<rparr>)))"

definition loadPageIntoIPT :: "nat \<Rightarrow> int \<Rightarrow> 'a vm_scheme \<Rightarrow> (int \<times> 'a vm_scheme) result" where
  "loadPageIntoIPT rnd vpn s =
     bindE (get_frame rnd s) (\<lambda>(ppn, s1).
     bindE (frame_ok s1 ppn) (\<lambda>_.
     bindE (load_frame vpn ppn s1) (\<lambda>s2. Inr (ppn, fill_ipt vpn ppn s2))))"

section \<open>The TLB\<close>

text \<open>\<open>ipt[machine->tlb[i].physicalPage].dirty = machine->tlb[i].dirty\<close> for a valid entry.\<close>

definition propagate :: "nat \<Rightarrow> 'a vm_scheme \<Rightarrow> 'a vm_scheme result" where
  "propagate i s =
     (case tlb s of None \<Rightarrow> Inl Undefined_behaviour
      | Some t \<Rightarrow>
          if \<not> i < length t then Inl Undefined_behaviour
          else if \<not> valid (t ! i) then Inr s
          else let p = sint (physicalPage (t ! i)) in
            bindE (frame_ok s p) (\<lambda>_.
            Inr (s\<lparr>ipt := (ipt s)[nat p := (ipt s ! nat p)\<lparr>ip_dirty := dirty (t ! i)\<rparr>]\<rparr>)))"

definition tlb_entry :: "iptentry \<Rightarrow> tentry" where
  "tlb_entry e =
     \<lparr>virtualPage = word_of_int (ip_virtualPage e), physicalPage = word_of_int (ip_physicalPage e),
      valid = ip_valid e, readOnly = ip_readOnly e, use = ip_use e, dirty = ip_dirty e\<rparr>"

definition updateTLBFromIPT :: "int \<Rightarrow> 'a vm_scheme \<Rightarrow> 'a vm_scheme result" where
  "updateTLBFromIPT ppn s =
     bindE (propagate (curTLB s) s) (\<lambda>s1.
     bindE (frame_ok s1 ppn) (\<lambda>_.
     Inr (s1\<lparr>tlb := map_option (\<lambda>t. t[curTLB s1 := tlb_entry (ipt s1 ! nat ppn)]) (tlb s1),
             curTLB := Suc (curTLB s1) mod TLBSize\<rparr>)))"

definition HandlePageFault :: "nat \<Rightarrow> 'a vm_scheme \<Rightarrow> 'a vm_scheme result" where
  "HandlePageFault rnd s =
     bindE (ReadRegister s (int BadVAddrReg)) (\<lambda>w.
     let vpn = sint w sdiv int PageSize; ppn = findIPTIndex vpn s in
     bindE (if ppn < 0 then loadPageIntoIPT rnd vpn s else Inr (ppn, s)) (\<lambda>(ppn, s1).
     updateTLBFromIPT ppn s1))"

text \<open>\<open>Scheduler::Run\<close>: every valid entry's dirty bit goes to the inverted page table, and the entry
  is invalidated; then the next thread's address space becomes the current one.\<close>

fun flush_loop :: "nat list \<Rightarrow> 'a vm_scheme \<Rightarrow> 'a vm_scheme result" where
  "flush_loop [] s = Inr s"
| "flush_loop (i # is) s =
     bindE (propagate i s) (\<lambda>s1.
     flush_loop is (s1\<lparr>tlb := map_option (\<lambda>t. t[i := (t ! i)\<lparr>valid := False\<rparr>]) (tlb s1)\<rparr>))"

definition switch_space :: "nat \<Rightarrow> 'a vm_scheme \<Rightarrow> 'a vm_scheme result" where
  "switch_space a s = bindE (flush_loop [0..<TLBSize] s) (\<lambda>s1. Inr (s1\<lparr>cur_space := a\<rparr>))"

text \<open>\<open>Fork_Syscall\<close> and \<open>Exec_Syscall\<close> invalidate the entries and leave the inverted page table as it is.\<close>

definition invalidate_tlb :: "'a vm_scheme \<Rightarrow> 'a vm_scheme result" where
  "invalidate_tlb s =
     (case tlb s of None \<Rightarrow> Inl Undefined_behaviour
      | Some t \<Rightarrow> if length t < TLBSize then Inl Undefined_behaviour
         else Inr (s\<lparr>tlb := Some (map (\<lambda>e. e\<lparr>valid := False\<rparr>) (take TLBSize t) @ drop TLBSize t)\<rparr>))"

end
