(* ===== verification/PageFault.thy ===== *)
theory PageFault
  imports VirtualMem
begin

text \<open>
  Demand paging keeps the pages of every address space. \<open>page R s a v\<close> is page \<open>v\<close> of address space
  \<open>a\<close>: the frame that holds it, if one of the frames \<open>R\<close> does, and otherwise what the executable, the
  swap file or zero filling gives. The invariant is a set of predicates over \<open>R\<close>, so that it also
  describes the moment between the eviction of a frame and its next use.
\<close>

section \<open>Pages and their frames\<close>

definition owns :: "'a vm_scheme \<Rightarrow> nat \<Rightarrow> nat \<Rightarrow> nat \<Rightarrow> bool" where
  "owns s p a v \<longleftrightarrow> ip_process (ipt s ! p) = Some a \<and> ip_virtualPage (ipt s ! p) = int v"

definition backing :: "'a vm_scheme \<Rightarrow> nat \<Rightarrow> nat \<Rightarrow> u8 list" where
  "backing s a v = (let e = page_tables s a ! v in
     case pt_location e of
       IN_EXECUTABLE \<Rightarrow> (case pt_executable e of None \<Rightarrow> []
         | Some f \<Rightarrow> unix_read_partial (nat (pt_byteOffset e)) PageSize (files s f))
     | IN_SWAP_FILE \<Rightarrow> swap_slot s (nat (pt_swapPageIndex e))
     | NEITHER \<Rightarrow> replicate PageSize 0)"

definition page :: "nat set \<Rightarrow> 'a vm_scheme \<Rightarrow> nat \<Rightarrow> nat \<Rightarrow> u8 list" where
  "page R s a v =
     (case List.find (\<lambda>p. p \<in> R \<and> owns s p a v) [0..<length (ipt s)] of
        None \<Rightarrow> backing s a v | Some p \<Rightarrow> frame s p)"

section \<open>The invariant\<close>

definition pte_wf :: "'a vm_scheme \<Rightarrow> ptentry \<Rightarrow> bool" where
  "pte_wf s e \<longleftrightarrow>
     (pt_swapPageIndex e \<ge> 0 \<longrightarrow> nat (pt_swapPageIndex e) \<in> marked (swap_map s))
   \<and> (case pt_location e of
        IN_EXECUTABLE \<Rightarrow> (case pt_executable e of None \<Rightarrow> False
          | Some f \<Rightarrow> 0 \<le> pt_byteOffset e \<and> in_int (pt_byteOffset e)
                      \<and> nat (pt_byteOffset e) + PageSize \<le> length (files s f))
      | IN_SWAP_FILE \<Rightarrow> pt_swapPageIndex e \<ge> 0 \<and> slot_stored s (nat (pt_swapPageIndex e))
      | NEITHER \<Rightarrow> True)"

definition tables_wf :: "'a vm_scheme \<Rightarrow> bool" where
  "tables_wf s \<longleftrightarrow> swap_wf s
   \<and> (\<forall>a. length (page_tables s a) \<le> 2 ^ 24 \<and> (\<forall>v < length (page_tables s a). pte_wf s (page_tables s a ! v)))
   \<and> (\<forall>a v b w. v < length (page_tables s a) \<longrightarrow> w < length (page_tables s b) \<longrightarrow>
        pt_swapPageIndex (page_tables s a ! v) \<ge> 0 \<longrightarrow>
        pt_swapPageIndex (page_tables s a ! v) = pt_swapPageIndex (page_tables s b ! w) \<longrightarrow> a = b \<and> v = w)"

definition ipt_wf :: "nat set \<Rightarrow> 'a vm_scheme \<Rightarrow> bool" where
  "ipt_wf R s \<longleftrightarrow> length (ipt s) \<le> NumPhysPages
   \<and> (\<forall>p\<in>R. p < length (ipt s) \<and> ip_valid (ipt s ! p) \<and> ip_physicalPage (ipt s ! p) = int p
        \<and> \<not> ip_readOnly (ipt s ! p) \<and> (\<exists>a v. owns s p a v \<and> v < length (page_tables s a)))
   \<and> (\<forall>p\<in>R. \<forall>q\<in>R. \<forall>a v. owns s p a v \<longrightarrow> owns s q a v \<longrightarrow> p = q)"

definition tlb_wf :: "nat set \<Rightarrow> 'a vm_scheme \<Rightarrow> bool" where
  "tlb_wf R s \<longleftrightarrow> pageTable s = None \<and> curTLB s < TLBSize \<and>
     (case tlb s of None \<Rightarrow> False
      | Some t \<Rightarrow> length t = TLBSize
        \<and> (\<forall>i < TLBSize. valid (t ! i) \<longrightarrow> (\<exists>p\<in>R. \<exists>v. physicalPage (t ! i) = of_nat p
              \<and> owns s p (cur_space s) v \<and> virtualPage (t ! i) = of_nat v
              \<and> (ip_dirty (ipt s ! p) \<longrightarrow> dirty (t ! i))))
        \<and> (\<forall>i < TLBSize. valid (t ! i) \<longrightarrow> \<not> readOnly (t ! i))
        \<and> (\<forall>i < TLBSize. \<forall>j < TLBSize. valid (t ! i) \<longrightarrow> valid (t ! j) \<longrightarrow>
              physicalPage (t ! i) = physicalPage (t ! j) \<longrightarrow> i = j))"

text \<open>A page whose frame was written, and only the TLB knows.\<close>

definition tlb_dirty :: "'a vm_scheme \<Rightarrow> nat \<Rightarrow> bool" where
  "tlb_dirty s p \<longleftrightarrow>
     (case tlb s of None \<Rightarrow> False | Some t \<Rightarrow> \<exists>e\<in>set t. valid e \<and> physicalPage e = of_nat p \<and> dirty e)"

definition clean_wf :: "nat set \<Rightarrow> 'a vm_scheme \<Rightarrow> bool" where
  "clean_wf R s \<longleftrightarrow> (\<forall>p\<in>R. \<forall>a v. owns s p a v \<longrightarrow> \<not> ip_dirty (ipt s ! p) \<longrightarrow> \<not> tlb_dirty s p \<longrightarrow>
     frame s p = backing s a v)"

definition core_ok :: "nat set \<Rightarrow> 'a vm_scheme \<Rightarrow> bool" where
  "core_ok R s \<longleftrightarrow> tables_wf s \<and> ipt_wf R s \<and> tlb_wf R s \<and> clean_wf R s"

definition frames_ok :: "'a vm_scheme \<Rightarrow> bool" where
  "frames_ok s \<longleftrightarrow> bitmap_wf (ppnInUse s) \<and> numBits (ppnInUse s) = length (ipt s) \<and> 0 < length (ipt s)
   \<and> (\<forall>p < length (ipt s). ip_valid (ipt s ! p) \<longrightarrow> p \<in> marked (ppnInUse s))
   \<and> (\<not> useRandom s \<longrightarrow> distinct (ppnQueue s) \<and> set (ppnQueue s) = int ` marked (ppnInUse s))"

definition vm_ok :: "'a vm_scheme \<Rightarrow> bool" where
  "vm_ok s \<longleftrightarrow> core_ok (marked (ppnInUse s)) s \<and> frames_ok s"

section \<open>Reading a page off the invariant\<close>

lemma owner_unique: "owns s p a v \<Longrightarrow> owns s p b w \<Longrightarrow> a = b \<and> v = w"
  by (simp add: owns_def)

lemma page_resident:
  assumes "ipt_wf R s" and "p \<in> R" and "owns s p a v"
  shows "page R s a v = frame s p"
proof -
  have "p < length (ipt s)" using assms by (simp add: ipt_wf_def)
  then have "List.find (\<lambda>p. p \<in> R \<and> owns s p a v) [0..<length (ipt s)] \<noteq> None"
    using assms by (auto simp: find_None_iff)
  then obtain q where q: "List.find (\<lambda>p. p \<in> R \<and> owns s p a v) [0..<length (ipt s)] = Some q" by blast
  then have "q \<in> R \<and> owns s q a v" by (auto simp: find_Some_iff)
  then have "q = p" using assms by (auto simp: ipt_wf_def)
  then show ?thesis using q by (simp add: page_def)
qed

lemma page_absent:
  assumes "\<And>p. p \<in> R \<Longrightarrow> \<not> owns s p a v"
  shows "page R s a v = backing s a v"
proof -
  have "List.find (\<lambda>p. p \<in> R \<and> owns s p a v) [0..<length (ipt s)] = None"
    using assms by (auto simp: find_None_iff)
  then show ?thesis by (simp add: page_def)
qed

lemma page_cases [consumes 1, case_names resident absent]:
  assumes "ipt_wf R s"
  obtains (resident) p where "p \<in> R" "owns s p a v" "page R s a v = frame s p"
    | (absent) "\<forall>p\<in>R. \<not> owns s p a v" "page R s a v = backing s a v"
  using page_resident[OF assms] page_absent by metis

lemma of_nat_frame: "p < NumPhysPages \<Longrightarrow> q < NumPhysPages \<Longrightarrow> (of_nat p :: u32) = of_nat q \<longleftrightarrow> p = q"
  by (auto dest!: arg_cong[where f = unat] simp: unat_of_nat take_bit_nat_eq_self)

lemma tlb_wf_entry:
  "tlb_wf R s \<Longrightarrow> tlb s = Some t \<Longrightarrow> j < TLBSize \<Longrightarrow> valid (t ! j) \<Longrightarrow>
   \<exists>q\<in>R. \<exists>v. physicalPage (t ! j) = of_nat q \<and> owns s q (cur_space s) v \<and> virtualPage (t ! j) = of_nat v
     \<and> (ip_dirty (ipt s ! q) \<longrightarrow> dirty (t ! j))"
  by (simp add: tlb_wf_def)

lemma tlb_wf_unique:
  "tlb_wf R s \<Longrightarrow> tlb s = Some t \<Longrightarrow> i < TLBSize \<Longrightarrow> j < TLBSize \<Longrightarrow> valid (t ! i) \<Longrightarrow> valid (t ! j) \<Longrightarrow>
   physicalPage (t ! i) = physicalPage (t ! j) \<Longrightarrow> i = j"
  by (simp add: tlb_wf_def)

text \<open>What these predicates do not depend on.\<close>

lemma backing_frames [simp]:
  "backing (s\<lparr>tlb := t\<rparr>) = backing s" "backing (s\<lparr>ipt := i\<rparr>) = backing s" "backing (s\<lparr>curTLB := c\<rparr>) = backing s"
  "backing (s\<lparr>mainMemory := mm\<rparr>) = backing s" "backing (s\<lparr>cur_space := sp\<rparr>) = backing s"
  "backing (s\<lparr>ppnQueue := q\<rparr>) = backing s" "backing (s\<lparr>ppnInUse := b\<rparr>) = backing s"
  by (simp_all add: backing_def swap_slot_def Let_def fun_eq_iff cong: Location.case_cong option.case_cong)

lemma tables_wf_frames [simp]:
  "tables_wf (s\<lparr>tlb := t\<rparr>) = tables_wf s" "tables_wf (s\<lparr>ipt := i\<rparr>) = tables_wf s" "tables_wf (s\<lparr>curTLB := c\<rparr>) = tables_wf s"
  "tables_wf (s\<lparr>mainMemory := mm\<rparr>) = tables_wf s" "tables_wf (s\<lparr>cur_space := sp\<rparr>) = tables_wf s"
  "tables_wf (s\<lparr>ppnQueue := q\<rparr>) = tables_wf s" "tables_wf (s\<lparr>ppnInUse := b\<rparr>) = tables_wf s"
  by (simp_all add: tables_wf_def pte_wf_def swap_wf_def slot_stored_def cong: Location.case_cong option.case_cong)

lemma frame_frames [simp]:
  "frame (s\<lparr>tlb := t\<rparr>) p = frame s p" "frame (s'\<lparr>ipt := i\<rparr>) p = frame s' p" "frame (s'\<lparr>curTLB := c\<rparr>) p = frame s' p"
  "frame (s'\<lparr>cur_space := sp\<rparr>) p = frame s' p" "frame (s'\<lparr>ppnQueue := q\<rparr>) p = frame s' p"
  "frame (s'\<lparr>ppnInUse := b\<rparr>) p = frame s' p" "frame (s'\<lparr>page_tables := pts\<rparr>) p = frame s' p"
  "frame (s'\<lparr>swap_map := m\<rparr>) p = frame s' p" "frame (s'\<lparr>swap_file := f\<rparr>) p = frame s' p"
  by (simp_all add: frame_def)

section \<open>Eviction\<close>

lemma inval_first_miss: "(\<forall>e\<in>set t. valid e \<longrightarrow> physicalPage e \<noteq> w) \<Longrightarrow> inval_first w t = t"
  by (induction t) auto

lemma length_inval_first [simp]: "length (inval_first w t) = length t"
  by (induction t) auto

lemma inval_first_hit:
  "i < length t \<Longrightarrow> valid (t ! i) \<Longrightarrow> physicalPage (t ! i) = w \<Longrightarrow>
   \<forall>j < length t. valid (t ! j) \<longrightarrow> physicalPage (t ! j) = w \<longrightarrow> j = i \<Longrightarrow>
   inval_first w t = t[i := (t ! i)\<lparr>valid := False\<rparr>]"
proof (induction t arbitrary: i)
  case Nil
  then show ?case by simp
next
  case (Cons e es)
  show ?case
  proof (cases i)
    case 0
    then show ?thesis using Cons.prems by simp
  next
    case (Suc k)
    have h: "\<forall>j<Suc (length es). valid ((e # es) ! j) \<longrightarrow> physicalPage ((e # es) ! j) = w \<longrightarrow> j = Suc k"
      using Cons.prems(4) Suc by simp
    then have miss: "\<not> (valid e \<and> physicalPage e = w)" by (metis nat.distinct(1) nth_Cons_0 zero_less_Suc)
    have "\<forall>j < length es. valid (es ! j) \<longrightarrow> physicalPage (es ! j) = w \<longrightarrow> j = k"
      using h by (metis Suc_less_eq nat.inject nth_Cons_Suc)
    then have "inval_first w es = es[k := (es ! k)\<lparr>valid := False\<rparr>]"
      by (rule Cons.IH[rotated 3]) (use Cons.prems(1-3) Suc in simp_all)
    then show ?thesis using miss Suc by auto
  qed
qed

lemma tlb_dirty_conv:
  "tlb s = Some t \<Longrightarrow> length t = TLBSize \<Longrightarrow>
   tlb_dirty s p \<longleftrightarrow> (\<exists>j<TLBSize. valid (t ! j) \<and> physicalPage (t ! j) = of_nat p \<and> dirty (t ! j))"
  by (auto simp: tlb_dirty_def Bex_def in_set_conv_nth)

definition tlb_valid :: "'a vm_scheme \<Rightarrow> tentry set" where
  "tlb_valid s = (case tlb s of None \<Rightarrow> {} | Some t \<Rightarrow> {e \<in> set t. valid e})"

definition tlb_misses :: "'a vm_scheme \<Rightarrow> nat \<Rightarrow> bool" where
  "tlb_misses s v \<longleftrightarrow> (\<forall>e \<in> tlb_valid s. virtualPage e \<noteq> of_nat v)"

text \<open>Nothing is dirty in the TLB alone.\<close>

definition no_hidden :: "'a vm_scheme \<Rightarrow> bool" where
  "no_hidden s \<longleftrightarrow> (\<forall>p < length (ipt s). tlb_dirty s p \<longrightarrow> ip_dirty (ipt s ! p))"

lemma tlb_dirty_valid: "tlb_dirty s p \<longleftrightarrow> (\<exists>e \<in> tlb_valid s. physicalPage e = of_nat p \<and> dirty e)"
  by (auto simp: tlb_dirty_def tlb_valid_def split: option.splits)

lemma tlb_valid_conv: "tlb s = Some t \<Longrightarrow> e \<in> tlb_valid s \<longleftrightarrow> (\<exists>j < length t. e = t ! j \<and> valid (t ! j))"
  by (auto simp: tlb_valid_def in_set_conv_nth)

definition tlb_maps :: "'a vm_scheme \<Rightarrow> nat \<Rightarrow> nat \<Rightarrow> bool" where
  "tlb_maps s v p \<longleftrightarrow>
     (case tlb s of None \<Rightarrow> False
      | Some t \<Rightarrow> \<exists>e\<in>set t. valid e \<and> virtualPage e = of_nat v \<and> physicalPage e = of_nat p \<and> \<not> readOnly e)"

lemma inval_first_valid: "e \<in> set (inval_first w t) \<Longrightarrow> valid e \<Longrightarrow> e \<in> set t"
  by (induction w t rule: inval_first.induct) (auto split: if_splits)

lemma inval_tlb_valid: "inval_tlb p s = Inr s' \<Longrightarrow> tlb_valid s' \<subseteq> tlb_valid s"
  by (auto simp: inval_tlb_def tlb_valid_def split: option.splits if_splits dest!: inval_first_valid)

text \<open>Whatever the victim's owner, no valid entry of the TLB is left for it, and the others stay.\<close>

lemma inval_tlb_ok:
  assumes "tlb_wf R s" and "ipt_wf R s" and "p \<in> R"
  shows "\<exists>t'. inval_tlb (int p) s = Inr (s\<lparr>tlb := Some t'\<rparr>) \<and> tlb_wf (R - {p}) (s\<lparr>tlb := Some t'\<rparr>)
    \<and> (\<forall>q \<in> R - {p}. tlb_dirty (s\<lparr>tlb := Some t'\<rparr>) q = tlb_dirty s q)"
proof -
  obtain t where t: "tlb s = Some t" and len: "length t = 4" using assms(1) by (auto simp: tlb_wf_def split: option.splits)
  have R: "q < NumPhysPages" if "q \<in> R" for q using assms(2) that by (force simp: ipt_wf_def)
  note ent = tlb_wf_entry[OF assms(1) t]
  note uni = tlb_wf_unique[OF assms(1) t]
  have same: "s\<lparr>tlb := Some t\<rparr> = s" using t by simp
  show ?thesis
  proof (cases "\<exists>i<4. valid (t ! i) \<and> physicalPage (t ! i) = of_nat p")
    case False
    have "inval_first (of_nat p) t = t" using False len by (intro inval_first_miss) (auto simp: in_set_conv_nth)
    then have "inval_tlb (int p) s = Inr (s\<lparr>tlb := Some t\<rparr>)" using t by (simp add: inval_tlb_def)
    moreover have "\<exists>q\<in>R - {p}. \<exists>v. physicalPage (t ! i) = of_nat q \<and> owns s q (cur_space s) v \<and> virtualPage (t ! i) = of_nat v
      \<and> (ip_dirty (ipt s ! q) \<longrightarrow> dirty (t ! i))" if "i < 4" "valid (t ! i)" for i
      using ent[OF that] False that by (metis Diff_iff singletonD)
    then have "tlb_wf (R - {p}) s" using assms(1) t by (simp add: tlb_wf_def)
    ultimately show ?thesis using same by (intro exI[of _ t]) simp
  next
    case True
    then obtain i where i: "i < 4" "valid (t ! i)" "physicalPage (t ! i) = of_nat p" by blast
    let ?t = "t[i := (t ! i)\<lparr>valid := False\<rparr>]"
    have own: "ip_process (ipt s ! p) = Some (cur_space s)"
      using ent[OF i(1,2)] i(3) R assms(3) of_nat_frame by (auto simp: owns_def)
    have "inval_first (of_nat p) t = ?t" using i uni len by (intro inval_first_hit) auto
    then have 1: "inval_tlb (int p) s = Inr (s\<lparr>tlb := Some ?t\<rparr>)" using t own by (simp add: inval_tlb_def)
    have v: "valid (?t ! j) \<longleftrightarrow> valid (t ! j) \<and> j \<noteq> i" "valid (?t ! j) \<Longrightarrow> ?t ! j = t ! j" if "j < 4" for j
      using that len by (cases "i = j"; simp)+
    have "\<exists>q\<in>R - {p}. \<exists>v. physicalPage (?t ! j) = of_nat q \<and> owns s q (cur_space s) v \<and> virtualPage (?t ! j) = of_nat v
      \<and> (ip_dirty (ipt s ! q) \<longrightarrow> dirty (?t ! j))" if j: "j < 4" "valid (?t ! j)" for j
    proof -
      have vj: "valid (t ! j)" "j \<noteq> i" "?t ! j = t ! j" using v[OF j(1)] j(2) by auto
      obtain q v where q: "q \<in> R" "physicalPage (t ! j) = of_nat q" "owns s q (cur_space s) v" "virtualPage (t ! j) = of_nat v"
        "ip_dirty (ipt s ! q) \<longrightarrow> dirty (t ! j)" using ent[OF j(1) vj(1)] by blast
      have "q \<noteq> p" using uni[OF j(1) i(1) vj(1) i(2)] vj(2) q(2) i(3) by auto
      then show ?thesis using q vj(3) by auto
    qed
    moreover have "k = j" if "k < 4" "j < 4" "valid (?t ! k)" "valid (?t ! j)" "physicalPage (?t ! k) = physicalPage (?t ! j)" for k j
      using v[OF that(1)] v[OF that(2)] that uni[of k j] by auto
    moreover have "\<not> readOnly (?t ! j)" if "j < 4" "valid (?t ! j)" for j
      using v[OF that(1)] that assms(1) t by (simp add: tlb_wf_def)
    ultimately have 2: "tlb_wf (R - {p}) (s\<lparr>tlb := Some ?t\<rparr>)"
      using assms(1) len by (simp add: tlb_wf_def owns_def)
    have "tlb_dirty (s\<lparr>tlb := Some ?t\<rparr>) q = tlb_dirty s q" if q: "q \<in> R - {p}" for q
    proof -
      have ne: "(of_nat q :: u32) \<noteq> of_nat p" using q R assms(3) of_nat_frame by auto
      have "valid (?t ! j) \<and> physicalPage (?t ! j) = of_nat q \<and> dirty (?t ! j) \<longleftrightarrow>
        valid (t ! j) \<and> physicalPage (t ! j) = of_nat q \<and> dirty (t ! j)" if "j < 4" for j
      proof (cases "i = j")
        case True
        then show ?thesis using i(3) ne len that by simp
      qed simp
      then show ?thesis using tlb_dirty_conv[OF t len, of q] tlb_dirty_conv[of "s\<lparr>tlb := Some ?t\<rparr>" ?t q] len by auto
    qed
    then show ?thesis using 1 2 by blast
  qed
qed

text \<open>Writing back: a dirty frame goes to the slot of its page, a new one if it has none.\<close>

definition space_left :: "'a vm_scheme \<Rightarrow> bool" where
  "space_left s \<longleftrightarrow> card (marked (swap_map s)) < MAX_SWAP_PAGES"

lemma backing_cong:
  "page_tables s' b ! w = page_tables s b ! w \<Longrightarrow> files s' = files s \<Longrightarrow>
   (pt_location (page_tables s b ! w) = IN_SWAP_FILE \<Longrightarrow>
      swap_slot s' (nat (pt_swapPageIndex (page_tables s b ! w))) = swap_slot s (nat (pt_swapPageIndex (page_tables s b ! w)))) \<Longrightarrow>
   backing s' b w = backing s b w"
  by (cases "pt_location (page_tables s b ! w)") (simp_all add: backing_def Let_def split: option.split)

lemma swap_write:
  assumes "i < MAX_SWAP_PAGES" and "length bs = PageSize"
    and "swap_file s' = unix_write (i * PageSize) bs (swap_file s)"
  shows "swap_slot s' i = bs" and "slot_stored s' i"
    and "slot_stored s j \<Longrightarrow> slot_stored s' j"
    and "slot_stored s j \<Longrightarrow> j \<noteq> i \<Longrightarrow> swap_slot s' j = swap_slot s j"
proof -
  show "swap_slot s' i = bs" using assms(3) unix_write_slot(1)[OF assms(2), of i] by (simp add: swap_slot_def)
  show "slot_stored s' i" using assms by (simp add: slot_stored_def length_unix_write)
  show "slot_stored s j \<Longrightarrow> slot_stored s' j" using assms by (auto simp: slot_stored_def length_unix_write)
  show "slot_stored s j \<Longrightarrow> j \<noteq> i \<Longrightarrow> swap_slot s' j = swap_slot s j"
    using assms(3) unix_write_slot(2)[OF assms(2), of j i] by (simp add: swap_slot_def slot_stored_def)
qed

lemma update_pte_wf:
  fixes s s' :: "'a vm_scheme"
  assumes tw: "tables_wf s" and v: "v < length (page_tables s a)"
    and pt: "page_tables s' = (page_tables s)(a := (page_tables s a)[v := e])" and f: "files s' = files s"
    and sw: "swap_wf s'" and mk: "marked (swap_map s) \<subseteq> marked (swap_map s')"
    and st: "\<And>j. slot_stored s j \<Longrightarrow> slot_stored s' j"
    and e: "pte_wf s' e"
    and fresh: "\<And>b w. w < length (page_tables s b) \<Longrightarrow> pt_swapPageIndex (page_tables s b ! w) = pt_swapPageIndex e
      \<Longrightarrow> pt_swapPageIndex e \<ge> 0 \<Longrightarrow> b = a \<and> w = v"
  shows "tables_wf s'"
proof -
  have len: "length (page_tables s' b) = length (page_tables s b)" for b using pt by simp
  have at: "page_tables s' b ! w = (if b = a \<and> w = v then e else page_tables s b ! w)"
    if "w < length (page_tables s b)" for b w using that pt v by auto
  have mono: "pte_wf s' x" if "pte_wf s x" for x
    using that f mk st by (auto simp: pte_wf_def split: Location.splits option.splits)
  have "pte_wf s' (page_tables s' b ! w)" if "w < length (page_tables s b)" for b w
    using that e mono tw by (simp add: at tables_wf_def)
  moreover have "b = c \<and> w = x"
    if h: "w < length (page_tables s b)" "x < length (page_tables s c)"
      "pt_swapPageIndex (page_tables s' b ! w) \<ge> 0"
      "pt_swapPageIndex (page_tables s' b ! w) = pt_swapPageIndex (page_tables s' c ! x)" for b w c x
  proof -
    have old: "page_tables s' d ! y = page_tables s d ! y" if "y < length (page_tables s d)" "\<not> (d = a \<and> y = v)" for d y
      using at[OF that(1)] that(2) by (rule trans[OF _ if_not_P])
    have new: "page_tables s' a ! v = e" using at[OF v] by simp
    consider "b = a \<and> w = v" "c = a \<and> x = v" | "b = a \<and> w = v" "\<not> (c = a \<and> x = v)"
      | "\<not> (b = a \<and> w = v)" "c = a \<and> x = v" | "\<not> (b = a \<and> w = v)" "\<not> (c = a \<and> x = v)" by blast
    then show ?thesis
    proof cases
      case 2
      then show ?thesis using fresh[OF h(2)] h(3,4) old[OF h(2)] new by simp
    next
      case 3
      then show ?thesis using fresh[OF h(1)] h(3,4) old[OF h(1)] new by simp
    next
      case 4
      then have "pt_swapPageIndex (page_tables s b ! w) \<ge> 0"
        "pt_swapPageIndex (page_tables s b ! w) = pt_swapPageIndex (page_tables s c ! x)"
        using h(3,4) old[OF h(1)] old[OF h(2)] by simp_all
      then show ?thesis using tw h(1,2) unfolding tables_wf_def by blast
    qed simp
  qed
  ultimately show ?thesis using tw sw by (simp add: tables_wf_def len)
qed

lemma slot_for:
  assumes tw: "tables_wf s" and v: "v < length (page_tables s a)" and sp: "space_left s"
  obtains i m where
    "(if pt_swapPageIndex (page_tables s a ! v) < 0 then GetSwapPageIndex s
      else Inr (pt_swapPageIndex (page_tables s a ! v), s)) = Inr (int i, s\<lparr>swap_map := m\<rparr>)"
    "i < MAX_SWAP_PAGES" "i \<in> marked m" "marked (swap_map s) \<subseteq> marked m" "bitmap_wf m" "numBits m = MAX_SWAP_PAGES"
    "card (marked m) \<le> Suc (card (marked (swap_map s)))"
    "\<And>b w. w < length (page_tables s b) \<Longrightarrow> pt_swapPageIndex (page_tables s b ! w) = int i \<Longrightarrow> b = a \<and> w = v"
proof (cases "pt_swapPageIndex (page_tables s a ! v) < 0")
  case True
  have w: "swap_wf s" using tw by (simp add: tables_wf_def)
  obtain i m where g: "GetSwapPageIndex s = Inr (int i, s\<lparr>swap_map := m\<rparr>)" "i < MAX_SWAP_PAGES"
    "i \<notin> marked (swap_map s)" "bitmap_wf m" "numBits m = MAX_SWAP_PAGES" "marked m = insert i (marked (swap_map s))"
    using GetSwapPageIndex_cases(2)[OF w] sp by (auto simp: space_left_def)
  have "pt_swapPageIndex (page_tables s b ! w) \<noteq> int i" if "w < length (page_tables s b)" for b w
  proof
    assume eq: "pt_swapPageIndex (page_tables s b ! w) = int i"
    have "pte_wf s (page_tables s b ! w)" using tw that by (simp add: tables_wf_def)
    then show False using eq g(3) by (simp add: pte_wf_def)
  qed
  then show ?thesis using that[of i m] g True by auto
next
  case False
  then obtain i where i: "pt_swapPageIndex (page_tables s a ! v) = int i" by (metis linorder_not_less nonneg_int_cases)
  have w: "swap_wf s" using tw by (simp add: tables_wf_def)
  have m: "i \<in> marked (swap_map s)" using tw v i unfolding tables_wf_def pte_wf_def by (metis nat_int of_nat_0_le_iff)
  have "b = a \<and> x = v" if "x < length (page_tables s b)" "pt_swapPageIndex (page_tables s b ! x) = int i" for b x
    using tw v i that unfolding tables_wf_def by (metis of_nat_0_le_iff)
  then show ?thesis using that[of i "swap_map s"] i m w False marked_less[OF m] by (simp add: swap_wf_def)
qed

lemma write_back_ok:
  fixes s :: "'a vm_scheme"
  assumes tw: "tables_wf s" and iw: "ipt_wf R s" and p: "p \<in> R" and o: "owns s p a v" and sp: "space_left s"
  obtains pts m f where
    "write_back (int p) s = Inr (s\<lparr>page_tables := pts, swap_map := m, swap_file := f\<rparr>)"
    "tables_wf (s\<lparr>page_tables := pts, swap_map := m, swap_file := f\<rparr>)"
    "card (marked m) \<le> Suc (card (marked (swap_map s)))"
    "\<And>b. length (pts b) = length (page_tables s b)"
    "\<And>b w. w < length (page_tables s b) \<Longrightarrow> backing (s\<lparr>page_tables := pts, swap_map := m, swap_file := f\<rparr>) b w
       = (if b = a \<and> w = v \<and> ip_dirty (ipt s ! p) then frame s p else backing s b w)"
proof (cases "ip_dirty (ipt s ! p)")
  case False
  then have "write_back (int p) s = Inr (s\<lparr>page_tables := page_tables s, swap_map := swap_map s, swap_file := swap_file s\<rparr>)"
    by (simp add: write_back_def)
  then show ?thesis using that[where pts = "page_tables s" and m = "swap_map s" and f = "swap_file s"] tw False by simp
next
  case True
  have vlen: "v < length (page_tables s a)" and plen: "p < length (ipt s)"
    using iw p o owner_unique unfolding ipt_wf_def by blast+
  let ?e = "page_tables s a ! v"
  obtain i m where g:
    "(if pt_swapPageIndex ?e < 0 then GetSwapPageIndex s else Inr (pt_swapPageIndex ?e, s)) = Inr (int i, s\<lparr>swap_map := m\<rparr>)"
    "i < MAX_SWAP_PAGES" "i \<in> marked m" "marked (swap_map s) \<subseteq> marked m" "bitmap_wf m" "numBits m = MAX_SWAP_PAGES"
    and cd: "card (marked m) \<le> Suc (card (marked (swap_map s)))"
    and fr: "\<And>b w. w < length (page_tables s b) \<Longrightarrow> pt_swapPageIndex (page_tables s b ! w) = int i \<Longrightarrow> b = a \<and> w = v"
    by (rule slot_for[OF tw vlen sp]) (rule that, assumption+)
  let ?f = "unix_write (i * PageSize) (frame s p) (swap_file s)"
  let ?e' = "?e\<lparr>pt_swapPageIndex := int i, pt_location := IN_SWAP_FILE\<rparr>"
  let ?pts = "(page_tables s)(a := (page_tables s a)[v := ?e'])"
  let ?s' = "s\<lparr>page_tables := ?pts, swap_map := m, swap_file := ?f\<rparr>"
  let ?s2 = "set_pte a (int v) (?e\<lparr>pt_swapPageIndex := int i\<rparr>) (s\<lparr>swap_map := m\<rparr>)"
  have "Store (int i) (int p) ?s2 = Inr (int PageSize, ?s2\<lparr>swap_file := unix_write (i * PageSize) (frame ?s2 p) (swap_file ?s2)\<rparr>)"
    using g plen by (intro Store_ok) (simp_all add: swap_wf_def set_pte_def)
  moreover have "frame ?s2 p = frame s p" by (simp add: set_pte_def frame_def)
  ultimately have wb: "write_back (int p) s = Inr ?s'"
    using True o g(1) vlen by (simp add: write_back_def owns_def pte_at_def Let_def set_pte_def)
  note sw = swap_write[of i "frame s p" ?s' s, OF g(2) length_frame, simplified]
  have tw': "tables_wf ?s'"
  proof (rule update_pte_wf[OF tw vlen])
    show "page_tables ?s' = (page_tables s)(a := (page_tables s a)[v := ?e'])" by simp
    show "swap_wf ?s'" using g by (simp add: swap_wf_def)
    show "marked (swap_map s) \<subseteq> marked (swap_map ?s')" using g by simp
    show "slot_stored ?s' j" if "slot_stored s j" for j using sw(3) that by simp
    show "pte_wf ?s' ?e'" using g sw(2) by (simp add: pte_wf_def)
  qed (use fr in simp_all)
  have "backing ?s' b w = (if b = a \<and> w = v \<and> ip_dirty (ipt s ! p) then frame s p else backing s b w)"
    if w: "w < length (page_tables s b)" for b w
  proof (cases "b = a \<and> w = v")
    case T: True
    then show ?thesis using True sw(1) vlen by (simp add: backing_def)
  next
    case False
    have "pte_wf s (page_tables s b ! w)" using tw w by (simp add: tables_wf_def)
    then have "pt_location (page_tables s b ! w) = IN_SWAP_FILE \<Longrightarrow>
      slot_stored s (nat (pt_swapPageIndex (page_tables s b ! w))) \<and> pt_swapPageIndex (page_tables s b ! w) \<ge> 0"
      by (simp add: pte_wf_def)
    moreover have "pt_swapPageIndex (page_tables s b ! w) \<noteq> int i" using fr[OF w] False by blast
    ultimately have "pt_location (page_tables s b ! w) = IN_SWAP_FILE \<Longrightarrow>
      swap_slot ?s' (nat (pt_swapPageIndex (page_tables s b ! w))) = swap_slot s (nat (pt_swapPageIndex (page_tables s b ! w)))"
      using sw(4) by (metis int_nat_eq)
    then have "backing ?s' b w = backing s b w" using False by (intro backing_cong) auto
    then show ?thesis using False by auto
  qed
  then show ?thesis using that[OF wb tw' cd] by simp
qed

text \<open>What the parts of the invariant depend on.\<close>

lemma core_ok_frames [simp]:
  "core_ok R (s\<lparr>ppnQueue := q\<rparr>) = core_ok R s" "core_ok R (s\<lparr>ppnInUse := m\<rparr>) = core_ok R s"
  "page R (s\<lparr>ppnQueue := q\<rparr>) a v = page R s a v" "page R (s\<lparr>ppnInUse := m\<rparr>) a v = page R s a v"
  by (simp_all add: core_ok_def ipt_wf_def tlb_wf_def clean_wf_def owns_def tlb_dirty_def page_def cong: option.case_cong)

text \<open>The pages after an eviction: only the page of a frame that the TLB alone knows to be dirty changes.\<close>

definition lost :: "'a vm_scheme \<Rightarrow> nat \<Rightarrow> nat \<Rightarrow> nat \<Rightarrow> bool" where
  "lost s p a v \<longleftrightarrow> owns s p a v \<and> \<not> ip_dirty (ipt s ! p) \<and> tlb_dirty s p"

lemma evict_core:
  fixes s :: "'a vm_scheme"
  assumes ok: "core_ok R s" and p: "p \<in> R" and sp: "space_left s"
  obtains t pts m f s' where
    "s' = s\<lparr>tlb := t, page_tables := pts, swap_map := m, swap_file := f\<rparr>"
    "bindE (inval_tlb (int p) s) (write_back (int p)) = Inr s'"
    "core_ok (R - {p}) s'" "tlb_valid s' \<subseteq> tlb_valid s"
    "card (marked m) \<le> Suc (card (marked (swap_map s)))" "\<And>b. length (pts b) = length (page_tables s b)"
    "\<And>b w. w < length (page_tables s b) \<Longrightarrow>
       page (R - {p}) s' b w = (if lost s p b w then backing s b w else page R s b w)"
proof -
  have parts: "tables_wf s" "ipt_wf R s" "tlb_wf R s" "clean_wf R s" using ok by (simp_all add: core_ok_def)
  obtain a v where o: "owns s p a v" "v < length (page_tables s a)" using parts(2) p by (auto simp: ipt_wf_def)
  obtain t' where t': "inval_tlb (int p) s = Inr (s\<lparr>tlb := Some t'\<rparr>)" "tlb_wf (R - {p}) (s\<lparr>tlb := Some t'\<rparr>)"
    "\<forall>q \<in> R - {p}. tlb_dirty (s\<lparr>tlb := Some t'\<rparr>) q = tlb_dirty s q"
    using inval_tlb_ok[OF parts(3,2) p] by blast
  let ?s1 = "s\<lparr>tlb := Some t'\<rparr>"
  have 1: "tables_wf ?s1" "ipt_wf R ?s1" "owns ?s1 p a v" "space_left ?s1"
    using parts o sp by (simp_all add: ipt_wf_def owns_def space_left_def)
  obtain pts m f where w: "write_back (int p) ?s1 = Inr (?s1\<lparr>page_tables := pts, swap_map := m, swap_file := f\<rparr>)"
    "tables_wf (?s1\<lparr>page_tables := pts, swap_map := m, swap_file := f\<rparr>)"
    "card (marked m) \<le> Suc (card (marked (swap_map ?s1)))"
    "\<And>b. length (pts b) = length (page_tables ?s1 b)"
    "\<And>b w. w < length (page_tables ?s1 b) \<Longrightarrow> backing (?s1\<lparr>page_tables := pts, swap_map := m, swap_file := f\<rparr>) b w
       = (if b = a \<and> w = v \<and> ip_dirty (ipt ?s1 ! p) then frame ?s1 p else backing ?s1 b w)"
    by (rule write_back_ok[OF 1(1,2) p 1(3,4)]) (rule that, assumption+)
  define s' where s': "s' = s\<lparr>tlb := Some t', page_tables := pts, swap_map := m, swap_file := f\<rparr>"
  have len: "length (pts b) = length (page_tables s b)" for b using w(4) by simp
  have sg: "s' = s\<lparr>tlb := Some t'\<rparr>\<lparr>page_tables := pts, swap_map := m, swap_file := f\<rparr>" by (simp add: s')
  have bk: "backing s' b x = (if b = a \<and> x = v \<and> ip_dirty (ipt s ! p) then frame s p else backing s b x)"
    if "x < length (page_tables s b)" for b x
    using w(5)[of x b] that unfolding sg[symmetric] by simp
  have own: "owns s' q b x = owns s q b x" for q b x by (simp add: s' owns_def)
  have other: "\<not> (b = a \<and> x = v)" if "q \<in> R - {p}" "owns s q b x" for q b x
    using parts(2) that p o(1) by (auto simp: ipt_wf_def)
  have iw: "ipt_wf (R - {p}) s'" using parts(2) by (auto simp: ipt_wf_def own s' len owns_def)
  have "tlb_wf (R - {p}) s'" using t'(2) by (simp add: tlb_wf_def owns_def s')
  moreover have "clean_wf (R - {p}) s'" unfolding clean_wf_def
  proof (intro ballI allI impI)
    fix q b x assume q: "q \<in> R - {p}" and qo: "owns s' q b x" and d: "\<not> ip_dirty (ipt s' ! q)" "\<not> tlb_dirty s' q"
    have x: "x < length (page_tables s b)" using parts(2) q qo own owner_unique unfolding ipt_wf_def by (metis DiffD1)
    have "tlb_dirty s' q = tlb_dirty (s\<lparr>tlb := Some t'\<rparr>) q" by (simp add: s' tlb_dirty_def)
    then have "\<not> tlb_dirty s q" using d(2) t'(3) q by simp
    then have "frame s q = backing s b x" using parts(4) q qo d(1) own by (auto simp: clean_wf_def s')
    moreover have "\<not> (b = a \<and> x = v)" using other[OF q] qo own by blast
    moreover have "frame s' q = frame s q" by (simp add: s' frame_def)
    ultimately show "frame s' q = backing s' b x" using bk[OF x] by auto
  qed
  moreover have "tables_wf s'" using w(2) by (simp add: s')
  ultimately have core: "core_ok (R - {p}) s'" using iw by (simp add: core_ok_def)
  have pg: "page (R - {p}) s' b x = (if lost s p b x then backing s b x else page R s b x)"
    if x: "x < length (page_tables s b)" for b x
  proof (cases "b = a \<and> x = v")
    case True
    have "page (R - {p}) s' b x = backing s' a v" using True other own by (intro page_absent[THEN trans]) auto
    moreover have "page R s b x = frame s p" using True page_resident[OF parts(2) p o(1)] by simp
    moreover have "\<not> lost s p a v \<Longrightarrow> \<not> ip_dirty (ipt s ! p) \<Longrightarrow> frame s p = backing s a v"
      using parts(4) p o(1) by (simp add: clean_wf_def lost_def)
    ultimately show ?thesis using True bk[OF x] by (auto simp: lost_def)
  next
    case False
    then have nl: "\<not> lost s p b x" using owner_unique[OF o(1), of b x] by (auto simp: lost_def)
    show ?thesis
    using parts(2) proof (cases rule: page_cases[of R s b x])
      case (resident q)
      then have "q \<in> R - {p}" using False o(1) owner_unique by (metis Diff_iff singletonD)
      then show ?thesis using resident page_resident[OF iw, of q b x] own nl by (simp add: s' frame_def)
    next
      case absent
      then have "page (R - {p}) s' b x = backing s' b x" using own by (intro page_absent) auto
      then show ?thesis using absent bk[OF x] False nl by auto
    qed
  qed
  have "bindE (inval_tlb (int p) s) (write_back (int p)) = Inr s'" using t'(1) w(1) by (simp add: s')
  moreover have "tlb_valid s' \<subseteq> tlb_valid s" using inval_tlb_valid[OF t'(1)] by (simp add: s' tlb_valid_def)
  moreover have "card (marked m) \<le> Suc (card (marked (swap_map s)))" using w(3) by simp
  ultimately show ?thesis using that[OF s' _ core _ _ len pg] by simp
qed

section \<open>Loading a page\<close>

lemma pte_wf_at: "tables_wf s \<Longrightarrow> v < length (page_tables s a) \<Longrightarrow> pte_wf s (page_tables s a ! v)"
  by (simp add: tables_wf_def)

lemma length_backing:
  assumes "tables_wf s" and "v < length (page_tables s a)"
  shows "length (backing s a v) = PageSize"
  using pte_wf_at[OF assms]
  by (cases "pt_location (page_tables s a ! v)")
    (auto simp: backing_def pte_wf_def unix_read_partial_def length_swap_slot split: option.splits)

lemma load_frame_ok:
  assumes tw: "tables_wf s" and v: "v < length (page_tables s (cur_space s))" and p: "p < length (ipt s)"
  shows "load_frame (int v) (int p) s = Inr (put_bytes (p * PageSize) (backing s (cur_space s) v) s)"
proof -
  let ?e = "page_tables s (cur_space s) ! v"
  have e: "pte_wf s ?e" using pte_wf_at[OF tw v] .
  have at: "pte_at (cur_space s) (int v) s = Inr ?e" using v by (simp add: pte_at_def)
  show ?thesis
  proof (cases "pt_location ?e")
    case IN_EXECUTABLE
    then show ?thesis using e by (auto simp: load_frame_def at backing_def pte_wf_def seek_ok_def split: option.splits)
  next
    case IN_SWAP_FILE
    then obtain i where i: "pt_swapPageIndex ?e = int i" "slot_stored s i"
      using e by (auto simp: pte_wf_def dest: nonneg_int_cases)
    have w: "swap_wf s" using tw by (simp add: tables_wf_def)
    have "Load (int i) (int p) s = Inr (int (length (swap_slot s i)), put_bytes (p * PageSize) (swap_slot s i) s)"
      using Load_ok[OF w _ p] i(2) by (simp add: slot_stored_def)
    then show ?thesis using IN_SWAP_FILE i by (simp add: load_frame_def at backing_def)
  next
    case NEITHER
    then show ?thesis by (simp add: load_frame_def at backing_def)
  qed
qed

lemma fill_core:
  fixes s :: "'a vm_scheme"
  assumes ok: "core_ok R s" and p: "p \<notin> R" "p < length (ipt s)" and v: "v < length (page_tables s (cur_space s))"
    and ab: "\<forall>q\<in>R. \<not> owns s q (cur_space s) v"
  defines "s' \<equiv> fill_ipt (int v) (int p) (put_bytes (p * PageSize) (backing s (cur_space s) v) s)"
  shows "core_ok (insert p R) s'" and "owns s' p (cur_space s) v"
    and "\<And>b w. w < length (page_tables s b) \<Longrightarrow> page (insert p R) s' b w = page R s b w"
proof -
  let ?bs = "backing s (cur_space s) v"
  let ?e = "\<lparr>ip_virtualPage = int v, ip_physicalPage = int p, ip_valid = True, ip_readOnly = False,
    ip_use = False, ip_dirty = False, ip_process = Some (cur_space s)\<rparr>"
  have parts: "tables_wf s" "ipt_wf R s" "tlb_wf R s" "clean_wf R s" using ok by (simp_all add: core_ok_def)
  have lb: "length ?bs = PageSize" using length_backing[OF parts(1) v] .
  obtain mm where mm: "put_bytes (p * PageSize) ?bs s = s\<lparr>mainMemory := mm\<rparr>" by (simp add: put_bytes_def)
  have s': "s' = s\<lparr>mainMemory := mm, ipt := (ipt s)[p := ?e]\<rparr>" by (simp add: s'_def mm fill_ipt_def)
  have fr: "frame s' q = (if q = p then ?bs else frame s q)" for q
    using frame_put_bytes[OF lb, of p s q] by (simp add: s' mm)
  have own: "owns s' q b w \<longleftrightarrow> (if q = p then b = cur_space s \<and> w = v else owns s q b w)" for q b w
    using p(2) by (auto simp: s' owns_def)
  have at: "ipt s' ! q = (if q = p then ?e else ipt s ! q)" for q using p(2) by (simp add: s')
  show o: "owns s' p (cur_space s) v" by (simp add: own)
  have bk: "backing s' = backing s" "page_tables s' = page_tables s" by (simp_all add: s')
  have iw: "ipt_wf (insert p R) s'"
    unfolding ipt_wf_def
  proof (intro conjI ballI allI impI)
    show "length (ipt s') \<le> NumPhysPages" using parts(2) by (simp add: ipt_wf_def s')
    fix q assume q: "q \<in> insert p R"
    show "q < length (ipt s')" using q parts(2) p(2) by (auto simp: ipt_wf_def s')
    show "ip_valid (ipt s' ! q)" "ip_physicalPage (ipt s' ! q) = int q" "\<not> ip_readOnly (ipt s' ! q)"
      using q parts(2) by (auto simp: at ipt_wf_def)
    show "\<exists>a w. owns s' q a w \<and> w < length (page_tables s' a)"
      using q parts(2) v by (cases "q = p") (auto simp: own bk ipt_wf_def)
  next
    fix q r a w assume "q \<in> insert p R" "r \<in> insert p R" "owns s' q a w" "owns s' r a w"
    then show "q = r" using parts(2) ab unfolding ipt_wf_def own by (metis insertE)
  qed
  have small: "q < NumPhysPages" if "q \<in> insert p R" for q using iw that by (force simp: ipt_wf_def)
  have tw: "tlb_wf (insert p R) s'"
  proof -
    obtain t where t: "tlb s = Some t" using parts(3) by (auto simp: tlb_wf_def split: option.splits)
    have "\<exists>q\<in>insert p R. \<exists>w. physicalPage (t ! i) = of_nat q \<and> owns s' q (cur_space s) w \<and> virtualPage (t ! i) = of_nat w
      \<and> (ip_dirty (ipt s' ! q) \<longrightarrow> dirty (t ! i))" if i: "i < TLBSize" "valid (t ! i)" for i
    proof -
      obtain q w where q: "q \<in> R" "physicalPage (t ! i) = of_nat q" "owns s q (cur_space s) w" "virtualPage (t ! i) = of_nat w"
        "ip_dirty (ipt s ! q) \<longrightarrow> dirty (t ! i)" using parts(3) t i by (auto simp: tlb_wf_def)
      then have "q \<noteq> p" using p by auto
      then show ?thesis using q by (intro bexI[of _ q] exI[of _ w]) (auto simp: own at)
    qed
    then show ?thesis using parts(3) t by (simp add: tlb_wf_def s')
  qed
  have td: "tlb_dirty s' q = tlb_dirty s q" for q by (simp add: tlb_dirty_def s')
  have "clean_wf (insert p R) s'"
    unfolding clean_wf_def
  proof (intro ballI allI impI)
    fix q a w assume q: "q \<in> insert p R" "owns s' q a w" "\<not> ip_dirty (ipt s' ! q)" "\<not> tlb_dirty s' q"
    show "frame s' q = backing s' a w"
    proof (cases "q = p")
      case True
      then show ?thesis using q(2) by (simp add: fr bk own)
    next
      case False
      then show ?thesis using q parts(4) by (simp add: clean_wf_def td own at fr bk)
    qed
  qed
  moreover have "tables_wf s'" using parts(1) by (simp add: s')
  ultimately show "core_ok (insert p R) s'" using iw tw by (simp add: core_ok_def)
  show "page (insert p R) s' b w = page R s b w" if "w < length (page_tables s b)" for b w
  proof (cases "b = cur_space s \<and> w = v")
    case True
    then show ?thesis using page_resident[OF iw _ o] page_absent[of R s b w] ab by (simp add: fr)
  next
    case False
    show ?thesis
    using parts(2) proof (cases rule: page_cases[of R s b w])
      case (resident q)
      then have "q \<noteq> p" using p by auto
      then show ?thesis using resident page_resident[OF iw, of q b w] by (simp add: own fr)
    next
      case absent
      then have "page (insert p R) s' b w = backing s' b w" using False by (intro page_absent) (auto simp: own)
      then show ?thesis using absent by (simp add: bk)
    qed
  qed
qed

section \<open>The TLB\<close>

text \<open>Inverted page tables that differ in dirty bits only.\<close>

definition same_frames :: "iptentry list \<Rightarrow> iptentry list \<Rightarrow> bool" where
  "same_frames xs ys \<longleftrightarrow> length ys = length xs
   \<and> (\<forall>q. ip_process (ys ! q) = ip_process (xs ! q) \<and> ip_virtualPage (ys ! q) = ip_virtualPage (xs ! q)
        \<and> ip_valid (ys ! q) = ip_valid (xs ! q) \<and> ip_physicalPage (ys ! q) = ip_physicalPage (xs ! q)
        \<and> ip_readOnly (ys ! q) = ip_readOnly (xs ! q))"

lemma same_frames_refl [simp]: "same_frames xs xs"
  by (simp add: same_frames_def)

lemma same_frames_trans: "same_frames xs ys \<Longrightarrow> same_frames ys zs \<Longrightarrow> same_frames xs zs"
  by (simp add: same_frames_def)

lemma same_frames_dirty: "same_frames xs (xs[p := (xs ! p)\<lparr>ip_dirty := d\<rparr>])"
proof -
  have "xs[p := (xs ! p)\<lparr>ip_dirty := d\<rparr>] ! q = (if q = p \<and> p < length xs then (xs ! p)\<lparr>ip_dirty := d\<rparr> else xs ! q)" for q
    by (cases "p < length xs") (auto simp: list_update_beyond)
  then show ?thesis by (simp add: same_frames_def)
qed

lemma same_frames_owns: "same_frames (ipt s) (ipt s') \<Longrightarrow> owns s' = owns s"
  by (simp add: fun_eq_iff owns_def same_frames_def)

lemma same_frames_ipt_wf:
  "same_frames (ipt s) (ipt s') \<Longrightarrow> page_tables s' = page_tables s \<Longrightarrow> ipt_wf R s' = ipt_wf R s"
  by (simp add: ipt_wf_def same_frames_owns) (simp add: same_frames_def)

lemma same_frames_page:
  "same_frames (ipt s) (ipt s') \<Longrightarrow> backing s' = backing s \<Longrightarrow> (\<And>p. frame s' p = frame s p) \<Longrightarrow>
   page R s' = page R s"
  by (simp add: fun_eq_iff page_def same_frames_owns) (simp add: same_frames_def split: option.split)

text \<open>One entry of the TLB is written back to the inverted page table and dropped.\<close>

definition drop_entry :: "nat \<Rightarrow> 'a vm_scheme \<Rightarrow> 'a vm_scheme" where
  "drop_entry i s = s\<lparr>tlb := map_option (\<lambda>t. t[i := (t ! i)\<lparr>valid := False\<rparr>]) (tlb s)\<rparr>"

lemma save_entry:
  fixes s :: "'a vm_scheme"
  assumes ok: "core_ok R s" and i: "i < TLBSize"
  obtains xs where "propagate i s = Inr (s\<lparr>ipt := xs\<rparr>)" "same_frames (ipt s) xs"
    "core_ok R (drop_entry i (s\<lparr>ipt := xs\<rparr>))" "page R (drop_entry i (s\<lparr>ipt := xs\<rparr>)) = page R s"
    "no_hidden s \<Longrightarrow> no_hidden (drop_entry i (s\<lparr>ipt := xs\<rparr>))"
proof -
  have parts: "tables_wf s" "ipt_wf R s" "tlb_wf R s" "clean_wf R s" using ok by (simp_all add: core_ok_def)
  obtain t where t: "tlb s = Some t" and len: "length t = TLBSize" using parts(3) by (auto simp: tlb_wf_def split: option.splits)
  have small: "q < NumPhysPages" if "q \<in> R" for q using parts(2) that by (force simp: ipt_wf_def)
  note ent = tlb_wf_entry[OF parts(3) t]
  let ?t = "t[i := (t ! i)\<lparr>valid := False\<rparr>]"
  have vj: "valid (?t ! j) \<longleftrightarrow> valid (t ! j) \<and> j \<noteq> i" "valid (?t ! j) \<Longrightarrow> ?t ! j = t ! j" if "j < TLBSize" for j
    using that len by (cases "i = j"; simp)+
  note uni = tlb_wf_unique[OF parts(3) t]
  have main: "core_ok R (drop_entry i (s\<lparr>ipt := xs\<rparr>)) \<and> page R (drop_entry i (s\<lparr>ipt := xs\<rparr>)) = page R s
      \<and> (no_hidden s \<longrightarrow> no_hidden (drop_entry i (s\<lparr>ipt := xs\<rparr>)))"
    if xs: "same_frames (ipt s) xs"
      and keep: "\<And>q. q \<in> R \<Longrightarrow> \<not> (valid (t ! i) \<and> physicalPage (t ! i) = of_nat q) \<Longrightarrow> ip_dirty (xs ! q) = ip_dirty (ipt s ! q)"
      and new: "\<And>q. q \<in> R \<Longrightarrow> valid (t ! i) \<Longrightarrow> physicalPage (t ! i) = of_nat q \<Longrightarrow> ip_dirty (xs ! q) = dirty (t ! i)"
    for xs
  proof -
    define s' where "s' = drop_entry i (s\<lparr>ipt := xs\<rparr>)"
    have s': "s' = s\<lparr>tlb := Some ?t, ipt := xs\<rparr>" using t by (simp add: s'_def drop_entry_def)
    have o: "owns s' = owns s" using xs by (intro same_frames_owns) (simp add: s')
    have "\<exists>q\<in>R. \<exists>v. physicalPage (?t ! j) = of_nat q \<and> owns s q (cur_space s) v \<and> virtualPage (?t ! j) = of_nat v
      \<and> (ip_dirty (xs ! q) \<longrightarrow> dirty (?t ! j))" if j: "j < TLBSize" "valid (?t ! j)" for j
    proof -
      have ij: "valid (t ! j)" "j \<noteq> i" "?t ! j = t ! j" using vj[OF j(1)] j(2) by auto
      obtain q v where q: "q \<in> R" "physicalPage (t ! j) = of_nat q" "owns s q (cur_space s) v" "virtualPage (t ! j) = of_nat v"
        "ip_dirty (ipt s ! q) \<longrightarrow> dirty (t ! j)" using ent[OF j(1) ij(1)] by blast
      have "\<not> (valid (t ! i) \<and> physicalPage (t ! i) = of_nat q)" using uni[OF j(1) i ij(1)] ij(2) q(2) by auto
      then show ?thesis using q keep[OF q(1)] ij(3) by auto
    qed
    moreover have "k = j" if "k < TLBSize" "j < TLBSize" "valid (?t ! k)" "valid (?t ! j)" "physicalPage (?t ! k) = physicalPage (?t ! j)" for k j
      using vj[OF that(1)] vj[OF that(2)] that uni[of k j] by auto
    moreover have "\<not> readOnly (?t ! j)" if "j < TLBSize" "valid (?t ! j)" for j
      using vj[OF that(1)] that parts(3) t by (simp add: tlb_wf_def)
    ultimately have "tlb_wf R s'" using parts(3) len o by (simp add: tlb_wf_def s')
    moreover have "clean_wf R s'"
      unfolding clean_wf_def
    proof (intro ballI allI impI)
      fix q a w assume q: "q \<in> R" "owns s' q a w" "\<not> ip_dirty (ipt s' ! q)" "\<not> tlb_dirty s' q"
      have nt: "\<not> tlb_dirty s q"
      proof
        assume "tlb_dirty s q"
        then obtain j where j: "j < TLBSize" "valid (t ! j)" "physicalPage (t ! j) = of_nat q" "dirty (t ! j)"
          using tlb_dirty_conv[OF t len] by blast
        have "j = i"
        proof (rule ccontr)
          assume "j \<noteq> i"
          then have "?t ! j = t ! j" by simp
          then have "tlb_dirty s' q" using j tlb_dirty_conv[of s' ?t q] len by (simp only: s') (auto intro: exI[of _ j])
          then show False using q(4) by simp
        qed
        then show False using new[OF q(1)] j q(3) by (simp add: s')
      qed
      have "\<not> ip_dirty (ipt s ! q)"
      proof
        assume d: "ip_dirty (ipt s ! q)"
        then have v: "valid (t ! i)" "physicalPage (t ! i) = of_nat q" using keep[OF q(1)] q(3) by (auto simp: s')
        then obtain p where "p \<in> R" "physicalPage (t ! i) = of_nat p" "ip_dirty (ipt s ! p) \<longrightarrow> dirty (t ! i)" using ent[OF i] by blast
        then have "dirty (t ! i)" using d v(2) of_nat_frame[OF small small] q(1) by auto
        then show False using new[OF q(1) v] q(3) by (simp add: s')
      qed
      then have "frame s q = backing s a w" using parts(4) q(1,2) nt by (simp add: clean_wf_def o)
      then show "frame s' q = backing s' a w" by (simp add: s')
    qed
    moreover have "ipt_wf R s'" using parts(2) same_frames_ipt_wf[of s s' R] xs by (simp add: s')
    moreover have "page R s' = page R s" using xs by (intro same_frames_page) (simp_all add: s')
    moreover have "no_hidden s'" if h: "no_hidden s"
      unfolding no_hidden_def
    proof (intro allI impI)
      fix q assume q: "q < length (ipt s')" "tlb_dirty s' q"
      have ql: "q < length (ipt s)" using q(1) xs by (simp add: s' same_frames_def)
      then have qs: "q < NumPhysPages" using parts(2) by (simp add: ipt_wf_def)
      obtain j where j: "j < TLBSize" "valid (?t ! j)" "physicalPage (?t ! j) = of_nat q" "dirty (?t ! j)"
        using q(2) tlb_dirty_conv[of s' ?t q] len by (auto simp: s')
      have ij: "valid (t ! j)" "j \<noteq> i" "?t ! j = t ! j" using vj[OF j(1)] j(2) by auto
      have "tlb_dirty s q" using tlb_dirty_conv[OF t len, of q] j ij by auto
      then have d: "ip_dirty (ipt s ! q)" using h ql by (simp add: no_hidden_def)
      obtain r where r: "r \<in> R" "physicalPage (t ! j) = of_nat r" using ent[OF j(1) ij(1)] by blast
      then have "r = q" using of_nat_frame[OF small[OF r(1)] qs] j(3) ij(3) by simp
      then have "q \<in> R" using r(1) by simp
      moreover have "\<not> (valid (t ! i) \<and> physicalPage (t ! i) = of_nat q)" using uni[OF j(1) i ij(1)] ij(2,3) j(3) by auto
      ultimately show "ip_dirty (ipt s' ! q)" using keep d by (simp add: s')
    qed
    ultimately show ?thesis using parts(1) by (simp add: core_ok_def s'_def[symmetric]) (simp add: s')
  qed
  show ?thesis
  proof (cases "valid (t ! i)")
    case False
    then have "propagate i s = Inr (s\<lparr>ipt := ipt s\<rparr>)" using t len i by (simp add: propagate_def)
    then show ?thesis using that[of "ipt s"] main[of "ipt s"] False by simp
  next
    case True
    then obtain p where p: "p \<in> R" "physicalPage (t ! i) = of_nat p" using ent[OF i] by blast
    have pl: "p < length (ipt s)" using p parts(2) by (simp add: ipt_wf_def)
    have sp: "sint (of_nat p :: u32) = int p" using small[OF p(1)] by (intro sint_of_nat32) simp
    let ?xs = "(ipt s)[p := (ipt s ! p)\<lparr>ip_dirty := dirty (t ! i)\<rparr>]"
    have "propagate i s = Inr (s\<lparr>ipt := ?xs\<rparr>)" using t len i True p(2) sp pl by (simp add: propagate_def frame_ok_def)
    moreover have "ip_dirty (?xs ! q) = ip_dirty (ipt s ! q)" if "q \<in> R" "\<not> (valid (t ! i) \<and> physicalPage (t ! i) = of_nat q)" for q
      using that True p(2) by (cases "p = q") auto
    moreover have "ip_dirty (?xs ! q) = dirty (t ! i)" if "q \<in> R" "valid (t ! i)" "physicalPage (t ! i) = of_nat q" for q
      using that p of_nat_frame[OF small small, of p q] pl by simp
    ultimately show ?thesis using that[of ?xs] main[of ?xs] same_frames_dirty by blast
  qed
qed

text \<open>A free entry of the TLB is filled with a page that has none.\<close>

lemma set_entry:
  fixes s :: "'a vm_scheme"
  assumes ok: "core_ok R s" and t: "tlb s = Some t" and i: "i < TLBSize" "\<not> valid (t ! i)"
    and p: "p \<in> R" "owns s p (cur_space s) v" and miss: "\<forall>j<TLBSize. valid (t ! j) \<longrightarrow> virtualPage (t ! j) \<noteq> of_nat v"
    and c: "c < TLBSize"
  shows "core_ok R (s\<lparr>tlb := Some (t[i := tlb_entry (ipt s ! p)]), curTLB := c\<rparr>)"
    and "page R (s\<lparr>tlb := Some (t[i := tlb_entry (ipt s ! p)]), curTLB := c\<rparr>) = page R s"
    and "no_hidden s \<Longrightarrow> no_hidden (s\<lparr>tlb := Some (t[i := tlb_entry (ipt s ! p)]), curTLB := c\<rparr>)"
proof -
  let ?e = "tlb_entry (ipt s ! p)"
  define s' where s': "s' = s\<lparr>tlb := Some (t[i := ?e]), curTLB := c\<rparr>"
  have parts: "tables_wf s" "ipt_wf R s" "tlb_wf R s" "clean_wf R s" using ok by (simp_all add: core_ok_def)
  have len: "length t = TLBSize" using parts(3) t by (simp add: tlb_wf_def)
  have e: "physicalPage ?e = of_nat p" "virtualPage ?e = of_nat v" "dirty ?e = ip_dirty (ipt s ! p)" "\<not> readOnly ?e"
    using parts(2) p by (simp_all add: tlb_entry_def ipt_wf_def owns_def)
  have small: "q < NumPhysPages" if "q \<in> R" for q using parts(2) that by (force simp: ipt_wf_def)
  note ent = tlb_wf_entry[OF parts(3) t]
  have free: "physicalPage (t ! j) \<noteq> of_nat p" if j: "j < TLBSize" "valid (t ! j)" for j
  proof
    assume eq: "physicalPage (t ! j) = of_nat p"
    obtain q w where q: "q \<in> R" "physicalPage (t ! j) = of_nat q" "owns s q (cur_space s) w" "virtualPage (t ! j) = of_nat w"
      using ent[OF j] by blast
    then have "q = p" using eq of_nat_frame[OF small small] p(1) by auto
    then have "w = v" using q(3) p(2) owner_unique by blast
    then show False using miss j q(4) by blast
  qed
  have o: "owns s' = owns s" by (simp add: s' fun_eq_iff owns_def)
  have at: "t[i := ?e] ! j = (if j = i then ?e else t ! j)" for j using i(1) len by simp
  have "\<exists>q\<in>R. \<exists>v. physicalPage (t[i := ?e] ! j) = of_nat q \<and> owns s q (cur_space s) v \<and> virtualPage (t[i := ?e] ! j) = of_nat v
      \<and> (ip_dirty (ipt s ! q) \<longrightarrow> dirty (t[i := ?e] ! j))" if j: "j < TLBSize" "valid (t[i := ?e] ! j)" for j
  proof (cases "j = i")
    case True
    then show ?thesis using p e by (auto simp: at)
  next
    case False
    then show ?thesis using j ent[of j] by (simp add: at)
  qed
  moreover have "j = k" if "j < TLBSize" "k < TLBSize" "valid (t[i := ?e] ! j)" "valid (t[i := ?e] ! k)"
    "physicalPage (t[i := ?e] ! j) = physicalPage (t[i := ?e] ! k)" for j k
  proof (rule ccontr)
    assume ne: "j \<noteq> k"
    consider "j = i" | "k = i" | "j \<noteq> i" "k \<noteq> i" by blast
    then show False
    proof cases
      case 1
      then show False using that ne e free[of k] by (simp add: at)
    next
      case 2
      then show False using that ne e free[of j] by (simp add: at)
    next
      case 3
      then show False using that ne parts(3) t by (simp add: at tlb_wf_def)
    qed
  qed
  moreover have "\<not> readOnly (t[i := ?e] ! j)" if "j < TLBSize" "valid (t[i := ?e] ! j)" for j
    using that e(4) parts(3) t by (cases "j = i") (simp_all add: at tlb_wf_def)
  ultimately have "tlb_wf R s'" using parts(3) len c by (simp add: tlb_wf_def s' owns_def)
  moreover have "clean_wf R s'"
    unfolding clean_wf_def
  proof (intro ballI allI impI)
    fix q a w assume q: "q \<in> R" "owns s' q a w" "\<not> ip_dirty (ipt s' ! q)" "\<not> tlb_dirty s' q"
    have "\<not> tlb_dirty s q"
    proof
      assume "tlb_dirty s q"
      then obtain j where j: "j < TLBSize" "valid (t ! j)" "physicalPage (t ! j) = of_nat q" "dirty (t ! j)"
        using tlb_dirty_conv[OF t len] by blast
      then have "t[i := ?e] ! j = t ! j" using i(2) at by auto
      then have "tlb_dirty s' q" using j tlb_dirty_conv[of s' "t[i := ?e]" q] len by (simp only: s') (auto intro: exI[of _ j])
      then show False using q(4) by simp
    qed
    then show "frame s' q = backing s' a w" using q parts(4) by (simp add: clean_wf_def o) (simp add: s')
  qed
  moreover have "ipt_wf R s'" using parts(2) same_frames_ipt_wf[of s s' R] by (simp add: s')
  ultimately show "core_ok R (s\<lparr>tlb := Some (t[i := ?e]), curTLB := c\<rparr>)"
    using parts(1) by (simp add: core_ok_def s'[symmetric]) (simp add: s')
  have "page R s' = page R s" by (rule same_frames_page) (simp_all add: s')
  then show "page R (s\<lparr>tlb := Some (t[i := ?e]), curTLB := c\<rparr>) = page R s" by (simp add: s')
  show "no_hidden (s\<lparr>tlb := Some (t[i := ?e]), curTLB := c\<rparr>)" if h: "no_hidden s"
    unfolding no_hidden_def
  proof (intro allI impI)
    fix q assume q: "q < length (ipt (s\<lparr>tlb := Some (t[i := ?e]), curTLB := c\<rparr>))"
      "tlb_dirty (s\<lparr>tlb := Some (t[i := ?e]), curTLB := c\<rparr>) q"
    then obtain j where j: "j < TLBSize" "valid (t[i := ?e] ! j)" "physicalPage (t[i := ?e] ! j) = of_nat q" "dirty (t[i := ?e] ! j)"
      using tlb_dirty_conv[of "s\<lparr>tlb := Some (t[i := ?e]), curTLB := c\<rparr>" "t[i := ?e]" q] len by auto
    have qs: "q < NumPhysPages" using q(1) parts(2) by (simp add: ipt_wf_def)
    have "ip_dirty (ipt s ! q)"
    proof (cases "j = i")
      case True
      have "dirty ?e" "physicalPage ?e = of_nat q" using j(3,4) True by (simp_all add: at)
      moreover from this have "p = q" using e(1) of_nat_frame[OF small[OF p(1)] qs] by simp
      ultimately show ?thesis using e(3) by simp
    next
      case False
      then have "tlb_dirty s q" using j tlb_dirty_conv[OF t len, of q] by (auto simp: at)
      then show ?thesis using h q(1) by (simp add: no_hidden_def)
    qed
    then show "ip_dirty (ipt (s\<lparr>tlb := Some (t[i := ?e]), curTLB := c\<rparr>) ! q)" by simp
  qed
qed

lemma update_core:
  fixes s :: "'a vm_scheme"
  assumes ok: "core_ok R s" and p: "p \<in> R" "owns s p (cur_space s) v" and miss: "tlb_misses s v"
  obtains xs t c s' where "updateTLBFromIPT (int p) s = Inr s'"
    "s' = s\<lparr>ipt := xs, tlb := t, curTLB := c\<rparr>" "same_frames (ipt s) xs"
    "core_ok R s'" "page R s' = page R s" "tlb_maps s' v p" "no_hidden s \<Longrightarrow> no_hidden s'"
proof -
  have parts: "tlb_wf R s" "ipt_wf R s" using ok by (simp_all add: core_ok_def)
  obtain t where t: "tlb s = Some t" and len: "length t = TLBSize" and i: "curTLB s < TLBSize"
    using parts(1) by (auto simp: tlb_wf_def split: option.splits)
  let ?i = "curTLB s"
  obtain xs where xs: "propagate ?i s = Inr (s\<lparr>ipt := xs\<rparr>)" "same_frames (ipt s) xs"
    "core_ok R (drop_entry ?i (s\<lparr>ipt := xs\<rparr>))" "page R (drop_entry ?i (s\<lparr>ipt := xs\<rparr>)) = page R s"
    "no_hidden s \<Longrightarrow> no_hidden (drop_entry ?i (s\<lparr>ipt := xs\<rparr>))"
    by (rule save_entry[OF ok i]) (rule that, assumption+)
  let ?t = "t[?i := (t ! ?i)\<lparr>valid := False\<rparr>]"
  define s1 where s1: "s1 = drop_entry ?i (s\<lparr>ipt := xs\<rparr>)"
  have s1': "s1 = s\<lparr>ipt := xs, tlb := Some ?t\<rparr>" using t by (simp add: s1 drop_entry_def)
  have o: "owns s1 p (cur_space s1) v" using p(2) same_frames_owns[of s s1] xs(2) by (simp add: s1')
  have m1: "\<forall>j<TLBSize. valid (?t ! j) \<longrightarrow> virtualPage (?t ! j) \<noteq> of_nat v"
  proof (intro allI impI)
    fix j assume j: "j < TLBSize" "valid (?t ! j)"
    then have "j \<noteq> ?i" using len by auto
    then show "virtualPage (?t ! j) \<noteq> of_nat v" using j miss t len by (auto simp: tlb_misses_def tlb_valid_def)
  qed
  let ?e = "tlb_entry (xs ! p)" and ?c = "Suc ?i mod TLBSize"
  define s' where s': "s' = s\<lparr>ipt := xs, tlb := Some (t[?i := ?e]), curTLB := ?c\<rparr>"
  have core: "core_ok R s'" "page R s' = page R s1" "no_hidden s1 \<Longrightarrow> no_hidden s'"
    using set_entry[of R s1 ?t ?i p v ?c] xs(3) i p(1) o m1 len by (simp_all add: s1[symmetric]) (simp_all add: s1' s')
  have pl: "p < length xs" using parts(2) p(1) xs(2) by (simp add: ipt_wf_def same_frames_def)
  have up: "updateTLBFromIPT (int p) s = Inr s'"
    using xs(1) t pl by (simp add: updateTLBFromIPT_def frame_ok_def s')
  have e: "virtualPage ?e = of_nat v" "valid ?e" "physicalPage ?e = of_nat p" "\<not> ip_readOnly (xs ! p)"
    using p(1,2) parts(2) xs(2) by (simp_all add: tlb_entry_def same_frames_def owns_def ipt_wf_def)
  have "tlb_maps s' v p" using e i len by (auto simp: tlb_maps_def s' tlb_entry_def intro!: bexI[of _ ?e] set_update_memI)
  moreover have "page R s' = page R s" using core(2) xs(4) by (simp add: s1)
  moreover have "no_hidden s \<Longrightarrow> no_hidden s'" using core(3) xs(5) by (simp add: s1)
  ultimately show ?thesis using that[OF up s' xs(2) core(1)] by simp
qed

section \<open>A frame for a page\<close>

abbreviation vm_page :: "'a vm_scheme \<Rightarrow> nat \<Rightarrow> nat \<Rightarrow> u8 list" where
  "vm_page s \<equiv> page (marked (ppnInUse s)) s"

definition victim_frame :: "nat \<Rightarrow> 'a vm_scheme \<Rightarrow> nat" where
  "victim_frame rnd s = (if useRandom s then rnd mod length (ipt s) else nat (hd (ppnQueue s)))"

text \<open>The page whose writes a fault forgets: that of the victim, when the TLB alone knows them.\<close>

definition sacrificed :: "nat \<Rightarrow> 'a vm_scheme \<Rightarrow> nat \<Rightarrow> nat \<Rightarrow> bool" where
  "sacrificed rnd s a v \<longleftrightarrow>
     card (marked (ppnInUse s)) = numBits (ppnInUse s) \<and> lost s (victim_frame rnd s) a v"

definition queue_ok :: "'a vm_scheme \<Rightarrow> bool" where
  "queue_ok s \<longleftrightarrow> bitmap_wf (ppnInUse s) \<and> numBits (ppnInUse s) = length (ipt s)
   \<and> (\<not> useRandom s \<longrightarrow> distinct (ppnQueue s) \<and> set (ppnQueue s) = int ` marked (ppnInUse s))"

lemma frames_ok_eq:
  "frames_ok s \<longleftrightarrow> queue_ok s \<and> 0 < length (ipt s) \<and> (\<forall>p < length (ipt s). ip_valid (ipt s ! p) \<longrightarrow> p \<in> marked (ppnInUse s))"
  by (auto simp: frames_ok_def queue_ok_def)

lemma evictAPage_ok:
  fixes s :: "'a vm_scheme" and rnd :: nat
  assumes ok: "vm_ok s" and sp: "space_left s" and full: "marked (ppnInUse s) = {..<length (ipt s)}"
  defines "p \<equiv> victim_frame rnd s"
  obtains t pts m f s' where "evictAPage rnd s = Inr (int p, s')"
    "s' = s\<lparr>ppnQueue := (if useRandom s then ppnQueue s else tl (ppnQueue s)), tlb := t, page_tables := pts, swap_map := m, swap_file := f\<rparr>"
    "p < length (ipt s)" "\<not> useRandom s \<Longrightarrow> ppnQueue s = int p # tl (ppnQueue s)"
    "core_ok (marked (ppnInUse s) - {p}) s'" "tlb_valid s' \<subseteq> tlb_valid s"
    "card (marked m) \<le> Suc (card (marked (swap_map s)))" "\<And>b. length (pts b) = length (page_tables s b)"
    "\<And>b w. w < length (page_tables s b) \<Longrightarrow>
       page (marked (ppnInUse s) - {p}) s' b w = (if lost s p b w then backing s b w else vm_page s b w)"
proof -
  have n: "0 < length (ipt s)" using ok by (simp add: vm_ok_def frames_ok_def)
  define s1 where s1: "s1 = s\<lparr>ppnQueue := (if useRandom s then ppnQueue s else tl (ppnQueue s))\<rparr>"
  have "victim rnd s = Inr (int p, s1) \<and> p < length (ipt s) \<and> (\<not> useRandom s \<longrightarrow> ppnQueue s = int p # tl (ppnQueue s))"
  proof (cases "useRandom s")
    case True
    then show ?thesis using n by (simp add: victim_def p_def victim_frame_def s1)
  next
    case False
    then have q: "set (ppnQueue s) = int ` {..<length (ipt s)}" using ok full by (simp add: vm_ok_def frames_ok_def)
    then have ne: "ppnQueue s \<noteq> []" using n by fastforce
    then have "hd (ppnQueue s) \<in> int ` {..<length (ipt s)}" using q hd_in_set by blast
    then show ?thesis using False ne by (cases "ppnQueue s") (auto simp: victim_def p_def victim_frame_def s1)
  qed
  note v = this[THEN conjunct1] this[THEN conjunct2, THEN conjunct1] this[THEN conjunct2, THEN conjunct2, rule_format]
  have 1: "core_ok (marked (ppnInUse s)) s1" "space_left s1" using ok sp by (simp_all add: s1 vm_ok_def space_left_def)
  have pR: "p \<in> marked (ppnInUse s)" using v(2) full by simp
  obtain t pts m f s' where e: "s' = s1\<lparr>tlb := t, page_tables := pts, swap_map := m, swap_file := f\<rparr>"
    "bindE (inval_tlb (int p) s1) (write_back (int p)) = Inr s'" "core_ok (marked (ppnInUse s) - {p}) s'"
    "tlb_valid s' \<subseteq> tlb_valid s1" "card (marked m) \<le> Suc (card (marked (swap_map s1)))" "\<And>b. length (pts b) = length (page_tables s1 b)"
    "\<And>b w. w < length (page_tables s1 b) \<Longrightarrow>
       page (marked (ppnInUse s) - {p}) s' b w = (if lost s1 p b w then backing s1 b w else page (marked (ppnInUse s)) s1 b w)"
    by (rule evict_core[OF 1(1) pR 1(2)]) (rule that, assumption+)
  have "evictAPage rnd s = bindE (bindE (inval_tlb (int p) s1) (write_back (int p))) (\<lambda>s3. Inr (int p, s3))"
    using v(1,2) by (simp add: evictAPage_def frame_ok_def s1 bindE_assoc)
  then have ev: "evictAPage rnd s = Inr (int p, s')" using e(2) by simp
  have l: "lost s1 p b w = lost s p b w" for b w by (simp add: s1 lost_def owns_def tlb_dirty_def)
  show ?thesis
    by (rule that[OF ev e(1)[unfolded s1, simplified] v(2,3) e(3)])
      (use e(4,5,6,7) l in \<open>simp_all add: s1 tlb_valid_def\<close>)
qed

lemma get_frame_ok:
  fixes s :: "'a vm_scheme"
  assumes ok: "vm_ok s" and sp: "space_left s"
  obtains p s1 where "get_frame rnd s = Inr (int p, s1)" "p < length (ipt s)" "ipt s1 = ipt s" "cur_space s1 = cur_space s"
    "useRandom s1 = useRandom s" "queue_ok s1" "marked (ppnInUse s1) = insert p (marked (ppnInUse s))"
    "core_ok (marked (ppnInUse s1) - {p}) s1" "tlb_valid s1 \<subseteq> tlb_valid s"
    "card (marked (swap_map s1)) \<le> Suc (card (marked (swap_map s)))" "\<And>b. length (page_tables s1 b) = length (page_tables s b)"
    "\<And>b w. w < length (page_tables s b) \<Longrightarrow>
       page (marked (ppnInUse s1) - {p}) s1 b w = (if sacrificed rnd s b w then backing s b w else vm_page s b w)"
proof -
  have q: "queue_ok s" "bitmap_wf (ppnInUse s)" "numBits (ppnInUse s) = length (ipt s)"
    using ok by (simp_all add: vm_ok_def frames_ok_def queue_ok_def)
  show ?thesis
  proof (cases "card (marked (ppnInUse s)) < numBits (ppnInUse s)")
    case True
    obtain i m where f: "BitMap_Find (ppnInUse s) = Inr (int i, m)" "bitmap_wf m" "numBits m = numBits (ppnInUse s)"
      "i < numBits (ppnInUse s)" "i \<notin> marked (ppnInUse s)" "marked m = insert i (marked (ppnInUse s))"
      using bm.find_some[OF q(2) True] by blast
    define s1 where s1: "s1 = s\<lparr>ppnInUse := m, ppnQueue := (if useRandom s then ppnQueue s else ppnQueue s @ [int i])\<rparr>"
    have "get_frame rnd s = Inr (int i, s1)" using f(1) by (simp add: get_frame_def s1)
    moreover have "queue_ok s1" using q f by (auto simp: queue_ok_def s1)
    moreover have "marked (ppnInUse s1) - {i} = marked (ppnInUse s)" using f by (auto simp: s1)
    moreover have "core_ok (marked (ppnInUse s)) s1" using ok by (simp add: s1 vm_ok_def)
    moreover have "page (marked (ppnInUse s)) s1 b w = (if sacrificed rnd s b w then backing s b w else vm_page s b w)" for b w
      using True by (simp add: s1 sacrificed_def)
    ultimately show ?thesis using f q(3) by (intro that[of i s1]) (simp_all add: s1 tlb_valid_def)
  next
    case False
    have c: "card (marked (ppnInUse s)) = numBits (ppnInUse s)"
      using False card_mono[OF finite_lessThan marked_bounded[of "ppnInUse s"]] by simp
    then have full: "marked (ppnInUse s) = {..<length (ipt s)}" using marked_full_iff q(3) by metis
    let ?p = "victim_frame rnd s"
    obtain t pts m f s' where e: "evictAPage rnd s = Inr (int ?p, s')"
      "s' = s\<lparr>ppnQueue := (if useRandom s then ppnQueue s else tl (ppnQueue s)), tlb := t, page_tables := pts, swap_map := m, swap_file := f\<rparr>"
      "?p < length (ipt s)" "\<not> useRandom s \<Longrightarrow> ppnQueue s = int ?p # tl (ppnQueue s)"
      "core_ok (marked (ppnInUse s) - {?p}) s'" "tlb_valid s' \<subseteq> tlb_valid s"
      "card (marked m) \<le> Suc (card (marked (swap_map s)))" "\<And>b. length (pts b) = length (page_tables s b)"
      "\<And>b w. w < length (page_tables s b) \<Longrightarrow>
         page (marked (ppnInUse s) - {?p}) s' b w = (if lost s ?p b w then backing s b w else vm_page s b w)"
      by (rule evictAPage_ok[OF ok sp full, of rnd]) (rule that, assumption+)
    define s1 where s1: "s1 = (if useRandom s then s' else s'\<lparr>ppnQueue := ppnQueue s' @ [int ?p]\<rparr>)"
    have fields: "ipt s1 = ipt s" "cur_space s1 = cur_space s" "useRandom s1 = useRandom s" "ppnInUse s1 = ppnInUse s"
      "page_tables s1 = pts" "tlb s1 = t" by (simp_all add: s1 e(2))
    have g1: "get_frame rnd s = Inr (int ?p, s1)"
      using bm.find_none[OF q(2) c] e(1) by (simp add: get_frame_def s1 e(2))
    have q1: "queue_ok s1"
    proof (cases "useRandom s")
      case True
      then show ?thesis using q(1) fields by (simp add: queue_ok_def)
    next
      case F: False
      obtain qs where qs: "ppnQueue s = int ?p # qs" using e(4)[OF F] by blast
      then have "ppnQueue s1 = qs @ [int ?p]" using F by (simp add: s1 e(2))
      then have "set (ppnQueue s1) = set (ppnQueue s)" "distinct (ppnQueue s1) = distinct (ppnQueue s)"
        using qs by auto
      then show ?thesis using F q(1) fields by (simp add: queue_ok_def)
    qed
    have core: "core_ok (marked (ppnInUse s1) - {?p}) s1" unfolding fields(4) using e(5) by (simp add: s1)
    have pg: "page (marked (ppnInUse s1) - {?p}) s1 b w = (if sacrificed rnd s b w then backing s b w else vm_page s b w)"
      if "w < length (page_tables s b)" for b w
      unfolding fields(4) using e(9)[OF that] c by (simp add: s1 sacrificed_def)
    have tv: "tlb_valid s1 \<subseteq> tlb_valid s" using e(6) by (simp add: s1 e(2) tlb_valid_def)
    have cd: "card (marked (swap_map s1)) \<le> Suc (card (marked (swap_map s)))" using e(7) by (simp add: s1 e(2))
    have mk: "marked (ppnInUse s1) = insert ?p (marked (ppnInUse s))" unfolding fields(4) using full e(3) by auto
    have "length (page_tables s1 b) = length (page_tables s b)" for b unfolding fields(5) by (rule e(8))
    then show ?thesis by (rule that[OF g1 e(3) fields(1,2,3) q1 mk core tv cd _ pg])
  qed
qed

section \<open>The page fault\<close>

lemma findIPTIndex_cases:
  obtains (found) p where "findIPTIndex (int v) s = int p" "p < length (ipt s)" "ip_valid (ipt s ! p)" "owns s p (cur_space s) v"
    | (none) "findIPTIndex (int v) s = -1" "\<And>p. p < length (ipt s) \<Longrightarrow> ip_valid (ipt s ! p) \<Longrightarrow> \<not> owns s p (cur_space s) v"
proof (cases "List.find (\<lambda>i. ip_valid (ipt s ! i) \<and> ip_virtualPage (ipt s ! i) = int v
    \<and> ip_process (ipt s ! i) = Some (cur_space s)) [0..<length (ipt s)]")
  case None
  then have "findIPTIndex (int v) s = -1" by (simp add: findIPTIndex_def)
  then show ?thesis using None by (intro none) (auto simp: find_None_iff owns_def)
next
  case (Some p)
  then have "findIPTIndex (int v) s = int p" by (simp add: findIPTIndex_def)
  then show ?thesis using Some by (intro found[of p]) (auto simp: find_Some_iff owns_def)
qed

lemma tlb_dirty_resident:
  assumes "tlb_wf R s" and "ipt_wf R s" and "p < NumPhysPages" and "p \<notin> R"
  shows "\<not> tlb_dirty s p"
proof
  assume d: "tlb_dirty s p"
  obtain t where t: "tlb s = Some t" "length t = TLBSize" using assms(1) by (auto simp: tlb_wf_def split: option.splits)
  obtain j where j: "j < TLBSize" "valid (t ! j)" "physicalPage (t ! j) = of_nat p" using d tlb_dirty_conv[OF t] by blast
  obtain q where q: "q \<in> R" "physicalPage (t ! j) = of_nat q" using tlb_wf_entry[OF assms(1) t(1) j(1,2)] by blast
  have "q < NumPhysPages" using assms(2) q(1) by (force simp: ipt_wf_def)
  then have "q = p" using of_nat_frame[OF _ assms(3)] j(3) q(2) by metis
  then show False using assms(4) q(1) by simp
qed

lemma loadPageIntoIPT_ok:
  fixes s :: "'a vm_scheme"
  assumes ok: "vm_ok s" and sp: "space_left s" and v: "v < length (page_tables s (cur_space s))"
    and none: "\<And>p. p < length (ipt s) \<Longrightarrow> ip_valid (ipt s ! p) \<Longrightarrow> \<not> owns s p (cur_space s) v"
  obtains p s2 where "loadPageIntoIPT rnd (int v) s = Inr (int p, s2)" "vm_ok s2" "p \<in> marked (ppnInUse s2)"
    "owns s2 p (cur_space s2) v" "cur_space s2 = cur_space s" "tlb_misses s v \<Longrightarrow> tlb_misses s2 v" "no_hidden s \<Longrightarrow> no_hidden s2"
    "card (marked (swap_map s2)) \<le> Suc (card (marked (swap_map s)))" "\<And>b. length (page_tables s2 b) = length (page_tables s b)"
    "\<And>b w. w < length (page_tables s b) \<Longrightarrow> vm_page s2 b w = (if sacrificed rnd s b w then backing s b w else vm_page s b w)"
proof -
  obtain p s1 where g: "get_frame rnd s = Inr (int p, s1)" "p < length (ipt s)" "ipt s1 = ipt s" "cur_space s1 = cur_space s"
    "useRandom s1 = useRandom s" "queue_ok s1" "marked (ppnInUse s1) = insert p (marked (ppnInUse s))"
    "core_ok (marked (ppnInUse s1) - {p}) s1" "tlb_valid s1 \<subseteq> tlb_valid s"
    "card (marked (swap_map s1)) \<le> Suc (card (marked (swap_map s)))" "\<And>b. length (page_tables s1 b) = length (page_tables s b)"
    "\<And>b w. w < length (page_tables s b) \<Longrightarrow>
       page (marked (ppnInUse s1) - {p}) s1 b w = (if sacrificed rnd s b w then backing s b w else vm_page s b w)"
    by (rule get_frame_ok[OF ok sp]) (rule that, assumption+)
  let ?R = "marked (ppnInUse s1) - {p}"
  have R: "insert p ?R = marked (ppnInUse s1)" using g(7) by auto
  have v1: "v < length (page_tables s1 (cur_space s1))" using v g(4,11) by simp
  have ab: "\<forall>q\<in>?R. \<not> owns s1 q (cur_space s1) v"
  proof
    fix q assume q: "q \<in> ?R"
    then have "q < length (ipt s1)" "ip_valid (ipt s1 ! q)" using g(8) by (simp_all add: core_ok_def ipt_wf_def)
    then show "\<not> owns s1 q (cur_space s1) v" using none[of q] g(3,4) by (simp add: owns_def)
  qed
  have pl: "p \<notin> ?R" "p < length (ipt s1)" using g(2,3) by simp_all
  define bs where "bs = backing s1 (cur_space s1) v"
  define s2 where "s2 = fill_ipt (int v) (int p) (put_bytes (p * PageSize) bs s1)"
  note f = fill_core[OF g(8) pl v1 ab, folded bs_def, folded s2_def]
  have load: "load_frame (int v) (int p) s1 = Inr (put_bytes (p * PageSize) bs s1)"
    using load_frame_ok[OF _ v1 pl(2)] g(8) by (simp add: core_ok_def bs_def)
  have run: "loadPageIntoIPT rnd (int v) s = Inr (int p, s2)"
    using g(1) pl(2) by (simp add: loadPageIntoIPT_def frame_ok_def load s2_def)
  have fields: "ppnInUse s2 = ppnInUse s1" "cur_space s2 = cur_space s1" "tlb s2 = tlb s1" "page_tables s2 = page_tables s1"
    "useRandom s2 = useRandom s1" "ppnQueue s2 = ppnQueue s1" "swap_map s2 = swap_map s1" "length (ipt s2) = length (ipt s1)"
    "\<And>q. q \<noteq> p \<Longrightarrow> ipt s2 ! q = ipt s1 ! q"
    by (simp_all add: s2_def fill_ipt_def put_bytes_def)
  have core: "core_ok (marked (ppnInUse s2)) s2" using f(1) R fields by simp
  have "queue_ok s2" using g(6) fields by (simp add: queue_ok_def)
  moreover have "q \<in> marked (ppnInUse s2)" if "q < length (ipt s2)" "ip_valid (ipt s2 ! q)" for q
  proof (cases "q = p")
    case True
    then show ?thesis using g(7) fields by simp
  next
    case False
    then show ?thesis using that g(3,7) fields ok by (simp add: vm_ok_def frames_ok_def)
  qed
  ultimately have ok2: "vm_ok s2" using core g(2,3) fields by (auto simp: vm_ok_def frames_ok_eq)
  have pg: "vm_page s2 b w = (if sacrificed rnd s b w then backing s b w else vm_page s b w)"
    if "w < length (page_tables s b)" for b w
    using f(3)[of w b] g(11,12) that R fields by simp
  have tv: "tlb_valid s2 \<subseteq> tlb_valid s" using g(9) fields(3) by (simp add: tlb_valid_def)
  have nh: "no_hidden s2" if h: "no_hidden s"
    unfolding no_hidden_def
  proof (intro allI impI)
    fix q assume q: "q < length (ipt s2)" "tlb_dirty s2 q"
    have "q \<noteq> p"
    proof
      assume "q = p"
      then have "tlb_dirty s1 p" using q(2) fields(3) by (simp add: tlb_dirty_def)
      moreover have "p < NumPhysPages" using g(8) pl(2) by (simp add: core_ok_def ipt_wf_def)
      ultimately show False using tlb_dirty_resident[of ?R s1 p] g(8) pl(1) by (simp add: core_ok_def)
    qed
    moreover have "tlb_dirty s q" using q(2) tv by (auto simp: tlb_dirty_valid)
    ultimately show "ip_dirty (ipt s2 ! q)" using h q(1) fields g(3) by (simp add: no_hidden_def)
  qed
  show ?thesis
    by (rule that[OF run ok2 _ _ _ _ nh _ _ pg]) (use f(2) g fields tv in \<open>auto simp: tlb_misses_def\<close>)
qed

lemma vpn_of_word:
  fixes w :: u32
  assumes "unat w < 2 ^ 31"
  shows "sint w sdiv int PageSize = int (unat w div PageSize)"
  using assms by (simp add: sint_small sdiv_nonneg zdiv_int)

lemma HandlePageFault_ok:
  fixes s :: "'a vm_scheme"
  assumes ok: "vm_ok s" and sp: "space_left s" and w: "unat (registers s BadVAddrReg) < 2 ^ 31"
    and v: "v = unat (registers s BadVAddrReg) div PageSize" "v < length (page_tables s (cur_space s))" and miss: "tlb_misses s v"
  obtains s' p where "HandlePageFault rnd s = Inr s'" "vm_ok s'" "tlb_maps s' v p" "frame s' p = vm_page s' (cur_space s) v"
    "\<And>a x. x < length (page_tables s a) \<Longrightarrow> vm_page s' a x =
         (if findIPTIndex (int v) s < 0 \<and> sacrificed rnd s a x then backing s a x else vm_page s a x)"
    "no_hidden s \<Longrightarrow> no_hidden s'" "card (marked (swap_map s')) \<le> Suc (card (marked (swap_map s)))"
    "\<And>b. length (page_tables s' b) = length (page_tables s b)" "cur_space s' = cur_space s"
proof -
  obtain p s1 where l: "(if findIPTIndex (int v) s < 0 then loadPageIntoIPT rnd (int v) s else Inr (findIPTIndex (int v) s, s)) = Inr (int p, s1)"
    "vm_ok s1" "p \<in> marked (ppnInUse s1)" "owns s1 p (cur_space s1) v" "cur_space s1 = cur_space s" "tlb_misses s1 v" "no_hidden s \<Longrightarrow> no_hidden s1"
    "card (marked (swap_map s1)) \<le> Suc (card (marked (swap_map s)))" "\<And>b. length (page_tables s1 b) = length (page_tables s b)"
    "\<And>b x. x < length (page_tables s b) \<Longrightarrow> vm_page s1 b x =
       (if findIPTIndex (int v) s < 0 \<and> sacrificed rnd s b x then backing s b x else vm_page s b x)"
  proof (cases rule: findIPTIndex_cases[of v s])
    case (found p)
    then show ?thesis using ok miss by (intro that[of p s]) (simp_all add: vm_ok_def frames_ok_def)
  next
    case none
    obtain p s2 where "loadPageIntoIPT rnd (int v) s = Inr (int p, s2)" "vm_ok s2" "p \<in> marked (ppnInUse s2)"
      "owns s2 p (cur_space s2) v" "cur_space s2 = cur_space s" "tlb_misses s v \<Longrightarrow> tlb_misses s2 v" "no_hidden s \<Longrightarrow> no_hidden s2"
      "card (marked (swap_map s2)) \<le> Suc (card (marked (swap_map s)))" "\<And>b. length (page_tables s2 b) = length (page_tables s b)"
      "\<And>b w. w < length (page_tables s b) \<Longrightarrow> vm_page s2 b w = (if sacrificed rnd s b w then backing s b w else vm_page s b w)"
      by (rule loadPageIntoIPT_ok[OF ok sp v(2) none(2)]) (assumption, assumption, rule that, assumption+)
    then show ?thesis using none(1) miss by (intro that[of p s2]) simp_all
  qed
  have core: "core_ok (marked (ppnInUse s1)) s1" using l(2) by (simp add: vm_ok_def)
  obtain xs t c s' where u: "updateTLBFromIPT (int p) s1 = Inr s'" "s' = s1\<lparr>ipt := xs, tlb := t, curTLB := c\<rparr>"
    "same_frames (ipt s1) xs" "core_ok (marked (ppnInUse s1)) s'" "page (marked (ppnInUse s1)) s' = page (marked (ppnInUse s1)) s1"
    "tlb_maps s' v p" "no_hidden s1 \<Longrightarrow> no_hidden s'"
    by (rule update_core[OF core l(3,4,6)]) (rule that, assumption+)
  have "ReadRegister s (int BadVAddrReg) = Inr (registers s BadVAddrReg)" by (simp add: ReadRegister_def)
  moreover have "sint (registers s BadVAddrReg) sdiv int PageSize = int v" using vpn_of_word[OF w] v(1) by simp
  ultimately have run: "HandlePageFault rnd s = Inr s'"
    using l(1) u(1) by (auto simp: HandlePageFault_def Let_def split: if_splits)
  have ok': "vm_ok s'" using l(2) u(2,3,4) by (auto simp: vm_ok_def frames_ok_def same_frames_def)
  have pg: "vm_page s' = vm_page s1" using u(2,5) by simp
  have "owns s' p (cur_space s) v" using l(4,5) u(2,3) same_frames_owns[of s1 s'] by simp
  moreover have "ipt_wf (marked (ppnInUse s')) s'" "p \<in> marked (ppnInUse s')" using ok' l(3) u(2) by (simp_all add: vm_ok_def core_ok_def)
  ultimately have "frame s' p = vm_page s' (cur_space s) v" using page_resident by metis
  then show ?thesis
    by (rule that[OF run ok' u(6)]) (use pg l u(2,7) in simp_all)
qed

text \<open>
  C3: a page fault on a page of the current address space puts the page into a frame and a
  writable entry for it into the TLB, keeps the invariant of the paging, and leaves every page of
  every address space as it was, whatever was evicted for it; except for the victim's page when its
  frame was written and only its entry in the TLB says so: that page goes back to what was on disk.
\<close>

theorem page_fault_keeps_pages:
  fixes s :: "'a vm_scheme"
  assumes "vm_ok s" and "space_left s" and "unat (registers s BadVAddrReg) < 2 ^ 31"
    and "v = unat (registers s BadVAddrReg) div PageSize" and "v < length (page_tables s (cur_space s))" and "tlb_misses s v"
  shows "\<exists>s' p. HandlePageFault rnd s = Inr s' \<and> vm_ok s' \<and> tlb_maps s' v p \<and> frame s' p = vm_page s' (cur_space s) v
    \<and> (\<forall>a x. x < length (page_tables s a) \<longrightarrow> vm_page s' a x =
         (if findIPTIndex (int v) s < 0 \<and> sacrificed rnd s a x then backing s a x else vm_page s a x))"
  by (rule HandlePageFault_ok[OF assms, of rnd]) blast

end
