(* ===== verification/UserMemory.thy ===== *)
theory UserMemory
  imports PageFault
begin

text \<open>
  What the paging of \<open>PageFault\<close> gives the rest of the system: context switches
  (\<open>threads/scheduler.cc\<close>), the loads and stores of user code, and the invalidation of the TLB in
  \<open>Fork_Syscall\<close> and \<open>Exec_Syscall\<close>.
\<close>

section \<open>Context switches\<close>

lemma flush_loop_ok:
  "core_ok R s \<Longrightarrow> set is \<subseteq> {..<TLBSize} \<Longrightarrow> tlb s = Some t \<Longrightarrow>
   \<exists>xs t'. flush_loop is s = Inr (s\<lparr>ipt := xs, tlb := Some t'\<rparr>) \<and> same_frames (ipt s) xs
     \<and> core_ok R (s\<lparr>ipt := xs, tlb := Some t'\<rparr>) \<and> page R (s\<lparr>ipt := xs, tlb := Some t'\<rparr>) = page R s
     \<and> length t' = length t \<and> (\<forall>j < length t. valid (t' ! j) \<longrightarrow> valid (t ! j) \<and> j \<notin> set is)"
proof (induction "is" arbitrary: s t)
  case Nil
  have eq: "s\<lparr>ipt := ipt s, tlb := Some t\<rparr> = s" using Nil.prems(3) by simp
  show ?case by (rule exI[of _ "ipt s"], rule exI[of _ t], unfold eq) (use Nil.prems in simp)
next
  case (Cons i "is")
  have i: "i < TLBSize" using Cons.prems(2) by simp
  obtain xs where xs: "propagate i s = Inr (s\<lparr>ipt := xs\<rparr>)" "same_frames (ipt s) xs"
    "core_ok R (drop_entry i (s\<lparr>ipt := xs\<rparr>))" "page R (drop_entry i (s\<lparr>ipt := xs\<rparr>)) = page R s"
    "no_hidden s \<Longrightarrow> no_hidden (drop_entry i (s\<lparr>ipt := xs\<rparr>))"
    by (rule save_entry[OF Cons.prems(1) i]) (rule that, assumption+)
  let ?t = "t[i := (t ! i)\<lparr>valid := False\<rparr>]"
  let ?s1 = "drop_entry i (s\<lparr>ipt := xs\<rparr>)"
  have s1: "?s1 = s\<lparr>ipt := xs, tlb := Some ?t\<rparr>" using Cons.prems(3) by (simp add: drop_entry_def)
  obtain ys t' where ys: "flush_loop is ?s1 = Inr (?s1\<lparr>ipt := ys, tlb := Some t'\<rparr>)" "same_frames (ipt ?s1) ys"
    "core_ok R (?s1\<lparr>ipt := ys, tlb := Some t'\<rparr>)" "page R (?s1\<lparr>ipt := ys, tlb := Some t'\<rparr>) = page R ?s1"
    "length t' = length ?t" "\<forall>j < length ?t. valid (t' ! j) \<longrightarrow> valid (?t ! j) \<and> j \<notin> set is"
    using Cons.IH[OF xs(3), of ?t] Cons.prems(2) s1 by auto
  have eq: "?s1\<lparr>ipt := ys, tlb := Some t'\<rparr> = s\<lparr>ipt := ys, tlb := Some t'\<rparr>" by (simp add: s1)
  have run: "flush_loop (i # is) s = Inr (s\<lparr>ipt := ys, tlb := Some t'\<rparr>)"
    using xs(1) ys(1) eq by (simp add: drop_entry_def)
  have "valid (t ! j) \<and> j \<notin> set (i # is)" if "j < length t" "valid (t' ! j)" for j
    using ys(6) that by (cases "j = i") auto
  moreover have "same_frames (ipt s) ys" using same_frames_trans[OF xs(2)] ys(2) by (simp add: s1)
  ultimately show ?case using run ys(3,4,5) xs(4) unfolding eq by (intro exI[of _ ys] exI[of _ t']) simp
qed

text \<open>
  C5: a context switch writes the dirty bits of the TLB back and empties it; every page of every
  address space stays as it was, the paging invariant holds for the next address space, and no page
  fault after it can lose a page.
\<close>

theorem switch_keeps_pages:
  fixes s :: "'a vm_scheme"
  assumes "vm_ok s"
  shows "\<exists>s'. switch_space a s = Inr s' \<and> vm_ok s' \<and> cur_space s' = a \<and> vm_page s' = vm_page s
    \<and> tlb_valid s' = {} \<and> (\<forall>rnd b v. \<not> sacrificed rnd s' b v)"
proof -
  let ?R = "marked (ppnInUse s)"
  have core: "core_ok ?R s" and fr: "frames_ok s" using assms by (simp_all add: vm_ok_def)
  obtain t where t: "tlb s = Some t" "length t = TLBSize"
    using core by (auto simp: core_ok_def tlb_wf_def split: option.splits)
  have sub: "set [0..<TLBSize] \<subseteq> {..<TLBSize}" by auto
  obtain xs t' where f: "flush_loop [0..<TLBSize] s = Inr (s\<lparr>ipt := xs, tlb := Some t'\<rparr>)" "same_frames (ipt s) xs"
    "core_ok ?R (s\<lparr>ipt := xs, tlb := Some t'\<rparr>)" "page ?R (s\<lparr>ipt := xs, tlb := Some t'\<rparr>) = page ?R s"
    "length t' = length t" "\<forall>j < length t. valid (t' ! j) \<longrightarrow> valid (t ! j) \<and> j \<notin> set [0..<TLBSize]"
    using flush_loop_ok[OF core sub t(1)] by blast
  define s' where s': "s' = s\<lparr>ipt := xs, tlb := Some t', cur_space := a\<rparr>"
  have none: "\<not> valid (t' ! j)" if "j < TLBSize" for j using f(5,6) t(2) that by auto
  have "tlb s' = Some t'" by (simp add: s')
  then have tv: "tlb_valid s' = {}" using none f(5) t(2) by (auto simp: tlb_valid_conv)
  have td: "\<not> tlb_dirty s' p" for p using tv by (simp add: tlb_dirty_valid)
  let ?s1 = "s\<lparr>ipt := xs, tlb := Some t'\<rparr>"
  have "tlb_valid ?s1 = {}" using tv by (simp add: s' tlb_valid_def)
  then have td1: "\<not> tlb_dirty ?s1 p" for p by (simp add: tlb_dirty_valid)
  have parts: "tables_wf ?s1" "ipt_wf ?R ?s1" "tlb_wf ?R ?s1" "clean_wf ?R ?s1" using f(3) by (simp_all add: core_ok_def)
  have o: "owns s' = owns ?s1" by (simp add: s' fun_eq_iff owns_def)
  have g: "s' = ?s1\<lparr>cur_space := a\<rparr>" by (simp add: s')
  have bk: "backing s' = backing ?s1" "\<And>p. frame s' p = frame ?s1 p" "tables_wf s' = tables_wf ?s1"
    unfolding g by (simp_all only: backing_frames frame_frames tables_wf_frames)
  have "tlb_wf ?R s'" using parts(3) none f(5) t(2) by (simp add: tlb_wf_def s')
  moreover have "clean_wf ?R s'" using parts(4) td td1 by (simp add: clean_wf_def o bk) (simp add: s')
  moreover have "ipt_wf ?R s'" using parts(2) same_frames_ipt_wf[of ?s1 s' ?R] by (simp add: s')
  ultimately have "core_ok ?R s'" using parts(1) bk(3) by (simp add: core_ok_def)
  then have ok: "vm_ok s'" using fr f(2) by (auto simp: vm_ok_def s' frames_ok_def same_frames_def)
  have "page ?R s' = page ?R ?s1" by (rule same_frames_page) (simp_all add: bk, simp add: s')
  then have pg: "vm_page s' = vm_page s" using f(4) by (simp add: s')
  have "\<not> sacrificed rnd s' b v" for rnd b v using td by (simp add: sacrificed_def lost_def)
  moreover have "switch_space a s = Inr s'" using f(1) by (simp add: switch_space_def s' del: upt_rec_numeral)
  ultimately show ?thesis using ok pg tv by (intro exI[of _ s']) (simp add: s')
qed

section \<open>Loads and stores of the user\<close>

lemma vm_mmu_wf: "vm_ok m \<Longrightarrow> mmu_wf m"
  by (simp add: vm_ok_def core_ok_def tlb_wf_def mmu_wf_def split: option.splits)

lemma vm_access:
  fixes m :: "'a vm_scheme" and va :: u32
  assumes ok: "vm_ok m" and sz: "sz \<in> {1, 2, 4}" and tr: "translation m va sz writing = (Inr pa, m')"
  obtains t i p where "tlb m = Some t" "i < TLBSize" "valid (t ! i)" "physicalPage (t ! i) = of_nat p"
    "p \<in> marked (ppnInUse m)" "owns m p (cur_space m) (unat va div PageSize)"
    "unat pa = p * PageSize + unat va mod PageSize" "unat va mod PageSize + sz \<le> PageSize"
    "m' = m\<lparr>tlb := Some (t[i := (t ! i)\<lparr>use := True, dirty := dirty (t ! i) \<or> writing\<rparr>])\<rparr>"
proof -
  let ?R = "marked (ppnInUse m)"
  have wf: "mmu_wf m" using vm_mmu_wf[OF ok] .
  have parts: "tables_wf m" "ipt_wf ?R m" "tlb_wf ?R m" using ok by (simp_all add: vm_ok_def core_ok_def)
  obtain t where t: "tlb m = Some t" "length t = TLBSize" using parts(3) by (auto simp: tlb_wf_def split: option.splits)
  obtain en put where f: "find_entry m (va div of_nat PageSize) = Inr (Inr (en, put))"
    "unat pa div PageSize = unat (physicalPage en)" "m' = put (en\<lparr>use := True, dirty := dirty en \<or> writing\<rparr>)"
    using translation_Inr(4)[OF wf sz tr] by blast
  obtain i where i: "tlb_find t (va div of_nat PageSize) [0..<TLBSize] = Some i" "en = t ! i"
    "put = (\<lambda>e. m\<lparr>tlb := Some (t[i := e])\<rparr>)"
    using f(1) t(1) by (auto simp: find_entry_def simp del: upt_rec_numeral split: option.splits)
  have v: "i < TLBSize" "valid (t ! i)" "virtualPage (t ! i) = va div of_nat PageSize"
    using tlb_find_Some[OF i(1)] by auto
  obtain p x where p: "p \<in> ?R" "physicalPage (t ! i) = of_nat p" "owns m p (cur_space m) x" "virtualPage (t ! i) = of_nat x"
    using tlb_wf_entry[OF parts(3) t(1) v(1,2)] by blast
  have pl: "p < NumPhysPages" using parts(2) p(1) by (force simp: ipt_wf_def)
  have "x < length (page_tables m (cur_space m))" using parts(2) p(1,3) owner_unique unfolding ipt_wf_def by blast
  moreover have "length (page_tables m (cur_space m)) \<le> 2 ^ 24" using parts(1) by (simp add: tables_wf_def)
  ultimately have "x < 2 ^ 24" by linarith
  then have "unat (of_nat x :: u32) = x" by (simp add: unat_of_nat take_bit_nat_eq_self)
  moreover have "unat (va div of_nat PageSize) = unat va div PageSize" by (simp add: unat_div)
  ultimately have x: "x = unat va div PageSize" using v(3) p(4) by metis
  have "unat (of_nat p :: u32) = p" using pl by (simp add: unat_of_nat take_bit_nat_eq_self)
  then have "unat pa div PageSize = p" using f(2) i(2) p(2) by simp
  moreover have "unat pa mod PageSize = unat va mod PageSize" using translation_Inr(2)[OF wf sz tr] .
  ultimately have pa: "unat pa = p * PageSize + unat va mod PageSize" by (metis div_mult_mod_eq)
  have b: "unat va mod PageSize + sz \<le> PageSize" using translation_Inr(2,3)[OF wf sz tr] by simp
  show ?thesis using that[OF t(1) v(1,2) p(2,1) p(3)[unfolded x] pa b] f(3) i(2,3) by simp
qed

lemma stored_at:
  assumes "sz \<in> {1, 2, 4}"
  shows "stored sz w pa mem a = (if pa \<le> a \<and> a < pa + sz then word_bytes w ! (a - pa) else mem a)"
proof -
  have 2: "(ucast (drop_bit 8 (ucast w :: u16)) :: u8) = ucast (drop_bit 8 w)"
    by (rule bit_word_eqI) (auto simp: bit_simps)
  consider "a < pa" | "a = pa" | "a = pa + 1" | "a = pa + 2" | "a = pa + 3" | "pa + 4 \<le> a" by linarith
  then show ?thesis using assms by cases (auto simp: stored_def word_bytes_def 2)
qed

lemma frame_stored:
  assumes sz: "sz \<in> {1, 2, 4}" and o: "off + sz \<le> PageSize"
    and mm: "mainMemory m1 = stored sz w (p * PageSize + off) (mainMemory m)"
  shows "frame m1 q = (if q = p then overlay off (take sz (word_bytes w)) (frame m p) else frame m q)"
proof (rule nth_equalityI)
  have len: "length (take sz (word_bytes w)) = sz" using sz by auto
  show "length (frame m1 q) = length (if q = p then overlay off (take sz (word_bytes w)) (frame m p) else frame m q)"
    using o len by simp
  fix k assume "k < length (frame m1 q)"
  then have k: "k < PageSize" by simp
  have l: "frame m1 q ! k = mainMemory m1 (q * PageSize + k)" "frame m q ! k = mainMemory m (q * PageSize + k)"
    using k by (simp_all add: frame_def)
  show "frame m1 q ! k = (if q = p then overlay off (take sz (word_bytes w)) (frame m p) else frame m q) ! k"
  proof (cases "q = p")
    case True
    have "overlay off (take sz (word_bytes w)) (frame m p) ! k =
      (if off \<le> k \<and> k < off + sz then take sz (word_bytes w) ! (k - off) else frame m p ! k)"
      using nth_overlay[of off "take sz (word_bytes w)" "frame m p" k] o k len by simp
    then show ?thesis using True l mm stored_at[OF sz] by auto
  next
    case False
    then consider "Suc q \<le> p" | "Suc p \<le> q" by linarith
    then have "\<not> (p * PageSize + off \<le> q * PageSize + k \<and> q * PageSize + k < p * PageSize + off + sz)"
      using k o by cases auto
    then show ?thesis using False l mm stored_at[OF sz] by auto
  qed
qed

text \<open>The invariant after an access, with the entry it used marked used, and dirty for a store.\<close>

lemma access_core:
  fixes m :: "'a vm_scheme"
  assumes core: "core_ok R m" and t: "tlb m = Some t" and i: "i < TLBSize" "valid (t ! i)" and p: "p \<in> R" "physicalPage (t ! i) = of_nat p"
    and e: "e = (t ! i)\<lparr>use := True, dirty := dirty (t ! i) \<or> writing\<rparr>"
    and fr: "\<And>q. q \<noteq> p \<or> \<not> writing \<Longrightarrow> frame m1 q = frame m q"
    and m1: "m1 = m\<lparr>tlb := Some (t[i := e]), mainMemory := mm, lastUsed := lu\<rparr>"
  shows "core_ok R m1" and "\<not> writing \<Longrightarrow> no_hidden m \<Longrightarrow> no_hidden m1"
    and "tlb_dirty m1 q \<Longrightarrow> tlb_dirty m q \<or> (writing \<and> physicalPage (t ! i) = of_nat q)"
proof -
  have parts: "tables_wf m" "ipt_wf R m" "tlb_wf R m" "clean_wf R m" using core by (simp_all add: core_ok_def)
  have len: "length t = TLBSize" using parts(3) t by (simp add: tlb_wf_def)
  have at: "t[i := e] ! j = (if j = i then e else t ! j)" for j using i(1) len by simp
  have same: "valid (t[i := e] ! j) = valid (t ! j)" "physicalPage (t[i := e] ! j) = physicalPage (t ! j)"
    "virtualPage (t[i := e] ! j) = virtualPage (t ! j)" "readOnly (t[i := e] ! j) = readOnly (t ! j)"
    "dirty (t[i := e] ! j) = (dirty (t ! j) \<or> (writing \<and> j = i))" for j
    unfolding at using e by auto
  have o: "owns m1 = owns m" by (simp add: m1 fun_eq_iff owns_def)
  have bk: "backing m1 = backing m" by (simp add: m1 fun_eq_iff backing_def swap_slot_def Let_def cong: Location.case_cong option.case_cong)
  have tm: "tlb m1 = Some (t[i := e])" "length (t[i := e]) = TLBSize" using len by (simp_all add: m1)
  show td: "tlb_dirty m1 q \<Longrightarrow> tlb_dirty m q \<or> (writing \<and> physicalPage (t ! i) = of_nat q)" for q
    using tlb_dirty_conv[OF tm, of q] tlb_dirty_conv[OF t len, of q] same by auto
  have up: "tlb_dirty m q \<Longrightarrow> tlb_dirty m1 q" for q
    unfolding tlb_dirty_conv[OF tm] tlb_dirty_conv[OF t len] same by blast
  have "\<exists>q\<in>R. \<exists>v. physicalPage (t[i := e] ! j) = of_nat q \<and> owns m q (cur_space m) v \<and> virtualPage (t[i := e] ! j) = of_nat v
     \<and> (ip_dirty (ipt m ! q) \<longrightarrow> dirty (t[i := e] ! j))" if "j < TLBSize" "valid (t[i := e] ! j)" for j
    using tlb_wf_entry[OF parts(3) t that(1)] that same by metis
  moreover have "j = k" if "j < TLBSize" "k < TLBSize" "valid (t[i := e] ! j)" "valid (t[i := e] ! k)"
    "physicalPage (t[i := e] ! j) = physicalPage (t[i := e] ! k)" for j k
    using tlb_wf_unique[OF parts(3) t that(1,2)] that(3-5) same by metis
  moreover have "\<not> readOnly (t[i := e] ! j)" if "j < TLBSize" "valid (t[i := e] ! j)" for j
    using that same parts(3) t by (simp add: tlb_wf_def)
  ultimately have "tlb_wf R m1" using parts(3) tm(2) o by (simp add: tlb_wf_def m1)
  moreover have "clean_wf R m1"
    unfolding clean_wf_def
  proof (intro ballI allI impI)
    fix q a v assume q: "q \<in> R" "owns m1 q a v" "\<not> ip_dirty (ipt m1 ! q)" "\<not> tlb_dirty m1 q"
    have "q \<noteq> p \<or> \<not> writing"
    proof (rule ccontr)
      assume "\<not> (q \<noteq> p \<or> \<not> writing)"
      then have "tlb_dirty m1 q" unfolding tlb_dirty_conv[OF tm] same using i p(2) by blast
      then show False using q(4) by simp
    qed
    moreover have "frame m q = backing m a v" using parts(4) q up o by (auto simp: clean_wf_def m1)
    ultimately show "frame m1 q = backing m1 a v" using fr bk by simp
  qed
  moreover have "ipt_wf R m1" using parts(2) same_frames_ipt_wf[of m m1 R] by (simp add: m1)
  moreover have "tables_wf m1" using parts(1)
    by (simp add: m1 tables_wf_def pte_wf_def swap_wf_def slot_stored_def cong: Location.case_cong option.case_cong)
  ultimately show "core_ok R m1" by (simp add: core_ok_def)
  show "no_hidden m1" if "\<not> writing" "no_hidden m" using that td by (auto simp: no_hidden_def m1)
qed

lemma vm_access_ok:
  fixes m :: "'a vm_scheme"
  assumes ok: "vm_ok m" and t: "tlb m = Some t" and i: "i < TLBSize" "valid (t ! i)"
    and p: "p \<in> marked (ppnInUse m)" "physicalPage (t ! i) = of_nat p" "owns m p (cur_space m) v"
    and e: "e = (t ! i)\<lparr>use := True, dirty := dirty (t ! i) \<or> writing\<rparr>"
    and m1: "m1 = m\<lparr>tlb := Some (t[i := e]), mainMemory := mm, lastUsed := lu\<rparr>"
    and fr: "\<And>q. frame m1 q = (if q = p \<and> writing then bs else frame m q)"
  shows "vm_ok m1" and "vm_page m1 a x = (if writing \<and> a = cur_space m \<and> x = v then bs else vm_page m a x)"
    and "\<not> writing \<Longrightarrow> no_hidden m \<Longrightarrow> no_hidden m1"
proof -
  let ?R = "marked (ppnInUse m)"
  have core: "core_ok ?R m" using ok by (simp add: vm_ok_def)
  have fr': "q \<noteq> p \<or> \<not> writing \<Longrightarrow> frame m1 q = frame m q" for q using fr by auto
  note c = access_core[OF core t i p(1,2) e fr' m1]
  show "\<not> writing \<Longrightarrow> no_hidden m \<Longrightarrow> no_hidden m1" by (rule c(2))
  show ok1: "vm_ok m1" using c(1) ok by (simp add: vm_ok_def m1 frames_ok_def)
  have o: "owns m1 = owns m" by (simp add: m1 fun_eq_iff owns_def)
  have iw: "ipt_wf ?R m" "ipt_wf ?R m1" using core c(1) by (simp_all add: core_ok_def)
  have bk: "backing m1 = backing m" by (simp add: m1 fun_eq_iff backing_def swap_slot_def Let_def cong: Location.case_cong option.case_cong)
  have R1: "marked (ppnInUse m1) = ?R" by (simp add: m1)
  have "page ?R m1 a x = (if writing \<and> a = cur_space m \<and> x = v then bs else page ?R m a x)"
  using iw(1) proof (cases rule: page_cases[of ?R m a x])
    case (resident q)
    then have "page ?R m1 a x = frame m1 q" using page_resident[OF iw(2)] o by simp
    moreover have "q = p \<longleftrightarrow> a = cur_space m \<and> x = v"
      using resident p(1,3) iw(1) owner_unique unfolding ipt_wf_def by blast
    ultimately show ?thesis using fr resident(3) by auto
  next
    case absent
    then have "\<not> (a = cur_space m \<and> x = v)" using p by blast
    moreover have "page ?R m1 a x = backing m1 a x" using absent(1) o by (intro page_absent) simp
    ultimately show ?thesis using absent(2) bk by auto
  qed
  then show "vm_page m1 a x = (if writing \<and> a = cur_space m \<and> x = v then bs else vm_page m a x)" using R1 by simp
qed

lemma store_page:
  fixes m :: "'a vm_scheme"
  assumes ok: "vm_ok m" and sz: "sz \<in> {1, 2, 4}" and w: "WriteMem big h va sz val m = Inr (True, m1)"
  shows "vm_ok m1 \<and> vm_page m1 a x =
    (if a = cur_space m \<and> x = unat va div PageSize
     then overlay (unat va mod PageSize) (take sz (word_bytes val)) (vm_page m a x) else vm_page m a x)"
proof -
  obtain pa m' where tr: "translation m va sz True = (Inr pa, m')"
    and m1: "m1 = touch (unat pa) (m'\<lparr>mainMemory := stored sz val (unat pa) (mainMemory m)\<rparr>)"
    using translation_step[OF vm_mmu_wf[OF ok] sz w] by blast
  obtain t i p where a: "tlb m = Some t" "i < TLBSize" "valid (t ! i)" "physicalPage (t ! i) = of_nat p"
    "p \<in> marked (ppnInUse m)" "owns m p (cur_space m) (unat va div PageSize)"
    "unat pa = p * PageSize + unat va mod PageSize" "unat va mod PageSize + sz \<le> PageSize"
    "m' = m\<lparr>tlb := Some (t[i := (t ! i)\<lparr>use := True, dirty := dirty (t ! i) \<or> True\<rparr>])\<rparr>"
    by (rule vm_access[OF ok sz tr]) (rule that, assumption+)
  let ?bs = "overlay (unat va mod PageSize) (take sz (word_bytes val)) (frame m p)"
  have fr: "frame m1 q = (if q = p \<and> True then ?bs else frame m q)" for q
    using frame_stored[OF sz a(8), of m1 val p m q] a(7) by (simp add: m1 touch_def)
  obtain lu where "m1 = m\<lparr>tlb := Some (t[i := (t ! i)\<lparr>use := True, dirty := dirty (t ! i) \<or> True\<rparr>]),
      mainMemory := stored sz val (unat pa) (mainMemory m), lastUsed := lu\<rparr>"
    using a(9) by (simp add: m1 touch_def)
  note k = vm_access_ok[OF ok a(1,2,3,5,4,6) refl this fr]
  have "ipt_wf (marked (ppnInUse m)) m" using ok by (simp add: vm_ok_def core_ok_def)
  then have "vm_page m (cur_space m) (unat va div PageSize) = frame m p" using page_resident a(5,6) by metis
  then show ?thesis using k(1) k(2)[of a x] by simp
qed

text \<open>
  C4: what a user program stores goes to its own memory and nowhere else. A store of 1, 2 or 4 bytes
  that the hardware lets through puts the bytes, least significant first, into the page of the
  current address space that the address names, at the address's offset; every other page of every
  address space stays as it was, in memory or not, and the paging invariant is kept.
\<close>

theorem user_store:
  fixes m :: "'a vm_scheme"
  assumes ok: "vm_ok m" and sz: "sz \<in> {1, 2, 4}" and w: "WriteMem big h va sz val m = Inr (True, m1)"
  shows "vm_ok m1 \<and> vm_page m1 a x =
    (if a = cur_space m \<and> x = unat va div PageSize
     then overlay (unat va mod PageSize) (take sz (word_bytes val)) (vm_page m a x) else vm_page m a x)"
  by (rule store_page[OF assms])

text \<open>What a load gives, from the bytes of the page.\<close>

definition load_value :: "nat \<Rightarrow> nat \<Rightarrow> u8 list \<Rightarrow> u32" where
  "load_value sz off bs =
     (if sz = 1 then scast (bs ! off) else if sz = 2 then ucast (le16 (bs ! off) (bs ! (off + 1)))
      else le32 (bs ! off) (bs ! (off + 1)) (bs ! (off + 2)) (bs ! (off + 3)))"

lemma ReadMem_step:
  assumes "mmu_wf m" and "sz \<in> {1, 2, 4}" and "ReadMem big h va sz m = Inr (Some w, m1)"
  obtains pa m' where "translation m va sz False = (Inr pa, m')"
proof (cases "translation m va sz False")
  case (Pair r m')
  then show ?thesis using that assms by (cases r) (auto simp: ReadMem_def Translate_eq elim: bindE_InrE)
qed

lemma load_page:
  fixes m :: "'a vm_scheme"
  assumes ok: "vm_ok m" and sz: "sz \<in> {1, 2, 4}" and r: "ReadMem big h va sz m = Inr (Some w, m1)"
  shows "w = load_value sz (unat va mod PageSize) (vm_page m (cur_space m) (unat va div PageSize))
    \<and> vm_ok m1 \<and> vm_page m1 = vm_page m \<and> (no_hidden m \<longrightarrow> no_hidden m1)
    \<and> cur_space m1 = cur_space m \<and> page_tables m1 = page_tables m \<and> swap_map m1 = swap_map m"
proof -
  have wf: "mmu_wf m" using vm_mmu_wf[OF ok] .
  obtain pa m' where tr: "translation m va sz False = (Inr pa, m')" using ReadMem_step[OF wf sz r] by blast
  obtain t i p where a: "tlb m = Some t" "i < TLBSize" "valid (t ! i)" "physicalPage (t ! i) = of_nat p"
    "p \<in> marked (ppnInUse m)" "owns m p (cur_space m) (unat va div PageSize)"
    "unat pa = p * PageSize + unat va mod PageSize" "unat va mod PageSize + sz \<le> PageSize"
    "m' = m\<lparr>tlb := Some (t[i := (t ! i)\<lparr>use := True, dirty := dirty (t ! i) \<or> False\<rparr>])\<rparr>"
    by (rule vm_access[OF ok sz tr]) (rule that, assumption+)
  note rd = ReadMem_Some[OF wf sz tr, of big h]
  have m1: "m1 = touch (unat pa) m'" using rd r by simp
  obtain lu where eq: "m1 = m\<lparr>tlb := Some (t[i := (t ! i)\<lparr>use := True, dirty := dirty (t ! i) \<or> False\<rparr>]),
      mainMemory := mainMemory m, lastUsed := lu\<rparr>"
    using a(9) by (simp add: m1 touch_def)
  have fr: "frame m1 q = (if q = p \<and> False then [] else frame m q)" for q by (simp add: eq frame_def)
  note k = vm_access_ok[OF ok a(1,2,3,5,4,6) refl eq fr]
  have "ipt_wf (marked (ppnInUse m)) m" using ok by (simp add: vm_ok_def core_ok_def)
  then have pg: "vm_page m (cur_space m) (unat va div PageSize) = frame m p" using page_resident a(5,6) by metis
  have b: "mainMemory m (unat pa + j) = frame m p ! (unat va mod PageSize + j)" if "j < sz" for j
    using that a(7,8) by (simp add: frame_def add.assoc)
  have "w = load_value sz (unat va mod PageSize) (frame m p)"
    using rd r sz b[of 0] b[of 1] b[of 2] b[of 3] by (auto simp: load_value_def)
  moreover have "vm_page m1 = vm_page m" using k(2) by (simp add: fun_eq_iff)
  ultimately show ?thesis using k(1,3) pg by (simp add: eq)
qed

text \<open>
  a load of the user reads the page of the current address space that the address names, and
  changes no page of any address space.
\<close>

theorem user_load:
  fixes m :: "'a vm_scheme"
  assumes ok: "vm_ok m" and sz: "sz \<in> {1, 2, 4}" and r: "ReadMem big h va sz m = Inr (Some w, m1)"
  shows "w = load_value sz (unat va mod PageSize) (vm_page m (cur_space m) (unat va div PageSize))
    \<and> vm_ok m1 \<and> vm_page m1 = vm_page m \<and> (no_hidden m \<longrightarrow> no_hidden m1)
    \<and> cur_space m1 = cur_space m \<and> page_tables m1 = page_tables m \<and> swap_map m1 = swap_map m"
  by (rule load_page[OF assms])

section \<open>Fork and Exec\<close>


section \<open>A concrete memory\<close>

text \<open>
  Two frames, both in use: frame 0 holds page 0 of address space 0, written and known to be; frame 1
  holds page 1, written, as the TLB alone says. The program's page 2 is in its executable.
\<close>

definition demo_pte :: "Location \<Rightarrow> int \<Rightarrow> ptentry" where
  "demo_pte l off = \<lparr>pt_virtualPage = 0, pt_physicalPage = -1, pt_valid = False, pt_readOnly = False, pt_use = False,
     pt_dirty = False, pt_location = l, pt_executable = Some 0, pt_byteOffset = off, pt_swapPageIndex = -1\<rparr>"

definition demo_ipt :: "int \<Rightarrow> bool \<Rightarrow> iptentry" where
  "demo_ipt p d = \<lparr>ip_virtualPage = p, ip_physicalPage = p, ip_valid = True, ip_readOnly = False, ip_use = False,
     ip_dirty = d, ip_process = Some 0\<rparr>"

definition demo_vm :: "int list \<Rightarrow> vm" where
  "demo_vm q =
     \<lparr>registers = (\<lambda>_. 0)(BadVAddrReg := 260), mainMemory = (\<lambda>a. if a < 128 then 1 else 2),
      tlb = Some [demo_entry\<lparr>valid := False\<rparr>, demo_entry\<lparr>virtualPage := 1, physicalPage := 1, dirty := True\<rparr>,
                  demo_entry\<lparr>valid := False\<rparr>, demo_entry\<lparr>valid := False\<rparr>],
      pageTable = None, pageTableSize = 0, lastUsed = (\<lambda>_. 0), totalTicks = 0, status = UserMode,
      ipt = [demo_ipt 0 True, demo_ipt 1 False], ppnInUse = \<lparr>numBits = 2, numWords = 1, bmap = [3]\<rparr>,
      ppnQueue = q, useRandom = False, curTLB = 0,
      page_tables = (\<lambda>_. [])(0 := [demo_pte IN_EXECUTABLE 0, demo_pte NEITHER (-1), demo_pte IN_EXECUTABLE 128]),
      cur_space = 0, swap_map = \<lparr>numBits = MAX_SWAP_PAGES, numWords = 500, bmap = replicate 500 0\<rparr>,
      swap_file = [], files = (\<lambda>_. replicate 256 7)\<rparr>"

lemma demo_marked: "marked (ppnInUse (demo_vm q)) = {0, 1}"
proof -
  have "bit (3 :: u32) 0" "bit (3 :: u32) 1" by simp_all
  then show ?thesis by (auto simp: marked_def bit_set_def demo_vm_def less_Suc_eq numeral_2_eq_2)
qed

lemma demo_swap: "marked (swap_map (demo_vm q)) = {}"
  by (auto simp: marked_def bit_set_def demo_vm_def)

lemma demo_vm_ok:
  assumes "q = [0, 1] \<or> q = [1, 0]"
  shows "vm_ok (demo_vm q)"
proof -
  let ?s = "demo_vm q"
  have lt4: "i < TLBSize \<longleftrightarrow> i = 0 \<or> i = 1 \<or> i = 2 \<or> i = (3 :: nat)" for i by auto
  have pt: "page_tables ?s a = (if a = 0 then [demo_pte IN_EXECUTABLE 0, demo_pte NEITHER (-1), demo_pte IN_EXECUTABLE 128] else [])" for a
    by (simp add: demo_vm_def)
  have fl: "length (files ?s f) = 256" for f by (simp add: demo_vm_def)
  have "swap_wf ?s" by (simp add: swap_wf_def demo_vm_def bitmap_wf_def divRoundUp_def)
  moreover have "pte_wf ?s (page_tables ?s a ! v) \<and> pt_swapPageIndex (page_tables ?s a ! v) = -1"
    if "v < length (page_tables ?s a)" for a v
    using that by (auto simp: pt less_Suc_eq pte_wf_def demo_pte_def fl in_int_def split: if_splits)
  moreover have "length (page_tables ?s a) \<le> 2 ^ 24" for a by (simp add: pt)
  ultimately have "tables_wf ?s" by (simp add: tables_wf_def)
  moreover have ip: "ipt ?s = [demo_ipt 0 True, demo_ipt 1 False]" by (simp add: demo_vm_def)
  have o: "owns ?s p a v \<longleftrightarrow> a = 0 \<and> v = p" if "p = 0 \<or> p = 1" for p a v
    using that by (auto simp: owns_def ip demo_ipt_def)
  have "ipt_wf {0, 1} ?s" using o by (auto simp: ipt_wf_def ip demo_ipt_def pt)
  moreover have "tlb_wf {0, 1} ?s"
    by (auto simp: tlb_wf_def demo_vm_def lt4 demo_entry_def owns_def demo_ipt_def)
  moreover have "tlb_dirty ?s 1" by (simp add: tlb_dirty_def demo_vm_def demo_entry_def)
  then have "clean_wf {0, 1} ?s" by (simp add: clean_wf_def ip demo_ipt_def)
  moreover have "frames_ok ?s"
    unfolding frames_ok_def demo_marked using assms
    by (auto simp: demo_vm_def bitmap_wf_def divRoundUp_def less_Suc_eq numeral_2_eq_2)
  ultimately show ?thesis by (simp add: vm_ok_def core_ok_def demo_marked)
qed

lemma demo_space: "space_left (demo_vm q)"
  by (simp add: space_left_def demo_swap)

lemma demo_cur: "cur_space (demo_vm q) = 0"
  by (simp add: demo_vm_def)

lemma demo_misses: "tlb_misses (demo_vm q) 2"
  by (auto simp: tlb_misses_def tlb_valid_def demo_vm_def demo_entry_def)

lemma demo_find: "findIPTIndex 2 (demo_vm q) = -1"
  by (simp add: findIPTIndex_def demo_vm_def demo_ipt_def)

lemma demo_page0: "vm_page (demo_vm q) 0 0 = replicate PageSize 1"
proof -
  have "frame (demo_vm q) 0 = replicate PageSize 1"
    by (rule nth_equalityI) (simp_all add: frame_def demo_vm_def)
  then show ?thesis unfolding demo_marked by (simp add: page_def demo_vm_def owns_def demo_ipt_def)
qed

text \<open>The fault on page 2 evicts page 0, which is written to the swap file and keeps its bytes.\<close>

lemma page_fault_keeps_pages_witness:
  "\<exists>s' p. HandlePageFault 0 (demo_vm [0, 1]) = Inr s' \<and> vm_ok s' \<and> tlb_maps s' 2 p
     \<and> vm_page s' 0 0 = replicate PageSize 1"
proof -
  have d: "registers (demo_vm [0, 1]) BadVAddrReg = 260" "length (page_tables (demo_vm [0, 1]) 0) = 3"
    by (simp_all add: demo_vm_def)
  obtain s' p where s': "HandlePageFault 0 (demo_vm [0, 1]) = Inr s'" "vm_ok s'" "tlb_maps s' 2 p"
    "\<And>a x. x < length (page_tables (demo_vm [0, 1]) a) \<Longrightarrow> vm_page s' a x =
       (if findIPTIndex (int 2) (demo_vm [0, 1]) < 0 \<and> sacrificed 0 (demo_vm [0, 1]) a x
        then backing (demo_vm [0, 1]) a x else vm_page (demo_vm [0, 1]) a x)"
    using page_fault_keeps_pages[OF demo_vm_ok demo_space _ _ _ demo_misses, of "[0, 1]" 0] d demo_cur by fastforce
  have "\<not> sacrificed 0 (demo_vm [0, 1]) 0 0"
    by (simp add: sacrificed_def lost_def victim_frame_def demo_vm_def demo_ipt_def)
  then have "vm_page s' 0 0 = vm_page (demo_vm [0, 1]) 0 0"
    using s'(4)[of 0 0] by (simp add: demo_vm_def)
  then show ?thesis using s'(1-3) demo_page0 by auto
qed

lemma switch_keeps_pages_witness:
  "\<exists>s'. switch_space 5 (demo_vm [0, 1]) = Inr s' \<and> vm_page s' 0 0 = replicate PageSize 1"
  using switch_keeps_pages[OF demo_vm_ok[of "[0, 1]"], of 5] demo_page0 by auto


lemma demo_translation:
  "\<exists>m'. translation (demo_vm q) 132 4 w = (Inr 132, m')"
  by (cases w) (simp_all add: translation_def misaligned_def find_entry_def demo_vm_def demo_entry_def upt_rec word_le_nat_alt)

lemma user_store_witness:
  "\<exists>m1. WriteMem True no_handler 132 4 0x0403 (demo_vm [0, 1]) = Inr (True, m1)
     \<and> vm_page m1 0 1 = overlay 4 [3, 4, 0, 0] (vm_page (demo_vm [0, 1]) 0 1)"
proof -
  obtain m' where "translation (demo_vm [0, 1]) 132 4 True = (Inr 132, m')" using demo_translation by blast
  then obtain m1 where w: "WriteMem True no_handler 132 4 0x0403 (demo_vm [0, 1]) = Inr (True, m1)"
    using WriteMem_True[OF vm_mmu_wf[OF demo_vm_ok]] by blast
  have b: "take 4 (word_bytes 0x0403) = [3, 4, 0, 0]" by (simp add: word_bytes_def)
  have "vm_page m1 0 1 = overlay 4 (take 4 (word_bytes 0x0403)) (vm_page (demo_vm [0, 1]) 0 1)"
    using user_store[OF demo_vm_ok _ w, of 0 1] by (simp add: demo_cur)
  then show ?thesis using w unfolding b by blast
qed

lemma user_load_witness:
  "\<exists>w m1. ReadMem True no_handler 132 4 (demo_vm [0, 1]) = Inr (Some w, m1) \<and> vm_page m1 = vm_page (demo_vm [0, 1])"
proof -
  obtain m' where "translation (demo_vm [0, 1]) 132 4 False = (Inr 132, m')" using demo_translation by blast
  then obtain w m1 where r: "ReadMem True no_handler 132 4 (demo_vm [0, 1]) = Inr (Some w, m1)"
    using ReadMem_Some[OF vm_mmu_wf[OF demo_vm_ok]] by blast
  then show ?thesis using user_load[OF demo_vm_ok _ r] by auto
qed

lemma swap_round_trip_witness:
  "\<exists>s1 s2. Store 7 0 (demo_vm [0, 1]) = Inr (int PageSize, s1) \<and> Load 7 1 s1 = Inr (int PageSize, s2)
     \<and> frame s2 1 = frame (demo_vm [0, 1]) 0"
proof -
  have w: "swap_wf (demo_vm [0, 1])" using demo_vm_ok[of "[0, 1]"] by (simp add: vm_ok_def core_ok_def tables_wf_def)
  have "length (ipt (demo_vm [0, 1])) = 2" by (simp add: demo_vm_def)
  then obtain s1 s2 where "Store (int 7) (int 0) (demo_vm [0, 1]) = Inr (int PageSize, s1)"
    "Load (int 7) (int 1) s1 = Inr (int PageSize, s2)" "frame s2 1 = frame (demo_vm [0, 1]) 0"
    using swap_round_trip[OF w, of 7 0 1] by auto
  then show ?thesis by (intro exI[of _ s1] exI[of _ s2]) simp
qed

end
