(* ===== verification/AddrSpace.thy ===== *)
theory AddrSpace
  imports UserMemory
begin

text \<open>
  \<open>userprog/addrspace.cc\<close> with \<open>USE_TLB\<close>, and the start of the virtual memory in
  \<open>threads/system.cc\<close>: the table of open files, the page table a program starts with, the stack of a
  forked thread, the first registers. An address space is a number; its page table is in
  \<open>page_tables\<close>, its length is \<open>numPages\<close>.
\<close>

section \<open>Tables\<close>

text \<open>\<open>Table\<close>: pointers in the slots of a bitmap. \<open>None\<close> is NULL.\<close>

record ftable =
  t_map :: bitmap
  t_table :: "nat option list"

abbreviation (input) MaxOpenFiles :: nat where "MaxOpenFiles \<equiv> 256"

definition Table_new :: "(nat \<Rightarrow> u32) \<Rightarrow> (nat \<Rightarrow> nat option) \<Rightarrow> nat \<Rightarrow> ftable result" where
  "Table_new junk ptrs n =
     bindE (BitMap_new junk n) (\<lambda>m. Inr \<lparr>t_map = m, t_table = map ptrs [0..<n]\<rparr>)"

definition Table_Get :: "int \<Rightarrow> ftable \<Rightarrow> nat option result" where
  "Table_Get i t =
     (if i \<ge> 0 \<and> i < int (length (t_table t))
      then bindE (BitMap_Test (t_map t) i) (\<lambda>b. Inr (if b then t_table t ! nat i else None))
      else Inr None)"

definition Table_Put :: "nat option \<Rightarrow> ftable \<Rightarrow> (int \<times> ftable) result" where
  "Table_Put f t =
     bindE (BitMap_Find (t_map t)) (\<lambda>(i, m).
     Inr (i, if i \<noteq> -1 then t\<lparr>t_map := m, t_table := (t_table t)[nat i := f]\<rparr> else t\<lparr>t_map := m\<rparr>))"

definition Table_Remove :: "int \<Rightarrow> ftable \<Rightarrow> (nat option \<times> ftable) result" where
  "Table_Remove i t =
     (if i \<ge> 0 \<and> i < int (length (t_table t))
      then bindE (BitMap_Test (t_map t) i) (\<lambda>b.
             if b then bindE (BitMap_Clear (t_map t) i) (\<lambda>m.
               Inr (t_table t ! nat i, t\<lparr>t_map := m, t_table := (t_table t)[nat i := None]\<rparr>))
             else Inr (None, t))
      else Inr (None, t))"

definition table_wf :: "ftable \<Rightarrow> bool" where
  "table_wf t \<longleftrightarrow> bitmap_wf (t_map t) \<and> numBits (t_map t) = length (t_table t)"

definition table_view :: "ftable \<Rightarrow> nat \<rightharpoonup> nat option" where
  "table_view t i = (if i \<in> marked (t_map t) then Some (t_table t ! i) else None)"

lemma table_view_less: "table_wf t \<Longrightarrow> table_view t i \<noteq> None \<Longrightarrow> i < length (t_table t)"
  using marked_less[of i "t_map t"] by (auto simp: table_view_def table_wf_def split: if_splits)

lemma dom_table_view: "dom (table_view t) = marked (t_map t)"
  by (auto simp: table_view_def dom_def)

lemma Table_new_ok:
  "\<exists>t. Table_new junk ptrs n = Inr t \<and> table_wf t \<and> table_view t = Map.empty \<and> length (t_table t) = n"
proof -
  obtain b where "BitMap_new junk n = Inr b" "bitmap_wf b" "numBits b = n" "marked b = {}" using BitMap_new_ex by blast
  then show ?thesis by (auto simp: Table_new_def table_wf_def table_view_def fun_eq_iff)
qed

lemma Table_Get_eq: "table_wf t \<Longrightarrow> Table_Get (int i) t = Inr (case table_view t i of None \<Rightarrow> None | Some f \<Rightarrow> f)"
  using marked_less[of i "t_map t"] by (auto simp: Table_Get_def table_view_def table_wf_def BitMap_Test_eq)

text \<open>
  a table of open files is a finite map from slots to files. Looking a slot up gives the file put
  there, and NULL where there is none; \<open>Put\<close> takes a free slot and only that, and gives -1 just when
  all are taken, with the table as it was; \<open>Remove\<close> gives the slot's file and frees the slot, and does
  nothing for a number that has none.
\<close>

theorem table_refines_map:
  assumes "table_wf t"
  shows "Table_Get (int i) t = Inr (case table_view t i of None \<Rightarrow> None | Some f \<Rightarrow> f)
    \<and> (case Table_Put g t of Inl _ \<Rightarrow> False
       | Inr (k, t') \<Rightarrow> table_wf t' \<and> length (t_table t') = length (t_table t)
           \<and> (if dom (table_view t) = {..<length (t_table t)} then k = -1 \<and> table_view t' = table_view t
              else \<exists>j. k = int j \<and> j < length (t_table t) \<and> table_view t j = None \<and> table_view t' = (table_view t)(j \<mapsto> g)))
    \<and> (case Table_Remove (int i) t of Inl _ \<Rightarrow> False
       | Inr (r, t') \<Rightarrow> table_wf t' \<and> length (t_table t') = length (t_table t)
           \<and> r = (case table_view t i of None \<Rightarrow> None | Some f \<Rightarrow> f) \<and> table_view t' = (table_view t)(i := None))"
proof (intro conjI)
  have w: "bitmap_wf (t_map t)" "numBits (t_map t) = length (t_table t)" using assms by (simp_all add: table_wf_def)
  show "Table_Get (int i) t = Inr (case table_view t i of None \<Rightarrow> None | Some f \<Rightarrow> f)" using Table_Get_eq[OF assms] .
  show "case Table_Put g t of Inl _ \<Rightarrow> False
     | Inr (k, t') \<Rightarrow> table_wf t' \<and> length (t_table t') = length (t_table t)
         \<and> (if dom (table_view t) = {..<length (t_table t)} then k = -1 \<and> table_view t' = table_view t
            else \<exists>j. k = int j \<and> j < length (t_table t) \<and> table_view t j = None \<and> table_view t' = (table_view t)(j \<mapsto> g))"
  proof (cases "card (marked (t_map t)) < numBits (t_map t)")
    case True
    then obtain j m where f: "BitMap_Find (t_map t) = Inr (int j, m)" "bitmap_wf m" "numBits m = numBits (t_map t)"
      "j < numBits (t_map t)" "j \<notin> marked (t_map t)" "marked m = insert j (marked (t_map t))"
      using bm.find_some[OF w(1)] by blast
    have "dom (table_view t) \<noteq> {..<length (t_table t)}" using f w(2) by (auto simp: dom_table_view)
    moreover have "table_view (t\<lparr>t_map := m, t_table := (t_table t)[j := g]\<rparr>) = (table_view t)(j \<mapsto> g)"
      using f w(2) by (auto simp: fun_eq_iff table_view_def)
    moreover have "table_view t j = None" using f(5) by (simp add: table_view_def)
    ultimately show ?thesis using f w by (simp add: Table_Put_def table_wf_def)
  next
    case False
    then have c: "card (marked (t_map t)) = numBits (t_map t)"
      using card_mono[OF finite_lessThan marked_bounded[of "t_map t"]] by simp
    then have "dom (table_view t) = {..<length (t_table t)}" using marked_full_iff w(2) by (metis dom_table_view)
    then show ?thesis using bm.find_none[OF w(1) c] assms by (simp add: Table_Put_def)
  qed
  show "case Table_Remove (int i) t of Inl _ \<Rightarrow> False
     | Inr (r, t') \<Rightarrow> table_wf t' \<and> length (t_table t') = length (t_table t)
         \<and> r = (case table_view t i of None \<Rightarrow> None | Some f \<Rightarrow> f) \<and> table_view t' = (table_view t)(i := None)"
  proof (cases "i \<in> marked (t_map t)")
    case True
    then have i: "i < length (t_table t)" using marked_less w(2) by metis
    obtain m where c: "BitMap_Clear (t_map t) (int i) = Inr m" "bitmap_wf m" "numBits m = numBits (t_map t)"
      "marked m = marked (t_map t) - {i}" using bm.clear_ex[OF w(1)] i w(2) by metis
    have "table_view (t\<lparr>t_map := m, t_table := (t_table t)[i := None]\<rparr>) = (table_view t)(i := None)"
      using c by (auto simp: fun_eq_iff table_view_def)
    then show ?thesis using True i c w by (simp add: Table_Remove_def BitMap_Test_eq table_wf_def) (simp add: table_view_def)
  next
    case False
    then have "(table_view t)(i := None) = table_view t" by (auto simp: fun_eq_iff table_view_def)
    then show ?thesis using False assms w by (simp add: Table_Remove_def BitMap_Test_eq) (simp add: table_view_def)
  qed
qed

lemma table_refines_map_witness:
  "\<exists>t. Table_new (\<lambda>_. 5) (\<lambda>_. Some 9) 2 = Inr t \<and> Table_Get 1 t = Inr None"
proof -
  obtain t where t: "Table_new (\<lambda>_. 5) (\<lambda>_. Some 9) 2 = Inr t" "table_wf t" "table_view t = Map.empty"
    using Table_new_ok by blast
  then show ?thesis using table_refines_map[OF t(2), of 1] by simp
qed

section \<open>The start of the virtual memory\<close>

text \<open>\<open>Initialize\<close>: the bitmap of the frames, the TLB index, \<open>n\<close> entries of the inverted page table,
  the swap file and the queue, on a new machine with a TLB.\<close>

definition vm_init :: "(nat \<Rightarrow> u32) \<Rightarrow> (nat \<Rightarrow> tentry) \<Rightarrow> nat \<Rightarrow> bool \<Rightarrow> (nat \<Rightarrow> u8 list) \<Rightarrow> vm result" where
  "vm_init junk tjunk n random fls =
     bindE (BitMap_new junk n) (\<lambda>b.
     bindE (SwapFile_new junk) (\<lambda>(m, f).
     Inr (machine.extend (Machine_new True tjunk 0 0)
       \<lparr>ipt = map (\<lambda>i. \<lparr>ip_virtualPage = -1, ip_physicalPage = int i, ip_valid = False, ip_readOnly = False,
                  ip_use = False, ip_dirty = False, ip_process = None\<rparr>) [0..<n],
        ppnInUse = b, ppnQueue = [], useRandom = random, curTLB = 0, page_tables = (\<lambda>_. []), cur_space = 0,
        swap_map = m, swap_file = f, files = fls\<rparr>)))"

text \<open>the virtual memory starts in a state where the paging invariant holds, with no page at all.\<close>

theorem vm_init_ok:
  "0 < n \<Longrightarrow> n \<le> NumPhysPages \<Longrightarrow> \<exists>s. vm_init junk tjunk n random fls = Inr s \<and> vm_ok s \<and> no_hidden s
     \<and> marked (swap_map s) = {} \<and> page_tables s = (\<lambda>_. []) \<and> files s = fls
     \<and> registers s = (\<lambda>_. 0) \<and> cur_space s = 0 \<and> tlb_valid s = {}"
proof -
  assume n: "0 < n" "n \<le> NumPhysPages"
  obtain b where b: "BitMap_new junk n = Inr b" "bitmap_wf b" "numBits b = n" "marked b = {}" using BitMap_new_ex by blast
  obtain m where m: "BitMap_new junk MAX_SWAP_PAGES = Inr m" "bitmap_wf m" "numBits m = MAX_SWAP_PAGES" "marked m = {}"
    using BitMap_new_ex by blast
  define t where t: "t = map (\<lambda>i. (tjunk i)\<lparr>valid := False\<rparr>) [0..<TLBSize]"
  have tv: "\<not> valid (t ! i)" if "i < TLBSize" for i using that by (simp add: t del: upt_rec_numeral)
  have tl: "length t = TLBSize" by (simp add: t)
  obtain s where s: "vm_init junk tjunk n random fls = Inr s" "tlb s = Some t" "pageTable s = None" "curTLB s = 0"
    "ppnInUse s = b" "ppnQueue s = []" "page_tables s = (\<lambda>_. [])" "swap_map s = m" "files s = fls" "length (ipt s) = n"
    "\<And>i. i < n \<Longrightarrow> \<not> ip_valid (ipt s ! i)" "registers s = (\<lambda>_. 0)" "cur_space s = 0"
    using b(1) m(1)
    by (simp add: vm_init_def SwapFile_new_def Machine_new_def machine.extend_def t)
  have "tables_wf s" using s m by (simp add: tables_wf_def swap_wf_def)
  moreover have "ipt_wf {} s" using s n by (simp add: ipt_wf_def)
  moreover have "tlb_wf {} s" using s tv tl by (simp add: tlb_wf_def)
  moreover have "clean_wf {} s" by (simp add: clean_wf_def)
  moreover have "frames_ok s" using s b n by (simp add: frames_ok_def)
  ultimately have "vm_ok s" using s b by (simp add: vm_ok_def core_ok_def)
  moreover have "\<not> tlb_dirty s p" for p using tlb_dirty_conv[OF s(2) tl] tv by auto
  moreover have "tlb_valid s = {}" using tv tl by (auto simp: tlb_valid_conv[OF s(2)])
  ultimately show ?thesis using s m by (simp add: no_hidden_def)
qed

lemma vm_init_ok_witness:
  "\<exists>s. vm_init (\<lambda>_. 3) (\<lambda>_. demo_entry) 1048576 False (\<lambda>_. []) = Inr s \<and> vm_ok s"
  using vm_init_ok[of NumPhysPages "\<lambda>_. 3" "\<lambda>_. demo_entry" False "\<lambda>_. []"] by auto

section \<open>A new address space\<close>

text \<open>The header of an executable (\<open>bin/noff.h\<close>): ten ints, as the file has them. What a short file
  leaves of the header is what was on the kernel's stack.\<close>

abbreviation (input) NOFFMAGIC :: u32 where "NOFFMAGIC \<equiv> 0xbadfad"
abbreviation (input) UserStackSize :: int where "UserStackSize \<equiv> 1024"

record noff =
  noffMagic :: u32
  code_inFileAddr :: u32
  code_size :: u32
  initData_size :: u32
  uninitData_size :: u32

definition noff_bytes :: "(nat \<Rightarrow> u8) \<Rightarrow> u8 list \<Rightarrow> u8 list" where
  "noff_bytes junk f = (let bs = unix_read_partial 0 40 f in bs @ map junk [length bs..<40])"

definition header_word :: "bool \<Rightarrow> u8 list \<Rightarrow> nat \<Rightarrow> u32" where
  "header_word big bs k = host_load32 big (\<lambda>i. bs ! i) (4 * k)"

definition noff_read :: "bool \<Rightarrow> u8 list \<Rightarrow> noff" where
  "noff_read big bs = \<lparr>noffMagic = header_word big bs 0, code_inFileAddr = header_word big bs 2, code_size = header_word big bs 3,
     initData_size = header_word big bs 6, uninitData_size = header_word big bs 9\<rparr>"

definition SwapHeader :: "bool \<Rightarrow> noff \<Rightarrow> noff" where
  "SwapHeader big h = \<lparr>noffMagic = WordToHost big (noffMagic h), code_inFileAddr = WordToHost big (code_inFileAddr h),
     code_size = WordToHost big (code_size h), initData_size = WordToHost big (initData_size h),
     uninitData_size = WordToHost big (uninitData_size h)\<rparr>"

definition read_header :: "bool \<Rightarrow> u8 list \<Rightarrow> noff result" where
  "read_header big bs =
     (let h = noff_read big bs;
          h1 = (if noffMagic h \<noteq> NOFFMAGIC \<and> WordToHost big (noffMagic h) = NOFFMAGIC then SwapHeader big h else h) in
      bindE (assertE (noffMagic h1 = NOFFMAGIC)) (\<lambda>_. Inr h1))"

text \<open>The macro \<open>divRoundUp\<close> on an \<open>int\<close>, and the sums of the header's sizes, which must fit.\<close>

definition pages_of :: "int \<Rightarrow> int" where
  "pages_of n = n sdiv int PageSize + (if n smod int PageSize > 0 then 1 else 0)"

definition exec_pte :: "nat \<Rightarrow> u32 \<Rightarrow> nat \<Rightarrow> ptentry" where
  "exec_pte f inFile vpn =
     \<lparr>pt_virtualPage = int vpn, pt_physicalPage = -1, pt_valid = False, pt_readOnly = False, pt_use = False, pt_dirty = False,
      pt_location = IN_EXECUTABLE, pt_executable = Some f,
      pt_byteOffset = to_int32 (uint inFile + int vpn * int PageSize), pt_swapPageIndex = -1\<rparr>"

definition zero_pte :: "nat \<Rightarrow> ptentry" where
  "zero_pte vpn =
     \<lparr>pt_virtualPage = int vpn, pt_physicalPage = -1, pt_valid = False, pt_readOnly = False, pt_use = False, pt_dirty = False,
      pt_location = NEITHER, pt_executable = None, pt_byteOffset = -1, pt_swapPageIndex = -1\<rparr>"

text \<open>
  \<open>new PageTableEntry[numPages + numStackPages]\<close> throws for a size that is negative as an \<open>int\<close> (it is
  a huge unsigned one); a code section with more pages than the array is written past its end.
\<close>

definition space_pages :: "nat \<Rightarrow> noff \<Rightarrow> ptentry list result" where
  "space_pages f h =
     (let ci = sint (code_size h) + sint (initData_size h); size = ci + sint (uninitData_size h) in
      if \<not> (in_int ci \<and> in_int size) then Inl Undefined_behaviour
      else let total = pages_of size + pages_of UserStackSize in
        if total < 0 then Inl Uncaught_exception
        else if pages_of ci < 0 \<or> pages_of ci > total then Inl Undefined_behaviour
        else Inr (map (exec_pte f (code_inFileAddr h)) [0..<nat (pages_of ci)]
                  @ map zero_pte [nat (pages_of ci)..<nat total]))"

definition AddrSpace_new :: "bool \<Rightarrow> (nat \<Rightarrow> u8) \<Rightarrow> nat \<Rightarrow> nat \<Rightarrow> 'a vm_scheme \<Rightarrow> 'a vm_scheme result" where
  "AddrSpace_new big junk f a s =
     bindE (read_header big (noff_bytes junk (files s f))) (\<lambda>h.
     bindE (space_pages f h) (\<lambda>pt. Inr (s\<lparr>page_tables := (page_tables s)(a := pt)\<rparr>)))"

text \<open>The table of open files: console input and output take the first two slots.\<close>

definition fileTable_new :: "(nat \<Rightarrow> u32) \<Rightarrow> (nat \<Rightarrow> nat option) \<Rightarrow> ftable result" where
  "fileTable_new junk ptrs =
     bindE (Table_new junk ptrs MaxOpenFiles) (\<lambda>t.
     bindE (Table_Put None t) (\<lambda>(_, t1). bindE (Table_Put None t1) (\<lambda>(_, t2). Inr t2)))"

text \<open>\<open>AllocateStack\<close>: a longer copy of the page table. The return value is the new \<open>numPages\<close>.\<close>

definition AllocateStack :: "nat \<Rightarrow> 'a vm_scheme \<Rightarrow> int \<times> 'a vm_scheme" where
  "AllocateStack a s =
     (let n = length (page_tables s a); k = nat (pages_of UserStackSize);
          pt = page_tables s a @ map zero_pte [n..<n + k] in
      (to_int32 (int (n + k)), s\<lparr>page_tables := (page_tables s)(a := pt)\<rparr>))"

fun zero_registers :: "nat list \<Rightarrow> 'a machine_scheme \<Rightarrow> 'a machine_scheme result" where
  "zero_registers [] s = Inr s"
| "zero_registers (i # is) s = bindE (WriteRegister s (int i) 0) (zero_registers is)"

definition InitRegisters :: "nat \<Rightarrow> 'a vm_scheme \<Rightarrow> 'a vm_scheme result" where
  "InitRegisters a s =
     bindE (zero_registers [0..<NumTotalRegs] s) (\<lambda>s1.
     bindE (WriteRegister s1 (int PCReg) 0) (\<lambda>s2.
     bindE (WriteRegister s2 (int NextPCReg) 4) (\<lambda>s3.
     WriteRegister s3 (int StackReg) (of_nat (length (page_tables s a)) * of_nat PageSize - 16))))"

section \<open>Adding pages\<close>

lemma extend_table:
  fixes s :: "'a vm_scheme"
  assumes ok: "vm_ok s" and s': "s' = s\<lparr>page_tables := (page_tables s)(a := page_tables s a @ es)\<rparr>"
    and len: "length (page_tables s a) + length es \<le> 2 ^ 24"
    and es: "\<forall>e\<in>set es. pte_wf s e \<and> pt_swapPageIndex e < 0"
  shows "vm_ok s'" and "x < length (page_tables s b) \<Longrightarrow> vm_page s' b x = vm_page s b x"
    and "length (page_tables s a) \<le> x \<Longrightarrow> vm_page s' a x = backing s' a x"
    and "no_hidden s' = no_hidden s"
proof -
  let ?R = "marked (ppnInUse s)"
  have core: "core_ok ?R s" using ok by (simp add: vm_ok_def)
  have parts: "tables_wf s" "ipt_wf ?R s" "tlb_wf ?R s" "clean_wf ?R s" using core by (simp_all add: core_ok_def)
  have old: "page_tables s' b ! x = page_tables s b ! x" if "x < length (page_tables s b)" for b x
    using that by (auto simp: s' nth_append)
  have in_es: "page_tables s' b ! x \<in> set es" if "x < length (page_tables s' b)" "\<not> x < length (page_tables s b)" for b x
    using that by (auto simp: s' nth_append split: if_splits)
  have pw: "pte_wf s' e = pte_wf s e" for e
    by (simp add: s' pte_wf_def slot_stored_def cong: Location.case_cong option.case_cong)
  have longer: "length (page_tables s b) \<le> length (page_tables s' b)" for b by (simp add: s')
  have idx: "x < length (page_tables s b)" if "x < length (page_tables s' b)" "pt_swapPageIndex (page_tables s' b ! x) \<ge> 0" for b x
    using in_es[OF that(1)] that(2) es by fastforce
  have "pte_wf s' (page_tables s' b ! x)" if "x < length (page_tables s' b)" for b x
    using that in_es es old[of x b] pte_wf_at[OF parts(1)] by (cases "x < length (page_tables s b)") (auto simp: pw)
  moreover have "b = c \<and> x = y" if h: "x < length (page_tables s' b)" "y < length (page_tables s' c)"
    "pt_swapPageIndex (page_tables s' b ! x) \<ge> 0" "pt_swapPageIndex (page_tables s' b ! x) = pt_swapPageIndex (page_tables s' c ! y)" for b c x y
  proof -
    have "x < length (page_tables s b)" "y < length (page_tables s c)" using idx h by simp_all
    then show ?thesis using h(3,4) old parts(1) unfolding tables_wf_def by metis
  qed
  moreover have "length (page_tables s' b) \<le> 2 ^ 24" for b using parts(1) len by (simp add: s' tables_wf_def)
  moreover have "swap_wf s'" using parts(1) by (simp add: s' tables_wf_def swap_wf_def)
  ultimately have tw: "tables_wf s'" unfolding tables_wf_def by blast
  have o: "owns s' = owns s" by (simp add: s' fun_eq_iff owns_def)
  have fr: "frame s' p = frame s p" for p by (simp add: s')
  have ff: "files s' = files s" "swap_file s' = swap_file s" by (simp_all add: s')
  have bk: "backing s' b x = backing s b x" if "x < length (page_tables s b)" for b x
    using old[OF that] ff by (intro backing_cong) (simp_all add: swap_slot_def)
  have owned: "x < length (page_tables s b)" if "p \<in> ?R" "owns s p b x" for p b x
    using parts(2) that owner_unique unfolding ipt_wf_def by blast
  have ip: "ipt s' = ipt s" by (simp add: s')
  have "\<exists>b x. owns s p b x \<and> x < length (page_tables s' b)" if pR: "p \<in> ?R" for p
  proof -
    obtain b x where "owns s p b x" "x < length (page_tables s b)" using parts(2) pR by (auto simp: ipt_wf_def)
    then show ?thesis using longer[of b] by (meson order_less_le_trans)
  qed
  then have iw: "ipt_wf ?R s'" using parts(2) by (simp add: ipt_wf_def o ip)
  have td: "tlb_dirty s' = tlb_dirty s" by (simp add: s' fun_eq_iff tlb_dirty_def)
  have "tlb_wf ?R s'" using parts(3) by (simp add: tlb_wf_def s' owns_def cong: option.case_cong)
  moreover have "clean_wf ?R s'" using parts(4) owned bk by (simp add: clean_wf_def o fr td) (simp add: s')
  ultimately have "core_ok ?R s'" using tw iw by (simp add: core_ok_def)
  then show "vm_ok s'" using ok by (simp add: vm_ok_def s' frames_ok_def)
  have R: "marked (ppnInUse s') = ?R" by (simp add: s')
  show "vm_page s' b x = vm_page s b x" if "x < length (page_tables s b)"
  unfolding R using parts(2) proof (cases rule: page_cases[of ?R s b x])
    case (resident p)
    then show "page ?R s' b x = page ?R s b x" using page_resident[OF iw, of p b x] by (simp add: o fr)
  next
    case absent
    then have "page ?R s' b x = backing s' b x" by (intro page_absent) (simp add: o)
    then show "page ?R s' b x = page ?R s b x" using absent bk[OF that] by simp
  qed
  show "vm_page s' a x = backing s' a x" if "length (page_tables s a) \<le> x"
    unfolding R using owned[of _ a x] that by (intro page_absent) (auto simp: o)
  show "no_hidden s' = no_hidden s" by (simp add: no_hidden_def td) (simp add: s')
qed

lemma zero_pte_wf: "pte_wf s (zero_pte v)" "pt_swapPageIndex (zero_pte v) < 0"
  by (simp_all add: zero_pte_def pte_wf_def)

lemma pages_of_nat: "pages_of (int n) = int (divRoundUp n PageSize)"
proof -
  have "int n mod 128 = int (n mod 128)" "int n div 128 = int (n div 128)" by (simp_all add: zdiv_int zmod_int)
  then show ?thesis by (simp add: pages_of_def divRoundUp_def sdiv_nonneg smod_nonneg)
qed

lemma stack_pages: "pages_of UserStackSize = 8"
  using pages_of_nat[of 1024] by (simp add: divRoundUp_def)

text \<open>
  the stack of a forked thread. \<open>AllocateStack\<close> adds eight zero pages to the address space and
  gives the page number behind them; every page of every address space stays as it was, and the stack
  pointer that \<open>Fork_Kernel_Thread\<close> computes from it lies in the last of the new pages.
\<close>

theorem AllocateStack_adds_zero_pages:
  fixes s :: "'a vm_scheme"
  assumes ok: "vm_ok s" and n: "n = length (page_tables s a)" "n + 8 \<le> 2 ^ 24"
  shows "\<exists>s'. AllocateStack a s = (int (n + 8), s') \<and> vm_ok s' \<and> length (page_tables s' a) = n + 8
    \<and> (\<forall>b x. x < length (page_tables s b) \<longrightarrow> vm_page s' b x = vm_page s b x)
    \<and> (\<forall>x. n \<le> x \<and> x < n + 8 \<longrightarrow> vm_page s' a x = replicate PageSize 0)
    \<and> ((n + 8) * PageSize - 16) div PageSize = n + 7"
proof -
  define s' where s': "s' = s\<lparr>page_tables := (page_tables s)(a := page_tables s a @ map zero_pte [n..<n + 8])\<rparr>"
  have run: "AllocateStack a s = (int (n + 8), s')"
    using n by (simp add: AllocateStack_def s' stack_pages in_int_def Let_def)
  have len: "length (page_tables s a) + length (map zero_pte [n..<n + 8]) \<le> 2 ^ 24" using n by simp
  have es: "\<forall>e\<in>set (map zero_pte [n..<n + 8]). pte_wf s e \<and> pt_swapPageIndex e < 0" using zero_pte_wf by auto
  note e = extend_table[OF ok s' len es]
  have l: "length (page_tables s' a) = n + 8" using n(1) by (simp add: s' del: upt_rec_numeral)
  have bk: "backing s' a x = replicate PageSize 0" if "n \<le> x" "x < n + 8" for x
    using that n(1) by (simp add: s' backing_def nth_append zero_pte_def del: upt_rec_numeral)
  have "((n + 8) * PageSize - 16) div PageSize = n + 7"
  proof -
    have "(n + 8) * PageSize - 16 = (n + 7) * PageSize + 112" by simp
    then show ?thesis by (simp only:) simp
  qed
  moreover have "vm_page s' a x = replicate PageSize 0" if "n \<le> x \<and> x < n + 8" for x
    using e(3)[of x] bk[of x] that n(1) by simp
  ultimately show ?thesis using run e(1,2) l by blast
qed

lemma AllocateStack_adds_zero_pages_witness:
  "\<exists>s'. AllocateStack 0 (demo_vm [0, 1]) = (11, s') \<and> vm_page s' 0 10 = replicate PageSize 0
     \<and> vm_page s' 0 0 = replicate PageSize 1"
proof -
  have l: "3 = length (page_tables (demo_vm [0, 1]) 0)" by (simp add: demo_vm_def)
  have "(0::nat) < 3" by simp
  then show ?thesis using AllocateStack_adds_zero_pages[OF demo_vm_ok l] demo_page0[of "[0, 1]"] l by fastforce
qed

section \<open>The program of an address space\<close>

text \<open>The header as bytes of the file: the host's byte order does not show for a file that begins with
  the magic number, least significant byte first.\<close>

lemma header_word_le: "header_word False bs k = le32 (bs ! (4 * k)) (bs ! (4 * k + 1)) (bs ! (4 * k + 2)) (bs ! (4 * k + 3))"
  using host_load32_eq[of False "\<lambda>i. bs ! i" "4 * k"] by (simp add: header_word_def WordToHost_def)

lemma header_word_swap: "WordToHost True (header_word True bs k) = header_word False bs k"
proof -
  have "WordToHost True (host_load32 True (\<lambda>i. bs ! i) (4 * k)) = WordToHost False (host_load32 False (\<lambda>i. bs ! i) (4 * k))"
    by (simp only: host_load32_eq)
  then show ?thesis by (simp add: header_word_def WordToHost_def[of False])
qed

lemma WordToHost_magic: "WordToHost True NOFFMAGIC \<noteq> NOFFMAGIC"
  by (simp add: WordToHost_def)

lemma read_header_any:
  assumes "header_word False bs 0 = NOFFMAGIC"
  shows "read_header big bs = Inr (noff_read False bs)"
proof (cases big)
  case True
  have raw: "WordToHost True (noffMagic (noff_read True bs)) = NOFFMAGIC"
    using header_word_swap[of bs 0] assms by (simp add: noff_read_def)
  then have "noffMagic (noff_read True bs) \<noteq> NOFFMAGIC" using WordToHost_magic by metis
  moreover have "SwapHeader True (noff_read True bs) = noff_read False bs"
    by (simp add: SwapHeader_def noff_read_def header_word_swap)
  ultimately show ?thesis using raw assms True by (simp add: read_header_def Let_def noff_read_def)
next
  case False
  then show ?thesis using assms by (simp add: read_header_def Let_def noff_read_def)
qed

text \<open>
  the header of an executable means the same on both kinds of host: for a file that begins with the
  magic number in the byte order of the format, reading the header gives the same sizes and offsets on
  a big-endian host, which swaps every word, as on a little-endian one.
\<close>

theorem header_byte_order:
  assumes "header_word False bs 0 = NOFFMAGIC"
  shows "read_header True bs = Inr (noff_read False bs) \<and> read_header False bs = Inr (noff_read False bs)"
  using read_header_any[OF assms] by simp

lemma exec_pte_fields:
  "pt_location (exec_pte f w v) = IN_EXECUTABLE" "pt_executable (exec_pte f w v) = Some f"
  "pt_swapPageIndex (exec_pte f w v) = -1"
  by (simp_all add: exec_pte_def)

lemma in_int_nat: "n < 2 ^ 31 \<Longrightarrow> in_int (int n)"
  by (simp add: in_int_def)

lemma space_pages_ok:
  assumes "sz < 2 ^ 31" and "sz = ci + unat (uninitData_size h)" and "ci = unat (code_size h) + unat (initData_size h)"
  shows "space_pages f h = Inr (map (exec_pte f (code_inFileAddr h)) [0..<divRoundUp ci PageSize]
    @ map zero_pte [divRoundUp ci PageSize..<divRoundUp sz PageSize + 8])"
proof -
  have s: "sint (code_size h) = int (unat (code_size h))" "sint (initData_size h) = int (unat (initData_size h))"
    "sint (uninitData_size h) = int (unat (uninitData_size h))" using assms by (simp_all add: sint_small)
  then have e: "sint (code_size h) + sint (initData_size h) = int ci"
    "int ci + sint (uninitData_size h) = int sz" using assms by simp_all
  have "ci \<le> divRoundUp sz PageSize * PageSize" using divRoundUp_covers[of PageSize sz] assms by linarith
  then have le: "divRoundUp ci PageSize \<le> divRoundUp sz PageSize" by (intro divRoundUp_le) simp_all
  have b: "in_int (int ci)" "in_int (int sz)" by (rule in_int_nat, use assms in linarith)+
  have "nat (int (divRoundUp sz PageSize) + 8) = divRoundUp sz PageSize + 8" by simp
  then show ?thesis unfolding space_pages_def e Let_def pages_of_nat stack_pages using b le by simp
qed

lemma AddrSpace_new_ok:
  fixes s :: "'a vm_scheme"
  assumes ok: "vm_ok s" and new: "page_tables s a = []"
    and magic: "header_word False (noff_bytes junk (files s f)) 0 = NOFFMAGIC"
    and h: "h = noff_read False (noff_bytes junk (files s f))"
    and ci: "ci = unat (code_size h) + unat (initData_size h)" and siz: "sz = ci + unat (uninitData_size h)" "sz < 2 ^ 31"
    and tot: "tot = divRoundUp sz PageSize + 8" "tot \<le> 2 ^ 24"
    and full: "unat (code_inFileAddr h) + divRoundUp ci PageSize * PageSize \<le> length (files s f)" "length (files s f) < 2 ^ 31"
  shows "\<exists>s'. AddrSpace_new big junk f a s = Inr s' \<and> (\<exists>pt. s' = s\<lparr>page_tables := pt\<rparr>) \<and> no_hidden s' = no_hidden s \<and> vm_ok s' \<and> length (page_tables s' a) = tot
    \<and> (\<forall>b x. x < length (page_tables s b) \<longrightarrow> vm_page s' b x = vm_page s b x)
    \<and> (\<forall>v < tot. vm_page s' a v =
         (if v < divRoundUp ci PageSize then take PageSize (drop (unat (code_inFileAddr h) + v * PageSize) (files s f))
          else replicate PageSize 0))"
proof -
  let ?c = "divRoundUp ci PageSize"
  define es where es: "es = map (exec_pte f (code_inFileAddr h)) [0..<?c] @ map zero_pte [?c..<tot]"
  define s' where s': "s' = s\<lparr>page_tables := (page_tables s)(a := page_tables s a @ es)\<rparr>"
  have "ci \<le> divRoundUp sz PageSize * PageSize" using divRoundUp_covers[of PageSize sz] siz by linarith
  then have le: "?c \<le> tot" using divRoundUp_le[of PageSize ci "divRoundUp sz PageSize"] tot(1) by simp
  have run: "AddrSpace_new big junk f a s = Inr s'"
    using read_header_any[OF magic] space_pages_ok[OF siz(2,1) ci, of f]
    by (simp add: AddrSpace_new_def h[symmetric] s' es new tot(1))
  have off: "pt_byteOffset (exec_pte f (code_inFileAddr h) v) = int (unat (code_inFileAddr h) + v * PageSize)"
    "unat (code_inFileAddr h) + v * PageSize + PageSize \<le> length (files s f)"
    "in_int (int (unat (code_inFileAddr h) + v * PageSize))" if "v < ?c" for v
  proof -
    have "Suc v * PageSize \<le> ?c * PageSize" using that by (intro mult_le_mono1) simp
    then show le: "unat (code_inFileAddr h) + v * PageSize + PageSize \<le> length (files s f)" using full(1) by simp
    then show "in_int (int (unat (code_inFileAddr h) + v * PageSize))" using full(2) by (intro in_int_nat) linarith
    then show "pt_byteOffset (exec_pte f (code_inFileAddr h) v) = int (unat (code_inFileAddr h) + v * PageSize)"
      by (simp add: exec_pte_def)
  qed
  have wf: "pte_wf s (exec_pte f (code_inFileAddr h) v) \<and> pt_swapPageIndex (exec_pte f (code_inFileAddr h) v) < 0" if "v < ?c" for v
    using off(2)[OF that] off(3)[OF that] by (simp only: pte_wf_def exec_pte_fields off(1)[OF that] nat_int Location.case option.case) simp
  have el: "length es = tot" using le by (simp add: es)
  have "\<forall>e\<in>set es. pte_wf s e \<and> pt_swapPageIndex e < 0" using wf zero_pte_wf by (auto simp: es)
  note e = extend_table[OF ok s' _ this]
  have tl: "length (page_tables s a) + length es \<le> 2 ^ 24" using new el tot(2) by simp
  have at: "page_tables s' a ! v = (if v < ?c then exec_pte f (code_inFileAddr h) v else zero_pte v)" if "v < tot" for v
    using that new by (simp add: s' es nth_append)
  have "vm_page s' a v = (if v < ?c then take PageSize (drop (unat (code_inFileAddr h) + v * PageSize) (files s f))
          else replicate PageSize 0)" if v: "v < tot" for v
  proof -
    have pg: "vm_page s' a v = backing s' a v" using e(3)[OF tl, of v] new by simp
    have ff: "files s' = files s" by (simp add: s')
    show ?thesis
    proof (cases "v < ?c")
      case True
      then have "page_tables s' a ! v = exec_pte f (code_inFileAddr h) v" using at[OF v] by simp
      then have "backing s' a v = unix_read_partial (nat (pt_byteOffset (exec_pte f (code_inFileAddr h) v))) PageSize (files s f)"
        by (simp add: backing_def exec_pte_fields ff)
      then show ?thesis using pg True by (simp only: off(1)[OF True] nat_int unix_read_partial_def if_True)
    next
      case False
      then have "page_tables s' a ! v = zero_pte v" using at[OF v] by simp
      then have "backing s' a v = replicate PageSize 0" by (simp add: backing_def zero_pte_def)
      then show ?thesis using pg False by simp
    qed
  qed
  moreover have "length (page_tables s' a) = tot" using new el by (simp add: s')
  ultimately show ?thesis using run e(1,2,4)[OF tl] s' by blast
qed

text \<open>
  C7: a new address space holds its program. For an executable in the format of the kernel, whose code
  and data pages are in the file to their end, the constructor gives a page table in which the first
  pages are those of the file, the uninitialised data and the eight pages of the stack are zero, the
  paging invariant holds, and no page of another address space has changed.
\<close>

theorem AddrSpace_holds_program:
  fixes s :: "'a vm_scheme"
  assumes ok: "vm_ok s" and new: "page_tables s a = []"
    and magic: "header_word False (noff_bytes junk (files s f)) 0 = NOFFMAGIC"
    and h: "h = noff_read False (noff_bytes junk (files s f))"
    and ci: "ci = unat (code_size h) + unat (initData_size h)" and siz: "sz = ci + unat (uninitData_size h)" "sz < 2 ^ 31"
    and tot: "tot = divRoundUp sz PageSize + 8" "tot \<le> 2 ^ 24"
    and full: "unat (code_inFileAddr h) + divRoundUp ci PageSize * PageSize \<le> length (files s f)" "length (files s f) < 2 ^ 31"
  shows "\<exists>s'. AddrSpace_new big junk f a s = Inr s' \<and> vm_ok s' \<and> length (page_tables s' a) = tot
    \<and> (\<forall>b x. x < length (page_tables s b) \<longrightarrow> vm_page s' b x = vm_page s b x)
    \<and> (\<forall>v < tot. vm_page s' a v =
         (if v < divRoundUp ci PageSize then take PageSize (drop (unat (code_inFileAddr h) + v * PageSize) (files s f))
          else replicate PageSize 0))"
  using AddrSpace_new_ok[OF assms, of big] by blast

definition demo_prog :: "u8 list" where
  "demo_prog = concat (map word_bytes [0xbadfad, 0, 40, 128, 0, 0, 0, 0, 0, 100]) @ replicate 128 9"

lemma demo_header: "noff_bytes junk demo_prog = concat (map word_bytes [0xbadfad, 0, 40, 128, 0, 0, 0, 0, 0, 100])"
  by (simp add: noff_bytes_def unix_read_partial_def demo_prog_def word_bytes_def)

lemma demo_header_words:
  "noff_read False (noff_bytes junk demo_prog) =
     \<lparr>noffMagic = 0xbadfad, code_inFileAddr = 40, code_size = 128, initData_size = 0, uninitData_size = 100\<rparr>"
  "header_word False (noff_bytes junk demo_prog) 0 = NOFFMAGIC"
  unfolding demo_header by (simp_all add: noff_read_def header_word_le word_bytes_def le32_def)

lemma AddrSpace_holds_program_witness:
  "\<exists>s s'. vm_init (\<lambda>_. 3) (\<lambda>_. demo_entry) 4 False (\<lambda>_. demo_prog) = Inr s \<and> AddrSpace_new True (\<lambda>_. 0) 0 1 s = Inr s'
     \<and> length (page_tables s' 1) = 10 \<and> vm_page s' 1 0 = replicate PageSize 9 \<and> vm_page s' 1 9 = replicate PageSize 0"
proof -
  obtain s where s: "vm_init (\<lambda>_. 3) (\<lambda>_. demo_entry) 4 False (\<lambda>_. demo_prog) = Inr s" "vm_ok s"
    "page_tables s = (\<lambda>_. [])" "files s = (\<lambda>_. demo_prog)"
    using vm_init_ok[of 4 "\<lambda>_. 3" "\<lambda>_. demo_entry" False "\<lambda>_. demo_prog"] by auto
  let ?h = "\<lparr>noffMagic = 0xbadfad, code_inFileAddr = 40, code_size = 128, initData_size = 0, uninitData_size = 100\<rparr>"
  have l: "length demo_prog = 168" by (simp add: demo_prog_def)
  have d: "take PageSize (drop 40 demo_prog) = replicate PageSize 9" by (simp add: demo_prog_def word_bytes_def)
  have "\<exists>s'. AddrSpace_new True (\<lambda>_. 0) 0 1 s = Inr s' \<and> vm_ok s' \<and> length (page_tables s' 1) = 10
    \<and> (\<forall>b x. x < length (page_tables s b) \<longrightarrow> vm_page s' b x = vm_page s b x)
    \<and> (\<forall>v < 10. vm_page s' 1 v =
         (if v < divRoundUp 128 PageSize then take PageSize (drop (unat (code_inFileAddr ?h) + v * PageSize) (files s 0))
          else replicate PageSize 0))"
    by (rule AddrSpace_holds_program[OF s(2), of 1 "\<lambda>_. 0" 0 ?h 128 228 10])
      (simp_all add: s demo_header_words l divRoundUp_def)
  then obtain s' where n: "AddrSpace_new True (\<lambda>_. 0) 0 1 s = Inr s'" "length (page_tables s' 1) = 10"
    "\<forall>v < 10. vm_page s' 1 v = (if v < divRoundUp 128 PageSize
       then take PageSize (drop (unat (code_inFileAddr ?h) + v * PageSize) (files s 0)) else replicate PageSize 0)" by blast
  have "vm_page s' 1 0 = replicate PageSize 9" "vm_page s' 1 9 = replicate PageSize 0"
    using n(3)[rule_format, of 0] n(3)[rule_format, of 9] d by (simp_all add: divRoundUp_def s)
  then show ?thesis using s(1) n(1,2) by blast
qed

section \<open>The first registers\<close>

lemma zero_registers_ok:
  "\<forall>i\<in>set is. i < NumTotalRegs \<Longrightarrow>
   zero_registers is s = Inr (s\<lparr>registers := (\<lambda>r. if r \<in> set is then 0 else registers s r)\<rparr>)"
proof (induction "is" arbitrary: s)
  case Nil
  then show ?case by simp
next
  case (Cons i "is")
  have "(\<lambda>r. if r \<in> set is then 0 else ((registers s)(i := 0)) r) = (\<lambda>r. if r = i \<or> r \<in> set is then 0 else registers s r)" by auto
  then show ?case using Cons by (simp add: WriteRegister_def cong: if_cong)
qed

text \<open>
  a program starts at address 0 with every register zero but the next program counter and the stack
  pointer, which lies in the last page of the address space, 16 bytes below its end.
\<close>

theorem InitRegisters_start:
  fixes s :: "'a vm_scheme"
  assumes n: "n = length (page_tables s a)" "0 < n" "n < 2 ^ 24"
  shows "\<exists>regs. InitRegisters a s = Inr (s\<lparr>registers := regs\<rparr>)
    \<and> (\<forall>r < NumTotalRegs. regs r = (if r = NextPCReg then 4 else if r = StackReg then of_nat (n * PageSize - 16) else 0))
    \<and> unat (regs StackReg) div PageSize = n - 1"
proof -
  let ?z = "\<lambda>r. if r \<in> set [0..<NumTotalRegs] then 0 else registers s r"
  let ?sp = "of_nat n * of_nat PageSize - 16 :: u32"
  define regs where "regs = ?z(PCReg := 0, NextPCReg := 4, StackReg := ?sp)"
  have z: "zero_registers [0..<NumTotalRegs] s = Inr (s\<lparr>registers := ?z\<rparr>)" by (rule zero_registers_ok) simp
  have run: "InitRegisters a s = Inr (s\<lparr>registers := regs\<rparr>)"
    unfolding InitRegisters_def z using n(1) by (simp add: WriteRegister_def regs_def del: upt_rec_numeral)
  have "(of_nat (n * PageSize - 16) :: u32) = of_nat (n * PageSize) - of_nat 16" by (rule of_nat_diff) (use n(2) in simp)
  then have sp: "?sp = of_nat (n * PageSize - 16)" by simp
  have "n * PageSize - 16 < 2 ^ 32" using n(3) by simp
  then have u: "unat (of_nat (n * PageSize - 16) :: u32) = n * PageSize - 16" by (simp add: unat_of_nat take_bit_nat_eq_self)
  obtain m where m: "n = Suc m" using n(2) by (cases n) auto
  have e: "n * PageSize - 16 = m * PageSize + 112" using m by simp
  have "(m * PageSize + 112) div PageSize = m" by simp
  then have d: "(n * PageSize - 16) div PageSize = n - 1" unfolding e using m by simp
  have r: "regs r = (if r = NextPCReg then 4 else if r = StackReg then of_nat (n * PageSize - 16) else 0)" if "r < NumTotalRegs" for r
    using that sp by (simp add: regs_def)
  have "regs StackReg = of_nat (n * PageSize - 16)" by (simp only: regs_def fun_upd_same sp)
  then have "unat (regs StackReg) div PageSize = n - 1" using u d by simp
  then show ?thesis using run r by blast
qed

lemma InitRegisters_start_witness:
  "\<exists>regs. InitRegisters 0 (demo_vm [0, 1]) = Inr ((demo_vm [0, 1])\<lparr>registers := regs\<rparr>) \<and> unat (regs StackReg) div PageSize = 2"
proof -
  have "3 = length (page_tables (demo_vm [0, 1]) 0)" by (simp add: demo_vm_def)
  then show ?thesis using InitRegisters_start[of 3 "demo_vm [0, 1]" 0] by auto
qed

section \<open>The last page of a program\<close>

text \<open>
  a page that the executable ends in the middle of is not filled up: behind the bytes of the file the
  frame keeps what it held before, be it of another program. The uninitialised data of a program that
  starts in that page is not zero.
\<close>

theorem partial_page_keeps_old_bytes:
  fixes s :: "'a vm_scheme"
  assumes v: "v < length (page_tables s (cur_space s))" and e: "e = page_tables s (cur_space s) ! v"
    and l: "pt_location e = IN_EXECUTABLE" "pt_executable e = Some f" "pt_byteOffset e = int off" "in_int (int off)"
    and part: "k = length (files s f) - off" "k < PageSize"
  shows "\<exists>s'. load_frame (int v) (int p) s = Inr s'
    \<and> (\<forall>i < PageSize. frame s' p ! i = (if i < k then files s f ! (off + i) else frame s p ! i))"
proof -
  let ?bs = "unix_read_partial off PageSize (files s f)"
  define s' where s': "s' = put_bytes (p * PageSize) ?bs s"
  have len: "length ?bs = k" using part by (simp add: unix_read_partial_def)
  have "load_frame (int v) (int p) s = Inr s'"
    using v e l by (simp add: load_frame_def pte_at_def seek_ok_def s')
  moreover have "frame s' p ! i = (if i < k then files s f ! (off + i) else frame s p ! i)" if "i < PageSize" for i
  proof -
    have "frame s' p ! i = (if i < k then ?bs ! i else frame s p ! i)"
      using that len part(2) by (simp add: frame_def s' put_bytes_def)
    moreover have "i < k \<Longrightarrow> ?bs ! i = files s f ! (off + i)" using that part by (simp add: unix_read_partial_def)
    ultimately show ?thesis by simp
  qed
  ultimately show ?thesis by blast
qed

lemma partial_page_keeps_old_bytes_witness:
  "\<exists>s'. load_frame 2 1 ((demo_vm [0, 1])\<lparr>files := (\<lambda>_. replicate 130 7)\<rparr>) = Inr s'
     \<and> frame s' 1 ! 1 = 7 \<and> frame s' 1 ! 2 = frame (demo_vm [0, 1]) 1 ! 2"
proof -
  let ?s = "(demo_vm [0, 1])\<lparr>files := (\<lambda>_. replicate 130 7)\<rparr>"
  have "\<exists>s'. load_frame (int 2) (int 1) ?s = Inr s'
    \<and> (\<forall>i < PageSize. frame s' 1 ! i = (if i < 2 then files ?s 0 ! (128 + i) else frame ?s 1 ! i))"
    by (rule partial_page_keeps_old_bytes[of 2 ?s _ 0 128 2 1, OF _ refl])
      (simp_all add: demo_vm_def demo_pte_def in_int_def)
  then obtain s' where "load_frame (int 2) (int 1) ?s = Inr s'"
    "\<forall>i < PageSize. frame s' 1 ! i = (if i < 2 then files ?s 0 ! (128 + i) else frame ?s 1 ! i)" by blast
  moreover have "frame ?s 1 = frame (demo_vm [0, 1]) 1" by (simp add: frame_def)
  ultimately show ?thesis by (intro exI[of _ s']) simp
qed

end
