(* ===== verification/UserCopy.thy ===== *)
theory UserCopy
  imports AddrSpace
begin

text \<open>
  \<open>copyin\<close> and \<open>copyout\<close> of \<open>userprog/exception.cc\<close>, by which every system call reads and writes the
  memory of its program, with the exception handler for page faults below them.
\<close>

section \<open>The handler of memory exceptions\<close>

text \<open>\<open>ExceptionHandler\<close> for everything but system calls. \<open>Random\<close> is a function of the state.\<close>

definition vm_exception :: "('a vm_scheme \<Rightarrow> nat) \<Rightarrow> 'a vm_scheme handler" where
  "vm_exception rnd which s =
     (if which = PageFaultException then HandlePageFault (rnd s) s else Inl Machine_halted)"

text \<open>What a page fault does not touch.\<close>

definition kept :: "'a vm_scheme \<Rightarrow> 'a vm_scheme \<Rightarrow> bool" where
  "kept s s' \<longleftrightarrow> registers s' = registers s \<and> files s' = files s \<and> status s' = status s \<and> useRandom s' = useRandom s
     \<and> cur_space s' = cur_space s \<and> vm.more s' = vm.more s"

lemma kept_refl [simp]: "kept s s"
  by (simp add: kept_def)

lemma kept_trans: "kept s s1 \<Longrightarrow> kept s1 s2 \<Longrightarrow> kept s s2"
  by (simp add: kept_def)

lemma victim_kept: "victim rnd s = Inr (p, s') \<Longrightarrow> kept s s'"
  by (auto simp: victim_def kept_def split: list.splits if_splits)

lemma inval_tlb_kept: "inval_tlb p s = Inr s' \<Longrightarrow> kept s s'"
  by (auto simp: inval_tlb_def kept_def split: option.splits if_splits)

lemma GetSwapPageIndex_kept: "GetSwapPageIndex s = Inr (i, s') \<Longrightarrow> kept s s'"
  by (auto simp: GetSwapPageIndex_def kept_def bindE_eq_Inr split: prod.splits if_splits)

lemma Store_kept: "Store i p s = Inr (n, s') \<Longrightarrow> kept s s'"
  by (auto simp: Store_def kept_def bindE_eq_Inr)

lemma Load_kept: "Load i p s = Inr (n, s') \<Longrightarrow> kept s s'"
  by (auto simp: Load_def kept_def put_bytes_def bindE_eq_Inr Let_def)

lemma set_pte_kept [simp]: "kept s (set_pte a v e s') = kept s s'"
  by (simp add: kept_def set_pte_def)

lemma set_pte_kept_left [simp]: "kept (set_pte a v e s) s' = kept s s'"
  by (simp add: kept_def set_pte_def)

lemma write_back_kept: "write_back p s = Inr s' \<Longrightarrow> kept s s'"
proof -
  assume w: "write_back p s = Inr s'"
  let ?e = "ipt s ! nat p"
  show ?thesis
  proof (cases "ip_dirty ?e")
    case False
    then show ?thesis using w by (simp add: write_back_def Let_def)
  next
    case True
    then obtain a pte i s1 n s3 where a: "ip_process ?e = Some a" "pte_at a (ip_virtualPage ?e) s = Inr pte"
      "(if pt_swapPageIndex pte < 0 then GetSwapPageIndex s else Inr (pt_swapPageIndex pte, s)) = Inr (i, s1)"
      "Store i p (set_pte a (ip_virtualPage ?e) (pte\<lparr>pt_swapPageIndex := i\<rparr>) s1) = Inr (n, s3)"
      "s' = set_pte a (ip_virtualPage ?e) (pte\<lparr>pt_swapPageIndex := i, pt_location := IN_SWAP_FILE\<rparr>) s3"
      using w by (auto simp: write_back_def Let_def split: option.splits elim!: bindE_InrE)
    have "kept s s1" using a(3) GetSwapPageIndex_kept by (auto split: if_splits)
    moreover have "kept s1 s3" using Store_kept[OF a(4)] by simp
    ultimately have "kept s s3" by (rule kept_trans)
    then show ?thesis using a(5) by simp
  qed
qed

lemma evictAPage_kept: "evictAPage rnd s = Inr (p, s') \<Longrightarrow> kept s s'"
  by (auto simp: evictAPage_def elim!: bindE_InrE dest!: victim_kept inval_tlb_kept write_back_kept intro: kept_trans)

lemma get_frame_kept: "get_frame rnd s = Inr (p, s') \<Longrightarrow> kept s s'"
proof -
  assume g: "get_frame rnd s = Inr (p, s')"
  then obtain i m s1 where a: "(if i < 0 then evictAPage rnd (s\<lparr>ppnInUse := m\<rparr>) else Inr (i, s\<lparr>ppnInUse := m\<rparr>)) = Inr (p, s1)"
    "s' = (if useRandom s1 then s1 else s1\<lparr>ppnQueue := ppnQueue s1 @ [p]\<rparr>)"
    by (auto simp: get_frame_def elim!: bindE_InrE)
  have "kept (s\<lparr>ppnInUse := m\<rparr>) s1" using a(1) evictAPage_kept by (auto split: if_splits)
  then show ?thesis using a(2) by (simp add: kept_def)
qed

lemma load_frame_kept: "load_frame v p s = Inr s' \<Longrightarrow> kept s s'"
  by (auto simp: load_frame_def put_bytes_def kept_def dest!: Load_kept split: Location.splits option.splits elim!: bindE_InrE)

lemma loadPageIntoIPT_kept: "loadPageIntoIPT rnd v s = Inr (p, s') \<Longrightarrow> kept s s'"
proof -
  assume l: "loadPageIntoIPT rnd v s = Inr (p, s')"
  then obtain s1 s2 where a: "get_frame rnd s = Inr (p, s1)" "load_frame v p s1 = Inr s2" "s' = fill_ipt v p s2"
    by (auto simp: loadPageIntoIPT_def elim!: bindE_InrE)
  then have "kept s s2" using get_frame_kept load_frame_kept kept_trans by metis
  then show ?thesis using a(3) by (simp add: kept_def fill_ipt_def)
qed

lemma propagate_kept: "propagate i s = Inr s' \<Longrightarrow> kept s s'"
  by (auto simp: propagate_def kept_def Let_def split: option.splits if_splits elim!: bindE_InrE)

lemma updateTLB_kept: "updateTLBFromIPT p s = Inr s' \<Longrightarrow> kept s s'"
proof -
  assume "updateTLBFromIPT p s = Inr s'"
  then obtain s1 where "propagate (curTLB s) s = Inr s1"
    "s' = s1\<lparr>tlb := map_option (\<lambda>t. t[curTLB s1 := tlb_entry (ipt s1 ! nat p)]) (tlb s1), curTLB := Suc (curTLB s1) mod TLBSize\<rparr>"
    by (auto simp: updateTLBFromIPT_def elim!: bindE_InrE)
  then show ?thesis using propagate_kept[of "curTLB s" s s1] by (simp add: kept_def)
qed

lemma HandlePageFault_kept: "HandlePageFault rnd s = Inr s' \<Longrightarrow> kept s s'"
proof -
  assume "HandlePageFault rnd s = Inr s'"
  then obtain v p s1 where a: "(if findIPTIndex v s < 0 then loadPageIntoIPT rnd v s else Inr (findIPTIndex v s, s)) = Inr (p, s1)"
    "updateTLBFromIPT p s1 = Inr s'"
    by (auto simp: HandlePageFault_def Let_def elim!: bindE_InrE)
  have "kept s s1" using a(1) loadPageIntoIPT_kept by (auto split: if_splits)
  then show ?thesis using updateTLB_kept[OF a(2)] kept_trans by blast
qed

section \<open>Copying\<close>

text \<open>\<open>copyin\<close> repeats a read that raised an exception until it succeeds; \<open>n\<close> bounds the repetitions.
  The return value is \<open>len\<close>; a negative \<open>len\<close> copies nothing.\<close>

primrec read_retry ::
  "bool \<Rightarrow> 'a machine_scheme handler \<Rightarrow> u32 \<Rightarrow> nat \<Rightarrow> 'a machine_scheme \<Rightarrow> (u32 \<times> 'a machine_scheme) result"
where
  "read_retry big h va 0 s = Inl Diverges"
| "read_retry big h va (Suc n) s =
     bindE (ReadMem big h va 1 s) (\<lambda>(r, s1).
     case r of Some w \<Rightarrow> Inr (w, s1) | None \<Rightarrow> read_retry big h va n s1)"

primrec copyin_loop ::
  "bool \<Rightarrow> 'a machine_scheme handler \<Rightarrow> nat \<Rightarrow> nat \<Rightarrow> u32 \<Rightarrow> 'a machine_scheme \<Rightarrow> (u8 list \<times> 'a machine_scheme) result"
where
  "copyin_loop big h n 0 va s = Inr ([], s)"
| "copyin_loop big h n (Suc k) va s =
     bindE (read_retry big h va n s) (\<lambda>(w, s1).
     bindE (copyin_loop big h n k (va + 1) s1) (\<lambda>(bs, s2). Inr (ucast w # bs, s2)))"

definition copyin ::
  "bool \<Rightarrow> 'a machine_scheme handler \<Rightarrow> nat \<Rightarrow> u32 \<Rightarrow> int \<Rightarrow> 'a machine_scheme \<Rightarrow> (int \<times> u8 list \<times> 'a machine_scheme) result"
where
  "copyin big h n va len s = bindE (copyin_loop big h n (nat len) va s) (\<lambda>(bs, s'). Inr (len, bs, s'))"

text \<open>\<open>copyout\<close> gives up at the first write that raises an exception.\<close>

primrec copyout_loop ::
  "bool \<Rightarrow> 'a machine_scheme handler \<Rightarrow> u8 list \<Rightarrow> u32 \<Rightarrow> 'a machine_scheme \<Rightarrow> (bool \<times> 'a machine_scheme) result"
where
  "copyout_loop big h [] va s = Inr (True, s)"
| "copyout_loop big h (b # bs) va s =
     bindE (WriteMem big h va 1 (scast b) s) (\<lambda>(ok, s1).
     if ok then copyout_loop big h bs (va + 1) s1 else Inr (False, s1))"

definition copyout ::
  "bool \<Rightarrow> 'a machine_scheme handler \<Rightarrow> u32 \<Rightarrow> u8 list \<Rightarrow> 'a machine_scheme \<Rightarrow> (int \<times> 'a machine_scheme) result"
where
  "copyout big h va bs s =
     bindE (copyout_loop big h bs va s) (\<lambda>(ok, s'). Inr (if ok then int (length bs) else -1, s'))"

section \<open>What an exception leaves\<close>

text \<open>The invariant and the pages see the memory, the TLB and the paging structures, and nothing else of a
  state: not the registers, the status or what an extension of the state adds.\<close>

definition same_vm :: "'a vm_scheme \<Rightarrow> 'b vm_scheme \<Rightarrow> bool" where
  "same_vm s s' \<longleftrightarrow> mainMemory s' = mainMemory s \<and> tlb s' = tlb s \<and> pageTable s' = pageTable s \<and> ipt s' = ipt s
     \<and> ppnInUse s' = ppnInUse s \<and> ppnQueue s' = ppnQueue s \<and> useRandom s' = useRandom s \<and> curTLB s' = curTLB s
     \<and> page_tables s' = page_tables s \<and> cur_space s' = cur_space s \<and> swap_map s' = swap_map s
     \<and> swap_file s' = swap_file s \<and> files s' = files s"

lemma same_vm_ok: "same_vm s s' \<Longrightarrow> vm_ok s' = vm_ok s"
  by (simp add: same_vm_def vm_ok_def core_ok_def tables_wf_def pte_wf_def swap_wf_def slot_stored_def ipt_wf_def tlb_wf_def clean_wf_def
    owns_def tlb_dirty_def frame_def backing_def swap_slot_def frames_ok_def Let_def cong: Location.case_cong option.case_cong)

lemma same_vm_page: "same_vm s s' \<Longrightarrow> page R s' = page R s"
  by ((rule ext)+) (simp add: same_vm_def page_def owns_def frame_def backing_def swap_slot_def Let_def cong: Location.case_cong option.case_cong)

lemma same_vm_small:
  "same_vm s s' \<Longrightarrow> no_hidden s' = no_hidden s" "same_vm s s' \<Longrightarrow> tlb_misses s' v = tlb_misses s v"
  "same_vm s s' \<Longrightarrow> space_left s' = space_left s" "same_vm s s' \<Longrightarrow> tlb_maps s' v p = tlb_maps s v p"
  by (simp_all add: same_vm_def no_hidden_def tlb_dirty_def tlb_misses_def tlb_valid_def space_left_def tlb_maps_def)

lemma same_vm_regs: "same_vm s (s\<lparr>registers := r\<rparr>)" "same_vm s (s\<lparr>status := st\<rparr>)"
  by (simp_all add: same_vm_def)

lemmas vm_ok_regs [simp] = same_vm_regs[THEN same_vm_ok]
lemmas vm_page_regs [simp] = same_vm_regs[THEN same_vm_page]
lemmas vm_small_regs [simp] = same_vm_regs[THEN same_vm_small(1)] same_vm_regs[THEN same_vm_small(2)]
  same_vm_regs[THEN same_vm_small(3)] same_vm_regs[THEN same_vm_small(4)]

lemma not_sacrificed:
  assumes ok: "vm_ok s" and nh: "no_hidden s"
  shows "\<not> sacrificed rnd s a v"
proof
  assume sac: "sacrificed rnd s a v"
  have w: "numBits (ppnInUse s) = length (ipt s)" "0 < length (ipt s)" using ok by (simp_all add: vm_ok_def frames_ok_def)
  then have full: "marked (ppnInUse s) = {..<length (ipt s)}" using sac marked_full_iff by (metis sacrificed_def)
  have "victim_frame rnd s < length (ipt s)"
  proof (cases "useRandom s")
    case True
    then show ?thesis using w by (simp add: victim_frame_def)
  next
    case False
    then have q: "set (ppnQueue s) = int ` {..<length (ipt s)}" using ok full by (simp add: vm_ok_def frames_ok_def)
    then have "ppnQueue s \<noteq> []" using w by fastforce
    then have "hd (ppnQueue s) \<in> int ` {..<length (ipt s)}" using q hd_in_set by blast
    then show ?thesis using False by (auto simp: victim_frame_def)
  qed
  then show False using sac nh unfolding sacrificed_def lost_def no_hidden_def by blast
qed

text \<open>Where the hardware finds an entry, and where it does not.\<close>

lemma vpn_word: "unat va < 2 ^ 31 \<Longrightarrow> va div of_nat PageSize = (of_nat (unat va div PageSize) :: u32)"
  by (rule word_unat_eq_iff[THEN iffD2]) (simp add: unat_div unat_of_nat take_bit_nat_eq_self)

lemma byte_translation:
  fixes m :: "'a vm_scheme" and va :: u32
  assumes ok: "vm_ok m" and va: "unat va < 2 ^ 31"
  shows "tlb_misses m (unat va div PageSize) \<Longrightarrow> translation m va 1 writing = (Inl PageFaultException, m)"
    and "\<not> tlb_misses m (unat va div PageSize) \<Longrightarrow> \<exists>pa m'. translation m va 1 writing = (Inr pa, m')"
proof -
  let ?v = "unat va div PageSize"
  have parts: "tlb_wf (marked (ppnInUse m)) m" "ipt_wf (marked (ppnInUse m)) m" using ok by (simp_all add: vm_ok_def core_ok_def)
  obtain t where t: "tlb m = Some t" "length t = TLBSize" using parts(1) by (auto simp: tlb_wf_def split: option.splits)
  have al: "\<not> misaligned 1 va" by (simp add: misaligned_def)
  have mem: "(\<exists>i<TLBSize. valid (t ! i) \<and> virtualPage (t ! i) = of_nat ?v) \<longleftrightarrow> \<not> tlb_misses m ?v"
    unfolding tlb_misses_def Bex_def Ball_def tlb_valid_conv[OF t(1)] t(2) by blast
  show "tlb_misses m ?v \<Longrightarrow> translation m va 1 writing = (Inl PageFaultException, m)"
  proof -
    assume "tlb_misses m ?v"
    then have "tlb_find t (va div of_nat PageSize) [0..<TLBSize] = None"
      using mem unfolding tlb_find_None vpn_word[OF va] by auto
    then show ?thesis using al t(1) by (simp add: translation_def find_entry_def del: upt_rec_numeral)
  qed
  show "\<exists>pa m'. translation m va 1 writing = (Inr pa, m')" if hit: "\<not> tlb_misses m ?v"
  proof -
    have "tlb_find t (va div of_nat PageSize) [0..<TLBSize] \<noteq> None"
      using mem hit unfolding tlb_find_None vpn_word[OF va] by auto
    then obtain i where i: "tlb_find t (va div of_nat PageSize) [0..<TLBSize] = Some i" by blast
    then have v: "i < TLBSize" "valid (t ! i)" using tlb_find_Some by fastforce+
    obtain p where p: "p \<in> marked (ppnInUse m)" "physicalPage (t ! i) = of_nat p" using tlb_wf_entry[OF parts(1) t(1) v] by blast
    have "p < NumPhysPages" using parts(2) p(1) by (force simp: ipt_wf_def)
    then have "\<not> (of_nat NumPhysPages \<le> (of_nat p :: u32))"
      by (simp add: word_le_nat_alt unat_of_nat take_bit_nat_eq_self)
    moreover have "\<not> readOnly (t ! i)" using parts(1) t v by (simp add: tlb_wf_def)
    ultimately show ?thesis using al t(1) i p(2) by (simp add: translation_def find_entry_def del: upt_rec_numeral)
  qed
qed

section \<open>One byte\<close>

definition user_byte :: "'a vm_scheme \<Rightarrow> u32 \<Rightarrow> u8" where
  "user_byte s va = vm_page s (cur_space s) (unat va div PageSize) ! (unat va mod PageSize)"

text \<open>A program whose pending load is not into the register of the faulting address.\<close>

definition load_ok :: "'a machine_scheme \<Rightarrow> bool" where
  "load_ok s \<longleftrightarrow> unat (registers s LoadReg) < BadVAddrReg"

text \<open>Two states in which every program finds the same memory.\<close>

definition same_memory :: "'a vm_scheme \<Rightarrow> 'a vm_scheme \<Rightarrow> bool" where
  "same_memory s s' \<longleftrightarrow> vm_ok s' \<and> no_hidden s' \<and> load_ok s' \<and> cur_space s' = cur_space s \<and> vm.more s' = vm.more s
     \<and> files s' = files s \<and> (\<forall>b. length (page_tables s' b) = length (page_tables s b))
     \<and> (\<forall>a x. x < length (page_tables s a) \<longrightarrow> vm_page s' a x = vm_page s a x)"

lemma same_memory_trans: "same_memory s s1 \<Longrightarrow> same_memory s1 s2 \<Longrightarrow> same_memory s s2"
  by (simp add: same_memory_def)

lemma ucast_scast_byte: "ucast (scast (b :: u8) :: u32) = b"
  by (rule bit_word_eqI) (simp add: bit_simps)

lemma read_hit:
  fixes s :: "'a vm_scheme"
  assumes ok: "vm_ok s" "no_hidden s" "load_ok s" and va: "unat va < 2 ^ 31" and hit: "\<not> tlb_misses s (unat va div PageSize)"
  obtains w s' where "ReadMem big h va 1 s = Inr (Some w, s')" "ucast w = user_byte s va" "same_memory s s'"
    "swap_map s' = swap_map s"
proof -
  obtain pa m' where tr: "translation s va 1 False = (Inr pa, m')" using byte_translation(2)[OF ok(1) va hit] by blast
  have rd: "ReadMem big h va 1 s = Inr (Some (scast (mainMemory s (unat pa))), touch (unat pa) m')"
    using ReadMem_Some[OF vm_mmu_wf[OF ok(1)] _ tr] by simp
  let ?s' = "touch (unat pa) m'"
  have l: "scast (mainMemory s (unat pa)) = load_value 1 (unat va mod PageSize) (vm_page s (cur_space s) (unat va div PageSize))
    \<and> vm_ok ?s' \<and> vm_page ?s' = vm_page s \<and> (no_hidden s \<longrightarrow> no_hidden ?s')
    \<and> cur_space ?s' = cur_space s \<and> page_tables ?s' = page_tables s \<and> swap_map ?s' = swap_map s"
    by (rule load_page[OF ok(1) _ rd]) simp
  have fr: "registers m' = registers s" "machine.more m' = machine.more s" using translation_frame[OF vm_mmu_wf[OF ok(1)] tr] by simp_all
  have mo: "files m' = files s" "vm.more m' = vm.more s"
    using fr(2) by (cases m' rule: vm.cases_scheme, cases s rule: vm.cases_scheme, simp)+
  have "same_memory s ?s'"
    using l ok(2,3) fr(1) mo by (simp add: same_memory_def load_ok_def touch_def)
  moreover have "ucast (scast (mainMemory s (unat pa)) :: u32) = user_byte s va"
    using l by (simp add: load_value_def user_byte_def ucast_scast_byte)
  ultimately show ?thesis using that[OF rd] l by blast
qed

lemma raise_page_fault:
  fixes s :: "'a vm_scheme"
  assumes ok: "vm_ok s" "no_hidden s" "load_ok s" and sp: "space_left s" and va: "unat va < 2 ^ 31"
    and v: "unat va div PageSize < length (page_tables s (cur_space s))" and miss: "tlb_misses s (unat va div PageSize)"
  obtains s' where "RaiseException (vm_exception rnd) PageFaultException va s = Inr s'" "same_memory s s'"
    "\<not> tlb_misses s' (unat va div PageSize)" "card (marked (swap_map s')) \<le> Suc (card (marked (swap_map s)))"
proof -
  let ?v = "unat va div PageSize"
  define regs where "regs = ((((registers s)(BadVAddrReg := va))(unat (registers s LoadReg) := registers s LoadValueReg))
    (LoadReg := 0, LoadValueReg := 0))(0 := 0)"
  have d: "DelayedLoad 0 0 (set_reg s BadVAddrReg va) = Inr (s\<lparr>registers := regs\<rparr>)"
    using ok(3) by (simp add: DelayedLoad_def load_ok_def regs_def Let_def)
  have r: "regs BadVAddrReg = va" "regs LoadReg = 0" using ok(3) by (auto simp: regs_def load_ok_def)
  let ?s1 = "s\<lparr>registers := regs, status := SystemMode\<rparr>"
  have 1: "vm_ok ?s1" "space_left ?s1" "unat (registers ?s1 BadVAddrReg) < 2 ^ 31" "?v = unat (registers ?s1 BadVAddrReg) div PageSize"
    "?v < length (page_tables ?s1 (cur_space ?s1))" "tlb_misses ?s1 ?v" "no_hidden ?s1"
    using ok sp va v miss r by simp_all
  obtain s2 p where h: "HandlePageFault (rnd ?s1) ?s1 = Inr s2" "vm_ok s2" "tlb_maps s2 ?v p"
    "frame s2 p = vm_page s2 (cur_space ?s1) ?v"
    "\<And>a x. x < length (page_tables ?s1 a) \<Longrightarrow> vm_page s2 a x =
         (if findIPTIndex (int ?v) ?s1 < 0 \<and> sacrificed (rnd ?s1) ?s1 a x then backing ?s1 a x else vm_page ?s1 a x)"
    "no_hidden ?s1 \<Longrightarrow> no_hidden s2" "card (marked (swap_map s2)) \<le> Suc (card (marked (swap_map ?s1)))"
    "\<And>b. length (page_tables s2 b) = length (page_tables ?s1 b)" "cur_space s2 = cur_space ?s1"
    by (rule HandlePageFault_ok[OF 1(1-6), of "rnd ?s1"]) (rule that, assumption+)
  have k: "kept ?s1 s2" by (rule HandlePageFault_kept[OF h(1)])
  let ?s' = "s2\<lparr>status := UserMode\<rparr>"
  have run: "RaiseException (vm_exception rnd) PageFaultException va s = Inr ?s'"
    using d h(1) by (simp add: RaiseException_def vm_exception_def)
  have pg: "vm_page s2 a x = vm_page s a x" if "x < length (page_tables s a)" for a x
    using h(5)[of x a] that not_sacrificed[OF 1(1,7)] by simp
  have "same_memory s ?s'"
    using h(2,6,8,9) 1(7) k pg r by (simp add: same_memory_def load_ok_def kept_def)
  moreover have "\<not> tlb_misses ?s' ?v"
    using h(3) by (auto simp: tlb_maps_def tlb_misses_def tlb_valid_def split: option.splits)
  ultimately show ?thesis using that[OF run] h(7) by simp
qed

lemma read_retry_ok:
  fixes s :: "'a vm_scheme"
  assumes ok: "vm_ok s" "no_hidden s" "load_ok s" and sp: "space_left s" and va: "unat va < 2 ^ 31"
    and v: "unat va div PageSize < length (page_tables s (cur_space s))" and n: "2 \<le> n"
  obtains w s' where "read_retry big (vm_exception rnd) va n s = Inr (w, s')" "ucast w = user_byte s va"
    "same_memory s s'" "card (marked (swap_map s')) \<le> Suc (card (marked (swap_map s)))"
proof -
  obtain m where m: "n = Suc (Suc m)" using n by (metis add_2_eq_Suc le_Suc_ex)
  show ?thesis
  proof (cases "tlb_misses s (unat va div PageSize)")
    case False
    obtain w s' where "ReadMem big (vm_exception rnd) va 1 s = Inr (Some w, s')" "ucast w = user_byte s va" "same_memory s s'"
      "swap_map s' = swap_map s" by (rule read_hit[OF ok va False]) (rule that, assumption+)
    then show ?thesis by (intro that[of w s']) (simp_all add: m)
  next
    case True
    obtain s1 where r: "RaiseException (vm_exception rnd) PageFaultException va s = Inr s1" "same_memory s s1"
      "\<not> tlb_misses s1 (unat va div PageSize)" "card (marked (swap_map s1)) \<le> Suc (card (marked (swap_map s)))"
      by (rule raise_page_fault[OF ok sp va v True]) (rule that, assumption+)
    have first: "ReadMem big (vm_exception rnd) va 1 s = Inr (None, s1)"
      using byte_translation(1)[OF ok(1) va True, of False] r(1)
      by (simp add: ReadMem_def Translate_eq[OF vm_mmu_wf[OF ok(1)]])
    have ok1: "vm_ok s1" "no_hidden s1" "load_ok s1" using r(2) by (simp_all add: same_memory_def)
    obtain w s' where "ReadMem big (vm_exception rnd) va 1 s1 = Inr (Some w, s')" "ucast w = user_byte s1 va" "same_memory s1 s'"
      "swap_map s' = swap_map s1" by (rule read_hit[OF ok1 va r(3)]) (rule that, assumption+)
    moreover have "user_byte s1 va = user_byte s va" using r(2) v by (simp add: user_byte_def same_memory_def)
    ultimately show ?thesis using first r(4) same_memory_trans[OF r(2)]
      by (intro that[of w s']) (simp_all add: m)
  qed
qed

section \<open>Whole buffers\<close>

lemma copyin_loop_ok:
  fixes s :: "'a vm_scheme"
  assumes "vm_ok s" "no_hidden s" "load_ok s" and "card (marked (swap_map s)) + k \<le> MAX_SWAP_PAGES"
    and "unat va + k \<le> length (page_tables s (cur_space s)) * PageSize" and "2 \<le> n"
  shows "\<exists>s'. copyin_loop big (vm_exception rnd) n k va s
      = Inr (map (\<lambda>i. user_byte s (va + of_nat i)) [0..<k], s') \<and> same_memory s s'"
  using assms
proof (induction k arbitrary: s va)
  case 0
  then show ?case by (simp add: same_memory_def)
next
  case (Suc k)
  have tl: "length (page_tables s (cur_space s)) \<le> 2 ^ 24"
    using Suc.prems(1) by (simp add: vm_ok_def core_ok_def tables_wf_def)
  have va: "unat va < 2 ^ 31" using Suc.prems(5) tl by simp
  have v: "unat va div PageSize < length (page_tables s (cur_space s))"
    using Suc.prems(5) by (intro less_mult_imp_div_less) linarith
  have sp: "space_left s" using Suc.prems(4) by (simp add: space_left_def)
  obtain w s1 where r: "read_retry big (vm_exception rnd) va n s = Inr (w, s1)" "ucast w = user_byte s va"
    "same_memory s s1" "card (marked (swap_map s1)) \<le> Suc (card (marked (swap_map s)))"
    by (rule read_retry_ok[OF Suc.prems(1-3) sp va v Suc.prems(6)]) (rule that, assumption+)
  have "unat va + 1 < 2 ^ 32" using va by simp
  then have u: "unat (va + 1) = unat va + 1" by (simp add: unat_plus_if_size word_size)
  obtain s2 where c: "copyin_loop big (vm_exception rnd) n k (va + 1) s1
      = Inr (map (\<lambda>i. user_byte s1 (va + 1 + of_nat i)) [0..<k], s2)" "same_memory s1 s2"
    using Suc.IH[of s1 "va + 1"] r(3,4) Suc.prems(4-6) u by (auto simp: same_memory_def)
  have eq: "user_byte s1 (va + 1 + of_nat i) = user_byte s (va + of_nat (Suc i))" if "i < k" for i
  proof -
    have b: "unat va + Suc i < 2 ^ 32" using that Suc.prems(5) tl by simp
    then have "unat (of_nat (Suc i) :: u32) = Suc i" by (simp only: unat_of_nat) (simp add: take_bit_nat_eq_self)
    then have "unat (va + of_nat (Suc i)) = unat va + Suc i" using b by (simp add: unat_plus_if_size word_size)
    then have "unat (va + of_nat (Suc i)) div PageSize < length (page_tables s (cur_space s))"
      using that Suc.prems(5) by (intro less_mult_imp_div_less) simp
    moreover have "va + 1 + of_nat i = va + of_nat (Suc i)" by simp
    ultimately show ?thesis using r(3) unfolding user_byte_def same_memory_def by metis
  qed
  have "map (\<lambda>i. user_byte s (va + of_nat i)) [0..<Suc k] = user_byte s va # map (\<lambda>i. user_byte s (va + of_nat (Suc i))) [0..<k]"
    by (subst upt_conv_Cons) (simp_all add: map_Suc_upt[symmetric] comp_def del: upt_Suc)
  then show ?case using r c eq same_memory_trans[OF r(3) c(2)] by (intro exI[of _ s2]) (simp del: upt_Suc)
qed

text \<open>
  \<open>copyin\<close> reads the program's memory. When the bytes asked for lie in the address space, no dirty bit
  is held by the TLB alone and the swap file has a free slot for each byte, \<open>copyin\<close> returns with exactly
  those bytes, whatever pages had to be brought in and whatever was evicted for them, and with it every
  page of every address space is as it was; no read is repeated more than once.
\<close>

theorem copyin_reads_memory:
  fixes s :: "'a vm_scheme"
  assumes "vm_ok s" "no_hidden s" "load_ok s" and "card (marked (swap_map s)) + k \<le> MAX_SWAP_PAGES"
    and "unat va + k \<le> length (page_tables s (cur_space s)) * PageSize" and "2 \<le> n"
  shows "\<exists>s'. copyin big (vm_exception rnd) n va (int k) s
      = Inr (int k, map (\<lambda>i. user_byte s (va + of_nat i)) [0..<k], s') \<and> same_memory s s'"
  using copyin_loop_ok[OF assms, of big rnd] by (auto simp: copyin_def)

text \<open>The first byte's page is not in the TLB.\<close>

lemma copyout_loop_fault:
  fixes s :: "'a vm_scheme"
  assumes ok: "vm_ok s" "no_hidden s" "load_ok s" and sp: "space_left s" and va: "unat va < 2 ^ 31"
    and v: "unat va div PageSize < length (page_tables s (cur_space s))" and miss: "tlb_misses s (unat va div PageSize)"
    and bs: "bs \<noteq> []"
  obtains s' where "copyout_loop big (vm_exception rnd) bs va s = Inr (False, s')" "same_memory s s'"
    "\<not> tlb_misses s' (unat va div PageSize)"
proof -
  obtain s1 where r: "RaiseException (vm_exception rnd) PageFaultException va s = Inr s1" "same_memory s s1"
    "\<not> tlb_misses s1 (unat va div PageSize)" "card (marked (swap_map s1)) \<le> Suc (card (marked (swap_map s)))"
    by (rule raise_page_fault[OF ok sp va v miss]) (rule that, assumption+)
  have "WriteMem big (vm_exception rnd) va 1 w s = Inr (False, s1)" for w
    using byte_translation(1)[OF ok(1) va miss, of True] r(1)
    by (simp add: WriteMem_def Translate_eq[OF vm_mmu_wf[OF ok(1)]])
  then show ?thesis using bs by (intro that[OF _ r(2,3)]) (cases bs; simp)
qed

text \<open>
  \<open>copyout\<close> does not survive a page fault. When the first byte's page is not in the TLB, the handler
  brings the page in, but \<open>copyout\<close> gives up with -1 and writes nothing: every page is as it was.
\<close>

theorem copyout_gives_up_on_fault:
  fixes s :: "'a vm_scheme"
  assumes ok: "vm_ok s" "no_hidden s" "load_ok s" and sp: "space_left s" and va: "unat va < 2 ^ 31"
    and v: "unat va div PageSize < length (page_tables s (cur_space s))" and miss: "tlb_misses s (unat va div PageSize)"
  shows "\<exists>s'. copyout big (vm_exception rnd) va (b # bs) s = Inr (-1, s') \<and> same_memory s s'
    \<and> \<not> tlb_misses s' (unat va div PageSize)"
proof -
  obtain s' where "copyout_loop big (vm_exception rnd) (b # bs) va s = Inr (False, s')" "same_memory s s'"
    "\<not> tlb_misses s' (unat va div PageSize)"
    by (rule copyout_loop_fault[OF ok sp va v miss, of "b # bs"]) (simp, rule that, assumption+)
  then show ?thesis by (simp add: copyout_def)
qed

section \<open>Writing where the pages are\<close>

lemma write_hit:
  fixes s :: "'a vm_scheme"
  assumes ok: "vm_ok s" and va: "unat va < 2 ^ 31" and hit: "\<not> tlb_misses s (unat va div PageSize)"
  obtains s' where "WriteMem big h va 1 (scast b) s = Inr (True, s')" "vm_ok s'" "tlb_misses s' = tlb_misses s"
    "cur_space s' = cur_space s" "vm.more s' = vm.more s" "files s' = files s"
    "\<And>a x. vm_page s' a x = (if a = cur_space s \<and> x = unat va div PageSize
       then overlay (unat va mod PageSize) [b] (vm_page s a x) else vm_page s a x)"
proof -
  obtain pa m' where tr: "translation s va 1 True = (Inr pa, m')" using byte_translation(2)[OF ok va hit] by blast
  have one: "(1::nat) \<in> {1, 2, 4}" by simp
  obtain t i p where a: "tlb s = Some t" "i < TLBSize" "valid (t ! i)" "physicalPage (t ! i) = of_nat p"
    "p \<in> marked (ppnInUse s)" "owns s p (cur_space s) (unat va div PageSize)"
    "unat pa = p * PageSize + unat va mod PageSize" "unat va mod PageSize + 1 \<le> PageSize"
    "m' = s\<lparr>tlb := Some (t[i := (t ! i)\<lparr>use := True, dirty := dirty (t ! i) \<or> True\<rparr>])\<rparr>"
    by (rule vm_access[OF ok one tr]) (rule that, assumption+)
  let ?s' = "touch (unat pa) (m'\<lparr>mainMemory := stored 1 (scast b) (unat pa) (mainMemory s)\<rparr>)"
  have w: "WriteMem big h va 1 (scast b) s = Inr (True, ?s')" using WriteMem_True[OF vm_mmu_wf[OF ok] one tr] by simp
  have len: "length t = TLBSize" using ok a(1) by (simp add: vm_ok_def core_ok_def tlb_wf_def)
  have e: "take 1 (word_bytes (scast b)) = [b]" by (simp add: word_bytes_def ucast_scast_byte)
  have pg: "vm_ok ?s' \<and> vm_page ?s' a x = (if a = cur_space s \<and> x = unat va div PageSize
       then overlay (unat va mod PageSize) [b] (vm_page s a x) else vm_page s a x)" for a x
    using store_page[OF ok one w, of a x] unfolding e .
  let ?t = "t[i := (t ! i)\<lparr>use := True, dirty := dirty (t ! i) \<or> True\<rparr>]"
  have tl: "tlb ?s' = Some ?t" by (simp add: a(9) touch_def)
  have at: "valid (?t ! j) = valid (t ! j) \<and> virtualPage (?t ! j) = virtualPage (t ! j)" for j
    using a(2) len by (cases "j = i") simp_all
  have "tlb_misses ?s' v = tlb_misses s v" for v
    unfolding tlb_misses_def Ball_def tlb_valid_conv[OF tl] tlb_valid_conv[OF a(1)] using at by auto
  then have tm: "tlb_misses ?s' = tlb_misses s" by (rule ext)
  show ?thesis by (rule that[OF w _ tm]) (use pg in \<open>simp_all add: a(9) touch_def\<close>)
qed

lemma user_byte_overlay:
  assumes "length p = PageSize" and "o1 < PageSize" and "o2 < PageSize"
  shows "overlay o1 [b] p ! o2 = (if o2 = o1 then b else p ! o2)"
  using nth_overlay[of o1 "[b]" p o2] assms by auto

lemma length_vm_page: "vm_ok s \<Longrightarrow> x < length (page_tables s a) \<Longrightarrow> length (vm_page s a x) = PageSize"
proof -
  assume ok: "vm_ok s" and x: "x < length (page_tables s a)"
  have w: "ipt_wf (marked (ppnInUse s)) s" "tables_wf s" using ok by (simp_all add: vm_ok_def core_ok_def)
  show ?thesis using w(1) by (cases rule: page_cases[of "marked (ppnInUse s)" s a x]) (use length_backing[OF w(2) x] in simp_all)
qed

lemma hit_in_table:
  fixes s :: "'a vm_scheme" and va :: u32
  assumes ok: "vm_ok s" and va: "unat va < 2 ^ 31" and hit: "\<not> tlb_misses s (unat va div PageSize)"
  shows "length (vm_page s (cur_space s) (unat va div PageSize)) = PageSize"
proof -
  obtain pa m' where tr: "translation s va 1 False = (Inr pa, m')" using byte_translation(2)[OF ok va hit] by blast
  have one: "(1::nat) \<in> {1, 2, 4}" by simp
  obtain p where "p \<in> marked (ppnInUse s)" "owns s p (cur_space s) (unat va div PageSize)"
    by (rule vm_access[OF ok one tr]) (rule that, assumption+)
  then have "vm_page s (cur_space s) (unat va div PageSize) = frame s p"
    using ok page_resident by (metis vm_ok_def core_ok_def)
  then show ?thesis by simp
qed

text \<open>Bytes written to a range whose pages are all in the TLB.\<close>

lemma copyout_loop_hit:
  fixes s :: "'a vm_scheme"
  assumes "vm_ok s" and "unat va + length bs \<le> 2 ^ 31" and "\<forall>j < length bs. \<not> tlb_misses s ((unat va + j) div PageSize)"
  shows "\<exists>s'. copyout_loop big h bs va s = Inr (True, s') \<and> vm_ok s' \<and> cur_space s' = cur_space s \<and> vm.more s' = vm.more s
    \<and> files s' = files s \<and> (\<forall>a x. a \<noteq> cur_space s \<longrightarrow> vm_page s' a x = vm_page s a x)
    \<and> (\<forall>u. user_byte s' u = (if unat va \<le> unat u \<and> unat u < unat va + length bs then bs ! (unat u - unat va) else user_byte s u))"
  using assms
proof (induction bs arbitrary: va s)
  case Nil
  then show ?case by auto
next
  case (Cons b bs)
  have va: "unat va < 2 ^ 31" using Cons.prems(2) by simp
  have hit: "\<not> tlb_misses s (unat va div PageSize)" using Cons.prems(3)[rule_format, of 0] by simp
  obtain s1 where w: "WriteMem big h va 1 (scast b) s = Inr (True, s1)" "vm_ok s1" "tlb_misses s1 = tlb_misses s"
    "cur_space s1 = cur_space s" "vm.more s1 = vm.more s" "files s1 = files s"
    "\<And>a x. vm_page s1 a x = (if a = cur_space s \<and> x = unat va div PageSize
       then overlay (unat va mod PageSize) [b] (vm_page s a x) else vm_page s a x)"
    by (rule write_hit[OF Cons.prems(1) va hit]) (rule that, assumption+)
  have "unat va + 1 < 2 ^ 32" using va by simp
  then have u: "unat (va + 1) = unat va + 1" by (simp add: unat_plus_if_size word_size)
  have "\<forall>j < length bs. \<not> tlb_misses s1 ((unat (va + 1) + j) div PageSize)"
  proof (intro allI impI)
    fix j assume "j < length bs"
    then show "\<not> tlb_misses s1 ((unat (va + 1) + j) div PageSize)" using Cons.prems(3)[rule_format, of "Suc j"] u w(3) by simp
  qed
  then obtain s' where c: "copyout_loop big h bs (va + 1) s1 = Inr (True, s')" "vm_ok s'" "cur_space s' = cur_space s1"
    "vm.more s' = vm.more s1" "files s' = files s1" "\<forall>a x. a \<noteq> cur_space s1 \<longrightarrow> vm_page s' a x = vm_page s1 a x"
    "\<forall>x. user_byte s' x = (if unat (va + 1) \<le> unat x \<and> unat x < unat (va + 1) + length bs
       then bs ! (unat x - unat (va + 1)) else user_byte s1 x)"
    using Cons.IH[of s1 "va + 1"] w(2) Cons.prems(2) u by auto
  have one: "user_byte s1 x = (if x = va then b else user_byte s x)" for x
  proof (cases "unat x div PageSize = unat va div PageSize")
    case True
    have "x = va \<longleftrightarrow> unat x mod PageSize = unat va mod PageSize"
      using True by (metis div_mult_mod_eq word_unat_eq_iff)
    then show ?thesis
      using True w(4,7) user_byte_overlay[OF hit_in_table[OF Cons.prems(1) va hit], of "unat va mod PageSize" "unat x mod PageSize" b]
      by (simp add: user_byte_def)
  next
    case False
    then show ?thesis using w(4,7) by (auto simp: user_byte_def)
  qed
  have "user_byte s' x = (if unat va \<le> unat x \<and> unat x < unat va + length (b # bs) then (b # bs) ! (unat x - unat va) else user_byte s x)" for x
  proof -
    consider "x = va" | "unat x < unat va" | "unat va < unat x" by (metis linorder_neqE_nat word_unat_eq_iff)
    then show ?thesis
    proof cases
      case 3
      then have "unat x - unat va = Suc (unat x - Suc (unat va))" "x \<noteq> va" by auto
      then show ?thesis using 3 c(7) one[of x] u by simp
    qed (use c(7) one u in auto)
  qed
  then show ?case using w(1,4,5,6,7) c by auto
qed

section \<open>A program that has just started\<close>

lemma demo_started:
  obtains s :: vm where "vm_ok s" "no_hidden s" "load_ok s" "marked (swap_map s) = {}" "cur_space s = 0"
    "length (page_tables s 0) = 10" "vm_page s 0 0 = replicate PageSize 9" "tlb_misses s 0" "files s = (\<lambda>_. demo_prog)"
proof -
  have pos: "(0::nat) < 4" "4 \<le> NumPhysPages" by simp_all
  obtain s0 where s0: "vm_init (\<lambda>_. 3) (\<lambda>_. demo_entry) 4 False (\<lambda>_. demo_prog) = Inr s0" "vm_ok s0" "no_hidden s0"
    "marked (swap_map s0) = {}" "page_tables s0 = (\<lambda>_. [])" "files s0 = (\<lambda>_. demo_prog)"
    "registers s0 = (\<lambda>_. 0)" "cur_space s0 = 0" "tlb_valid s0 = {}"
    using vm_init_ok[OF pos, of "\<lambda>_. 3" "\<lambda>_. demo_entry" False "\<lambda>_. demo_prog"] by auto
  let ?h = "\<lparr>noffMagic = 0xbadfad, code_inFileAddr = 40, code_size = 128, initData_size = 0, uninitData_size = 100\<rparr>"
  have l: "length demo_prog = 168" by (simp add: demo_prog_def)
  have d: "take PageSize (drop 40 demo_prog) = replicate PageSize 9" by (simp add: demo_prog_def word_bytes_def)
  have "\<exists>s'. AddrSpace_new True (\<lambda>_. 0) 0 0 s0 = Inr s' \<and> (\<exists>pt. s' = s0\<lparr>page_tables := pt\<rparr>) \<and> no_hidden s' = no_hidden s0
    \<and> vm_ok s' \<and> length (page_tables s' 0) = 10
    \<and> (\<forall>b x. x < length (page_tables s0 b) \<longrightarrow> vm_page s' b x = vm_page s0 b x)
    \<and> (\<forall>v < 10. vm_page s' 0 v =
         (if v < divRoundUp 128 PageSize then take PageSize (drop (unat (code_inFileAddr ?h) + v * PageSize) (files s0 0))
          else replicate PageSize 0))"
    by (rule AddrSpace_new_ok[OF s0(2), of 0 "\<lambda>_. 0" 0 ?h 128 228 10])
      (simp_all add: s0 demo_header_words l divRoundUp_def)
  then obtain s pt where s: "s = s0\<lparr>page_tables := pt\<rparr>" "no_hidden s = no_hidden s0" "vm_ok s" "length (page_tables s 0) = 10"
    "\<forall>v < 10. vm_page s 0 v = (if v < divRoundUp 128 PageSize
       then take PageSize (drop (unat (code_inFileAddr ?h) + v * PageSize) (files s0 0)) else replicate PageSize 0)" by blast
  have "vm_page s 0 0 = replicate PageSize 9"
    using s(5)[rule_format, of 0] d by (simp add: divRoundUp_def s0)
  moreover have "tlb_valid s = {}" using s0(9) by (simp add: s(1) tlb_valid_def)
  ultimately show ?thesis
    using s(2-4) s0 by (intro that[of s]) (simp_all add: s(1) load_ok_def tlb_misses_def)
qed

lemma copyin_reads_memory_witness:
  "\<exists>(s :: vm) s'. copyin True (vm_exception (\<lambda>_. 0)) 2 0 (int 2) s = Inr (int 2, [9, 9], s')"
proof -
  obtain s :: vm where s: "vm_ok s" "no_hidden s" "load_ok s" "marked (swap_map s) = {}" "cur_space s = 0"
    "length (page_tables s 0) = 10" "vm_page s 0 0 = replicate PageSize 9" "tlb_misses s 0" by (rule demo_started)
  have "\<exists>s'. copyin True (vm_exception (\<lambda>_. 0)) 2 0 (int 2) s
      = Inr (int 2, map (\<lambda>i. user_byte s (0 + of_nat i)) [0..<2], s') \<and> same_memory s s'"
    by (rule copyin_reads_memory[OF s(1-3)]) (simp_all add: s)
  moreover have "map (\<lambda>i. user_byte s (0 + of_nat i)) [0..<2] = [9, 9]"
    by (simp add: user_byte_def s numeral_2_eq_2)
  ultimately show ?thesis by auto
qed

lemma copyout_gives_up_on_fault_witness:
  "\<exists>(s :: vm) s'. copyout True (vm_exception (\<lambda>_. 0)) 0 [1, 2, 3] s = Inr (-1, s') \<and> vm_page s' 0 0 = replicate PageSize 9"
proof -
  obtain s :: vm where s: "vm_ok s" "no_hidden s" "load_ok s" "marked (swap_map s) = {}" "cur_space s = 0"
    "length (page_tables s 0) = 10" "vm_page s 0 0 = replicate PageSize 9" "tlb_misses s 0" by (rule demo_started)
  have "\<exists>s'. copyout True (vm_exception (\<lambda>_. 0)) 0 (1 # [2, 3]) s = Inr (-1, s') \<and> same_memory s s'
    \<and> \<not> tlb_misses s' (unat (0 :: u32) div PageSize)"
    by (rule copyout_gives_up_on_fault[OF s(1-3)]) (simp_all add: s space_left_def)
  then obtain s' where c: "copyout True (vm_exception (\<lambda>_. 0)) 0 [1, 2, 3] s = Inr (-1, s')" "same_memory s s'" by blast
  then have "vm_page s' 0 0 = replicate PageSize 9" using s(6,7) by (simp add: same_memory_def)
  then show ?thesis using c(1) by blast
qed

end
