(* ===== verification/FileCalls.thy ===== *)
theory FileCalls
  imports UserCopy MipsSim
begin

text \<open>
  The system calls on files and the console (\<open>userprog/exception.cc\<close>), on the file system of the host
  (\<open>FILESYS_STUB\<close>, \<open>machine/sysdep.cc\<close>), and the dispatch of the system calls in
  \<open>ExceptionHandler\<close>.
\<close>

section \<open>State\<close>

text \<open>An \<open>OpenFile\<close> object is a number; it has a file of the host and a \<open>currentOffset\<close>. \<open>names\<close> is the
  directory of the host, with the number of each file in \<open>files\<close>.\<close>

record kproc = vm +
  fileTables :: "nat \<Rightarrow> ftable"
  ofile :: "nat \<Rightarrow> nat \<times> int"
  next_obj :: nat
  names :: "u8 list \<Rightarrow> nat option"
  next_file :: nat
  con_out :: "u8 list"

abbreviation (input) ConsoleInput :: int where "ConsoleInput \<equiv> 0"
abbreviation (input) ConsoleOutput :: int where "ConsoleOutput \<equiv> 1"

text \<open>\<open>new char[n]\<close> throws for a negative \<open>n\<close>.\<close>

definition new_chars :: "int \<Rightarrow> unit result" where
  "new_chars n =
     (if \<not> in_int n then Inl Undefined_behaviour else if n < 0 then Inl Uncaught_exception else Inr ())"

section \<open>The host's file system\<close>

text \<open>\<open>OpenForWrite\<close> asserts that the host creates or truncates the file; which names it refuses
  (\<open>can_create\<close>) is the host's business. \<open>OpenForReadWrite\<close> gives -1 for a file that is not there.\<close>

definition host_Create :: "(u8 list \<Rightarrow> bool) \<Rightarrow> u8 list \<Rightarrow> 'a kproc_scheme \<Rightarrow> 'a kproc_scheme result" where
  "host_Create can_create name s =
     bindE (assertE (can_create name)) (\<lambda>_.
     case names s name of
       Some f \<Rightarrow> Inr (s\<lparr>files := (files s)(f := [])\<rparr>)
     | None \<Rightarrow> Inr (s\<lparr>names := (names s)(name := Some (next_file s)), files := (files s)(next_file s := []),
                      next_file := Suc (next_file s)\<rparr>))"

definition host_Open :: "u8 list \<Rightarrow> 'a kproc_scheme \<Rightarrow> nat option \<times> 'a kproc_scheme" where
  "host_Open name s =
     (case names s name of None \<Rightarrow> (None, s)
      | Some f \<Rightarrow> (Some (next_obj s), s\<lparr>ofile := (ofile s)(next_obj s := (f, 0)), next_obj := Suc (next_obj s)\<rparr>))"

definition file_Write :: "nat \<Rightarrow> u8 list \<Rightarrow> 'a kproc_scheme \<Rightarrow> 'a kproc_scheme result" where
  "file_Write k bs s =
     (let (f, off) = ofile s k; off' = off + int (length bs) in
      bindE (seek_ok off) (\<lambda>_.
      if \<not> in_int off' then Inl Undefined_behaviour
      else Inr (s\<lparr>files := (files s)(f := unix_write (nat off) bs (files s f)), ofile := (ofile s)(k := (f, off'))\<rparr>)))"

definition file_Read :: "nat \<Rightarrow> int \<Rightarrow> 'a kproc_scheme \<Rightarrow> (u8 list \<times> 'a kproc_scheme) result" where
  "file_Read k len s =
     (let (f, off) = ofile s k in
      bindE (seek_ok off) (\<lambda>_.
      let bs = unix_read_partial (nat off) (nat len) (files s f); off' = off + int (length bs) in
      if \<not> in_int off' then Inl Undefined_behaviour
      else Inr (bs, s\<lparr>ofile := (ofile s)(k := (f, off'))\<rparr>)))"

section \<open>The calls\<close>

text \<open>A name is what precedes the first NUL of the buffer.\<close>

definition file_name :: "u8 list \<Rightarrow> u8 list" where
  "file_name bs = takeWhile (\<lambda>b. b \<noteq> 0) bs"

definition Create_Syscall ::
  "bool \<Rightarrow> 'a kproc_scheme handler \<Rightarrow> nat \<Rightarrow> (u8 list \<Rightarrow> bool) \<Rightarrow> u32 \<Rightarrow> int \<Rightarrow> 'a kproc_scheme \<Rightarrow> 'a kproc_scheme result"
where
  "Create_Syscall big h n can_create va len s =
     bindE (new_chars (len + 1)) (\<lambda>_.
     bindE (copyin big h n va len s) (\<lambda>(r, bs, s1).
     if r = -1 then Inr s1 else host_Create can_create (file_name bs) s1))"

definition Open_Syscall ::
  "bool \<Rightarrow> 'a kproc_scheme handler \<Rightarrow> nat \<Rightarrow> u32 \<Rightarrow> int \<Rightarrow> 'a kproc_scheme \<Rightarrow> (int \<times> 'a kproc_scheme) result"
where
  "Open_Syscall big h n va len s =
     bindE (new_chars (len + 1)) (\<lambda>_.
     bindE (copyin big h n va len s) (\<lambda>(r, bs, s1).
     if r = -1 then Inr (-1, s1)
     else case host_Open (file_name bs) s1 of
       (None, s2) \<Rightarrow> Inr (-1, s2)
     | (Some k, s2) \<Rightarrow>
         bindE (Table_Put (Some k) (fileTables s2 (cur_space s2))) (\<lambda>(i, t).
         Inr (i, s2\<lparr>fileTables := (fileTables s2)(cur_space s2 := t)\<rparr>))))"

definition Write_Syscall ::
  "bool \<Rightarrow> 'a kproc_scheme handler \<Rightarrow> nat \<Rightarrow> u32 \<Rightarrow> int \<Rightarrow> int \<Rightarrow> 'a kproc_scheme \<Rightarrow> 'a kproc_scheme result"
where
  "Write_Syscall big h n va len i s =
     (if i = ConsoleInput then Inr s
      else bindE (new_chars len) (\<lambda>_.
        bindE (copyin big h n va len s) (\<lambda>(r, bs, s1).
        if r = -1 then Inr s1
        else if i = ConsoleOutput then Inr (s1\<lparr>con_out := con_out s1 @ bs\<rparr>)
        else bindE (Table_Get i (fileTables s1 (cur_space s1))) (\<lambda>f.
          case f of None \<Rightarrow> Inr s1 | Some k \<Rightarrow> file_Write k bs s1))))"

text \<open>\<open>scanf("%s", buf)\<close> stores the word typed and a NUL, however long the buffer is. The rest of the
  buffer is what \<open>new\<close> gave (\<open>junk\<close>), and is copied out with it.\<close>

definition Read_Syscall ::
  "bool \<Rightarrow> 'a kproc_scheme handler \<Rightarrow> u8 list \<Rightarrow> (nat \<Rightarrow> u8) \<Rightarrow> u32 \<Rightarrow> int \<Rightarrow> int \<Rightarrow> 'a kproc_scheme \<Rightarrow> (int \<times> 'a kproc_scheme) result"
where
  "Read_Syscall big h typed junk va len i s =
     (if i = ConsoleOutput then Inr (-1, s)
      else bindE (new_chars len) (\<lambda>_.
        if i = ConsoleInput then
          if nat len < length typed + 1 then Inl Undefined_behaviour
          else bindE (copyout big h va (typed @ [0] @ map junk [length typed + 1..<nat len]) s) (\<lambda>(_, s1). Inr (len, s1))
        else bindE (Table_Get i (fileTables s (cur_space s))) (\<lambda>f.
          case f of None \<Rightarrow> Inr (-1, s)
          | Some k \<Rightarrow>
              bindE (file_Read k len s) (\<lambda>(bs, s1).
              if bs = [] then Inr (0, s1)
              else bindE (copyout big h va bs s1) (\<lambda>(_, s2). Inr (int (length bs), s2))))))"

definition Close_Syscall :: "int \<Rightarrow> 'a kproc_scheme \<Rightarrow> 'a kproc_scheme result" where
  "Close_Syscall fd s =
     bindE (Table_Remove fd (fileTables s (cur_space s))) (\<lambda>(_, t).
     Inr (s\<lparr>fileTables := (fileTables s)(cur_space s := t)\<rparr>))"

definition RandomNumber_Syscall :: "nat \<Rightarrow> int \<Rightarrow> int result" where
  "RandomNumber_Syscall r count = (if count = 0 then Inl Undefined_behaviour else Inr (int r smod count))"

section \<open>The dispatch\<close>

datatype syscall =
    SysHalt | SysCreate u32 int | SysOpen u32 int | SysWrite u32 int int | SysRead u32 int int | SysClose int
  | SysYield | SysCreateLock u32 int | SysDestroyLock int | SysAcquire int | SysRelease int
  | SysCreateCondition u32 int | SysDestroyCondition int | SysSignal int int | SysWait int int | SysBroadcast int int
  | SysFork u32 | SysExec u32 | SysExit int | SysPrintOut u32 int | SysPrintNumber int | SysRandomNumber int
  | SysCreateMV u32 int | SysSetMV int int | SysGetMV int | SysDestroyMV int | SysStartUserProgram | SysGetConfigArg

definition syscall_of :: "int \<Rightarrow> u32 \<Rightarrow> u32 \<Rightarrow> u32 \<Rightarrow> syscall" where
  "syscall_of type a b c =
     (if type = 4 then SysCreate a (sint b) else if type = 5 then SysOpen a (sint b)
      else if type = 7 then SysWrite a (sint b) (sint c) else if type = 6 then SysRead a (sint b) (sint c)
      else if type = 8 then SysClose (sint a) else if type = 10 then SysYield
      else if type = 16 then SysCreateLock a (sint b) else if type = 17 then SysDestroyLock (sint a)
      else if type = 11 then SysAcquire (sint a) else if type = 12 then SysRelease (sint a)
      else if type = 18 then SysCreateCondition a (sint b) else if type = 19 then SysDestroyCondition (sint a)
      else if type = 14 then SysSignal (sint a) (sint b) else if type = 13 then SysWait (sint a) (sint b)
      else if type = 15 then SysBroadcast (sint a) (sint b) else if type = 9 then SysFork a else if type = 2 then SysExec a
      else if type = 1 then SysExit (sint a) else if type = 20 then SysPrintOut a (sint b)
      else if type = 21 then SysPrintNumber (sint a) else if type = 22 then SysRandomNumber (sint a)
      else if type = 23 then SysCreateMV a (sint b) else if type = 24 then SysSetMV (sint a) (sint b)
      else if type = 25 then SysGetMV (sint a) else if type = 26 then SysDestroyMV (sint a)
      else if type = 27 then SysStartUserProgram else if type = 28 then SysGetConfigArg else SysHalt)"

text \<open>The result goes to register 2, and the program counters move on.\<close>

definition finish_syscall :: "int \<Rightarrow> 'a machine_scheme \<Rightarrow> 'a machine_scheme result" where
  "finish_syscall rv s =
     bindE (WriteRegister s 2 (word_of_int rv)) (\<lambda>s1.
     bindE (ReadRegister s1 (int PCReg)) (\<lambda>pc. bindE (WriteRegister s1 (int PrevPCReg) pc) (\<lambda>s2.
     bindE (ReadRegister s2 (int NextPCReg)) (\<lambda>next. bindE (WriteRegister s2 (int PCReg) next) (\<lambda>s3.
     bindE (ReadRegister s3 (int PCReg)) (\<lambda>pc. WriteRegister s3 (int NextPCReg) (pc + 4)))))))"

text \<open>\<open>run\<close> carries out a call other than \<open>Halt\<close> and gives \<open>rv\<close>, which is 0 for a call without result.\<close>

definition ExceptionHandler ::
  "(syscall \<Rightarrow> 'a vm_scheme \<Rightarrow> (int \<times> 'a vm_scheme) result) \<Rightarrow> ('a vm_scheme \<Rightarrow> nat) \<Rightarrow> 'a vm_scheme handler" where
  "ExceptionHandler run rnd which s =
     bindE (ReadRegister s 2) (\<lambda>type.
     if which = SyscallException then
       bindE (ReadRegister s 4) (\<lambda>a. bindE (ReadRegister s 5) (\<lambda>b. bindE (ReadRegister s 6) (\<lambda>c.
       if syscall_of (sint type) a b c = SysHalt then Inl Machine_halted
       else bindE (run (syscall_of (sint type) a b c) s) (\<lambda>(rv, s1). finish_syscall rv s1))))
     else vm_exception rnd which s)"

text \<open>The calls of this theory; \<open>configArg\<close> is a command-line argument, \<open>r\<close> a random number.\<close>

definition file_calls ::
  "bool \<Rightarrow> 'a kproc_scheme handler \<Rightarrow> nat \<Rightarrow> (u8 list \<Rightarrow> bool) \<Rightarrow> u8 list \<Rightarrow> (nat \<Rightarrow> u8) \<Rightarrow> int \<Rightarrow> nat
   \<Rightarrow> (syscall \<Rightarrow> 'a kproc_scheme \<Rightarrow> (int \<times> 'a kproc_scheme) result)
   \<Rightarrow> syscall \<Rightarrow> 'a kproc_scheme \<Rightarrow> (int \<times> 'a kproc_scheme) result"
where
  "file_calls big h n can_create typed junk configArg r others c s =
     (case c of
        SysCreate va len \<Rightarrow> bindE (Create_Syscall big h n can_create va len s) (\<lambda>s1. Inr (0, s1))
      | SysOpen va len \<Rightarrow> Open_Syscall big h n va len s
      | SysWrite va len i \<Rightarrow> bindE (Write_Syscall big h n va len i s) (\<lambda>s1. Inr (0, s1))
      | SysRead va len i \<Rightarrow> Read_Syscall big h typed junk va len i s
      | SysClose fd \<Rightarrow> bindE (Close_Syscall fd s) (\<lambda>s1. Inr (0, s1))
      | SysPrintOut va len \<Rightarrow> bindE (Write_Syscall big h n va len ConsoleOutput s) (\<lambda>s1. Inr (0, s1))
      | SysRandomNumber count \<Rightarrow> bindE (RandomNumber_Syscall r count) (\<lambda>v. Inr (v, s))
      | SysGetConfigArg \<Rightarrow> Inr (configArg, s)
      | _ \<Rightarrow> others c s)"


section \<open>What the calls do to files and memory\<close>

lemma kproc_more:
  assumes "vm.more (s' :: 'a kproc_scheme) = vm.more s"
  shows "fileTables s' = fileTables s" "ofile s' = ofile s" "next_obj s' = next_obj s" "names s' = names s"
    "next_file s' = next_file s" "con_out s' = con_out s"
  using assms by (cases s' rule: kproc.cases_scheme, cases s rule: kproc.cases_scheme, simp)+

lemma same_vm_ofile: "same_vm s (s\<lparr>ofile := f\<rparr>)"
  by (simp add: same_vm_def)

lemmas vm_ofile [simp] = same_vm_ofile[THEN same_vm_ok] same_vm_ofile[THEN same_vm_page] same_vm_ofile[THEN same_vm_small(1)]
  same_vm_ofile[THEN same_vm_small(2)] same_vm_ofile[THEN same_vm_small(3)]

lemma load_user_ofile [simp]: "load_ok (s\<lparr>ofile := f\<rparr>) = load_ok s" "user_byte (s\<lparr>ofile := f\<rparr>) va = user_byte s va"
  by (simp_all add: load_ok_def user_byte_def)

lemma in_int_less: "in_int (int k) \<longleftrightarrow> k < 2 ^ 31"
  by (simp add: in_int_def)


text \<open>What a file has from an offset on, and an open file with a valid offset.\<close>

lemma file_Read_eq:
  assumes "ofile s f = (i, int off)" "off + len < 2 ^ 31"
  shows "file_Read f (int len) s = Inr (take len (drop off (files s i)),
    s\<lparr>ofile := (ofile s)(f := (i, int (off + length (take len (drop off (files s i))))))\<rparr>)"
proof -
  have "in_int (int off)" "in_int (int off + int (length (take len (drop off (files s i)))))"
    using assms(2) by (auto simp: in_int_def min_def)
  then show ?thesis using assms(1)
    by (simp add: file_Read_def seek_ok_def assertE_def unix_read_partial_def)
qed

lemma Read_Syscall_file:
  fixes s :: "'a kproc_scheme"
  assumes fd: "fd \<noteq> ConsoleInput" "fd \<noteq> ConsoleOutput" "Table_Get fd (fileTables s (cur_space s)) = Inr (Some f)"
    and opened: "ofile s f = (i, int off)" "off + len < 2 ^ 31"
    and bs: "bs = take len (drop off (files s i))" "bs \<noteq> []"
  shows "Read_Syscall big h typed junk va (int len) fd s
    = bindE (copyout_loop big h bs va (s\<lparr>ofile := (ofile s)(f := (i, int (off + length bs)))\<rparr>)) (\<lambda>(_, s2). Inr (int (length bs), s2))"
proof -
  have "in_int (int len)" using opened(2) by (simp add: in_int_def)
  then show ?thesis
    using fd file_Read_eq[OF opened] bs unfolding Read_Syscall_def
    by (cases "copyout_loop big h bs va (s\<lparr>ofile := (ofile s)(f := (i, int (off + length bs)))\<rparr>)")
      (simp_all add: new_chars_def copyout_def case_prod_beta)
qed

text \<open>
  C9: reading loses data. When the page of the program's buffer is not in the TLB, \<open>Read\<close> takes the
  bytes from the file, moves the offset behind them and returns their number, and the program's memory is
  as it was: the bytes are neither in the buffer nor read by the next \<open>Read\<close>.
\<close>

theorem Read_Syscall_loses_data:
  fixes s :: "'a kproc_scheme"
  assumes ok: "vm_ok s" "no_hidden s" "load_ok s" and sp: "space_left s" and va: "unat va < 2 ^ 31"
    and v: "unat va div PageSize < length (page_tables s (cur_space s))" and miss: "tlb_misses s (unat va div PageSize)"
    and fd: "fd \<noteq> ConsoleInput" "fd \<noteq> ConsoleOutput" "Table_Get fd (fileTables s (cur_space s)) = Inr (Some f)"
    and opened: "ofile s f = (i, int off)" "off + len < 2 ^ 31"
    and bs: "bs = take len (drop off (files s i))" "bs \<noteq> []"
  shows "\<exists>s'. Read_Syscall big (vm_exception rnd) typed junk va (int len) fd s = Inr (int (length bs), s')
    \<and> same_memory (s\<lparr>ofile := (ofile s)(f := (i, int (off + length bs)))\<rparr>) s'"
proof -
  let ?s = "s\<lparr>ofile := (ofile s)(f := (i, int (off + length bs)))\<rparr>"
  have "vm_ok ?s" "no_hidden ?s" "load_ok ?s" "space_left ?s" "unat va div PageSize < length (page_tables ?s (cur_space ?s))"
    "tlb_misses ?s (unat va div PageSize)" using ok sp v miss by simp_all
  then obtain s' where "copyout_loop big (vm_exception rnd) bs va ?s = Inr (False, s')" "same_memory ?s s'"
    using copyout_loop_fault[OF _ _ _ _ va _ _ bs(2)] by metis
  then show ?thesis using Read_Syscall_file[OF fd opened bs] by simp
qed

text \<open>
  reading where the pages are at hand. When every page of the buffer is in the TLB, \<open>Read\<close> puts the
  bytes of the file at the current offset into the buffer and changes no other byte of the program and no
  page of another; the offset moves behind what was read, and the number of bytes is returned.
\<close>

theorem Read_Syscall_delivers:
  fixes s :: "'a kproc_scheme"
  assumes ok: "vm_ok s" and va: "unat va + length bs \<le> 2 ^ 31"
    and hit: "\<forall>j < length bs. \<not> tlb_misses s ((unat va + j) div PageSize)"
    and fd: "fd \<noteq> ConsoleInput" "fd \<noteq> ConsoleOutput" "Table_Get fd (fileTables s (cur_space s)) = Inr (Some f)"
    and opened: "ofile s f = (i, int off)" "off + len < 2 ^ 31"
    and bs: "bs = take len (drop off (files s i))" "bs \<noteq> []"
  shows "\<exists>s'. Read_Syscall big h typed junk va (int len) fd s = Inr (int (length bs), s')
    \<and> vm_ok s' \<and> cur_space s' = cur_space s \<and> files s' = files s
    \<and> ofile s' = (ofile s)(f := (i, int (off + length bs)))
    \<and> (\<forall>u. user_byte s' u = (if unat va \<le> unat u \<and> unat u < unat va + length bs then bs ! (unat u - unat va) else user_byte s u))
    \<and> (\<forall>a x. a \<noteq> cur_space s \<longrightarrow> vm_page s' a x = vm_page s a x)"
proof -
  let ?s = "s\<lparr>ofile := (ofile s)(f := (i, int (off + length bs)))\<rparr>"
  obtain s' where c: "copyout_loop big h bs va ?s = Inr (True, s')" "vm_ok s'" "cur_space s' = cur_space ?s"
    "vm.more s' = vm.more ?s" "files s' = files ?s" "\<forall>a x. a \<noteq> cur_space ?s \<longrightarrow> vm_page s' a x = vm_page ?s a x"
    "\<forall>u. user_byte s' u = (if unat va \<le> unat u \<and> unat u < unat va + length bs then bs ! (unat u - unat va) else user_byte ?s u)"
    using copyout_loop_hit[of ?s va bs big h] ok va hit by auto
  then show ?thesis using Read_Syscall_file[OF fd opened bs] kproc_more(2)[OF c(4)] by simp
qed

section \<open>Leaving the kernel\<close>

lemma finish_syscall_eq:
  "finish_syscall rv s = Inr (s\<lparr>registers := (registers s)(2 := word_of_int rv, PrevPCReg := registers s PCReg,
     PCReg := registers s NextPCReg, NextPCReg := registers s NextPCReg + 4)\<rparr>)"
  by (simp add: finish_syscall_def ReadRegister_def WriteRegister_def assertE_def fun_upd_twist)

lemma execute_SYSCALL: "i_opCode i = OP_SYSCALL \<Longrightarrow> execute big h i pcAfter m = trap h SyscallException 0 m"
  by (simp add: execute_def exec_sub_xori_def exec_nor_srlv_def exec_lui_multu_def exec_div_lhu_def Let_def)

text \<open>
  C10: a system call is one instruction. When the instruction fetched is \<open>SYSCALL\<close>, the kernel sees the
  registers after a pending load has been completed, carries out the call that register 2 names on the
  arguments in registers 4 to 6, puts the result into register 2 and goes on at the next instruction
  with nothing executed twice; a number that names no call halts the machine.
\<close>

theorem syscall_instruction:
  assumes "ReadMem big (ExceptionHandler run rnd) (registers m PCReg) 4 m = Inr (Some raw, m1)"
    and "i_opCode (Decode raw) = OP_SYSCALL" and "DelayedLoad 0 0 (set_reg m1 BadVAddrReg 0) = Inr m2"
    and "c = syscall_of (sint (registers m2 2)) (registers m2 4) (registers m2 5) (registers m2 6)"
  shows "OneInstruction big (ExceptionHandler run rnd) m =
    (if c = SysHalt then Inl Machine_halted
     else bindE (run c (m2\<lparr>status := SystemMode\<rparr>)) (\<lambda>(rv, m3).
       Inr (m3\<lparr>registers := (registers m3)(2 := word_of_int rv, PrevPCReg := registers m3 PCReg,
         PCReg := registers m3 NextPCReg, NextPCReg := registers m3 NextPCReg + 4), status := UserMode\<rparr>)))"
proof -
  let ?s = "m2\<lparr>status := SystemMode\<rparr>"
  have h: "ExceptionHandler run rnd SyscallException ?s = (if c = SysHalt then Inl Machine_halted
     else bindE (run c ?s) (\<lambda>(rv, m3). finish_syscall rv m3))"
    using assms(4) by (simp add: ExceptionHandler_def ReadRegister_def assertE_def)
  have "trap (ExceptionHandler run rnd) SyscallException 0 m1 = (if c = SysHalt then Inl Machine_halted
     else bindE (run c ?s) (\<lambda>(rv, m3). bindE (finish_syscall rv m3) (\<lambda>m4. Inr (Returned (m4\<lparr>status := UserMode\<rparr>)))))"
    using assms(3) h by (cases "run c ?s") (auto simp: trap_def RaiseException_def bindE_assoc)
  then show ?thesis
    using assms(1,2) by (cases "run c ?s") (auto simp: OneInstruction_def execute_SYSCALL finish_syscall_eq)
qed

section \<open>A program with an open file\<close>

definition demo_table :: ftable where
  "demo_table = \<lparr>t_map = \<lparr>numBits = 4, numWords = 1, bmap = [7]\<rparr>, t_table = [None, None, Some 3, None]\<rparr>"

definition demo_kproc :: "vm \<Rightarrow> kproc" where
  "demo_kproc s = vm.extend s \<lparr>fileTables = (\<lambda>_. demo_table), ofile = (\<lambda>_. (7, 1)), next_obj = 4, names = (\<lambda>_. None),
     next_file = 8, con_out = []\<rparr>"

lemma demo_kproc_fields [simp]:
  "registers (demo_kproc s) = registers s" "tlb (demo_kproc s) = tlb s" "ipt (demo_kproc s) = ipt s"
  "page_tables (demo_kproc s) = page_tables s" "cur_space (demo_kproc s) = cur_space s" "swap_map (demo_kproc s) = swap_map s"
  "swap_file (demo_kproc s) = swap_file s" "files (demo_kproc s) = files s" "ppnInUse (demo_kproc s) = ppnInUse s"
  "ppnQueue (demo_kproc s) = ppnQueue s" "curTLB (demo_kproc s) = curTLB s" "useRandom (demo_kproc s) = useRandom s"
  "mainMemory (demo_kproc s) = mainMemory s" "pageTable (demo_kproc s) = pageTable s"
  "fileTables (demo_kproc s) a = demo_table" "ofile (demo_kproc s) f = (7, 1)"
  by (simp_all add: demo_kproc_def vm.extend_def)

lemma same_vm_demo: "same_vm s (demo_kproc s)"
  by (simp add: same_vm_def)

lemmas vm_demo_kproc [simp] = same_vm_demo[THEN same_vm_ok] same_vm_demo[THEN same_vm_page] same_vm_demo[THEN same_vm_small(1)]
  same_vm_demo[THEN same_vm_small(2)] same_vm_demo[THEN same_vm_small(3)]

lemma load_user_demo [simp]: "load_ok (demo_kproc s) = load_ok s" "user_byte (demo_kproc s) va = user_byte s va"
  by (simp_all add: load_ok_def user_byte_def)

lemma demo_Get: "Table_Get 2 demo_table = Inr (Some 3)"
  by (simp add: Table_Get_def demo_table_def BitMap_Test_def which_ok_def assertE_def)


lemma Read_Syscall_loses_data_witness:
  "\<exists>(s :: kproc) s'. Read_Syscall True (vm_exception (\<lambda>_. 0)) [] (\<lambda>_. 0) 0 (int 3) 2 s = Inr (3, s')
     \<and> vm_page s' 0 0 = vm_page s 0 0 \<and> ofile s' 3 = (7, 4)"
proof -
  obtain t :: vm where t: "vm_ok t" "no_hidden t" "load_ok t" "marked (swap_map t) = {}" "cur_space t = 0"
    "length (page_tables t 0) = 10" "vm_page t 0 0 = replicate PageSize 9" "tlb_misses t 0" "files t = (\<lambda>_. demo_prog)"
    by (rule demo_started)
  let ?s = "demo_kproc t" and ?bs = "take 3 (drop 1 demo_prog)"
  have l: "length ?bs = 3" by (simp add: demo_prog_def)
  then have ne: "?bs \<noteq> []" by (metis list.size(3) zero_neq_numeral)
  have "\<exists>s'. Read_Syscall True (vm_exception (\<lambda>_. 0)) [] (\<lambda>_. 0) 0 (int 3) 2 ?s = Inr (int (length ?bs), s')
    \<and> same_memory (?s\<lparr>ofile := (ofile ?s)(3 := (7, int (1 + length ?bs)))\<rparr>) s'"
    by (rule Read_Syscall_loses_data) (use t ne in \<open>simp_all add: demo_Get space_left_def\<close>)
  then obtain s' where r: "Read_Syscall True (vm_exception (\<lambda>_. 0)) [] (\<lambda>_. 0) 0 (int 3) 2 ?s = Inr (3, s')"
    "same_memory (?s\<lparr>ofile := (ofile ?s)(3 := (7, 4))\<rparr>) s'" unfolding l by auto
  then have "vm_page s' 0 0 = vm_page ?s 0 0" using t(6) by (simp add: same_memory_def)
  moreover have "ofile s' 3 = (7, 4)"
  proof -
    have "vm.more s' = vm.more (?s\<lparr>ofile := (ofile ?s)(3 := (7, 4))\<rparr>)" using r(2) by (simp only: same_memory_def)
    from kproc_more(2)[OF this] show ?thesis by simp
  qed
  ultimately show ?thesis using r(1) by blast
qed

lemma Read_Syscall_delivers_witness:
  "\<exists>(s :: kproc) s'. Read_Syscall True (vm_exception (\<lambda>_. 0)) [] (\<lambda>_. 0) 130 (int 2) 2 s = Inr (2, s')
     \<and> user_byte s' 131 = 7 \<and> ofile s' 3 = (7, 3)"
proof -
  let ?t = "demo_vm [0, 1]" and ?bs = "[7, 7] :: u8 list"
  let ?s = "demo_kproc ?t"
  have t: "files ?t = (\<lambda>_. replicate 256 7)" "cur_space ?t = 0" by (simp_all add: demo_vm_def)
  have hit: "\<not> tlb_misses ?t 1"
  proof -
    let ?e = "demo_entry\<lparr>virtualPage := 1, physicalPage := 1, dirty := True\<rparr>"
    have "?e \<in> tlb_valid ?t" by (simp add: tlb_valid_def demo_vm_def) (simp add: demo_entry_def)
    moreover have "virtualPage ?e = of_nat 1" by simp
    ultimately show ?thesis unfolding tlb_misses_def by blast
  qed
  have v: "(130 + j) div PageSize = 1" if "j < 2" for j :: nat using that by (simp add: less_2_cases_iff) auto
  have bs: "?bs = take 2 (drop 1 (files ?s 7))" by (simp add: t numeral_2_eq_2)
  have "\<exists>s'. Read_Syscall True (vm_exception (\<lambda>_. 0)) [] (\<lambda>_. 0) 130 (int 2) 2 ?s = Inr (int (length ?bs), s')
    \<and> vm_ok s' \<and> cur_space s' = cur_space ?s \<and> files s' = files ?s
    \<and> ofile s' = (ofile ?s)(3 := (7, int (1 + length ?bs)))
    \<and> (\<forall>u. user_byte s' u = (if unat (130 :: u32) \<le> unat u \<and> unat u < unat (130 :: u32) + length ?bs
         then ?bs ! (unat u - unat (130 :: u32)) else user_byte ?s u))
    \<and> (\<forall>a x. a \<noteq> cur_space ?s \<longrightarrow> vm_page s' a x = vm_page ?s a x)"
  proof (rule Read_Syscall_delivers)
    show "vm_ok ?s" using demo_vm_ok by simp
    show "\<forall>j < length ?bs. \<not> tlb_misses ?s ((unat (130 :: u32) + j) div PageSize)" using hit v by simp
    show "?bs = take 2 (drop 1 (files ?s 7))" by (rule bs)
  qed (simp_all add: demo_Get t)
  then obtain s' where r: "Read_Syscall True (vm_exception (\<lambda>_. 0)) [] (\<lambda>_. 0) 130 (int 2) 2 ?s = Inr (2, s')"
    "ofile s' = (ofile ?s)(3 := (7, 3))"
    "\<forall>u. user_byte s' u = (if unat (130 :: u32) \<le> unat u \<and> unat u < unat (130 :: u32) + length ?bs
       then ?bs ! (unat u - unat (130 :: u32)) else user_byte ?s u)" by auto
  have "user_byte s' 131 = 7" using r(3)[rule_format, of 131] by simp
  moreover have "ofile s' 3 = (7, 3)" using r(2) by simp
  ultimately show ?thesis using r(1) by blast
qed

definition demo_syscall :: vm where
  "demo_syscall = (demo_vm [0, 1])\<lparr>registers := (\<lambda>_. 0)(PCReg := 132, NextPCReg := 136, 2 := 28),
     mainMemory := (\<lambda>_. 0)(132 := 12)\<rparr>"

lemma syscall_instruction_witness:
  "\<exists>m'. OneInstruction True (ExceptionHandler (\<lambda>c s. if c = SysGetConfigArg then Inr (5, s) else Inl Undefined_behaviour) (\<lambda>_. 0))
      demo_syscall = Inr m' \<and> registers m' 2 = 5 \<and> registers m' PCReg = 136"
proof -
  let ?run = "\<lambda>c s. if c = SysGetConfigArg then Inr (5, s) else Inl Undefined_behaviour"
  let ?h = "ExceptionHandler ?run (\<lambda>_. 0)" and ?m = demo_syscall
  have r: "registers ?m PCReg = 132" by (simp add: demo_syscall_def)
  have "fst (translation ?m 132 4 False) = Inr 132"
    by (simp add: translation_def misaligned_def find_entry_def demo_syscall_def demo_vm_def demo_entry_def upt_rec word_le_nat_alt)
  then obtain m' where t: "translation ?m 132 4 False = (Inr 132, m')" by (metis fst_conv surj_pair)
  have wf: "mmu_wf ?m" by (simp add: mmu_wf_def demo_syscall_def demo_vm_def)
  have fr: "registers m' = registers ?m" using translation_frame[OF wf t] by simp
  have "le32 12 0 0 0 = (12 :: u32)" by (simp add: le32_def)
  then have f: "ReadMem True ?h (registers ?m PCReg) 4 ?m = Inr (Some 12, touch 132 m')"
    using ReadMem_Some[OF wf _ t, of True ?h] r by (simp add: demo_syscall_def)
  have d: "i_opCode (Decode 12) = OP_SYSCALL" by (simp add: Decode_def opTable_def specialTable_def decode_extra_def)
  let ?m2 = "(touch 132 m')\<lparr>registers := (((registers ?m)(BadVAddrReg := 0))(unat (registers ?m LoadReg) := registers ?m LoadValueReg))
    (LoadReg := 0, LoadValueReg := 0, 0 := 0)\<rparr>"
  have l: "DelayedLoad 0 0 (set_reg (touch 132 m') BadVAddrReg 0) = Inr ?m2"
    by (simp add: DelayedLoad_def touch_def fr demo_syscall_def Let_def)
  have c: "SysGetConfigArg = syscall_of (sint (registers ?m2 2)) (registers ?m2 4) (registers ?m2 5) (registers ?m2 6)"
    by (simp add: syscall_of_def demo_syscall_def)
  show ?thesis using syscall_instruction[OF f d l c] by (simp add: demo_syscall_def)
qed

end
