(* ===== verification/NetCalls.thy ===== *)
theory NetCalls
  imports FileCalls NetInvariant
begin

text \<open>
  The system calls on distributed locks, conditions and monitor variables (\<open>userprog/exception.cc\<close> with
  \<open>NETWORK\<close>): each prints its arguments into a request, sends it to the network thread of the program and
  waits for the answer (\<open>Request\<close> of \<open>network/netcall.cc\<close>). What the other threads do meanwhile is a
  function \<open>W\<close> of the post office.
\<close>

section \<open>A request and its answer\<close>

text \<open>\<open>sprintf(request, "%d_%s", requestType, data)\<close>\<close>

definition request_text :: "RequestType \<Rightarrow> string \<Rightarrow> string" where
  "request_text r data = dec (req r) @ CHR ''_'' # data"

definition Request_send :: "RequestType \<Rightarrow> string \<Rightarrow> int \<Rightarrow> int \<Rightarrow> 'a post_scheme \<Rightarrow> 'a post_scheme result" where
  "Request_send r data mach mail s =
     bindE (into_tmp (request_text r data)) (\<lambda>request.
     halt_unless_sent (Send_now \<lparr>pk_to = mach, pk_from = netAddr s, pk_length = 0\<rparr>
       \<lparr>mb_to = mail, mb_from = thisMail s, mb_length = length request + 1\<rparr> request True s))"

text \<open>The loop that waits: \<open>None\<close> when the box has run empty. Each round takes a message out of the box, so
  that one more round than it has messages is enough.\<close>

primrec await_reply :: "nat \<Rightarrow> 'a post_scheme \<Rightarrow> ((Mail \<times> string) option \<times> 'a post_scheme) result" where
  "await_reply 0 s = Inr (None, s)"
| "await_reply (Suc n) s =
     bindE (Receive (thisMail s) s) (\<lambda>(got, s1).
     case got of
       None \<Rightarrow> Inr (None, s1)
     | Some (pkt, d) \<Rightarrow>
         bindE (parseValue 0 d) (\<lambda>(v, _).
         if v = req INVALIDTYPE \<or> v = req ACK then await_reply n s1 else Inr (Some (pkt, d), s1)))"

definition Request ::
  "('a post_scheme \<Rightarrow> 'a post_scheme) \<Rightarrow> RequestType \<Rightarrow> string \<Rightarrow> int \<Rightarrow> int \<Rightarrow> 'a post_scheme
   \<Rightarrow> (int option \<times> 'a post_scheme) result"
where
  "Request W r data mach mail s =
     bindE (Request_send r data mach mail s) (\<lambda>s1.
     bindE (await_reply (Suc (length (boxes (W s1) (thisMail (W s1))))) (W s1)) (\<lambda>(got, s2).
     case got of
       None \<Rightarrow> Inr (None, s2)
     | Some (pkt, d) \<Rightarrow>
         bindE (Ack (pktHdr pkt) (mailHdr pkt) (timeStamp pkt) s2) (\<lambda>s3.
         bindE (atoi_int d) (\<lambda>v. Inr (Some v, s3)))))"

section \<open>The calls\<close>

text \<open>A program with its post office. A call that waits for ever does not return.\<close>

record user_proc = kproc +
  office :: post

definition getMachineID :: "'a post_scheme \<Rightarrow> int" where
  "getMachineID p = netAddr p"

definition getMailID :: "'a post_scheme \<Rightarrow> int" where
  "getMailID p = thisMail p - 1"

definition ask_network ::
  "(post \<Rightarrow> post) \<Rightarrow> RequestType \<Rightarrow> string \<Rightarrow> 'a user_proc_scheme \<Rightarrow> (int \<times> 'a user_proc_scheme) result"
where
  "ask_network W r data s =
     bindE (Request W r data (getMachineID (office s)) (getMailID (office s)) (office s)) (\<lambda>(v, p).
     case v of None \<Rightarrow> Inl Diverges | Some x \<Rightarrow> Inr (x, s\<lparr>office := p\<rparr>))"

definition tell_network ::
  "(post \<Rightarrow> post) \<Rightarrow> RequestType \<Rightarrow> string \<Rightarrow> 'a user_proc_scheme \<Rightarrow> (int \<times> 'a user_proc_scheme) result"
where
  "tell_network W r data s = bindE (ask_network W r data s) (\<lambda>(_, s1). Inr (0, s1))"

text \<open>A name is copied in behind the NUL that was put at its end; with a length of -1 that is in front of
  the buffer.\<close>

definition name_in ::
  "bool \<Rightarrow> 'a user_proc_scheme handler \<Rightarrow> nat \<Rightarrow> u32 \<Rightarrow> int \<Rightarrow> 'a user_proc_scheme
   \<Rightarrow> (string \<times> 'a user_proc_scheme) result"
where
  "name_in big h n va len s =
     bindE (new_chars (len + 1)) (\<lambda>_.
     if len < 0 then Inl Undefined_behaviour
     else bindE (copyin big h n va len s) (\<lambda>(_, bs, s1). Inr (map (\<lambda>b. char_of (unat b)) (file_name bs), s1)))"

definition CreateLock_Syscall ::
  "(post \<Rightarrow> post) \<Rightarrow> bool \<Rightarrow> 'a user_proc_scheme handler \<Rightarrow> nat \<Rightarrow> u32 \<Rightarrow> int \<Rightarrow> 'a user_proc_scheme
   \<Rightarrow> (int \<times> 'a user_proc_scheme) result"
where
  "CreateLock_Syscall W big h n va len s =
     bindE (name_in big h n va len s) (\<lambda>(name, s1). ask_network W CREATELOCK name s1)"

definition CreateCondition_Syscall ::
  "(post \<Rightarrow> post) \<Rightarrow> bool \<Rightarrow> 'a user_proc_scheme handler \<Rightarrow> nat \<Rightarrow> u32 \<Rightarrow> int \<Rightarrow> 'a user_proc_scheme
   \<Rightarrow> (int \<times> 'a user_proc_scheme) result"
where
  "CreateCondition_Syscall W big h n va len s =
     bindE (name_in big h n va len s) (\<lambda>(name, s1). ask_network W CREATECV name s1)"

definition CreateMV_Syscall ::
  "(post \<Rightarrow> post) \<Rightarrow> bool \<Rightarrow> 'a user_proc_scheme handler \<Rightarrow> nat \<Rightarrow> u32 \<Rightarrow> int \<Rightarrow> 'a user_proc_scheme
   \<Rightarrow> (int \<times> 'a user_proc_scheme) result"
where
  "CreateMV_Syscall W big h n va len s =
     bindE (name_in big h n va len s) (\<lambda>(name, s1). ask_network W CREATEMV name s1)"

text \<open>The calls with one number print it into an array of 16 characters, where every \<open>int\<close> fits.\<close>

definition DestroyLock_Syscall :: "(post \<Rightarrow> post) \<Rightarrow> int \<Rightarrow> 'a user_proc_scheme \<Rightarrow> (int \<times> 'a user_proc_scheme) result" where
  "DestroyLock_Syscall W index s = tell_network W DESTROYLOCK (dec index) s"

definition Acquire_Syscall :: "(post \<Rightarrow> post) \<Rightarrow> int \<Rightarrow> 'a user_proc_scheme \<Rightarrow> (int \<times> 'a user_proc_scheme) result" where
  "Acquire_Syscall W index s = tell_network W ACQUIRE (dec index) s"

definition Release_Syscall :: "(post \<Rightarrow> post) \<Rightarrow> int \<Rightarrow> 'a user_proc_scheme \<Rightarrow> (int \<times> 'a user_proc_scheme) result" where
  "Release_Syscall W index s = tell_network W RELEASE (dec index) s"

definition DestroyCondition_Syscall :: "(post \<Rightarrow> post) \<Rightarrow> int \<Rightarrow> 'a user_proc_scheme \<Rightarrow> (int \<times> 'a user_proc_scheme) result" where
  "DestroyCondition_Syscall W index s = tell_network W DESTROYCV (dec index) s"

definition GetMV_Syscall :: "(post \<Rightarrow> post) \<Rightarrow> int \<Rightarrow> 'a user_proc_scheme \<Rightarrow> (int \<times> 'a user_proc_scheme) result" where
  "GetMV_Syscall W mv s = ask_network W GETMV (dec mv) s"

definition DestroyMV_Syscall :: "(post \<Rightarrow> post) \<Rightarrow> int \<Rightarrow> 'a user_proc_scheme \<Rightarrow> (int \<times> 'a user_proc_scheme) result" where
  "DestroyMV_Syscall W mv s = ask_network W DESTROYMV (dec mv) s"

text \<open>\<open>sprintf(indexBuf, "%d_%d", a, b)\<close> into an array of 16 characters.\<close>

definition two_args :: "int \<Rightarrow> int \<Rightarrow> string result" where
  "two_args a b =
     (let t = dec a @ CHR ''_'' # dec b in if length t \<ge> 16 then Inl Undefined_behaviour else Inr t)"

definition Signal_Syscall :: "(post \<Rightarrow> post) \<Rightarrow> int \<Rightarrow> int \<Rightarrow> 'a user_proc_scheme \<Rightarrow> (int \<times> 'a user_proc_scheme) result" where
  "Signal_Syscall W cv lock s = bindE (two_args cv lock) (\<lambda>t. tell_network W SIGNAL t s)"

definition Wait_Syscall :: "(post \<Rightarrow> post) \<Rightarrow> int \<Rightarrow> int \<Rightarrow> 'a user_proc_scheme \<Rightarrow> (int \<times> 'a user_proc_scheme) result" where
  "Wait_Syscall W cv lock s = bindE (two_args cv lock) (\<lambda>t. tell_network W WAIT t s)"

definition Broadcast_Syscall :: "(post \<Rightarrow> post) \<Rightarrow> int \<Rightarrow> int \<Rightarrow> 'a user_proc_scheme \<Rightarrow> (int \<times> 'a user_proc_scheme) result" where
  "Broadcast_Syscall W cv lock s = bindE (two_args cv lock) (\<lambda>t. tell_network W BROADCAST t s)"

definition SetMV_Syscall :: "(post \<Rightarrow> post) \<Rightarrow> int \<Rightarrow> int \<Rightarrow> 'a user_proc_scheme \<Rightarrow> (int \<times> 'a user_proc_scheme) result" where
  "SetMV_Syscall W mv v s = bindE (two_args mv v) (\<lambda>t. ask_network W SETMV t s)"

text \<open>\<open>data = new char[1]; data[1] = 0\<close> writes behind the array, and nothing is stored in it.\<close>

definition StartUserProgram_Syscall :: "'a user_proc_scheme \<Rightarrow> (int \<times> 'a user_proc_scheme) result" where
  "StartUserProgram_Syscall s = Inl Undefined_behaviour"

definition PrintNumber_Syscall :: "int \<Rightarrow> 'a kproc_scheme \<Rightarrow> (int \<times> 'a kproc_scheme) result" where
  "PrintNumber_Syscall i s = Inr (0, s\<lparr>con_out := con_out s @ map (\<lambda>c. of_char c) (dec i)\<rparr>)"

text \<open>The branches of \<open>ExceptionHandler\<close> for the network; \<open>threads\<close> is for the calls on threads.\<close>

definition net_calls ::
  "(post \<Rightarrow> post) \<Rightarrow> bool \<Rightarrow> 'a user_proc_scheme handler \<Rightarrow> nat
   \<Rightarrow> (syscall \<Rightarrow> 'a user_proc_scheme \<Rightarrow> (int \<times> 'a user_proc_scheme) result)
   \<Rightarrow> syscall \<Rightarrow> 'a user_proc_scheme \<Rightarrow> (int \<times> 'a user_proc_scheme) result"
where
  "net_calls W big h n threads c s =
     (case c of
        SysCreateLock va len \<Rightarrow> CreateLock_Syscall W big h n va len s
      | SysDestroyLock i \<Rightarrow> DestroyLock_Syscall W i s
      | SysAcquire i \<Rightarrow> Acquire_Syscall W i s
      | SysRelease i \<Rightarrow> Release_Syscall W i s
      | SysCreateCondition va len \<Rightarrow> CreateCondition_Syscall W big h n va len s
      | SysDestroyCondition i \<Rightarrow> DestroyCondition_Syscall W i s
      | SysSignal cv lock \<Rightarrow> Signal_Syscall W cv lock s
      | SysWait cv lock \<Rightarrow> Wait_Syscall W cv lock s
      | SysBroadcast cv lock \<Rightarrow> Broadcast_Syscall W cv lock s
      | SysCreateMV va len \<Rightarrow> CreateMV_Syscall W big h n va len s
      | SysSetMV mv v \<Rightarrow> SetMV_Syscall W mv v s
      | SysGetMV mv \<Rightarrow> GetMV_Syscall W mv s
      | SysDestroyMV mv \<Rightarrow> DestroyMV_Syscall W mv s
      | SysStartUserProgram \<Rightarrow> StartUserProgram_Syscall s
      | SysPrintNumber i \<Rightarrow> PrintNumber_Syscall i s
      | _ \<Rightarrow> threads c s)"

section \<open>Waiting for the answer\<close>

lemma Receive_Some:
  assumes "Receive box s = Inr (Some x, s1)"
  shows "length (boxes s1 box) < length (boxes s box)" "thisMail s1 = thisMail s"
proof -
  have l: "length rest < length ms" if "receive_loop ms tbl = Inr (Some x, rest, tbl')" for ms tbl rest tbl'
    using that
  proof (induction ms arbitrary: tbl)
    case (Cons pkt ms)
    then obtain ok d tbl1 where a: "accept pkt tbl = Inr (ok, d, tbl1)" by (auto elim!: bindE_InrE)
    then show ?case using Cons by (cases ok) (fastforce elim!: bindE_InrE)+
  qed simp
  show "length (boxes s1 box) < length (boxes s box)" "thisMail s1 = thisMail s"
    using assms l by (auto simp: Receive_def elim!: bindE_InrE)
qed

lemma await_reply_enough:
  "length (boxes s (thisMail s)) < n \<Longrightarrow> length (boxes s (thisMail s)) < m \<Longrightarrow> await_reply n s = await_reply m s"
proof (induction n arbitrary: s m)
  case (Suc n)
  obtain k where m: "m = Suc k" using Suc.prems(2) by (cases m) auto
  show ?case
  proof (cases "Receive (thisMail s) s")
    case (Inr r)
    have "await_reply n s1 = await_reply k s1" if "r = (Some x, s1)" for x s1
      using Receive_Some[of "thisMail s" s x s1] Inr that Suc.prems m by (intro Suc.IH) simp_all
    then show ?thesis using Inr m by (cases r; cases "fst r") (simp_all cong: bindE_cong if_cong)
  qed (simp add: m)
qed simp

lemma parse_dec: "in_int v \<Longrightarrow> parseValue 0 (dec v) = Inr (v, length (dec v) + 1)"
proof -
  assume v: "in_int v"
  have tw: "takeWhile (\<lambda>c. c \<noteq> CHR ''_'') (dec v) = dec v" using dec_no_underscore[of v] by (auto simp: takeWhile_eq_all_conv)
  have l: "length (dec v) \<le> 11" using v by (intro dec_length) (simp_all add: in_int_def)
  show ?thesis using v l by (simp add: parseValue_def Let_def tw atoi_dec)
qed

text \<open>
  a request returns the number in its answer. When the first message that the program accepts
  after sending is a number other than those of \<open>ACK\<close> and \<open>INVALIDTYPE\<close>, \<open>Request\<close> acknowledges
  it and returns that number, negative ones included.
\<close>

theorem Request_returns_answer:
  assumes "Request_send r data mach mail s = Inr s1"
    and "Receive (thisMail (W s1)) (W s1) = Inr (Some (pkt, dec v), s2)" and "in_int v"
    and "v \<noteq> req ACK" and "v \<noteq> req INVALIDTYPE"
    and "Ack (pktHdr pkt) (mailHdr pkt) (timeStamp pkt) s2 = Inr s3"
  shows "Request W r data mach mail s = Inr (Some v, s3)"
  using assms by (simp add: Request_def parse_dec atoi_int_def atoi_dec)

text \<open>
  C38: \<open>GetMV\<close> of 29 or 31 never returns. When the answer to a request is one of the numbers that
  \<open>ACK\<close> and \<open>INVALIDTYPE\<close> have as types of messages, it is taken for a message of that type and thrown
  away: with nothing else in its box the program waits for ever.
\<close>

theorem GetMV_hangs:
  assumes "Request_send GETMV (dec mv) (getMachineID (office s)) (getMailID (office s)) (office s) = Inr s1"
    and "Receive (thisMail (W s1)) (W s1) = Inr (Some (pkt, dec v), s2)"
    and "v = req ACK \<or> v = req INVALIDTYPE" and "boxes s2 (thisMail s2) = []"
  shows "GetMV_Syscall W mv s = Inl Diverges"
proof -
  have v: "in_int v" using assms(3) by (auto simp: in_int_def)
  have t: "thisMail s2 = thisMail (W s1)" and l: "boxes (W s1) (thisMail (W s1)) \<noteq> []" using Receive_Some[OF assms(2)] by auto
  have in_range: "0 \<le> thisMail s2 \<and> thisMail s2 < numBoxes s2"
    using assms(2) t by (auto simp: Receive_def assertE_def elim!: bindE_InrE split: if_splits)
  have "Receive (thisMail s2) s2 = Inr (None, s2)"
    using in_range assms(4) by (simp add: Receive_def assertE_def fun_upd_idem)
  moreover have "await_reply (Suc (length (boxes (W s1) (thisMail (W s1))))) (W s1) = await_reply (length (boxes (W s1) (thisMail (W s1)))) s2"
    using assms(2,3) v by (auto simp: parse_dec)
  moreover obtain k where "length (boxes (W s1) (thisMail (W s1))) = Suc k" using l by (cases "boxes (W s1) (thisMail (W s1))") auto
  ultimately have "await_reply (Suc (length (boxes (W s1) (thisMail (W s1))))) (W s1) = Inr (None, s2)" by simp
  then show ?thesis using assms(1) by (simp add: GetMV_Syscall_def ask_network_def Request_def)
qed

section \<open>From the call to the server\<close>

lemma request_text_parsed:
  "parseValue 0 (request_text r data) = Inr (req r, length (dec (req r)) + 1)"
  "drop (length (dec (req r)) + 1) (request_text r data) = data"
  "length (dec (req r)) + 1 \<le> length (request_text r data)"
proof -
  have "- (2 ^ 31) \<le> req r" "req r < 2 ^ 31" by (cases r; simp)+
  then show "parseValue 0 (request_text r data) = Inr (req r, length (dec (req r)) + 1)"
    using parseValue_field[of "req r" "[]" data] by (simp add: request_text_def)
qed (simp_all add: request_text_def)

lemma request_type_req: "request_type (req r) = Some r"
  by (cases r) (simp_all add: request_type_def)

lemma process_request:
  assumes "serverCount s = int (length (localNetThreadInfo s))"
  shows "processMessage J inP inM ts (request_text r data) s =
    bindE (handle J r inP inM data s) (\<lambda>h. case h of
        Break b p m s1 \<Rightarrow> Inr (b, if b then s1 else set_errors p inP m inM s1)
      | Return_false s1 \<Rightarrow> Inr (False, s1))"
  using assms request_text_parsed[of r data] by (simp add: processMessage_def assertE_def request_type_req)

lemma two_args_apart:
  assumes "two_args a b = Inr t" "in_int a" "in_int b"
  shows "next_field MaxMailSize t = Inr (dec a, dec b)" "last_field True (dec b) = Inr (dec b)" "hd t \<noteq> CHR ''_''" "t \<noteq> []"
proof -
  have t: "t = dec a @ CHR ''_'' # dec b" "length t < 16" using assms(1) by (auto simp: two_args_def Let_def split: if_splits)
  have "takeWhile (\<lambda>c. c \<noteq> CHR ''_'') t = dec a"
    using dec_no_underscore[of a] t(1) by (simp add: takeWhile_field)
  then show "next_field MaxMailSize t = Inr (dec a, dec b)" using t by (simp add: next_field_def Let_def)
  show "last_field True (dec b) = Inr (dec b)" using t by (simp add: last_field_def)
  have "dec a \<noteq> []" by (simp add: dec_def dec_nat_nonempty)
  then show "hd t \<noteq> CHR ''_''" "t \<noteq> []" using t(1) dec_no_underscore[of a] by (cases "dec a"; auto)+
qed


section \<open>A program and its network thread\<close>

definition answer_mail :: "int \<Rightarrow> Mail" where
  "answer_mail v = packet \<lparr>pk_to = 0, pk_from = 0, pk_length = 0\<rparr> \<lparr>mb_to = 5, mb_from = 4, mb_length = 0\<rparr>
     (Timeval 9 0) (dec 0 @ CHR ''_'' # dec v) 0"

definition answering :: "int \<Rightarrow> post \<Rightarrow> post" where
  "answering v p = p\<lparr>boxes := (boxes p)(5 := [answer_mail v])\<rparr>"

lemma demo_answer:
  assumes "length (request_text r data) < 20" and v: "in_int v"
  obtains s1 s2 s3 where "Request_send r data 0 4 (post_init 0 100 5) = Inr s1"
    "Receive (thisMail (answering v s1)) (answering v s1) = Inr (Some (answer_mail v, dec v), s2)"
    "boxes s2 (thisMail s2) = []"
    "Ack (pktHdr (answer_mail v)) (mailHdr (answer_mail v)) (timeStamp (answer_mail v)) s2 = Inr s3"
proof -
  let ?p = "\<lparr>pk_to = 0, pk_from = 0, pk_length = 0\<rparr>"
  let ?m = "\<lparr>mb_to = 4, mb_from = 5, mb_length = length (request_text r data) + 1\<rparr>"
  let ?s = "(post_init 0 100 5)\<lparr>reads := 1\<rparr>"
  have snd: "\<exists>s1. Send ?p ?m (Timeval 1000 0) (request_text r data) True ?s = Inr (True, s1) \<and> thisMail s1 = 5
    \<and> numBoxes s1 = 100 \<and> netAddr s1 = 0 \<and> receiveCounters s1 = []"
    using Send_new[of ?m ?s ?p "Timeval 1000 0" True 0 "[ThreadCounterEntry_new 0 4]" _ "request_text r data", OF _ _ _ _ _ refl] assms(1)
    by (simp add: post_init_def next_counter_def dec_0)
  then obtain s1 where s1: "Send ?p ?m (Timeval 1000 0) (request_text r data) True ?s = Inr (True, s1)" "thisMail s1 = 5"
    "numBoxes s1 = 100" "netAddr s1 = 0" "receiveCounters s1 = []" by blast
  have rs: "Request_send r data 0 4 (post_init 0 100 5) = Inr s1"
    using s1(1) assms(1) by (simp add: Request_send_def into_tmp_def Send_now_def gettimeofday_def halt_unless_sent_def post_init_def)
  have ln: "length (dec v) \<le> 11" using v by (intro dec_length) (simp_all add: in_int_def)
  have ac: "accept (answer_mail v) [] = Inr (True, dec v, advance 0 4 [])"
    using accept_expected[of "answer_mail v" 0 "dec v" "[]"]
    by (simp add: answer_mail_def packet_def counters_ok_def expects_def in_int_def)
  have mb: "mb_length (mailHdr (answer_mail v)) \<le> MaxMailSize" using ln by (simp add: answer_mail_def packet_def dec_0)
  let ?s2 = "s1\<lparr>boxes := (boxes s1)(5 := []), receiveCounters := advance 0 4 []\<rparr>"
  have rc: "Receive (thisMail (answering v s1)) (answering v s1) = Inr (Some (answer_mail v, dec v), ?s2)"
    using ac mb s1 by (simp add: Receive_def answering_def assertE_def)
  have "\<exists>s3. Ack (pktHdr (answer_mail v)) (mailHdr (answer_mail v)) (timeStamp (answer_mail v)) ?s2 = Inr s3"
    using s1 by (simp add: Ack_def answer_mail_def packet_def)
  then show thesis using that[OF rs rc] s1(2) by auto
qed

lemma demo_text: "length (request_text GETMV (dec 3)) < 20"
proof -
  have "length (dec 3) \<le> 11" "length (dec (req GETMV)) \<le> 11" by (rule dec_length; simp)+
  moreover have "length (dec 3) \<le> 1" "length (dec (req GETMV)) \<le> 2"
    using dec_nat_length[of 3 1] dec_nat_length[of 11 2] by (simp_all add: dec_def)
  ultimately show ?thesis by (simp add: request_text_def)
qed

lemma Request_returns_answer_witness:
  "\<exists>p. Request (answering 42) GETMV (dec 3) 0 4 (post_init 0 100 5) = Inr (Some 42, p)"
proof -
  have "in_int 42" by (simp add: in_int_def)
  then obtain s1 s2 s3 where a: "Request_send GETMV (dec 3) 0 4 (post_init 0 100 5) = Inr s1"
    "Receive (thisMail (answering 42 s1)) (answering 42 s1) = Inr (Some (answer_mail 42, dec 42), s2)"
    "boxes s2 (thisMail s2) = []"
    "Ack (pktHdr (answer_mail 42)) (mailHdr (answer_mail 42)) (timeStamp (answer_mail 42)) s2 = Inr s3"
    by (rule demo_answer[OF demo_text]) (rule that, assumption+)
  show ?thesis using Request_returns_answer[of GETMV "dec 3" 0 4 _ s1 "answering 42" "answer_mail 42" 42 s2 s3] a \<open>in_int 42\<close> by simp
qed

lemma GetMV_hangs_witness:
  "\<exists>s :: user_proc. GetMV_Syscall (answering 29) 3 s = Inl Diverges \<and> office s = post_init 0 100 5"
proof -
  obtain s :: user_proc where s: "office s = post_init 0 100 5"
    by (rule that[of "kproc.extend (demo_kproc (demo_vm [])) \<lparr>office = post_init 0 100 5\<rparr>"]) (simp add: kproc.extend_def)
  have i: "in_int 29" by (simp add: in_int_def)
  obtain s1 s2 s3 where a: "Request_send GETMV (dec 3) 0 4 (post_init 0 100 5) = Inr s1"
    "Receive (thisMail (answering 29 s1)) (answering 29 s1) = Inr (Some (answer_mail 29, dec 29), s2)"
    "boxes s2 (thisMail s2) = []"
    "Ack (pktHdr (answer_mail 29)) (mailHdr (answer_mail 29)) (timeStamp (answer_mail 29)) s2 = Inr s3"
    by (rule demo_answer[OF demo_text i]) (rule that, assumption+)
  have "getMachineID (office s) = 0" "getMailID (office s) = 4" by (simp_all add: s getMachineID_def getMailID_def post_init_def)
  then have "GetMV_Syscall (answering 29) 3 s = Inl Diverges"
    using GetMV_hangs[of 3 s s1 "answering 29" "answer_mail 29" 29 s2] a s by simp
  then show ?thesis using s by blast
qed


end
