(* ===== verification/SynchList.thy ===== *)
theory SynchList
  imports NachosList Threads
begin

text \<open>
  \<open>threads/synchlist.cc\<close>: the list that threads share, used for the mailboxes of the post office and for
  the frames of the inverted page table. A lock protects a \<open>List\<close>, and a thread that removes from an empty
  list waits on a condition. Any number of threads call its methods here under every interleaving that the
  scheduler allows; between any two operations inside a method the thread can lose the CPU. The properties
  say that the list is a queue, that its lock excludes, and that nobody waits while there is an item.
\<close>

section \<open>State\<close>

text \<open>The last thing a thread did in the method it is in.\<close>

datatype slpoint =
    SL_Outside
  | Append_locked nat | Append_stored | Append_signalled
  | Remove_test | Remove_take | Remove_taken nat
  | Mapcar_locked | Mapcar_done

record synchlist =
  sl_kern :: kern
  sl_list :: lst
  sl_heap :: heap
  sl_point :: "nat \<Rightarrow> slpoint"

text \<open>The lock and the condition of the list, as numbers of the kernel.\<close>

abbreviation (input) sl_lock :: nat where "sl_lock \<equiv> 0"
abbreviation (input) listEmpty :: nat where "listEmpty \<equiv> 0"

abbreviation running :: "synchlist \<Rightarrow> nat" where "running s \<equiv> currentThread (sl_kern s)"

abbreviation sl_goto :: "slpoint \<Rightarrow> synchlist \<Rightarrow> synchlist" where
  "sl_goto p s \<equiv> s\<lparr>sl_point := (sl_point s)(running s := p)\<rparr>"

text \<open>What the calls did to the list, and to which thread.\<close>

datatype slevent = Appended nat nat | Removed nat nat | Visited nat "nat list"

definition SynchList_new :: "kern \<Rightarrow> heap \<Rightarrow> synchlist" where
  "SynchList_new k h =
     \<lparr>sl_kern = set_cond listEmpty Condition_new (set_lock sl_lock Lock_new k), sl_list = List_new, sl_heap = h,
      sl_point = (\<lambda>_. SL_Outside)\<rparr>"

section \<open>The methods\<close>

text \<open>Every method begins with \<open>lock->Acquire()\<close> and ends with \<open>lock->Release()\<close>.\<close>

definition sl_enter :: "slpoint \<Rightarrow> synchlist \<Rightarrow> synchlist result" where
  "sl_enter p s = bindE (Acquire sl_lock (sl_kern s)) (\<lambda>k. Inr ((sl_goto p s)\<lparr>sl_kern := k\<rparr>))"

definition sl_leave :: "synchlist \<Rightarrow> synchlist" where
  "sl_leave s = (sl_goto SL_Outside s)\<lparr>sl_kern := Release sl_lock (sl_kern s)\<rparr>"

definition Append_store :: "nat \<Rightarrow> synchlist \<Rightarrow> (slevent list \<times> synchlist) result" where
  "Append_store it s =
     bindE (Append it (sl_list s) (sl_heap s)) (\<lambda>(l, h).
     Inr ([Appended (running s) it], (sl_goto Append_stored s)\<lparr>sl_list := l, sl_heap := h\<rparr>))"

definition Append_signal :: "synchlist \<Rightarrow> synchlist" where
  "Append_signal s = (sl_goto Append_signalled s)\<lparr>sl_kern := Signal listEmpty (Some sl_lock) (sl_kern s)\<rparr>"

text \<open>\<open>while (list->IsEmpty()) listEmpty->Wait(lock)\<close>\<close>

definition Remove_look :: "synchlist \<Rightarrow> synchlist result" where
  "Remove_look s =
     (if IsEmpty (sl_list s) then
        bindE (Wait listEmpty (Some sl_lock) (sl_kern s)) (\<lambda>k. Inr ((sl_goto Remove_test s)\<lparr>sl_kern := k\<rparr>))
      else Inr (sl_goto Remove_take s))"

definition Remove_item :: "synchlist \<Rightarrow> (slevent list \<times> synchlist) result" where
  "Remove_item s =
     bindE (Remove (sl_list s) (sl_heap s)) (\<lambda>(it, l, h).
     bindE (assertE (it \<noteq> 0)) (\<lambda>_.
     Inr ([Removed (running s) it], (sl_goto (Remove_taken it) s)\<lparr>sl_list := l, sl_heap := h\<rparr>)))"

definition Mapcar_visit :: "synchlist \<Rightarrow> (slevent list \<times> synchlist) result" where
  "Mapcar_visit s =
     bindE (Mapcar (sl_list s) (sl_heap s)) (\<lambda>its. Inr ([Visited (running s) its], sl_goto Mapcar_done s))"

text \<open>The next operation of the running thread.\<close>

definition sl_continue :: "synchlist \<Rightarrow> (slevent list \<times> synchlist) result" where
  "sl_continue s =
     (case sl_point s (running s) of
        SL_Outside \<Rightarrow> Inr ([], s)
      | Append_locked it \<Rightarrow> Append_store it s
      | Append_stored \<Rightarrow> Inr ([], Append_signal s)
      | Append_signalled \<Rightarrow> Inr ([], sl_leave s)
      | Remove_test \<Rightarrow> bindE (Remove_look s) (\<lambda>s1. Inr ([], s1))
      | Remove_take \<Rightarrow> Remove_item s
      | Remove_taken it \<Rightarrow> Inr ([], sl_leave s)
      | Mapcar_locked \<Rightarrow> Mapcar_visit s
      | Mapcar_done \<Rightarrow> Inr ([], sl_leave s))"

section \<open>Steps\<close>

text \<open>What else a thread may do while it is in no method of the list: anything that leaves the lock and the
  condition of the list alone.\<close>

primrec elsewhere :: "op \<Rightarrow> bool" where
  "elsewhere (Op_P i) = True"
| "elsewhere (Op_V i) = True"
| "elsewhere (Op_Acquire l) = (l \<noteq> sl_lock)"
| "elsewhere (Op_Release l) = (l \<noteq> sl_lock)"
| "elsewhere (Op_Wait c lo) = (c \<noteq> listEmpty \<and> lo \<noteq> Some sl_lock)"
| "elsewhere (Op_Signal c lo) = (c \<noteq> listEmpty)"
| "elsewhere (Op_Broadcast c lo) = (c \<noteq> listEmpty)"
| "elsewhere Op_Yield = True"
| "elsewhere Op_Finish = True"
| "elsewhere (Op_Fork t) = True"

definition ready_to_go :: "synchlist \<Rightarrow> bool" where
  "ready_to_go s \<longleftrightarrow> \<not> idle (sl_kern s) \<and> kont (sl_kern s) (running s) = Returned"

inductive sl_step :: "synchlist \<Rightarrow> slevent list \<Rightarrow> synchlist \<Rightarrow> bool" where
  begins: "ready_to_go s \<Longrightarrow> sl_point s (running s) = SL_Outside \<Longrightarrow> p \<in> {Append_locked it, Remove_test, Mapcar_locked} \<Longrightarrow> it \<noteq> 0 \<Longrightarrow>
    sl_enter p s = Inr s' \<Longrightarrow> sl_step s [] s'"
| continues: "ready_to_go s \<Longrightarrow> sl_point s (running s) \<noteq> SL_Outside \<Longrightarrow> sl_continue s = Inr (es, s') \<Longrightarrow> sl_step s es s'"
| other: "ready_to_go s \<Longrightarrow> sl_point s (running s) = SL_Outside \<Longrightarrow> elsewhere x \<Longrightarrow>
    (\<And>t. x = Op_Fork t \<Longrightarrow> tstatus (sl_kern s) t = JUST_CREATED) \<Longrightarrow>
    run_op x (sl_kern s) = Inr k \<Longrightarrow> sl_step s [] (s\<lparr>sl_kern := k\<rparr>)"
| resumes: "\<not> idle (sl_kern s) \<Longrightarrow> kont (sl_kern s) (running s) \<noteq> Returned \<Longrightarrow> resume (sl_kern s) = Inr k \<Longrightarrow>
    sl_step s [] (s\<lparr>sl_kern := k\<rparr>)"
| preempted: "ready_to_go s \<Longrightarrow> Yield (sl_kern s) = Inr k \<Longrightarrow> sl_step s [] (s\<lparr>sl_kern := k\<rparr>)"
| device: "V i (sl_kern s) = Inr k \<Longrightarrow> sl_step s [] (s\<lparr>sl_kern := k\<rparr>)"
| wakes: "idle (sl_kern s) \<Longrightarrow> readyList (sl_kern s) \<noteq> [] \<Longrightarrow> look_for_work (sl_kern s) = Inr k \<Longrightarrow>
    sl_step s [] (s\<lparr>sl_kern := k\<rparr>)"

inductive sl_run :: "synchlist \<Rightarrow> slevent list \<Rightarrow> synchlist \<Rightarrow> bool" where
  sl_start: "sl_run s [] s"
| sl_more: "sl_run s es s' \<Longrightarrow> sl_step s' es' s'' \<Longrightarrow> sl_run s (es @ es') s''"

text \<open>The items put in and taken out, in order.\<close>

fun put_in :: "slevent list \<Rightarrow> nat list" where
  "put_in [] = []"
| "put_in (Appended t it # es) = it # put_in es"
| "put_in (e # es) = put_in es"

fun taken_out :: "slevent list \<Rightarrow> nat list" where
  "taken_out [] = []"
| "taken_out (Removed t it # es) = it # taken_out es"
| "taken_out (e # es) = taken_out es"

lemma put_in_append [simp]: "put_in (es @ es') = put_in es @ put_in es'"
  by (induction es rule: put_in.induct) simp_all

lemma taken_out_append [simp]: "taken_out (es @ es') = taken_out es @ taken_out es'"
  by (induction es rule: taken_out.induct) simp_all

section \<open>What the operations of the kernel leave alone\<close>

definition awake :: "kern \<Rightarrow> nat \<Rightarrow> bool" where
  "awake k t \<longleftrightarrow> tstatus k t = READY \<or> tstatus k t = RUNNING"

text \<open>A thread inside an operation on other locks and conditions.\<close>

fun stranger :: "kont \<Rightarrow> bool" where
  "stranger (After_Acquire l) = (l \<noteq> sl_lock)"
| "stranger (After_Wait c l) = (c \<noteq> listEmpty \<and> l \<noteq> sl_lock)"
| "stranger c = True"

definition same_monitor :: "kern \<Rightarrow> kern \<Rightarrow> bool" where
  "same_monitor k k' \<longleftrightarrow> locks k' sl_lock = locks k sl_lock \<and> conds k' listEmpty = conds k listEmpty"

definition apart :: "kern \<Rightarrow> kern \<Rightarrow> bool" where
  "apart k k' \<longleftrightarrow> same_monitor k k' \<and> stranger (kont k' (currentThread k))
     \<and> (\<forall>t. t \<noteq> currentThread k \<longrightarrow> kont k' t = kont k t \<and> (awake k t \<longrightarrow> awake k' t))"

lemma look_for_work_awake:
  "look_for_work k = Inr k' \<Longrightarrow> \<forall>t \<in> set (readyList k). tstatus k t = READY \<Longrightarrow> awake k' t = awake k t"
  by (auto simp: look_for_work_def FindNextToRun_def Run_def Let_def bindE_eq_Inr awake_def
      split: list.splits option.splits if_splits)

lemma ready_threads:
  "sched_ok k \<Longrightarrow> t \<in> set (readyList k) \<Longrightarrow> tstatus k t = READY"
  using sched_okD(1) by blast

lemma running_not_ready: "sched_ok k \<Longrightarrow> \<not> idle k \<Longrightarrow> currentThread k \<notin> set (readyList k)"
  using sched_okD(1,3)[of k "currentThread k"] by auto

lemma Sleep_facts:
  assumes "Sleep k1 = Inr k'" and "sched_ok k" and "\<not> idle k" and "readyList k1 = readyList k"
    and "currentThread k1 = currentThread k" and "tstatus k1 = tstatus k"
  shows "locks k' = locks k1" "conds k' = conds k1" "kont k' = kont k1"
    "t \<noteq> currentThread k \<Longrightarrow> awake k' t = awake k t"
proof -
  let ?k = "set_status (currentThread k1) BLOCKED k1"
  have l: "look_for_work ?k = Inr k'" using assms(1) by (simp add: Sleep_def)
  show "locks k' = locks k1" "conds k' = conds k1" "kont k' = kont k1"
    using look_for_work_frame[OF l] by simp_all
  have "\<forall>u \<in> set (readyList ?k). tstatus ?k u = READY"
    using ready_threads[OF assms(2)] running_not_ready[OF assms(2,3)] assms(4,5,6) by auto
  then show "t \<noteq> currentThread k \<Longrightarrow> awake k' t = awake k t"
    using look_for_work_awake[OF l] assms(5,6) by (simp add: awake_def)
qed

lemma Sleep_apart:
  assumes "Sleep k1 = Inr k'" and "sched_ok k" and "\<not> idle k" and "readyList k1 = readyList k"
    and "currentThread k1 = currentThread k" and "tstatus k1 = tstatus k" and "same_monitor k k1"
    and "stranger (kont k1 (currentThread k))" and "\<And>t. t \<noteq> currentThread k \<Longrightarrow> kont k1 t = kont k t"
  shows "apart k k'"
  using Sleep_facts[OF assms(1-6)] assms(7-9) by (simp add: apart_def same_monitor_def)

lemma ReadyToRun_apart:
  "kont k (currentThread k) = Returned \<Longrightarrow> apart k (ReadyToRun t k)"
  by (simp add: apart_def same_monitor_def ReadyToRun_def awake_def)

lemma apart_refl: "kont k (currentThread k) = Returned \<Longrightarrow> apart k k"
  by (simp add: apart_def same_monitor_def)

lemma apart_trans:
  "apart k k1 \<Longrightarrow> apart k1 k2 \<Longrightarrow> currentThread k1 = currentThread k \<Longrightarrow> apart k k2"
  by (simp add: apart_def same_monitor_def)

lemma Signal_apart:
  "c \<noteq> listEmpty \<Longrightarrow> kont k (currentThread k) = Returned \<Longrightarrow> apart k (Signal c lo k)
     \<and> currentThread (Signal c lo k) = currentThread k \<and> kont (Signal c lo k) = kont k"
  by (auto simp: Signal_def Let_def apart_def same_monitor_def ReadyToRun_def awake_def split: list.split)

lemma broadcast_apart:
  "c \<noteq> listEmpty \<Longrightarrow> kont k (currentThread k) = Returned \<Longrightarrow> broadcast_loop n c lo k = Inr k' \<Longrightarrow> apart k k'"
proof (induction n arbitrary: k)
  case 0
  then show ?case by (auto simp: apart_refl split: if_splits)
next
  case (Suc n)
  show ?case
  proof (cases "cv_waiting (conds k c) = []")
    case True
    then show ?thesis using Suc.prems by (simp add: apart_refl)
  next
    case False
    note s = Signal_apart[OF Suc.prems(1,2), of lo]
    then have "apart (Signal c lo k) k'" using Suc.prems False by (intro Suc.IH) simp_all
    then show ?thesis using apart_trans s by blast
  qed
qed

lemma Release_apart:
  "l \<noteq> sl_lock \<Longrightarrow> kont k (currentThread k) = Returned \<Longrightarrow> apart k (Release l k)"
  by (auto simp: Release_def Let_def apart_def same_monitor_def ReadyToRun_def awake_def split: list.split)

lemma Yield_facts:
  assumes "Yield k = Inr k'" and "sched_ok k" and "\<not> idle k"
  shows "same_monitor k k'" "kont k' = kont k" "awake k' t = awake k t"
proof -
  note f = sched_okD(1,3)[OF assms(2)]
  show "same_monitor k k'" "kont k' = kont k"
    using assms(1) by (auto simp: Yield_def FindNextToRun_def Run_def ReadyToRun_def Let_def bindE_eq_Inr
        same_monitor_def split: list.splits option.splits)
  show "awake k' t = awake k t"
    using assms(1,3) f[of "currentThread k"] f(1)[of t] f(1)[of "hd (readyList k)"]
    by (auto simp: Yield_def FindNextToRun_def Run_def ReadyToRun_def Let_def bindE_eq_Inr awake_def
        split: list.splits option.splits if_splits)
qed

lemma Acquire_apart:
  assumes "Acquire l k = Inr k'" and "sched_ok k" and "\<not> idle k" and "l \<noteq> sl_lock" and "kont k (currentThread k) = Returned"
  shows "apart k k'"
proof (cases "isHeldByCurrentThread l k \<or> lk_state (locks k l) = FREE")
  case True
  then show ?thesis using assms
    by (auto simp: Acquire_def Let_def apart_def same_monitor_def awake_def split: if_splits)
next
  case False
  then have s: "Sleep (set_kont (currentThread k) (After_Acquire l)
      (set_lock l ((locks k l)\<lparr>lk_waiting := lk_waiting (locks k l) @ [currentThread k]\<rparr>) k)) = Inr k'"
    using assms(1) by (simp add: Acquire_def Let_def)
  show ?thesis by (rule Sleep_apart[OF s assms(2,3)]) (simp_all add: same_monitor_def assms(4))
qed

lemma P_apart:
  assumes "P i k = Inr k'" and "sched_ok k" and "\<not> idle k" and "kont k (currentThread k) = Returned"
  shows "apart k k'"
proof (cases "s_value (sems k i) = 0")
  case False
  then show ?thesis using assms by (auto simp: P_def Let_def apart_def same_monitor_def awake_def)
next
  case True
  then have s: "Sleep (set_kont (currentThread k) (After_P i)
      (set_sem i ((sems k i)\<lparr>s_queue := s_queue (sems k i) @ [currentThread k]\<rparr>) k)) = Inr k'"
    using assms(1) by (simp add: P_def Let_def)
  show ?thesis by (rule Sleep_apart[OF s assms(2,3)]) (simp_all add: same_monitor_def)
qed

lemma Wait_apart:
  assumes "Wait c lo k = Inr k'" and "kern_inv k" and "\<not> idle k" and "c \<noteq> listEmpty" and "lo \<noteq> Some sl_lock"
    and "kont k (currentThread k) = Returned"
  shows "apart k k'"
proof (cases lo)
  case None
  then show ?thesis using assms(1,6) by (simp add: Wait_def apart_refl)
next
  case (Some l)
  note sched = kern_inv_parts(1)[OF assms(2)]
  let ?x1 = "if cv_lock (conds k c) = None then (conds k c)\<lparr>cv_lock := Some l\<rparr> else conds k c"
  let ?k2 = "Release l (set_cond c (?x1\<lparr>cv_waiting := cv_waiting ?x1 @ [currentThread k]\<rparr>) k)"
  show ?thesis
  proof (cases "cv_lock ?x1 = Some l")
    case False
    then show ?thesis using assms Some
      by (auto simp: Wait_def Let_def apart_def same_monitor_def awake_def split: if_splits)
  next
    case True
    then have s: "Sleep (set_kont (currentThread k) (After_Wait c l) ?k2) = Inr k'"
      using assms(1) Some by (simp add: Wait_def Let_def)
    let ?k1 = "set_kont (currentThread k) (After_Wait c l) ?k2"
    let ?kb = "set_status (currentThread ?k1) BLOCKED ?k1"
    have l: "look_for_work ?kb = Inr k'" using s by (simp add: Sleep_def)
    have r: "\<forall>u \<in> set (readyList ?kb). tstatus ?kb u = READY"
      using ready_threads[OF sched] running_not_ready[OF sched assms(3)] running_facts(5)[OF assms(2,3), of l]
      by (auto simp: Release_def Let_def ReadyToRun_def isHeldByCurrentThread_def split: list.splits)
    show ?thesis using look_for_work_frame[OF l] look_for_work_awake[OF l r] assms(4,5) Some
      by (auto simp: apart_def same_monitor_def Release_frame Release_def Let_def ReadyToRun_def
          isHeldByCurrentThread_def awake_def split: list.splits)
  qed
qed

lemma V_apart:
  "V i k = Inr k' \<Longrightarrow> same_monitor k k' \<and> kont k' = kont k \<and> (awake k t \<longrightarrow> awake k' t)"
  by (auto simp: V_def Let_def same_monitor_def ReadyToRun_def awake_def split: list.splits if_splits)

lemma Finish_apart:
  assumes "Finish k = Inr k'" and "sched_ok k" and "\<not> idle k" and "kont k (currentThread k) = Returned"
  shows "apart k k'"
proof -
  have s: "Sleep (k\<lparr>threadToBeDestroyed := Some (currentThread k)\<rparr>) = Inr k'" using assms(1) by (simp add: Finish_def)
  show ?thesis by (rule Sleep_apart[OF s assms(2,3)]) (simp_all add: same_monitor_def assms(4))
qed

lemma run_op_apart:
  assumes "run_op x k = Inr k'" and "kern_inv k" and "\<not> idle k" and "kont k (currentThread k) = Returned" and "elsewhere x"
  shows "apart k k'"
proof (cases x)
  case (Op_P i) then show ?thesis using P_apart kern_inv_parts(1)[OF assms(2)] assms by simp
next
  case (Op_V i) then show ?thesis using V_apart[of i k k'] assms by (simp add: apart_def)
next
  case (Op_Acquire l) then show ?thesis using Acquire_apart kern_inv_parts(1)[OF assms(2)] assms by simp
next
  case (Op_Release l) then show ?thesis using Release_apart assms by auto
next
  case (Op_Wait c lo) then show ?thesis using Wait_apart assms by simp
next
  case (Op_Signal c lo) then show ?thesis using Signal_apart assms by auto
next
  case (Op_Broadcast c lo) then show ?thesis using broadcast_apart assms by (auto simp: Broadcast_def)
next
  case Op_Yield then show ?thesis using Yield_facts[of k k'] kern_inv_parts(1)[OF assms(2)] assms by (simp add: apart_def)
next
  case Op_Finish then show ?thesis using Finish_apart kern_inv_parts(1)[OF assms(2)] assms by simp
next
  case (Op_Fork t) then show ?thesis using ReadyToRun_apart assms by (auto simp: Fork_def)
qed

lemma resume_apart:
  assumes "resume k = Inr k'" and "sched_ok k" and "\<not> idle k" and "stranger (kont k (currentThread k))"
  shows "apart k k'"
proof -
  let ?me = "currentThread k" and ?k = "set_kont (currentThread k) Returned k"
  have st: "tstatus k ?me = RUNNING" using sched_okD(3)[OF assms(2)] assms(3) by simp
  have so: "sched_ok ?k" using assms(2) st by (auto simp: sched_ok_def)
  have a: "apart k ?k" by (simp add: apart_def same_monitor_def awake_def)
  have "kont k ?me \<noteq> Returned \<Longrightarrow> apart ?k k'"
    using assms so
    by (cases "kont k ?me")
      (auto simp: resume_def Let_def intro: P_apart Acquire_apart apart_refl)
  moreover have "kont k ?me = Returned \<Longrightarrow> apart k k'" using assms(1) by (auto simp: resume_def Let_def apart_refl)
  ultimately show ?thesis using apart_trans[OF a] by auto
qed

section \<open>The operations on the lock and the condition of the list\<close>

abbreviation owner :: "kern \<Rightarrow> nat option" where "owner k \<equiv> lk_owner (locks k sl_lock)"
abbreviation sleepers :: "kern \<Rightarrow> nat list" where "sleepers k \<equiv> cv_waiting (conds k listEmpty)"

text \<open>What an operation of the running thread may do to the others: those that wait for the lock can get it.\<close>

definition moves :: "kern \<Rightarrow> kern \<Rightarrow> bool" where
  "moves k k' \<longleftrightarrow> (\<forall>t. t \<noteq> currentThread k \<longrightarrow>
     kont k' t = kont k t \<and> (awake k t \<longrightarrow> awake k' t) \<and> (owner k = Some t \<longrightarrow> owner k' = Some t)
     \<and> (owner k' = Some t \<longrightarrow> owner k = Some t \<or> kont k t = After_Acquire sl_lock))"

lemma moves_refl [simp]: "moves k k"
  by (simp add: moves_def)

lemma Acquire_effect:
  assumes "Acquire sl_lock k = Inr k'" and "sched_ok k" and "\<not> idle k" and "kont k (currentThread k) = Returned"
    and "lk_state (locks k sl_lock) = FREE \<longleftrightarrow> owner k = None" and "owner k \<noteq> Some (currentThread k)"
  shows "conds k' = conds k" "moves k k'"
    "owner k' = Some (currentThread k) \<and> kont k' (currentThread k) = Returned \<and> awake k' (currentThread k)
     \<or> owner k' \<noteq> Some (currentThread k) \<and> kont k' (currentThread k) = After_Acquire sl_lock"
proof -
  let ?me = "currentThread k"
  have a: "awake k ?me" using sched_okD(3)[OF assms(2)] assms(3) by (simp add: awake_def)
  have "conds k' = conds k \<and> moves k k' \<and> (owner k' = Some ?me \<and> kont k' ?me = Returned \<and> awake k' ?me
     \<or> owner k' \<noteq> Some ?me \<and> kont k' ?me = After_Acquire sl_lock)"
  proof (cases "owner k")
    case None
    then have "k' = set_lock sl_lock ((locks k sl_lock)\<lparr>lk_state := BUSY, lk_owner := Some ?me\<rparr>) k"
      using assms(1,5) by (simp add: Acquire_def Let_def isHeldByCurrentThread_def)
    then show ?thesis using a assms(4) None by (simp add: moves_def awake_def)
  next
    case (Some t)
    then have s: "Sleep (set_kont ?me (After_Acquire sl_lock)
        (set_lock sl_lock ((locks k sl_lock)\<lparr>lk_waiting := lk_waiting (locks k sl_lock) @ [?me]\<rparr>) k)) = Inr k'"
      using assms(1,5,6) by (simp add: Acquire_def Let_def isHeldByCurrentThread_def)
    note f = Sleep_facts[OF s assms(2,3)]
    show ?thesis using f Some assms(6) by (simp add: moves_def)
  qed
  then show "conds k' = conds k" "moves k k'"
    "owner k' = Some ?me \<and> kont k' ?me = Returned \<and> awake k' ?me
     \<or> owner k' \<noteq> Some ?me \<and> kont k' ?me = After_Acquire sl_lock" by blast+
qed

lemma Release_effect:
  assumes "kern_inv k" and "\<not> idle k" and "owner k = Some (currentThread k)"
  shows "moves k (Release sl_lock k)" "owner (Release sl_lock k) \<noteq> Some (currentThread k)"
    "awake k t \<Longrightarrow> awake (Release sl_lock k) t"
proof -
  have w: "t \<in> set (lk_waiting (locks k sl_lock)) \<Longrightarrow> kont k t = After_Acquire sl_lock" for t
    using queues_okD(2)[OF kern_inv_parts(3)[OF assms(1)]] by blast
  show "moves k (Release sl_lock k)"
    using assms(3) w by (auto simp: moves_def Release_def Let_def isHeldByCurrentThread_def ReadyToRun_def awake_def
        split: list.split)
  show "owner (Release sl_lock k) \<noteq> Some (currentThread k)"
    using assms(3) running_facts(5)[OF assms(1,2), of sl_lock]
    by (auto simp: Release_def Let_def isHeldByCurrentThread_def ReadyToRun_def split: list.split)
  show "awake k t \<Longrightarrow> awake (Release sl_lock k) t"
    by (auto simp: Release_def Let_def ReadyToRun_def awake_def split: list.split)
qed

lemma Wait_effect:
  assumes "Wait listEmpty (Some sl_lock) k = Inr k'" and "kern_inv k" and "\<not> idle k" and "owner k = Some (currentThread k)"
    and "cv_lock (conds k listEmpty) \<in> {None, Some sl_lock}"
  shows "moves k k'" "owner k' \<noteq> Some (currentThread k)" "kont k' (currentThread k) = After_Wait listEmpty sl_lock"
    "sleepers k' = sleepers k @ [currentThread k]" "cv_lock (conds k' listEmpty) = Some sl_lock"
proof -
  let ?me = "currentThread k" and ?x = "(conds k listEmpty)\<lparr>cv_lock := Some sl_lock, cv_waiting := sleepers k @ [currentThread k]\<rparr>"
  let ?r = "Release sl_lock k"
  have s: "Sleep (set_kont ?me (After_Wait listEmpty sl_lock) (set_cond listEmpty ?x ?r)) = Inr k'"
  proof (cases "cv_lock (conds k listEmpty)")
    case None
    then show ?thesis using assms(1) by (simp add: Wait_def Let_def Release_frame)
  next
    case (Some l)
    then have e: "?x = (conds k listEmpty)\<lparr>cv_waiting := sleepers k @ [?me]\<rparr>"
      using assms(5) by (cases "conds k listEmpty") simp
    show ?thesis unfolding e using assms(1,5) Some by (simp add: Wait_def Let_def Release_frame)
  qed
  let ?k1 = "set_kont ?me (After_Wait listEmpty sl_lock) (set_cond listEmpty ?x ?r)"
  let ?kb = "set_status (currentThread ?k1) BLOCKED ?k1"
  have l: "look_for_work ?kb = Inr k'" using s by (simp add: Sleep_def)
  note sched = kern_inv_parts(1)[OF assms(2)]
  have r: "\<forall>u \<in> set (readyList ?kb). tstatus ?kb u = READY"
    using ready_threads[OF sched] running_not_ready[OF sched assms(3)] running_facts(5)[OF assms(2,3), of sl_lock]
    by (auto simp: Release_def Let_def ReadyToRun_def isHeldByCurrentThread_def split: list.splits)
  note f = look_for_work_frame[OF l] and a = look_for_work_awake[OF l r] and re = Release_effect[OF assms(2-4)]
  have kb: "awake ?kb t = awake ?r t" if "t \<noteq> ?me" for t using that by (simp add: awake_def Release_frame)
  show "moves k k'" using f a re(1) kb by (auto simp: moves_def Release_frame)
  show "owner k' \<noteq> Some ?me" "kont k' ?me = After_Wait listEmpty sl_lock" "sleepers k' = sleepers k @ [?me]"
    "cv_lock (conds k' listEmpty) = Some sl_lock"
    using f re(2) by (simp_all add: Release_frame)
qed

lemma Signal_effect:
  assumes "cv_lock (conds k listEmpty) = Some sl_lock \<or> sleepers k = []"
  shows "moves k (Signal listEmpty (Some sl_lock) k)" "locks (Signal listEmpty (Some sl_lock) k) = locks k"
    "kont (Signal listEmpty (Some sl_lock) k) = kont k"
    "sleepers (Signal listEmpty (Some sl_lock) k) = tl (sleepers k)"
    "awake k t \<Longrightarrow> awake (Signal listEmpty (Some sl_lock) k) t"
    "cv_lock (conds (Signal listEmpty (Some sl_lock) k) listEmpty) \<in> {cv_lock (conds k listEmpty), None}"
  using assms by (auto simp: Signal_def Let_def moves_def ReadyToRun_def awake_def split: list.split)

section \<open>The invariant\<close>

fun entering :: "slpoint \<Rightarrow> bool" where
  "entering (Append_locked it) = (it \<noteq> 0)"
| "entering Remove_test = True"
| "entering Mapcar_locked = True"
| "entering p = False"

text \<open>A thread in a method has the lock, or waits for it at the beginning, or waits on the condition.\<close>

definition thread_ok :: "kern \<Rightarrow> slpoint \<Rightarrow> nat \<Rightarrow> bool" where
  "thread_ok k p t \<longleftrightarrow>
     (if p = SL_Outside then stranger (kont k t) \<and> owner k \<noteq> Some t
      else p \<noteq> Append_locked 0 \<and> (kont k t = Returned \<and> owner k = Some t \<and> awake k t
        \<or> entering p \<and> kont k t = After_Acquire sl_lock
        \<or> p = Remove_test \<and> kont k t = After_Wait listEmpty sl_lock \<and> owner k \<noteq> Some t))"

text \<open>The threads that will look at the list again, or wake somebody who will.\<close>

definition wakers :: "kern \<Rightarrow> (nat \<Rightarrow> slpoint) \<Rightarrow> nat set" where
  "wakers k pt = {t. pt t = Append_stored \<or> pt t = Remove_take \<or> pt t = Remove_test \<and> t \<notin> set (sleepers k)}"

definition sl_ok :: "synchlist \<Rightarrow> (nat \<times> int) list \<Rightarrow> bool" where
  "sl_ok s xs \<longleftrightarrow> kern_inv (sl_kern s) \<and> (\<exists>as. list_repr (sl_heap s) (sl_list s) as xs) \<and> (\<forall>x \<in> set xs. fst x \<noteq> 0)
     \<and> (\<forall>t. thread_ok (sl_kern s) (sl_point s t) t) \<and> finite {t. sl_point s t \<noteq> SL_Outside}
     \<and> cv_lock (conds (sl_kern s) listEmpty) \<in> {None, Some sl_lock}
     \<and> (\<forall>t. sl_point s t = Remove_take \<longrightarrow> xs \<noteq> [])
     \<and> (sleepers (sl_kern s) \<noteq> [] \<longrightarrow> length xs \<le> card (wakers (sl_kern s) (sl_point s)))"

lemma sl_okD:
  assumes "sl_ok s xs"
  shows "kern_inv (sl_kern s)" "\<exists>as. list_repr (sl_heap s) (sl_list s) as xs" "\<forall>x \<in> set xs. fst x \<noteq> 0"
    "thread_ok (sl_kern s) (sl_point s t) t" "finite {t. sl_point s t \<noteq> SL_Outside}"
    "cv_lock (conds (sl_kern s) listEmpty) \<in> {None, Some sl_lock}"
    "sl_point s t = Remove_take \<Longrightarrow> xs \<noteq> []"
    "sleepers (sl_kern s) \<noteq> [] \<Longrightarrow> length xs \<le> card (wakers (sl_kern s) (sl_point s))"
  using assms unfolding sl_ok_def by blast+

lemma finite_wakers: "finite {t. pt t \<noteq> SL_Outside} \<Longrightarrow> finite (wakers k pt)"
  by (rule finite_subset[rotated]) (auto simp: wakers_def)

lemma movesD:
  "moves k k' \<Longrightarrow> t \<noteq> currentThread k \<Longrightarrow> kont k' t = kont k t \<and> (awake k t \<longrightarrow> awake k' t)
     \<and> (owner k = Some t \<longrightarrow> owner k' = Some t) \<and> (owner k' = Some t \<longrightarrow> owner k = Some t \<or> kont k t = After_Acquire sl_lock)"
  by (simp add: moves_def)

lemma thread_ok_moves:
  "moves k k' \<Longrightarrow> t \<noteq> currentThread k \<Longrightarrow> thread_ok k p t \<Longrightarrow> thread_ok k' p t"
  using movesD[of k k' t] by (auto simp: thread_ok_def)

lemma thread_ok_frame:
  assumes "thread_ok k p t" and "same_monitor k k'"
    and "p \<noteq> SL_Outside \<Longrightarrow> kont k' t = kont k t \<and> (awake k t \<longrightarrow> awake k' t)"
    and "p = SL_Outside \<Longrightarrow> stranger (kont k' t)"
  shows "thread_ok k' p t"
  using assms by (auto simp: thread_ok_def same_monitor_def)

lemma sl_ok_frame:
  assumes "sl_ok s xs" and "kern_inv k" and "same_monitor (sl_kern s) k"
    and "\<And>t. sl_point s t \<noteq> SL_Outside \<Longrightarrow> kont k t = kont (sl_kern s) t \<and> (awake (sl_kern s) t \<longrightarrow> awake k t)"
    and "\<And>t. sl_point s t = SL_Outside \<Longrightarrow> stranger (kont k t)"
  shows "sl_ok (s\<lparr>sl_kern := k\<rparr>) xs"
proof -
  have "thread_ok k (sl_point s t) t" for t
    using thread_ok_frame[OF sl_okD(4)[OF assms(1), of t] assms(3)] assms(4,5) by blast
  then show ?thesis using assms(1-3) by (simp add: sl_ok_def same_monitor_def wakers_def)
qed

text \<open>The running thread goes on to another point.\<close>

lemma sl_ok_move:
  assumes "sl_ok s xs" and "kern_inv k" and "moves (sl_kern s) k" and "thread_ok k p (running s)"
    and "\<exists>as. list_repr h l as ys" and "\<forall>x \<in> set ys. fst x \<noteq> 0"
    and "cv_lock (conds k listEmpty) \<in> {None, Some sl_lock}"
    and "\<And>t. ((sl_point s)(running s := p)) t = Remove_take \<Longrightarrow> ys \<noteq> []"
    and "sleepers k \<noteq> [] \<Longrightarrow> length ys \<le> card (wakers k ((sl_point s)(running s := p)))"
  shows "sl_ok (s\<lparr>sl_point := (sl_point s)(running s := p), sl_kern := k, sl_list := l, sl_heap := h\<rparr>) ys"
proof -
  have "thread_ok k (((sl_point s)(running s := p)) t) t" for t
    using thread_ok_moves[OF assms(3) _ sl_okD(4)[OF assms(1), of t]] assms(4) by auto
  moreover have "finite {t. ((sl_point s)(running s := p)) t \<noteq> SL_Outside}"
    by (rule finite_subset[of _ "insert (running s) {t. sl_point s t \<noteq> SL_Outside}"]) (use sl_okD(5)[OF assms(1)] in auto)
  ultimately show ?thesis using assms(2,5-) by (simp add: sl_ok_def)
qed

section \<open>Every step keeps the invariant\<close>

lemma running_inside:
  assumes "sl_ok s xs" and "ready_to_go s" and "sl_point s (running s) \<noteq> SL_Outside"
  shows "owner (sl_kern s) = Some (running s)" "awake (sl_kern s) (running s)" "kont (sl_kern s) (running s) = Returned"
  using sl_okD(4)[OF assms(1), of "running s"] assms(2,3) by (auto simp: thread_ok_def ready_to_go_def)

lemma running_no_sleeper: "sl_ok s xs \<Longrightarrow> \<not> idle (sl_kern s) \<Longrightarrow> running s \<notin> set (sleepers (sl_kern s))"
  using running_facts(6) sl_okD(1) by blast

lemma sleeper_point: "sl_ok s xs \<Longrightarrow> t \<in> set (sleepers (sl_kern s)) \<Longrightarrow> sl_point s t = Remove_test"
  using queues_okD(3)[OF kern_inv_parts(4)[OF sl_okD(1)], of s xs t listEmpty] sl_okD(4)[of s xs t]
  by (auto simp: thread_ok_def split: if_splits)

lemma only_taker: "sl_ok s xs \<Longrightarrow> sl_point s t = Remove_take \<Longrightarrow> owner (sl_kern s) = Some t"
  using sl_okD(4)[of s xs t] by (simp add: thread_ok_def)

lemma inside_ok:
  "owner k = Some t \<Longrightarrow> awake k t \<Longrightarrow> kont k t = Returned \<Longrightarrow> p \<noteq> SL_Outside \<Longrightarrow> p \<noteq> Append_locked 0 \<Longrightarrow> thread_ok k p t"
  by (simp add: thread_ok_def)

lemma goto_self: "s\<lparr>sl_point := (sl_point s)(running s := p), sl_kern := sl_kern s, sl_list := l, sl_heap := h\<rparr>
  = (sl_goto p s)\<lparr>sl_list := l, sl_heap := h\<rparr>"
  by simp

lemma Append_store_ok:
  assumes ok: "sl_ok s xs" and go: "ready_to_go s" and p: "sl_point s (running s) = Append_locked it"
  shows "\<exists>s'. Append_store it s = Inr ([Appended (running s) it], s') \<and> sl_ok s' (xs @ [(it, 0)])"
proof -
  let ?me = "running s" and ?pt = "(sl_point s)(running s := Append_stored)"
  note own = running_inside[OF ok go]
  obtain "as" where r: "list_repr (sl_heap s) (sl_list s) as xs" using sl_okD(2)[OF ok] by blast
  obtain l h where a: "Append it (sl_list s) (sl_heap s) = Inr (l, h)" "\<exists>as. list_repr h l as (xs @ [(it, 0)])"
    using Append_refines[OF r, of it] by blast
  have it: "it \<noteq> 0" using sl_okD(4)[OF ok, of ?me] p by (auto simp: thread_ok_def)
  have w: "wakers (sl_kern s) ?pt = insert ?me (wakers (sl_kern s) (sl_point s))"
    using p by (auto simp: wakers_def)
  have nm: "?me \<notin> wakers (sl_kern s) (sl_point s)" using p by (simp add: wakers_def)
  have "sl_ok (s\<lparr>sl_point := ?pt, sl_kern := sl_kern s, sl_list := l, sl_heap := h\<rparr>) (xs @ [(it, 0)])"
  proof (rule sl_ok_move[OF ok sl_okD(1)[OF ok] moves_refl _ a(2) _ sl_okD(6)[OF ok]])
    show "thread_ok (sl_kern s) Append_stored ?me" using own p by (intro inside_ok) simp_all
    show "sleepers (sl_kern s) \<noteq> [] \<Longrightarrow> length (xs @ [(it, 0)]) \<le> card (wakers (sl_kern s) ?pt)"
      using sl_okD(8)[OF ok] nm finite_wakers[OF sl_okD(5)[OF ok]] by (simp add: w)
  qed (use sl_okD(3)[OF ok] it in auto)
  then show ?thesis using a(1) by (simp add: Append_store_def)
qed

lemma Append_signal_ok:
  assumes ok: "sl_ok s xs" and go: "ready_to_go s" and p: "sl_point s (running s) = Append_stored"
  shows "sl_ok (Append_signal s) xs"
proof -
  let ?me = "running s" and ?pt = "(sl_point s)(running s := Append_signalled)" and ?k = "Signal listEmpty (Some sl_lock) (sl_kern s)"
  note own = running_inside[OF ok go] and inv = sl_okD(1)[OF ok]
  have cl: "cv_lock (conds (sl_kern s) listEmpty) = Some sl_lock \<or> sleepers (sl_kern s) = []"
    using sl_okD(6)[OF ok] kern_inv_parts(4)[OF inv, of listEmpty] by (auto simp: cond_ok_def)
  note e = Signal_effect[OF cl]
  have "sl_ok (s\<lparr>sl_point := ?pt, sl_kern := ?k, sl_list := sl_list s, sl_heap := sl_heap s\<rparr>) xs"
  proof (rule sl_ok_move[OF ok Signal_inv[OF inv] e(1) _ sl_okD(2,3)[OF ok]])
    show "thread_ok ?k Append_signalled ?me" using own p e by (intro inside_ok) simp_all
    show "cv_lock (conds ?k listEmpty) \<in> {None, Some sl_lock}" using e(6) sl_okD(6)[OF ok] by auto
    show "?pt t = Remove_take \<Longrightarrow> xs \<noteq> []" for t using sl_okD(7)[OF ok, of t] by (simp split: if_splits)
    assume ne: "sleepers ?k \<noteq> []"
    then obtain t ts where q: "sleepers (sl_kern s) = t # ts" using e(4) by (cases "sleepers (sl_kern s)") simp_all
    have d: "distinct (t # ts)" using kern_inv_parts(4)[OF inv, of listEmpty] q by (simp add: cond_ok_def)
    have t: "sl_point s t = Remove_test" "t \<noteq> ?me"
      using sleeper_point[OF ok, of t] p q by auto
    have "wakers ?k ?pt = insert t (wakers (sl_kern s) (sl_point s) - {?me})"
      using e(4) q d t p by (auto simp: wakers_def)
    moreover have "t \<notin> wakers (sl_kern s) (sl_point s)" "?me \<in> wakers (sl_kern s) (sl_point s)"
      using t q p by (simp_all add: wakers_def)
    ultimately have "card (wakers ?k ?pt) = card (wakers (sl_kern s) (sl_point s))"
      using finite_wakers[OF sl_okD(5)[OF ok], of "sl_kern s"] by (simp add: card_Diff_singleton card_gt_0_iff) (metis Suc_pred card_gt_0_iff empty_iff)
    then show "length xs \<le> card (wakers ?k ?pt)" using sl_okD(8)[OF ok] q by simp
  qed
  then show ?thesis by (simp add: Append_signal_def)
qed

lemma sl_leave_ok:
  assumes ok: "sl_ok s xs" and go: "ready_to_go s" and p: "sl_point s (running s) \<in> {Append_signalled, Mapcar_done} \<union> range Remove_taken"
  shows "sl_ok (sl_leave s) xs"
proof -
  let ?me = "running s" and ?pt = "(sl_point s)(running s := SL_Outside)" and ?k = "Release sl_lock (sl_kern s)"
  have out: "sl_point s ?me \<noteq> SL_Outside" using p by auto
  note own = running_inside[OF ok go out] and inv = sl_okD(1)[OF ok]
  have run: "\<not> idle (sl_kern s)" using go by (simp add: ready_to_go_def)
  note e = Release_effect[OF inv run own(1)]
  have "sl_ok (s\<lparr>sl_point := ?pt, sl_kern := ?k, sl_list := sl_list s, sl_heap := sl_heap s\<rparr>) xs"
  proof (rule sl_ok_move[OF ok Release_inv[OF inv run own(3)] e(1) _ sl_okD(2,3)[OF ok]])
    show "thread_ok ?k SL_Outside ?me" using own(3) e(2) by (simp add: thread_ok_def Release_frame)
    show "cv_lock (conds ?k listEmpty) \<in> {None, Some sl_lock}" using sl_okD(6)[OF ok] by (simp add: Release_frame)
    show "?pt t = Remove_take \<Longrightarrow> xs \<noteq> []" for t using sl_okD(7)[OF ok, of t] by (simp split: if_splits)
    have "wakers ?k ?pt = wakers (sl_kern s) (sl_point s)" using p by (auto simp: wakers_def Release_frame)
    then show "sleepers ?k \<noteq> [] \<Longrightarrow> length xs \<le> card (wakers ?k ?pt)"
      using sl_okD(8)[OF ok] by (simp add: Release_frame)
  qed
  then show ?thesis by (simp add: sl_leave_def)
qed

lemma Remove_look_ok:
  assumes ok: "sl_ok s xs" and go: "ready_to_go s" and p: "sl_point s (running s) = Remove_test"
  shows "\<exists>s'. Remove_look s = Inr s' \<and> sl_ok s' xs"
proof -
  let ?me = "running s"
  have out: "sl_point s ?me \<noteq> SL_Outside" using p by simp
  note own = running_inside[OF ok go out] and inv = sl_okD(1)[OF ok]
  have run: "\<not> idle (sl_kern s)" using go by (simp add: ready_to_go_def)
  obtain "as" where r: "list_repr (sl_heap s) (sl_list s) as xs" using sl_okD(2)[OF ok] by blast
  show ?thesis
  proof (cases "xs = []")
    case True
    obtain k where k: "Wait listEmpty (Some sl_lock) (sl_kern s) = Inr k" "kern_inv k"
      using Wait_inv[OF inv run own(3)] by blast
    note e = Wait_effect[OF k(1) inv run own(1) sl_okD(6)[OF ok]]
    have "sl_ok (s\<lparr>sl_point := (sl_point s)(?me := Remove_test), sl_kern := k, sl_list := sl_list s, sl_heap := sl_heap s\<rparr>) xs"
    proof (rule sl_ok_move[OF ok k(2) e(1) _ sl_okD(2,3)[OF ok]])
      show "thread_ok k Remove_test ?me" using e p by (simp add: thread_ok_def)
      show "((sl_point s)(?me := Remove_test)) t = Remove_take \<Longrightarrow> xs \<noteq> []" for t
        using sl_okD(7)[OF ok, of t] by (simp split: if_splits)
    qed (use e p True in simp_all)
    then show ?thesis using k(1) IsEmpty_refines[OF r] True by (simp add: Remove_look_def)
  next
    case False
    have "sl_ok (s\<lparr>sl_point := (sl_point s)(?me := Remove_take), sl_kern := sl_kern s, sl_list := sl_list s, sl_heap := sl_heap s\<rparr>) xs"
    proof (rule sl_ok_move[OF ok inv moves_refl _ sl_okD(2,3,6)[OF ok]])
      show "thread_ok (sl_kern s) Remove_take ?me" using own p by (intro inside_ok) simp_all
      have "wakers (sl_kern s) ((sl_point s)(?me := Remove_take)) = wakers (sl_kern s) (sl_point s)"
        using p running_no_sleeper[OF ok run] by (auto simp: wakers_def)
      then show "sleepers (sl_kern s) \<noteq> [] \<Longrightarrow> length xs \<le> card (wakers (sl_kern s) ((sl_point s)(?me := Remove_take)))"
        using sl_okD(8)[OF ok] by simp
    qed (use False in simp)
    then show ?thesis using IsEmpty_refines[OF r] False by (simp add: Remove_look_def)
  qed
qed

lemma Remove_item_ok:
  assumes ok: "sl_ok s xs" and go: "ready_to_go s" and p: "sl_point s (running s) = Remove_take"
  shows "\<exists>s' it ys. Remove_item s = Inr ([Removed (running s) it], s') \<and> sl_ok s' ys \<and> map fst xs = it # map fst ys"
proof -
  let ?me = "running s"
  note own = running_inside[OF ok go] and inv = sl_okD(1)[OF ok]
  obtain "as" where r: "list_repr (sl_heap s) (sl_list s) as xs" using sl_okD(2)[OF ok] by blast
  obtain it i ys where xs: "xs = (it, i) # ys" using sl_okD(7)[OF ok p] by (cases xs) auto
  obtain l h where a: "Remove (sl_list s) (sl_heap s) = Inr (it, l, h)" "\<exists>as. list_repr h l as ys"
    using Remove_refines[OF r] xs by auto
  let ?pt = "(sl_point s)(?me := Remove_taken it)"
  have "sl_ok (s\<lparr>sl_point := ?pt, sl_kern := sl_kern s, sl_list := l, sl_heap := h\<rparr>) ys"
  proof (rule sl_ok_move[OF ok inv moves_refl _ a(2) _ sl_okD(6)[OF ok]])
    show "thread_ok (sl_kern s) (Remove_taken it) ?me" using own p by (intro inside_ok) simp_all
    show "?pt t = Remove_take \<Longrightarrow> ys \<noteq> []" for t
      using only_taker[OF ok, of t] own(1) p by (auto split: if_splits)
    have "wakers (sl_kern s) ?pt = wakers (sl_kern s) (sl_point s) - {?me}" "?me \<in> wakers (sl_kern s) (sl_point s)"
      using p by (auto simp: wakers_def)
    then show "sleepers (sl_kern s) \<noteq> [] \<Longrightarrow> length ys \<le> card (wakers (sl_kern s) ?pt)"
      using sl_okD(8)[OF ok] xs by simp
  qed (use sl_okD(3)[OF ok] xs in auto)
  moreover have "it \<noteq> 0" using sl_okD(3)[OF ok] xs by simp
  ultimately show ?thesis using a(1) xs by (auto simp: Remove_item_def)
qed

lemma Mapcar_visit_ok:
  assumes ok: "sl_ok s xs" and go: "ready_to_go s" and p: "sl_point s (running s) = Mapcar_locked"
  shows "\<exists>s'. Mapcar_visit s = Inr ([Visited (running s) (map fst xs)], s') \<and> sl_ok s' xs"
proof -
  let ?me = "running s" and ?pt = "(sl_point s)(running s := Mapcar_done)"
  note own = running_inside[OF ok go] and inv = sl_okD(1)[OF ok]
  obtain "as" where r: "list_repr (sl_heap s) (sl_list s) as xs" using sl_okD(2)[OF ok] by blast
  have "sl_ok (s\<lparr>sl_point := ?pt, sl_kern := sl_kern s, sl_list := sl_list s, sl_heap := sl_heap s\<rparr>) xs"
  proof (rule sl_ok_move[OF ok inv moves_refl _ sl_okD(2,3,6)[OF ok]])
    show "thread_ok (sl_kern s) Mapcar_done ?me" using own p by (intro inside_ok) simp_all
    show "?pt t = Remove_take \<Longrightarrow> xs \<noteq> []" for t using sl_okD(7)[OF ok, of t] by (simp split: if_splits)
    have "wakers (sl_kern s) ?pt = wakers (sl_kern s) (sl_point s)" using p by (auto simp: wakers_def)
    then show "sleepers (sl_kern s) \<noteq> [] \<Longrightarrow> length xs \<le> card (wakers (sl_kern s) ?pt)"
      using sl_okD(8)[OF ok] by simp
  qed
  then show ?thesis using Mapcar_refines[OF r] by (simp add: Mapcar_visit_def)
qed

lemma sl_continue_ok:
  assumes "sl_ok s xs" and "ready_to_go s" and "sl_point s (running s) \<noteq> SL_Outside"
  shows "\<exists>es s' ys. sl_continue s = Inr (es, s') \<and> sl_ok s' ys \<and> map fst xs @ put_in es = taken_out es @ map fst ys"
proof (cases "sl_point s (running s)")
  case (Append_locked it)
  then show ?thesis using Append_store_ok[OF assms(1,2)] by (fastforce simp: sl_continue_def)
next
  case Append_stored
  then show ?thesis using Append_signal_ok[OF assms(1,2)] by (fastforce simp: sl_continue_def)
next
  case Append_signalled
  then show ?thesis using sl_leave_ok[OF assms(1,2)] by (fastforce simp: sl_continue_def)
next
  case Remove_test
  then show ?thesis using Remove_look_ok[OF assms(1,2)] by (fastforce simp: sl_continue_def)
next
  case Remove_take
  obtain s' it ys where r: "Remove_item s = Inr ([Removed (running s) it], s')" "sl_ok s' ys" "map fst xs = it # map fst ys"
    using Remove_item_ok[OF assms(1,2) Remove_take] by (elim exE conjE) (rule that)
  then show ?thesis using Remove_take by (intro exI[of _ "[Removed (running s) it]"] exI[of _ s'] exI[of _ ys]) (simp add: sl_continue_def)
next
  case (Remove_taken it)
  then show ?thesis using sl_leave_ok[OF assms(1,2)] by (fastforce simp: sl_continue_def)
next
  case Mapcar_locked
  then show ?thesis using Mapcar_visit_ok[OF assms(1,2)] by (fastforce simp: sl_continue_def)
next
  case Mapcar_done
  then show ?thesis using sl_leave_ok[OF assms(1,2)] by (fastforce simp: sl_continue_def)
qed (use assms(3) in simp)

lemma lock_state: "sl_ok s xs \<Longrightarrow> lk_state (locks (sl_kern s) sl_lock) = FREE \<longleftrightarrow> owner (sl_kern s) = None"
  using kern_inv_parts(3)[OF sl_okD(1), of s xs sl_lock] by (simp add: lock_ok_def)

lemma sl_enter_ok:
  assumes ok: "sl_ok s xs" and go: "ready_to_go s" and out: "sl_point s (running s) = SL_Outside"
    and p: "p \<in> {Append_locked it, Remove_test, Mapcar_locked}" "it \<noteq> 0" and e: "sl_enter p s = Inr s'"
  shows "sl_ok s' xs"
proof -
  let ?me = "running s" and ?pt = "(sl_point s)(running s := p)"
  have run: "\<not> idle (sl_kern s)" "kont (sl_kern s) ?me = Returned" using go by (simp_all add: ready_to_go_def)
  note inv = sl_okD(1)[OF ok]
  have no: "owner (sl_kern s) \<noteq> Some ?me" using sl_okD(4)[OF ok, of ?me] out by (simp add: thread_ok_def)
  obtain k where k: "Acquire sl_lock (sl_kern s) = Inr k" "s' = (sl_goto p s)\<lparr>sl_kern := k\<rparr>"
    using e by (auto simp: sl_enter_def bindE_eq_Inr)
  have ki: "kern_inv k" using Acquire_inv[OF inv run, of sl_lock] k(1) by simp
  note f = Acquire_effect[OF k(1) kern_inv_parts(1)[OF inv] run lock_state[OF ok] no]
  have "sl_ok (s\<lparr>sl_point := ?pt, sl_kern := k, sl_list := sl_list s, sl_heap := sl_heap s\<rparr>) xs"
  proof (rule sl_ok_move[OF ok ki f(2) _ sl_okD(2,3)[OF ok]])
    show "thread_ok k p ?me" using f(3) p by (auto simp: thread_ok_def)
    show "cv_lock (conds k listEmpty) \<in> {None, Some sl_lock}" using f(1) sl_okD(6)[OF ok] by simp
    show "?pt t = Remove_take \<Longrightarrow> xs \<noteq> []" for t using sl_okD(7)[OF ok, of t] p by (auto split: if_splits)
    have "wakers (sl_kern s) (sl_point s) \<subseteq> wakers k ?pt" using out f(1) by (auto simp: wakers_def)
    moreover have "finite {t. ?pt t \<noteq> SL_Outside}"
      by (rule finite_subset[of _ "insert ?me {t. sl_point s t \<noteq> SL_Outside}"]) (use sl_okD(5)[OF ok] in auto)
    ultimately have "card (wakers (sl_kern s) (sl_point s)) \<le> card (wakers k ?pt)"
      by (intro card_mono finite_wakers)
    then show "sleepers k \<noteq> [] \<Longrightarrow> length xs \<le> card (wakers k ?pt)"
      using sl_okD(8)[OF ok] f(1) by simp
  qed
  then show ?thesis using k(2) by simp
qed

lemma sl_resume_ok:
  assumes ok: "sl_ok s xs" and run: "\<not> idle (sl_kern s)" and nr: "kont (sl_kern s) (running s) \<noteq> Returned"
    and r: "resume (sl_kern s) = Inr k"
  shows "sl_ok (s\<lparr>sl_kern := k\<rparr>) xs"
proof -
  let ?me = "running s" and ?k1 = "set_kont (running s) Returned (sl_kern s)"
  note inv = sl_okD(1)[OF ok]
  have ki: "kern_inv k" using resume_inv[OF inv run] r by simp
  note sched = kern_inv_parts(1)[OF inv]
  have st: "tstatus (sl_kern s) ?me = RUNNING" using sched_okD(3)[OF sched, of ?me] run by simp
  have same: "(sl_point s)(?me := sl_point s ?me) = sl_point s" by simp
  have move: ?thesis if "moves (sl_kern s) k" "thread_ok k (sl_point s ?me) ?me" "conds k = conds (sl_kern s)"
  proof -
    have "sl_ok (s\<lparr>sl_point := (sl_point s)(?me := sl_point s ?me), sl_kern := k, sl_list := sl_list s, sl_heap := sl_heap s\<rparr>) xs"
      by (rule sl_ok_move[OF ok ki that(1,2) sl_okD(2,3)[OF ok]])
        (use that(3) sl_okD(6-8)[OF ok] in \<open>simp_all add: same wakers_def\<close>)
    then show ?thesis by simp
  qed
  show ?thesis
  proof (cases "sl_point s ?me = SL_Outside")
    case True
    then have "stranger (kont (sl_kern s) ?me)" using sl_okD(4)[OF ok, of ?me] by (simp add: thread_ok_def)
    then have a: "apart (sl_kern s) k" using resume_apart[OF r sched run] by simp
    show ?thesis
    proof (rule sl_ok_frame[OF ok ki])
      show "same_monitor (sl_kern s) k" using a by (simp add: apart_def)
      fix t
      show "sl_point s t \<noteq> SL_Outside \<Longrightarrow> kont k t = kont (sl_kern s) t \<and> (awake (sl_kern s) t \<longrightarrow> awake k t)"
        using a True by (cases "t = ?me") (simp_all add: apart_def)
      show "sl_point s t = SL_Outside \<Longrightarrow> stranger (kont k t)"
        using a sl_okD(4)[OF ok, of t] by (cases "t = ?me") (simp_all add: apart_def thread_ok_def)
    qed
  next
    case False
    then consider (lock) "entering (sl_point s ?me)" "kont (sl_kern s) ?me = After_Acquire sl_lock"
      | (cond) "sl_point s ?me = Remove_test" "kont (sl_kern s) ?me = After_Wait listEmpty sl_lock" "owner (sl_kern s) \<noteq> Some ?me"
      using sl_okD(4)[OF ok, of ?me] nr by (auto simp: thread_ok_def)
    then show ?thesis
    proof cases
      case lock
      then have "owner (sl_kern s) = Some ?me"
        using kern_inv_parts(3)[OF inv, of sl_lock] st by (auto simp: lock_ok_def)
      moreover have "k = ?k1" using r lock(2) by (simp add: resume_def Let_def)
      ultimately show ?thesis using False sl_okD(4)[OF ok, of ?me] st
        by (intro move) (simp_all add: moves_def awake_def thread_ok_def)
    next
      case cond
      have so: "sched_ok ?k1" using sched st by (auto simp: sched_ok_def)
      have a: "Acquire sl_lock ?k1 = Inr k" using r cond(2) by (simp add: resume_def Let_def)
      have "conds k = conds ?k1 \<and> moves ?k1 k \<and> (owner k = Some ?me \<and> kont k ?me = Returned \<and> awake k ?me
          \<or> owner k \<noteq> Some ?me \<and> kont k ?me = After_Acquire sl_lock)"
        using Acquire_effect[OF a so] run lock_state[OF ok] cond(3) by simp
      then show ?thesis using cond(1)
        by (intro move) (auto simp: moves_def thread_ok_def awake_def)
    qed
  qed
qed

lemma sl_step_ok:
  assumes "sl_step s es s'" and "sl_ok s xs"
  shows "\<exists>ys. sl_ok s' ys \<and> map fst xs @ put_in es = taken_out es @ map fst ys"
  using assms
proof (cases rule: sl_step.cases)
  case (begins p it)
  then show ?thesis using sl_enter_ok[OF assms(2)] by auto
next
  case continues
  then show ?thesis using sl_continue_ok[OF assms(2)] by fastforce
next
  case (other x k)
  have run: "\<not> idle (sl_kern s)" "kont (sl_kern s) (running s) = Returned" using other(3) by (simp_all add: ready_to_go_def)
  note inv = sl_okD(1)[OF assms(2)]
  have a: "apart (sl_kern s) k" by (rule run_op_apart[OF other(7) inv run other(5)])
  have "kern_inv k" using kstep.op[OF run other(6,7)] kstep_inv inv by blast
  then have "sl_ok s' xs" unfolding other(2)
  proof (rule sl_ok_frame[OF assms(2)])
    show "same_monitor (sl_kern s) k" using a by (simp add: apart_def)
    fix t
    show "sl_point s t \<noteq> SL_Outside \<Longrightarrow> kont k t = kont (sl_kern s) t \<and> (awake (sl_kern s) t \<longrightarrow> awake k t)"
      using a other(4) by (cases "t = running s") (simp_all add: apart_def)
    show "sl_point s t = SL_Outside \<Longrightarrow> stranger (kont k t)"
      using a sl_okD(4)[OF assms(2), of t] by (cases "t = running s") (simp_all add: apart_def thread_ok_def)
  qed
  then show ?thesis using other(1) by auto
next
  case (resumes k)
  then show ?thesis using sl_resume_ok[OF assms(2)] by auto
next
  case (preempted k)
  have run: "\<not> idle (sl_kern s)" using preempted(3) by (simp add: ready_to_go_def)
  note inv = sl_okD(1)[OF assms(2)]
  have "kern_inv k" using Yield_inv[OF inv run] preempted(4) by simp
  then have "sl_ok s' xs" unfolding preempted(2)
    by (rule sl_ok_frame[OF assms(2)])
      (use Yield_facts[OF preempted(4) kern_inv_parts(1)[OF inv] run] sl_okD(4)[OF assms(2)] in \<open>simp_all add: thread_ok_def\<close>)
  then show ?thesis using preempted(1) by auto
next
  case (device i k)
  note inv = sl_okD(1)[OF assms(2)]
  have "kern_inv k" using V_inv[OF inv, of i] device(3) by simp
  then have "sl_ok s' xs" unfolding device(2)
    by (rule sl_ok_frame[OF assms(2)]) (use V_apart[OF device(3)] sl_okD(4)[OF assms(2)] in \<open>simp_all add: thread_ok_def\<close>)
  then show ?thesis using device(1) by auto
next
  case (wakes k)
  note inv = sl_okD(1)[OF assms(2)]
  have "kern_inv k" using look_for_work_inv[OF inv wakes(3)] wakes(5) by simp
  moreover have "awake k t = awake (sl_kern s) t" for t
    using look_for_work_awake[OF wakes(5)] ready_threads[OF kern_inv_parts(1)[OF inv]] by blast
  ultimately have "sl_ok s' xs" unfolding wakes(2) using look_for_work_frame[OF wakes(5)] sl_okD(4)[OF assms(2)]
    by (intro sl_ok_frame[OF assms(2)]) (simp_all add: same_monitor_def thread_ok_def)
  then show ?thesis using wakes(1) by auto
qed

lemma sl_start_ok:
  assumes "heap_wf h" and "\<And>i. 0 \<le> vals i"
  shows "sl_ok (SynchList_new (kern_init main vals) h) []"
proof -
  have e: "set_cond listEmpty Condition_new (set_lock sl_lock Lock_new (kern_init main vals)) = kern_init main vals"
    by (simp add: kern_init_def fun_upd_idem)
  have "list_repr h List_new [] []" using assms(1) by (simp add: list_repr_def List_new_def)
  moreover have "SynchList_new (kern_init main vals) h
      = \<lparr>sl_kern = kern_init main vals, sl_list = List_new, sl_heap = h, sl_point = (\<lambda>_. SL_Outside)\<rparr>"
    unfolding SynchList_new_def e ..
  moreover have "kern_inv (kern_init main vals)" using kern_inv_init assms(2) by blast
  ultimately show ?thesis
    by (auto simp: sl_ok_def thread_ok_def) (simp_all add: kern_init_def Lock_new_def Condition_new_def)
qed

lemma sl_run_ok:
  assumes "sl_run s0 es s" and "sl_ok s0 []"
  shows "\<exists>xs. sl_ok s xs \<and> put_in es = taken_out es @ map fst xs"
  using assms
proof (induction rule: sl_run.induct)
  case (sl_start s)
  then show ?case by (intro exI[of _ "[]"]) simp
next
  case (sl_more s es s' es' s'')
  then obtain xs where xs: "sl_ok s' xs" "put_in es = taken_out es @ map fst xs" by blast
  then obtain ys where "sl_ok s'' ys" "map fst xs @ put_in es' = taken_out es' @ map fst ys"
    using sl_step_ok[OF sl_more.hyps(2)] by blast
  then show ?case using xs(2) by (intro exI[of _ ys]) simp
qed

section \<open>Properties\<close>

text \<open>C16: The list that threads share is a queue. Take any run of any number of threads that append to it,
  remove from it, walk over it and do other things, in any interleaving, from a list just made. The items
  taken out, in order, followed by the items still in the list are the items put in, in order; at most one
  thread is in the middle of a method; and the running thread, when it is there, can do its next operation:
  the \<open>ASSERT\<close> that the item removed is not NULL never fails, and no pointer of the list dangles.\<close>
theorem synchlist_is_queue:
  assumes "heap_wf h" and "\<And>i. 0 \<le> vals i" and "sl_run (SynchList_new (kern_init main vals) h) es s"
  shows "\<exists>as xs. list_repr (sl_heap s) (sl_list s) as xs \<and> put_in es = taken_out es @ map fst xs
    \<and> (\<forall>t u. sl_point s t \<noteq> SL_Outside \<longrightarrow> sl_point s u \<noteq> SL_Outside \<longrightarrow> kont (sl_kern s) t = Returned \<longrightarrow>
         kont (sl_kern s) u = Returned \<longrightarrow> t = u)
    \<and> (ready_to_go s \<longrightarrow> (\<exists>es' s'. sl_continue s = Inr (es', s')))"
proof -
  obtain xs where xs: "sl_ok s xs" "put_in es = taken_out es @ map fst xs"
    using sl_run_ok[OF assms(3) sl_start_ok[OF assms(1,2)]] by blast
  have "owner (sl_kern s) = Some t" if "sl_point s t \<noteq> SL_Outside" "kont (sl_kern s) t = Returned" for t
    using sl_okD(4)[OF xs(1), of t] that by (simp add: thread_ok_def)
  moreover have "ready_to_go s \<Longrightarrow> \<exists>es' s'. sl_continue s = Inr (es', s')"
    using sl_continue_ok[OF xs(1)] by (cases "sl_point s (running s) = SL_Outside") (auto simp: sl_continue_def)
  ultimately show ?thesis using sl_okD(2)[OF xs(1)] xs(2) by (metis option.inject)
qed

text \<open>C17: Nobody waits for an item while there is one. Whenever the machine is idle with no thread ready, in any
  such run, the lock of the list is free, every thread that is in a method of it waits on the condition in
  \<open>Remove\<close>, and if there is such a thread then the list is empty. So a signal is never lost, even though a
  thread that comes later can take the item for which a waiting thread was woken.\<close>
theorem synchlist_no_lost_wakeup:
  assumes "heap_wf h" and "\<And>i. 0 \<le> vals i" and "sl_run (SynchList_new (kern_init main vals) h) es s"
    and "idle (sl_kern s)" and "readyList (sl_kern s) = []"
  shows "owner (sl_kern s) = None
    \<and> (\<forall>t. sl_point s t \<noteq> SL_Outside \<longrightarrow> t \<in> set (sleepers (sl_kern s)) \<and> IsEmpty (sl_list s))"
proof -
  obtain xs where xs: "sl_ok s xs" using sl_run_ok[OF assms(3) sl_start_ok[OF assms(1,2)]] by blast
  note inv = sl_okD(1)[OF xs]
  have na: "\<not> awake (sl_kern s) u" for u
    using sched_okD(1,3)[OF kern_inv_parts(1)[OF inv], of u] assms(4,5) by (simp add: awake_def)
  have bl: "tstatus (sl_kern s) u = BLOCKED" if "kont (sl_kern s) u \<noteq> Returned" for u
    using sched_okD(4)[OF kern_inv_parts(1)[OF inv], of u] na[of u] that
    by (cases "tstatus (sl_kern s) u") (auto simp: awake_def)
  note lk = kern_inv_parts(3)[OF inv, of sl_lock]
  have free: "owner (sl_kern s) = None"
  proof (rule ccontr)
    assume "owner (sl_kern s) \<noteq> None"
    then obtain u where u: "owner (sl_kern s) = Some u" by blast
    then have "kont (sl_kern s) u = After_Acquire sl_lock"
      using sl_okD(4)[OF xs, of u] na[of u] by (auto simp: thread_ok_def split: if_splits)
    then show False using lk u bl[of u] by (simp add: lock_ok_def)
  qed
  have inside: "u \<in> set (sleepers (sl_kern s))" if "sl_point s u \<noteq> SL_Outside" for u
  proof -
    have "kont (sl_kern s) u \<noteq> After_Acquire sl_lock"
      using lk free bl[of u] queues_okD(2)[OF lk, of u] by (auto simp: lock_ok_def)
    then have "kont (sl_kern s) u = After_Wait listEmpty sl_lock"
      using sl_okD(4)[OF xs, of u] that na[of u] by (auto simp: thread_ok_def split: if_splits)
    then show ?thesis using queues_okD(3)[OF kern_inv_parts(4)[OF inv, of listEmpty], of u] bl[of u] by simp
  qed
  have "t \<in> set (sleepers (sl_kern s)) \<and> IsEmpty (sl_list s)" if t: "sl_point s t \<noteq> SL_Outside" for t
  proof -
    have "wakers (sl_kern s) (sl_point s) = {}"
    proof (rule equals0I)
      fix u assume u: "u \<in> wakers (sl_kern s) (sl_point s)"
      then have "sl_point s u \<noteq> SL_Outside" by (auto simp: wakers_def)
      from sleeper_point[OF xs inside[OF this]] inside[OF this] u show False by (simp add: wakers_def)
    qed
    then have "xs = []" using sl_okD(8)[OF xs] inside[OF t] by (cases "sleepers (sl_kern s)") auto
    then show ?thesis using inside[OF t] sl_okD(2)[OF xs] IsEmpty_refines by blast
  qed
  then show ?thesis using free by blast
qed

section \<open>A concrete list\<close>

definition demo_synchlist :: synchlist where
  "demo_synchlist = SynchList_new (kern_init 1 (\<lambda>_. 0)) \<lparr>cells = (\<lambda>_. None), brk = 1\<rparr>"

lemmas demo_sl_defs = demo_synchlist_def SynchList_new_def kern_init_def Lock_new_def Condition_new_def ready_to_go_def
  sl_enter_def Acquire_def isHeldByCurrentThread_def Let_def

lemma demo_entered:
  assumes "p \<in> {Append_locked 7, Remove_test, Mapcar_locked}"
  shows "\<exists>s. sl_run demo_synchlist [] s \<and> ready_to_go s \<and> sl_point s (running s) = p \<and> running s = 1
    \<and> sl_list s = List_new \<and> sl_heap s = \<lparr>cells = (\<lambda>_. None), brk = 1\<rparr>
    \<and> owner (sl_kern s) = Some 1 \<and> lk_waiting (locks (sl_kern s) sl_lock) = [] \<and> readyList (sl_kern s) = []
    \<and> conds (sl_kern s) listEmpty = Condition_new"
proof -
  obtain s where s: "sl_enter p demo_synchlist = Inr s" by (simp add: demo_sl_defs)
  have "sl_step demo_synchlist [] s"
    by (rule sl_step.begins[OF _ _ assms _ s]) (simp_all add: demo_sl_defs)
  then have "sl_run demo_synchlist [] s" using sl_more[OF sl_start[of demo_synchlist], of "[]" s] by simp
  then show ?thesis using s by (intro exI[of _ s]) (auto simp: demo_sl_defs)
qed

lemma synchlist_is_queue_witness:
  "\<exists>s xs. sl_run demo_synchlist [Appended 1 7] s \<and> put_in [Appended 1 7] = taken_out [Appended 1 7] @ map fst xs
     \<and> (\<exists>as. list_repr (sl_heap s) (sl_list s) as xs) \<and> (xs :: (nat \<times> int) list) \<noteq> []"
proof -
  obtain s where s: "sl_run demo_synchlist [] s" "ready_to_go s" "sl_point s (running s) = Append_locked 7"
    "running s = 1" "sl_list s = List_new" "sl_heap s = \<lparr>cells = (\<lambda>_. None), brk = 1\<rparr>"
    using demo_entered[of "Append_locked 7"] by auto
  obtain s' where s': "sl_continue s = Inr ([Appended 1 7], s')"
    using s(3-6) by (simp add: sl_continue_def Append_store_def Append_def List_new_def IsEmpty_def new_element_def Let_def)
  have "sl_step s [Appended 1 7] s'" by (rule sl_step.continues[OF s(2) _ s']) (simp add: s(3))
  then have r: "sl_run demo_synchlist [Appended 1 7] s'" using sl_more[OF s(1)] by fastforce
  have h: "heap_wf \<lparr>cells = (\<lambda>_. None), brk = 1\<rparr>" by (simp add: heap_wf_def)
  show ?thesis using synchlist_is_queue[OF h _ r[unfolded demo_synchlist_def]] r by fastforce
qed

lemma synchlist_no_lost_wakeup_witness:
  "\<exists>s. sl_run demo_synchlist [] s \<and> idle (sl_kern s) \<and> sl_point s 1 = Remove_test \<and> 1 \<in> set (sleepers (sl_kern s))
     \<and> IsEmpty (sl_list s)"
proof -
  obtain s where s: "sl_run demo_synchlist [] s" "ready_to_go s" "sl_point s (running s) = Remove_test"
    "running s = 1" "sl_list s = List_new" "owner (sl_kern s) = Some 1" "lk_waiting (locks (sl_kern s) sl_lock) = []"
    "readyList (sl_kern s) = []" "conds (sl_kern s) listEmpty = Condition_new"
    using demo_entered[of Remove_test] by auto
  obtain s' where s': "sl_continue s = Inr ([], s')" "idle (sl_kern s')" "readyList (sl_kern s') = []" "sl_point s' 1 = Remove_test"
    using s(3-) by (simp add: sl_continue_def Remove_look_def IsEmpty_def List_new_def Wait_def Let_def Condition_new_def
        Release_def isHeldByCurrentThread_def Sleep_def look_for_work_def FindNextToRun_def)
  have "sl_step s [] s'" by (rule sl_step.continues[OF s(2) _ s'(1)]) (simp add: s(3))
  then have r: "sl_run demo_synchlist [] s'" using sl_more[OF s(1)] by fastforce
  have h: "heap_wf \<lparr>cells = (\<lambda>_. None), brk = 1\<rparr>" by (simp add: heap_wf_def)
  have "1 \<in> set (sleepers (sl_kern s')) \<and> IsEmpty (sl_list s')"
    using conjunct2[OF synchlist_no_lost_wakeup[OF h _ r[unfolded demo_synchlist_def] s'(2,3)], THEN spec[of _ 1]] s'(4)
    by simp
  then show ?thesis using r s' by blast
qed

end
