(* ===== verification/SynchManager.thy ===== *)
theory SynchManager
  imports BitMap Threads
begin

text \<open>
  The locks and conditions of user programs without a network (\<open>userprog/SynchManager.cc\<close>): two tables
  under two locks of the kernel. A call runs up to the kernel operation in which it may have to wait; the
  point at which a thread goes on is part of the state, so that calls of several threads interleave.
\<close>

section \<open>State\<close>

abbreviation (input) MaxNumLocks :: nat where "MaxNumLocks \<equiv> 10000"
abbreviation (input) MaxNumCVs :: nat where "MaxNumCVs \<equiv> 40000"

record lockentry =
  le_lock :: nat
  le_owner :: "nat option"
  le_toBeUsed :: bool
  le_toBeDeleted :: bool

record cventry =
  ce_cv :: nat
  ce_owner :: "nat option"
  ce_toBeUsed :: bool
  ce_toBeDeleted :: bool

text \<open>The last thing a call did that its thread may have waited in.\<close>

datatype smpoint =
    Outside
  | CreateLock_locked | CreateCondition_locked | DestroyLock_locked int | DestroyCondition_locked int
  | Acquire_locked int | Acquire_got nat | Release_locked int
  | Wait_first int int | Wait_locked int int | Wait_done nat
  | Signal_first int int | Signal_locked int int | Broadcast_first int int | Broadcast_locked int int

text \<open>A lock or condition of the kernel is a number. An entry that was never made or is deleted is
  \<open>None\<close>. \<open>answer\<close> is the last value returned to each thread.\<close>

record synchman =
  sk :: kern
  lockBitMap :: bitmap
  cvBitMap :: bitmap
  lockEntries :: "nat \<Rightarrow> lockentry option"
  cvEntries :: "nat \<Rightarrow> cventry option"
  next_lock :: nat
  next_cv :: nat
  space_of :: "nat \<Rightarrow> nat option"
  point :: "nat \<Rightarrow> smpoint"
  answer :: "nat \<Rightarrow> int"

abbreviation (input) lock_ForLockTable :: nat where "lock_ForLockTable \<equiv> 0"
abbreviation (input) lock_ForCVTable :: nat where "lock_ForCVTable \<equiv> 1"

definition SynchManager_new :: "(nat \<Rightarrow> u32) \<Rightarrow> (nat \<Rightarrow> nat option) \<Rightarrow> kern \<Rightarrow> synchman result" where
  "SynchManager_new junk spaces k =
     bindE (BitMap_new junk MaxNumLocks) (\<lambda>b. bindE (BitMap_new junk MaxNumLocks) (\<lambda>c.
     Inr \<lparr>sk = k, lockBitMap = b, cvBitMap = c, lockEntries = (\<lambda>_. None), cvEntries = (\<lambda>_. None),
          next_lock = 2, next_cv = 0, space_of = spaces, point = (\<lambda>_. Outside), answer = (\<lambda>_. 0)\<rparr>))"

abbreviation me :: "synchman \<Rightarrow> nat" where "me s \<equiv> currentThread (sk s)"

abbreviation at_point :: "smpoint \<Rightarrow> synchman \<Rightarrow> synchman" where
  "at_point p s \<equiv> s\<lparr>point := (point s)(me s := p)\<rparr>"

definition lock_then :: "nat \<Rightarrow> smpoint \<Rightarrow> synchman \<Rightarrow> synchman result" where
  "lock_then l p s = bindE (Acquire l (sk s)) (\<lambda>k. Inr ((at_point p s)\<lparr>sk := k\<rparr>))"

definition unlock :: "nat \<Rightarrow> synchman \<Rightarrow> synchman" where
  "unlock l s = s\<lparr>sk := Release l (sk s)\<rparr>"

definition return_with :: "int \<Rightarrow> synchman \<Rightarrow> synchman" where
  "return_with v s = (at_point Outside s)\<lparr>answer := (answer s)(me s := v)\<rparr>"

text \<open>\<open>index < 0 || index > limit || !bitMap->Test(index)\<close>; an entry is used through its pointer.\<close>

definition unknown :: "int \<Rightarrow> nat \<Rightarrow> bitmap \<Rightarrow> bool result" where
  "unknown index limit b =
     (if index < 0 \<or> index > int limit then Inr True else bindE (BitMap_Test b index) (\<lambda>t. Inr (\<not> t)))"

definition lock_entry :: "nat \<Rightarrow> synchman \<Rightarrow> lockentry result" where
  "lock_entry i s = (case lockEntries s i of None \<Rightarrow> Inl Undefined_behaviour | Some e \<Rightarrow> Inr e)"

definition cv_entry :: "nat \<Rightarrow> synchman \<Rightarrow> cventry result" where
  "cv_entry i s = (case cvEntries s i of None \<Rightarrow> Inl Undefined_behaviour | Some e \<Rightarrow> Inr e)"

section \<open>Creating and destroying\<close>

definition CreateLock_body :: "synchman \<Rightarrow> synchman result" where
  "CreateLock_body s =
     bindE (BitMap_Find (lockBitMap s)) (\<lambda>(i, m).
     if i = -1 then Inr (return_with (-1) (unlock lock_ForLockTable (s\<lparr>lockBitMap := m\<rparr>)))
     else Inr (return_with i (unlock lock_ForLockTable (s\<lparr>lockBitMap := m,
       lockEntries := (lockEntries s)(nat i \<mapsto> \<lparr>le_lock = next_lock s, le_owner = None, le_toBeUsed = False, le_toBeDeleted = False\<rparr>),
       sk := set_lock (next_lock s) Lock_new (sk s), next_lock := Suc (next_lock s)\<rparr>))))"

definition CreateCondition_body :: "synchman \<Rightarrow> synchman result" where
  "CreateCondition_body s =
     bindE (BitMap_Find (cvBitMap s)) (\<lambda>(i, m).
     if i = -1 then Inr (return_with (-1) (unlock lock_ForCVTable (s\<lparr>cvBitMap := m\<rparr>)))
     else Inr (return_with i (unlock lock_ForCVTable (s\<lparr>cvBitMap := m,
       cvEntries := (cvEntries s)(nat i \<mapsto> \<lparr>ce_cv = next_cv s, ce_owner = None, ce_toBeUsed = False, ce_toBeDeleted = False\<rparr>),
       sk := set_cond (next_cv s) Condition_new (sk s), next_cv := Suc (next_cv s)\<rparr>))))"

definition DestroyLock_body :: "int \<Rightarrow> synchman \<Rightarrow> synchman result" where
  "DestroyLock_body index s =
     bindE (unknown index MaxNumLocks (lockBitMap s)) (\<lambda>bad.
     if bad then Inr (at_point Outside (unlock lock_ForLockTable s))
     else bindE (lock_entry (nat index) s) (\<lambda>e.
       if le_owner e = None \<and> \<not> le_toBeUsed e then
         bindE (BitMap_Clear (lockBitMap s) index) (\<lambda>m.
         Inr (at_point Outside (unlock lock_ForLockTable
           (s\<lparr>lockEntries := (lockEntries s)(nat index := None), lockBitMap := m\<rparr>))))
       else Inr (at_point Outside (unlock lock_ForLockTable
           (s\<lparr>lockEntries := (lockEntries s)(nat index \<mapsto> e\<lparr>le_toBeDeleted := True\<rparr>)\<rparr>)))))"

definition DestroyCondition_body :: "int \<Rightarrow> synchman \<Rightarrow> synchman result" where
  "DestroyCondition_body index s =
     bindE (unknown index MaxNumCVs (cvBitMap s)) (\<lambda>bad.
     if bad then Inr (at_point Outside (unlock lock_ForCVTable s))
     else bindE (cv_entry (nat index) s) (\<lambda>e.
       if ce_owner e = None \<and> \<not> ce_toBeUsed e then
         bindE (BitMap_Clear (cvBitMap s) index) (\<lambda>m.
         Inr (at_point Outside (unlock lock_ForCVTable
           (s\<lparr>cvEntries := (cvEntries s)(nat index := None), cvBitMap := m\<rparr>))))
       else Inr (at_point Outside (unlock lock_ForCVTable
           (s\<lparr>cvEntries := (cvEntries s)(nat index \<mapsto> e\<lparr>ce_toBeDeleted := True\<rparr>)\<rparr>)))))"

section \<open>Acquire and Release\<close>

text \<open>For an index that is not in use, both return without releasing the lock of the table.\<close>

definition Acquire_body :: "int \<Rightarrow> synchman \<Rightarrow> synchman result" where
  "Acquire_body index s =
     bindE (unknown index MaxNumCVs (lockBitMap s)) (\<lambda>bad.
     if bad then Inr (at_point Outside s)
     else bindE (lock_entry (nat index) s) (\<lambda>e.
       lock_then (le_lock e) (Acquire_got (nat index)) (unlock lock_ForLockTable
         (s\<lparr>lockEntries := (lockEntries s)(nat index \<mapsto> e\<lparr>le_toBeUsed := True\<rparr>)\<rparr>))))"

definition Acquire_end :: "nat \<Rightarrow> synchman \<Rightarrow> synchman result" where
  "Acquire_end i s =
     bindE (lock_entry i s) (\<lambda>e.
     Inr (at_point Outside (s\<lparr>lockEntries := (lockEntries s)(i \<mapsto> e\<lparr>le_owner := space_of s (me s), le_toBeUsed := False\<rparr>)\<rparr>)))"

definition Release_body :: "int \<Rightarrow> synchman \<Rightarrow> synchman result" where
  "Release_body index s =
     bindE (unknown index MaxNumCVs (lockBitMap s)) (\<lambda>bad.
     if bad then Inr (at_point Outside s)
     else bindE (lock_entry (nat index) s) (\<lambda>e.
       let s1 = unlock (le_lock e) s in
       if le_toBeDeleted e then
         bindE (BitMap_Clear (lockBitMap s1) index) (\<lambda>m.
         Inr (at_point Outside (unlock lock_ForLockTable
           (s1\<lparr>lockEntries := (lockEntries s1)(nat index := None), lockBitMap := m\<rparr>))))
       else Inr (at_point Outside (unlock lock_ForLockTable
           (s1\<lparr>lockEntries := (lockEntries s1)(nat index \<mapsto> e\<lparr>le_owner := None\<rparr>)\<rparr>)))))"

section \<open>Wait, Signal and Broadcast\<close>

text \<open>Both indices, the condition's first; \<open>None\<close> when one is not in use.\<close>

definition both_entries :: "int \<Rightarrow> int \<Rightarrow> synchman \<Rightarrow> (cventry \<times> lockentry) option result" where
  "both_entries cvIndex lockIndex s =
     bindE (unknown cvIndex MaxNumCVs (cvBitMap s)) (\<lambda>bad.
     if bad then Inr None
     else bindE (unknown lockIndex MaxNumCVs (lockBitMap s)) (\<lambda>bad.
       if bad then Inr None
       else bindE (cv_entry (nat cvIndex) s) (\<lambda>c. bindE (lock_entry (nat lockIndex) s) (\<lambda>l. Inr (Some (c, l))))))"

definition unlock_tables :: "synchman \<Rightarrow> synchman" where
  "unlock_tables s = unlock lock_ForCVTable (unlock lock_ForLockTable s)"

definition Wait_body :: "int \<Rightarrow> int \<Rightarrow> synchman \<Rightarrow> synchman result" where
  "Wait_body cvIndex lockIndex s =
     bindE (both_entries cvIndex lockIndex s) (\<lambda>es.
     case es of
       None \<Rightarrow> Inr (at_point Outside (unlock_tables s))
     | Some (c, l) \<Rightarrow>
         (let s1 = unlock_tables (s\<lparr>cvEntries := (cvEntries s)(nat cvIndex \<mapsto> c\<lparr>ce_toBeUsed := True, ce_owner := space_of s (me s)\<rparr>)\<rparr>)
          in bindE (Wait (ce_cv c) (Some (le_lock l)) (sk s1)) (\<lambda>k. Inr ((at_point (Wait_done (nat cvIndex)) s1)\<lparr>sk := k\<rparr>))))"

definition Wait_end :: "nat \<Rightarrow> synchman \<Rightarrow> synchman result" where
  "Wait_end i s =
     bindE (cv_entry i s) (\<lambda>c.
     Inr (at_point Outside (s\<lparr>cvEntries := (cvEntries s)(i \<mapsto> c\<lparr>ce_owner := None, ce_toBeUsed := False\<rparr>)\<rparr>)))"

definition Signal_body :: "int \<Rightarrow> int \<Rightarrow> synchman \<Rightarrow> synchman result" where
  "Signal_body cvIndex lockIndex s =
     bindE (both_entries cvIndex lockIndex s) (\<lambda>es.
     case es of
       None \<Rightarrow> Inr (at_point Outside (unlock_tables s))
     | Some (c, l) \<Rightarrow> Inr (at_point Outside (unlock_tables (s\<lparr>sk := Signal (ce_cv c) (Some (le_lock l)) (sk s)\<rparr>))))"

definition Broadcast_body :: "int \<Rightarrow> int \<Rightarrow> synchman \<Rightarrow> synchman result" where
  "Broadcast_body cvIndex lockIndex s =
     bindE (both_entries cvIndex lockIndex s) (\<lambda>es.
     case es of
       None \<Rightarrow> Inr (at_point Outside (unlock_tables s))
     | Some (c, l) \<Rightarrow>
         bindE (Broadcast (ce_cv c) (Some (le_lock l)) (sk s)) (\<lambda>k. Inr (at_point Outside (unlock_tables (s\<lparr>sk := k\<rparr>)))))"

section \<open>Calls and steps\<close>

datatype smcall =
    CreateLock_call | CreateCondition_call | DestroyLock_call int | DestroyCondition_call int
  | Acquire_call int | Release_call int | Wait_call int int | Signal_call int int | Broadcast_call int int

definition sm_start :: "smcall \<Rightarrow> synchman \<Rightarrow> synchman result" where
  "sm_start c s =
     (case c of
        CreateLock_call \<Rightarrow> lock_then lock_ForLockTable CreateLock_locked s
      | CreateCondition_call \<Rightarrow> lock_then lock_ForCVTable CreateCondition_locked s
      | DestroyLock_call i \<Rightarrow> lock_then lock_ForLockTable (DestroyLock_locked i) s
      | DestroyCondition_call i \<Rightarrow> lock_then lock_ForCVTable (DestroyCondition_locked i) s
      | Acquire_call i \<Rightarrow> lock_then lock_ForLockTable (Acquire_locked i) s
      | Release_call i \<Rightarrow> lock_then lock_ForLockTable (Release_locked i) s
      | Wait_call c l \<Rightarrow> lock_then lock_ForCVTable (Wait_first c l) s
      | Signal_call c l \<Rightarrow> lock_then lock_ForCVTable (Signal_first c l) s
      | Broadcast_call c l \<Rightarrow> lock_then lock_ForCVTable (Broadcast_first c l) s)"

definition sm_continue :: "synchman \<Rightarrow> synchman result" where
  "sm_continue s =
     (case point s (me s) of
        Outside \<Rightarrow> Inr s
      | CreateLock_locked \<Rightarrow> CreateLock_body s
      | CreateCondition_locked \<Rightarrow> CreateCondition_body s
      | DestroyLock_locked i \<Rightarrow> DestroyLock_body i s
      | DestroyCondition_locked i \<Rightarrow> DestroyCondition_body i s
      | Acquire_locked i \<Rightarrow> Acquire_body i s
      | Acquire_got i \<Rightarrow> Acquire_end i s
      | Release_locked i \<Rightarrow> Release_body i s
      | Wait_first c l \<Rightarrow> lock_then lock_ForLockTable (Wait_locked c l) s
      | Wait_locked c l \<Rightarrow> Wait_body c l s
      | Wait_done i \<Rightarrow> Wait_end i s
      | Signal_first c l \<Rightarrow> lock_then lock_ForLockTable (Signal_locked c l) s
      | Signal_locked c l \<Rightarrow> Signal_body c l s
      | Broadcast_first c l \<Rightarrow> lock_then lock_ForLockTable (Broadcast_locked c l) s
      | Broadcast_locked c l \<Rightarrow> Broadcast_body c l s)"

text \<open>The running thread begins a call, goes on with one, comes out of a wait of the kernel or is
  preempted; an idle CPU finds a ready thread.\<close>

inductive smstep :: "synchman \<Rightarrow> synchman \<Rightarrow> bool" where
  begins: "\<not> idle (sk s) \<Longrightarrow> kont (sk s) (me s) = Returned \<Longrightarrow> point s (me s) = Outside \<Longrightarrow> sm_start c s = Inr s' \<Longrightarrow> smstep s s'"
| continues: "\<not> idle (sk s) \<Longrightarrow> kont (sk s) (me s) = Returned \<Longrightarrow> sm_continue s = Inr s' \<Longrightarrow> smstep s s'"
| resumes: "\<not> idle (sk s) \<Longrightarrow> resume (sk s) = Inr k \<Longrightarrow> smstep s (s\<lparr>sk := k\<rparr>)"
| preempted: "\<not> idle (sk s) \<Longrightarrow> Yield (sk s) = Inr k \<Longrightarrow> smstep s (s\<lparr>sk := k\<rparr>)"
| wakes: "idle (sk s) \<Longrightarrow> readyList (sk s) \<noteq> [] \<Longrightarrow> look_for_work (sk s) = Inr k \<Longrightarrow> smstep s (s\<lparr>sk := k\<rparr>)"

section \<open>The tables\<close>

text \<open>A bit is set just for an entry; entries have locks of their own, none of them that of a table.\<close>

definition tables_ok :: "synchman \<Rightarrow> bool" where
  "tables_ok s \<longleftrightarrow> bitmap_wf (lockBitMap s) \<and> numBits (lockBitMap s) = MaxNumLocks \<and> marked (lockBitMap s) = dom (lockEntries s)
     \<and> bitmap_wf (cvBitMap s) \<and> numBits (cvBitMap s) = MaxNumLocks \<and> marked (cvBitMap s) = dom (cvEntries s)
     \<and> 2 \<le> next_lock s
     \<and> (\<forall>i e. lockEntries s i = Some e \<longrightarrow> 2 \<le> le_lock e \<and> le_lock e < next_lock s)
     \<and> (\<forall>i j e f. lockEntries s i = Some e \<longrightarrow> lockEntries s j = Some f \<longrightarrow> le_lock e = le_lock f \<longrightarrow> i = j)
     \<and> (\<forall>i e. cvEntries s i = Some e \<longrightarrow> ce_cv e < next_cv s)
     \<and> (\<forall>i j e f. cvEntries s i = Some e \<longrightarrow> cvEntries s j = Some f \<longrightarrow> ce_cv e = ce_cv f \<longrightarrow> i = j)"

lemma tables_ok_frame [simp]:
  "tables_ok (s\<lparr>sk := k\<rparr>) = tables_ok s" "tables_ok (s\<lparr>point := p\<rparr>) = tables_ok s" "tables_ok (s\<lparr>answer := a\<rparr>) = tables_ok s"
  "tables_ok (unlock l s) = tables_ok s" "tables_ok (unlock_tables s) = tables_ok s" "tables_ok (return_with v s) = tables_ok s"
  by (simp_all add: tables_ok_def unlock_def unlock_tables_def return_with_def)

lemma lock_then_tables: "lock_then l p s = Inr s' \<Longrightarrow> tables_ok s' = tables_ok s"
  by (auto simp: lock_then_def bindE_eq_Inr)

lemma tables_ok_lock_entry:
  "tables_ok s \<Longrightarrow> lockEntries s i = Some e \<Longrightarrow> le_lock e' = le_lock e \<Longrightarrow> tables_ok (s\<lparr>lockEntries := (lockEntries s)(i \<mapsto> e')\<rparr>)"
  unfolding tables_ok_def by (simp add: insert_absorb domI) (metis option.inject)

lemma tables_ok_cv_entry:
  "tables_ok s \<Longrightarrow> cvEntries s i = Some e \<Longrightarrow> ce_cv e' = ce_cv e \<Longrightarrow> tables_ok (s\<lparr>cvEntries := (cvEntries s)(i \<mapsto> e')\<rparr>)"
  unfolding tables_ok_def by (simp add: insert_absorb domI) (metis option.inject)

lemma entry_eqs [simp]:
  "lock_entry i s = Inr e \<longleftrightarrow> lockEntries s i = Some e" "cv_entry i s = Inr c \<longleftrightarrow> cvEntries s i = Some c"
  by (auto simp: lock_entry_def cv_entry_def split: option.splits)

lemma unlock_fields [simp]:
  "lockEntries (unlock l s) = lockEntries s" "cvEntries (unlock l s) = cvEntries s"
  "lockBitMap (unlock l s) = lockBitMap s" "cvBitMap (unlock l s) = cvBitMap s"
  by (simp_all add: unlock_def)

lemma lock_entry_in_range: "tables_ok s \<Longrightarrow> lockEntries s i = Some e \<Longrightarrow> i < numBits (lockBitMap s)"
  using marked_bounded[of "lockBitMap s"] by (auto simp: tables_ok_def)

lemma cv_entry_in_range: "tables_ok s \<Longrightarrow> cvEntries s i = Some e \<Longrightarrow> i < numBits (cvBitMap s)"
  using marked_bounded[of "cvBitMap s"] by (auto simp: tables_ok_def)

lemma tables_ok_delete_lock:
  assumes "tables_ok s" and "lockEntries s i = Some e" and "BitMap_Clear (lockBitMap s) (int i) = Inr m"
  shows "tables_ok (s\<lparr>lockEntries := (lockEntries s)(i := None), lockBitMap := m\<rparr>)"
proof -
  have "bitmap_wf m \<and> numBits m = numBits (lockBitMap s) \<and> marked m = marked (lockBitMap s) - {i}"
    using bm.clear_ex[of "lockBitMap s" i] assms lock_entry_in_range[OF assms(1,2)] by (auto simp: tables_ok_def)
  then show ?thesis using assms(1) by (auto simp: tables_ok_def)
qed

lemma tables_ok_delete_cv:
  assumes "tables_ok s" and "cvEntries s i = Some e" and "BitMap_Clear (cvBitMap s) (int i) = Inr m"
  shows "tables_ok (s\<lparr>cvEntries := (cvEntries s)(i := None), cvBitMap := m\<rparr>)"
proof -
  have "bitmap_wf m \<and> numBits m = numBits (cvBitMap s) \<and> marked m = marked (cvBitMap s) - {i}"
    using bm.clear_ex[of "cvBitMap s" i] assms cv_entry_in_range[OF assms(1,2)] by (auto simp: tables_ok_def)
  then show ?thesis using assms(1) by (auto simp: tables_ok_def)
qed

text \<open>Which indices are refused, and which stop the machine.\<close>

lemma unknown_eq:
  assumes "numBits b = MaxNumLocks" and "MaxNumLocks \<le> limit"
  shows "unknown i limit b = (if i < 0 \<or> i > int limit then Inr True
     else if i < int MaxNumLocks then Inr (nat i \<notin> marked b) else Inl Assertion_failed)"
proof (cases "0 \<le> i \<and> i < int MaxNumLocks")
  case True
  then have "BitMap_Test b (int (nat i)) = Inr (nat i \<in> marked b)" using assms(1) by (intro BitMap_Test_eq) (simp add: nat_less_iff)
  then show ?thesis using True assms(2) by (simp add: unknown_def)
next
  case False
  then show ?thesis using assms by (auto simp: unknown_def BitMap_Test_def which_ok_def assertE_def)
qed

text \<open>A new entry.\<close>

lemma CreateLock_body_ok:
  assumes t: "tables_ok s"
  shows "\<exists>s'. CreateLock_body s = Inr s' \<and> tables_ok s' \<and>
    (if card (dom (lockEntries s)) < MaxNumLocks
     then \<exists>i < MaxNumLocks. answer s' (me s) = int i \<and> lockEntries s i = None
       \<and> lockEntries s' = (lockEntries s)(i \<mapsto> \<lparr>le_lock = next_lock s, le_owner = None, le_toBeUsed = False, le_toBeDeleted = False\<rparr>)
       \<and> locks (sk s') (next_lock s) = Lock_new
     else answer s' (me s) = -1 \<and> lockEntries s' = lockEntries s)"
proof -
  have w: "bitmap_wf (lockBitMap s)" "numBits (lockBitMap s) = MaxNumLocks" "marked (lockBitMap s) = dom (lockEntries s)"
    "2 \<le> next_lock s"
    using t by (simp_all add: tables_ok_def)
  have fr: "me (unlock l s) = me s" for l s by (simp add: unlock_def Release_frame)
  have ot: "locks (Release 0 k) l = locks k l" if "0 < l" for k l
    using that by (auto simp: Release_def ReadyToRun_def Let_def split: list.split)
  show ?thesis
  proof (cases "card (dom (lockEntries s)) < MaxNumLocks")
    case True
    then obtain i m where f: "BitMap_Find (lockBitMap s) = Inr (int i, m)" "bitmap_wf m" "numBits m = MaxNumLocks" "i < MaxNumLocks"
      "i \<notin> dom (lockEntries s)" "marked m = insert i (dom (lockEntries s))"
      using bm.find_some[OF w(1)] unfolding w(2,3) by blast
    let ?e = "\<lparr>le_lock = next_lock s, le_owner = None, le_toBeUsed = False, le_toBeDeleted = False\<rparr>"
    let ?s = "s\<lparr>lockBitMap := m, lockEntries := (lockEntries s)(i \<mapsto> ?e), sk := set_lock (next_lock s) Lock_new (sk s), next_lock := Suc (next_lock s)\<rparr>"
    have old: "\<And>j e. lockEntries s j = Some e \<Longrightarrow> 2 \<le> le_lock e \<and> le_lock e < next_lock s" using t by (simp add: tables_ok_def)
    have "tables_ok (s\<lparr>lockBitMap := m, lockEntries := (lockEntries s)(i \<mapsto> ?e), next_lock := Suc (next_lock s)\<rparr>)" using t f(2-6) old
      by (fastforce simp: tables_ok_def less_Suc_eq split: if_splits)
    then show ?thesis using True f fr ot w(4)
      by (intro exI[of _ "return_with (int i) (unlock lock_ForLockTable ?s)"])
        (auto simp: CreateLock_body_def return_with_def unlock_def Release_frame intro!: exI[of _ i])
  next
    case False
    then have "card (marked (lockBitMap s)) = numBits (lockBitMap s)"
      using card_mono[OF finite_lessThan marked_bounded[of "lockBitMap s"]] w by simp
    then have f: "BitMap_Find (lockBitMap s) = Inr (-1, lockBitMap s)" by (rule bm.find_none[OF w(1)])
    then show ?thesis using False t
      by (simp add: CreateLock_body_def) (simp add: return_with_def unlock_def Release_frame)
  qed
qed

lemma CreateCondition_body_ok:
  assumes t: "tables_ok s" and r: "CreateCondition_body s = Inr s'"
  shows "tables_ok s'"
proof -
  have w: "bitmap_wf (cvBitMap s)" "numBits (cvBitMap s) = MaxNumLocks" "marked (cvBitMap s) = dom (cvEntries s)"
    using t by (simp_all add: tables_ok_def)
  show ?thesis
  proof (cases "card (dom (cvEntries s)) < MaxNumLocks")
    case True
    then obtain i m where f: "BitMap_Find (cvBitMap s) = Inr (int i, m)" "bitmap_wf m" "numBits m = MaxNumLocks" "i < MaxNumLocks"
      "i \<notin> dom (cvEntries s)" "marked m = insert i (dom (cvEntries s))"
      using bm.find_some[OF w(1)] unfolding w(2,3) by blast
    let ?e = "\<lparr>ce_cv = next_cv s, ce_owner = None, ce_toBeUsed = False, ce_toBeDeleted = False\<rparr>"
    have old: "\<And>j e. cvEntries s j = Some e \<Longrightarrow> ce_cv e < next_cv s" using t by (simp add: tables_ok_def)
    have "tables_ok (s\<lparr>cvBitMap := m, cvEntries := (cvEntries s)(i \<mapsto> ?e),
        sk := set_cond (next_cv s) Condition_new (sk s), next_cv := Suc (next_cv s)\<rparr>)" using t f(2-6) old
      by (fastforce simp: tables_ok_def less_Suc_eq split: if_splits)
    then show ?thesis using r f by (auto simp: CreateCondition_body_def)
  next
    case False
    then have "card (marked (cvBitMap s)) = numBits (cvBitMap s)"
      using card_mono[OF finite_lessThan marked_bounded[of "cvBitMap s"]] w by simp
    then have f: "BitMap_Find (cvBitMap s) = Inr (-1, cvBitMap s)" by (rule bm.find_none[OF w(1)])
    then show ?thesis using r t by (auto simp: CreateCondition_body_def)
  qed
qed

lemma unknown_Inr_False:
  assumes "tables_ok s" and "MaxNumLocks \<le> limit"
  shows "unknown i limit (lockBitMap s) = Inr False \<Longrightarrow> \<exists>e. 0 \<le> i \<and> lockEntries s (nat i) = Some e"
    and "unknown i limit (cvBitMap s) = Inr False \<Longrightarrow> \<exists>e. 0 \<le> i \<and> cvEntries s (nat i) = Some e"
  using assms unknown_eq[of "lockBitMap s" limit i] unknown_eq[of "cvBitMap s" limit i]
  by (auto simp: tables_ok_def split: if_splits)

text \<open>Every body keeps the tables.\<close>

lemma DestroyLock_tables: "tables_ok s \<Longrightarrow> DestroyLock_body i s = Inr s' \<Longrightarrow> tables_ok s'"
  using tables_ok_lock_entry[of s "nat i"] tables_ok_delete_lock[of s "nat i"] unknown_Inr_False(1)[of s MaxNumLocks i]
  by (fastforce simp: DestroyLock_body_def elim!: bindE_InrE split: if_splits)

lemma DestroyCondition_tables: "tables_ok s \<Longrightarrow> DestroyCondition_body i s = Inr s' \<Longrightarrow> tables_ok s'"
  using tables_ok_cv_entry[of s "nat i"] tables_ok_delete_cv[of s "nat i"] unknown_Inr_False(2)[of s MaxNumCVs i]
  by (fastforce simp: DestroyCondition_body_def elim!: bindE_InrE split: if_splits)

lemma Acquire_tables: "tables_ok s \<Longrightarrow> Acquire_body i s = Inr s' \<Longrightarrow> tables_ok s'"
  using tables_ok_lock_entry[of s "nat i"] lock_then_tables
  by (fastforce simp: Acquire_body_def elim!: bindE_InrE split: if_splits)

lemma Acquire_end_tables: "tables_ok s \<Longrightarrow> Acquire_end i s = Inr s' \<Longrightarrow> tables_ok s'"
  using tables_ok_lock_entry[of s i] by (fastforce simp: Acquire_end_def elim!: bindE_InrE)

lemma Release_tables:
  assumes t: "tables_ok s" and r: "Release_body i s = Inr s'"
  shows "tables_ok s'"
proof -
  obtain bad where b: "unknown i MaxNumCVs (lockBitMap s) = Inr bad" using r by (auto simp: Release_body_def elim!: bindE_InrE)
  show ?thesis
  proof (cases bad)
    case True
    then show ?thesis using t r b by (auto simp: Release_body_def)
  next
    case False
    then obtain e where e: "0 \<le> i" "lockEntries s (nat i) = Some e" using unknown_Inr_False(1)[OF t, of MaxNumCVs i] b by auto
    let ?s = "unlock (le_lock e) s"
    have s1: "tables_ok ?s" "lockEntries ?s (nat i) = Some e" using t e by simp_all
    have le: "lock_entry (nat i) s = Inr e" using e by simp
    show ?thesis
    proof (cases "le_toBeDeleted e")
      case True
      then obtain m where m: "BitMap_Clear (lockBitMap ?s) (int (nat i)) = Inr m"
        "s' = at_point Outside (unlock lock_ForLockTable (?s\<lparr>lockEntries := (lockEntries ?s)(nat i := None), lockBitMap := m\<rparr>))"
        using r b False e le by (auto simp: Release_body_def Let_def elim!: bindE_InrE)
      then show ?thesis using tables_ok_delete_lock[OF s1 m(1)] by simp
    next
      case d: False
      then have "s' = at_point Outside (unlock lock_ForLockTable (?s\<lparr>lockEntries := (lockEntries ?s)(nat i \<mapsto> e\<lparr>le_owner := None\<rparr>)\<rparr>))"
        using r b False le by (simp add: Release_body_def Let_def)
      then show ?thesis using tables_ok_lock_entry[OF s1, of "e\<lparr>le_owner := None\<rparr>"] by simp
    qed
  qed
qed

lemma both_entries_Some:
  "both_entries c l s = Inr (Some (a, b)) \<Longrightarrow> cvEntries s (nat c) = Some a \<and> lockEntries s (nat l) = Some b"
  by (auto simp: both_entries_def elim!: bindE_InrE split: if_splits)

lemma Wait_tables: "tables_ok s \<Longrightarrow> Wait_body c l s = Inr s' \<Longrightarrow> tables_ok s'"
  using tables_ok_cv_entry[of s "nat c"] both_entries_Some
  by (fastforce simp: Wait_body_def Let_def elim!: bindE_InrE split: option.splits)

lemma Wait_end_tables: "tables_ok s \<Longrightarrow> Wait_end i s = Inr s' \<Longrightarrow> tables_ok s'"
  using tables_ok_cv_entry[of s i] by (fastforce simp: Wait_end_def elim!: bindE_InrE)

lemma Signal_tables: "tables_ok s \<Longrightarrow> Signal_body c l s = Inr s' \<Longrightarrow> tables_ok s'"
  by (auto simp: Signal_body_def elim!: bindE_InrE split: option.splits)

lemma Broadcast_tables: "tables_ok s \<Longrightarrow> Broadcast_body c l s = Inr s' \<Longrightarrow> tables_ok s'"
  by (auto simp: Broadcast_body_def elim!: bindE_InrE split: option.splits)

lemmas body_tables = DestroyLock_tables DestroyCondition_tables Acquire_tables Acquire_end_tables Release_tables
  Wait_tables Wait_end_tables Signal_tables Broadcast_tables CreateCondition_body_ok

lemma continue_tables: "tables_ok s \<Longrightarrow> sm_continue s = Inr s' \<Longrightarrow> tables_ok s'"
proof -
  assume t: "tables_ok s" and c: "sm_continue s = Inr s'"
  have cr: "CreateLock_body s = Inr s' \<Longrightarrow> tables_ok s'" using CreateLock_body_ok[OF t] by auto
  show ?thesis using c t cr by (auto simp: sm_continue_def lock_then_tables dest: body_tables split: smpoint.splits)
qed

lemma smstep_tables: "smstep s s' \<Longrightarrow> tables_ok s \<Longrightarrow> tables_ok s'"
  by (induction rule: smstep.induct) (auto simp: sm_start_def lock_then_tables intro: continue_tables split: smcall.splits)

lemma new_tables: "SynchManager_new junk spaces k = Inr s \<Longrightarrow> tables_ok s"
  using BitMap_new_ex[of junk MaxNumLocks] by (auto simp: SynchManager_new_def tables_ok_def)

lemma reachable_tables: "SynchManager_new junk spaces k = Inr s0 \<Longrightarrow> smstep\<^sup>*\<^sup>* s0 s \<Longrightarrow> tables_ok s"
  by (rotate_tac, induction rule: rtranclp_induct) (auto intro: new_tables smstep_tables)

section \<open>Properties\<close>

text \<open>
  C18: The tables of locks and conditions stay consistent. Whatever calls the threads make, wherever they
  wait and however they are preempted, a bit is set just for an index with an entry, every entry has a lock
  or condition of its own, and none of them is the lock of a table.
\<close>

theorem synch_tables_consistent:
  assumes "SynchManager_new junk spaces k = Inr s0" and "smstep\<^sup>*\<^sup>* s0 s"
  shows "marked (lockBitMap s) = dom (lockEntries s) \<and> marked (cvBitMap s) = dom (cvEntries s)
    \<and> (\<forall>i j e f. lockEntries s i = Some e \<longrightarrow> lockEntries s j = Some f \<longrightarrow> le_lock e = le_lock f \<longrightarrow> i = j)
    \<and> (\<forall>i j e f. cvEntries s i = Some e \<longrightarrow> cvEntries s j = Some f \<longrightarrow> ce_cv e = ce_cv f \<longrightarrow> i = j)
    \<and> (\<forall>i e. lockEntries s i = Some e \<longrightarrow> le_lock e \<noteq> lock_ForLockTable \<and> le_lock e \<noteq> lock_ForCVTable)
    \<and> dom (lockEntries s) \<subseteq> {..<MaxNumLocks} \<and> dom (cvEntries s) \<subseteq> {..<MaxNumLocks}"
proof -
  have t: "tables_ok s" by (rule reachable_tables[OF assms])
  have "dom (lockEntries s) \<subseteq> {..<MaxNumLocks}" "dom (cvEntries s) \<subseteq> {..<MaxNumLocks}"
    using t marked_bounded[of "lockBitMap s"] marked_bounded[of "cvBitMap s"] by (simp_all add: tables_ok_def)
  then show ?thesis using t by (fastforce simp: tables_ok_def)
qed

text \<open>A thread that asks for a lock another has waits for it.\<close>

lemma look_for_work_kont: "look_for_work k = Inr k' \<Longrightarrow> kont k' = kont k \<and> locks k' = locks k"
  by (auto simp: look_for_work_def FindNextToRun_def Run_def Let_def split: list.splits option.splits elim!: bindE_InrE)

lemma Acquire_taken:
  assumes "lk_state (locks k l) = BUSY" and "lk_owner (locks k l) = Some t" and "t \<noteq> currentThread k" and "Acquire l k = Inr k'"
  shows "kont k' (currentThread k) = After_Acquire l" "lk_owner (locks k' l) = Some t"
    "lk_waiting (locks k' l) = lk_waiting (locks k l) @ [currentThread k]"
  using assms look_for_work_kont by (fastforce simp: Acquire_def isHeldByCurrentThread_def Let_def Sleep_def)+

text \<open>
  A wrong index stops the other threads. \<open>Acquire\<close> and \<open>Release\<close> of an index that is not in use
  return, but keep the lock of the table; from then on every other thread that creates, destroys, acquires
  or releases a lock waits for it. An index from 10000 to 40000 fails an assertion in the bitmap, and with it
  the whole machine.
\<close>

theorem wrong_index_keeps_table_locked:
  assumes "tables_ok s" and "point s (me s) = Acquire_locked i \<or> point s (me s) = Release_locked i"
    and "locks (sk s) lock_ForLockTable = \<lparr>lk_state = BUSY, lk_owner = Some (me s), lk_waiting = ws\<rparr>"
    and "i < 0 \<or> int MaxNumLocks \<le> i \<or> lockEntries s (nat i) = None"
  shows "(if int MaxNumLocks \<le> i \<and> i \<le> int MaxNumCVs then sm_continue s = Inl Assertion_failed
     else sm_continue s = Inr (at_point Outside s))
    \<and> (\<forall>u c u'. locks (sk u) lock_ForLockTable = locks (sk s) lock_ForLockTable \<longrightarrow> me u \<noteq> me s \<longrightarrow>
        c \<in> {CreateLock_call, DestroyLock_call j, Acquire_call j, Release_call j} \<longrightarrow> sm_start c u = Inr u' \<longrightarrow>
        kont (sk u') (me u) = After_Acquire lock_ForLockTable
        \<and> locks (sk u') lock_ForLockTable = \<lparr>lk_state = BUSY, lk_owner = Some (me s), lk_waiting = ws @ [me u]\<rparr>)"
proof (intro conjI allI impI)
  have b: "numBits (lockBitMap s) = MaxNumLocks" "marked (lockBitMap s) = dom (lockEntries s)" using assms(1) by (simp_all add: tables_ok_def)
  have "unknown i MaxNumCVs (lockBitMap s) = (if int MaxNumLocks \<le> i \<and> i \<le> int MaxNumCVs then Inl Assertion_failed else Inr True)"
    using assms(4) b by (subst unknown_eq) (auto simp: domIff)
  then show "if int MaxNumLocks \<le> i \<and> i \<le> int MaxNumCVs then sm_continue s = Inl Assertion_failed
      else sm_continue s = Inr (at_point Outside s)"
    using assms(2) by (auto simp: sm_continue_def Acquire_body_def Release_body_def)
next
  fix u c u'
  assume u: "locks (sk u) lock_ForLockTable = locks (sk s) lock_ForLockTable" "me u \<noteq> me s"
    "c \<in> {CreateLock_call, DestroyLock_call j, Acquire_call j, Release_call j}" "sm_start c u = Inr u'"
  then obtain p where "lock_then lock_ForLockTable p u = Inr u'" by (auto simp: sm_start_def)
  then have a: "Acquire lock_ForLockTable (sk u) = Inr (sk u')" by (auto simp: lock_then_def elim!: bindE_InrE)
  have t: "lk_state (locks (sk u) lock_ForLockTable) = BUSY" "lk_owner (locks (sk u) lock_ForLockTable) = Some (me s)" "me s \<noteq> me u"
    using u(1,2) assms(3) by auto
  show "kont (sk u') (me u) = After_Acquire lock_ForLockTable" by (rule Acquire_taken(1)[OF t a])
  show "locks (sk u') lock_ForLockTable = \<lparr>lk_state = BUSY, lk_owner = Some (me s), lk_waiting = ws @ [me u]\<rparr>"
    using a t u(1) assms(3) by (auto simp: Acquire_def isHeldByCurrentThread_def Let_def Sleep_def dest!: look_for_work_kont)
qed

text \<open>
  A lock is deleted under the thread that gets it. When a thread releases a lock that was marked for
  deletion while another waited for it, the waiting thread becomes the owner and ready, but the entry is
  gone; when that thread goes on it writes into the deleted entry.
\<close>

theorem released_lock_deleted_in_use:
  assumes "tables_ok s" and "point s (me s) = Release_locked (int i)" and "lockEntries s i = Some e" and "le_toBeDeleted e"
    and "locks (sk s) (le_lock e) = \<lparr>lk_state = BUSY, lk_owner = Some (me s), lk_waiting = t # ts\<rparr>"
  shows "(\<exists>s'. sm_continue s = Inr s' \<and> lockEntries s' i = None \<and> lk_owner (locks (sk s') (le_lock e)) = Some t
      \<and> t \<in> set (readyList (sk s')))
    \<and> (\<forall>u. lockEntries u i = None \<longrightarrow> point u (me u) = Acquire_got i \<longrightarrow> sm_continue u = Inl Undefined_behaviour)"
proof (intro conjI allI impI)
  have r: "i < numBits (lockBitMap s)" by (rule lock_entry_in_range[OF assms(1,3)])
  have w: "bitmap_wf (lockBitMap s)" "numBits (lockBitMap s) = MaxNumLocks" "marked (lockBitMap s) = dom (lockEntries s)" "2 \<le> le_lock e"
    using assms(1,3) by (auto simp: tables_ok_def)
  obtain m where m: "BitMap_Clear (lockBitMap s) (int i) = Inr m" using bm.clear_ex[OF w(1) r] by blast
  have un: "unknown (int i) MaxNumCVs (lockBitMap s) = Inr False"
    using r w assms(3) by (subst unknown_eq) (auto simp: domI)
  let ?k = "Release lock_ForLockTable (Release (le_lock e) (sk s))"
  have k: "lk_owner (locks ?k (le_lock e)) = Some t" "t \<in> set (readyList ?k)"
    using assms(5) w(4) by (auto simp: Release_def isHeldByCurrentThread_def ReadyToRun_def Let_def split: list.splits)
  show "\<exists>s'. sm_continue s = Inr s' \<and> lockEntries s' i = None \<and> lk_owner (locks (sk s') (le_lock e)) = Some t
      \<and> t \<in> set (readyList (sk s'))"
    using assms(2-4) un m k by (auto simp: sm_continue_def Release_body_def Let_def unlock_def lock_entry_def)
next
  fix u assume "lockEntries u i = None" "point u (me u) = Acquire_got i"
  then show "sm_continue u = Inl Undefined_behaviour" by (simp add: sm_continue_def Acquire_end_def lock_entry_def)
qed

section \<open>A thread that has made a lock\<close>

lemma demo_synch:
  obtains s0 s2 i where "SynchManager_new (\<lambda>_. 3) (\<lambda>_. Some 0) demo_kern = Inr s0" "smstep\<^sup>*\<^sup>* s0 s2" "i < MaxNumLocks"
    "lockEntries s2 = [i \<mapsto> \<lparr>le_lock = 2, le_owner = None, le_toBeUsed = False, le_toBeDeleted = False\<rparr>]" "me s2 = 1" "tables_ok s0"
    "sk s0 = demo_kern" "point s0 = (\<lambda>_. Outside)" "lockEntries s0 = Map.empty"
proof -
  obtain s0 where s0: "SynchManager_new (\<lambda>_. 3) (\<lambda>_. Some 0) demo_kern = Inr s0"
    using BitMap_new_ex[of "\<lambda>_. 3" MaxNumLocks] by (auto simp: SynchManager_new_def)
  have f: "sk s0 = demo_kern" "point s0 = (\<lambda>_. Outside)" "lockEntries s0 = Map.empty" "next_lock s0 = 2"
    using s0 by (auto simp: SynchManager_new_def elim!: bindE_InrE)
  define k1 where "k1 = set_lock 0 \<lparr>lk_state = BUSY, lk_owner = Some 1, lk_waiting = []\<rparr> demo_kern"
  have k: "currentThread demo_kern = 1" "\<not> idle demo_kern" "kont demo_kern 1 = Returned" "currentThread k1 = 1" "\<not> idle k1" "kont k1 1 = Returned"
    by (simp_all add: k1_def demo_kern_def kern_init_def)
  have a: "Acquire 0 demo_kern = Inr k1"
    by (simp add: Acquire_def isHeldByCurrentThread_def Let_def k1_def demo_kern_def kern_init_def Lock_new_def)
  let ?s1 = "(at_point CreateLock_locked s0)\<lparr>sk := k1\<rparr>"
  have 1: "smstep s0 ?s1" by (rule smstep.begins[of _ CreateLock_call]) (simp_all add: f k a sm_start_def lock_then_def del: One_nat_def)
  have t: "tables_ok ?s1" using new_tables[OF s0] by simp
  have "card (dom (lockEntries ?s1)) < MaxNumLocks" by (simp add: f)
  then obtain s2 i where c: "CreateLock_body ?s1 = Inr s2" "i < MaxNumLocks"
    "lockEntries s2 = [i \<mapsto> \<lparr>le_lock = 2, le_owner = None, le_toBeUsed = False, le_toBeDeleted = False\<rparr>]"
    using CreateLock_body_ok[OF t] by (auto simp: f)
  have "me s2 = 1" using c(1) k(4) by (auto simp: CreateLock_body_def return_with_def unlock_def Release_frame elim!: bindE_InrE split: if_splits)
  moreover have "smstep ?s1 s2" by (rule smstep.continues) (use c(1) k f in \<open>simp_all add: sm_continue_def del: One_nat_def\<close>)
  ultimately show thesis using that[OF s0 _ c(2,3)] 1 new_tables[OF s0] f by (meson rtranclp.rtrancl_into_rtrancl rtranclp.rtrancl_refl)
qed

lemma synch_tables_consistent_witness:
  "\<exists>s0 s i. smstep\<^sup>*\<^sup>* s0 s \<and> marked (lockBitMap s) = {i}"
proof -
  obtain s0 s2 i where d: "SynchManager_new (\<lambda>_. 3) (\<lambda>_. Some 0) demo_kern = Inr s0" "smstep\<^sup>*\<^sup>* s0 s2"
    "lockEntries s2 = [i \<mapsto> \<lparr>le_lock = 2, le_owner = None, le_toBeUsed = False, le_toBeDeleted = False\<rparr>]" by (rule demo_synch)
  then show ?thesis using synch_tables_consistent[OF d(1,2)] by auto
qed

lemma wrong_index_keeps_table_locked_witness:
  "\<exists>s. sm_continue s = Inr (at_point Outside s) \<and> lk_owner (locks (sk s) lock_ForLockTable) = Some (me s)"
proof -
  obtain s0 s2 i where d: "tables_ok s0" "sk s0 = demo_kern" "lockEntries s0 = Map.empty" by (rule demo_synch)
  let ?k = "set_lock 0 \<lparr>lk_state = BUSY, lk_owner = Some 1, lk_waiting = []\<rparr> demo_kern"
  let ?s = "(at_point (Acquire_locked 5) s0)\<lparr>sk := ?k\<rparr>"
  have m: "me s0 = 1" "me ?s = 1" by (simp_all add: d demo_kern_def kern_init_def)
  have "tables_ok ?s" "point ?s (me ?s) = Acquire_locked 5 \<or> point ?s (me ?s) = Release_locked 5"
    "locks (sk ?s) lock_ForLockTable = \<lparr>lk_state = BUSY, lk_owner = Some (me ?s), lk_waiting = []\<rparr>"
    "(5::int) < 0 \<or> int MaxNumLocks \<le> 5 \<or> lockEntries ?s (nat 5) = None" using d m by simp_all
  from wrong_index_keeps_table_locked[OF this] m show ?thesis by (intro exI[of _ ?s]) simp
qed

lemma released_lock_deleted_in_use_witness:
  "\<exists>s s' i. sm_continue s = Inr s' \<and> lockEntries s i \<noteq> None \<and> lockEntries s' i = None \<and> 2 \<in> set (readyList (sk s'))"
proof -
  obtain s0 s2 i where d: "SynchManager_new (\<lambda>_. 3) (\<lambda>_. Some 0) demo_kern = Inr s0" "smstep\<^sup>*\<^sup>* s0 s2"
    "lockEntries s2 = [i \<mapsto> \<lparr>le_lock = 2, le_owner = None, le_toBeUsed = False, le_toBeDeleted = False\<rparr>]" by (rule demo_synch)
  let ?e = "\<lparr>le_lock = 2, le_owner = Some 0, le_toBeUsed = True, le_toBeDeleted = True\<rparr>"
  let ?k = "set_lock 2 \<lparr>lk_state = BUSY, lk_owner = Some 1, lk_waiting = [2]\<rparr> demo_kern"
  let ?s = "(s2\<lparr>lockEntries := (lockEntries s2)(i \<mapsto> ?e)\<rparr>)\<lparr>sk := ?k, point := (\<lambda>_. Release_locked (int i))\<rparr>"
  have "tables_ok (s2\<lparr>lockEntries := (lockEntries s2)(i \<mapsto> ?e)\<rparr>)"
    by (rule tables_ok_lock_entry[OF reachable_tables[OF d(1,2)], of i "\<lparr>le_lock = 2, le_owner = None, le_toBeUsed = False, le_toBeDeleted = False\<rparr>"])
      (simp_all add: d(3))
  then have "tables_ok ?s" by simp
  moreover have "point ?s (me ?s) = Release_locked (int i)" "lockEntries ?s i = Some ?e" "le_toBeDeleted ?e"
    "locks (sk ?s) (le_lock ?e) = \<lparr>lk_state = BUSY, lk_owner = Some (me ?s), lk_waiting = 2 # []\<rparr>"
    by (simp_all add: demo_kern_def kern_init_def)
  ultimately obtain s' where "sm_continue ?s = Inr s'" "lockEntries s' i = None" "2 \<in> set (readyList (sk s'))"
    using released_lock_deleted_in_use[of ?s i ?e 2 "[]"] by blast
  then show ?thesis by (intro exI[of _ ?s] exI[of _ s'] exI[of _ i]) simp
qed

end
