(* ===== verification/ProcessCalls.thy ===== *)
theory ProcessCalls
  imports NetCalls Threads
begin

text \<open>
  The system calls on threads and programs (\<open>Fork\<close>, \<open>Exec\<close>, \<open>Exit\<close> and \<open>Yield\<close> in
  \<open>userprog/exception.cc\<close>), the start of the threads they make, and the start of the first program
  (\<open>userprog/progtest.cc\<close>). The address spaces, the threads of the scheduler and the pairing of a program's
  thread with its network thread come together here. \<open>forkLock\<close>, \<open>execLock\<close> and \<open>ppnInUseLock\<close> are
  free again whenever another thread can run, and are left out; so are the registers of the threads that do
  not run.
\<close>

section \<open>State\<close>

datatype start_point = Fork_Kernel_Thread_at u32 | Exec_Kernel_Thread_start | NetworkThread_start

record machine_os = user_proc +
  kernel :: kern
  next_thread :: nat
  thread_space :: "nat \<Rightarrow> nat option"
  stackStartIndex :: "nat \<Rightarrow> int"
  thread_start :: "nat \<Rightarrow> start_point"
  thread_mail :: "nat \<Rightarrow> int"
  next_space :: nat
  mailIDCounter :: int

definition new_thread :: "start_point \<Rightarrow> 'a machine_os_scheme \<Rightarrow> nat \<times> 'a machine_os_scheme" where
  "new_thread st s = (next_thread s, s\<lparr>next_thread := Suc (next_thread s), thread_start := (thread_start s)(next_thread s := st)\<rparr>)"

text \<open>\<open>thread->Fork(...)\<close>\<close>

definition fork_thread :: "nat \<Rightarrow> 'a machine_os_scheme \<Rightarrow> 'a machine_os_scheme result" where
  "fork_thread t s = bindE (Fork t (kernel s)) (\<lambda>k. Inr (s\<lparr>kernel := k\<rparr>))"

section \<open>Fork\<close>

definition Fork_Syscall :: "u32 \<Rightarrow> 'a machine_os_scheme \<Rightarrow> 'a machine_os_scheme result" where
  "Fork_Syscall functionPtr s =
     (if functionPtr = 0 \<or> unat functionPtr \<ge> PageSize * NumPhysPages then Inr s
      else
        (let (t, s1) = new_thread (Fork_Kernel_Thread_at functionPtr) s;
             s2 = s1\<lparr>thread_space := (thread_space s1)(t := Some (cur_space s1))\<rparr>;
             (n, s3) = AllocateStack (cur_space s2) s2;
             s4 = s3\<lparr>stackStartIndex := (stackStartIndex s3)(t := n)\<rparr>
         in bindE (invalidate_tlb s4) (fork_thread t)))"

text \<open>What the new thread does before it runs the program.\<close>

definition Fork_Kernel_Thread :: "nat \<Rightarrow> u32 \<Rightarrow> 'a machine_os_scheme \<Rightarrow> 'a machine_os_scheme result" where
  "Fork_Kernel_Thread t functionPtr s =
     bindE (WriteRegister s (int PCReg) functionPtr) (\<lambda>s1.
     bindE (WriteRegister s1 (int NextPCReg) (functionPtr + 4)) (\<lambda>s2.
     if \<not> in_int (stackStartIndex s2 t * int PageSize) \<or> \<not> in_int (stackStartIndex s2 t * int PageSize - 16) then Inl Undefined_behaviour
     else WriteRegister s2 (int StackReg) (word_of_int (stackStartIndex s2 t * int PageSize - 16))))"

section \<open>Exec and the first program\<close>

text \<open>\<open>Exec\<close> puts a NUL behind a buffer of 32 characters; \<open>spare\<close> tells whether the allocator left room
  there. The constructor of the address space also makes its table of open files.\<close>

definition space_for :: "bool \<Rightarrow> (nat \<Rightarrow> u8) \<Rightarrow> (nat \<Rightarrow> u32) \<Rightarrow> (nat \<Rightarrow> nat option) \<Rightarrow> nat \<Rightarrow> 'a machine_os_scheme \<Rightarrow> (nat \<times> 'a machine_os_scheme) result" where
  "space_for big junk junk32 ptrs k s =
     bindE (AddrSpace_new big junk (fst (ofile s k)) (next_space s) s) (\<lambda>s1.
     bindE (fileTable_new junk32 ptrs) (\<lambda>t.
     Inr (next_space s1, s1\<lparr>fileTables := (fileTables s1)(next_space s1 := t), next_space := Suc (next_space s1)\<rparr>)))"

definition exec_program :: "bool \<Rightarrow> (nat \<Rightarrow> u8) \<Rightarrow> (nat \<Rightarrow> u32) \<Rightarrow> (nat \<Rightarrow> nat option) \<Rightarrow> nat \<Rightarrow> 'a machine_os_scheme \<Rightarrow> 'a machine_os_scheme result" where
  "exec_program big junk junk32 ptrs k s =
     (let (net, s1) = new_thread NetworkThread_start s; (user, s2) = new_thread Exec_Kernel_Thread_start s1 in
      bindE (space_for big junk junk32 ptrs k s2) (\<lambda>(a, s3).
      let s4 = s3\<lparr>thread_space := (thread_space s3)(user := Some a),
                  thread_mail := (thread_mail s3)(net := mailIDCounter s3, user := mailIDCounter s3 + 1),
                  mailIDCounter := mailIDCounter s3 + 2\<rparr> in
      bindE (invalidate_tlb s4) (\<lambda>s5.
      bindE (fork_thread user s5) (fork_thread net))))"

definition Exec_Syscall ::
  "bool \<Rightarrow> bool \<Rightarrow> 'a machine_os_scheme handler \<Rightarrow> nat \<Rightarrow> (nat \<Rightarrow> u8) \<Rightarrow> (nat \<Rightarrow> u32) \<Rightarrow> (nat \<Rightarrow> nat option) \<Rightarrow> u32
   \<Rightarrow> 'a machine_os_scheme \<Rightarrow> 'a machine_os_scheme result"
where
  "Exec_Syscall spare big h n junk junk32 ptrs va s =
     bindE (copyin big h n va 32 s) (\<lambda>(_, bs, s1).
     if \<not> spare then Inl Undefined_behaviour
     else case host_Open (file_name bs) s1 of
       (None, s2) \<Rightarrow> Inr s2
     | (Some k, s2) \<Rightarrow> exec_program big junk junk32 ptrs k s2)"

text \<open>The user's thread of a program yields once before it starts.\<close>

definition Exec_Kernel_Thread :: "'a machine_os_scheme \<Rightarrow> 'a machine_os_scheme result" where
  "Exec_Kernel_Thread s = InitRegisters (cur_space s) s"

definition StartProcess ::
  "bool \<Rightarrow> (nat \<Rightarrow> u8) \<Rightarrow> (nat \<Rightarrow> u32) \<Rightarrow> (nat \<Rightarrow> nat option) \<Rightarrow> u8 list \<Rightarrow> 'a machine_os_scheme \<Rightarrow> 'a machine_os_scheme result"
where
  "StartProcess big junk junk32 ptrs filename s =
     (case host_Open filename s of
        (None, s1) \<Rightarrow> Inr s1
      | (Some k, s1) \<Rightarrow>
          bindE (space_for big junk junk32 ptrs k s1) (\<lambda>(a, s2).
          let s3 = s2\<lparr>thread_space := (thread_space s2)(currentThread (kernel s2) := Some a), cur_space := a\<rparr> in
          InitRegisters a s3))"

section \<open>Exit and Yield\<close>

definition Exit_Syscall :: "int \<Rightarrow> 'a machine_os_scheme \<Rightarrow> 'a machine_os_scheme result" where
  "Exit_Syscall st s = bindE (Finish (kernel s)) (\<lambda>k. Inr (s\<lparr>kernel := k\<rparr>))"

definition Yield_Syscall :: "'a machine_os_scheme \<Rightarrow> 'a machine_os_scheme result" where
  "Yield_Syscall s = bindE (Yield (kernel s)) (\<lambda>k. Inr (s\<lparr>kernel := k\<rparr>))"

definition thread_calls ::
  "bool \<Rightarrow> bool \<Rightarrow> 'a machine_os_scheme handler \<Rightarrow> nat \<Rightarrow> (nat \<Rightarrow> u8) \<Rightarrow> (nat \<Rightarrow> u32) \<Rightarrow> (nat \<Rightarrow> nat option) \<Rightarrow> syscall
   \<Rightarrow> 'a machine_os_scheme \<Rightarrow> (int \<times> 'a machine_os_scheme) result"
where
  "thread_calls spare big h n junk junk32 ptrs c s =
     (case c of
        SysFork p \<Rightarrow> bindE (Fork_Syscall p s) (\<lambda>s1. Inr (0, s1))
      | SysExec va \<Rightarrow> bindE (Exec_Syscall spare big h n junk junk32 ptrs va s) (\<lambda>s1. Inr (0, s1))
      | SysExit st \<Rightarrow> bindE (Exit_Syscall st s) (\<lambda>s1. Inr (0, s1))
      | SysYield \<Rightarrow> bindE (Yield_Syscall s) (\<lambda>s1. Inr (0, s1))
      | _ \<Rightarrow> Inl Machine_halted)"

text \<open>The whole system call interface of a program on the network.\<close>

definition os_calls ::
  "(post \<Rightarrow> post) \<Rightarrow> bool \<Rightarrow> bool \<Rightarrow> 'a machine_os_scheme handler \<Rightarrow> nat \<Rightarrow> (nat \<Rightarrow> u8) \<Rightarrow> (nat \<Rightarrow> u32) \<Rightarrow> (nat \<Rightarrow> nat option)
   \<Rightarrow> (u8 list \<Rightarrow> bool) \<Rightarrow> u8 list \<Rightarrow> int \<Rightarrow> nat \<Rightarrow> syscall \<Rightarrow> 'a machine_os_scheme \<Rightarrow> (int \<times> 'a machine_os_scheme) result"
where
  "os_calls W spare big h n junk junk32 ptrs can_create typed configArg r =
     file_calls big h n can_create typed junk configArg r
       (net_calls W big h n (thread_calls spare big h n junk junk32 ptrs))"

section \<open>A forked thread\<close>

lemma invalidate_ok:
  fixes s :: "'a vm_scheme"
  assumes ok: "vm_ok s" "no_hidden s"
  shows "\<exists>t. invalidate_tlb s = Inr (s\<lparr>tlb := Some t\<rparr>) \<and> vm_ok (s\<lparr>tlb := Some t\<rparr>) \<and> vm_page (s\<lparr>tlb := Some t\<rparr>) = vm_page s
    \<and> no_hidden (s\<lparr>tlb := Some t\<rparr>)"
proof -
  obtain t where t: "tlb s = Some t" "length t = TLBSize"
    using ok(1) by (auto simp: vm_ok_def core_ok_def tlb_wf_def split: option.splits)
  let ?t = "map (\<lambda>e. e\<lparr>valid := False\<rparr>) t" and ?R = "marked (ppnInUse s)"
  let ?s = "s\<lparr>tlb := Some ?t\<rparr>"
  have core: "tables_wf s" "ipt_wf ?R s" "tlb_wf ?R s" "clean_wf ?R s" using ok(1) by (simp_all add: vm_ok_def core_ok_def)
  have d: "\<not> tlb_dirty ?s p" for p by (auto simp: tlb_dirty_def)
  have "tlb_wf ?R ?s" using core(3) t by (simp add: tlb_wf_def)
  moreover have "clean_wf ?R ?s"
  proof -
    have "\<not> tlb_dirty s p" if "p \<in> ?R" "\<not> ip_dirty (ipt s ! p)" for p
      using ok(2) core(2) that by (auto simp: no_hidden_def ipt_wf_def)
    then show ?thesis using core(4) by (auto simp: clean_wf_def owns_def)
  qed
  moreover have "ipt_wf ?R ?s" using core(2) by (simp add: ipt_wf_def owns_def)
  moreover have "frames_ok ?s" using ok(1) by (simp add: vm_ok_def frames_ok_def)
  ultimately have "vm_ok ?s" using core(1) by (simp add: vm_ok_def core_ok_def)
  moreover have "vm_page ?s = vm_page s" using same_frames_page[of s ?s] by simp
  moreover have "no_hidden ?s" using d by (simp add: no_hidden_def)
  moreover have "invalidate_tlb s = Inr ?s" using t by (simp add: invalidate_tlb_def)
  ultimately show ?thesis by blast
qed


section \<open>A new program\<close>

lemma Table_Put_ex: "table_wf t \<Longrightarrow> \<exists>i t'. Table_Put f t = Inr (i, t') \<and> table_wf t'"
proof -
  assume w: "table_wf t"
  have b: "bitmap_wf (t_map t)" using w by (simp add: table_wf_def)
  show ?thesis
  proof (cases "card (marked (t_map t)) < numBits (t_map t)")
    case True
    then obtain j m where "BitMap_Find (t_map t) = Inr (int j, m)" "bitmap_wf m" "numBits m = numBits (t_map t)"
      using bm.find_some[OF b] by blast
    then show ?thesis using w by (simp add: Table_Put_def table_wf_def)
  next
    case False
    then have "card (marked (t_map t)) = numBits (t_map t)"
      using card_mono[OF finite_lessThan marked_bounded[of "t_map t"]] by simp
    then show ?thesis using bm.find_none[OF b] w by (simp add: Table_Put_def table_wf_def)
  qed
qed

lemma fileTable_new_ex: "\<exists>t. fileTable_new junk ptrs = Inr t"
proof -
  obtain t where t: "Table_new junk ptrs MaxOpenFiles = Inr t" "table_wf t" using Table_new_ok by blast
  obtain i t1 where t1: "Table_Put None t = Inr (i, t1)" "table_wf t1" using Table_Put_ex[OF t(2)] by blast
  obtain j t2 where "Table_Put None t1 = Inr (j, t2)" using Table_Put_ex[OF t1(2)] by blast
  then show ?thesis using t t1 by (simp add: fileTable_new_def)
qed

text \<open>
  C12: a new program has its memory, two threads and a pair of mailboxes. When the executable is well
  formed, \<open>Exec\<close> makes an address space that holds the pages of the file and zero pages and changes no
  page of another program; it makes the program's thread and its network thread ready, in this order; and
  the mailbox to which the program's requests go (\<open>getMailID\<close>) is that of its network thread.
\<close>

theorem exec_makes_program:
  fixes s :: "'a machine_os_scheme"
  assumes ok: "vm_ok s" "no_hidden s" and a: "a = next_space s" "page_tables s a = []" and f: "f = fst (ofile s k)"
    and magic: "header_word False (noff_bytes junk (files s f)) 0 = NOFFMAGIC"
    and h: "h = noff_read False (noff_bytes junk (files s f))"
    and ci: "ci = unat (code_size h) + unat (initData_size h)" and siz: "sz = ci + unat (uninitData_size h)" "sz < 2 ^ 31"
    and tot: "tot = divRoundUp sz PageSize + 8" "tot \<le> 2 ^ 24"
    and full: "unat (code_inFileAddr h) + divRoundUp ci PageSize * PageSize \<le> length (files s f)" "length (files s f) < 2 ^ 31"
  shows "\<exists>s' user net. exec_program big junk junk32 ptrs k s = Inr s' \<and> vm_ok s'
    \<and> kernel s' = ReadyToRun net (ReadyToRun user (kernel s)) \<and> user \<noteq> net \<and> thread_space s' user = Some a
    \<and> (\<forall>p :: post. getMailID (p\<lparr>thisMail := thread_mail s' user\<rparr>) = thread_mail s' net)
    \<and> length (page_tables s' a) = tot
    \<and> (\<forall>b x. x < length (page_tables s b) \<longrightarrow> vm_page s' b x = vm_page s b x)
    \<and> (\<forall>v < tot. vm_page s' a v =
         (if v < divRoundUp ci PageSize then take PageSize (drop (unat (code_inFileAddr h) + v * PageSize) (files s f))
          else replicate PageSize 0))"
proof -
  let ?net = "next_thread s" and ?user = "Suc (next_thread s)"
  let ?s2 = "s\<lparr>next_thread := Suc (Suc (next_thread s)),
    thread_start := (thread_start s)(?net := NetworkThread_start, ?user := Exec_Kernel_Thread_start)\<rparr>"
  have sv: "same_vm s ?s2" by (simp add: same_vm_def)
  have new: "vm_ok ?s2" "page_tables ?s2 a = []" "files ?s2 = files s" using ok a same_vm_ok[OF sv] by simp_all
  obtain s3 pt where s3: "AddrSpace_new big junk f a ?s2 = Inr s3" "s3 = ?s2\<lparr>page_tables := pt\<rparr>" "no_hidden s3 = no_hidden ?s2" "vm_ok s3"
    "length (page_tables s3 a) = tot" "\<forall>b x. x < length (page_tables ?s2 b) \<longrightarrow> vm_page s3 b x = vm_page ?s2 b x"
    "\<forall>v < tot. vm_page s3 a v = (if v < divRoundUp ci PageSize
       then take PageSize (drop (unat (code_inFileAddr h) + v * PageSize) (files s f)) else replicate PageSize 0)"
    using AddrSpace_new_ok[OF new(1,2), of junk f h ci sz tot big] magic h ci siz tot full new(3) by auto
  obtain ft where ft: "fileTable_new junk32 ptrs = Inr ft" using fileTable_new_ex by blast
  let ?s4 = "s3\<lparr>fileTables := (fileTables s)(a := ft), next_space := Suc a, thread_space := (thread_space s)(?user := Some a),
    thread_mail := (thread_mail s)(?net := mailIDCounter s, ?user := mailIDCounter s + 1), mailIDCounter := mailIDCounter s + 2\<rparr>"
  have sv4: "same_vm s3 ?s4" by (simp add: same_vm_def)
  have nh: "no_hidden ?s4" using ok(2) s3(3) same_vm_small(1)[OF sv] same_vm_small(1)[OF sv4] by simp
  have ok4: "vm_ok ?s4" using s3(4) same_vm_ok[OF sv4] by simp
  obtain tl where i: "invalidate_tlb ?s4 = Inr (?s4\<lparr>tlb := Some tl\<rparr>)" "vm_ok (?s4\<lparr>tlb := Some tl\<rparr>)"
    "vm_page (?s4\<lparr>tlb := Some tl\<rparr>) = vm_page ?s4"
    using invalidate_ok[OF ok4 nh] by blast
  let ?s5 = "?s4\<lparr>tlb := Some tl, kernel := ReadyToRun ?net (ReadyToRun ?user (kernel s))\<rparr>"
  have sf: "space_for big junk junk32 ptrs k ?s2 = Inr (a, s3\<lparr>fileTables := (fileTables s)(a := ft), next_space := Suc a\<rparr>)"
    using s3(1,2) ft a(1) f by (simp add: space_for_def)
  have run: "exec_program big junk junk32 ptrs k s = Inr ?s5"
    using sf i(1) by (simp add: exec_program_def new_thread_def fork_thread_def Fork_def s3(2))
  have sv5: "same_vm (?s4\<lparr>tlb := Some tl\<rparr>) ?s5" by (simp add: same_vm_def)
  have pg: "vm_page ?s5 = vm_page s3" using same_vm_page[OF sv5] i(3) same_vm_page[OF sv4] by (simp add: same_vm_def)
  have "vm_page ?s2 = vm_page s" using same_vm_page[OF sv] by simp
  then have "\<forall>b x. x < length (page_tables s b) \<longrightarrow> vm_page ?s5 b x = vm_page s b x" using s3(6) pg by simp
  moreover have "\<forall>v < tot. vm_page ?s5 a v = (if v < divRoundUp ci PageSize
      then take PageSize (drop (unat (code_inFileAddr h) + v * PageSize) (files s f)) else replicate PageSize 0)"
    using s3(7) pg by simp
  moreover have "vm_ok ?s5" using i(2) same_vm_ok[OF sv5] by simp
  moreover have "length (page_tables ?s5 a) = tot" using s3(5) by simp
  moreover have "thread_space ?s5 ?user = Some a" "\<forall>p :: post. getMailID (p\<lparr>thisMail := thread_mail ?s5 ?user\<rparr>) = thread_mail ?s5 ?net"
    by (simp_all add: getMailID_def)
  moreover have "kernel ?s5 = ReadyToRun ?net (ReadyToRun ?user (kernel s))" "?user \<noteq> ?net" by simp_all
  ultimately show ?thesis using run by blast
qed

section \<open>A machine with one program\<close>

definition demo_os :: "vm \<Rightarrow> machine_os" where
  "demo_os s = user_proc.extend (kproc.extend (demo_kproc s) \<lparr>office = post_init 0 100 5\<rparr>)
     \<lparr>kernel = demo_kern, next_thread = 2, thread_space = [1 \<mapsto> 0], stackStartIndex = (\<lambda>_. 0),
      thread_start = (\<lambda>_. Exec_Kernel_Thread_start), thread_mail = (\<lambda>_. 0), next_space = 1, mailIDCounter = 0\<rparr>"

lemma demo_os_vm: "same_vm s (demo_os s)"
  by (simp add: same_vm_def demo_os_def demo_kproc_def vm.extend_def kproc.extend_def user_proc.extend_def)

lemma demo_os_fields:
  "cur_space (demo_os s) = cur_space s" "page_tables (demo_os s) = page_tables s" "files (demo_os s) = files s"
  "next_space (demo_os s) = 1" "ofile (demo_os s) k = (7, 1)" "next_thread (demo_os s) = 2"
  by (simp_all add: demo_os_def demo_kproc_def vm.extend_def kproc.extend_def user_proc.extend_def)


lemma exec_makes_program_witness:
  "\<exists>(s :: machine_os) s'. exec_program True (\<lambda>_. 0) (\<lambda>_. 3) (\<lambda>_. None) 3 s = Inr s' \<and> vm_page s' 1 0 = replicate PageSize 9"
proof -
  have pos: "(0::nat) < 4" "4 \<le> NumPhysPages" by simp_all
  obtain s0 where s0: "vm_init (\<lambda>_. 3) (\<lambda>_. demo_entry) 4 False (\<lambda>_. demo_prog) = Inr s0" "vm_ok s0" "no_hidden s0"
    "page_tables s0 = (\<lambda>_. [])" "files s0 = (\<lambda>_. demo_prog)"
    using vm_init_ok[OF pos, of "\<lambda>_. 3" "\<lambda>_. demo_entry" False "\<lambda>_. demo_prog"] by auto
  let ?h = "\<lparr>noffMagic = 0xbadfad, code_inFileAddr = 40, code_size = 128, initData_size = 0, uninitData_size = 100\<rparr>"
  let ?s = "demo_os s0"
  have l: "length demo_prog = 168" by (simp add: demo_prog_def)
  have d: "take PageSize (drop 40 demo_prog) = replicate PageSize 9" by (simp add: demo_prog_def word_bytes_def)
  have p: "vm_ok ?s" "no_hidden ?s" "1 = next_space ?s" "page_tables ?s 1 = []" "7 = fst (ofile ?s 3)"
    using s0 same_vm_ok[OF demo_os_vm] same_vm_small(1)[OF demo_os_vm] by (simp_all add: demo_os_fields)
  have "\<exists>s' user net. exec_program True (\<lambda>_. 0) (\<lambda>_. 3) (\<lambda>_. None) 3 ?s = Inr s' \<and> vm_ok s'
    \<and> kernel s' = ReadyToRun net (ReadyToRun user (kernel ?s)) \<and> user \<noteq> net \<and> thread_space s' user = Some 1
    \<and> (\<forall>p :: post. getMailID (p\<lparr>thisMail := thread_mail s' user\<rparr>) = thread_mail s' net)
    \<and> length (page_tables s' 1) = 10
    \<and> (\<forall>b x. x < length (page_tables ?s b) \<longrightarrow> vm_page s' b x = vm_page ?s b x)
    \<and> (\<forall>v < 10. vm_page s' 1 v =
         (if v < divRoundUp 128 PageSize then take PageSize (drop (unat (code_inFileAddr ?h) + v * PageSize) (files ?s 7))
          else replicate PageSize 0))"
    by (rule exec_makes_program[OF p, of "\<lambda>_. 0" ?h 128 228 10])
      (simp_all add: s0 demo_os_fields demo_header_words l divRoundUp_def)
  then obtain s' where r: "exec_program True (\<lambda>_. 0) (\<lambda>_. 3) (\<lambda>_. None) 3 ?s = Inr s'"
    "\<forall>v < 10. vm_page s' 1 v = (if v < divRoundUp 128 PageSize then take PageSize (drop (unat (code_inFileAddr ?h) + v * PageSize) (files ?s 7))
       else replicate PageSize 0)" by blast
  have "vm_page s' 1 0 = replicate PageSize 9" using r(2)[rule_format, of 0] d by (simp add: divRoundUp_def s0 demo_os_fields)
  then show ?thesis using r(1) by blast
qed

end
