(* ===== verification/Restaurant.thy ===== *)
theory Restaurant
  imports Threads
begin

text \<open>
  \<open>threads/simulation.cc\<close>: the restaurant, a program of kernel threads that runs on the locks and conditions
  of \<open>Threads\<close>. Customers enter, order, pay and eat or leave with their food; order takers and the manager
  take orders and bag them; cooks cook; waiters serve. A routine is cut where it touches what the threads
  share: \<open>next_seg\<close> says for each place what the thread does to the shared variables and which operations
  of the kernel it does then, and between any two of those the thread can lose the CPU. Printing is left out.
\<close>

unbundle bit_operations_syntax

section \<open>Shared variables\<close>

abbreviation (input) MaxNumOrderTakers :: nat where "MaxNumOrderTakers \<equiv> 10"
abbreviation (input) MaxNumCustomers :: nat where "MaxNumCustomers \<equiv> 50"
abbreviation (input) MaxNumWaiters :: nat where "MaxNumWaiters \<equiv> 10"
abbreviation (input) MaxNumMenuItems :: nat where "MaxNumMenuItems \<equiv> 32"
abbreviation (input) numInventoryItemTypes :: nat where "numInventoryItemTypes \<equiv> 5"

text \<open>Arrays are functions of the index; their bounds are checked where they are used. \<open>next_cook\<close> is the
  number of the next thread, which can only be a cook.\<close>

record shop =
  NumOrderTakers :: int
  NumCustomers :: int
  NumManagers :: int
  NumWaiters :: int
  enterLength :: int
  enterLine :: "nat \<Rightarrow> int"
  orderLength :: int
  orderLine :: "nat \<Rightarrow> int"
  takerOf :: "nat \<Rightarrow> int"
  foodChoice :: "nat \<Rightarrow> int"
  eatsIn :: "nat \<Rightarrow> int"
  moneyPaid :: "nat \<Rightarrow> int"
  orderNumber :: "nat \<Rightarrow> int"
  ordersReady :: "nat \<Rightarrow> int"
  NumServed :: int
  WhenAllServed :: int
  customerOf :: "nat \<Rightarrow> int"
  menu :: "nat \<Rightarrow> int"
  inventoryCount :: "nat \<Rightarrow> int"
  inventoryCost :: "nat \<Rightarrow> int"
  cookedFood :: "nat \<Rightarrow> int"
  minCooked :: "nat \<Rightarrow> int"
  maxCooked :: "nat \<Rightarrow> int"
  cookTime :: "nat \<Rightarrow> int"
  isHired :: "nat \<Rightarrow> int"
  onBreak :: "nat \<Rightarrow> int"
  inventoryIndex :: int
  orderNumCounter :: int
  needBagging :: "nat \<Rightarrow> int"
  baggedOrders :: "nat \<Rightarrow> int"
  NumBagged :: int
  money_Rest :: int
  tablesAvailable :: int
  allEatIn :: int
  allEatOut :: int
  noCooks :: int
  allOrderThis :: int
  next_cook :: nat

text \<open>\<open>GetLock\<close> and \<open>GetCV\<close> number the locks and the conditions in the order of \<open>Initialize\<close>.\<close>

abbreviation (input) lock_Enter :: nat where "lock_Enter \<equiv> 0"
abbreviation (input) lock_Order :: nat where "lock_Order \<equiv> 1"
abbreviation (input) lock_Taker :: "nat \<Rightarrow> nat" where "lock_Taker t \<equiv> 2 + t"
abbreviation (input) lock_Sitting :: "nat \<Rightarrow> nat" where "lock_Sitting c \<equiv> 12 + c"
abbreviation (input) lock_Ready :: nat where "lock_Ready \<equiv> 62"
abbreviation (input) lock_MrWr :: nat where "lock_MrWr \<equiv> 63"
abbreviation (input) lock_Inventory :: "nat \<Rightarrow> nat" where "lock_Inventory i \<equiv> 64 + i"
abbreviation (input) lock_HireCook :: nat where "lock_HireCook \<equiv> 69"
abbreviation (input) lock_NeedBagging :: nat where "lock_NeedBagging \<equiv> 70"
abbreviation (input) lock_Bagged :: nat where "lock_Bagged \<equiv> 71"
abbreviation (input) lock_Init :: nat where "lock_Init \<equiv> 72"

abbreviation (input) cv_Bagged :: nat where "cv_Bagged \<equiv> 0"
abbreviation (input) cv_HireCook :: nat where "cv_HireCook \<equiv> 1"
abbreviation (input) cv_Inventory :: "nat \<Rightarrow> nat" where "cv_Inventory i \<equiv> 2 + i"
abbreviation (input) cv_MrWr :: nat where "cv_MrWr \<equiv> 52"
abbreviation (input) cv_Ready :: nat where "cv_Ready \<equiv> 103"
abbreviation (input) cv_Sitting :: "nat \<Rightarrow> nat" where "cv_Sitting c \<equiv> 104 + c"
abbreviation (input) cv_Taker :: "nat \<Rightarrow> nat" where "cv_Taker t \<equiv> 154 + t"
abbreviation (input) cv_Order :: "nat \<Rightarrow> nat" where "cv_Order c \<equiv> 204 + c"
abbreviation (input) cv_Enter :: "nat \<Rightarrow> nat" where "cv_Enter c \<equiv> 254 + c"

text \<open>\<open>Initialize\<close> fills two arrays of conditions, of 5 and of 10 elements, with 50 each; \<open>spare\<close> tells
  whether the linker left room behind them.\<close>

definition Initialize :: "bool \<Rightarrow> shop \<Rightarrow> shop result" where
  "Initialize spare g =
     (if \<not> spare then Inl Undefined_behaviour
      else Inr (g\<lparr>tablesAvailable := 10,
        inventoryCount := (\<lambda>i. if i < numInventoryItemTypes then 0 else inventoryCount g i),
        minCooked := (\<lambda>i. if i < numInventoryItemTypes then 2 else minCooked g i),
        maxCooked := (\<lambda>i. if i < numInventoryItemTypes then 5 else maxCooked g i),
        cookedFood := (\<lambda>i. if i < numInventoryItemTypes then 0 else cookedFood g i),
        cookTime := (\<lambda>i. if i < numInventoryItemTypes then 50 else cookTime g i),
        isHired := (\<lambda>i. if i < numInventoryItemTypes then 0 else isHired g i),
        onBreak := (\<lambda>i. if i < numInventoryItemTypes then 0 else onBreak g i),
        inventoryCost := (\<lambda>i. if i < numInventoryItemTypes then int i * 5 + 5 else inventoryCost g i),
        NumOrderTakers := 0, NumCustomers := 0, NumManagers := 0, enterLength := 0, orderLength := 0, orderNumCounter := 0,
        needBagging := (\<lambda>i. if i < MaxNumCustomers then 0 else needBagging g i),
        baggedOrders := (\<lambda>i. if i < MaxNumCustomers then 0 else baggedOrders g i),
        ordersReady := (\<lambda>i. if i < MaxNumCustomers then 0 else ordersReady g i),
        NumBagged := 0,
        menu := (\<lambda>i. if i < 15 then [1, 2, 3, 4, 5, 6, 7, 8, 9, 10, 11, 16, 17, 18, 19] ! i
                     else if i < MaxNumMenuItems then 0 else menu g i),
        money_Rest := 0, NumServed := 0, allEatIn := 0, allEatOut := 0, noCooks := 0, allOrderThis := -1\<rparr>))"

section \<open>Places in the routines\<close>

text \<open>Who takes an order: an order taker, or the manager with some more customers to help.\<close>

datatype helper = Taker | Boss nat

datatype rpoint =
    Customer_start | Customer_named | Customer_enters nat | Customer_called nat | Customer_lines_up nat bool
  | Customer_taken nat bool | Customer_orders nat bool | Customer_pays nat bool | Customer_gets_token nat bool
  | Customer_fed nat | Customer_leaves nat | Customer_waits nat int | Customer_done
  | Taker_start | Taker_named | Serve helper nat | Serve_paid helper nat nat | Serve_notes helper nat nat
  | Bag helper nat nat | Bag_delivers helper nat nat | Bag_calls helper nat nat | Taker_exits nat
  | Manager_start | Manager_named | Manager_looks nat | Call_waiters nat | Order_food nat nat | Bank nat nat
  | Manage_cook nat nat | Hire nat nat | Hired nat nat | Check_line nat | Boss_exits nat
  | Cook_start | Cook_named | Cook_works nat | Cook_back nat | Cook_cooks nat | Cook_stacks nat | Cook_exits nat
  | Waiter_start | Waiter_named | Waiter_looks | Waiter_serves int | Waiter_served
  | Gone

type_synonym seg = "(op list \<times> rpoint \<times> shop) result"

definition slot :: "nat \<Rightarrow> int \<Rightarrow> nat result" where
  "slot n i = (if 0 \<le> i \<and> i < int n then Inr (nat i) else Inl Undefined_behaviour)"

abbreviation wait_on :: "nat \<Rightarrow> nat \<Rightarrow> op" where "wait_on c l \<equiv> Op_Wait c (Some l)"
abbreviation signal_on :: "nat \<Rightarrow> nat \<Rightarrow> op" where "signal_on c l \<equiv> Op_Signal c (Some l)"
abbreviation broadcast_on :: "nat \<Rightarrow> nat \<Rightarrow> op" where "broadcast_on c l \<equiv> Op_Broadcast c (Some l)"

section \<open>Customers\<close>

text \<open>\<open>r\<close> is the random number drawn. A customer numbered beyond the arrays runs out of their bounds.\<close>

definition customer_named :: "nat \<Rightarrow> shop \<Rightarrow> seg" where
  "customer_named r g =
     (let ID = nat (NumCustomers g); g1 = g\<lparr>NumCustomers := NumCustomers g + 1\<rparr>;
          eatIn = (if allEatIn g = 1 then True else if allEatOut g = 1 then False else r mod 2 \<noteq> 0)
      in if eatIn then Inr ([Op_Release lock_Init, Op_Acquire lock_Enter], Customer_enters ID, g1)
         else Inr ([Op_Release lock_Init, Op_Acquire lock_Order], Customer_lines_up ID False, g1))"

text \<open>\<open>WaitInLineToEnterRest\<close>\<close>

definition customer_enters :: "nat \<Rightarrow> shop \<Rightarrow> seg" where
  "customer_enters ID g =
     bindE (slot MaxNumCustomers (enterLength g)) (\<lambda>i.
     bindE (slot MaxNumCustomers (int ID)) (\<lambda>_.
     Inr ([wait_on (cv_Enter ID) lock_Enter], Customer_called ID,
          g\<lparr>enterLine := (enterLine g)(i := int ID), enterLength := enterLength g + 1\<rparr>)))"

definition customer_called :: "nat \<Rightarrow> shop \<Rightarrow> seg" where
  "customer_called ID g =
     Inr ([Op_Release lock_Enter, Op_Acquire lock_Order], Customer_lines_up ID True,
          if enterLength g > 0 then g\<lparr>enterLength := enterLength g - 1\<rparr> else g)"

text \<open>\<open>WaitInLineToOrderFood\<close>\<close>

definition customer_lines_up :: "nat \<Rightarrow> bool \<Rightarrow> shop \<Rightarrow> seg" where
  "customer_lines_up ID eatIn g =
     bindE (slot MaxNumCustomers (orderLength g)) (\<lambda>i.
     bindE (slot MaxNumCustomers (int ID)) (\<lambda>_.
     Inr ([wait_on (cv_Order ID) lock_Order], Customer_taken ID eatIn,
          g\<lparr>orderLine := (orderLine g)(i := int ID), orderLength := orderLength g + 1\<rparr>)))"

definition customer_taken :: "nat \<Rightarrow> bool \<Rightarrow> shop \<Rightarrow> seg" where
  "customer_taken ID eatIn g =
     bindE (slot MaxNumOrderTakers (takerOf g ID)) (\<lambda>t.
     Inr ([Op_Acquire (lock_Taker t), Op_Release lock_Order], Customer_orders ID eatIn, g))"

definition customer_orders :: "nat \<Rightarrow> bool \<Rightarrow> shop \<Rightarrow> seg" where
  "customer_orders ID eatIn g =
     bindE (slot MaxNumOrderTakers (takerOf g ID)) (\<lambda>t.
     let orderCombo = (if allOrderThis g \<noteq> -1 then allOrderThis g else 2 * (int ID mod int numInventoryItemTypes)) in
     bindE (slot MaxNumMenuItems orderCombo) (\<lambda>combo.
     Inr ([signal_on (cv_Taker t) (lock_Taker t), wait_on (cv_Taker t) (lock_Taker t)], Customer_pays ID eatIn,
          g\<lparr>foodChoice := (foodChoice g)(t := menu g combo), eatsIn := (eatsIn g)(ID := if eatIn then 1 else 0)\<rparr>)))"

text \<open>The price is looked up under the number of the choice, which can be beyond the five prices: \<open>beyond\<close> is
  what the memory behind them holds.\<close>

definition price :: "(int \<Rightarrow> int) \<Rightarrow> int \<Rightarrow> shop \<Rightarrow> int" where
  "price beyond i g = (if 0 \<le> i \<and> i < int numInventoryItemTypes then inventoryCost g (nat i) else beyond i)"

definition customer_pays :: "(int \<Rightarrow> int) \<Rightarrow> nat \<Rightarrow> bool \<Rightarrow> shop \<Rightarrow> seg" where
  "customer_pays beyond ID eatIn g =
     bindE (slot MaxNumOrderTakers (takerOf g ID)) (\<lambda>t.
     let p = price beyond (foodChoice g t) g * 2 in
     if \<not> in_int p then Inl Undefined_behaviour
     else Inr ([signal_on (cv_Taker t) (lock_Taker t), wait_on (cv_Taker t) (lock_Taker t)], Customer_gets_token ID eatIn,
          g\<lparr>moneyPaid := (moneyPaid g)(t := p)\<rparr>))"

definition customer_gets_token :: "nat \<Rightarrow> bool \<Rightarrow> shop \<Rightarrow> seg" where
  "customer_gets_token ID eatIn g =
     bindE (slot MaxNumOrderTakers (takerOf g ID)) (\<lambda>t.
     if eatIn then
       Inr ([Op_Acquire (lock_Sitting ID), Op_Release (lock_Taker t), signal_on (cv_Sitting ID) (lock_Sitting ID),
             wait_on (cv_Sitting ID) (lock_Sitting ID)], Customer_fed ID, g)
     else Inr ([Op_Acquire lock_Ready, Op_Release (lock_Taker t)], Customer_waits ID (orderNumber g ID), g))"

definition customer_fed :: "nat \<Rightarrow> shop \<Rightarrow> seg" where
  "customer_fed ID g =
     Inr ([signal_on (cv_Sitting ID) (lock_Sitting ID), Op_Release (lock_Sitting ID), Op_Acquire lock_Enter],
          Customer_leaves ID, g)"

definition customer_leaves :: "shop \<Rightarrow> seg" where
  "customer_leaves g =
     Inr ([Op_Release lock_Enter, Op_Acquire lock_Init], Customer_done, g\<lparr>tablesAvailable := tablesAvailable g + 1\<rparr>)"

definition customer_waits :: "nat \<Rightarrow> int \<Rightarrow> shop \<Rightarrow> seg" where
  "customer_waits ID token g =
     bindE (slot MaxNumCustomers token) (\<lambda>k.
     if ordersReady g k = 0 then Inr ([wait_on cv_Ready lock_Ready], Customer_waits ID token, g)
     else Inr ([Op_Release lock_Ready, Op_Acquire lock_Init], Customer_done, g\<lparr>ordersReady := (ordersReady g)(k := 0)\<rparr>))"

definition customer_done :: "shop \<Rightarrow> seg" where
  "customer_done g = Inr ([Op_Release lock_Init, Op_Finish], Gone, g\<lparr>NumServed := NumServed g + 1\<rparr>)"

section \<open>Taking and bagging orders\<close>

text \<open>What follows \<open>serviceCustomer\<close> and \<open>bagOrder\<close> in the routines of an order taker and of the manager.\<close>

fun after_serving :: "helper \<Rightarrow> nat \<Rightarrow> op list \<times> rpoint" where
  "after_serving (Boss (Suc n)) ID = ([Op_Acquire lock_Order], Serve (Boss n) ID)"
| "after_serving w ID = ([Op_Acquire lock_NeedBagging], Bag w ID 0)"

fun after_bagging :: "helper \<Rightarrow> nat \<Rightarrow> op list \<times> rpoint" where
  "after_bagging Taker ID = ([Op_Acquire lock_Init], Taker_exits ID)"
| "after_bagging (Boss n) ID = ([Op_Acquire lock_MrWr], Call_waiters ID)"

definition then_do :: "op list \<Rightarrow> op list \<times> rpoint \<Rightarrow> shop \<Rightarrow> seg" where
  "then_do ops rest g = Inr (ops @ fst rest, snd rest, g)"

text \<open>\<open>serviceCustomer\<close>: the customer that came last is taken first.\<close>

definition serve :: "helper \<Rightarrow> nat \<Rightarrow> shop \<Rightarrow> seg" where
  "serve w ID g =
     (if orderLength g \<le> 0 then then_do [Op_Release lock_Order] (after_serving w ID) g
      else
        bindE (slot MaxNumCustomers (orderLength g - 1)) (\<lambda>i.
        bindE (slot MaxNumCustomers (orderLine g i)) (\<lambda>c.
        bindE (slot MaxNumOrderTakers (int ID)) (\<lambda>_.
        Inr ([signal_on (cv_Order c) lock_Order, Op_Acquire (lock_Taker ID), Op_Release lock_Order,
              wait_on (cv_Taker ID) (lock_Taker ID), signal_on (cv_Taker ID) (lock_Taker ID),
              wait_on (cv_Taker ID) (lock_Taker ID)],
             Serve_paid w ID c, g\<lparr>orderLength := orderLength g - 1, takerOf := (takerOf g)(c := int ID)\<rparr>)))))"

definition serve_paid :: "helper \<Rightarrow> nat \<Rightarrow> nat \<Rightarrow> shop \<Rightarrow> seg" where
  "serve_paid w ID c g =
     bindE (slot MaxNumCustomers (orderNumCounter g)) (\<lambda>token.
     Inr ([signal_on (cv_Taker ID) (lock_Taker ID), Op_Acquire lock_NeedBagging], Serve_notes w ID token,
          g\<lparr>orderNumCounter := orderNumCounter g + 1, orderNumber := (orderNumber g)(c := int token),
            customerOf := (customerOf g)(token := int c)\<rparr>))"

definition serve_notes :: "helper \<Rightarrow> nat \<Rightarrow> nat \<Rightarrow> shop \<Rightarrow> seg" where
  "serve_notes w ID token g =
     then_do [Op_Release lock_NeedBagging, Op_Release (lock_Taker ID)] (after_serving w ID)
       (g\<lparr>needBagging := (needBagging g)(token := foodChoice g ID)\<rparr>)"

text \<open>The items that an order still needs, as far as they are cooked: item \<open>j\<close> is bit \<open>j\<close> of the order.\<close>

fun bag_items :: "nat list \<Rightarrow> int \<Rightarrow> (nat \<Rightarrow> int) \<Rightarrow> int \<times> (nat \<Rightarrow> int)" where
  "bag_items [] ord food = (ord, food)"
| "bag_items (j # js) ord food =
     (if drop_bit j ord AND 1 > 0 \<and> food j > 0 then bag_items js (ord XOR push_bit j 1) (food(j := food j - 1))
      else bag_items js ord food)"

text \<open>The loop of \<open>bagOrder\<close> over the last \<open>n\<close> orders, up to the first one that is complete.\<close>

fun bag_scan :: "nat \<Rightarrow> shop \<Rightarrow> nat option \<times> shop" where
  "bag_scan 0 g = (None, g)"
| "bag_scan (Suc n) g =
     (let i = MaxNumCustomers - Suc n in
      if needBagging g i > 0 then
        (let (ord, food) = bag_items [1, 2, 3, 4] (needBagging g i) (cookedFood g);
             g1 = g\<lparr>needBagging := (needBagging g)(i := ord), cookedFood := food\<rparr>
         in if ord \<le> 1 then (Some i, g1\<lparr>needBagging := (needBagging g1)(i := 0)\<rparr>) else bag_scan n g1)
      else bag_scan n g)"

definition bag :: "helper \<Rightarrow> nat \<Rightarrow> nat \<Rightarrow> shop \<Rightarrow> seg" where
  "bag w ID i g =
     (case bag_scan (MaxNumCustomers - i) g of
        (None, g1) \<Rightarrow> then_do [Op_Release lock_NeedBagging] (after_bagging w ID) g1
      | (Some k, g1) \<Rightarrow>
          bindE (slot MaxNumCustomers (customerOf g1 k)) (\<lambda>c.
          if eatsIn g1 c \<noteq> 0 then Inr ([Op_Acquire lock_Bagged], Bag_delivers w ID k, g1)
          else Inr ([Op_Acquire lock_Ready], Bag_calls w ID k, g1)))"

definition bag_delivers :: "helper \<Rightarrow> nat \<Rightarrow> nat \<Rightarrow> shop \<Rightarrow> seg" where
  "bag_delivers w ID k g =
     bindE (slot MaxNumCustomers (NumBagged g)) (\<lambda>n.
     Inr ([broadcast_on cv_Bagged lock_Bagged, Op_Release lock_Bagged], Bag w ID (Suc k),
          g\<lparr>baggedOrders := (baggedOrders g)(n := int k), NumBagged := NumBagged g + 1\<rparr>))"

definition bag_calls :: "helper \<Rightarrow> nat \<Rightarrow> nat \<Rightarrow> shop \<Rightarrow> seg" where
  "bag_calls w ID k g =
     Inr ([broadcast_on cv_Ready lock_Ready, Op_Release lock_Ready], Bag w ID (Suc k),
          g\<lparr>ordersReady := (ordersReady g)(k := 1)\<rparr>)"

section \<open>Order takers\<close>

definition shouldExit :: "shop \<Rightarrow> bool" where
  "shouldExit g \<longleftrightarrow> NumServed g = WhenAllServed g"

abbreviation yields :: "nat \<Rightarrow> op list" where "yields n \<equiv> replicate n Op_Yield"

definition taker_named :: "shop \<Rightarrow> seg" where
  "taker_named g =
     Inr ([Op_Release lock_Init, Op_Acquire lock_Order], Serve Taker (nat (NumOrderTakers g)),
          g\<lparr>NumOrderTakers := NumOrderTakers g + 1\<rparr>)"

definition taker_exits :: "nat \<Rightarrow> shop \<Rightarrow> seg" where
  "taker_exits ID g =
     (if shouldExit g then Inr ([Op_Release lock_Init, Op_Finish], Gone, g)
      else Inr ([Op_Release lock_Init] @ yields 50 @ [Op_Acquire lock_Order], Serve Taker ID, g))"

section \<open>The manager\<close>

definition manager_named :: "shop \<Rightarrow> seg" where
  "manager_named g =
     Inr ([Op_Release lock_Init, Op_Acquire lock_Order], Manager_looks (nat (NumOrderTakers g)),
          g\<lparr>NumOrderTakers := NumOrderTakers g + 1, NumManagers := NumManagers g + 1\<rparr>)"

definition manager_looks :: "nat \<Rightarrow> shop \<Rightarrow> seg" where
  "manager_looks ID g =
     (if orderLength g > 3 * (NumOrderTakers g - NumManagers g)
      then Inr ([Op_Release lock_Order, Op_Acquire lock_Order], Serve (Boss 1) ID, g)
      else Inr ([Op_Release lock_Order, Op_Acquire lock_NeedBagging], Bag (Boss 0) ID 0, g))"

definition call_waiters :: "nat \<Rightarrow> shop \<Rightarrow> seg" where
  "call_waiters ID g =
     Inr ((if NumBagged g > 0 then [broadcast_on cv_MrWr lock_MrWr] else []) @ [Op_Release lock_MrWr, Op_Acquire (lock_Inventory 0)],
          Order_food ID 0, g)"

text \<open>\<open>orderInventoryFood\<close>: five of an item that is out of stock, with money from the bank if need be.\<close>

definition after_ordering :: "nat \<Rightarrow> nat \<Rightarrow> op list \<times> rpoint" where
  "after_ordering ID i =
     (if Suc i < numInventoryItemTypes then ([Op_Acquire (lock_Inventory (Suc i))], Order_food ID (Suc i))
      else ([Op_Acquire (lock_Inventory 1)], Manage_cook ID 1))"

definition buy_food :: "nat \<Rightarrow> nat \<Rightarrow> shop \<Rightarrow> seg" where
  "buy_food ID i g =
     (if \<not> in_int (money_Rest g - inventoryCost g i * 5) then Inl Undefined_behaviour
      else then_do [Op_Release (lock_Inventory i)] (after_ordering ID i)
        (g\<lparr>money_Rest := money_Rest g - inventoryCost g i * 5, inventoryCount := (inventoryCount g)(i := inventoryCount g i + 5)\<rparr>))"

definition order_food :: "nat \<Rightarrow> nat \<Rightarrow> shop \<Rightarrow> seg" where
  "order_food ID i g =
     (if inventoryCount g i \<le> 0 then
        if money_Rest g < inventoryCost g i * 5 then Inr (yields 5, Bank ID i, g) else buy_food ID i g
      else then_do [Op_Release (lock_Inventory i)] (after_ordering ID i) g)"

definition bank :: "nat \<Rightarrow> nat \<Rightarrow> shop \<Rightarrow> seg" where
  "bank ID i g =
     (let m = money_Rest g + inventoryCost g i * 2 * (5 + 5) in
      if \<not> in_int m then Inl Undefined_behaviour else buy_food ID i (g\<lparr>money_Rest := m\<rparr>))"

definition after_managing :: "nat \<Rightarrow> nat \<Rightarrow> op list \<times> rpoint" where
  "after_managing ID i =
     (if Suc i < numInventoryItemTypes
      then ([Op_Release (lock_Inventory i), Op_Acquire (lock_Inventory (Suc i))], Manage_cook ID (Suc i))
      else ([Op_Release (lock_Inventory i), Op_Acquire lock_Enter], Check_line ID))"

definition manage_cook :: "nat \<Rightarrow> nat \<Rightarrow> shop \<Rightarrow> seg" where
  "manage_cook ID i g =
     (if cookedFood g i < minCooked g i \<and> noCooks g = 0 then
        if isHired g i = 0 then Inr ([Op_Acquire lock_HireCook], Hire ID i, g)
        else then_do [signal_on (cv_Inventory i) (lock_Inventory i)] (after_managing ID i)
          (if onBreak g i \<noteq> 0 then g\<lparr>onBreak := (onBreak g)(i := 0)\<rparr> else g)
      else if cookedFood g i > maxCooked g i then
        then_do [] (after_managing ID i) (if onBreak g i = 0 then g\<lparr>onBreak := (onBreak g)(i := 1)\<rparr> else g)
      else then_do [] (after_managing ID i) g)"

definition hire_cook :: "nat \<Rightarrow> nat \<Rightarrow> shop \<Rightarrow> seg" where
  "hire_cook ID i g =
     Inr ([Op_Fork (next_cook g), wait_on cv_HireCook lock_HireCook], Hired ID i,
          g\<lparr>isHired := (isHired g)(i := -1), inventoryIndex := int i, next_cook := Suc (next_cook g)\<rparr>)"

definition hired :: "nat \<Rightarrow> nat \<Rightarrow> shop \<Rightarrow> seg" where
  "hired ID i g = then_do [Op_Release lock_HireCook] (after_managing ID i) g"

text \<open>\<open>checkLineToEnterRest\<close>. For an empty line it reads in front of the array, and does not use what it read.\<close>

definition check_line :: "nat \<Rightarrow> shop \<Rightarrow> seg" where
  "check_line ID g =
     (if enterLength g > 0 \<and> tablesAvailable g > 0 then
        bindE (slot MaxNumCustomers (enterLength g - 1)) (\<lambda>i.
        bindE (slot MaxNumCustomers (enterLine g i)) (\<lambda>c.
        Inr ([signal_on (cv_Enter c) lock_Enter, Op_Release lock_Enter, Op_Acquire lock_Init], Boss_exits ID,
             g\<lparr>tablesAvailable := tablesAvailable g - 1\<rparr>)))
      else Inr ([Op_Release lock_Enter, Op_Acquire lock_Init], Boss_exits ID, g))"

definition boss_exits :: "nat \<Rightarrow> shop \<Rightarrow> seg" where
  "boss_exits ID g =
     (if shouldExit g then Inr ([Op_Release lock_Init, Op_Finish], Gone, g)
      else Inr ([Op_Release lock_Init] @ yields 25 @ [Op_Acquire lock_Order], Manager_looks ID, g))"

section \<open>Cooks and waiters\<close>

definition cook_named :: "shop \<Rightarrow> seg" where
  "cook_named g =
     bindE (slot numInventoryItemTypes (inventoryIndex g)) (\<lambda>i.
     Inr ([signal_on cv_HireCook lock_HireCook, Op_Release lock_HireCook, Op_Acquire (lock_Inventory i)], Cook_works i,
          g\<lparr>isHired := (isHired g)(i := 1)\<rparr>))"

definition cook_works :: "nat \<Rightarrow> shop \<Rightarrow> seg" where
  "cook_works i g =
     Inr (if onBreak g i \<noteq> 0 then [wait_on (cv_Inventory i) (lock_Inventory i)] else [], Cook_back i, g)"

definition cook_back :: "nat \<Rightarrow> shop \<Rightarrow> seg" where
  "cook_back i g =
     (if inventoryCount g i > 0
      then Inr ([Op_Release (lock_Inventory i)], Cook_cooks i, g\<lparr>inventoryCount := (inventoryCount g)(i := inventoryCount g i - 1)\<rparr>)
      else Inr ([Op_Release (lock_Inventory i), Op_Acquire lock_Init], Cook_exits i, g))"

definition cook_cooks :: "nat \<Rightarrow> shop \<Rightarrow> seg" where
  "cook_cooks i g = Inr (yields (nat (cookTime g i)) @ [Op_Acquire (lock_Inventory i)], Cook_stacks i, g)"

definition cook_stacks :: "nat \<Rightarrow> shop \<Rightarrow> seg" where
  "cook_stacks i g =
     Inr ([Op_Release (lock_Inventory i), Op_Acquire lock_Init], Cook_exits i,
          g\<lparr>cookedFood := (cookedFood g)(i := cookedFood g i + 1)\<rparr>)"

definition cook_exits :: "nat \<Rightarrow> shop \<Rightarrow> seg" where
  "cook_exits i g =
     (if shouldExit g then Inr ([Op_Release lock_Init, Op_Finish], Gone, g)
      else Inr ([Op_Release lock_Init, Op_Acquire (lock_Inventory i)], Cook_works i, g))"

definition waiter_named :: "shop \<Rightarrow> seg" where
  "waiter_named g = Inr ([Op_Release lock_Init, Op_Acquire lock_Bagged], Waiter_looks, g\<lparr>NumWaiters := NumWaiters g + 1\<rparr>)"

definition waiter_looks :: "shop \<Rightarrow> seg" where
  "waiter_looks g =
     (if NumBagged g \<le> 0 then Inr ([wait_on cv_Bagged lock_Bagged], Waiter_looks, g)
      else
        bindE (slot MaxNumCustomers (NumBagged g - 1)) (\<lambda>n.
        Inr ([Op_Release lock_Bagged], Waiter_serves (baggedOrders g n), g\<lparr>NumBagged := NumBagged g - 1\<rparr>)))"

definition waiter_serves :: "int \<Rightarrow> shop \<Rightarrow> seg" where
  "waiter_serves token g =
     (if token = -1 then Inr ([], Waiter_served, g)
      else
        bindE (slot MaxNumCustomers token) (\<lambda>k.
        bindE (slot MaxNumCustomers (customerOf g k)) (\<lambda>c.
        Inr ([Op_Acquire (lock_Sitting c), signal_on (cv_Sitting c) (lock_Sitting c), wait_on (cv_Sitting c) (lock_Sitting c),
              signal_on (cv_Sitting c) (lock_Sitting c), Op_Release (lock_Sitting c)], Waiter_served, g))))"

definition waiter_served :: "shop \<Rightarrow> seg" where
  "waiter_served g = Inr (yields 5 @ [Op_Acquire lock_Bagged], Waiter_looks, g)"

section \<open>The routines\<close>

fun next_seg :: "(int \<Rightarrow> int) \<Rightarrow> nat \<Rightarrow> rpoint \<Rightarrow> shop \<Rightarrow> seg" where
  "next_seg beyond r Customer_start g = Inr ([Op_Acquire lock_Init], Customer_named, g)"
| "next_seg beyond r Customer_named g = customer_named r g"
| "next_seg beyond r (Customer_enters ID) g = customer_enters ID g"
| "next_seg beyond r (Customer_called ID) g = customer_called ID g"
| "next_seg beyond r (Customer_lines_up ID e) g = customer_lines_up ID e g"
| "next_seg beyond r (Customer_taken ID e) g = customer_taken ID e g"
| "next_seg beyond r (Customer_orders ID e) g = customer_orders ID e g"
| "next_seg beyond r (Customer_pays ID e) g = customer_pays beyond ID e g"
| "next_seg beyond r (Customer_gets_token ID e) g = customer_gets_token ID e g"
| "next_seg beyond r (Customer_fed ID) g = customer_fed ID g"
| "next_seg beyond r (Customer_leaves ID) g = customer_leaves g"
| "next_seg beyond r (Customer_waits ID k) g = customer_waits ID k g"
| "next_seg beyond r Customer_done g = customer_done g"
| "next_seg beyond r Taker_start g = Inr ([Op_Acquire lock_Init], Taker_named, g)"
| "next_seg beyond r Taker_named g = taker_named g"
| "next_seg beyond r (Serve w ID) g = serve w ID g"
| "next_seg beyond r (Serve_paid w ID c) g = serve_paid w ID c g"
| "next_seg beyond r (Serve_notes w ID k) g = serve_notes w ID k g"
| "next_seg beyond r (Bag w ID i) g = bag w ID i g"
| "next_seg beyond r (Bag_delivers w ID k) g = bag_delivers w ID k g"
| "next_seg beyond r (Bag_calls w ID k) g = bag_calls w ID k g"
| "next_seg beyond r (Taker_exits ID) g = taker_exits ID g"
| "next_seg beyond r Manager_start g = Inr ([Op_Acquire lock_Init], Manager_named, g)"
| "next_seg beyond r Manager_named g = manager_named g"
| "next_seg beyond r (Manager_looks ID) g = manager_looks ID g"
| "next_seg beyond r (Call_waiters ID) g = call_waiters ID g"
| "next_seg beyond r (Order_food ID i) g = order_food ID i g"
| "next_seg beyond r (Bank ID i) g = bank ID i g"
| "next_seg beyond r (Manage_cook ID i) g = manage_cook ID i g"
| "next_seg beyond r (Hire ID i) g = hire_cook ID i g"
| "next_seg beyond r (Hired ID i) g = hired ID i g"
| "next_seg beyond r (Check_line ID) g = check_line ID g"
| "next_seg beyond r (Boss_exits ID) g = boss_exits ID g"
| "next_seg beyond r Cook_start g = Inr ([Op_Acquire lock_HireCook], Cook_named, g)"
| "next_seg beyond r Cook_named g = cook_named g"
| "next_seg beyond r (Cook_works i) g = cook_works i g"
| "next_seg beyond r (Cook_back i) g = cook_back i g"
| "next_seg beyond r (Cook_cooks i) g = cook_cooks i g"
| "next_seg beyond r (Cook_stacks i) g = cook_stacks i g"
| "next_seg beyond r (Cook_exits i) g = cook_exits i g"
| "next_seg beyond r Waiter_start g = Inr ([Op_Acquire lock_Init], Waiter_named, g)"
| "next_seg beyond r Waiter_named g = waiter_named g"
| "next_seg beyond r Waiter_looks g = waiter_looks g"
| "next_seg beyond r (Waiter_serves k) g = waiter_serves k g"
| "next_seg beyond r Waiter_served g = waiter_served g"
| "next_seg beyond r Gone g = Inr ([], Gone, g)"

section \<open>Running it\<close>

text \<open>\<open>todo\<close>: the operations of the kernel that a thread does before it goes on at its place.\<close>

record restaurant =
  rk :: kern
  shop :: shop
  todo :: "nat \<Rightarrow> op list"
  place :: "nat \<Rightarrow> rpoint"

text \<open>\<open>RunSimulation\<close>: thread 0 makes the manager, the customers, the order takers and the waiters; whoever is
  made later is a cook.\<close>

definition RunSimulation :: "bool \<Rightarrow> int \<Rightarrow> int \<Rightarrow> int \<Rightarrow> shop \<Rightarrow> restaurant result" where
  "RunSimulation spare numOrderTakers numWaiters numCustomers g =
     (let (c, g1) = (if numCustomers < 0 \<or> numCustomers > int MaxNumCustomers then (20, g\<lparr>WhenAllServed := 20\<rparr>)
                     else (nat numCustomers, g));
          ot = (if numOrderTakers < 0 \<or> numOrderTakers > int MaxNumOrderTakers then 3 else nat numOrderTakers);
          w = (if numWaiters < 0 \<or> numWaiters > int MaxNumWaiters then 3 else nat numWaiters)
      in bindE (Initialize spare g1) (\<lambda>g2.
         Inr \<lparr>rk = kern_init 0 (\<lambda>_. 0), shop = g2\<lparr>next_cook := 2 + c + ot + w\<rparr>,
              todo = (\<lambda>_. [])(0 := map Op_Fork [1..<2 + c + ot + w] @ [Op_Finish]),
              place = (\<lambda>t. if t = 0 then Gone else if t = 1 then Manager_start else if t < 2 + c then Customer_start
                else if t < 2 + c + ot then Taker_start else if t < 2 + c + ot + w then Waiter_start else Cook_start)\<rparr>))"

abbreviation current :: "restaurant \<Rightarrow> nat" where "current s \<equiv> currentThread (rk s)"

inductive rstep :: "(int \<Rightarrow> int) \<Rightarrow> restaurant \<Rightarrow> restaurant \<Rightarrow> bool" for beyond where
  does: "\<not> idle (rk s) \<Longrightarrow> kont (rk s) (current s) = Returned \<Longrightarrow> todo s (current s) = x # xs \<Longrightarrow>
    (\<And>t. x = Op_Fork t \<Longrightarrow> tstatus (rk s) t = JUST_CREATED) \<Longrightarrow> run_op x (rk s) = Inr k \<Longrightarrow>
    rstep beyond s (s\<lparr>rk := k, todo := (todo s)(current s := xs)\<rparr>)"
| goes_on: "\<not> idle (rk s) \<Longrightarrow> kont (rk s) (current s) = Returned \<Longrightarrow> todo s (current s) = [] \<Longrightarrow>
    next_seg beyond r (place s (current s)) (shop s) = Inr (ops, p, g) \<Longrightarrow>
    rstep beyond s (s\<lparr>shop := g, todo := (todo s)(current s := ops), place := (place s)(current s := p)\<rparr>)"
| wakes_up: "\<not> idle (rk s) \<Longrightarrow> kont (rk s) (current s) \<noteq> Returned \<Longrightarrow> resume (rk s) = Inr k \<Longrightarrow> rstep beyond s (s\<lparr>rk := k\<rparr>)"
| preempted: "\<not> idle (rk s) \<Longrightarrow> kont (rk s) (current s) = Returned \<Longrightarrow> Yield (rk s) = Inr k \<Longrightarrow> rstep beyond s (s\<lparr>rk := k\<rparr>)"
| finds_work: "idle (rk s) \<Longrightarrow> readyList (rk s) \<noteq> [] \<Longrightarrow> look_for_work (rk s) = Inr k \<Longrightarrow> rstep beyond s (s\<lparr>rk := k\<rparr>)"

section \<open>Bagging\<close>

lemma order_bit: "(drop_bit j ord AND 1 > 0) = bit (ord :: int) j"
  by (simp add: and_one_eq bit_iff_odd_drop_bit mod_2_eq_odd)

lemma clear_bit: "bit ord j \<Longrightarrow> bit ((ord :: int) XOR 2 ^ j) m = (bit ord m \<and> m \<noteq> j)"
  by (auto simp: bit_xor_iff bit_exp_iff)

lemma clear_bit_nonneg: "0 \<le> (ord :: int) \<Longrightarrow> 0 \<le> ord XOR 2 ^ j"
  by simp

lemma bag_items_spec:
  "bag_items js ord food = (ord', food') \<Longrightarrow> distinct js \<Longrightarrow>
     (\<forall>j. bit ord' j = (bit ord j \<and> \<not> (j \<in> set js \<and> food j > 0)))
   \<and> (\<forall>j. food' j = food j - (if j \<in> set js \<and> bit ord j \<and> food j > 0 then 1 else 0)) \<and> (0 \<le> ord \<longrightarrow> 0 \<le> ord')"
proof (induction js ord food rule: bag_items.induct)
  case (1 ord food)
  then show ?case by simp
next
  case (2 j js ord food)
  show ?case
  proof (cases "bit ord j \<and> food j > 0")
    case True
    then have c: "drop_bit j ord AND 1 > 0 \<and> food j > 0" by (simp add: order_bit)
    have b: "bag_items js (ord XOR push_bit j 1) (food(j := food j - 1)) = (ord', food')" using 2(3) c by simp
    have n: "j \<notin> set js" using 2(4) by simp
    show ?thesis using 2(1)[OF c b] 2(4) n True clear_bit_nonneg[of ord j]
      by (auto simp: clear_bit)
  next
    case False
    then have c: "\<not> (drop_bit j ord AND 1 > 0 \<and> food j > 0)" by (simp add: order_bit)
    have b: "bag_items js ord food = (ord', food')" using 2(3) c by auto
    show ?thesis using 2(2)[OF c b] 2(4) False by auto
  qed
qed

text \<open>How many orders still need item \<open>j\<close>.\<close>

definition needs :: "shop \<Rightarrow> nat \<Rightarrow> int" where
  "needs g j = (\<Sum>i < MaxNumCustomers. of_bool (bit (needBagging g i) j))"

lemma sum_upd:
  "i < n \<Longrightarrow> (\<Sum>x < n. f ((a(i := v)) x)) = (\<Sum>x < n. f (a x)) - f (a i) + (f v :: int)" for n :: nat
proof -
  assume i: "i < n"
  have "(\<Sum>x \<in> {..<n} - {i}. f ((a(i := v)) x)) = (\<Sum>x \<in> {..<n} - {i}. f (a x))" by (intro sum.cong) auto
  then show ?thesis using i by (simp add: sum.remove[of "{..<n}" i])
qed

lemma complete_order: "0 \<le> ord \<Longrightarrow> ord \<le> 1 \<Longrightarrow> 0 < j \<Longrightarrow> \<not> bit (ord :: int) j"
proof -
  assume "0 \<le> ord" "ord \<le> 1" "0 < j"
  moreover then have "ord = 0 \<or> ord = 1" by arith
  ultimately show ?thesis by (auto simp: bit_1_iff)
qed

text \<open>Bagging loses no food and makes up none. Whatever the orders, each item that disappears from the
  cooked food went into exactly one order that needed it and needs it no longer: the cooked food less the
  needs of all orders is the same before and after, for each of the four items that are cooked. The amount
  never becomes negative, the order reported complete is one that was open and needs nothing more, and
  orders in front of those looked at do not change.\<close>

text \<open>One order: its items and what is left of them, reported complete or not.\<close>

definition bagged_ok :: "nat \<Rightarrow> shop \<Rightarrow> shop \<Rightarrow> bool" where
  "bagged_ok n g g' \<longleftrightarrow>
     (\<forall>j \<in> {1..4}. cookedFood g' j - needs g' j = cookedFood g j - needs g j \<and> (0 \<le> cookedFood g j \<longrightarrow> 0 \<le> cookedFood g' j))
   \<and> (\<forall>i < MaxNumCustomers. 0 \<le> needBagging g' i \<and> (i < MaxNumCustomers - n \<longrightarrow> needBagging g' i = needBagging g i))"

lemma bagged_ok_trans:
  assumes "bagged_ok (Suc n) g g1" and "bagged_ok n g1 g'"
  shows "bagged_ok (Suc n) g g'"
proof -
  have "cookedFood g' j - needs g' j = cookedFood g j - needs g j \<and> (0 \<le> cookedFood g j \<longrightarrow> 0 \<le> cookedFood g' j)"
    if "j \<in> {1..4}" for j
    using assms that by (auto simp: bagged_ok_def)
  moreover have "0 \<le> needBagging g' i \<and> (i < MaxNumCustomers - Suc n \<longrightarrow> needBagging g' i = needBagging g i)"
    if "i < MaxNumCustomers" for i
    using assms that by (auto simp: bagged_ok_def)
  ultimately show ?thesis by (simp add: bagged_ok_def)
qed

lemma bag_one:
  assumes b: "bag_items [1, 2, 3, 4] (needBagging g i) (cookedFood g) = (ord, food)" and i: "i = MaxNumCustomers - Suc n"
    and nn: "\<forall>i < MaxNumCustomers. 0 \<le> needBagging g i" and v: "v = (if ord \<le> 1 then 0 else ord)"
  shows "bagged_ok (Suc n) g (g\<lparr>needBagging := (needBagging g)(i := v), cookedFood := food\<rparr>)"
proof -
  let ?g = "g\<lparr>needBagging := (needBagging g)(i := v), cookedFood := food\<rparr>"
  have i50: "i < MaxNumCustomers" using i by simp
  have s: "\<forall>j. bit ord j = (bit (needBagging g i) j \<and> \<not> (j \<in> set [1, 2, 3, 4] \<and> cookedFood g j > 0))"
    "\<forall>j. food j = cookedFood g j - (if j \<in> set [1, 2, 3, 4] \<and> bit (needBagging g i) j \<and> cookedFood g j > 0 then 1 else 0)"
    "0 \<le> ord"
    using bag_items_spec[OF b] nn i50 by simp_all
  have vb: "bit v j = bit ord j" if "j \<in> {1..4}" for j
    using complete_order[OF s(3), of j] v that by auto
  have "cookedFood ?g j - needs ?g j = cookedFood g j - needs g j \<and> (0 \<le> cookedFood g j \<longrightarrow> 0 \<le> cookedFood ?g j)"
    if j: "j \<in> {1..4}" for j
  proof -
    have in4: "j \<in> set [1, 2, 3, 4]" using j by auto
    have "needs ?g j = needs g j - of_bool (bit (needBagging g i) j) + of_bool (bit ord j)"
      using sum_upd[OF i50, of "\<lambda>x. of_bool (bit x j)" "needBagging g" v] vb[OF j] by (simp add: needs_def)
    then show ?thesis using s(1,2) in4 by (auto simp: of_bool_def)
  qed
  then show ?thesis using nn s(3) v i by (auto simp: bagged_ok_def)
qed


section \<open>Order numbers\<close>

text \<open>The customer that a thread stands for, before the order line (itself) or after it (the one it serves).\<close>

fun held :: "rpoint \<Rightarrow> nat option" where
  "held (Customer_enters c) = Some c"
| "held (Customer_called c) = Some c"
| "held (Customer_lines_up c e) = Some c"
| "held (Serve_paid w ID c) = Some c"
| "held _ = None"

text \<open>Where a customer can be, on the way from the door to an order number.\<close>

datatype claim = By nat | Line nat | Token nat

fun claims :: "shop \<Rightarrow> (nat \<Rightarrow> rpoint) \<Rightarrow> claim \<Rightarrow> int option" where
  "claims g pt (By t) = map_option int (held (pt t))"
| "claims g pt (Line i) = (if int i < orderLength g then Some (orderLine g i) else None)"
| "claims g pt (Token k) = (if int k < orderNumCounter g then Some (customerOf g k) else None)"

definition claims_ok :: "int \<Rightarrow> (claim \<Rightarrow> int option) \<Rightarrow> bool" where
  "claims_ok n f \<longleftrightarrow> (\<forall>a c. f a = Some c \<longrightarrow> 0 \<le> c \<and> c < n) \<and> (\<forall>a b c. f a = Some c \<longrightarrow> f b = Some c \<longrightarrow> a = b)"

definition numbers_ok :: "shop \<Rightarrow> (nat \<Rightarrow> rpoint) \<Rightarrow> bool" where
  "numbers_ok g pt \<longleftrightarrow> 0 \<le> NumCustomers g \<and> 0 \<le> orderLength g \<and> 0 \<le> orderNumCounter g
     \<and> claims_ok (NumCustomers g) (claims g pt)
     \<and> (\<forall>k. int k < orderNumCounter g \<longrightarrow> orderNumber g (nat (customerOf g k)) = int k)"

definition same_numbers :: "shop \<Rightarrow> shop \<Rightarrow> bool" where
  "same_numbers g g' \<longleftrightarrow> NumCustomers g' = NumCustomers g \<and> orderLength g' = orderLength g \<and> orderLine g' = orderLine g
     \<and> orderNumCounter g' = orderNumCounter g \<and> customerOf g' = customerOf g \<and> orderNumber g' = orderNumber g"

lemma claims_moved:
  assumes "claims_ok n f" and "f a = Some c" and "f b = None"
  shows "claims_ok n (f(a := None, b := Some c))"
proof -
  have "a \<noteq> b" using assms(2,3) by auto
  then show ?thesis using assms unfolding claims_ok_def by (auto split: if_splits)
qed

lemma claims_new:
  assumes "claims_ok n f" and "0 \<le> n"
  shows "claims_ok (n + 1) (f(a := Some n))"
  using assms unfolding claims_ok_def by (auto split: if_splits) force+

lemma claims_same:
  "same_numbers g g' \<Longrightarrow> held p = held (pt t) \<Longrightarrow> claims g' (pt(t := p)) = claims g pt"
proof (rule ext)
  fix a assume "same_numbers g g'" "held p = held (pt t)"
  then show "claims g' (pt(t := p)) a = claims g pt a" by (cases a) (simp_all add: same_numbers_def)
qed

lemma numbers_same:
  "numbers_ok g pt \<Longrightarrow> same_numbers g g' \<Longrightarrow> held p = held (pt t) \<Longrightarrow> numbers_ok g' (pt(t := p))"
  using claims_same[of g g' p pt t] by (simp add: numbers_ok_def same_numbers_def)

lemma bag_scan_same: "bag_scan n g = (k, g') \<Longrightarrow> same_numbers g g' \<and> WhenAllServed g' = WhenAllServed g \<and> NumServed g' = NumServed g"
proof (induction n arbitrary: g)
  case (Suc n)
  let ?i = "MaxNumCustomers - Suc n"
  obtain ord food where b: "bag_items [1, 2, 3, 4] (needBagging g ?i) (cookedFood g) = (ord, food)" by force
  show ?case
    using Suc.prems Suc.IH[of g] Suc.IH[of "g\<lparr>needBagging := (needBagging g)(?i := ord), cookedFood := food\<rparr>"] b
    by (auto simp: Let_def same_numbers_def simp del: bag_items.simps One_nat_def split: if_splits)
qed (simp add: same_numbers_def)

fun moves_customer :: "rpoint \<Rightarrow> bool" where
  "moves_customer Customer_named = True"
| "moves_customer (Customer_lines_up c e) = True"
| "moves_customer (Serve w ID) = True"
| "moves_customer (Serve_paid w ID c) = True"
| "moves_customer _ = False"

lemma after_held [simp]:
  "held (snd (after_serving w ID)) = None" "held (snd (after_bagging w ID)) = None"
  "held (snd (after_ordering ID i)) = None" "held (snd (after_managing ID i)) = None"
  subgoal by (induction w ID rule: after_serving.induct) simp_all
  subgoal by (cases w) simp_all
  by (auto simp: after_ordering_def after_managing_def)

lemmas seg_defs = customer_named_def customer_enters_def customer_called_def customer_lines_up_def customer_taken_def
  customer_orders_def customer_pays_def customer_gets_token_def customer_fed_def customer_leaves_def customer_waits_def
  customer_done_def then_do_def serve_def serve_paid_def serve_notes_def bag_def bag_delivers_def bag_calls_def
  taker_named_def taker_exits_def manager_named_def manager_looks_def call_waiters_def buy_food_def order_food_def bank_def
  manage_cook_def hire_cook_def hired_def check_line_def boss_exits_def cook_named_def cook_works_def cook_back_def
  cook_cooks_def cook_stacks_def cook_exits_def waiter_named_def waiter_looks_def waiter_serves_def waiter_served_def

lemma next_seg_same:
  assumes "next_seg beyond r p g = Inr (ops, p', g')" and "\<not> moves_customer p"
  shows "same_numbers g g' \<and> held p' = held p"
  using assms bag_scan_same
  by (cases p) (auto simp: seg_defs same_numbers_def bindE_eq_Inr Let_def slot_def split: if_splits prod.splits option.splits
      dest!: bag_scan_same)

lemma slot_Inr: "slot n i = Inr k \<longleftrightarrow> 0 \<le> i \<and> i < int n \<and> k = nat i"
  by (auto simp: slot_def)

lemma numbers_named:
  assumes ok: "numbers_ok g pt" and h: "held (pt t) = None" and hp: "held p = Some (nat (NumCustomers g))"
  shows "numbers_ok (g\<lparr>NumCustomers := NumCustomers g + 1\<rparr>) (pt(t := p))"
proof -
  have n: "0 \<le> NumCustomers g" using ok by (simp add: numbers_ok_def)
  have "claims (g\<lparr>NumCustomers := NumCustomers g + 1\<rparr>) (pt(t := p)) = (claims g pt)(By t := Some (NumCustomers g))"
  proof (rule ext)
    fix a show "claims (g\<lparr>NumCustomers := NumCustomers g + 1\<rparr>) (pt(t := p)) a = ((claims g pt)(By t := Some (NumCustomers g))) a"
      using n hp by (cases a) simp_all
  qed
  then show ?thesis using ok claims_new[of "NumCustomers g" "claims g pt" "By t"] by (simp add: numbers_ok_def)
qed

lemma numbers_lined_up:
  assumes ok: "numbers_ok g pt" and h: "held (pt t) = Some c" and hp: "held p = None"
  shows "numbers_ok (g\<lparr>orderLine := (orderLine g)(nat (orderLength g) := int c), orderLength := orderLength g + 1\<rparr>) (pt(t := p))"
    (is "numbers_ok ?g _")
proof -
  let ?i = "nat (orderLength g)"
  have n: "0 \<le> orderLength g" using ok by (simp add: numbers_ok_def)
  have e: "claims ?g (pt(t := p)) = (claims g pt)(By t := None, Line ?i := Some (int c))"
  proof (rule ext)
    fix a show "claims ?g (pt(t := p)) a = ((claims g pt)(By t := None, Line ?i := Some (int c))) a"
      using n hp by (cases a) auto
  qed
  have "claims_ok (NumCustomers g) ((claims g pt)(By t := None, Line ?i := Some (int c)))"
    by (rule claims_moved) (use ok h n in \<open>simp_all add: numbers_ok_def\<close>)
  then show ?thesis using ok e by (simp add: numbers_ok_def)
qed

lemma numbers_served:
  assumes ok: "numbers_ok g pt" and h: "held (pt t) = None" and len: "0 < orderLength g"
    and c: "orderLine g (nat (orderLength g - 1)) = int c" and hp: "held p = Some c"
  shows "numbers_ok (g\<lparr>orderLength := orderLength g - 1, takerOf := x\<rparr>) (pt(t := p))" (is "numbers_ok ?g _")
proof -
  let ?i = "nat (orderLength g - 1)"
  have e: "claims ?g (pt(t := p)) = (claims g pt)(Line ?i := None, By t := Some (int c))"
  proof (rule ext)
    fix a show "claims ?g (pt(t := p)) a = ((claims g pt)(Line ?i := None, By t := Some (int c))) a"
      using len hp by (cases a) auto
  qed
  have "claims_ok (NumCustomers g) ((claims g pt)(Line ?i := None, By t := Some (int c)))"
    by (rule claims_moved) (use ok h c len in \<open>simp_all add: numbers_ok_def\<close>)
  then show ?thesis using ok e len by (simp add: numbers_ok_def)
qed

lemma numbers_given:
  assumes ok: "numbers_ok g pt" and h: "held (pt t) = Some c" and hp: "held p = None"
  shows "numbers_ok (g\<lparr>orderNumCounter := orderNumCounter g + 1, orderNumber := (orderNumber g)(c := orderNumCounter g),
    customerOf := (customerOf g)(nat (orderNumCounter g) := int c)\<rparr>) (pt(t := p))" (is "numbers_ok ?g _")
proof -
  let ?k = "nat (orderNumCounter g)"
  have n: "0 \<le> orderNumCounter g" using ok by (simp add: numbers_ok_def)
  have e: "claims ?g (pt(t := p)) = (claims g pt)(By t := None, Token ?k := Some (int c))"
  proof (rule ext)
    fix a show "claims ?g (pt(t := p)) a = ((claims g pt)(By t := None, Token ?k := Some (int c))) a"
      using n hp by (cases a) auto
  qed
  have cl: "claims_ok (NumCustomers g) (claims g pt)" using ok by (simp add: numbers_ok_def)
  have "claims_ok (NumCustomers g) ((claims g pt)(By t := None, Token ?k := Some (int c)))"
    by (rule claims_moved[OF cl]) (use h n in simp_all)
  moreover have "orderNumber ?g (nat (customerOf ?g k)) = int k" if k: "int k < orderNumCounter ?g" for k
  proof (cases "k = ?k")
    case True
    then show ?thesis using n by simp
  next
    case False
    then have lt: "int k < orderNumCounter g" using k by simp
    have "claims g pt (Token k) = Some (customerOf g k)" "claims g pt (By t) = Some (int c)" using lt h by simp_all
    then have "customerOf g k \<noteq> int c" "0 \<le> customerOf g k"
      using cl unfolding claims_ok_def by (metis claim.distinct(3), metis)
    then have "nat (customerOf g k) \<noteq> c" by auto
    then show ?thesis using ok lt False by (simp add: numbers_ok_def)
  qed
  ultimately show ?thesis using ok e n by (simp add: numbers_ok_def)
qed

lemma next_seg_numbers:
  assumes ok: "numbers_ok g pt" and seg: "next_seg beyond r (pt t) g = Inr (ops, p, g')"
  shows "numbers_ok g' (pt(t := p))"
proof (cases "moves_customer (pt t)")
  case False
  then show ?thesis using next_seg_same[OF seg] numbers_same[OF ok] by blast
next
  case True
  then consider (named) "pt t = Customer_named" | (lines_up) c e where "pt t = Customer_lines_up c e"
    | (serve) w ID where "pt t = Serve w ID" | (given) w ID c where "pt t = Serve_paid w ID c"
    by (cases "pt t") simp_all
  then show ?thesis
  proof cases
    case named
    have "g' = g\<lparr>NumCustomers := NumCustomers g + 1\<rparr>" "held p = Some (nat (NumCustomers g))"
      using seg named by (auto simp: customer_named_def Let_def split: if_splits)
    then show ?thesis using numbers_named[OF ok] named by simp
  next
    case lines_up
    have "g' = g\<lparr>orderLine := (orderLine g)(nat (orderLength g) := int c), orderLength := orderLength g + 1\<rparr>" "held p = None"
      using seg lines_up by (auto simp: customer_lines_up_def bindE_eq_Inr slot_Inr)
    then show ?thesis using numbers_lined_up[OF ok] lines_up by simp
  next
    case serve
    show ?thesis
    proof (cases "orderLength g \<le> 0")
      case True
      then have "g' = g" "held p = None" using seg serve by (auto simp: serve_def then_do_def)
      then show ?thesis using numbers_same[OF ok] serve by (simp add: same_numbers_def)
    next
      case False
      then obtain c where "p = Serve_paid w ID c" "orderLine g (nat (orderLength g - 1)) = int c"
        "g' = g\<lparr>orderLength := orderLength g - 1, takerOf := (takerOf g)(c := int ID)\<rparr>"
        using seg serve
        by (intro that[of "nat (orderLine g (nat (orderLength g - 1)))"]) (auto simp: serve_def bindE_eq_Inr slot_Inr)
      then show ?thesis using numbers_served[OF ok] serve False by simp
    qed
  next
    case given
    have "g' = g\<lparr>orderNumCounter := orderNumCounter g + 1, orderNumber := (orderNumber g)(c := orderNumCounter g),
        customerOf := (customerOf g)(nat (orderNumCounter g) := int c)\<rparr>" "held p = None"
      using seg given by (auto simp: serve_paid_def bindE_eq_Inr slot_Inr)
    then show ?thesis using numbers_given[OF ok] given by simp
  qed
qed

lemma rstep_numbers: "rstep beyond s s' \<Longrightarrow> numbers_ok (shop s) (place s) \<Longrightarrow> numbers_ok (shop s') (place s')"
proof (induction rule: rstep.induct)
  case (goes_on s r ops p g)
  show ?case using next_seg_numbers[OF goes_on.prems goes_on.hyps(4)] by (simp add: fun_upd_def)
qed simp_all

lemma start_numbers:
  assumes "RunSimulation spare ot w c g = Inr s"
  shows "numbers_ok (shop s) (place s)"
proof -
  have f: "held (place s t) = None" "NumCustomers (shop s) = 0" "orderLength (shop s) = 0" "orderNumCounter (shop s) = 0" for t
    using assms by (auto simp: RunSimulation_def Initialize_def Let_def bindE_eq_Inr split: if_splits)
  have "claims (shop s) (place s) a = None" for a by (cases a) (simp_all add: f)
  then show ?thesis by (simp add: numbers_ok_def claims_ok_def f)
qed

text \<open>C19: Every order has a number of its own. However the threads of the restaurant are interleaved, the numbers
  given out so far belong to different customers, all of them customers that have come, and each customer that
  has one finds just this number under its name. The customers in the order line are still others, each there
  once. So no order is delivered to two customers and no customer is given two orders.\<close>
theorem order_numbers_unique:
  assumes "RunSimulation spare ot w c g0 = Inr s0" and "(rstep beyond)\<^sup>*\<^sup>* s0 s"
  shows "\<forall>k. int k < orderNumCounter (shop s) \<longrightarrow>
      0 \<le> customerOf (shop s) k \<and> customerOf (shop s) k < NumCustomers (shop s)
    \<and> orderNumber (shop s) (nat (customerOf (shop s) k)) = int k
    \<and> (\<forall>k'. int k' < orderNumCounter (shop s) \<longrightarrow> customerOf (shop s) k' = customerOf (shop s) k \<longrightarrow> k' = k)
    \<and> (\<forall>i. int i < orderLength (shop s) \<longrightarrow> orderLine (shop s) i \<noteq> customerOf (shop s) k)"
proof -
  let ?g = "shop s"
  have ok: "numbers_ok ?g (place s)"
    using assms(2) by (induction rule: rtranclp_induct) (auto intro: start_numbers[OF assms(1)] rstep_numbers)
  then have cl: "claims_ok (NumCustomers ?g) (claims ?g (place s))" by (simp add: numbers_ok_def)
  have range: "claims ?g (place s) a = Some x \<Longrightarrow> 0 \<le> x \<and> x < NumCustomers ?g" for a x
    using cl unfolding claims_ok_def by blast
  have same: "claims ?g (place s) a = Some x \<Longrightarrow> claims ?g (place s) b = Some x \<Longrightarrow> a = b" for a b x
    using cl unfolding claims_ok_def by blast
  show ?thesis
  proof (intro allI impI)
    fix k assume k: "int k < orderNumCounter ?g"
    then have tk: "claims ?g (place s) (Token k) = Some (customerOf ?g k)" by simp
    have "k' = k" if "int k' < orderNumCounter ?g" "customerOf ?g k' = customerOf ?g k" for k'
      using same[OF tk, of "Token k'"] that by simp
    moreover have "orderLine ?g i \<noteq> customerOf ?g k" if "int i < orderLength ?g" for i
      using same[OF tk, of "Line i"] that by auto
    moreover have "orderNumber ?g (nat (customerOf ?g k)) = int k" using ok k by (simp add: numbers_ok_def)
    ultimately show "0 \<le> customerOf ?g k \<and> customerOf ?g k < NumCustomers ?g
      \<and> orderNumber ?g (nat (customerOf ?g k)) = int k
      \<and> (\<forall>k'. int k' < orderNumCounter ?g \<longrightarrow> customerOf ?g k' = customerOf ?g k \<longrightarrow> k' = k)
      \<and> (\<forall>i. int i < orderLength ?g \<longrightarrow> orderLine ?g i \<noteq> customerOf ?g k)"
      using range[OF tk] by blast
  qed
qed

section \<open>Closing time\<close>

lemma next_seg_served:
  assumes "next_seg beyond r p g = Inr (ops, p', g')"
  shows "WhenAllServed g' = WhenAllServed g \<and> NumServed g \<le> NumServed g'"
  using assms bag_scan_same
  by (cases p) (auto simp: seg_defs bindE_eq_Inr Let_def slot_def split: if_splits prod.splits option.splits dest!: bag_scan_same)

lemma rsteps_served:
  "(rstep beyond)\<^sup>*\<^sup>* s s' \<Longrightarrow> WhenAllServed (shop s') = WhenAllServed (shop s) \<and> NumServed (shop s) \<le> NumServed (shop s')"
proof (induction rule: rtranclp_induct)
  case (step y z)
  from step.hyps(2) have "WhenAllServed (shop z) = WhenAllServed (shop y) \<and> NumServed (shop y) \<le> NumServed (shop z)"
    by (cases rule: rstep.cases) (simp_all add: next_seg_served)
  then show ?case using step.IH by simp
qed simp

fun leaves_here :: "rpoint \<Rightarrow> bool" where
  "leaves_here (Taker_exits ID) = True"
| "leaves_here (Boss_exits ID) = True"
| "leaves_here (Cook_exits i) = True"
| "leaves_here _ = False"

text \<open>C21: With a number of customers that is valid the restaurant does not know how many customers it waits for:
  \<open>count_WhenAllCustomersServed\<close> is only set when the number is replaced by the default, and is 0 otherwise.
  So an order taker, the manager or a cook that comes to its test of the end goes home just if nobody has been
  served yet. Once a customer has been served this can never become true again, and those that are still there
  go on for ever.\<close>
theorem staff_leaves_too_early_or_never:
  assumes "0 \<le> c" and "c \<le> int MaxNumCustomers" and "WhenAllServed g0 = 0"
    and "RunSimulation spare ot w c g0 = Inr s0" and "(rstep beyond)\<^sup>*\<^sup>* s0 s"
  shows "(\<forall>t r ops p g. leaves_here (place s t) \<longrightarrow> next_seg beyond r (place s t) (shop s) = Inr (ops, p, g) \<longrightarrow>
      (p = Gone) = (NumServed (shop s) = 0))
    \<and> (\<forall>s'. (rstep beyond)\<^sup>*\<^sup>* s s' \<longrightarrow> NumServed (shop s) \<noteq> 0 \<longrightarrow> NumServed (shop s') \<noteq> 0)"
proof -
  have s0: "WhenAllServed (shop s0) = 0" "NumServed (shop s0) = 0"
    using assms(1-4) by (auto simp: RunSimulation_def Initialize_def Let_def bindE_eq_Inr split: if_splits)
  then have s: "WhenAllServed (shop s) = 0" "0 \<le> NumServed (shop s)" using rsteps_served[OF assms(5)] by simp_all
  have e: "shouldExit (shop s) = (NumServed (shop s) = 0)" using s(1) by (simp add: shouldExit_def)
  have "(p = Gone) = (NumServed (shop s) = 0)"
    if "leaves_here (place s t)" "next_seg beyond r (place s t) (shop s) = Inr (ops, p, g)" for t r ops p g
    using that by (cases "place s t") (auto simp: taker_exits_def boss_exits_def cook_exits_def e split: if_splits)
  moreover have "NumServed (shop s') \<noteq> 0" if "(rstep beyond)\<^sup>*\<^sup>* s s'" "NumServed (shop s) \<noteq> 0" for s'
    using rsteps_served[OF that(1)] that(2) s(2) by simp
  ultimately show ?thesis by blast
qed

section \<open>A concrete restaurant\<close>

definition shop_zero :: shop where
  "shop_zero = \<lparr>NumOrderTakers = 0, NumCustomers = 0, NumManagers = 0, NumWaiters = 0, enterLength = 0, enterLine = (\<lambda>_. 0),
     orderLength = 0, orderLine = (\<lambda>_. 0), takerOf = (\<lambda>_. 0), foodChoice = (\<lambda>_. 0), eatsIn = (\<lambda>_. 0), moneyPaid = (\<lambda>_. 0),
     orderNumber = (\<lambda>_. 0), ordersReady = (\<lambda>_. 0), NumServed = 0, WhenAllServed = 0, customerOf = (\<lambda>_. 0), menu = (\<lambda>_. 0),
     inventoryCount = (\<lambda>_. 0), inventoryCost = (\<lambda>_. 0), cookedFood = (\<lambda>_. 0), minCooked = (\<lambda>_. 0), maxCooked = (\<lambda>_. 0),
     cookTime = (\<lambda>_. 0), isHired = (\<lambda>_. 0), onBreak = (\<lambda>_. 0), inventoryIndex = 0, orderNumCounter = 0,
     needBagging = (\<lambda>_. 0), baggedOrders = (\<lambda>_. 0), NumBagged = 0, money_Rest = 0, tablesAvailable = 0, allEatIn = 0,
     allEatOut = 0, noCooks = 0, allOrderThis = 0, next_cook = 0\<rparr>"

text \<open>Order 0 is a $3 burger with fries and soda, order 1 a veggie burger; there are two burgers of each sort but
  no fries.\<close>

definition demo_orders :: shop where
  "demo_orders = shop_zero\<lparr>needBagging := (\<lambda>_. 0)(0 := 11, 1 := 4), cookedFood := (\<lambda>_. 0)(2 := 2, 3 := 2)\<rparr>"


lemma demo_restaurant: "\<exists>s. RunSimulation True 3 3 20 shop_zero = Inr s \<and> place s 1 = Manager_start \<and> place s 21 = Customer_start"
  by (simp add: RunSimulation_def Initialize_def Let_def)

lemma order_numbers_unique_witness:
  "\<exists>s. RunSimulation True 3 3 20 shop_zero = Inr s
     \<and> (\<forall>k. int k < orderNumCounter (shop s) \<longrightarrow> orderNumber (shop s) (nat (customerOf (shop s) k)) = int k)"
proof -
  obtain s where "RunSimulation True 3 3 20 shop_zero = Inr s" using demo_restaurant by blast
  then show ?thesis using order_numbers_unique[of True 3 3 20 shop_zero s "\<lambda>_. 0" s] by blast
qed

lemma staff_leaves_too_early_or_never_witness:
  "\<exists>s. RunSimulation True 3 3 20 shop_zero = Inr s
     \<and> (\<forall>s'. (rstep (\<lambda>_. 0))\<^sup>*\<^sup>* s s' \<longrightarrow> NumServed (shop s) \<noteq> 0 \<longrightarrow> NumServed (shop s') \<noteq> 0)"
proof -
  obtain s where s: "RunSimulation True 3 3 20 shop_zero = Inr s" using demo_restaurant by blast
  have "0 \<le> (20 :: int)" "20 \<le> int MaxNumCustomers" "WhenAllServed shop_zero = 0" by (simp_all add: shop_zero_def)
  from staff_leaves_too_early_or_never[OF this s rtranclp.rtrancl_refl] show ?thesis using s by blast
qed

end
