(* ===== verification/Spec2Isabelle.thy ===== *)
theory Spec2Isabelle
  imports BitMap MipsIsa MachineMem MipsMult MipsSim MipsSafety NachosList Interrupt Threads CStrings PostOffice TotalOrder
    NetServer NetCreate NetDispatch NetInvariant NetService
    Disk FileHdr OpenFile FileDirectory FileSys SwapFile VirtualMem PageFault UserMemory AddrSpace UserCopy FileCalls NetCalls
    SynchList SynchManager ProcessCalls Restaurant
begin

text \<open>
  A verification library for the Nachos operating system of this repository: the kernel, the machine it
  simulates, its file system and its distributed synchronisation service. File names are relative to
  \<open>src/nachos-csci402/code\<close>.

  THE PROGRAM. Nachos is one UNIX process. \<open>machine\<close> simulates the hardware: a MIPS processor with a TLB or a
  page table, a timer and a disk with interrupts, and a network of datagrams. \<open>threads\<close> is the kernel's
  scheduler with semaphores, locks and conditions. \<open>filesys\<close> keeps files on the simulated disk. \<open>userprog\<close>
  runs programs in paged address spaces, with an inverted page table, a software-filled TLB, a swap file and
  system calls. \<open>network\<close> and the network threads of \<open>threads/system.cc\<close> are a distributed service: the
  threads of several kernels exchange messages through post offices that resend what was not acknowledged,
  agree on one order of all messages, and serve locks, condition variables and monitor variables. A program's
  thread and a network thread are a pair: a system call on the network is a request to the partner.

  CONVENTIONS. \<open>Prelude\<close>: an operation that can fail an \<open>ASSERT\<close>, leave an object's bounds, stop the machine
  or loop for ever is a function into \<open>'a result\<close>, with the fault in \<open>Inl\<close>: \<open>Assertion_failed\<close>,
  \<open>Undefined_behaviour\<close>, \<open>Uncaught_exception\<close>, \<open>Machine_halted\<close>, \<open>Diverges\<close> and the like; \<open>bindE\<close> sequences them. Words of the
  simulated machine are 32-bit words; a host \<open>int\<close> is an integer with its overflow written out as a fault,
  or a word where the code relies on its bits. Memory, disk and UNIX files are lists of bytes. Records extend
  one another in the order \<open>machine\<close>, \<open>vm\<close>, \<open>kproc\<close>, \<open>user_proc\<close>, \<open>machine_os\<close>, so that the operations of a lower
  layer work unchanged on the state of a higher one.

  THE MACHINE. \<open>MipsIsa\<close>: the opcodes and \<open>Instruction::Decode\<close> (\<open>machine/mipssim.h\<close>, \<open>mipssim.cc\<close>); decoding
  is total and well typed. \<open>MachineMem\<close>: registers, byte order, \<open>ReadMem\<close>, \<open>WriteMem\<close> and \<open>Translate\<close>
  (\<open>translate.cc\<close>, \<open>machine.cc\<close>); a translation stays in physical memory and honours \<open>readOnly\<close>. \<open>MipsMult\<close>:
  the loop of \<open>Mult\<close> computes the exact product. \<open>MipsSim\<close>: \<open>OneInstruction\<close>, in five definitions that
  follow the switch; \<open>MipsSafety\<close>: what an instruction can do to the kernel, the program counters and delayed
  loads. \<open>Interrupt\<close>: simulated time, \<open>OneTick\<close>, \<open>CheckIfDue\<close>, the timer (\<open>interrupt.cc\<close>, \<open>timer.cc\<close>); the
  devices are the locale \<open>devices\<close>, interpreted by the timer.

  THREADS. \<open>NachosList\<close>: \<open>threads/list.cc\<close> on a heap of elements, refined to abstract lists; a sorted list is
  the locale \<open>keyed_queue\<close>. \<open>Threads\<close>: \<open>scheduler.cc\<close>, \<open>thread.cc\<close> and \<open>synch.cc\<close>. The place where a sleeping thread goes
  on is the value \<open>kont\<close>; the relation \<open>kstep\<close> lets the running thread do any operation, a
  device interrupt come at any time and an idle machine find work, and \<open>kern_inv\<close> holds in every reachable state.
  \<open>SynchList\<close>: the list that threads share (\<open>synchlist.cc\<close>), every method cut at each of its
  operations, so that a thread can lose the CPU between any two; it is a queue, and no wake-up is lost.
  \<open>SynchManager\<close>: the locks and conditions of programs without the network
  (\<open>userprog/SynchManager.cc\<close>), cut where a thread may wait. \<open>Restaurant\<close>: the program of kernel threads in
  \<open>simulation.cc\<close>; \<open>next_seg\<close> is what a thread does at each place of its routine, \<open>rstep\<close> the interleavings.

  THE FILE SYSTEM. \<open>BitMap\<close>: \<open>userprog/bitmap.cc\<close>, an instance of the locale \<open>slot_map\<close> of \<open>Prelude\<close>, through
  which the disk map, the swap file and the frames use it. \<open>Disk\<close>: the UNIX file behind the disk, the time of
  a request and \<open>SynchDisk\<close>; the locale \<open>sector_device\<close> is what the layers above rely on. \<open>FileHdr\<close>, \<open>OpenFile\<close>
  and \<open>FileDirectory\<close> (locale \<open>name_table\<close>) model \<open>filehdr.cc\<close>, \<open>openfile.cc\<close> and \<open>directory.cc\<close>. \<open>FileSys\<close>: \<open>filesys.cc\<close>; the
  invariant \<open>fs_ok\<close> says that the headers, the directory and the map on the disk describe disjoint files,
  and \<open>fs_view\<close> is the abstract file system, a map from names to contents, which \<open>Create\<close>, \<open>Remove\<close>, reading
  and writing refine.

  VIRTUAL MEMORY. \<open>SwapFile\<close>: \<open>userprog/swapfile.cc\<close>. \<open>VirtualMem\<close>: the paging code of \<open>userprog/exception.cc\<close>
  (\<open>HandlePageFault\<close>, \<open>evictAPage\<close>, \<open>loadPageIntoIPT\<close>, \<open>updateTLBFromIPT\<close>) and the flush at a context switch
  (\<open>scheduler.cc\<close>). \<open>PageFault\<close>: the invariant \<open>vm_ok\<close>, and the abstraction \<open>vm_page\<close>: the bytes of a page of
  an address space, wherever they are (frame, swap slot, executable or zero). A fault keeps every page but
  one whose dirty bit only the TLB has; \<open>UserMemory\<close>: loads and stores of a program, context switches and the
  invalidation of the TLB in \<open>Fork\<close> and \<open>Exec\<close>, against that abstraction. \<open>AddrSpace\<close>: \<open>addrspace.cc\<close>, the header of an executable, its
  pages, stacks and the table of open files. \<open>vm_ok\<close> asks that the pages of an executable that hold code or
  data lie in its file: the constructor does not check this, and a page that does not lies outside the theorems.

  SYSTEM CALLS. \<open>UserCopy\<close>: \<open>copyin\<close> and \<open>copyout\<close>; the frame lemmas \<open>same_vm\<close> and \<open>kept\<close> carry the
  invariant through extensions of the state. \<open>FileCalls\<close>: the calls on files over the host's file system
  (\<open>FILESYS_STUB\<close>, as the network configuration is built), the decoding of a call and the return to the
  program; \<open>ExceptionHandler\<close> takes the calls themselves as an argument. \<open>NetCalls\<close>: \<open>Request\<close> of \<open>network/netcall.cc\<close> and the calls on it.
  \<open>ProcessCalls\<close>: \<open>Fork\<close>, \<open>Exec\<close>, \<open>Exit\<close>, \<open>Yield\<close>, the first steps of the threads they make, and
  \<open>StartProcess\<close>; \<open>os_calls\<close> is the whole system call interface. \<open>W\<close> in these theories is what other threads
  do to the post office while the caller waits.

  THE NETWORK. \<open>CStrings\<close>: \<open>parseValue\<close>, \<open>itoa\<close>, and the \<open>sprintf\<close> and \<open>atoi\<close> they meet. \<open>PostOffice\<close>: \<open>post.cc\<close>, \<open>Ack\<close>,
  \<open>processAck\<close> and the resending thread, with the counters that put messages in order; the wire is the list of
  packets sent, and loss and duplication are the environment's. \<open>TotalOrder\<close>: the registration server and the network threads of \<open>system.cc\<close>
  as state machines with one step for every message received; messages of
  a group are processed in the order of their time stamps. The locale \<open>message_processor\<close> is what the ordering asks of the handlers. \<open>NetServer\<close>, \<open>NetCreate\<close>
  and \<open>NetDispatch\<close>: the objects of \<open>netcall.cc\<close>, the functions on them, and every handler of \<open>processMessage\<close>; \<open>NetInvariant\<close>
  proves that all of them keep the server's invariant and interprets the locale with it; \<open>NetService\<close>: the locks are queues,
  variables hold what was set, and what goes wrong.

  BOUNDS AND FUEL. Where a loop of the source may not end, the model counts turns and yields \<open>Diverges\<close>
  when they run out, and the theorems prove that they do not: \<open>brk\<close> turns for a walk over a list, as many as
  there are waiters for \<open>Broadcast\<close>, two for the repeated read in \<open>copyin\<close> (a page fault makes the second one
  succeed), one more than the waiting messages in \<open>await_reply\<close>. \<open>Diverges\<close> as a result means that the code
  really does not return, as in \<open>broadcast_all_or_diverges\<close> and \<open>GetMV_hangs\<close>. Uninitialised memory
  (\<open>junk\<close>), random numbers, the clock of the host and what its file system refuses are parameters. The number
  of frames is the length of the inverted page table, at most the \<open>NumPhysPages\<close> of the source.

  NOT MODELLED. The registers of kernel threads, their stacks and \<open>switch.s\<close>; sockets, files and signals of
  the host beyond what is read and written; debug output, statistics and printing (except what a program writes to the
  console); destructors that only free. The variant of \<open>AddrSpace\<close> without a TLB, which copies a
  program at load time. \<open>machine/console.cc\<close> and \<open>synchconsole.cc\<close>, which the system calls no longer use;
  \<open>processtable.cc\<close>, whose calls are commented out; \<open>userprog/synch.cc\<close>, a copy that is not compiled. The
  tests, the programs in \<open>test\<close> and the C tools in \<open>bin\<close> use the system or help to build it.
\<close>

end
